(* ===== verification/Prelude.thy ===== *)
theory Prelude
  imports Main "HOL-Library.Sublist" "HOL-Library.Multiset"
begin

text \<open>
  Shared ground of the development: the faults a C++ operation can run into, the
  machine-integer ranges the source converts through, truncating division, and the
  generic list lemmas several components use.

  A fallible operation has the type \<open>fault + 'a\<close>: \<open>Inl\<close> is the fault and \<open>Inr\<close> the
  result. An operation that may not return at all has an \<open>option\<close> around its result, and
  \<open>None\<close> stands for "does not return".
\<close>

named_theorems range_simps \<open>unfolding rules of the machine-integer ranges\<close>
named_theorems step_simps \<open>one-step evaluation rules of the components' operations\<close>

section \<open>Faults and results\<close>

datatype fault =
    Out_Of_Bounds        \<comment> \<open>unchecked subscript or \<open>front()\<close> past the end: undefined behaviour\<close>
  | Out_Of_Range         \<comment> \<open>\<open>std::out_of_range\<close>, thrown by \<open>at\<close>, \<open>substr\<close>, \<open>stoi\<close>\<close>
  | Invalid_Argument     \<comment> \<open>\<open>std::invalid_argument\<close>, thrown by \<open>stoi\<close> and \<open>stoll\<close>\<close>
  | Null_Deref           \<comment> \<open>dereference of a null pointer\<close>
  | Bad_Path             \<comment> \<open>\<open>ptree_bad_path\<close>, thrown by \<open>ptree::get_child\<close>\<close>
  | Bad_Function_Call    \<comment> \<open>call of an empty \<open>std::function\<close>\<close>
  | Bad_Cast             \<comment> \<open>a pointer reinterpreted as an object of another type\<close>
  | Use_After_Free       \<comment> \<open>an object used after it was deleted\<close>
  | Signed_Overflow      \<comment> \<open>an \<open>int\<close> computation past its range: undefined behaviour\<close>
  | Div_By_Zero          \<comment> \<open>an integer division by zero: undefined behaviour\<close>
  | System_Error         \<comment> \<open>\<open>std::system_error\<close>, thrown by \<open>join\<close> of a thread that does not run\<close>
  | Device_Error         \<comment> \<open>an exception of the sound library that nobody catches\<close>
  | Assert_Failed        \<comment> \<open>a failed \<open>assert\<close> or \<open>CHECK_F\<close>: the process aborts\<close>

type_synonym 'a result = "fault + 'a"

definition bind_result :: "'a result \<Rightarrow> ('a \<Rightarrow> 'b result) \<Rightarrow> 'b result" where
  "bind_result r f = (case r of Inl e \<Rightarrow> Inl e | Inr a \<Rightarrow> f a)"

lemma bind_result_simps [simp]:
  "bind_result (Inl e) f = Inl e"
  "bind_result (Inr a) f = f a"
  by (simp_all add: bind_result_def)

lemma bind_result_Inr_iff:
  "bind_result r f = Inr b \<longleftrightarrow> (\<exists>a. r = Inr a \<and> f a = Inr b)"
  by (cases r) auto

text \<open>An unchecked subscript \<open>v[i]\<close> of a \<open>std::vector\<close> or of an array.\<close>

definition subscript :: "'a list \<Rightarrow> nat \<Rightarrow> 'a result" where
  "subscript xs i = (if i < length xs then Inr (xs ! i) else Inl Out_Of_Bounds)"

text \<open>The checked subscript \<open>v.at(i)\<close>.\<close>

definition vec_at :: "'a list \<Rightarrow> nat \<Rightarrow> 'a result" where
  "vec_at xs i = (if i < length xs then Inr (xs ! i) else Inl Out_Of_Range)"

lemma subscript_Inr_iff [simp]: "subscript xs i = Inr x \<longleftrightarrow> i < length xs \<and> x = xs ! i"
  by (auto simp: subscript_def)

lemma vec_at_Inr_iff [simp]: "vec_at xs i = Inr x \<longleftrightarrow> i < length xs \<and> x = xs ! i"
  by (auto simp: vec_at_def)

lemma subscript_in: "i < length xs \<Longrightarrow> subscript xs i = Inr (xs ! i)"
  by simp

section \<open>Machine integers\<close>

text \<open>
  Frequencies, indices and delays are mathematical integers in the model; wherever the
  source converts through \<open>int\<close> (32 bits) or \<open>long\<close>/\<open>long long\<close> (64 bits, LP64) the
  range is checked or the wrap-around is written out.
\<close>

definition in_int32 :: "int \<Rightarrow> bool" where
  "in_int32 v \<longleftrightarrow> - (2 ^ 31) \<le> v \<and> v < 2 ^ 31"

definition in_int64 :: "int \<Rightarrow> bool" where
  "in_int64 v \<longleftrightarrow> - (2 ^ 63) \<le> v \<and> v < 2 ^ 63"

lemma in_int32_code [range_simps]: "in_int32 v \<longleftrightarrow> -2147483648 \<le> v \<and> v \<le> 2147483647"
  by (auto simp: in_int32_def)

lemma in_int64_code [range_simps]:
  "in_int64 v \<longleftrightarrow> -9223372036854775808 \<le> v \<and> v \<le> 9223372036854775807"
  by (auto simp: in_int64_def)

lemma in_int32_int64: "in_int32 v \<Longrightarrow> in_int64 v"
  by (simp add: range_simps)

text \<open>A conversion to a 32-bit \<open>int\<close> keeps the value modulo \<open>2 ^ 32\<close>.\<close>

definition wrap32 :: "int \<Rightarrow> int" where
  "wrap32 v = (v + 2 ^ 31) mod 2 ^ 32 - 2 ^ 31"

lemma wrap32_in_range: "in_int32 (wrap32 v)"
  by (simp add: wrap32_def in_int32_def)

lemma wrap32_id: "in_int32 v \<Longrightarrow> wrap32 v = v"
  by (simp add: wrap32_def in_int32_def)

text \<open>C++ integer division truncates towards zero.\<close>

definition cdiv :: "int \<Rightarrow> int \<Rightarrow> int" where
  "cdiv a b = sgn a * sgn b * (\<bar>a\<bar> div \<bar>b\<bar>)"

lemma cdiv_nonneg: "0 \<le> a \<Longrightarrow> 0 < b \<Longrightarrow> cdiv a b = a div b"
  by (cases "a = 0") (auto simp: cdiv_def)

lemma cdiv_2_bounds: "cdiv a 2 * 2 \<le> a + 1 \<and> a - 1 \<le> cdiv a 2 * 2"
proof (cases "0 \<le> a")
  case True
  then show ?thesis by (simp add: cdiv_nonneg) presburger
next
  case False
  then have "cdiv a 2 = - (- a div 2)" by (simp add: cdiv_def)
  with False show ?thesis by presburger
qed

section \<open>Lists\<close>

lemma map_upd_nth_eq: "i < length xs \<Longrightarrow> xs[i := y] ! i = y"
  by simp

lemma sorted_wrt_nth_le:
  assumes "sorted_wrt P xs" "i < j" "j < length xs"
  shows "P (xs ! i) (xs ! j)"
  using assms by (simp add: sorted_wrt_nth_less)

lemma sorted_map_hd_le:
  assumes "sorted (map f xs)" "x \<in> set xs"
  shows "f (hd xs) \<le> f x"
  using assms by (cases xs) auto

lemma sorted_map_last_ge:
  assumes "sorted (map f xs)" "x \<in> set xs"
  shows "f x \<le> f (last xs)"
  using assms by (induction xs) auto

lemma filter_length_eq_all: "length (filter P xs) = length xs \<longleftrightarrow> (\<forall>x\<in>set xs. P x)"
proof (induction xs)
  case (Cons a xs)
  have "length (filter P xs) \<le> length xs" by simp
  with Cons show ?case by (auto simp del: length_filter_le)
qed simp

text \<open>Indices paired with the elements of a list, as an indexed loop visits them.\<close>

lemma nth_enumerate_map: "i < length xs \<Longrightarrow> map f (enumerate 0 xs) ! i = f (i, xs ! i)"
  by (simp add: nth_enumerate_eq)

end
