(* ===== verification/Std_Strings.thy ===== *)
theory Std_Strings
  imports Prelude
begin

text \<open>
  The parts of the C++ standard library's string handling that the sources use:
  \<open>std::to_string\<close> on integers, \<open>std::stoi\<close> and \<open>std::stoll\<close> with the exceptions they
  throw, \<open>std::string::substr\<close>, and \<open>std::getline\<close> with a delimiter, the way the
  tokenisers of \<open>SentinelFile\<close> and \<open>DebugConsole\<close> loop over it.
\<close>

section \<open>Printing integers: \<open>std::to_string\<close>\<close>

definition digit_char :: "nat \<Rightarrow> char" where
  "digit_char d = char_of (48 + d)"

definition is_digit :: "char \<Rightarrow> bool" where
  "is_digit c \<longleftrightarrow> 48 \<le> (of_char c :: nat) \<and> (of_char c :: nat) \<le> 57"

fun nat_digits :: "nat \<Rightarrow> string" where
  "nat_digits n = (if n < 10 then [digit_char n] else nat_digits (n div 10) @ [digit_char (n mod 10)])"

declare nat_digits.simps [simp del]

definition to_string :: "int \<Rightarrow> string" where
  "to_string v = (if v < 0 then CHR ''-'' # nat_digits (nat (- v)) else nat_digits (nat v))"

section \<open>Reading integers: \<open>std::stoi\<close>, \<open>std::stoll\<close>\<close>

definition is_space :: "char \<Rightarrow> bool" where
  "is_space c \<longleftrightarrow> (of_char c :: nat) = 32 \<or> (9 \<le> (of_char c :: nat) \<and> (of_char c :: nat) \<le> 13)"

fun dec_value :: "nat \<Rightarrow> string \<Rightarrow> nat" where
  "dec_value acc [] = acc"
| "dec_value acc (c # cs) = dec_value (10 * acc + (of_char c - 48)) cs"

fun split_sign :: "string \<Rightarrow> int \<times> string" where
  "split_sign [] = (1, [])"
| "split_sign (c # cs) =
     (if c = CHR ''-'' then (-1, cs) else if c = CHR ''+'' then (1, cs) else (1, c # cs))"

definition strtol :: "string \<Rightarrow> int result" where
  "strtol s =
     (let (sg, body) = split_sign (dropWhile is_space s); ds = takeWhile is_digit body
      in if ds = [] then Inl Invalid_Argument else Inr (sg * int (dec_value 0 ds)))"

definition stoi :: "string \<Rightarrow> int result" where
  "stoi s = bind_result (strtol s) (\<lambda>v. if in_int32 v then Inr v else Inl Out_Of_Range)"

definition stoll :: "string \<Rightarrow> int result" where
  "stoll s = bind_result (strtol s) (\<lambda>v. if in_int64 v then Inr v else Inl Out_Of_Range)"

section \<open>Substrings and tokens\<close>

text \<open>\<open>s.substr(p)\<close> and \<open>s.substr(p, n)\<close> throw \<open>out_of_range\<close> when \<open>p > s.size()\<close>.\<close>

definition substr_from :: "string \<Rightarrow> nat \<Rightarrow> string result" where
  "substr_from s p = (if p \<le> length s then Inr (drop p s) else Inl Out_Of_Range)"

text \<open>
  \<open>while(std::getline(stream, tok, d)) out.push_back(tok);\<close>: every token ended by the
  delimiter, and a last one if characters remain after the last delimiter.
\<close>

function getline_tokens :: "char \<Rightarrow> string \<Rightarrow> string list" where
  "getline_tokens d [] = []"
| "getline_tokens d (c # s) =
     (let tok = takeWhile (\<lambda>x. x \<noteq> d) (c # s); rest = dropWhile (\<lambda>x. x \<noteq> d) (c # s)
      in tok # getline_tokens d (drop 1 rest))"
  by pat_completeness auto
termination
proof (relation "measure (\<lambda>(d, s). length s)")
  fix d c and s :: string and tok rest :: string
  assume "rest = dropWhile (\<lambda>x. x \<noteq> d) (c # s)"
  then have "length rest \<le> length (c # s)"
    using length_dropWhile_le by metis
  then show "((d, drop 1 rest), (d, c # s)) \<in> measure (\<lambda>(d, s). length s)"
    by simp
qed simp

declare getline_tokens.simps(2) [simp del]

section \<open>Reading back what was printed\<close>

lemma is_digit_digit_char [simp]: "d < 10 \<Longrightarrow> is_digit (digit_char d)"
  by (simp add: is_digit_def digit_char_def)

lemma of_char_digit_char [simp]: "d < 10 \<Longrightarrow> of_char (digit_char d) - (48::nat) = d"
  by (simp add: digit_char_def)

lemma nat_digits_all_digits: "c \<in> set (nat_digits n) \<Longrightarrow> is_digit c"
proof (induction n rule: nat_digits.induct)
  case (1 n)
  then show ?case
    by (cases "n < 10") (auto simp: nat_digits.simps [of n])
qed

lemma nat_digits_nonempty [simp]: "nat_digits n \<noteq> []"
  by (subst nat_digits.simps) simp

lemma dec_value_append: "dec_value a (xs @ ys) = dec_value (dec_value a xs) ys"
  by (induction xs arbitrary: a) auto

lemma dec_value_nat_digits: "dec_value 0 (nat_digits n) = n"
proof (induction n rule: nat_digits.induct)
  case (1 n)
  then show ?case
    by (cases "n < 10") (simp_all add: nat_digits.simps [of n] dec_value_append)
qed

lemma takeWhile_digits [simp]: "takeWhile is_digit (nat_digits n) = nat_digits n"
  by (simp add: takeWhile_eq_all_conv nat_digits_all_digits)

lemma digit_facts: "is_digit c \<Longrightarrow> \<not> is_space c \<and> c \<noteq> CHR ''-'' \<and> c \<noteq> CHR ''+''"
  by (auto simp: is_digit_def is_space_def)

lemma hd_nat_digits: "\<exists>c cs. nat_digits n = c # cs \<and> is_digit c"
  by (cases "nat_digits n") (use nat_digits_all_digits [of _ n] in auto)

lemma strtol_to_string: "strtol (to_string v) = Inr v"
proof (cases "v < 0")
  case True
  then show ?thesis
    by (simp add: strtol_def to_string_def is_space_def dec_value_nat_digits)
next
  case False
  obtain c cs where c: "nat_digits (nat v) = c # cs" "is_digit c"
    using hd_nat_digits by blast
  have "split_sign (dropWhile is_space (nat_digits (nat v))) = (1, nat_digits (nat v))"
    using c digit_facts [OF c(2)] by simp
  with False show ?thesis
    by (simp add: strtol_def to_string_def dec_value_nat_digits)
qed

lemma stoi_to_string: "stoi (to_string v) = (if in_int32 v then Inr v else Inl Out_Of_Range)"
  by (simp add: stoi_def strtol_to_string)

lemma stoll_to_string: "stoll (to_string v) = (if in_int64 v then Inr v else Inl Out_Of_Range)"
  by (simp add: stoll_def strtol_to_string)

lemma to_string_inject: "to_string v = to_string w \<longleftrightarrow> v = w"
  using strtol_to_string by (metis sum.inject(2))

lemma stoi_in_int32: "stoi s = Inr v \<Longrightarrow> in_int32 v"
  by (auto simp: stoi_def bind_result_Inr_iff split: if_splits)

lemma stoll_in_int64: "stoll s = Inr v \<Longrightarrow> in_int64 v"
  by (auto simp: stoll_def bind_result_Inr_iff split: if_splits)

section \<open>Tokens read back\<close>

text \<open>Writing tokens with the delimiter after each, as the inverse of the tokeniser.\<close>

definition join_tokens :: "char \<Rightarrow> string list \<Rightarrow> string" where
  "join_tokens d ts = concat (map (\<lambda>t. t @ [d]) ts)"

lemma split_at_delim:
  assumes "d \<notin> set t"
  shows "takeWhile (\<lambda>x. x \<noteq> d) (t @ d # s) = t" "dropWhile (\<lambda>x. x \<noteq> d) (t @ d # s) = d # s"
  using assms by (induction t) auto

lemma getline_tokens_step:
  assumes "d \<notin> set t"
  shows "getline_tokens d (t @ d # s) = t # getline_tokens d s"
proof -
  obtain c cs where c: "t @ d # s = c # cs" by (cases "t @ d # s") auto
  show ?thesis
    using split_at_delim [OF assms, of s] by (simp add: getline_tokens.simps Let_def c)
qed

lemma getline_tokens_join:
  "(\<forall>t\<in>set ts. d \<notin> set t) \<Longrightarrow> getline_tokens d (join_tokens d ts) = ts"
  by (induction ts) (auto simp: join_tokens_def getline_tokens_step)

lemma getline_tokens_no_delim: "t \<in> set (getline_tokens d s) \<Longrightarrow> d \<notin> set t"
proof (induction d s rule: getline_tokens.induct)
  case (2 d c s)
  then show ?case
    by (auto simp: getline_tokens.simps Let_def dest: set_takeWhileD split: if_splits)
qed simp

end
