(* ===== verification/Property_Tree.thy ===== *)
theory Property_Tree
  imports Std_Strings Complex_Main
begin

text \<open>
  \<open>boost::property_tree\<close>, the third-party container that carries the JSON database, the
  configuration and the saved state. It is a parameter of the model: a record of the
  operations the sources call, over an unknown tree type \<open>'pt\<close>. What the sources rely on
  is \<open>ptree_laws\<close>, the documented behaviour of \<open>put\<close>, \<open>get\<close>, \<open>get_child\<close>,
  \<open>put_child\<close>/\<open>add_child\<close> and \<open>erase\<close>; theorems that need it take it as a hypothesis, and
  \<open>ctree_api\<close> at the end is a concrete tree for which it holds, used in witnesses only.
\<close>

section \<open>Paths\<close>

text \<open>
  A path string is cut at the separator \<open>'.'\<close> the way \<open>string_path::reduce\<close> does: an
  empty string is the node itself, and a trailing separator is ignored
  (\<open>"systems."\<close> names the child \<open>systems\<close>).
\<close>

definition parse_path :: "string \<Rightarrow> string list" where
  "parse_path s = getline_tokens (CHR ''.'') s"

section \<open>The interface\<close>

text \<open>
  The value types that are ever stored. \<open>put\<close> writes a value through an output stream and
  \<open>get\<close> reads the text back as the type it asks for. A \<open>float\<close> is the rational number it
  denotes.
\<close>

datatype pt_value = PStr string | PNum int | PBool bool | PFloat rat

record 'pt ptree_api =
  pt_empty :: 'pt
  pt_put :: "'pt \<Rightarrow> string list \<Rightarrow> pt_value \<Rightarrow> 'pt"
  pt_str :: "'pt \<Rightarrow> string list \<Rightarrow> string option"
  pt_num :: "'pt \<Rightarrow> string list \<Rightarrow> int option"
  pt_bool :: "'pt \<Rightarrow> string list \<Rightarrow> bool option"
  pt_children :: "'pt \<Rightarrow> string list \<Rightarrow> 'pt list option"
  pt_put_children :: "'pt \<Rightarrow> string list \<Rightarrow> 'pt list \<Rightarrow> 'pt"
  pt_erase :: "'pt \<Rightarrow> string \<Rightarrow> 'pt"

text \<open>
  \<open>pt.get(path, default)\<close>. The type of the default selects the type that is read, and a
  text that does not denote a value of that type gives the default: an \<open>int\<close> default reads
  a 32-bit integer even where the program goes on with a \<open>long long\<close>.
\<close>

definition get_str :: "'pt ptree_api \<Rightarrow> 'pt \<Rightarrow> string list \<Rightarrow> string \<Rightarrow> string" where
  "get_str api t p d = (case pt_str api t p of Some s \<Rightarrow> s | None \<Rightarrow> d)"

definition get_bool :: "'pt ptree_api \<Rightarrow> 'pt \<Rightarrow> string list \<Rightarrow> bool \<Rightarrow> bool" where
  "get_bool api t p d = (case pt_bool api t p of Some b \<Rightarrow> b | None \<Rightarrow> d)"

definition get_int :: "'pt ptree_api \<Rightarrow> 'pt \<Rightarrow> string list \<Rightarrow> int \<Rightarrow> int" where
  "get_int api t p d = (case pt_num api t p of Some v \<Rightarrow> if in_int32 v then v else d | None \<Rightarrow> d)"

definition get_long :: "'pt ptree_api \<Rightarrow> 'pt \<Rightarrow> string list \<Rightarrow> int \<Rightarrow> int" where
  "get_long api t p d = (case pt_num api t p of Some v \<Rightarrow> if in_int64 v then v else d | None \<Rightarrow> d)"

text \<open>\<open>pt.get_child(path)\<close>, read for the \<open>second\<close> of its children in order.\<close>

definition get_child :: "'pt ptree_api \<Rightarrow> 'pt \<Rightarrow> string list \<Rightarrow> 'pt list result" where
  "get_child api t p = (case pt_children api t p of Some cs \<Rightarrow> Inr cs | None \<Rightarrow> Inl Bad_Path)"

section \<open>Documented behaviour\<close>

text \<open>
  A value reads back as what was put; a put changes no node but the ones on its path;
  \<open>erase(key)\<close> removes direct children of that name only. The text of a float is an
  integer exactly when the float is a whole number (of moderate size, so that the stream
  does not switch to exponent notation).
\<close>

definition ptree_read_laws :: "'pt ptree_api \<Rightarrow> bool" where
  "ptree_read_laws api \<longleftrightarrow>
     (\<forall>t p s. pt_str api (pt_put api t p (PStr s)) p = Some s) \<and>
     (\<forall>t p v. pt_str api (pt_put api t p (PNum v)) p = Some (to_string v)) \<and>
     (\<forall>t p v. pt_num api (pt_put api t p (PNum v)) p = Some v) \<and>
     (\<forall>t p b. pt_bool api (pt_put api t p (PBool b)) p = Some b) \<and>
     (\<forall>t p x. \<bar>x\<bar> < 1000000 \<longrightarrow>
        pt_num api (pt_put api t p (PFloat x)) p = (if of_int \<lfloor>x\<rfloor> = x then Some \<lfloor>x\<rfloor> else None)) \<and>
     (\<forall>t p cs. pt_children api (pt_put_children api t p cs) p = Some cs)"

definition ptree_frame_laws :: "'pt ptree_api \<Rightarrow> bool" where
  "ptree_frame_laws api \<longleftrightarrow>
     (\<forall>t p v q. \<not> prefix q p \<longrightarrow>
        pt_str api (pt_put api t p v) q = pt_str api t q \<and>
        pt_num api (pt_put api t p v) q = pt_num api t q \<and>
        pt_bool api (pt_put api t p v) q = pt_bool api t q \<and>
        pt_children api (pt_put api t p v) q = pt_children api t q) \<and>
     (\<forall>t p cs q. \<not> prefix q p \<longrightarrow> \<not> prefix p q \<longrightarrow>
        pt_str api (pt_put_children api t p cs) q = pt_str api t q \<and>
        pt_num api (pt_put_children api t p cs) q = pt_num api t q \<and>
        pt_bool api (pt_put_children api t p cs) q = pt_bool api t q \<and>
        pt_children api (pt_put_children api t p cs) q = pt_children api t q) \<and>
     (\<forall>t k q. q \<noteq> [] \<longrightarrow> hd q \<noteq> k \<longrightarrow>
        pt_str api (pt_erase api t k) q = pt_str api t q \<and>
        pt_num api (pt_erase api t k) q = pt_num api t q \<and>
        pt_bool api (pt_erase api t k) q = pt_bool api t q \<and>
        pt_children api (pt_erase api t k) q = pt_children api t q)"

definition ptree_laws :: "'pt ptree_api \<Rightarrow> bool" where
  "ptree_laws api \<longleftrightarrow> ptree_read_laws api \<and> ptree_frame_laws api \<and>
     (\<forall>q. q \<noteq> [] \<longrightarrow> pt_str api (pt_empty api) q = None \<and> pt_num api (pt_empty api) q = None \<and>
        pt_bool api (pt_empty api) q = None \<and> pt_children api (pt_empty api) q = None)"

named_theorems pt_simps \<open>reading a property tree that was just written\<close>

lemma ptree_read [pt_simps]:
  assumes "ptree_laws api"
  shows "get_str api (pt_put api t p (PStr s)) p d = s"
    and "get_str api (pt_put api t p (PNum v)) p d = to_string v"
    and "get_int api (pt_put api t p (PNum v)) p i = (if in_int32 v then v else i)"
    and "get_long api (pt_put api t p (PNum v)) p i = (if in_int64 v then v else i)"
    and "get_bool api (pt_put api t p (PBool b)) p c = b"
    and "get_child api (pt_put_children api t p cs) p = Inr cs"
  using assms
  by (simp_all add: ptree_laws_def ptree_read_laws_def get_str_def get_int_def get_long_def
      get_bool_def get_child_def)

lemma ptree_read_float [pt_simps]:
  assumes "ptree_laws api" "\<bar>x\<bar> < 1000000"
  shows "get_int api (pt_put api t p (PFloat x)) p i =
    (if of_int \<lfloor>x\<rfloor> = x \<and> in_int32 \<lfloor>x\<rfloor> then \<lfloor>x\<rfloor> else i)"
  using assms by (simp add: ptree_laws_def ptree_read_laws_def get_int_def)

lemma ptree_frame [pt_simps]:
  assumes "ptree_laws api" "\<not> prefix q p"
  shows "get_str api (pt_put api t p v) q d = get_str api t q d"
    and "get_int api (pt_put api t p v) q i = get_int api t q i"
    and "get_long api (pt_put api t p v) q i = get_long api t q i"
    and "get_bool api (pt_put api t p v) q c = get_bool api t q c"
    and "get_child api (pt_put api t p v) q = get_child api t q"
  using assms
  by (simp_all add: ptree_laws_def ptree_frame_laws_def get_str_def get_int_def get_long_def
      get_bool_def get_child_def)

lemma ptree_frame_children [pt_simps]:
  assumes "ptree_laws api" "\<not> prefix q p" "\<not> prefix p q"
  shows "get_str api (pt_put_children api t p cs) q d = get_str api t q d"
    and "get_int api (pt_put_children api t p cs) q i = get_int api t q i"
    and "get_long api (pt_put_children api t p cs) q i = get_long api t q i"
    and "get_bool api (pt_put_children api t p cs) q c = get_bool api t q c"
    and "get_child api (pt_put_children api t p cs) q = get_child api t q"
  using assms
  by (simp_all add: ptree_laws_def ptree_frame_laws_def get_str_def get_int_def get_long_def
      get_bool_def get_child_def)

lemma ptree_frame_erase [pt_simps]:
  assumes "ptree_laws api" "q \<noteq> []" "hd q \<noteq> k"
  shows "get_str api (pt_erase api t k) q d = get_str api t q d"
    and "get_int api (pt_erase api t k) q i = get_int api t q i"
    and "get_long api (pt_erase api t k) q i = get_long api t q i"
    and "get_bool api (pt_erase api t k) q c = get_bool api t q c"
    and "get_child api (pt_erase api t k) q = get_child api t q"
  using assms
  by (simp_all add: ptree_laws_def ptree_frame_laws_def get_str_def get_int_def get_long_def
      get_bool_def get_child_def)

lemma ptree_empty [pt_simps]:
  assumes "ptree_laws api" "q \<noteq> []"
  shows "get_str api (pt_empty api) q d = d"
    and "get_int api (pt_empty api) q i = i"
    and "get_long api (pt_empty api) q i = i"
    and "get_bool api (pt_empty api) q c = c"
    and "get_child api (pt_empty api) q = Inl Bad_Path"
  using assms
  by (simp_all add: ptree_laws_def get_str_def get_int_def get_long_def get_bool_def get_child_def)

text \<open>An \<open>int\<close> read never leaves the 32-bit range, unless it is the default itself.\<close>

lemma get_int_range: "in_int32 d \<Longrightarrow> in_int32 (get_int api t p d)"
  by (auto simp: get_int_def split: option.splits)

section \<open>A concrete tree, for witnesses\<close>

datatype ctree = CTree "(string list \<times> pt_value) list" "(string list \<times> ctree list) list"

fun ct_vals :: "ctree \<Rightarrow> (string list \<times> pt_value) list" where
  "ct_vals (CTree vs ks) = vs"

fun ct_kids :: "ctree \<Rightarrow> (string list \<times> ctree list) list" where
  "ct_kids (CTree vs ks) = ks"

fun value_str :: "pt_value \<Rightarrow> string option" where
  "value_str (PStr s) = Some s"
| "value_str (PNum v) = Some (to_string v)"
| "value_str _ = None"

fun value_num :: "pt_value \<Rightarrow> int option" where
  "value_num (PNum v) = Some v"
| "value_num (PFloat x) = (if of_int \<lfloor>x\<rfloor> = x then Some \<lfloor>x\<rfloor> else None)"
| "value_num _ = None"

fun value_bool :: "pt_value \<Rightarrow> bool option" where
  "value_bool (PBool b) = Some b"
| "value_bool _ = None"

definition ctree_api :: "ctree ptree_api" where
  "ctree_api = \<lparr>
     pt_empty = CTree [] [],
     pt_put = (\<lambda>t p v. CTree ((p, v) # ct_vals t) (ct_kids t)),
     pt_str = (\<lambda>t p. Option.bind (map_of (ct_vals t) p) value_str),
     pt_num = (\<lambda>t p. Option.bind (map_of (ct_vals t) p) value_num),
     pt_bool = (\<lambda>t p. Option.bind (map_of (ct_vals t) p) value_bool),
     pt_children = (\<lambda>t p. map_of (ct_kids t) p),
     pt_put_children = (\<lambda>t p cs. CTree (ct_vals t) ((p, cs) # ct_kids t)),
     pt_erase = (\<lambda>t k. CTree (filter (\<lambda>(q, v). q = [] \<or> hd q \<noteq> k) (ct_vals t))
                             (filter (\<lambda>(q, v). q = [] \<or> hd q \<noteq> k) (ct_kids t)))\<rparr>"

lemma map_of_filter_key:
  "P q \<Longrightarrow> map_of (filter (\<lambda>(q, v). P q) xs) q = map_of xs q"
  by (induction xs) auto

lemma ctree_laws: "ptree_laws ctree_api"
proof -
  have "ptree_read_laws ctree_api"
    by (simp add: ptree_read_laws_def ctree_api_def)
  moreover have "ptree_frame_laws ctree_api"
    by (auto simp: ptree_frame_laws_def ctree_api_def map_of_filter_key)
  ultimately show ?thesis by (simp add: ptree_laws_def ctree_api_def)
qed

end
