(* ===== verification/Entry.thy ===== *)
theory Entry
  imports Property_Tree
begin

text \<open>
  Scanner entries (src/src/scan/Entry.h, src/src/scan/Entry.cpp): the class \<open>Entry\<close>
  with its subclasses \<open>DummyChannel\<close>, \<open>FMChannel\<close>, \<open>PLChannel\<close>, \<open>DCChannel\<close> and
  \<open>AMChannel\<close>, the property tree each carries, and the check for a signal through the
  interface \<open>DemodInterface\<close> of src/src/sigproc/sigproc_types.h.

  No part of the program calls \<open>lockout()\<close> on an entry that is already in a list, so an
  entry is a value; the lists and bins that share a \<open>shared_ptr\<close> hold the same value.
\<close>

section \<open>Data\<close>

datatype modulation = NFM | FM | AM

text \<open>The class of an entry; the string is \<open>s_tone\<close> or \<open>s_code\<close>.\<close>

datatype channel_kind = Dummy_Channel | FM_Channel | PL_Channel string | DC_Channel string | AM_Channel

datatype lockout_type = LOCKOUT_NONE | LOCKOUT_PERSIST | LOCKOUT_SESSION | LOCKOUT_TIMER

record 'pt entry =
  en_kind :: channel_kind
  en_tag :: string
  en_lockout :: lockout_type
  en_delayMS :: int
  en_freq :: int
  en_sysIndex :: nat
  en_entryIndex :: nat
  en_ptree :: 'pt

section \<open>Keys of the database (src/src/scan/scan_types.h)\<close>

definition tag_key :: string where "tag_key = ''tag''"
definition lockout_key :: string where "lockout_key = ''lockout''"
definition delay_key :: string where "delay_key = ''delay''"
definition freq_key :: string where "freq_key = ''freq''"
definition tone_key :: string where "tone_key = ''tone''"
definition code_key :: string where "code_key = ''code''"
definition chantype_key :: string where "chantype_key = ''chantype''"
definition type_fm :: string where "type_fm = ''fmc''"
definition type_am :: string where "type_am = ''amc''"
definition type_pl :: string where "type_pl = ''plc''"
definition type_dc :: string where "type_dc = ''dcc''"

lemmas entry_key_defs = tag_key_def lockout_key_def delay_key_def freq_key_def tone_key_def
  code_key_def chantype_key_def
lemmas entry_type_defs = type_fm_def type_am_def type_pl_def type_dc_def

section \<open>Constructors\<close>

text \<open>The constructor of the base class \<open>Entry\<close>.\<close>

definition Entry_init :: "'pt ptree_api \<Rightarrow> channel_kind \<Rightarrow> int \<Rightarrow> string \<Rightarrow> bool \<Rightarrow> int \<Rightarrow> 'pt entry" where
  "Entry_init api kind freq tag lo del = \<lparr>
     en_kind = kind,
     en_tag = tag,
     en_lockout = (if lo then LOCKOUT_PERSIST else LOCKOUT_NONE),
     en_delayMS = del,
     en_freq = freq,
     en_sysIndex = 0,
     en_entryIndex = 0,
     en_ptree =
       (let t0 = pt_empty api;
            t1 = pt_put api t0 (parse_path tag_key) (PStr tag);
            t2 = pt_put api t1 (parse_path lockout_key) (PBool lo)
        in pt_put api t2 (parse_path delay_key) (PNum del))\<rparr>"

definition put_field :: "'pt ptree_api \<Rightarrow> string \<Rightarrow> pt_value \<Rightarrow> 'pt entry \<Rightarrow> 'pt entry" where
  "put_field api k v e = e\<lparr>en_ptree := pt_put api (en_ptree e) (parse_path k) v\<rparr>"

definition Channel_init :: "'pt ptree_api \<Rightarrow> channel_kind \<Rightarrow> int \<Rightarrow> string \<Rightarrow> bool \<Rightarrow> int \<Rightarrow> 'pt entry" where
  "Channel_init api kind freq tag lo del =
     put_field api freq_key (PNum freq) (Entry_init api kind freq tag lo del)"

definition DummyChannel :: "'pt ptree_api \<Rightarrow> int \<Rightarrow> 'pt entry" where
  "DummyChannel api freq = Channel_init api Dummy_Channel freq '''' False 0"

definition FMChannel :: "'pt ptree_api \<Rightarrow> int \<Rightarrow> string \<Rightarrow> bool \<Rightarrow> int \<Rightarrow> 'pt entry" where
  "FMChannel api freq tag lo del =
     put_field api chantype_key (PStr type_fm) (Channel_init api FM_Channel freq tag lo del)"

text \<open>A \<open>PLChannel\<close> and a \<open>DCChannel\<close> are \<open>FMChannel\<close>s first, then overwrite the type.\<close>

definition PLChannel :: "'pt ptree_api \<Rightarrow> int \<Rightarrow> string \<Rightarrow> string \<Rightarrow> bool \<Rightarrow> int \<Rightarrow> 'pt entry" where
  "PLChannel api freq tn tag lo del =
     put_field api tone_key (PStr tn)
      (put_field api chantype_key (PStr type_pl)
        ((FMChannel api freq tag lo del)\<lparr>en_kind := PL_Channel tn\<rparr>))"

definition DCChannel :: "'pt ptree_api \<Rightarrow> int \<Rightarrow> string \<Rightarrow> string \<Rightarrow> bool \<Rightarrow> int \<Rightarrow> 'pt entry" where
  "DCChannel api freq tn tag lo del =
     put_field api code_key (PStr tn)
      (put_field api chantype_key (PStr type_dc)
        ((FMChannel api freq tag lo del)\<lparr>en_kind := DC_Channel tn\<rparr>))"

definition AMChannel :: "'pt ptree_api \<Rightarrow> int \<Rightarrow> string \<Rightarrow> bool \<Rightarrow> int \<Rightarrow> 'pt entry" where
  "AMChannel api freq tag lo del =
     put_field api chantype_key (PStr type_am) (Channel_init api AM_Channel freq tag lo del)"

lemmas channel_defs = Entry_init_def put_field_def Channel_init_def DummyChannel_def FMChannel_def
  PLChannel_def DCChannel_def AMChannel_def

section \<open>Operations\<close>

definition isLockedOut :: "'pt entry \<Rightarrow> bool" where
  "isLockedOut e \<longleftrightarrow> en_lockout e \<noteq> LOCKOUT_NONE"

definition lockout_entry :: "'pt ptree_api \<Rightarrow> bool \<Rightarrow> 'pt entry \<Rightarrow> 'pt entry" where
  "lockout_entry api val e =
     put_field api lockout_key (PBool val)
       (e\<lparr>en_lockout := (if val then LOCKOUT_PERSIST else LOCKOUT_NONE)\<rparr>)"

definition isDummy :: "'pt entry \<Rightarrow> bool" where
  "isDummy e \<longleftrightarrow> en_kind e = Dummy_Channel"

fun kind_modulation :: "channel_kind \<Rightarrow> string" where
  "kind_modulation Dummy_Channel = ''''"
| "kind_modulation FM_Channel = ''NFM''"
| "kind_modulation (PL_Channel tone) = ''PL'' @ tone"
| "kind_modulation (DC_Channel code) = ''DC'' @ code"
| "kind_modulation AM_Channel = ''AM''"

definition modulation_of :: "'pt entry \<Rightarrow> string" where
  "modulation_of e = kind_modulation (en_kind e)"

fun kind_suffix :: "channel_kind \<Rightarrow> string" where
  "kind_suffix Dummy_Channel = ''''"
| "kind_suffix FM_Channel = ''FM''"
| "kind_suffix (PL_Channel tone) = ''FM'' @ ''PL'' @ tone"
| "kind_suffix (DC_Channel code) = ''FM'' @ ''DC'' @ code"
| "kind_suffix AM_Channel = ''AM''"

definition entry_key :: "'pt entry \<Rightarrow> string" where
  "entry_key e = ''F'' @ to_string (en_freq e) @ kind_suffix (en_kind e)"

section \<open>Field values of the constructed channels\<close>

lemma channel_fields [simp]:
  "en_freq (DummyChannel api f) = f" "en_kind (DummyChannel api f) = Dummy_Channel"
  "en_sysIndex (DummyChannel api f) = 0" "en_lockout (DummyChannel api f) = LOCKOUT_NONE"
  "en_freq (FMChannel api f tag lo del) = f" "en_kind (FMChannel api f tag lo del) = FM_Channel"
  "en_freq (AMChannel api f tag lo del) = f" "en_kind (AMChannel api f tag lo del) = AM_Channel"
  "en_freq (PLChannel api f s tag lo del) = f" "en_kind (PLChannel api f s tag lo del) = PL_Channel s"
  "en_freq (DCChannel api f s tag lo del) = f" "en_kind (DCChannel api f s tag lo del) = DC_Channel s"
  by (simp_all add: channel_defs)

lemma channel_tags [simp]:
  "en_tag (FMChannel api f tag lo del) = tag" "en_tag (AMChannel api f tag lo del) = tag"
  "en_tag (PLChannel api f s tag lo del) = tag" "en_tag (DCChannel api f s tag lo del) = tag"
  "en_delayMS (FMChannel api f tag lo del) = del" "en_delayMS (AMChannel api f tag lo del) = del"
  "en_delayMS (PLChannel api f s tag lo del) = del" "en_delayMS (DCChannel api f s tag lo del) = del"
  by (simp_all add: channel_defs)

lemma channel_lockouts [simp]:
  "isLockedOut (DummyChannel api f) \<longleftrightarrow> False"
  "isLockedOut (FMChannel api f tag lo del) \<longleftrightarrow> lo" "isLockedOut (AMChannel api f tag lo del) \<longleftrightarrow> lo"
  "isLockedOut (PLChannel api f s tag lo del) \<longleftrightarrow> lo"
  "isLockedOut (DCChannel api f s tag lo del) \<longleftrightarrow> lo"
  by (simp_all add: channel_defs isLockedOut_def)

lemma isDummy_DummyChannel [simp]: "isDummy (DummyChannel api f)"
  by (simp add: isDummy_def)

section \<open>Keys identify channels\<close>

lemma digits_then_letter:
  assumes "\<forall>c\<in>set ds. P c" "\<forall>c\<in>set es. P c" "ds @ s = es @ t"
    and "s = [] \<or> \<not> P (hd s)" "t = [] \<or> \<not> P (hd t)"
  shows "ds = es \<and> s = t"
proof -
  have "takeWhile P (ds @ s) = ds" if "\<forall>c\<in>set ds. P c" "s = [] \<or> \<not> P (hd s)" for ds s
    using that by (induction ds) (cases s; simp)+
  then have "ds = es" using assms by metis
  then show ?thesis using assms(3) by simp
qed

lemma to_string_chars: "\<forall>c\<in>set (to_string v). is_digit c \<or> c = CHR ''-''"
  by (auto simp: to_string_def dest: nat_digits_all_digits)

lemma kind_suffix_letter:
  "kind_suffix k = [] \<or> \<not> (is_digit (hd (kind_suffix k)) \<or> hd (kind_suffix k) = CHR ''-'')"
  by (cases k) (simp_all add: is_digit_def)

lemma kind_suffix_inject: "kind_suffix k = kind_suffix k' \<Longrightarrow> k = k'"
  by (cases k; cases k') auto

lemma entry_key_identifies:
  assumes "entry_key e = entry_key e'"
  shows "en_freq e = en_freq e' \<and> en_kind e = en_kind e'"
proof -
  have "to_string (en_freq e) @ kind_suffix (en_kind e) =
      to_string (en_freq e') @ kind_suffix (en_kind e')"
    using assms by (simp add: entry_key_def)
  then have "to_string (en_freq e) = to_string (en_freq e') \<and>
      kind_suffix (en_kind e) = kind_suffix (en_kind e')"
    using digits_then_letter [OF to_string_chars to_string_chars _ kind_suffix_letter kind_suffix_letter]
    by blast
  then show ?thesis by (simp add: to_string_inject kind_suffix_inject)
qed

section \<open>The demodulator interface\<close>

text \<open>
  The virtual functions of \<open>DemodInterface\<close> that entries call, over an unknown state
  \<open>'d\<close> of the demodulator. Each may fault and returns its \<open>bool\<close> with the new state.
\<close>

record 'd demod_ops =
  op_setModem :: "modulation \<Rightarrow> 'd \<Rightarrow> (bool \<times> 'd) result"
  op_setFrequency :: "int \<Rightarrow> 'd \<Rightarrow> (bool \<times> 'd) result"
  op_setTunerFrequency :: "int \<Rightarrow> 'd \<Rightarrow> (bool \<times> 'd) result"
  op_squelchThresholdMet :: "'d \<Rightarrow> (bool \<times> 'd) result"

definition check_signal :: "'d demod_ops \<Rightarrow> modulation \<Rightarrow> int \<Rightarrow> 'd \<Rightarrow> (bool \<times> 'd) result" where
  "check_signal ops m freq d =
     bind_result (op_setModem ops m d) (\<lambda>(_, d1).
     bind_result (op_setFrequency ops freq d1) (\<lambda>(ok, d2).
       if \<not> ok then Inr (False, d2)
       else bind_result (op_squelchThresholdMet ops d2) (\<lambda>(met, d3).
         if met then Inr (True, d3) else Inr (False, d3))))"

fun hasSignal_kind :: "'d demod_ops \<Rightarrow> channel_kind \<Rightarrow> int \<Rightarrow> 'd \<Rightarrow> (bool \<times> 'd) result" where
  "hasSignal_kind ops Dummy_Channel freq d =
     bind_result (op_setTunerFrequency ops freq d) (\<lambda>(_, d1). Inr (False, d1))"
| "hasSignal_kind ops AM_Channel freq d = check_signal ops AM freq d"
| "hasSignal_kind ops _ freq d = check_signal ops NFM freq d"

definition hasSignal :: "'d demod_ops \<Rightarrow> 'pt entry \<Rightarrow> 'd \<Rightarrow> (bool \<times> 'd) result" where
  "hasSignal ops e d = hasSignal_kind ops (en_kind e) (en_freq e) d"

text \<open>
  What an entry relies on: the operations keep the demodulator in a valid state and do not
  fault there, tuning operations report success and leave the tuner's centre frequency
  within half a sample rate of the channel (\<open>in_band\<close>).
\<close>

locale demod_interface =
  fixes ops :: "'d demod_ops" and valid :: "'d \<Rightarrow> bool" and in_band :: "int \<Rightarrow> 'd \<Rightarrow> bool"
  assumes setModem_ok: "valid d \<Longrightarrow> m \<noteq> FM \<Longrightarrow> \<exists>d'. op_setModem ops m d = Inr (True, d') \<and> valid d'"
    and setFrequency_ok:
      "valid d \<Longrightarrow> \<exists>d'. op_setFrequency ops f d = Inr (True, d') \<and> valid d' \<and> (0 < f \<longrightarrow> in_band f d')"
    and setTunerFrequency_ok:
      "valid d \<Longrightarrow> \<exists>d'. op_setTunerFrequency ops f d = Inr (True, d') \<and> valid d' \<and> (0 < f \<longrightarrow> in_band f d')"
    and squelch_ok:
      "valid d \<Longrightarrow> \<exists>b d'. op_squelchThresholdMet ops d = Inr (b, d') \<and> valid d' \<and>
         (in_band f d \<longrightarrow> in_band f d')"
begin

lemma check_signal_total:
  assumes "valid d" "m \<noteq> FM"
  shows "\<exists>b d'. check_signal ops m f d = Inr (b, d') \<and> valid d' \<and> (0 < f \<longrightarrow> in_band f d')"
proof -
  obtain d1 where d1: "op_setModem ops m d = Inr (True, d1)" "valid d1"
    using setModem_ok [OF assms] by blast
  obtain d2 where d2: "op_setFrequency ops f d1 = Inr (True, d2)" "valid d2" "0 < f \<longrightarrow> in_band f d2"
    using setFrequency_ok [OF d1(2), of f] by blast
  obtain b d3 where d3: "op_squelchThresholdMet ops d2 = Inr (b, d3)" "valid d3" "0 < f \<longrightarrow> in_band f d3"
    using squelch_ok [OF d2(2), of f] d2(3) by blast
  have "check_signal ops m f d = Inr (b, d3)"
    by (simp add: check_signal_def d1 d2 d3)
  with d3 show ?thesis by blast
qed

lemma hasSignal_total:
  assumes "valid d"
  shows "\<exists>b d'. hasSignal ops e d = Inr (b, d') \<and> valid d' \<and>
    (0 < en_freq e \<longrightarrow> in_band (en_freq e) d') \<and> (isDummy e \<longrightarrow> \<not> b)"
proof (cases "en_kind e")
  case Dummy_Channel
  then show ?thesis
    using setTunerFrequency_ok [OF assms, of "en_freq e"]
    by (auto simp: hasSignal_def isDummy_def)
qed (use check_signal_total [OF assms, of NFM "en_freq e"] check_signal_total [OF assms, of AM "en_freq e"]
     in \<open>auto simp: hasSignal_def isDummy_def\<close>)

end

end
