(* ===== verification/Radio_System.thy ===== *)
theory Radio_System
  imports Entry
begin

text \<open>
  \<open>RadioSystem\<close> and \<open>AnalogSystem\<close> (src/src/scan/RadioSystem.h, src/src/scan/RadioSystem.cpp):
  a tagged list of entries, built from a property tree and written back to one.
\<close>

section \<open>Data\<close>

record 'pt radio_system =
  rs_tag :: string
  rs_lockout :: bool
  rs_sysIndex :: nat
  rs_numEntries :: nat
  rs_entries :: "'pt entry list"

definition systype_key :: string where "systype_key = ''systype''"
definition type_analog :: string where "type_analog = ''analog''"
definition channels_key :: string where "channels_key = ''channels''"

definition AnalogSystem :: "string \<Rightarrow> bool \<Rightarrow> 'pt radio_system" where
  "AnalogSystem tag lo =
     \<lparr>rs_tag = tag, rs_lockout = lo, rs_sysIndex = 0, rs_numEntries = 0, rs_entries = []\<rparr>"

section \<open>Making entries from a property tree\<close>

definition makeFMChannel :: "'pt ptree_api \<Rightarrow> 'pt \<Rightarrow> 'pt entry option" where
  "makeFMChannel api pt =
     (let tag = get_str api pt (parse_path tag_key) ''''; freq = get_int api pt (parse_path freq_key) 0;
          lockout = get_bool api pt (parse_path lockout_key) False;
          delay = get_int api pt (parse_path delay_key) 0
      in if freq = 0 then None else Some (FMChannel api freq tag lockout delay))"

definition makeAMChannel :: "'pt ptree_api \<Rightarrow> 'pt \<Rightarrow> 'pt entry option" where
  "makeAMChannel api pt =
     (let tag = get_str api pt (parse_path tag_key) ''''; freq = get_int api pt (parse_path freq_key) 0;
          lockout = get_bool api pt (parse_path lockout_key) False;
          delay = get_int api pt (parse_path delay_key) 0
      in if freq = 0 then None else Some (AMChannel api freq tag lockout delay))"

definition makePLChannel :: "'pt ptree_api \<Rightarrow> 'pt \<Rightarrow> 'pt entry option" where
  "makePLChannel api pt =
     (let tag = get_str api pt (parse_path tag_key) ''''; freq = get_int api pt (parse_path freq_key) 0;
          lockout = get_bool api pt (parse_path lockout_key) False;
          delay = get_int api pt (parse_path delay_key) 0
      in if freq = 0 then None
         else let tone = get_str api pt (parse_path tone_key) ''''
              in Some (PLChannel api freq tone tag lockout delay))"

definition makeDCChannel :: "'pt ptree_api \<Rightarrow> 'pt \<Rightarrow> 'pt entry option" where
  "makeDCChannel api pt =
     (let tag = get_str api pt (parse_path tag_key) ''''; freq = get_int api pt (parse_path freq_key) 0;
          lockout = get_bool api pt (parse_path lockout_key) False;
          delay = get_int api pt (parse_path delay_key) 0
      in if freq = 0 then None
         else let code = get_str api pt (parse_path code_key) ''''
              in Some (DCChannel api freq code tag lockout delay))"

text \<open>
  The table \<open>makeEntry\<close>. Its \<open>operator[]\<close> yields an empty \<open>std::function\<close> for an unknown
  type, and calling that throws.
\<close>

definition makeEntry :: "'pt ptree_api \<Rightarrow> string \<Rightarrow> 'pt \<Rightarrow> 'pt entry option result" where
  "makeEntry api ty pt =
     (if ty = type_fm then Inr (makeFMChannel api pt)
      else if ty = type_am then Inr (makeAMChannel api pt)
      else if ty = type_pl then Inr (makePLChannel api pt)
      else if ty = type_dc then Inr (makeDCChannel api pt)
      else Inl Bad_Function_Call)"

section \<open>Operations of a system\<close>

definition addEntry :: "'pt entry option \<Rightarrow> 'pt radio_system \<Rightarrow> 'pt radio_system" where
  "addEntry entry rs =
     (case entry of None \<Rightarrow> rs
      | Some e \<Rightarrow> rs\<lparr>rs_entries := rs_entries rs @
            [e\<lparr>en_entryIndex := rs_numEntries rs, en_sysIndex := rs_sysIndex rs\<rparr>],
          rs_numEntries := rs_numEntries rs + 1\<rparr>)"

definition lockout_system :: "bool \<Rightarrow> 'pt radio_system \<Rightarrow> 'pt radio_system" where
  "lockout_system val rs = rs\<lparr>rs_lockout := val\<rparr>"

definition system_at :: "'pt radio_system \<Rightarrow> nat \<Rightarrow> 'pt entry result" where
  "system_at rs pos = subscript (rs_entries rs) pos"

text \<open>
  The constructor of an \<open>AnalogSystem\<close> from a tree: the body of its loop, then the whole.
  A child whose type is unknown or whose frequency reads as 0 is skipped.
\<close>

definition load_child :: "'pt ptree_api \<Rightarrow> 'pt radio_system \<Rightarrow> 'pt \<Rightarrow> 'pt radio_system" where
  "load_child api rs entryPT =
     (case makeEntry api (get_str api entryPT (parse_path chantype_key) '''') entryPT of
        Inl _ \<Rightarrow> rs
      | Inr None \<Rightarrow> rs
      | Inr (Some e) \<Rightarrow> addEntry (Some e) rs)"

definition AnalogSystem_load :: "'pt ptree_api \<Rightarrow> 'pt \<Rightarrow> nat \<Rightarrow> 'pt radio_system result" where
  "AnalogSystem_load api pt index =
     (let rs0 = (AnalogSystem (get_str api pt (parse_path tag_key) '''')
                   (get_bool api pt (parse_path lockout_key) False))\<lparr>rs_sysIndex := index\<rparr>
      in bind_result (get_child api pt (parse_path channels_key))
           (\<lambda>children. Inr (foldl (load_child api) rs0 children)))"

definition system_ptree :: "'pt ptree_api \<Rightarrow> 'pt radio_system \<Rightarrow> 'pt" where
  "system_ptree api rs =
     (let p0 = pt_empty api;
          p1 = pt_put api p0 (parse_path systype_key) (PStr type_analog);
          p2 = pt_put api p1 (parse_path tag_key) (PStr (rs_tag rs));
          p3 = pt_put api p2 (parse_path lockout_key) (PBool (rs_lockout rs));
          channels = map en_ptree (rs_entries rs)
      in pt_put_children api p3 (parse_path channels_key) channels)"

section \<open>Indices\<close>

text \<open>
  Every entry knows its position and its system's position, and \<open>size()\<close> (the counter
  \<open>numEntries\<close>) is the length of the vector it is used to bound.
\<close>

definition well_indexed :: "'pt radio_system \<Rightarrow> bool" where
  "well_indexed rs \<longleftrightarrow> rs_numEntries rs = length (rs_entries rs) \<and>
     (\<forall>j<length (rs_entries rs). en_entryIndex (rs_entries rs ! j) = j \<and>
        en_sysIndex (rs_entries rs ! j) = rs_sysIndex rs)"

lemma well_indexed_AnalogSystem [simp]: "well_indexed ((AnalogSystem tag lo)\<lparr>rs_sysIndex := i\<rparr>)"
  by (simp add: well_indexed_def AnalogSystem_def)

lemma well_indexed_addEntry: "well_indexed rs \<Longrightarrow> well_indexed (addEntry e rs)"
  by (auto simp: well_indexed_def addEntry_def nth_append less_Suc_eq split: option.splits)

lemma addEntry_frame [simp]:
  "rs_sysIndex (addEntry e rs) = rs_sysIndex rs" "rs_tag (addEntry e rs) = rs_tag rs"
  "rs_lockout (addEntry e rs) = rs_lockout rs"
  by (auto simp: addEntry_def split: option.splits)

lemma load_child_frame [simp]:
  "rs_sysIndex (load_child api rs c) = rs_sysIndex rs" "rs_tag (load_child api rs c) = rs_tag rs"
  "rs_lockout (load_child api rs c) = rs_lockout rs"
  by (auto simp: load_child_def split: sum.splits option.splits)

lemma well_indexed_load_child: "well_indexed rs \<Longrightarrow> well_indexed (load_child api rs c)"
  by (auto simp: load_child_def intro: well_indexed_addEntry split: sum.splits option.splits)

lemma foldl_load_child:
  assumes "well_indexed rs"
  shows "well_indexed (foldl (load_child api) rs cs) \<and>
    rs_sysIndex (foldl (load_child api) rs cs) = rs_sysIndex rs \<and>
    rs_tag (foldl (load_child api) rs cs) = rs_tag rs \<and>
    rs_lockout (foldl (load_child api) rs cs) = rs_lockout rs"
  using assms by (induction cs arbitrary: rs) (simp_all add: well_indexed_load_child)

lemma AnalogSystem_load_indexed:
  assumes "AnalogSystem_load api pt i = Inr rs"
  shows "well_indexed rs \<and> rs_sysIndex rs = i"
proof -
  let ?rs0 = "(AnalogSystem (get_str api pt (parse_path tag_key) '''')
      (get_bool api pt (parse_path lockout_key) False))\<lparr>rs_sysIndex := i\<rparr>"
  obtain cs where "rs = foldl (load_child api) ?rs0 cs"
    using assms by (auto simp: AnalogSystem_load_def bind_result_Inr_iff Let_def)
  then show ?thesis using foldl_load_child [of ?rs0 api cs] by simp
qed

section \<open>What is written reads back\<close>

text \<open>The channel that the constructor of a given kind makes.\<close>

fun make_kind :: "'pt ptree_api \<Rightarrow> channel_kind \<Rightarrow> int \<Rightarrow> string \<Rightarrow> bool \<Rightarrow> int \<Rightarrow> 'pt entry" where
  "make_kind api Dummy_Channel f tag lo del = DummyChannel api f"
| "make_kind api FM_Channel f tag lo del = FMChannel api f tag lo del"
| "make_kind api (PL_Channel s) f tag lo del = PLChannel api f s tag lo del"
| "make_kind api (DC_Channel s) f tag lo del = DCChannel api f s tag lo del"
| "make_kind api AM_Channel f tag lo del = AMChannel api f tag lo del"

text \<open>
  An entry as the constructors leave it, apart from its indices, with a frequency and a
  delay that fit the type the loader reads.
\<close>

definition reloadable :: "'pt ptree_api \<Rightarrow> 'pt entry \<Rightarrow> bool" where
  "reloadable api e \<longleftrightarrow> en_kind e \<noteq> Dummy_Channel \<and> en_freq e \<noteq> 0 \<and>
     in_int32 (en_freq e) \<and> in_int32 (en_delayMS e) \<and>
     e = (make_kind api (en_kind e) (en_freq e) (en_tag e) (isLockedOut e) (en_delayMS e))
           \<lparr>en_sysIndex := en_sysIndex e, en_entryIndex := en_entryIndex e\<rparr>"

lemma parse_keys [simp]:
  "parse_path tag_key = [''tag'']" "parse_path lockout_key = [''lockout'']"
  "parse_path delay_key = [''delay'']" "parse_path freq_key = [''freq'']"
  "parse_path tone_key = [''tone'']" "parse_path code_key = [''code'']"
  "parse_path chantype_key = [''chantype'']" "parse_path systype_key = [''systype'']"
  "parse_path channels_key = [''channels'']"
  by (simp_all add: parse_path_def entry_key_defs systype_key_def channels_key_def
      getline_tokens.simps Let_def)

lemma channel_ptrees:
  assumes "ptree_laws api" "k \<noteq> Dummy_Channel"
  shows "get_str api (en_ptree (make_kind api k f tag lo del)) [''tag''] d = tag" "get_bool api (en_ptree (make_kind api k f tag lo del)) [''lockout''] c = lo"
    "get_int api (en_ptree (make_kind api k f tag lo del)) [''freq''] i = (if in_int32 f then f else i)"
    "get_int api (en_ptree (make_kind api k f tag lo del)) [''delay''] i = (if in_int32 del then del else i)"
    "get_str api (en_ptree (make_kind api k f tag lo del)) [''chantype''] d =
       (case k of FM_Channel \<Rightarrow> type_fm | AM_Channel \<Rightarrow> type_am | PL_Channel _ \<Rightarrow> type_pl | _ \<Rightarrow> type_dc)"
    "k = PL_Channel s \<Longrightarrow> get_str api (en_ptree (make_kind api k f tag lo del)) [''tone''] d = s"
    "k = DC_Channel s \<Longrightarrow> get_str api (en_ptree (make_kind api k f tag lo del)) [''code''] d = s"
  using assms by (cases k; simp add: channel_defs pt_simps)+

lemma load_child_reloads:
  assumes "ptree_laws api" "reloadable api e"
  shows "load_child api rs (en_ptree e) = addEntry (Some e) rs"
proof -
  let ?m = "make_kind api (en_kind e) (en_freq e) (en_tag e) (isLockedOut e) (en_delayMS e)"
  have k: "en_kind e \<noteq> Dummy_Channel" and r: "en_freq e \<noteq> 0" "in_int32 (en_freq e)" "in_int32 (en_delayMS e)"
    and e: "e = ?m\<lparr>en_sysIndex := en_sysIndex e, en_entryIndex := en_entryIndex e\<rparr>"
    using assms(2) by (auto simp: reloadable_def)
  have t: "en_ptree e = en_ptree ?m" by (subst e) simp
  have "makeEntry api (get_str api (en_ptree ?m) [''chantype''] '''') (en_ptree ?m) = Inr (Some ?m)"
    using channel_ptrees [OF assms(1) k] k r
    by (cases "en_kind e")
      (simp_all add: makeEntry_def makeFMChannel_def makeAMChannel_def makePLChannel_def makeDCChannel_def
        entry_type_defs)
  moreover have "addEntry (Some ?m) rs = addEntry (Some e) rs"
    by (subst (2) e) (simp add: addEntry_def)
  ultimately show ?thesis by (simp add: load_child_def t)
qed

lemma foldl_reload:
  assumes "ptree_laws api" "\<forall>e\<in>set es. reloadable api e"
  shows "foldl (load_child api) rs (map en_ptree es) = foldl (\<lambda>rs e. addEntry (Some e) rs) rs es"
  using assms by (induction es arbitrary: rs) (simp_all add: load_child_reloads)

lemma foldl_addEntry:
  assumes "\<forall>j<length es. en_entryIndex (es ! j) = rs_numEntries rs + j \<and> en_sysIndex (es ! j) = rs_sysIndex rs"
  shows "foldl (\<lambda>rs e. addEntry (Some e) rs) rs es =
    rs\<lparr>rs_entries := rs_entries rs @ es, rs_numEntries := rs_numEntries rs + length es\<rparr>"
  using assms
proof (induction es arbitrary: rs)
  case (Cons e es)
  have e: "e\<lparr>en_entryIndex := rs_numEntries rs, en_sysIndex := rs_sysIndex rs\<rparr> = e"
    using Cons.prems by (auto dest: spec [of _ 0])
  have "\<forall>j<length es. en_entryIndex (es ! j) = rs_numEntries (addEntry (Some e) rs) + j \<and>
      en_sysIndex (es ! j) = rs_sysIndex (addEntry (Some e) rs)"
    using Cons.prems by (auto simp: addEntry_def dest: spec [of _ "Suc _"])
  then show ?case using Cons.IH [of "addEntry (Some e) rs"] e by (simp add: addEntry_def)
qed simp

lemma system_ptree_reads:
  assumes "ptree_laws api"
  shows "get_str api (system_ptree api rs) [''tag''] d = rs_tag rs"
    "get_bool api (system_ptree api rs) [''lockout''] c = rs_lockout rs"
    "get_str api (system_ptree api rs) [''systype''] d = type_analog"
    "get_child api (system_ptree api rs) [''channels''] = Inr (map en_ptree (rs_entries rs))"
  using assms by (simp_all add: system_ptree_def pt_simps)

lemma AnalogSystem_reload:
  fixes api :: "'pt ptree_api"
  assumes laws: "ptree_laws api" and "well_indexed rs" "rs_sysIndex rs = i"
    and "\<forall>e\<in>set (rs_entries rs). reloadable api e"
  shows "AnalogSystem_load api (system_ptree api rs) i = Inr rs"
proof -
  let ?rs0 = "(AnalogSystem (rs_tag rs) (rs_lockout rs) :: 'pt radio_system)\<lparr>rs_sysIndex := i\<rparr>"
  have "foldl (\<lambda>rs e. addEntry (Some e) rs) ?rs0 (rs_entries rs) =
      ?rs0\<lparr>rs_entries := rs_entries ?rs0 @ rs_entries rs,
        rs_numEntries := rs_numEntries ?rs0 + length (rs_entries rs)\<rparr>"
    by (rule foldl_addEntry) (use assms in \<open>auto simp: well_indexed_def AnalogSystem_def\<close>)
  also have "\<dots> = rs"
    using assms by (simp add: AnalogSystem_def well_indexed_def)
  finally show ?thesis
    using assms by (simp add: AnalogSystem_load_def system_ptree_reads foldl_reload)
qed

end
