(* ===== verification/Merge_Sort.thy ===== *)
theory Merge_Sort
  imports Prelude
begin

text \<open>
  \<open>SystemList::merge\<close> and \<open>SystemList::mergeSort\<close> (src/src/scan/SystemList.cpp): the
  in-place merge sort that orders the channels by frequency before they are cut into
  bins. The array is a list updated by index; \<open>key\<close> stands for \<open>freq()\<close>. The main lemma
  says that sorting the whole array is the library's stable \<open>sort_key\<close>.
\<close>

section \<open>The operations\<close>

text \<open>
  The three \<open>while\<close> loops of \<open>merge\<close>. \<open>i\<close>, \<open>j\<close> and \<open>k\<close> index \<open>L\<close>, \<open>R\<close> and the array.
\<close>

function merge_loop ::
    "('a \<Rightarrow> int) \<Rightarrow> 'a list \<Rightarrow> 'a list \<Rightarrow> 'a list \<Rightarrow> nat \<Rightarrow> nat \<Rightarrow> nat \<Rightarrow> 'a list \<times> nat \<times> nat \<times> nat" where
  "merge_loop key L R arr i j k =
     (if i < length L \<and> j < length R then
        if key (L ! i) \<le> key (R ! j)
        then merge_loop key L R (arr[k := L ! i]) (i + 1) j (k + 1)
        else merge_loop key L R (arr[k := R ! j]) i (j + 1) (k + 1)
      else (arr, i, j, k))"
  by pat_completeness auto
termination
  by (relation "measure (\<lambda>(key, L, R, arr, i, j, k). (length L - i) + (length R - j))") auto

function copy_rest :: "'a list \<Rightarrow> 'a list \<Rightarrow> nat \<Rightarrow> nat \<Rightarrow> 'a list \<times> nat" where
  "copy_rest L arr i k =
     (if i < length L then copy_rest L (arr[k := L ! i]) (i + 1) (k + 1) else (arr, k))"
  by pat_completeness auto
termination
  by (relation "measure (\<lambda>(L, arr, i, k). length L - i)") auto

declare merge_loop.simps [simp del] copy_rest.simps [simp del]

definition merge_range :: "('a \<Rightarrow> int) \<Rightarrow> 'a list \<Rightarrow> nat \<Rightarrow> nat \<Rightarrow> nat \<Rightarrow> 'a list" where
  "merge_range key arr l m r =
     (let n1 = m - l + 1; n2 = r - m;
          L = map (\<lambda>i. arr ! (l + i)) [0..<n1];
          R = map (\<lambda>j. arr ! (m + 1 + j)) [0..<n2];
          (arr1, i, j, k) = merge_loop key L R arr 0 0 l;
          (arr2, k2) = copy_rest L arr1 i k;
          (arr3, k3) = copy_rest R arr2 j k2
      in arr3)"

lemma midpoint_between: "l < r \<Longrightarrow> l \<le> l + cdiv (r - l) 2 \<and> l + cdiv (r - l) 2 < r"
  by (simp add: cdiv_nonneg)

function mergeSort :: "('a \<Rightarrow> int) \<Rightarrow> 'a list \<Rightarrow> int \<Rightarrow> int \<Rightarrow> 'a list" where
  "mergeSort key arr l r =
     (if l < r then
        let m = l + cdiv (r - l) 2;
            arr1 = mergeSort key arr l m;
            arr2 = mergeSort key arr1 (m + 1) r
        in merge_range key arr2 (nat l) (nat m) (nat r)
      else arr)"
  by pat_completeness auto
termination
  by (relation "measure (\<lambda>(key, arr, l, r). nat (r - l))") (auto simp: cdiv_nonneg)

declare mergeSort.simps [simp del]

section \<open>The list-level merge\<close>

fun merge_lists :: "('a \<Rightarrow> int) \<Rightarrow> 'a list \<Rightarrow> 'a list \<Rightarrow> 'a list" where
  "merge_lists key [] ys = ys"
| "merge_lists key xs [] = xs"
| "merge_lists key (x # xs) (y # ys) =
     (if key x \<le> key y then x # merge_lists key xs (y # ys) else y # merge_lists key (x # xs) ys)"

lemma merge_lists_Nil2 [simp]: "merge_lists key xs [] = xs"
  by (cases xs) simp_all

lemma mset_merge_lists [simp]: "mset (merge_lists key xs ys) = mset xs + mset ys"
  by (induction key xs ys rule: merge_lists.induct) auto

lemma set_merge_lists [simp]: "set (merge_lists key xs ys) = set xs \<union> set ys"
  by (metis mset_merge_lists set_mset_mset set_mset_union)

lemma length_merge_lists [simp]: "length (merge_lists key xs ys) = length xs + length ys"
  by (metis mset_merge_lists size_mset size_union)

lemma sorted_merge_lists:
  "sorted (map key xs) \<Longrightarrow> sorted (map key ys) \<Longrightarrow> sorted (map key (merge_lists key xs ys))"
  by (induction key xs ys rule: merge_lists.induct) auto

lemma filter_none_above:
  "sorted (map key (x # xs)) \<Longrightarrow> key x > v \<Longrightarrow> filter (\<lambda>z. key z = v) (x # xs) = []"
  by (force simp: filter_empty_conv)

lemma filter_merge_lists:
  assumes "sorted (map key xs)" "sorted (map key ys)"
  shows "filter (\<lambda>z. key z = v) (merge_lists key xs ys) =
    filter (\<lambda>z. key z = v) xs @ filter (\<lambda>z. key z = v) ys"
  using assms
proof (induction key xs ys rule: merge_lists.induct)
  case (3 key x xs y ys)
  show ?case
  proof (cases "key x \<le> key y")
    case True
    with 3 show ?thesis by (cases "v = key x") simp_all
  next
    case False
    then have none: "filter (\<lambda>z. key z = key y) (x # xs) = []"
      using "3.prems"(1) by (intro filter_none_above) auto
    show ?thesis
    proof (cases "v = key y")
      case True
      then show ?thesis using False 3 none by (simp split: if_splits)
    next
      case neq: False
      then show ?thesis using False 3 by simp
    qed
  qed
qed simp_all

lemma merge_lists_sort_key:
  "merge_lists key (sort_key key xs) (sort_key key ys) = sort_key key (xs @ ys)"
proof (rule properties_for_sort_key [symmetric])
  show "mset (merge_lists key (sort_key key xs) (sort_key key ys)) = mset (xs @ ys)"
    by simp
  show "sorted (map key (merge_lists key (sort_key key xs) (sort_key key ys)))"
    by (simp add: sorted_merge_lists)
  fix k
  have eq: "(\<lambda>x. key k = key x) = (\<lambda>x. key x = key k)" by auto
  show "filter (\<lambda>x. key k = key x) (merge_lists key (sort_key key xs) (sort_key key ys)) =
      filter (\<lambda>x. key k = key x) (xs @ ys)"
    unfolding eq by (simp add: filter_merge_lists sort_key_stable)
qed

section \<open>The array-level merge\<close>

lemma list_update_prefix:
  "k < length arr \<Longrightarrow> take (Suc k) (arr[k := x]) = take k arr @ [x]"
  by (simp add: take_Suc_conv_app_nth)

lemma copy_rest_eq:
  assumes "i \<le> length L" "n + i = k + length L" "n \<le> length arr"
  shows "copy_rest L arr i k = (take k arr @ drop i L @ drop n arr, n)"
  using assms
proof (induction L arr i k rule: copy_rest.induct)
  case (1 L arr i k)
  show ?case
  proof (cases "i < length L")
    case True
    then have L: "drop i L = L ! i # drop (i + 1) L" by (simp add: Cons_nth_drop_Suc)
    have k: "k < length arr" "k < n" using True "1.prems" by linarith+
    then show ?thesis
      using "1.IH" True "1.prems"
      by (simp add: copy_rest.simps [of L arr i k] L list_update_prefix)
  next
    case False
    with "1.prems" have "i = length L" "n = k" by simp_all
    then show ?thesis by (simp add: copy_rest.simps)
  qed
qed

lemma merge_loop_eq:
  assumes "i \<le> length L" "j \<le> length R"
    and "n + i + j = k + length L + length R" "n \<le> length arr"
    and "merge_loop key L R arr i j k = (arr1, i1, j1, k1)"
  shows "fst (copy_rest R (fst (copy_rest L arr1 i1 k1)) j1 (snd (copy_rest L arr1 i1 k1))) =
    take k arr @ merge_lists key (drop i L) (drop j R) @ drop n arr"
  using assms
proof (induction key L R arr i j k rule: merge_loop.induct)
  case (1 key L R arr i j k)
  show ?case
  proof (cases "i < length L \<and> j < length R")
    case True
    then have L: "drop i L = L ! i # drop (i + 1) L" and R: "drop j R = R ! j # drop (j + 1) R"
      by (simp_all add: Cons_nth_drop_Suc)
    have k: "k < length arr" "k < n" using True "1.prems" by linarith+
    show ?thesis
    proof (cases "key (L ! i) \<le> key (R ! j)")
      case le: True
      then show ?thesis
        using "1.IH"(1) [OF True le] "1.prems" True k
        by (simp add: merge_loop.simps [of key L R arr i j k] L R list_update_prefix)
    next
      case gt: False
      then show ?thesis
        using "1.IH"(2) [OF True gt] "1.prems" True k
        by (simp add: merge_loop.simps [of key L R arr i j k] L R list_update_prefix)
    qed
  next
    case False
    with "1.prems" have eq: "arr1 = arr" "i1 = i" "j1 = j" "k1 = k"
      by (auto simp: merge_loop.simps [of key L R arr i j k])
    show ?thesis
    proof (cases "i < length L")
      case True
      with False "1.prems" have "j = length R" by simp
      with "1.prems" show ?thesis by (simp add: eq copy_rest_eq [where n = n])
    next
      case nlt: False
      with "1.prems" have i: "i = length L" by simp
      have "copy_rest L arr i k = (arr, k)" by (simp add: i copy_rest.simps)
      with "1.prems" i show ?thesis by (simp add: eq copy_rest_eq [where n = n])
    qed
  qed
qed

lemma map_nth_segment: "map (\<lambda>i. (xs @ ys @ zs) ! (length xs + i)) [0..<length ys] = ys"
  by (intro nth_equalityI) (auto simp: nth_append)

lemma merge_range_segment:
  assumes "A \<noteq> []"
  shows "merge_range key (xs @ A @ B @ ws) (length xs) (length xs + length A - 1)
      (length xs + length A + length B - 1) = xs @ merge_lists key A B @ ws"
proof -
  let ?arr = "xs @ A @ B @ ws" and ?m = "length xs + length A - 1"
  have m: "?m + 1 = length (xs @ A)" "?m - length xs + 1 = length A"
    "length xs + length A + length B - 1 - ?m = length B"
    using assms by (cases A; simp)+
  have L: "map (\<lambda>i. ?arr ! (length xs + i)) [0..<length A] = A"
    by (rule map_nth_segment)
  have R: "map (\<lambda>j. ?arr ! (length (xs @ A) + j)) [0..<length B] = B"
    using map_nth_segment [of "xs @ A" B ws] by simp
  obtain arr1 i j k where loop: "merge_loop key A B ?arr 0 0 (length xs) = (arr1, i, j, k)"
    by (cases "merge_loop key A B ?arr 0 0 (length xs)") auto
  have "merge_range key ?arr (length xs) ?m (length xs + length A + length B - 1) =
      fst (copy_rest B (fst (copy_rest A arr1 i k)) j (snd (copy_rest A arr1 i k)))"
    unfolding merge_range_def Let_def m L R loop by (simp add: split_beta)
  also have "\<dots> = xs @ merge_lists key A B @ ws"
    using merge_loop_eq [where n = "length xs + length A + length B", OF _ _ _ _ loop] by simp
  finally show ?thesis .
qed

section \<open>Sorting a range, and the whole array\<close>

lemma sort_key_nonempty: "xs \<noteq> [] \<Longrightarrow> sort_key key xs \<noteq> []"
  by (metis length_0_conv length_sort)

lemma mergeSort_segment:
  assumes "ys \<noteq> []"
  shows "mergeSort key (xs @ ys @ ws) (int (length xs)) (int (length xs + length ys) - 1) =
    xs @ sort_key key ys @ ws"
  using assms
proof (induction "length ys" arbitrary: xs ys ws rule: less_induct)
  case less
  let ?l = "int (length xs)" and ?r = "int (length xs + length ys) - 1"
  show ?case
  proof (cases "length ys = 1")
    case True
    then obtain y where "ys = [y]" by (auto simp: length_Suc_conv)
    then show ?thesis by (simp add: mergeSort.simps)
  next
    case False
    with less.prems have long: "2 \<le> length ys" by (cases ys) (auto simp: Suc_le_eq)
    define n1 where "n1 = (length ys - 1) div 2 + 1"
    have n1: "0 < n1" "n1 < length ys" using long by (auto simp: n1_def)
    define A where "A = take n1 ys"
    define B where "B = drop n1 ys"
    have ys: "ys = A @ B" and lenA: "length A = n1" and lenB: "length B = length ys - n1"
      using n1 by (simp_all add: A_def B_def)
    have ne: "A \<noteq> []" "B \<noteq> []" using n1 lenA lenB by auto
    have m: "?l + cdiv (?r - ?l) 2 = int (length xs + length A) - 1"
    proof -
      have "cdiv (int (length ys) - 1) 2 = (int (length ys) - 1) div 2"
        by (rule cdiv_nonneg) (use long in linarith)+
      then show ?thesis using long by (simp add: lenA n1_def of_nat_diff zdiv_int)
    qed
    have first: "mergeSort key (xs @ A @ B @ ws) ?l (int (length xs + length A) - 1) =
        xs @ sort_key key A @ B @ ws"
      by (rule less.hyps) (use ne n1 lenA in auto)
    have second: "mergeSort key ((xs @ sort_key key A) @ B @ ws)
        (int (length (xs @ sort_key key A))) (int (length (xs @ sort_key key A) + length B) - 1) =
        (xs @ sort_key key A) @ sort_key key B @ ws"
      by (rule less.hyps) (use ne n1 lenB in auto)
    have lt: "?l < ?r" using long by simp
    have next_l: "int (length xs + length A) - 1 + 1 = int (length (xs @ sort_key key A))"
      "?r = int (length (xs @ sort_key key A) + length B) - 1"
      using n1 lenA lenB by auto
    have nats: "nat (int (length xs + length A) - 1) = length xs + length A - 1"
      "nat ?r = length xs + length A + length B - 1"
      using n1 lenA lenB by auto
    have "mergeSort key (xs @ ys @ ws) ?l ?r =
        merge_range key (mergeSort key (mergeSort key (xs @ ys @ ws) ?l (int (length xs + length A) - 1))
          (int (length xs + length A) - 1 + 1) ?r)
          (nat ?l) (nat (int (length xs + length A) - 1)) (nat ?r)"
      by (subst mergeSort.simps) (simp only: lt m Let_def if_True)
    also have "mergeSort key (xs @ ys @ ws) ?l (int (length xs + length A) - 1) =
        (xs @ sort_key key A) @ B @ ws"
      using first by (simp add: ys)
    also have "mergeSort key ((xs @ sort_key key A) @ B @ ws)
        (int (length xs + length A) - 1 + 1) ?r = xs @ sort_key key A @ sort_key key B @ ws"
      using second unfolding next_l by simp
    finally have "mergeSort key (xs @ ys @ ws) ?l ?r =
        merge_range key (xs @ sort_key key A @ sort_key key B @ ws) (length xs)
          (length xs + length A - 1) (length xs + length A + length B - 1)"
      by (simp only: nats nat_int)
    also have "\<dots> = xs @ merge_lists key (sort_key key A) (sort_key key B) @ ws"
      using merge_range_segment [of "sort_key key A" key xs "sort_key key B" ws] ne
      by (simp add: sort_key_nonempty)
    finally show ?thesis by (simp only: ys merge_lists_sort_key append_assoc)
  qed
qed

lemma mergeSort_whole: "mergeSort key arr 0 (int (length arr) - 1) = sort_key key arr"
proof (cases "arr = []")
  case True
  then show ?thesis by (simp add: mergeSort.simps)
next
  case False
  then show ?thesis using mergeSort_segment [of arr key "[]" "[]"] by simp
qed

section \<open>What a client of the sort relies on\<close>

text \<open>
  \<open>sortBins\<close> needs an order by key that loses and invents no entry and keeps entries of
  equal key in their order. Any such sort is the library's \<open>sort_key\<close>.
\<close>

locale frequency_sorter =
  fixes key :: "'a \<Rightarrow> int" and sorter :: "'a list \<Rightarrow> 'a list"
  assumes sorter_sorted: "sorted (map key (sorter xs))"
    and sorter_mset: "mset (sorter xs) = mset xs"
    and sorter_stable: "filter (\<lambda>x. key x = v) (sorter xs) = filter (\<lambda>x. key x = v) xs"
begin

lemma sorter_eq: "sorter xs = sort_key key xs"
proof (rule properties_for_sort_key [symmetric])
  fix k
  have eq: "(\<lambda>x. key k = key x) = (\<lambda>x. key x = key k)" by auto
  show "filter (\<lambda>x. key k = key x) (sorter xs) = filter (\<lambda>x. key k = key x) xs"
    unfolding eq by (rule sorter_stable)
qed (simp_all add: sorter_mset sorter_sorted)

lemma sorter_set [simp]: "set (sorter xs) = set xs"
  by (metis set_mset_mset sorter_mset)

lemma sorter_Nil_iff [simp]: "sorter xs = [] \<longleftrightarrow> xs = []"
  by (metis mset_zero_iff_right sorter_mset)

end

interpretation merge_sorter: frequency_sorter key "\<lambda>xs. mergeSort key xs 0 (int (length xs) - 1)"
  for key :: "'a \<Rightarrow> int"
  by unfold_locales (simp_all add: mergeSort_whole sort_key_stable)

end
