(* ===== verification/System_List.thy ===== *)
theory System_List
  imports Radio_System Merge_Sort "HOL-Library.While_Combinator"
begin

text \<open>
  \<open>SystemList\<close> (src/src/scan/SystemList.h, src/src/scan/SystemList.cpp): the database of
  radio systems, the cut of its channels into bins no wider than the tuner's bandwidth,
  and the endless walk over the bins that the scanner takes its next entry from.
\<close>

section \<open>Data\<close>

record 'pt entry_bin =
  bin_entries :: "'pt entry list"
  bin_locked :: nat

record 'pt system_list =
  sl_json :: 'pt
  sl_systems :: "'pt radio_system list"
  sl_bins :: "'pt entry_bin list"
  sl_binNum :: nat
  sl_entryNum :: nat
  sl_retune :: bool

definition SystemList_init :: "'pt ptree_api \<Rightarrow> 'pt system_list" where
  "SystemList_init api = \<lparr>sl_json = pt_empty api, sl_systems = [], sl_bins = [],
     sl_binNum = 0, sl_entryNum = 0, sl_retune = True\<rparr>"

definition sl_size :: "'pt system_list \<Rightarrow> nat" where
  "sl_size s = length (sl_systems s)"

definition addSystem :: "'pt radio_system \<Rightarrow> 'pt system_list \<Rightarrow> 'pt system_list" where
  "addSystem rs s = s\<lparr>sl_systems := sl_systems s @ [rs]\<rparr>"

definition systems_key :: string where "systems_key = ''systems''"

section \<open>Loading and saving\<close>

text \<open>What opening and parsing the systems file can give.\<close>

datatype 'pt file_content = File_Missing | File_Malformed | File_Tree 'pt

definition makeSystem :: "'pt ptree_api \<Rightarrow> string \<Rightarrow> 'pt \<Rightarrow> nat \<Rightarrow> 'pt radio_system result" where
  "makeSystem api ty pt index =
     (if ty = type_analog then AnalogSystem_load api pt index else Inl Bad_Function_Call)"

text \<open>The loop body: a system that cannot be made is skipped.\<close>

definition load_system :: "'pt ptree_api \<Rightarrow> 'pt system_list \<Rightarrow> 'pt \<Rightarrow> 'pt system_list" where
  "load_system api s pt =
     (case makeSystem api (get_str api pt (parse_path systype_key) ''unspecified'') pt (sl_size s) of
        Inl _ \<Rightarrow> s
      | Inr rs \<Rightarrow> addSystem rs s)"

text \<open>
  A missing file loads nothing. A malformed one is reported and the loop then runs over the
  tree as it was; its \<open>get_child\<close> is outside the \<open>try\<close>, so it may throw.
\<close>

definition populateFromFile ::
    "'pt ptree_api \<Rightarrow> 'pt file_content \<Rightarrow> 'pt system_list \<Rightarrow> 'pt system_list result" where
  "populateFromFile api fc s =
     (case fc of
        File_Missing \<Rightarrow> Inr s
      | _ \<Rightarrow>
          let s1 = (case fc of File_Tree t \<Rightarrow> s\<lparr>sl_json := t\<rparr> | _ \<Rightarrow> s)
          in bind_result (get_child api (sl_json s1) (parse_path (systems_key @ ''.'')))
               (\<lambda>children. Inr (foldl (load_system api) s1 children)))"

definition writeToFile :: "'pt ptree_api \<Rightarrow> 'pt system_list \<Rightarrow> 'pt" where
  "writeToFile api s =
     pt_put_children api (pt_empty api) (parse_path systems_key) (map (system_ptree api) (sl_systems s))"

section \<open>Bins\<close>

definition entriesLockedOut :: "'pt entry_bin \<Rightarrow> bool" where
  "entriesLockedOut b \<longleftrightarrow> bin_locked b = length (bin_entries b)"

definition getCenterFreq :: "'pt entry_bin \<Rightarrow> int result" where
  "getCenterFreq b =
     (if length (bin_entries b) > 1 then
        let range = en_freq (last (bin_entries b)) + en_freq (hd (bin_entries b))
        in Inr (cdiv range 2)
      else bind_result (subscript (bin_entries b) 0) (\<lambda>e. Inr (en_freq e)))"

text \<open>The entries of all systems in order, through \<open>operator[]\<close> up to \<open>size()\<close>.\<close>

fun collect_from :: "'pt radio_system \<Rightarrow> nat list \<Rightarrow> 'pt entry list result" where
  "collect_from rs [] = Inr []"
| "collect_from rs (k # ks) =
     bind_result (system_at rs k) (\<lambda>e. bind_result (collect_from rs ks) (\<lambda>es. Inr (e # es)))"

fun collect_entries :: "'pt radio_system list \<Rightarrow> 'pt entry list result" where
  "collect_entries [] = Inr []"
| "collect_entries (rs # rss) =
     bind_result (collect_from rs [0..<rs_numEntries rs]) (\<lambda>es.
     bind_result (collect_entries rss) (\<lambda>es'. Inr (es @ es')))"

text \<open>\<open>isLockedOut() || _systems[getSysIndex()]->lockedOut()\<close>, with the short circuit.\<close>

definition entry_locked :: "'pt radio_system list \<Rightarrow> 'pt entry \<Rightarrow> bool result" where
  "entry_locked systems e =
     (if isLockedOut e then Inr True
      else bind_result (subscript systems (en_sysIndex e)) (\<lambda>rs. Inr (rs_lockout rs)))"

text \<open>
  The loop of \<open>sortBins\<close> that fills the bins. \<open>newBin\<close> is the last element of \<open>_bins\<close>;
  \<open>bins\<close> are the ones before it.
\<close>

fun fill_bins :: "'pt radio_system list \<Rightarrow> int \<Rightarrow> 'pt entry_bin list \<Rightarrow> 'pt entry_bin \<Rightarrow>
    'pt entry list \<Rightarrow> 'pt entry_bin list result" where
  "fill_bins systems bw bins newBin [] = Inr (bins @ [newBin])"
| "fill_bins systems bw bins newBin (e # es) =
     (let fresh = bin_entries newBin \<noteq> [] \<and> en_freq e \<ge> en_freq (hd (bin_entries newBin)) + bw;
          bins' = (if fresh then bins @ [newBin] else bins);
          cur = (if fresh then \<lparr>bin_entries = [], bin_locked = 0\<rparr> else newBin)
      in bind_result (entry_locked systems e) (\<lambda>locked.
           fill_bins systems bw bins'
             \<lparr>bin_entries = bin_entries cur @ [e],
              bin_locked = (if locked then bin_locked cur + 1 else bin_locked cur)\<rparr> es))"

text \<open>The loop that prints the bins asks every one of them for its centre.\<close>

fun print_bins :: "'pt entry_bin list \<Rightarrow> unit result" where
  "print_bins [] = Inr ()"
| "print_bins (b # bs) = bind_result (getCenterFreq b) (\<lambda>_. print_bins bs)"

definition sortBins :: "int \<Rightarrow> 'pt system_list \<Rightarrow> 'pt system_list result" where
  "sortBins bandwidth s =
     (if sl_size s = 0 then Inr s
      else bind_result (collect_entries (sl_systems s)) (\<lambda>entries.
           let sorted = mergeSort en_freq entries 0 (int (length entries) - 1)
           in bind_result (fill_bins (sl_systems s) bandwidth (sl_bins s)
                             \<lparr>bin_entries = [], bin_locked = 0\<rparr> sorted) (\<lambda>bins.
              bind_result (print_bins bins) (\<lambda>_. Inr (s\<lparr>sl_bins := bins\<rparr>)))))"

section \<open>The walk over the bins\<close>

text \<open>\<open>for(; _bins[_binNum]->entriesLockedOut(); _binNum = (_binNum + 1) % _bins.size());\<close>\<close>

definition skip_locked :: "'pt entry_bin list \<Rightarrow> nat \<Rightarrow> nat option" where
  "skip_locked bins n =
     while_option (\<lambda>n. entriesLockedOut (bins ! n)) (\<lambda>n. (n + 1) mod length bins) n"

text \<open>The body of the \<open>do\<close> loop of \<open>getNextEntry\<close>: a retuning dummy, or the next entry.\<close>

definition next_candidate ::
    "'pt ptree_api \<Rightarrow> 'pt system_list \<Rightarrow> ('pt entry \<times> 'pt system_list) result option" where
  "next_candidate api s =
     (if \<not> sl_binNum s < length (sl_bins s) then Some (Inl Out_Of_Bounds)
      else if sl_entryNum s = 0 \<and> sl_retune s then
        (case skip_locked (sl_bins s) (sl_binNum s) of
           None \<Rightarrow> None
         | Some b \<Rightarrow>
             Some (bind_result (getCenterFreq (sl_bins s ! b)) (\<lambda>f.
               Inr (DummyChannel api f, s\<lparr>sl_retune := False, sl_binNum := b\<rparr>))))
      else
        let bin = bin_entries (sl_bins s ! sl_binNum s)
        in Some (bind_result (vec_at bin (sl_entryNum s)) (\<lambda>e.
             let n = (sl_entryNum s + 1) mod length bin
             in if n = 0
                then Inr (e, s\<lparr>sl_entryNum := n, sl_binNum := (sl_binNum s + 1) mod length (sl_bins s),
                               sl_retune := True\<rparr>)
                else Inr (e, s\<lparr>sl_entryNum := n\<rparr>))))"

text \<open>The whole loop; \<open>None\<close> is the run that never ends.\<close>

partial_function (option) getNextEntry ::
    "'pt ptree_api \<Rightarrow> 'pt system_list \<Rightarrow> ('pt entry \<times> 'pt system_list) result option" where
  "getNextEntry api s =
     (case next_candidate api s of
        None \<Rightarrow> None
      | Some r \<Rightarrow> (case r of
          Inl f \<Rightarrow> Some (Inl f)
        | Inr c \<Rightarrow> (case entry_locked (sl_systems s) (fst c) of
            Inl f \<Rightarrow> Some (Inl f)
          | Inr locked \<Rightarrow> if locked then getNextEntry api (snd c) else Some (Inr c))))"

definition getEntryByIndex ::
    "'pt ptree_api \<Rightarrow> int list \<Rightarrow> 'pt system_list \<Rightarrow> ('pt entry \<times> 'pt system_list) result option" where
  "getEntryByIndex api index s =
     (if length index < 2 \<or> index ! 0 < 0 \<or> index ! 1 < 0 \<or> index ! 0 \<ge> int (sl_size s) \<or>
         index ! 1 \<ge> int (rs_numEntries (sl_systems s ! nat (index ! 0)))
      then getNextEntry api s
      else Some (bind_result (system_at (sl_systems s ! nat (index ! 0)) (nat (index ! 1)))
                   (\<lambda>e. Inr (e, s))))"

section \<open>Well-formed databases\<close>

definition systems_ok :: "'pt radio_system list \<Rightarrow> bool" where
  "systems_ok systems \<longleftrightarrow>
     (\<forall>i<length systems. well_indexed (systems ! i) \<and> rs_sysIndex (systems ! i) = i)"

lemma systems_ok_Nil [simp]: "systems_ok []"
  by (simp add: systems_ok_def)

lemma systems_ok_snoc:
  "systems_ok systems \<Longrightarrow> well_indexed rs \<Longrightarrow> rs_sysIndex rs = length systems \<Longrightarrow>
   systems_ok (systems @ [rs])"
  by (auto simp: systems_ok_def nth_append less_Suc_eq)

lemma makeSystem_indexed:
  "makeSystem api ty pt i = Inr rs \<Longrightarrow> well_indexed rs \<and> rs_sysIndex rs = i"
  by (auto simp: makeSystem_def dest: AnalogSystem_load_indexed split: if_splits)

lemma load_system_ok:
  "systems_ok (sl_systems s) \<Longrightarrow> systems_ok (sl_systems (load_system api s pt))"
  by (auto simp: load_system_def addSystem_def sl_size_def
      intro: systems_ok_snoc dest: makeSystem_indexed split: sum.splits)

lemma load_system_frame [simp]:
  "sl_json (load_system api s pt) = sl_json s" "sl_bins (load_system api s pt) = sl_bins s"
  "sl_binNum (load_system api s pt) = sl_binNum s" "sl_entryNum (load_system api s pt) = sl_entryNum s"
  "sl_retune (load_system api s pt) = sl_retune s"
  by (auto simp: load_system_def addSystem_def split: sum.splits)

lemma foldl_load_system:
  assumes "systems_ok (sl_systems s)"
  shows "systems_ok (sl_systems (foldl (load_system api) s ts)) \<and>
    sl_bins (foldl (load_system api) s ts) = sl_bins s \<and>
    sl_binNum (foldl (load_system api) s ts) = sl_binNum s \<and>
    sl_entryNum (foldl (load_system api) s ts) = sl_entryNum s \<and>
    sl_retune (foldl (load_system api) s ts) = sl_retune s"
  using assms by (induction ts arbitrary: s) (simp_all add: load_system_ok)

lemma populate_ok:
  assumes "populateFromFile api fc s = Inr s'" "systems_ok (sl_systems s)"
  shows "systems_ok (sl_systems s') \<and> sl_bins s' = sl_bins s \<and> sl_binNum s' = sl_binNum s \<and>
    sl_entryNum s' = sl_entryNum s \<and> sl_retune s' = sl_retune s"
  using assms
  by (cases fc) (auto simp: populateFromFile_def bind_result_Inr_iff foldl_load_system)

section \<open>Filling the bins\<close>

lemma collect_from_eq:
  "\<forall>k\<in>set ks. k < length (rs_entries rs) \<Longrightarrow> collect_from rs ks = Inr (map ((!) (rs_entries rs)) ks)"
  by (induction ks) (simp_all add: system_at_def subscript_in)

lemma collect_entries_eq:
  "\<forall>rs\<in>set systems. well_indexed rs \<Longrightarrow>
   collect_entries systems = Inr (concat (map rs_entries systems))"
proof (induction systems)
  case (Cons rs systems)
  then have n: "rs_numEntries rs = length (rs_entries rs)" by (simp add: well_indexed_def)
  have "collect_from rs [0..<rs_numEntries rs] = Inr (rs_entries rs)"
    by (simp add: n collect_from_eq map_nth)
  with Cons show ?case by simp
qed simp

lemma systems_ok_well_indexed: "systems_ok systems \<Longrightarrow> \<forall>rs\<in>set systems. well_indexed rs"
  by (auto simp: systems_ok_def in_set_conv_nth)

text \<open>An entry whose system exists, and the value the lockout test then has.\<close>

definition entry_known :: "'pt radio_system list \<Rightarrow> 'pt entry \<Rightarrow> bool" where
  "entry_known systems e \<longleftrightarrow> en_sysIndex e < length systems"

definition unavailable :: "'pt radio_system list \<Rightarrow> 'pt entry \<Rightarrow> bool" where
  "unavailable systems e \<longleftrightarrow> isLockedOut e \<or> rs_lockout (systems ! en_sysIndex e)"

lemma entry_locked_eq:
  "entry_known systems e \<Longrightarrow> entry_locked systems e = Inr (unavailable systems e)"
  by (auto simp: entry_known_def entry_locked_def unavailable_def subscript_in)

lemma entries_known:
  "systems_ok systems \<Longrightarrow> e \<in> set (concat (map rs_entries systems)) \<Longrightarrow> entry_known systems e"
  by (auto simp: systems_ok_def entry_known_def well_indexed_def in_set_conv_nth)

definition bin_ok :: "'pt radio_system list \<Rightarrow> int \<Rightarrow> 'pt entry_bin \<Rightarrow> bool" where
  "bin_ok systems bw b \<longleftrightarrow>
     bin_entries b \<noteq> [] \<and>
     sorted (map en_freq (bin_entries b)) \<and>
     (\<forall>e\<in>set (bin_entries b). entry_known systems e \<and> en_freq e < en_freq (hd (bin_entries b)) + bw) \<and>
     bin_locked b = length (filter (unavailable systems) (bin_entries b))"

lemma bin_ok_snoc:
  assumes "bin_entries b = [] \<and> bin_locked b = 0 \<or> bin_ok systems bw b" "0 < bw"
    and "entry_known systems e" "\<forall>x\<in>set (bin_entries b). en_freq x \<le> en_freq e"
    and "bin_entries b = [] \<or> en_freq e < en_freq (hd (bin_entries b)) + bw"
  shows "bin_ok systems bw \<lparr>bin_entries = bin_entries b @ [e],
    bin_locked = (if unavailable systems e then bin_locked b + 1 else bin_locked b)\<rparr>"
  using assms by (auto simp: bin_ok_def sorted_append hd_append)

lemma fill_bins_ok:
  assumes "0 < bw" "\<forall>e\<in>set es. entry_known systems e" "sorted (map en_freq es)"
    and "\<forall>x\<in>set (bin_entries cur). \<forall>e\<in>set es. en_freq x \<le> en_freq e"
    and "bin_entries cur = [] \<and> bin_locked cur = 0 \<and> es \<noteq> [] \<or> bin_ok systems bw cur"
    and "\<forall>b\<in>set bins. bin_ok systems bw b"
  shows "\<exists>bs. fill_bins systems bw bins cur es = Inr bs \<and> bs \<noteq> [] \<and> (\<forall>b\<in>set bs. bin_ok systems bw b) \<and>
    concat (map bin_entries bs) = concat (map bin_entries bins) @ bin_entries cur @ es"
  using assms
proof (induction es arbitrary: bins cur)
  case Nil
  then show ?case by auto
next
  case (Cons e es)
  let ?fresh = "bin_entries cur \<noteq> [] \<and> en_freq e \<ge> en_freq (hd (bin_entries cur)) + bw"
  define bins' where "bins' = (if ?fresh then bins @ [cur] else bins)"
  define cur' where "cur' = (if ?fresh then \<lparr>bin_entries = [], bin_locked = 0\<rparr> else cur)"
  define cur2 where "cur2 = \<lparr>bin_entries = bin_entries cur' @ [e],
    bin_locked = (if unavailable systems e then bin_locked cur' + 1 else bin_locked cur')\<rparr>"
  have known: "entry_known systems e" using Cons.prems(2) by simp
  have step: "fill_bins systems bw bins cur (e # es) = fill_bins systems bw bins' cur2 es"
    by (simp add: Let_def entry_locked_eq [OF known] bins'_def cur'_def cur2_def)
  have ok2: "bin_ok systems bw cur2"
    unfolding cur2_def
    by (rule bin_ok_snoc) (use Cons.prems known in \<open>auto simp: cur'_def\<close>)
  have all: "\<forall>b\<in>set bins'. bin_ok systems bw b"
    using Cons.prems(5,6) by (auto simp: bins'_def)
  have le: "\<forall>x\<in>set (bin_entries cur2). \<forall>y\<in>set es. en_freq x \<le> en_freq y"
    using Cons.prems(3,4) by (auto simp: cur2_def cur'_def)
  obtain bs where bs: "fill_bins systems bw bins' cur2 es = Inr bs" "bs \<noteq> []"
    "\<forall>b\<in>set bs. bin_ok systems bw b"
    "concat (map bin_entries bs) = concat (map bin_entries bins') @ bin_entries cur2 @ es"
    using Cons.IH [of cur2 bins'] Cons.prems all le ok2 by auto
  moreover have "concat (map bin_entries bins') @ bin_entries cur2 @ es =
      concat (map bin_entries bins) @ bin_entries cur @ e # es"
    by (simp add: bins'_def cur2_def cur'_def)
  ultimately show ?case using step by auto
qed

lemma print_bins_ok: "\<forall>b\<in>set bs. bin_entries b \<noteq> [] \<Longrightarrow> print_bins bs = Inr ()"
  by (induction bs) (auto simp: getCenterFreq_def subscript_in)

lemma sortBins_bins:
  assumes ok: "systems_ok (sl_systems s)" and "0 < bw"
    and old: "\<forall>b\<in>set (sl_bins s). bin_ok (sl_systems s) bw b"
    and some: "concat (map rs_entries (sl_systems s)) \<noteq> []"
  shows "\<exists>bs. sortBins bw s = Inr (s\<lparr>sl_bins := bs\<rparr>) \<and> bs \<noteq> [] \<and>
    (\<forall>b\<in>set bs. bin_ok (sl_systems s) bw b) \<and>
    concat (map bin_entries bs) = concat (map bin_entries (sl_bins s)) @
      sort_key en_freq (concat (map rs_entries (sl_systems s)))"
proof -
  let ?es = "concat (map rs_entries (sl_systems s))"
  let ?sorted = "mergeSort en_freq ?es 0 (int (length ?es) - 1)"
  have size: "sl_size s \<noteq> 0" using some by (auto simp: sl_size_def)
  have collect: "collect_entries (sl_systems s) = Inr ?es"
    by (rule collect_entries_eq) (rule systems_ok_well_indexed [OF ok])
  have ne: "?sorted \<noteq> []" using some by (simp only: merge_sorter.sorter_Nil_iff simp_thms)
  have known: "\<forall>e\<in>set ?sorted. entry_known (sl_systems s) e"
    using entries_known [OF ok] by (simp only: merge_sorter.sorter_set) blast
  obtain bs where bs: "fill_bins (sl_systems s) bw (sl_bins s) \<lparr>bin_entries = [], bin_locked = 0\<rparr> ?sorted = Inr bs"
    "bs \<noteq> []" "\<forall>b\<in>set bs. bin_ok (sl_systems s) bw b"
    "concat (map bin_entries bs) = concat (map bin_entries (sl_bins s)) @ ?sorted"
    using fill_bins_ok [OF assms(2) known merge_sorter.sorter_sorted, of "\<lparr>bin_entries = [], bin_locked = 0\<rparr>" "sl_bins s"]
      ne old by auto
  have "print_bins bs = Inr ()"
    by (rule print_bins_ok) (use bs(3) in \<open>auto simp: bin_ok_def\<close>)
  then have "sortBins bw s = Inr (s\<lparr>sl_bins := bs\<rparr>)"
    using size collect bs(1) by (simp add: sortBins_def Let_def)
  moreover have "?sorted = sort_key en_freq ?es" by (rule merge_sorter.sorter_eq)
  ultimately show ?thesis using bs by auto
qed

lemma sortBins_frame:
  assumes "sortBins bw s = Inr s'"
  shows "\<exists>bs. s' = s\<lparr>sl_bins := bs\<rparr>"
proof (cases "sl_size s = 0")
  case True
  with assms have "s' = s\<lparr>sl_bins := sl_bins s\<rparr>" by (simp add: sortBins_def)
  then show ?thesis by blast
next
  case False
  with assms show ?thesis by (auto simp: sortBins_def bind_result_Inr_iff Let_def)
qed

end
