(* ===== verification/Scan_Walk.thy ===== *)
theory Scan_Walk
  imports System_List
begin

text \<open>
  The walk of \<open>SystemList::getNextEntry\<close> (src/src/scan/SystemList.cpp) over the bins:
  when it ends, what it returns, and what one round over the bins visits.
\<close>

section \<open>States in which the walk can be resumed\<close>

definition walk_ok :: "int \<Rightarrow> 'pt system_list \<Rightarrow> bool" where
  "walk_ok bw s \<longleftrightarrow>
     sl_systems s \<noteq> [] \<and>
     sl_binNum s < length (sl_bins s) \<and>
     sl_entryNum s < length (bin_entries (sl_bins s ! sl_binNum s)) \<and>
     (\<forall>b\<in>set (sl_bins s). bin_ok (sl_systems s) bw b)"

definition available_at :: "'pt system_list \<Rightarrow> nat \<Rightarrow> nat \<Rightarrow> bool" where
  "available_at s B E \<longleftrightarrow> B < length (sl_bins s) \<and> E < length (bin_entries (sl_bins s ! B)) \<and>
     \<not> unavailable (sl_systems s) (bin_entries (sl_bins s ! B) ! E)"

lemma bin_ok_locked_iff:
  "bin_ok systems bw b \<Longrightarrow> entriesLockedOut b \<longleftrightarrow> (\<forall>e\<in>set (bin_entries b). unavailable systems e)"
  by (auto simp: bin_ok_def entriesLockedOut_def filter_length_eq_all)

lemma walk_bin: "walk_ok bw s \<Longrightarrow> b < length (sl_bins s) \<Longrightarrow> bin_ok (sl_systems s) bw (sl_bins s ! b)"
  by (simp add: walk_ok_def)

lemma walk_nonempty: "walk_ok bw s \<Longrightarrow> b < length (sl_bins s) \<Longrightarrow> 0 < length (bin_entries (sl_bins s ! b))"
  using walk_bin by (fastforce simp: bin_ok_def)

lemma available_bin:
  "walk_ok bw s \<Longrightarrow> available_at s B E \<Longrightarrow> \<not> entriesLockedOut (sl_bins s ! B)"
  by (auto simp: available_at_def dest!: walk_bin [of bw s B] simp: bin_ok_locked_iff)

section \<open>Skipping locked bins\<close>

lemma next_index: "b < n \<Longrightarrow> Suc b mod n < (n::nat)"
  by (rule mod_less_divisor) simp

lemma skip_locked_unfold:
  "skip_locked bins n =
     (if entriesLockedOut (bins ! n) then skip_locked bins ((n + 1) mod length bins) else Some n)"
  by (simp add: skip_locked_def while_option_unfold [of _ _ n])

lemma skip_locked_result:
  assumes "skip_locked bins n = Some m" "n < length bins"
  shows "m < length bins \<and> \<not> entriesLockedOut (bins ! m)"
proof -
  have "m < length bins"
    using while_option_rule [where P = "\<lambda>n. n < length bins", OF _ assms(1) [unfolded skip_locked_def]]
      assms(2) by (auto simp: next_index)
  then show ?thesis
    using while_option_stop [OF assms(1) [unfolded skip_locked_def]] by simp
qed

text \<open>How many bins lie ahead of bin \<open>b\<close> before bin \<open>B\<close> comes round.\<close>

definition ahead :: "nat \<Rightarrow> nat \<Rightarrow> nat \<Rightarrow> nat" where
  "ahead n B b = (if b \<le> B then B - b else B + n - b)"

lemma ahead_next:
  assumes "b < n" "B < n" "b \<noteq> B"
  shows "ahead n B ((b + 1) mod n) < ahead n B b"
proof (cases "b + 1 < n")
  case True
  with assms show ?thesis by (auto simp: ahead_def)
next
  case False
  with assms have "(b + 1) mod n = 0" by (metis Suc_eq_plus1 Suc_lessI mod_self)
  with assms False show ?thesis by (auto simp: ahead_def)
qed

lemma ahead_less: "b < n \<Longrightarrow> B < n \<Longrightarrow> ahead n B b < n"
  by (auto simp: ahead_def)

lemma ahead_eq_0: "b < n \<Longrightarrow> B < n \<Longrightarrow> ahead n B b = 0 \<longleftrightarrow> b = B"
  by (auto simp: ahead_def)

lemma skip_locked_some:
  assumes "b < length bins" "B < length bins" "\<not> entriesLockedOut (bins ! B)"
  shows "\<exists>m. skip_locked bins b = Some m \<and> m < length bins \<and>
    (m = b \<or> ahead (length bins) B m < ahead (length bins) B b)"
  using assms
proof (induction "ahead (length bins) B b" arbitrary: b rule: less_induct)
  case less
  show ?case
  proof (cases "entriesLockedOut (bins ! b)")
    case False
    with less.prems show ?thesis by (simp add: skip_locked_unfold [of bins b])
  next
    case True
    let ?b = "(b + 1) mod length bins"
    have lt: "ahead (length bins) B ?b < ahead (length bins) B b"
      using less.prems True by (intro ahead_next) auto
    have "?b < length bins" using less.prems by (simp add: next_index)
    with less.hyps [OF lt] less.prems obtain m where m: "skip_locked bins ?b = Some m" "m < length bins"
      "m = ?b \<or> ahead (length bins) B m < ahead (length bins) B ?b" by blast
    with lt True show ?thesis by (auto simp: skip_locked_unfold [of bins b])
  qed
qed

section \<open>One turn of the loop\<close>

definition turn_dummy :: "'pt system_list \<Rightarrow> bool" where
  "turn_dummy s \<longleftrightarrow> sl_entryNum s = 0 \<and> sl_retune s"

definition entry_here :: "'pt system_list \<Rightarrow> 'pt entry" where
  "entry_here s = bin_entries (sl_bins s ! sl_binNum s) ! sl_entryNum s"

definition advance :: "'pt system_list \<Rightarrow> 'pt system_list" where
  "advance s =
     (let n = (sl_entryNum s + 1) mod length (bin_entries (sl_bins s ! sl_binNum s))
      in if n = 0
         then s\<lparr>sl_entryNum := n, sl_binNum := (sl_binNum s + 1) mod length (sl_bins s), sl_retune := True\<rparr>
         else s\<lparr>sl_entryNum := n\<rparr>)"

lemma advance_frame [simp]:
  "sl_systems (advance s) = sl_systems s" "sl_bins (advance s) = sl_bins s" "sl_json (advance s) = sl_json s"
  by (simp_all add: advance_def Let_def)

lemma candidate_entry:
  assumes "walk_ok bw s" "\<not> turn_dummy s"
  shows "next_candidate api s = Some (Inr (entry_here s, advance s))"
  using assms
  by (auto simp: next_candidate_def turn_dummy_def walk_ok_def advance_def Let_def vec_at_def entry_here_def)

lemma center_ok: "bin_ok systems bw b \<Longrightarrow> \<exists>f. getCenterFreq b = Inr f"
  by (auto simp: getCenterFreq_def bin_ok_def subscript_in)

lemma candidate_dummy:
  assumes "walk_ok bw s" "turn_dummy s" "skip_locked (sl_bins s) (sl_binNum s) = Some b"
  shows "\<exists>f. getCenterFreq (sl_bins s ! b) = Inr f \<and>
    next_candidate api s = Some (Inr (DummyChannel api f, s\<lparr>sl_retune := False, sl_binNum := b\<rparr>))"
proof -
  have "b < length (sl_bins s)"
    using skip_locked_result [OF assms(3)] assms(1) by (simp add: walk_ok_def)
  then obtain f where "getCenterFreq (sl_bins s ! b) = Inr f"
    using center_ok walk_bin [OF assms(1)] by blast
  with assms show ?thesis by (simp add: next_candidate_def turn_dummy_def walk_ok_def)
qed

lemma walk_ok_advance:
  assumes "walk_ok bw s"
  shows "walk_ok bw (advance s)"
proof -
  let ?b = "sl_binNum s"
  have n: "0 < length (sl_bins s)" using assms by (auto simp: walk_ok_def)
  then have "0 < length (bin_entries (sl_bins s ! ((?b + 1) mod length (sl_bins s))))"
    by (intro walk_nonempty [OF assms]) simp
  with assms n show ?thesis
    by (auto simp: walk_ok_def advance_def Let_def intro!: mod_less_divisor)
qed

lemma walk_ok_retuned:
  assumes "walk_ok bw s" "turn_dummy s" "b < length (sl_bins s)"
  shows "walk_ok bw (s\<lparr>sl_retune := False, sl_binNum := b\<rparr>)"
  using assms walk_nonempty [OF assms(1,3)] by (simp add: walk_ok_def turn_dummy_def)

lemma entry_here_known:
  "walk_ok bw s \<Longrightarrow> entry_known (sl_systems s) (entry_here s)"
proof -
  assume "walk_ok bw s"
  then have "entry_here s \<in> set (bin_entries (sl_bins s ! sl_binNum s))"
    and "bin_ok (sl_systems s) bw (sl_bins s ! sl_binNum s)"
    by (simp_all add: walk_ok_def entry_here_def)
  then show ?thesis by (simp add: bin_ok_def)
qed

lemma dummy_known: "walk_ok bw s \<Longrightarrow> entry_known (sl_systems s) (DummyChannel api f)"
  by (simp add: walk_ok_def entry_known_def)

lemma getNextEntry_entry:
  assumes "walk_ok bw s" "\<not> turn_dummy s"
  shows "getNextEntry api s =
    (if unavailable (sl_systems s) (entry_here s) then getNextEntry api (advance s)
     else Some (Inr (entry_here s, advance s)))"
  by (subst getNextEntry.simps)
    (simp add: candidate_entry [OF assms] entry_locked_eq [OF entry_here_known [OF assms(1)]])

lemma getNextEntry_dummy:
  assumes "walk_ok bw s" "turn_dummy s" "skip_locked (sl_bins s) (sl_binNum s) = Some b"
    and "getCenterFreq (sl_bins s ! b) = Inr f"
  shows "getNextEntry api s =
    (if rs_lockout (sl_systems s ! 0) then getNextEntry api (s\<lparr>sl_retune := False, sl_binNum := b\<rparr>)
     else Some (Inr (DummyChannel api f, s\<lparr>sl_retune := False, sl_binNum := b\<rparr>)))"
  using candidate_dummy [OF assms(1-3), of api] assms(4) dummy_known [OF assms(1), of api f]
  by (subst getNextEntry.simps) (auto simp: entry_locked_eq unavailable_def)

section \<open>The walk ends when something is available\<close>

definition bins_ahead :: "nat \<Rightarrow> nat \<Rightarrow> 'pt system_list \<Rightarrow> nat" where
  "bins_ahead B E s =
     (if sl_binNum s = B then (if sl_entryNum s \<le> E then 0 else length (sl_bins s))
      else ahead (length (sl_bins s)) B (sl_binNum s))"

definition entries_left :: "'pt system_list \<Rightarrow> nat" where
  "entries_left s = length (bin_entries (sl_bins s ! sl_binNum s)) - sl_entryNum s"

definition walk_order :: "nat \<Rightarrow> nat \<Rightarrow> ('pt system_list \<times> 'pt system_list) set" where
  "walk_order B E = measures [bins_ahead B E, entries_left, \<lambda>s. if turn_dummy s then 1 else 0]"

lemma wf_walk_order: "wf (walk_order B E)"
  by (simp add: walk_order_def)

lemma advance_decreases:
  assumes "walk_ok bw s" "available_at s B E" "\<not> (sl_binNum s = B \<and> sl_entryNum s = E)"
    and "\<not> turn_dummy s"
  shows "(advance s, s) \<in> walk_order B E"
proof -
  let ?len = "length (bin_entries (sl_bins s ! sl_binNum s))" and ?n = "length (sl_bins s)"
  have b: "sl_binNum s < ?n" and e: "sl_entryNum s < ?len" using assms(1) by (simp_all add: walk_ok_def)
  have B: "B < ?n" and E: "E < length (bin_entries (sl_bins s ! B))"
    using assms(2) by (simp_all add: available_at_def)
  show ?thesis
  proof (cases "sl_entryNum s + 1 < ?len")
    case True
    then have "advance s = s\<lparr>sl_entryNum := sl_entryNum s + 1\<rparr>" by (simp add: advance_def)
    with True assms(3) e show ?thesis
      by (auto simp: walk_order_def bins_ahead_def entries_left_def)
  next
    case False
    with e have last: "sl_entryNum s + 1 = ?len" by simp
    let ?b = "(sl_binNum s + 1) mod ?n"
    have adv: "advance s = s\<lparr>sl_entryNum := 0, sl_binNum := ?b, sl_retune := True\<rparr>"
      using last by (simp add: advance_def)
    have "?b < ?n" using next_index [OF b] by simp
    have "bins_ahead B E (advance s) < bins_ahead B E s"
    proof (cases "sl_binNum s = B")
      case True
      then show ?thesis
        using assms(3) E last ahead_less [OF \<open>?b < ?n\<close> B] b by (auto simp: bins_ahead_def adv)
    next
      case False
      then show ?thesis
        using ahead_next [OF b B] ahead_eq_0 [OF b B] by (auto simp: bins_ahead_def adv)
    qed
    then show ?thesis by (simp add: walk_order_def)
  qed
qed

lemma retune_decreases:
  assumes "walk_ok bw s" "available_at s B E" "turn_dummy s"
    and "skip_locked (sl_bins s) (sl_binNum s) = Some b"
  shows "(s\<lparr>sl_retune := False, sl_binNum := b\<rparr>, s) \<in> walk_order B E"
proof -
  let ?n = "length (sl_bins s)"
  have b: "sl_binNum s < ?n" using assms(1) by (simp add: walk_ok_def)
  have B: "B < ?n" using assms(2) by (simp add: available_at_def)
  have "b < ?n" and cases: "b = sl_binNum s \<or> ahead ?n B b < ahead ?n B (sl_binNum s)"
    using skip_locked_some [OF b B available_bin [OF assms(1,2)]] assms(4) by auto
  show ?thesis
  proof (cases "b = sl_binNum s")
    case True
    with assms(3) show ?thesis
      by (simp add: walk_order_def bins_ahead_def entries_left_def turn_dummy_def)
  next
    case False
    with cases have lt: "ahead ?n B b < ahead ?n B (sl_binNum s)" by simp
    then have "sl_binNum s \<noteq> B" using ahead_eq_0 [OF b B] by auto
    with lt assms(3) show ?thesis by (simp add: walk_order_def bins_ahead_def turn_dummy_def)
  qed
qed

text \<open>
  One call of \<open>getNextEntry\<close>: it returns, with the walk in a good state again, an entry that
  is not locked out; and either that entry is the one awaited, or the walk has come closer
  to it.
\<close>

definition call_result :: "int \<Rightarrow> nat \<Rightarrow> nat \<Rightarrow> 'pt system_list \<Rightarrow> 'pt entry \<Rightarrow> 'pt system_list \<Rightarrow> bool" where
  "call_result bw B E s e s' \<longleftrightarrow>
     walk_ok bw s' \<and> sl_systems s' = sl_systems s \<and> sl_bins s' = sl_bins s \<and>
     entry_known (sl_systems s) e \<and> \<not> unavailable (sl_systems s) e \<and>
     (isDummy e \<or> (\<exists>b\<in>set (sl_bins s). e \<in> set (bin_entries b))) \<and>
     (e = bin_entries (sl_bins s ! B) ! E \<or> (s', s) \<in> walk_order B E)"

lemma available_at_cong:
  "sl_bins s' = sl_bins s \<Longrightarrow> sl_systems s' = sl_systems s \<Longrightarrow> available_at s' B E = available_at s B E"
  by (simp add: available_at_def)

lemma trans_walk_order: "(a, b) \<in> walk_order B E \<Longrightarrow> (b, c) \<in> walk_order B E \<Longrightarrow> (a, c) \<in> walk_order B E"
  by (auto simp: walk_order_def split: if_splits)

lemma call_result_step:
  assumes "call_result bw B E t e s'" "(t, s) \<in> walk_order B E"
    and "sl_systems t = sl_systems s" "sl_bins t = sl_bins s"
  shows "call_result bw B E s e s'"
  using assms by (auto simp: call_result_def intro: trans_walk_order)

lemma getNextEntry_call:
  assumes "walk_ok bw s" "available_at s B E"
  shows "\<exists>e s'. getNextEntry api s = Some (Inr (e, s')) \<and> call_result bw B E s e s'"
  using assms
proof (induction s rule: wf_induct_rule [OF wf_walk_order [of B E]])
  case (1 s)
  have b: "sl_binNum s < length (sl_bins s)" using "1.prems"(1) by (simp add: walk_ok_def)
  show ?case
  proof (cases "turn_dummy s")
    case True
    obtain m where m: "skip_locked (sl_bins s) (sl_binNum s) = Some m" "m < length (sl_bins s)"
      using skip_locked_some [OF b _ available_bin [OF "1.prems"]] "1.prems"(2)
      by (auto simp: available_at_def)
    obtain f where f: "getCenterFreq (sl_bins s ! m) = Inr f"
      using candidate_dummy [OF "1.prems"(1) True m(1)] by blast
    let ?t = "s\<lparr>sl_retune := False, sl_binNum := m\<rparr>"
    have t: "walk_ok bw ?t" by (rule walk_ok_retuned [OF "1.prems"(1) True m(2)])
    have lt: "(?t, s) \<in> walk_order B E" by (rule retune_decreases [OF "1.prems" True m(1)])
    show ?thesis
    proof (cases "rs_lockout (sl_systems s ! 0)")
      case True
      have "available_at ?t B E" using "1.prems"(2) by (simp add: available_at_def)
      with "1.IH" [OF lt t] obtain e s' where "getNextEntry api ?t = Some (Inr (e, s'))"
        "call_result bw B E ?t e s'" by blast
      then show ?thesis
        using True call_result_step [OF _ lt]
        by (simp add: getNextEntry_dummy [OF "1.prems"(1) \<open>turn_dummy s\<close> m(1) f])
    next
      case False
      then have "call_result bw B E s (DummyChannel api f) ?t"
        using t lt dummy_known [OF "1.prems"(1)] by (simp add: call_result_def unavailable_def)
      with False show ?thesis
        by (simp add: getNextEntry_dummy [OF "1.prems"(1) \<open>turn_dummy s\<close> m(1) f])
    qed
  next
    case False
    have t: "walk_ok bw (advance s)" by (rule walk_ok_advance [OF "1.prems"(1)])
    note step = getNextEntry_entry [OF "1.prems"(1) False, of api]
    show ?thesis
    proof (cases "unavailable (sl_systems s) (entry_here s)")
      case True
      with "1.prems"(2) have "\<not> (sl_binNum s = B \<and> sl_entryNum s = E)"
        by (auto simp: available_at_def entry_here_def)
      then have lt: "(advance s, s) \<in> walk_order B E"
        using advance_decreases "1.prems" False by blast
      have "available_at (advance s) B E" using "1.prems"(2) by (simp add: available_at_def)
      with "1.IH" [OF lt t] obtain e s' where "getNextEntry api (advance s) = Some (Inr (e, s'))"
        "call_result bw B E (advance s) e s'" by blast
      then show ?thesis using True step call_result_step [OF _ lt] by simp
    next
      case avail: False
      have "entry_here s \<in> set (bin_entries (sl_bins s ! sl_binNum s))"
        using "1.prems"(1) by (simp add: walk_ok_def entry_here_def)
      then have mem: "\<exists>b\<in>set (sl_bins s). entry_here s \<in> set (bin_entries b)"
        using b nth_mem by blast
      have "entry_here s = bin_entries (sl_bins s ! B) ! E \<or> (advance s, s) \<in> walk_order B E"
        using advance_decreases [OF "1.prems" _ False] by (auto simp: entry_here_def)
      then have "call_result bw B E s (entry_here s) (advance s)"
        using t avail mem entry_here_known [OF "1.prems"(1)] by (simp add: call_result_def)
      then show ?thesis using avail step by simp
    qed
  qed
qed

section \<open>No channel is starved\<close>

text \<open>\<open>n\<close> calls in a row.\<close>

fun take_entries ::
    "'pt ptree_api \<Rightarrow> nat \<Rightarrow> 'pt system_list \<Rightarrow> ('pt entry list \<times> 'pt system_list) result option" where
  "take_entries api 0 s = Some (Inr ([], s))"
| "take_entries api (Suc n) s =
     (case getNextEntry api s of
        None \<Rightarrow> None
      | Some (Inl f) \<Rightarrow> Some (Inl f)
      | Some (Inr (e, s')) \<Rightarrow>
          (case take_entries api n s' of
             None \<Rightarrow> None
           | Some (Inl f) \<Rightarrow> Some (Inl f)
           | Some (Inr (es, s'')) \<Rightarrow> Some (Inr (e # es, s''))))"

lemma walk_reaches:
  assumes "walk_ok bw s" "available_at s B E"
  shows "\<exists>n es s'. take_entries api n s = Some (Inr (es, s')) \<and> es \<noteq> [] \<and>
    last es = bin_entries (sl_bins s ! B) ! E \<and> (\<forall>e\<in>set es. \<not> unavailable (sl_systems s) e)"
  using assms
proof (induction s rule: wf_induct_rule [OF wf_walk_order [of B E]])
  case (1 s)
  obtain e t where e: "getNextEntry api s = Some (Inr (e, t))" and c: "call_result bw B E s e t"
    using getNextEntry_call [OF "1.prems"] by blast
  show ?case
  proof (cases "e = bin_entries (sl_bins s ! B) ! E")
    case True
    have "take_entries api 1 s = Some (Inr ([e], t))" using e by simp
    with True c show ?thesis by (intro exI [of _ 1]) (auto simp: call_result_def)
  next
    case False
    with c have lt: "(t, s) \<in> walk_order B E" and t: "walk_ok bw t"
      and frame: "sl_systems t = sl_systems s" "sl_bins t = sl_bins s"
      by (auto simp: call_result_def)
    have "available_at t B E" using "1.prems"(2) available_at_cong [OF frame(2,1)] by simp
    with "1.IH" [OF lt t] frame obtain n es s' where
      "take_entries api n t = Some (Inr (es, s'))" "es \<noteq> []" "last es = bin_entries (sl_bins s ! B) ! E"
      "\<forall>e\<in>set es. \<not> unavailable (sl_systems s) e" by auto
    with e c show ?thesis by (intro exI [of _ "Suc n"]) (auto simp: call_result_def)
  qed
qed

section \<open>With everything locked out, the walk never ends\<close>

definition nothing_available :: "'pt system_list \<Rightarrow> bool" where
  "nothing_available s \<longleftrightarrow>
     (\<forall>b\<in>set (sl_bins s). \<forall>e\<in>set (bin_entries b). unavailable (sl_systems s) e)"

lemma skip_locked_diverges:
  assumes "walk_ok bw s" "nothing_available s"
  shows "skip_locked (sl_bins s) (sl_binNum s) = None"
proof (rule ccontr)
  assume "skip_locked (sl_bins s) (sl_binNum s) \<noteq> None"
  then obtain m where m: "skip_locked (sl_bins s) (sl_binNum s) = Some m" by auto
  then have "m < length (sl_bins s)" "\<not> entriesLockedOut (sl_bins s ! m)"
    using skip_locked_result assms(1) by (auto simp: walk_ok_def)
  with assms show False
    using bin_ok_locked_iff [OF walk_bin [OF assms(1)]] by (auto simp: nothing_available_def)
qed

lemma getNextEntry_diverges:
  assumes "walk_ok bw s" "nothing_available s"
  shows "getNextEntry api s = None"
proof (rule ccontr)
  assume "getNextEntry api s \<noteq> None"
  then obtain r where "getNextEntry api s = Some r" by auto
  then have "\<not> (walk_ok bw s \<and> nothing_available s)"
  proof (rule getNextEntry.raw_induct [where P = "\<lambda>api s r. \<not> (walk_ok bw s \<and> nothing_available s)", rotated])
    fix self :: "'a ptree_api \<Rightarrow> 'a system_list \<Rightarrow> ('a entry \<times> 'a system_list) result option"
    fix api s r
    assume IH: "\<And>api s r. self api s = Some r \<Longrightarrow> \<not> (walk_ok bw s \<and> nothing_available s)"
      and eq: "(case next_candidate api s of None \<Rightarrow> None
        | Some (Inl f) \<Rightarrow> Some (Inl f)
        | Some (Inr c) \<Rightarrow> (case entry_locked (sl_systems s) (fst c) of
            Inl f \<Rightarrow> Some (Inl f)
          | Inr locked \<Rightarrow> if locked then self api (snd c) else Some (Inr c))) = Some r"
    show "\<not> (walk_ok bw s \<and> nothing_available s)"
    proof
      assume *: "walk_ok bw s \<and> nothing_available s"
      show False
      proof (cases "turn_dummy s")
        case True
        from * have "skip_locked (sl_bins s) (sl_binNum s) = None"
          using skip_locked_diverges by blast
        with * True have "next_candidate api s = None"
          by (simp add: next_candidate_def turn_dummy_def walk_ok_def)
        with eq show False by simp
      next
        case False
        have "entry_here s \<in> set (bin_entries (sl_bins s ! sl_binNum s))"
          using * by (simp add: walk_ok_def entry_here_def)
        then have "unavailable (sl_systems s) (entry_here s)"
          using * by (auto simp: nothing_available_def walk_ok_def)
        moreover have w: "walk_ok bw s" using * by simp
        ultimately have "self api (advance s) = Some r"
          using eq by (simp add: candidate_entry [OF w False] entry_locked_eq [OF entry_here_known [OF w]])
        moreover have "walk_ok bw (advance s) \<and> nothing_available (advance s)"
          using * walk_ok_advance by (auto simp: nothing_available_def)
        ultimately show False using IH by blast
      qed
    qed
  qed
  with assms show False by simp
qed

end
