(* ===== verification/Database.thy ===== *)
theory Database
  imports Scan_Walk
begin

text \<open>
  The scan database as a whole (src/src/scan/): what loading, sorting and walking a
  \<open>SystemList\<close> guarantee together, and the round trip through the systems file.
\<close>

section \<open>The whole database reads back\<close>

definition list_reloadable :: "'pt ptree_api \<Rightarrow> 'pt radio_system list \<Rightarrow> bool" where
  "list_reloadable api systems \<longleftrightarrow>
     systems_ok systems \<and> (\<forall>rs\<in>set systems. \<forall>e\<in>set (rs_entries rs). reloadable api e)"

lemma parse_systems [simp]: "parse_path systems_key = [''systems'']" "parse_path (systems_key @ ''.'') = [''systems'']"
  by code_simp+

lemma load_system_reload:
  assumes laws: "ptree_laws api" and "well_indexed rs" "rs_sysIndex rs = length (sl_systems s)"
    and "\<forall>e\<in>set (rs_entries rs). reloadable api e"
  shows "load_system api s (system_ptree api rs) = addSystem rs s"
  using system_ptree_reads [OF laws, of rs] AnalogSystem_reload [OF laws assms(2,3,4)]
  by (simp add: load_system_def makeSystem_def sl_size_def)

lemma foldl_load_reload:
  assumes laws: "ptree_laws api"
    and "\<forall>i<length rss. well_indexed (rss ! i) \<and> rs_sysIndex (rss ! i) = length (sl_systems s) + i \<and>
      (\<forall>e\<in>set (rs_entries (rss ! i)). reloadable api e)"
  shows "foldl (load_system api) s (map (system_ptree api) rss) = s\<lparr>sl_systems := sl_systems s @ rss\<rparr>"
  using assms(2)
proof (induction rss arbitrary: s)
  case (Cons rs rss)
  have "load_system api s (system_ptree api rs) = addSystem rs s"
    using Cons.prems [rule_format, of 0] by (intro load_system_reload [OF laws]) auto
  moreover have "foldl (load_system api) (addSystem rs s) (map (system_ptree api) rss) =
      (addSystem rs s)\<lparr>sl_systems := sl_systems (addSystem rs s) @ rss\<rparr>"
  proof (rule Cons.IH, intro allI impI)
    fix i assume "i < length rss"
    then show "well_indexed (rss ! i) \<and> rs_sysIndex (rss ! i) = length (sl_systems (addSystem rs s)) + i \<and>
        (\<forall>e\<in>set (rs_entries (rss ! i)). reloadable api e)"
      using Cons.prems [rule_format, of "Suc i"] by (simp add: addSystem_def)
  qed
  ultimately show ?case by (simp add: addSystem_def)
qed simp

lemma reload_list:
  assumes "ptree_laws api" "list_reloadable api (sl_systems s)"
  shows "\<exists>s'. populateFromFile api (File_Tree (writeToFile api s)) (SystemList_init api) = Inr s' \<and>
    sl_systems s' = sl_systems s"
proof -
  let ?t = "writeToFile api s"
  let ?s0 = "(SystemList_init api)\<lparr>sl_json := ?t\<rparr>"
  have kids: "get_child api ?t [''systems''] = Inr (map (system_ptree api) (sl_systems s))"
    using assms(1) by (simp add: writeToFile_def pt_simps)
  have "foldl (load_system api) ?s0 (map (system_ptree api) (sl_systems s)) = ?s0\<lparr>sl_systems := sl_systems ?s0 @ sl_systems s\<rparr>"
    using assms(2) by (intro foldl_load_reload [OF assms(1)])
      (auto simp: list_reloadable_def systems_ok_def SystemList_init_def)
  then show ?thesis using kids by (simp add: populateFromFile_def SystemList_init_def)
qed

lemma isLockedOut_index [simp]:
  "isLockedOut (e\<lparr>en_sysIndex := i\<rparr>) = isLockedOut e" "isLockedOut (e\<lparr>en_entryIndex := j\<rparr>) = isLockedOut e"
  by (simp_all add: isLockedOut_def)

section \<open>A small database, for witnesses\<close>

definition demo_system :: "ctree radio_system" where
  "demo_system = addEntry (Some (AMChannel ctree_api 118000000 ''Tower'' False 0))
     (addEntry (Some (PLChannel ctree_api 155000000 ''100.0'' ''Fire'' False 2000)) (AnalogSystem ''City'' False))"

definition demo_list :: "ctree system_list" where
  "demo_list = (SystemList_init ctree_api)\<lparr>sl_systems := [demo_system]\<rparr>"

lemma demo_system_indexed: "well_indexed demo_system" "rs_sysIndex demo_system = 0" "\<not> rs_lockout demo_system"
  unfolding demo_system_def
  by (intro well_indexed_addEntry) (simp_all add: well_indexed_def AnalogSystem_def)

lemma demo_reloadable: "list_reloadable ctree_api (sl_systems demo_list)"
proof -
  have "reloadable ctree_api e" if "e \<in> set (rs_entries demo_system)" for e
    using that by (auto simp: demo_system_def addEntry_def AnalogSystem_def reloadable_def in_int32_def)
  then show ?thesis using demo_system_indexed by (simp add: list_reloadable_def systems_ok_def demo_list_def)
qed

lemma demo_walk:
  "\<exists>bs. sortBins 2048000 demo_list = Inr (demo_list\<lparr>sl_bins := bs\<rparr>) \<and>
     walk_ok 2048000 (demo_list\<lparr>sl_bins := bs\<rparr>) \<and> available_at (demo_list\<lparr>sl_bins := bs\<rparr>) 0 0"
proof -
  have ok: "systems_ok (sl_systems demo_list)" using demo_reloadable by (simp add: list_reloadable_def)
  have free: "\<forall>e\<in>set (concat (map rs_entries (sl_systems demo_list))). \<not> unavailable (sl_systems demo_list) e"
    using demo_system_indexed
    by (auto simp: demo_list_def unavailable_def) (auto simp: demo_system_def addEntry_def AnalogSystem_def)
  have ne: "concat (map rs_entries (sl_systems demo_list)) \<noteq> []"
    by (simp add: demo_list_def demo_system_def addEntry_def)
  obtain bs where bs: "sortBins 2048000 demo_list = Inr (demo_list\<lparr>sl_bins := bs\<rparr>)" "bs \<noteq> []"
    "\<forall>b\<in>set bs. bin_ok (sl_systems demo_list) 2048000 b"
    "concat (map bin_entries bs) = sort_key en_freq (concat (map rs_entries (sl_systems demo_list)))"
    using sortBins_bins [OF ok _ _ ne, of 2048000] by (auto simp: demo_list_def SystemList_init_def)
  have b0: "bs ! 0 \<in> set bs" "0 < length bs" using bs(2) by auto
  then have ne0: "bin_entries (bs ! 0) \<noteq> []" using bs(3) by (auto simp: bin_ok_def)
  then have "bin_entries (bs ! 0) ! 0 \<in> set (concat (map bin_entries bs))" using b0 by (auto intro!: bexI [of _ "bs ! 0"])
  then have "\<not> unavailable (sl_systems demo_list) (bin_entries (bs ! 0) ! 0)" using free unfolding bs(4) set_sort by blast
  with bs b0 ne0 show ?thesis
    by (auto simp: walk_ok_def available_at_def demo_list_def SystemList_init_def)
qed

lemma map_sort_key: "map f (sort_key f xs) = sort (map f xs)"
  by (rule properties_for_sort [symmetric]) (simp_all add: mset_map)

section \<open>Properties\<close>

text \<open>
  C21: The systems file round trips. A database that the loader could have made (channels of the
  four kinds, frequencies and delays that fit an \<open>int\<close>) is written by \<open>writeToFile\<close> and read
  into an empty list by \<open>populateFromFile\<close> as the same systems with the same entries, lockouts
  and indices, in the same order.
\<close>

theorem database_round_trip:
  assumes "ptree_laws api" "list_reloadable api (sl_systems s)"
  shows "\<exists>s'. populateFromFile api (File_Tree (writeToFile api s)) (SystemList_init api) = Inr s' \<and>
    sl_systems s' = sl_systems s"
  by (rule reload_list [OF assms])

theorem database_round_trip_witness:
  "\<exists>s'. populateFromFile ctree_api (File_Tree (writeToFile ctree_api demo_list)) (SystemList_init ctree_api) = Inr s' \<and>
     sl_systems s' = [demo_system]"
  using database_round_trip [OF ctree_laws demo_reloadable] by (simp add: demo_list_def)

text \<open>
  A channel above 2147483647 Hz is dropped when a database is loaded: its frequency is read
  with an \<open>int\<close> default, so the conversion fails, the frequency is 0, and no entry is made,
  although the constructors and the rest of the program carry frequencies as 64-bit integers.
\<close>

theorem high_channel_dropped:
  assumes "ptree_laws api" "2 ^ 31 \<le> f" "k \<noteq> Dummy_Channel"
  shows "load_child api rs (en_ptree (make_kind api k f tag lo del)) = rs"
proof -
  let ?e = "make_kind api k f tag lo del"
  have "\<not> in_int32 f" using assms(2) by (simp add: in_int32_def)
  then have "get_int api (en_ptree ?e) [''freq''] 0 = 0" using channel_ptrees(3) [OF assms(1,3)] by simp
  moreover have "get_str api (en_ptree ?e) [''chantype''] '''' \<in> {type_fm, type_am, type_pl, type_dc}"
    using channel_ptrees(5) [OF assms(1,3)] by (simp split: channel_kind.splits)
  ultimately have "makeEntry api (get_str api (en_ptree ?e) [''chantype''] '''') (en_ptree ?e) = Inr None"
    by (auto simp: makeEntry_def makeFMChannel_def makeAMChannel_def makePLChannel_def makeDCChannel_def)
  then show ?thesis by (simp add: load_child_def)
qed

theorem high_channel_dropped_witness:
  "load_child ctree_api (AnalogSystem ''City'' False) (en_ptree (AMChannel ctree_api 2400000000 ''Video'' False 0)) =
     AnalogSystem ''City'' False"
  using high_channel_dropped [OF ctree_laws, of 2400000000 AM_Channel] by simp

text \<open>
  The key of an entry identifies it up to what it receives: two entries have the same key
  exactly when they have the same frequency and the same kind, tone and code included.
\<close>

theorem entry_key_exact:
  "entry_key e = entry_key e' \<longleftrightarrow> en_freq e = en_freq e' \<and> en_kind e = en_kind e'"
  using entry_key_identifies [of e e'] by (auto simp: entry_key_def)

text \<open>
  C5: \<open>mergeSort\<close>, called as \<open>sortBins\<close> calls it on a whole vector, is a stable sort by
  frequency: the in-place ranges, the copies of both halves and the merge loops together give
  the permutation in which no two entries of one frequency change places. The empty vector,
  for which the right end is -1, is included.
\<close>

theorem mergeSort_stable:
  "mergeSort key arr 0 (int (length arr) - 1) = sort_key key arr"
  by (rule mergeSort_whole)

text \<open>
  C4: \<open>sortBins\<close> on a freshly loaded database puts every entry of every system into exactly one
  bin, in order of frequency, with stable order among equal ones. No bin is empty, each spans
  less than the tuner's bandwidth, and each counts its locked entries, by their own lockout or
  by that of their system.
\<close>

theorem sortBins_partitions:
  assumes "populateFromFile api fc (SystemList_init api) = Inr s" "0 < bw"
    and "concat (map rs_entries (sl_systems s)) \<noteq> []"
  shows "\<exists>s'. sortBins bw s = Inr s' \<and> sl_systems s' = sl_systems s \<and>
    concat (map bin_entries (sl_bins s')) = sort_key en_freq (concat (map rs_entries (sl_systems s))) \<and>
    (\<forall>b\<in>set (sl_bins s'). bin_entries b \<noteq> [] \<and>
       en_freq (last (bin_entries b)) - en_freq (hd (bin_entries b)) < bw \<and>
       bin_locked b = length (filter (unavailable (sl_systems s)) (bin_entries b)))"
proof -
  have ok: "systems_ok (sl_systems s)" and none: "sl_bins s = []"
    using populate_ok [OF assms(1)] by (simp_all add: SystemList_init_def)
  obtain bs where bs: "sortBins bw s = Inr (s\<lparr>sl_bins := bs\<rparr>)" "\<forall>b\<in>set bs. bin_ok (sl_systems s) bw b"
    "concat (map bin_entries bs) = sort_key en_freq (concat (map rs_entries (sl_systems s)))"
    using sortBins_bins [OF ok assms(2) _ assms(3)] none by auto
  have "en_freq (last (bin_entries b)) < en_freq (hd (bin_entries b)) + bw" if "b \<in> set bs" for b
    using bs(2) that by (auto simp: bin_ok_def)
  then have span: "\<forall>b\<in>set bs. bin_entries b \<noteq> [] \<and> en_freq (last (bin_entries b)) - en_freq (hd (bin_entries b)) < bw \<and>
      bin_locked b = length (filter (unavailable (sl_systems s)) (bin_entries b))"
    using bs(2) by (fastforce simp: bin_ok_def)
  show ?thesis by (rule exI [of _ "s\<lparr>sl_bins := bs\<rparr>"]) (use bs(1,3) span in simp)
qed

theorem sortBins_partitions_witness:
  "\<exists>s s'. populateFromFile ctree_api (File_Tree (writeToFile ctree_api demo_list)) (SystemList_init ctree_api) = Inr s \<and>
    sortBins 2048000 s = Inr s' \<and> map en_freq (concat (map bin_entries (sl_bins s'))) = [118000000, 155000000]"
proof -
  obtain s where s: "populateFromFile ctree_api (File_Tree (writeToFile ctree_api demo_list)) (SystemList_init ctree_api) = Inr s"
      "sl_systems s = sl_systems demo_list"
    using reload_list [OF ctree_laws demo_reloadable] by auto
  then have f: "map en_freq (concat (map rs_entries (sl_systems s))) = [155000000, 118000000]"
    by (simp add: demo_list_def demo_system_def addEntry_def AnalogSystem_def)
  then have ne: "concat (map rs_entries (sl_systems s)) \<noteq> []" by (metis list.map(1) list.distinct(1))
  obtain s' where s': "sortBins 2048000 s = Inr s'"
    "concat (map bin_entries (sl_bins s')) = sort_key en_freq (concat (map rs_entries (sl_systems s)))"
    using sortBins_partitions [OF s(1) _ ne, of 2048000] by auto
  have "map en_freq (concat (map bin_entries (sl_bins s'))) = sort [155000000, 118000000]"
    unfolding s'(2) f [symmetric] by (rule map_sort_key)
  then show ?thesis using s(1) s'(1) by auto
qed

text \<open>
  C3: The search for the next entry ends exactly when there is something to find. From any
  state the walk can be in, \<open>getNextEntry\<close> runs for ever if every entry of every bin is locked
  out, and otherwise returns, without a fault, an entry that is not locked out, and leaves a
  state from which the walk goes on over the same bins.
\<close>

theorem getNextEntry_ends_iff:
  assumes "walk_ok bw s"
  shows "(getNextEntry api s = None \<longleftrightarrow> nothing_available s) \<and>
    (\<forall>r. getNextEntry api s = Some r \<longrightarrow> (\<exists>e s'. r = Inr (e, s') \<and> \<not> unavailable (sl_systems s) e \<and>
       walk_ok bw s' \<and> sl_bins s' = sl_bins s \<and> sl_systems s' = sl_systems s))"
proof (cases "nothing_available s")
  case True
  then show ?thesis using getNextEntry_diverges [OF assms] by simp
next
  case False
  then obtain B E where av: "available_at s B E"
    unfolding nothing_available_def available_at_def by (auto simp: in_set_conv_nth)
  obtain e s' where e: "getNextEntry api s = Some (Inr (e, s'))" "call_result bw B E s e s'"
    using getNextEntry_call [OF assms av] by blast
  from e(2) have "\<not> unavailable (sl_systems s) e \<and> walk_ok bw s' \<and> sl_bins s' = sl_bins s \<and> sl_systems s' = sl_systems s"
    by (simp add: call_result_def)
  with e(1) False show ?thesis by simp
qed

theorem getNextEntry_ends_iff_witness:
  "\<exists>bs. sortBins 2048000 demo_list = Inr (demo_list\<lparr>sl_bins := bs\<rparr>) \<and>
     getNextEntry ctree_api (demo_list\<lparr>sl_bins := bs\<rparr>) \<noteq> None"
proof -
  obtain bs where bs: "sortBins 2048000 demo_list = Inr (demo_list\<lparr>sl_bins := bs\<rparr>)" "walk_ok 2048000 (demo_list\<lparr>sl_bins := bs\<rparr>)"
    "available_at (demo_list\<lparr>sl_bins := bs\<rparr>) 0 0" using demo_walk by blast
  then have "\<not> nothing_available (demo_list\<lparr>sl_bins := bs\<rparr>)"
    unfolding nothing_available_def available_at_def by (meson nth_mem)
  with getNextEntry_ends_iff [OF bs(2)] bs(1) show ?thesis by blast
qed

text \<open>
  C2: Scanning is fair. Whatever entry of the database is not locked out, enough calls of
  \<open>getNextEntry\<close> return it, from any state of the walk; and nothing that is locked out, by
  itself or with its system, is returned on the way.
\<close>

theorem scanning_is_fair:
  assumes "walk_ok bw s" "available_at s B E"
  shows "\<exists>n es s'. take_entries api n s = Some (Inr (es, s')) \<and> es \<noteq> [] \<and>
    last es = bin_entries (sl_bins s ! B) ! E \<and> (\<forall>e\<in>set es. \<not> unavailable (sl_systems s) e)"
  by (rule walk_reaches [OF assms])

theorem scanning_is_fair_witness:
  "\<exists>bs n es s'. sortBins 2048000 demo_list = Inr (demo_list\<lparr>sl_bins := bs\<rparr>) \<and>
     take_entries ctree_api n (demo_list\<lparr>sl_bins := bs\<rparr>) = Some (Inr (es, s')) \<and>
     last es = bin_entries (bs ! 0) ! 0"
proof -
  obtain bs where bs: "sortBins 2048000 demo_list = Inr (demo_list\<lparr>sl_bins := bs\<rparr>)" "walk_ok 2048000 (demo_list\<lparr>sl_bins := bs\<rparr>)"
    "available_at (demo_list\<lparr>sl_bins := bs\<rparr>) 0 0" using demo_walk by blast
  obtain n es s' where "take_entries ctree_api n (demo_list\<lparr>sl_bins := bs\<rparr>) = Some (Inr (es, s'))"
    "last es = bin_entries (bs ! 0) ! 0"
    using scanning_is_fair [OF bs(2,3), of ctree_api] by auto
  with bs(1) show ?thesis by blast
qed

end
