(* ===== verification/Configuration.thy ===== *)
theory Configuration
  imports Property_Tree
begin

text \<open>
  The configuration and the saved state (src/src/common/Configuration.h,
  src/src/common/Configuration.cpp, src/src/common/State.cpp). Every group of settings is a
  record with the default member initialisers of its struct, a \<open>load\<close> that reads it from the
  manager's property tree and a \<open>save\<close> that writes it there. The two singletons are records
  that hold the groups and the tree. The file system is a parameter.
\<close>

section \<open>Paths\<close>

definition config_base_path :: string where "config_base_path = ''config''"
definition state_base_path :: string where "state_base_path = ''state''"

text \<open>\<open>basePath + path_seperator + "group" + path_seperator + "key"\<close>\<close>

definition setting_path :: "string \<Rightarrow> string \<Rightarrow> string \<Rightarrow> string list" where
  "setting_path base sect key = parse_path (base @ ''.'' @ sect @ ''.'' @ key)"

definition tuners_path :: "string \<Rightarrow> string" where
  "tuners_path base = base @ ''.'' @ ''tuners''"

section \<open>The groups\<close>

record general_config =
  gc_logfileVerbosity :: int

definition GeneralConfig_init :: general_config where
  "GeneralConfig_init = \<lparr>gc_logfileVerbosity = 0\<rparr>"

definition GeneralConfig_load :: "'pt ptree_api \<Rightarrow> string \<Rightarrow> 'pt \<Rightarrow> general_config \<Rightarrow> general_config" where
  "GeneralConfig_load api base t g =
     g\<lparr>gc_logfileVerbosity := get_int api t (setting_path base ''general'' ''log_verbosity'') 0\<rparr>"

text \<open>Its \<open>save\<close> reads the tree, too.\<close>

definition GeneralConfig_save :: "'pt ptree_api \<Rightarrow> string \<Rightarrow> 'pt \<Rightarrow> general_config \<Rightarrow> general_config \<times> 'pt" where
  "GeneralConfig_save api base t g =
     (g\<lparr>gc_logfileVerbosity := get_int api t (setting_path base ''general'' ''log_verbosity'') 0\<rparr>, t)"

record socket_config =
  sc_tcpPort :: int
  sc_maxConnections :: int
  sc_spawnLocalClient :: bool
  sc_pythonClient :: string
  sc_pythonBinary :: string

definition SocketServerConfig_init :: socket_config where
  "SocketServerConfig_init = \<lparr>sc_tcpPort = 1234, sc_maxConnections = 5, sc_spawnLocalClient = False,
     sc_pythonClient = ''./'', sc_pythonBinary = ''python''\<rparr>"

definition SocketServerConfig_load :: "'pt ptree_api \<Rightarrow> string \<Rightarrow> 'pt \<Rightarrow> socket_config \<Rightarrow> socket_config" where
  "SocketServerConfig_load api base t g = g\<lparr>
     sc_maxConnections := get_int api t (setting_path base ''socket'' ''max_connections'') 5,
     sc_tcpPort := get_int api t (setting_path base ''socket'' ''port'') 1234,
     sc_spawnLocalClient := get_bool api t (setting_path base ''socket'' ''use_gui'') False,
     sc_pythonClient := get_str api t (setting_path base ''socket'' ''client_path'') ''./'',
     sc_pythonBinary := get_str api t (setting_path base ''socket'' ''python_path'') ''python''\<rparr>"

definition SocketServerConfig_save :: "'pt ptree_api \<Rightarrow> string \<Rightarrow> 'pt \<Rightarrow> socket_config \<Rightarrow> 'pt" where
  "SocketServerConfig_save api base t g =
     (let t1 = pt_put api t (setting_path base ''socket'' ''port'') (PNum (sc_tcpPort g));
          t2 = pt_put api t1 (setting_path base ''socket'' ''max_connections'') (PNum (sc_maxConnections g));
          t3 = pt_put api t2 (setting_path base ''socket'' ''use_gui'') (PBool (sc_spawnLocalClient g));
          t4 = pt_put api t3 (setting_path base ''socket'' ''client_path'') (PStr (sc_pythonClient g))
      in pt_put api t4 (setting_path base ''socket'' ''python_path'') (PStr (sc_pythonBinary g)))"

record demod_config =
  dm_retuneDelay :: int
  dm_demodDelay :: int
  dm_squelchType :: int

definition DemodConfig_init :: demod_config where
  "DemodConfig_init = \<lparr>dm_retuneDelay = 225000, dm_demodDelay = 10000, dm_squelchType = 0\<rparr>"

definition DemodConfig_load :: "'pt ptree_api \<Rightarrow> string \<Rightarrow> 'pt \<Rightarrow> demod_config \<Rightarrow> demod_config" where
  "DemodConfig_load api base t g = g\<lparr>
     dm_retuneDelay := get_long api t (setting_path base ''demod'' ''retune_delay'') 225000,
     dm_demodDelay := get_long api t (setting_path base ''demod'' ''demod_delay'') 10000,
     dm_squelchType := get_int api t (setting_path base ''demod'' ''squelch_mode'') 0\<rparr>"

definition DemodConfig_save :: "'pt ptree_api \<Rightarrow> string \<Rightarrow> 'pt \<Rightarrow> demod_config \<Rightarrow> 'pt" where
  "DemodConfig_save api base t g =
     (let t1 = pt_put api t (setting_path base ''demod'' ''retune_delay'') (PNum (dm_retuneDelay g));
          t2 = pt_put api t1 (setting_path base ''demod'' ''demod_delay'') (PNum (dm_demodDelay g))
      in pt_put api t2 (setting_path base ''demod'' ''squelch_mode'') (PNum (dm_squelchType g)))"

record audio_config =
  ac_rtspPort :: int
  ac_httpTunneling :: bool

definition AudioServerConfig_init :: audio_config where
  "AudioServerConfig_init = \<lparr>ac_rtspPort = 8554, ac_httpTunneling = False\<rparr>"

definition AudioServerConfig_load :: "'pt ptree_api \<Rightarrow> string \<Rightarrow> 'pt \<Rightarrow> audio_config \<Rightarrow> audio_config" where
  "AudioServerConfig_load api base t g = g\<lparr>
     ac_rtspPort := get_int api t (setting_path base ''audio_stream'' ''rtsp_port'') 8554,
     ac_httpTunneling := get_bool api t (setting_path base ''audio_stream'' ''http_tunneling'') False\<rparr>"

definition AudioServerConfig_save :: "'pt ptree_api \<Rightarrow> string \<Rightarrow> 'pt \<Rightarrow> audio_config \<Rightarrow> 'pt" where
  "AudioServerConfig_save api base t g =
     (let t1 = pt_put api t (setting_path base ''audio_stream'' ''rtsp_port'') (PNum (ac_rtspPort g))
      in pt_put api t1 (setting_path base ''audio_stream'' ''http_tunneling'') (PBool (ac_httpTunneling g)))"

section \<open>The list of tuners\<close>

record tuner_config =
  tc_rank :: int
  tc_descriptor :: string
  tc_driver :: string
  tc_ppmCorrection :: int
  tc_sampleRate :: int

definition TunerConfig_init :: tuner_config where
  "TunerConfig_init = \<lparr>tc_rank = 0, tc_descriptor = ''null'', tc_driver = ''null'',
     tc_ppmCorrection = 0, tc_sampleRate = 2048000\<rparr>"

text \<open>
  \<open>std::set<TunerConfig, TunerComparator>\<close> as the list of its elements in order. Two
  configurations of the same rank are equal to it, and \<open>insert\<close> keeps the one it has.
\<close>

fun tuner_insert :: "tuner_config \<Rightarrow> tuner_config list \<Rightarrow> tuner_config list" where
  "tuner_insert c [] = [c]"
| "tuner_insert c (x # xs) =
     (if tc_rank c < tc_rank x then c # x # xs
      else if tc_rank x < tc_rank c then x # tuner_insert c xs
      else x # xs)"

definition read_tuner :: "'pt ptree_api \<Rightarrow> 'pt \<Rightarrow> tuner_config" where
  "read_tuner api t = \<lparr>
     tc_rank = get_int api t (parse_path ''rank'') 0,
     tc_descriptor = get_str api t (parse_path ''descriptor'') ''null'',
     tc_driver = get_str api t (parse_path ''driver'') ''null'',
     tc_ppmCorrection = get_int api t (parse_path ''ppm_correction'') 0,
     tc_sampleRate = get_int api t (parse_path ''sample_rate'') 2048000\<rparr>"

definition TunerList_load :: "'pt ptree_api \<Rightarrow> string \<Rightarrow> 'pt \<Rightarrow> tuner_config list \<Rightarrow> tuner_config list" where
  "TunerList_load api base t tuners =
     (case get_child api t (parse_path (tuners_path base)) of
        Inl _ \<Rightarrow> tuners
      | Inr children \<Rightarrow> foldl (\<lambda>ts v. tuner_insert (read_tuner api v) ts) tuners children)"

text \<open>The loop of \<open>save\<close> writes every tuner over the same tree \<open>p\<close> and appends a copy.\<close>

definition write_tuner :: "'pt ptree_api \<Rightarrow> 'pt \<Rightarrow> tuner_config \<Rightarrow> 'pt" where
  "write_tuner api p c =
     (let p1 = pt_put api p (parse_path ''rank'') (PNum (tc_rank c));
          p2 = pt_put api p1 (parse_path ''descriptor'') (PStr (tc_descriptor c));
          p3 = pt_put api p2 (parse_path ''driver'') (PStr (tc_driver c));
          p4 = pt_put api p3 (parse_path ''ppm_correction'') (PNum (tc_ppmCorrection c))
      in pt_put api p4 (parse_path ''sample_rate'') (PNum (tc_sampleRate c)))"

fun write_tuners :: "'pt ptree_api \<Rightarrow> 'pt \<Rightarrow> tuner_config list \<Rightarrow> 'pt list" where
  "write_tuners api p [] = []"
| "write_tuners api p (c # cs) = (let p' = write_tuner api p c in p' # write_tuners api p' cs)"

definition TunerList_save :: "'pt ptree_api \<Rightarrow> string \<Rightarrow> 'pt \<Rightarrow> tuner_config list \<Rightarrow> 'pt" where
  "TunerList_save api base t tuners =
     pt_put_children api (pt_erase api t (tuners_path base)) (parse_path (tuners_path base))
       (write_tuners api (pt_empty api) tuners)"

section \<open>The saved state\<close>

record demod_state =
  ds_squelch :: rat
  ds_gain :: rat

definition DemodState_init :: demod_state where
  "DemodState_init = \<lparr>ds_squelch = 0, ds_gain = -10\<rparr>"

text \<open>The defaults \<open>DEFAULT_GAIN\<close> and \<open>DEFAULT_SQUELCH\<close> are \<open>int\<close>s, so the members are read as such.\<close>

definition DemodState_load :: "'pt ptree_api \<Rightarrow> string \<Rightarrow> 'pt \<Rightarrow> demod_state \<Rightarrow> demod_state" where
  "DemodState_load api base t g = g\<lparr>
     ds_gain := of_int (get_int api t (setting_path base ''demod'' ''gain'') (-10)),
     ds_squelch := of_int (get_int api t (setting_path base ''demod'' ''squelch'') 0)\<rparr>"

definition DemodState_save :: "'pt ptree_api \<Rightarrow> string \<Rightarrow> 'pt \<Rightarrow> demod_state \<Rightarrow> 'pt" where
  "DemodState_save api base t g =
     (let t1 = pt_put api t (setting_path base ''demod'' ''gain'') (PFloat (ds_gain g))
      in pt_put api t1 (setting_path base ''demod'' ''squelch'') (PFloat (ds_squelch g)))"

record scanner_state =
  ss_scanState :: int
  ss_manualFreq :: int
  ss_manualModulation :: string
  ss_holdIndex :: "int list"
  ss_holdKey :: string

definition ScannerState_init :: scanner_state where
  "ScannerState_init = \<lparr>ss_scanState = 0, ss_manualFreq = 0, ss_manualModulation = '''',
     ss_holdIndex = [], ss_holdKey = ''''\<rparr>"

text \<open>
  The loop over \<open>hold_index\<close> appends to the member; the first text that is no \<open>int\<close> throws,
  and the handler leaves what was appended so far.
\<close>

fun read_hold_index :: "'pt ptree_api \<Rightarrow> 'pt list \<Rightarrow> int list \<Rightarrow> int list" where
  "read_hold_index api [] acc = acc"
| "read_hold_index api (v # vs) acc =
     (case stoi (get_str api v [] '''') of
        Inl _ \<Rightarrow> acc
      | Inr i \<Rightarrow> read_hold_index api vs (acc @ [i]))"

definition ScannerState_load :: "'pt ptree_api \<Rightarrow> string \<Rightarrow> 'pt \<Rightarrow> scanner_state \<Rightarrow> scanner_state" where
  "ScannerState_load api base t g = g\<lparr>
     ss_scanState := get_int api t (setting_path base ''scanner'' ''state'') 0,
     ss_manualFreq := get_int api t (setting_path base ''scanner'' ''manual_freq'') 100000000,
     ss_manualModulation := get_str api t (setting_path base ''scanner'' ''manual_mode'') '''',
     ss_holdKey := get_str api t (setting_path base ''scanner'' ''hold_key'') '''',
     ss_holdIndex :=
       (case get_child api t (setting_path base ''scanner'' ''hold_index'') of
          Inl _ \<Rightarrow> ss_holdIndex g
        | Inr vs \<Rightarrow> read_hold_index api vs (ss_holdIndex g))\<rparr>"

definition ScannerState_save :: "'pt ptree_api \<Rightarrow> string \<Rightarrow> 'pt \<Rightarrow> scanner_state \<Rightarrow> 'pt" where
  "ScannerState_save api base t g =
     (let t1 = pt_put api t (setting_path base ''scanner'' ''state'') (PNum (ss_scanState g));
          t2 = pt_put api t1 (setting_path base ''scanner'' ''manual_freq'') (PNum (ss_manualFreq g));
          t3 = pt_put api t2 (setting_path base ''scanner'' ''manual_mode'') (PStr (ss_manualModulation g));
          t4 = pt_put api t3 (setting_path base ''scanner'' ''hold_key'') (PStr (ss_holdKey g))
      in pt_put_children api t4 (setting_path base ''scanner'' ''hold_index'')
           (map (\<lambda>i. pt_put api (pt_empty api) (parse_path '''') (PNum i)) (ss_holdIndex g)))"

section \<open>The managers\<close>

text \<open>What reading a JSON file can give, as in the database's loader.\<close>

datatype 'pt json_file = Json_Missing | Json_Malformed | Json_Tree 'pt

record 'pt configuration =
  cf_configPath :: string
  cf_general :: general_config
  cf_socket :: socket_config
  cf_demod :: demod_config
  cf_rtsp :: audio_config
  cf_tuners :: "tuner_config list"
  cf_pt :: 'pt

definition Configuration_init :: "'pt ptree_api \<Rightarrow> string \<Rightarrow> 'pt configuration" where
  "Configuration_init api databasePath = \<lparr>cf_configPath = databasePath,
     cf_general = GeneralConfig_init, cf_socket = SocketServerConfig_init,
     cf_demod = DemodConfig_init, cf_rtsp = AudioServerConfig_init, cf_tuners = [],
     cf_pt = pt_empty api\<rparr>"

text \<open>The file system: which paths exist, and which directories can be created.\<close>

record file_system =
  fs_exists :: "string \<Rightarrow> bool"
  fs_create_directory :: "string \<Rightarrow> bool"

definition setWorkingDirectory ::
    "file_system \<Rightarrow> string \<Rightarrow> string \<Rightarrow> 'pt configuration \<Rightarrow> 'pt configuration" where
  "setWorkingDirectory fs databasePath path c =
     (if \<not> fs_exists fs path \<and> \<not> fs_create_directory fs path
      then c\<lparr>cf_configPath := databasePath\<rparr>
      else c\<lparr>cf_configPath := path\<rparr>)"

definition getLogDirectory :: "file_system \<Rightarrow> string \<Rightarrow> 'pt configuration \<Rightarrow> string" where
  "getLogDirectory fs databasePath c =
     (let path = cf_configPath c @ ''/'' @ ''logs''
      in if \<not> fs_exists fs path \<and> \<not> fs_create_directory fs path then databasePath else path)"

definition getLatestLogPath :: "file_system \<Rightarrow> string \<Rightarrow> 'pt configuration \<Rightarrow> string" where
  "getLatestLogPath fs databasePath c = getLogDirectory fs databasePath c @ ''/'' @ ''latest.log''"

text \<open>\<open>stamp\<close> is the local time in the format the function asks for.\<close>

definition getDatedLogPath :: "file_system \<Rightarrow> string \<Rightarrow> string \<Rightarrow> 'pt configuration \<Rightarrow> string" where
  "getDatedLogPath fs databasePath stamp c =
     getLogDirectory fs databasePath c @ ''/'' @ stamp @ ''.log''"

definition config_loadAll :: "'pt ptree_api \<Rightarrow> 'pt configuration \<Rightarrow> 'pt configuration" where
  "config_loadAll api c = c\<lparr>
     cf_general := GeneralConfig_load api config_base_path (cf_pt c) (cf_general c),
     cf_socket := SocketServerConfig_load api config_base_path (cf_pt c) (cf_socket c),
     cf_demod := DemodConfig_load api config_base_path (cf_pt c) (cf_demod c),
     cf_rtsp := AudioServerConfig_load api config_base_path (cf_pt c) (cf_rtsp c),
     cf_tuners := TunerList_load api config_base_path (cf_pt c) (cf_tuners c)\<rparr>"

definition config_saveAll :: "'pt ptree_api \<Rightarrow> 'pt configuration \<Rightarrow> 'pt configuration" where
  "config_saveAll api c =
     (let gt = GeneralConfig_save api config_base_path (cf_pt c) (cf_general c);
          t1 = SocketServerConfig_save api config_base_path (snd gt) (cf_socket c);
          t2 = DemodConfig_save api config_base_path t1 (cf_demod c);
          t3 = AudioServerConfig_save api config_base_path t2 (cf_rtsp c);
          t4 = TunerList_save api config_base_path t3 (cf_tuners c)
      in c\<lparr>cf_general := fst gt, cf_pt := t4\<rparr>)"

definition config_loadFromFile ::
    "'pt ptree_api \<Rightarrow> 'pt json_file \<Rightarrow> 'pt configuration \<Rightarrow> bool \<times> 'pt configuration" where
  "config_loadFromFile api f c =
     (case f of
        Json_Missing \<Rightarrow> (True, c)
      | Json_Malformed \<Rightarrow> (False, c)
      | Json_Tree t \<Rightarrow> (True, config_loadAll api (c\<lparr>cf_pt := t\<rparr>)))"

text \<open>The result, the configuration afterwards, and the tree written to the file.\<close>

definition config_saveToFile ::
    "'pt ptree_api \<Rightarrow> 'pt configuration \<Rightarrow> bool \<times> 'pt configuration \<times> 'pt" where
  "config_saveToFile api c = (let c' = config_saveAll api c in (True, c', cf_pt c'))"

record 'pt saved_state =
  st_demod :: demod_state
  st_scanner :: scanner_state
  st_pt :: 'pt

definition State_init :: "'pt ptree_api \<Rightarrow> 'pt saved_state" where
  "State_init api = \<lparr>st_demod = DemodState_init, st_scanner = ScannerState_init, st_pt = pt_empty api\<rparr>"

definition state_loadAll :: "'pt ptree_api \<Rightarrow> 'pt saved_state \<Rightarrow> 'pt saved_state" where
  "state_loadAll api c = c\<lparr>
     st_demod := DemodState_load api state_base_path (st_pt c) (st_demod c),
     st_scanner := ScannerState_load api state_base_path (st_pt c) (st_scanner c)\<rparr>"

definition state_saveAll :: "'pt ptree_api \<Rightarrow> 'pt saved_state \<Rightarrow> 'pt saved_state" where
  "state_saveAll api c =
     (let t1 = DemodState_save api state_base_path (st_pt c) (st_demod c);
          t2 = ScannerState_save api state_base_path t1 (st_scanner c)
      in c\<lparr>st_pt := t2\<rparr>)"

definition state_loadFromFile ::
    "'pt ptree_api \<Rightarrow> 'pt json_file \<Rightarrow> 'pt saved_state \<Rightarrow> bool \<times> 'pt saved_state" where
  "state_loadFromFile api f c =
     (case f of
        Json_Missing \<Rightarrow> (True, c)
      | Json_Malformed \<Rightarrow> (False, c)
      | Json_Tree t \<Rightarrow> (True, state_loadAll api (c\<lparr>st_pt := t\<rparr>)))"

definition state_saveToFile :: "'pt ptree_api \<Rightarrow> 'pt saved_state \<Rightarrow> bool \<times> 'pt saved_state \<times> 'pt" where
  "state_saveToFile api c = (let c' = state_saveAll api c in (True, c', st_pt c'))"

lemmas config_save_defs = config_saveAll_def config_saveToFile_def GeneralConfig_save_def
  SocketServerConfig_save_def DemodConfig_save_def AudioServerConfig_save_def TunerList_save_def
lemmas config_load_defs = config_loadAll_def config_loadFromFile_def GeneralConfig_load_def
  SocketServerConfig_load_def DemodConfig_load_def AudioServerConfig_load_def TunerList_load_def
lemmas state_save_defs = state_saveAll_def state_saveToFile_def DemodState_save_def ScannerState_save_def
lemmas state_load_defs = state_loadAll_def state_loadFromFile_def DemodState_load_def ScannerState_load_def

section \<open>Paths of the settings\<close>

lemma setting_path_plain:
  assumes "CHR ''.'' \<notin> set base" "CHR ''.'' \<notin> set sect" "CHR ''.'' \<notin> set key" "key \<noteq> []"
  shows "setting_path base sect key = [base, sect, key]"
proof -
  obtain c cs where key: "key = c # cs" using assms(4) by (cases key) auto
  have "takeWhile (\<lambda>x. x \<noteq> CHR ''.'') key = key" "dropWhile (\<lambda>x. x \<noteq> CHR ''.'') key = []"
    using assms(3) by (auto intro!: takeWhile_eq_all_conv [THEN iffD2] simp: dropWhile_eq_Nil_conv)
  then have "getline_tokens (CHR ''.'') key = [key]"
    by (simp add: key getline_tokens.simps)
  then show ?thesis
    using assms(1,2) by (simp add: setting_path_def parse_path_def getline_tokens_step)
qed

lemma tuner_paths [simp]:
  "parse_path ''rank'' = [''rank'']" "parse_path ''descriptor'' = [''descriptor'']"
  "parse_path ''driver'' = [''driver'']" "parse_path ''ppm_correction'' = [''ppm_correction'']"
  "parse_path ''sample_rate'' = [''sample_rate'']" "parse_path [] = []"
  by (simp_all add: parse_path_def getline_tokens.simps Let_def)

lemma config_paths [simp]:
  "parse_path (tuners_path config_base_path) = [''config'', ''tuners'']"
  "tuners_path config_base_path \<noteq> ''config''" "''config'' \<noteq> tuners_path config_base_path"
  "setting_path config_base_path ''general'' ''log_verbosity'' = [''config'', ''general'', ''log_verbosity'']"
  "setting_path config_base_path ''socket'' ''port'' = [''config'', ''socket'', ''port'']"
  "setting_path config_base_path ''socket'' ''max_connections'' = [''config'', ''socket'', ''max_connections'']"
  "setting_path config_base_path ''socket'' ''use_gui'' = [''config'', ''socket'', ''use_gui'']"
  "setting_path config_base_path ''socket'' ''client_path'' = [''config'', ''socket'', ''client_path'']"
  "setting_path config_base_path ''socket'' ''python_path'' = [''config'', ''socket'', ''python_path'']"
  "setting_path config_base_path ''demod'' ''retune_delay'' = [''config'', ''demod'', ''retune_delay'']"
  "setting_path config_base_path ''demod'' ''demod_delay'' = [''config'', ''demod'', ''demod_delay'']"
  "setting_path config_base_path ''demod'' ''squelch_mode'' = [''config'', ''demod'', ''squelch_mode'']"
  "setting_path config_base_path ''audio_stream'' ''rtsp_port'' = [''config'', ''audio_stream'', ''rtsp_port'']"
  "setting_path config_base_path ''audio_stream'' ''http_tunneling'' = [''config'', ''audio_stream'', ''http_tunneling'']"
  by (simp_all add: setting_path_plain config_base_path_def tuners_path_def parse_path_def getline_tokens.simps Let_def)

lemma state_paths [simp]:
  "setting_path state_base_path ''demod'' ''gain'' = [''state'', ''demod'', ''gain'']"
  "setting_path state_base_path ''demod'' ''squelch'' = [''state'', ''demod'', ''squelch'']"
  "setting_path state_base_path ''scanner'' ''state'' = [''state'', ''scanner'', ''state'']"
  "setting_path state_base_path ''scanner'' ''manual_freq'' = [''state'', ''scanner'', ''manual_freq'']"
  "setting_path state_base_path ''scanner'' ''manual_mode'' = [''state'', ''scanner'', ''manual_mode'']"
  "setting_path state_base_path ''scanner'' ''hold_key'' = [''state'', ''scanner'', ''hold_key'']"
  "setting_path state_base_path ''scanner'' ''hold_index'' = [''state'', ''scanner'', ''hold_index'']"
  by (simp_all add: setting_path_plain state_base_path_def)

section \<open>Round trips\<close>

definition ranked :: "tuner_config list \<Rightarrow> bool" where
  "ranked ts \<longleftrightarrow> sorted_wrt (\<lambda>a b. tc_rank a < tc_rank b) ts"

lemma set_tuner_insert: "set (tuner_insert c ts) \<subseteq> insert c (set ts)"
  by (induction ts) auto

text \<open>The set's invariant: strictly increasing ranks.\<close>

lemma tuner_insert_ranked: "ranked ts \<Longrightarrow> ranked (tuner_insert c ts)"
proof (induction ts)
  case (Cons x xs)
  then show ?case using set_tuner_insert [of c xs] by (auto simp: ranked_def)
qed (simp add: ranked_def)

lemma tuner_insert_last: "\<forall>x\<in>set ts. tc_rank x < tc_rank c \<Longrightarrow> tuner_insert c ts = ts @ [c]"
  by (induction ts) auto

lemma tuner_insert_dup: "x \<in> set ts \<Longrightarrow> tc_rank x = tc_rank c \<Longrightarrow> ranked ts \<Longrightarrow> tuner_insert c ts = ts"
  by (induction ts) (auto simp: ranked_def)

lemma foldl_tuner_insert:
  "ranked (acc @ ts) \<Longrightarrow> foldl (\<lambda>ts c. tuner_insert c ts) acc ts = acc @ ts"
proof (induction ts arbitrary: acc)
  case (Cons t ts)
  then have "tuner_insert t acc = acc @ [t]"
    by (intro tuner_insert_last) (auto simp: ranked_def sorted_wrt_append)
  with Cons show ?case by simp
qed simp

definition tuner_in_range :: "tuner_config \<Rightarrow> bool" where
  "tuner_in_range c \<longleftrightarrow> in_int32 (tc_rank c) \<and> in_int32 (tc_ppmCorrection c) \<and> in_int32 (tc_sampleRate c)"

lemma read_write_tuner:
  assumes "ptree_laws api" "tuner_in_range c"
  shows "read_tuner api (write_tuner api p c) = c"
  using assms by (simp add: read_tuner_def write_tuner_def Let_def pt_simps tuner_in_range_def)

lemma read_write_tuners:
  assumes "ptree_laws api" "\<forall>c\<in>set cs. tuner_in_range c"
  shows "map (read_tuner api) (write_tuners api p cs) = cs"
  using assms by (induction cs arbitrary: p) (simp_all add: Let_def read_write_tuner)

lemma foldl_read_tuners:
  "foldl (\<lambda>ts v. tuner_insert (read_tuner api v) ts) acc vs =
   foldl (\<lambda>ts c. tuner_insert c ts) acc (map (read_tuner api) vs)"
  by (induction vs arbitrary: acc) simp_all

lemma read_hold_index_written:
  assumes "ptree_laws api" "\<forall>i\<in>set js. in_int32 i"
  shows "read_hold_index api (map (\<lambda>i. pt_put api t [] (PNum i)) js) acc = acc @ js"
  using assms by (induction js arbitrary: acc) (simp_all add: pt_simps stoi_to_string)

text \<open>What a configuration must satisfy for its integers to survive the file.\<close>

definition config_in_range :: "'pt configuration \<Rightarrow> bool" where
  "config_in_range c \<longleftrightarrow>
     in_int32 (sc_tcpPort (cf_socket c)) \<and> in_int32 (sc_maxConnections (cf_socket c)) \<and>
     in_int64 (dm_retuneDelay (cf_demod c)) \<and> in_int64 (dm_demodDelay (cf_demod c)) \<and>
     in_int32 (dm_squelchType (cf_demod c)) \<and> in_int32 (ac_rtspPort (cf_rtsp c)) \<and>
     (\<forall>t\<in>set (cf_tuners c). tuner_in_range t) \<and> ranked (cf_tuners c)"

definition state_in_range :: "'pt saved_state \<Rightarrow> bool" where
  "state_in_range c \<longleftrightarrow>
     (\<exists>g. ds_gain (st_demod c) = of_int g \<and> \<bar>g\<bar> < 1000000) \<and>
     (\<exists>q. ds_squelch (st_demod c) = of_int q \<and> \<bar>q\<bar> < 1000000) \<and>
     in_int32 (ss_scanState (st_scanner c)) \<and> in_int32 (ss_manualFreq (st_scanner c)) \<and>
     (\<forall>i\<in>set (ss_holdIndex (st_scanner c)). in_int32 i)"

section \<open>Properties\<close>

lemma tuner_list_reads:
  assumes "ptree_laws api" "\<forall>t\<in>set ts. tuner_in_range t" "ranked ts"
  shows "foldl (\<lambda>ts v. tuner_insert (read_tuner api v) ts) [] (write_tuners api p ts) = ts"
  using assms foldl_tuner_insert [of "[]" ts] by (simp add: foldl_read_tuners read_write_tuners)

text \<open>
  C23: A configuration written by \<open>Configuration::saveToFile\<close> and read into a freshly started
  program by \<open>loadFromFile\<close> comes back: the socket, demodulator and audio server settings and
  the whole list of tuners are the ones that were saved (integers within the width they are
  read at, tuners of distinct rank). The log verbosity is the exception: what comes back is
  what the tree held before, since \<open>GeneralConfig::save\<close> does not write the member.
\<close>

theorem config_round_trip:
  assumes "ptree_laws api" "config_in_range c"
    and "config_saveToFile api c = (True, c', t)"
    and "config_loadFromFile api (Json_Tree t) (Configuration_init api databasePath) = (ok, d)"
  shows "ok \<and> cf_socket d = cf_socket c \<and> cf_demod d = cf_demod c \<and> cf_rtsp d = cf_rtsp c \<and>
    cf_tuners d = cf_tuners c \<and>
    gc_logfileVerbosity (cf_general d) = get_int api (cf_pt c) [''config'', ''general'', ''log_verbosity''] 0"
proof -
  have t: "t = cf_pt (config_saveAll api c)" and ok: "ok" and d: "d = config_loadAll api (Configuration_init api databasePath\<lparr>cf_pt := t\<rparr>)"
    using assms(3,4) by (auto simp: config_saveToFile_def config_loadFromFile_def Let_def)
  have tn: "foldl (\<lambda>ts v. tuner_insert (read_tuner api v) ts) [] (write_tuners api (pt_empty api) (cf_tuners c)) = cf_tuners c"
    using assms(1,2) by (intro tuner_list_reads) (simp_all add: config_in_range_def)
  show ?thesis
    using assms(1,2) ok tn
    by (simp add: d t config_load_defs config_save_defs Let_def Configuration_init_def pt_simps config_in_range_def
        SocketServerConfig_init_def DemodConfig_init_def AudioServerConfig_init_def)
qed

theorem config_round_trip_witness:
  "cf_tuners (snd (config_loadFromFile ctree_api
     (Json_Tree (snd (snd (config_saveToFile ctree_api
        ((Configuration_init ctree_api ''/etc'')\<lparr>cf_tuners := [TunerConfig_init, TunerConfig_init\<lparr>tc_rank := 1\<rparr>]\<rparr>)))))
     (Configuration_init ctree_api ''/etc''))) = [TunerConfig_init, TunerConfig_init\<lparr>tc_rank := 1\<rparr>]"
proof -
  let ?c = "(Configuration_init ctree_api ''/etc'')\<lparr>cf_tuners := [TunerConfig_init, TunerConfig_init\<lparr>tc_rank := 1\<rparr>]\<rparr>"
  have r: "config_in_range ?c"
    by (simp add: config_in_range_def Configuration_init_def SocketServerConfig_init_def DemodConfig_init_def
        AudioServerConfig_init_def TunerConfig_init_def tuner_in_range_def ranked_def range_simps)
  have s: "config_saveToFile ctree_api ?c = (True, fst (snd (config_saveToFile ctree_api ?c)), snd (snd (config_saveToFile ctree_api ?c)))"
    by (simp add: config_saveToFile_def Let_def)
  show ?thesis
    using config_round_trip [OF ctree_laws r s prod.collapse [symmetric], of "''/etc''"] by simp
qed

text \<open>
  The saved state round trips: \<open>State::saveToFile\<close> followed by \<open>loadFromFile\<close> in a fresh
  program gives back the whole scanner state (mode, manual frequency and modulation, hold
  index and key) and the demodulator's gain and squelch, when the gain and squelch are whole
  numbers and the frequency and indices fit the \<open>int\<close> they are read as.
\<close>

theorem state_round_trip:
  assumes "ptree_laws api" "state_in_range c"
  shows "state_loadFromFile api (Json_Tree (snd (snd (state_saveToFile api c)))) (State_init api) =
    (True, \<lparr>st_demod = st_demod c, st_scanner = st_scanner c, st_pt = st_pt (state_saveAll api c)\<rparr>)"
proof -
  obtain g q where g: "ds_gain (st_demod c) = of_int g" "\<bar>g\<bar> < 1000000"
    and q: "ds_squelch (st_demod c) = of_int q" "\<bar>q\<bar> < 1000000"
    using assms(2) by (auto simp: state_in_range_def)
  have gr: "in_int32 g" "\<bar>of_int g :: rat\<bar> < 1000000" and qr: "in_int32 q" "\<bar>of_int q :: rat\<bar> < 1000000"
    using g q by (auto simp: range_simps abs_less_iff)
  show ?thesis
    using assms g q gr qr
    by (simp add: state_load_defs state_save_defs Let_def State_init_def pt_simps state_in_range_def
        read_hold_index_written DemodState_init_def ScannerState_init_def)
qed

theorem state_round_trip_witness:
  "st_scanner (snd (state_loadFromFile ctree_api (Json_Tree (snd (snd (state_saveToFile ctree_api
      ((State_init ctree_api)\<lparr>st_scanner := ScannerState_init\<lparr>ss_scanState := 1, ss_holdIndex := [2, 7]\<rparr>\<rparr>)))))
      (State_init ctree_api))) = ScannerState_init\<lparr>ss_scanState := 1, ss_holdIndex := [2, 7]\<rparr>"
proof -
  let ?c = "(State_init ctree_api)\<lparr>st_scanner := ScannerState_init\<lparr>ss_scanState := 1, ss_holdIndex := [2, 7]\<rparr>\<rparr>"
  have "\<exists>g. (-10::rat) = of_int g \<and> \<bar>g\<bar> < 1000000" by (intro exI [of _ "-10"]) simp
  moreover have "\<exists>q. (0::rat) = of_int q \<and> \<bar>q\<bar> < 1000000" by (intro exI [of _ 0]) simp
  ultimately have "state_in_range ?c"
    by (simp add: state_in_range_def State_init_def DemodState_init_def ScannerState_init_def range_simps)
  from state_round_trip [OF ctree_laws this] show ?thesis by simp
qed

text \<open>
  A gain that is not a whole number does not survive a restart: it is written as a
  \<open>float\<close>, but read with an \<open>int\<close> default, so loading it gives \<open>AUTO_GAIN\<close>.
\<close>

theorem fractional_gain_lost:
  assumes "ptree_laws api" "\<bar>ds_gain (st_demod c)\<bar> < 1000000" "of_int \<lfloor>ds_gain (st_demod c)\<rfloor> \<noteq> ds_gain (st_demod c)"
  shows "ds_gain (st_demod (snd (state_loadFromFile api (Json_Tree (snd (snd (state_saveToFile api c)))) s))) = -10"
  using assms by (simp add: state_load_defs state_save_defs Let_def pt_simps)

theorem fractional_gain_lost_witness:
  "ds_gain (st_demod (snd (state_loadFromFile ctree_api (Json_Tree (snd (snd (state_saveToFile ctree_api
     ((State_init ctree_api)\<lparr>st_demod := \<lparr>ds_squelch = 0, ds_gain = 25 / 2\<rparr>\<rparr>))))) (State_init ctree_api)))) = -10"
proof -
  have "\<lfloor>25 / 2 :: rat\<rfloor> = 12" by (rule floor_unique) auto
  then show ?thesis
    using fractional_gain_lost [OF ctree_laws, of "(State_init ctree_api)\<lparr>st_demod := \<lparr>ds_squelch = 0, ds_gain = 25 / 2\<rparr>\<rparr>" "State_init ctree_api"]
    by simp
qed

text \<open>
  Tuners form a set ordered by rank: whatever tree \<open>TunerList::load\<close> reads, the list stays
  strictly increasing in rank, so the tuner tried first is the one of least rank.
\<close>

theorem TunerList_load_ranked:
  assumes "ranked ts"
  shows "ranked (TunerList_load api base t ts)"
proof -
  have "ranked (foldl (\<lambda>ts v. tuner_insert (read_tuner api v) ts) ts vs)" for vs
    using assms by (induction vs arbitrary: ts) (simp_all add: tuner_insert_ranked)
  then show ?thesis using assms by (simp add: TunerList_load_def split: sum.splits)
qed

theorem TunerList_load_ranked_witness:
  "ranked (TunerList_load ctree_api ''config'' (pt_put_children ctree_api (pt_empty ctree_api)
     [''config'', ''tuners''] [pt_empty ctree_api]) [])"
  by (rule TunerList_load_ranked) (simp add: ranked_def)

end
