(* ===== verification/State_Machine.thy ===== *)
theory State_Machine
  imports Prelude
begin

text \<open>
  The base class \<open>StateMachine\<close> (src/src/util/StateMachine.h, src/src/util/StateMachine.cpp)
  and \<open>Synchronizable\<close> (src/src/util/synchronize.h).

  A derived machine extends the record \<open>sm_core\<close> with its own fields, as a derived class
  does. \<open>ExternalEvent\<close> and \<open>StateEngine\<close> both hold \<open>_eventMutex\<close> for their whole
  effect, so each is one atomic step; but the functions made with the
  \<open>BEGIN_TRANSITION_MAP\<close> macros read \<open>TRANSITIONS[currentState]\<close> before they take the
  mutex, so the reading and the delivery of a request are two steps of
  \<open>machine_step\<close>, and the engine may run between them.
\<close>

section \<open>Synchronizable\<close>

record sync_flags =
  sy_ready :: bool
  sy_stopped :: bool

definition notifyReady :: "sync_flags \<Rightarrow> sync_flags" where
  "notifyReady f = f\<lparr>sy_ready := True, sy_stopped := False\<rparr>"

definition notifyDeinit :: "sync_flags \<Rightarrow> sync_flags" where
  "notifyDeinit f = f\<lparr>sy_ready := False, sy_stopped := True\<rparr>"

text \<open>When the waiting loops of \<open>waitReady\<close> and \<open>waitDeinit\<close> let their caller go on.\<close>

definition waitReady_returns :: "sync_flags \<Rightarrow> bool" where
  "waitReady_returns f \<longleftrightarrow> sy_ready f"

definition waitDeinit_returns :: "sync_flags \<Rightarrow> bool" where
  "waitDeinit_returns f \<longleftrightarrow> sy_stopped f"

section \<open>The machine's own state\<close>

record 'ev sm_core =
  currentState :: nat
  lastState :: nat
  evtSrcExternal :: bool
  eventGenerated :: bool
  pEventData :: "'ev option"
  sm_run :: bool

text \<open>An operation that may fault (\<open>Inl\<close>) or never return (\<open>None\<close>).\<close>

type_synonym 'a outcome = "'a result option"

definition bind_outcome :: "'a outcome \<Rightarrow> ('a \<Rightarrow> 'b outcome) \<Rightarrow> 'b outcome" where
  "bind_outcome m f =
     (case m of None \<Rightarrow> None | Some (Inl e) \<Rightarrow> Some (Inl e) | Some (Inr a) \<Rightarrow> f a)"

definition ok :: "'a \<Rightarrow> 'a outcome" where
  "ok a = Some (Inr a)"

lemma bind_outcome_simps [simp]:
  "bind_outcome None f = None"
  "bind_outcome (Some (Inl e)) f = Some (Inl e)"
  "bind_outcome (Some (Inr a)) f = f a"
  "bind_outcome (ok a) f = f a"
  by (simp_all add: bind_outcome_def ok_def)

lemma ok_eq [simp]: "ok a = Some (Inr b) \<longleftrightarrow> a = b" "ok a = ok b \<longleftrightarrow> a = b"
  by (simp_all add: ok_def)

lemma bind_outcome_ok_iff:
  "bind_outcome m f = Some (Inr b) \<longleftrightarrow> (\<exists>a. m = Some (Inr a) \<and> f a = Some (Inr b))"
  by (auto simp: bind_outcome_def split: option.splits sum.splits)

definition EVENT_IGNORED :: nat where "EVENT_IGNORED = 254"

definition InternalEvent :: "nat \<Rightarrow> 'ev option \<Rightarrow> ('ev, 'z) sm_core_scheme \<Rightarrow> ('ev, 'z) sm_core_scheme" where
  "InternalEvent newState pData s =
     s\<lparr>pEventData := pData, eventGenerated := True, lastState := currentState s,
       currentState := newState\<rparr>"

definition ExternalEvent :: "nat \<Rightarrow> 'ev option \<Rightarrow> ('ev, 'z) sm_core_scheme \<Rightarrow> ('ev, 'z) sm_core_scheme" where
  "ExternalEvent newState pData s =
     (if newState = EVENT_IGNORED then s
      else (InternalEvent newState pData s)\<lparr>evtSrcExternal := True\<rparr>)"

text \<open>\<open>stop(false)\<close>: the thread is not joined.\<close>

definition sm_stop :: "('ev, 'z) sm_core_scheme \<Rightarrow> ('ev, 'z) sm_core_scheme" where
  "sm_stop s = s\<lparr>sm_run := False\<rparr>"

definition sm_start :: "('ev, 'z) sm_core_scheme \<Rightarrow> ('ev, 'z) sm_core_scheme" where
  "sm_start s = InternalEvent 0 None (s\<lparr>sm_run := True\<rparr>)"

section \<open>The engine\<close>

type_synonym ('ev, 'z) state_fun =
  "'ev option \<Rightarrow> ('ev, 'z) sm_core_scheme \<Rightarrow> ('ev, 'z) sm_core_scheme outcome"

text \<open>
  One pass of \<open>StateEngine\<close> once the condition variable has let it through, that is with
  an event generated: the event is consumed, the state's function runs on its data, and
  \<open>evtSrcExternal\<close> is reset.
\<close>

definition StateEngine ::
    "nat \<Rightarrow> ('ev, 'z) state_fun list \<Rightarrow> ('ev, 'z) sm_core_scheme \<Rightarrow> ('ev, 'z) sm_core_scheme outcome" where
  "StateEngine maxStates stateMap s =
     (let pDataTemp = pEventData s;
          s1 = s\<lparr>pEventData := None, eventGenerated := False\<rparr>
      in if \<not> currentState s1 < maxStates then Some (Inl Assert_Failed)
         else bind_outcome ((stateMap ! currentState s1) pDataTemp s1)
                (\<lambda>s2. ok (s2\<lparr>evtSrcExternal := False\<rparr>)))"

text \<open>
  \<open>StateThreadFunc\<close> runs the engine while \<open>_run\<close> holds, each time with the state map of
  the moment (state functions also read the radio and the clock). The run ends when the
  machine stops, when it has to wait for an event, or when the list is used up.
\<close>

fun run_engine ::
    "nat \<Rightarrow> ('ev, 'z) state_fun list list \<Rightarrow> ('ev, 'z) sm_core_scheme \<Rightarrow> ('ev, 'z) sm_core_scheme outcome" where
  "run_engine maxStates [] s = ok s"
| "run_engine maxStates (m # ms) s =
     (if sm_run s \<and> eventGenerated s
      then bind_outcome (StateEngine maxStates m s) (run_engine maxStates ms)
      else ok s)"

section \<open>Interleaving with the requests of other threads\<close>

text \<open>
  A request is made by a function that first changes some fields of the machine
  (\<open>rq_pre\<close>), then reads its transition table at the current state, and then delivers the
  event it found there.
\<close>

record ('ev, 's) sm_request =
  rq_pre :: "'s \<Rightarrow> 's"
  rq_table :: "nat list"
  rq_data :: "'ev option"

type_synonym ('ev, 'z) sm_config = "('ev, 'z) sm_core_scheme \<times> (nat \<times> 'ev option) list"

definition issue_request ::
    "('ev, ('ev, 'z) sm_core_scheme) sm_request \<Rightarrow> ('ev, 'z) sm_config \<Rightarrow> ('ev, 'z) sm_config" where
  "issue_request r c =
     (let s = rq_pre r (fst c) in (s, snd c @ [(rq_table r ! currentState s, rq_data r)]))"

inductive machine_step ::
    "nat \<Rightarrow> ('ev, 'z) state_fun list set \<Rightarrow> ('ev, ('ev, 'z) sm_core_scheme) sm_request set \<Rightarrow>
     ('ev, 'z) sm_config \<Rightarrow> ('ev, 'z) sm_config \<Rightarrow> bool"
  for maxStates stateMaps requests where
  issue: "r \<in> requests \<Longrightarrow> machine_step maxStates stateMaps requests c (issue_request r c)"
| deliver: "(ns, d) \<in> set pend \<Longrightarrow>
    machine_step maxStates stateMaps requests (s, pend) (ExternalEvent ns d s, remove1 (ns, d) pend)"
| engine: "m \<in> stateMaps \<Longrightarrow> sm_run s \<Longrightarrow> eventGenerated s \<Longrightarrow> StateEngine maxStates m s = Some (Inr s') \<Longrightarrow>
    machine_step maxStates stateMaps requests (s, pend) (s', pend)"

inductive machine_reach ::
    "nat \<Rightarrow> ('ev, 'z) state_fun list set \<Rightarrow> ('ev, ('ev, 'z) sm_core_scheme) sm_request set \<Rightarrow>
     ('ev, 'z) sm_config \<Rightarrow> ('ev, 'z) sm_config \<Rightarrow> bool"
  for maxStates stateMaps requests c where
  start: "machine_reach maxStates stateMaps requests c c"
| step: "machine_reach maxStates stateMaps requests c d \<Longrightarrow>
    machine_step maxStates stateMaps requests d e \<Longrightarrow> machine_reach maxStates stateMaps requests c e"

inductive_cases machine_step_cases: "machine_step maxStates stateMaps requests c d"

section \<open>Basic facts\<close>

lemma InternalEvent_fields [simp]:
  "currentState (InternalEvent n d s) = n" "lastState (InternalEvent n d s) = currentState s"
  "eventGenerated (InternalEvent n d s)" "pEventData (InternalEvent n d s) = d"
  "sm_run (InternalEvent n d s) = sm_run s" "evtSrcExternal (InternalEvent n d s) = evtSrcExternal s"
  by (simp_all add: InternalEvent_def)

lemma ExternalEvent_ignored [simp]: "ExternalEvent EVENT_IGNORED d s = s"
  by (simp add: ExternalEvent_def)

lemma ExternalEvent_fields:
  "n \<noteq> EVENT_IGNORED \<Longrightarrow> currentState (ExternalEvent n d s) = n"
  "n \<noteq> EVENT_IGNORED \<Longrightarrow> eventGenerated (ExternalEvent n d s)"
  "sm_run (ExternalEvent n d s) = sm_run s"
  by (simp_all add: ExternalEvent_def)

section \<open>The contract of a derived machine\<close>

text \<open>
  A derived machine promises that its state functions leave a legal current state, that its
  transition tables hold legal states or \<open>EVENT_IGNORED\<close>, one entry per state, and that
  the fields its requests write beforehand are its own. \<open>inv\<close> is any further invariant it
  keeps, and \<open>dok\<close> what it keeps of the events that are under way.
\<close>

locale state_machine =
  fixes maxStates :: nat and stateMaps :: "('ev, 'z) state_fun list set"
    and requests :: "('ev, ('ev, 'z) sm_core_scheme) sm_request set"
    and inv :: "('ev, 'z) sm_core_scheme \<Rightarrow> bool" and dok :: "nat \<Rightarrow> 'ev option \<Rightarrow> bool"
  assumes max_small: "maxStates \<le> EVENT_IGNORED"
    and fun_keeps: "m \<in> stateMaps \<Longrightarrow> currentState s < maxStates \<Longrightarrow> inv s \<Longrightarrow>
      (m ! currentState s) (pEventData s) (s\<lparr>pEventData := None, eventGenerated := False\<rparr>) = Some (Inr s') \<Longrightarrow>
      inv (s'\<lparr>evtSrcExternal := False\<rparr>) \<and> currentState s' < maxStates"
    and table_ok: "r \<in> requests \<Longrightarrow> i < maxStates \<Longrightarrow>
      (rq_table r ! i < maxStates \<or> rq_table r ! i = EVENT_IGNORED) \<and> dok (rq_table r ! i) (rq_data r)"
    and pre_keeps: "r \<in> requests \<Longrightarrow> inv s \<Longrightarrow> inv (rq_pre r s) \<and> currentState (rq_pre r s) = currentState s"
    and deliver_keeps: "inv s \<Longrightarrow> n < maxStates \<Longrightarrow> dok n d \<Longrightarrow> inv (ExternalEvent n d s)"
begin

definition config_ok :: "('ev, 'z) sm_config \<Rightarrow> bool" where
  "config_ok c \<longleftrightarrow> currentState (fst c) < maxStates \<and> inv (fst c) \<and>
     (\<forall>(n, d)\<in>set (snd c). (n < maxStates \<or> n = EVENT_IGNORED) \<and> dok n d)"

lemma step_keeps:
  assumes "machine_step maxStates stateMaps requests c c'" "config_ok c"
  shows "config_ok c'"
  using assms(1)
proof (cases rule: machine_step.cases)
  case (issue r)
  with assms(2) show ?thesis
    using pre_keeps table_ok by (auto simp: config_ok_def issue_request_def Let_def)
next
  case (deliver ns d pend s)
  then have "(ns < maxStates \<or> ns = EVENT_IGNORED) \<and> dok ns d" and "inv s" "currentState s < maxStates"
    and "\<forall>x\<in>set (remove1 (ns, d) pend). x \<in> set pend"
    using assms(2) by (auto simp: config_ok_def dest: set_remove1_subset [THEN subsetD])
  moreover have "currentState (ExternalEvent ns d s) < maxStates"
    using calculation by (cases "ns = EVENT_IGNORED") (auto simp: ExternalEvent_fields)
  ultimately show ?thesis
    using deliver assms(2) deliver_keeps by (cases "ns = EVENT_IGNORED") (auto simp: config_ok_def)
next
  case (engine m s s' pend)
  then obtain s2 where s2: "(m ! currentState s) (pEventData s) (s\<lparr>pEventData := None, eventGenerated := False\<rparr>) =
      Some (Inr s2)" "s' = s2\<lparr>evtSrcExternal := False\<rparr>"
    by (auto simp: StateEngine_def Let_def bind_outcome_ok_iff split: if_splits)
  have "currentState s < maxStates" "inv s" using engine assms(2) by (auto simp: config_ok_def)
  with fun_keeps [OF engine(3) this s2(1)] engine assms(2) s2(2) show ?thesis
    by (auto simp: config_ok_def)
qed

lemma reach_keeps:
  assumes "machine_reach maxStates stateMaps requests c c'" "config_ok c"
  shows "config_ok c'"
  using assms by (induction rule: machine_reach.induct) (auto intro: step_keeps)

text \<open>The \<open>assert(currentState < _maxStates)\<close> of the engine never fails.\<close>

lemma assert_never_fails:
  assumes "machine_reach maxStates stateMaps requests c (s, pend)" "config_ok c"
  shows "currentState s < maxStates \<and> inv s"
  using reach_keeps [OF assms] by (simp add: config_ok_def)

end

end
