(* ===== verification/Context.thy ===== *)
theory Context
  imports Std_Strings Complex_Main
begin

text \<open>
  The context records sent to clients (src/src/server/messages/context.h,
  src/src/server/messages/context.cpp). They are passed by value, so each hand-over runs
  the copy constructor that the class declares.
\<close>

section \<open>Scanner context\<close>

datatype context_state = OTHER_STATE | SCAN | HOLD | RECEIVE

record scanner_context =
  cx_state :: context_state
  cx_systemTag :: string
  cx_entryTag :: string
  cx_frequency :: int
  cx_modulation :: string
  cx_entryIndex :: string
  cx_delayMS :: int
  cx_lockout :: bool

text \<open>The default member initialisers.\<close>

definition ScannerContext_init :: scanner_context where
  "ScannerContext_init = \<lparr>cx_state = OTHER_STATE, cx_systemTag = '''', cx_entryTag = '''',
     cx_frequency = 0, cx_modulation = '''', cx_entryIndex = '''', cx_delayMS = 0, cx_lockout = False\<rparr>"

text \<open>The copy constructor lists six members; the other two keep their initialisers.\<close>

definition ScannerContext_copy :: "scanner_context \<Rightarrow> scanner_context" where
  "ScannerContext_copy c = ScannerContext_init
     \<lparr>cx_state := cx_state c, cx_systemTag := cx_systemTag c, cx_entryTag := cx_entryTag c,
      cx_frequency := cx_frequency c, cx_modulation := cx_modulation c, cx_entryIndex := cx_entryIndex c\<rparr>"

definition ScannerContext_make ::
    "context_state \<Rightarrow> string \<Rightarrow> string \<Rightarrow> int \<Rightarrow> string \<Rightarrow> string \<Rightarrow> scanner_context" where
  "ScannerContext_make st sysTag entryTag freq md index = ScannerContext_init
     \<lparr>cx_state := st, cx_systemTag := sysTag, cx_entryTag := entryTag, cx_frequency := freq,
      cx_modulation := md, cx_entryIndex := index\<rparr>"

definition clearFields :: "scanner_context \<Rightarrow> scanner_context" where
  "clearFields c = c\<lparr>cx_systemTag := '''', cx_entryTag := '''', cx_frequency := 0,
     cx_modulation := '''', cx_entryIndex := ''''\<rparr>"

lemma ScannerContext_copy_fields [simp]:
  "cx_state (ScannerContext_copy c) = cx_state c"
  "cx_systemTag (ScannerContext_copy c) = cx_systemTag c"
  "cx_entryTag (ScannerContext_copy c) = cx_entryTag c"
  "cx_frequency (ScannerContext_copy c) = cx_frequency c"
  "cx_modulation (ScannerContext_copy c) = cx_modulation c"
  "cx_entryIndex (ScannerContext_copy c) = cx_entryIndex c"
  "cx_delayMS (ScannerContext_copy c) = 0" "cx_lockout (ScannerContext_copy c) = False"
  by (simp_all add: ScannerContext_copy_def ScannerContext_init_def)

lemma ScannerContext_copy_idem [simp]:
  "ScannerContext_copy (ScannerContext_copy c) = ScannerContext_copy c"
  by (simp add: ScannerContext_copy_def ScannerContext_init_def)

section \<open>The other messages\<close>

datatype message_type = INFO | WARNING | ERROR

record general_message =
  gm_type :: message_type
  gm_content :: string

text \<open>A \<open>float\<close> gain is the rational number it denotes; the squelch is an \<open>int\<close> here.\<close>

record demod_context =
  dc_gain :: rat
  dc_squelch :: int

text \<open>The conversion of a \<open>float\<close> to an \<open>int\<close> drops the fraction.\<close>

definition float_to_int :: "rat \<Rightarrow> int" where
  "float_to_int x = (if x < 0 then - \<lfloor>- x\<rfloor> else \<lfloor>x\<rfloor>)"

definition DemodContext_make :: "rat \<Rightarrow> rat \<Rightarrow> demod_context" where
  "DemodContext_make gain squelch = \<lparr>dc_gain = gain, dc_squelch = float_to_int squelch\<rparr>"

record system_info =
  si_version :: string
  si_buildNumber :: int
  si_squelchRange :: "int \<times> int"
  si_supportedModulations :: "string list"

end
