(* ===== verification/Scanner.thy ===== *)
theory Scanner
  imports State_Machine Scan_Walk Context Configuration
begin

text \<open>
  \<open>ScannerSM\<close> (src/src/ScannerSM.h, src/src/ScannerSM.cpp): the state machine that walks
  over the database, listens on each channel and stops where there is a signal.

  The record extends \<open>sm_core\<close> with the members of the class and with the parts of the
  program it acts on: the demodulator (an unknown state behind the operations of the
  environment), the saved \<open>ScannerState\<close>, the tree written to the systems file, and the
  contexts handed to the server. One \<open>ST_\<close> function is one state function of the engine.
\<close>

section \<open>Data\<close>

text \<open>What an event carries: a \<open>ManualEntryData\<close>, or the \<open>uint32_t\<close> of \<open>ST_Scan\<close>.\<close>

datatype scan_event = Ev_Manual int string | Ev_Uint32 int

record ('pt, 'd) scanner = "scan_event sm_core" +
  sn_systems :: "'pt system_list"
  sn_currentEntry :: "'pt entry option"
  sn_manualEntry :: "'pt entry option"
  sn_context :: scanner_context
  sn_externalHold :: bool
  sn_manualMode :: bool
  sn_holdIndex :: "int list"
  sn_timeoutStart :: int
  sn_squelchHits :: int
  sn_sync :: sync_flags
  sn_demod :: 'd
  sn_saved :: scanner_state
  sn_written :: "'pt option"
  sn_out :: "scanner_context list"

text \<open>What a state function reads from outside: the clock is in milliseconds.\<close>

record ('pt, 'd) scan_env =
  ev_api :: "'pt ptree_api"
  ev_ops :: "'d demod_ops"
  ev_squelchBreak :: "bool \<Rightarrow> 'd \<Rightarrow> 'd result"
  ev_sampleRate :: "'d \<Rightarrow> int"
  ev_file :: "'pt file_content"
  ev_now :: int

definition ST_LOAD :: nat where "ST_LOAD = 0"
definition ST_SCAN :: nat where "ST_SCAN = 1"
definition ST_HOLD :: nat where "ST_HOLD = 2"
definition ST_RECEIVE :: nat where "ST_RECEIVE = 3"
definition ST_MANUAL :: nat where "ST_MANUAL = 4"
definition ST_SAVEALL :: nat where "ST_SAVEALL = 5"
definition ST_STOPPED :: nat where "ST_STOPPED = 6"

lemmas st_defs = ST_LOAD_def ST_SCAN_def ST_HOLD_def ST_RECEIVE_def ST_MANUAL_def ST_SAVEALL_def
  ST_STOPPED_def

definition SQUELCH_TRIGGER_HITS :: int where "SQUELCH_TRIGGER_HITS = 25"

definition ScannerSM_init :: "'pt ptree_api \<Rightarrow> 'd \<Rightarrow> scanner_state \<Rightarrow> ('pt, 'd) scanner" where
  "ScannerSM_init api d saved = \<lparr>currentState = 0, lastState = 0, evtSrcExternal = False,
     eventGenerated = False, pEventData = None, sm_run = False,
     sn_systems = SystemList_init api, sn_currentEntry = None, sn_manualEntry = None,
     sn_context = ScannerContext_init, sn_externalHold = False, sn_manualMode = False,
     sn_holdIndex = [], sn_timeoutStart = 0, sn_squelchHits = 0,
     sn_sync = \<lparr>sy_ready = False, sy_stopped = False\<rparr>, sn_demod = d, sn_saved = saved,
     sn_written = None, sn_out = []\<rparr>"

section \<open>Requests\<close>

type_synonym ('pt, 'd) scan_request = "(scan_event, ('pt, 'd) scanner) sm_request"

definition startScan :: "('pt, 'd) scan_request" where
  "startScan = \<lparr>rq_pre = (\<lambda>s. s),
     rq_table = [ST_SCAN, EVENT_IGNORED, ST_SCAN, ST_SCAN, ST_SCAN, EVENT_IGNORED, EVENT_IGNORED],
     rq_data = None\<rparr>"

definition holdScan :: "int list \<Rightarrow> ('pt, 'd) scan_request" where
  "holdScan index = \<lparr>rq_pre = (\<lambda>s. s\<lparr>sn_externalHold := True, sn_holdIndex := index\<rparr>),
     rq_table = [ST_HOLD, ST_HOLD, EVENT_IGNORED, EVENT_IGNORED, EVENT_IGNORED, EVENT_IGNORED, EVENT_IGNORED],
     rq_data = None\<rparr>"

definition stopScanner :: "('pt, 'd) scan_request" where
  "stopScanner = \<lparr>rq_pre = (\<lambda>s. s),
     rq_table = [ST_SAVEALL, ST_SAVEALL, ST_SAVEALL, ST_SAVEALL, ST_SAVEALL, ST_SAVEALL, EVENT_IGNORED],
     rq_data = None\<rparr>"

definition manualEntry :: "int \<Rightarrow> string \<Rightarrow> ('pt, 'd) scan_request" where
  "manualEntry freq md = \<lparr>rq_pre = (\<lambda>s. s),
     rq_table = [ST_MANUAL, ST_MANUAL, ST_MANUAL, ST_MANUAL, ST_MANUAL, EVENT_IGNORED, EVENT_IGNORED],
     rq_data = Some (Ev_Manual freq md)\<rparr>"

text \<open>A request read and delivered with no step of the engine in between.\<close>

definition perform :: "('pt, 'd) scan_request \<Rightarrow> ('pt, 'd) scanner \<Rightarrow> ('pt, 'd) scanner" where
  "perform r s = (let s' = rq_pre r s in ExternalEvent (rq_table r ! currentState s') (rq_data r) s')"

text \<open>\<open>startScanner\<close> resumes the mode that was saved.\<close>

definition startScanner :: "'pt ptree_api \<Rightarrow> ('pt, 'd) scanner \<Rightarrow> ('pt, 'd) scanner outcome" where
  "startScanner api s =
     (if ss_scanState (sn_saved s) = 1 then
        bind_outcome (getEntryByIndex api (ss_holdIndex (sn_saved s)) (sn_systems s)) (\<lambda>(e, sl).
          let s1 = s\<lparr>sn_systems := sl\<rparr>
          in if entry_key e = ss_holdKey (sn_saved s)
             then ok (perform (holdScan (ss_holdIndex (sn_saved s))) s1)
             else ok (perform startScan s1))
      else if ss_scanState (sn_saved s) = 2 then
        ok (perform (manualEntry (ss_manualFreq (sn_saved s)) (ss_manualModulation (sn_saved s))) s)
      else ok (perform startScan s))"

section \<open>Helpers of the state functions\<close>

definition lift_result :: "'a result \<Rightarrow> 'a outcome" where
  "lift_result r = Some r"

definition current :: "('pt, 'd) scanner \<Rightarrow> 'pt entry result" where
  "current s = (case sn_currentEntry s of None \<Rightarrow> Inl Null_Deref | Some e \<Rightarrow> Inr e)"

text \<open>\<open>_currentEntry->hasSignal()\<close>\<close>

definition probe :: "('pt, 'd) scan_env \<Rightarrow> ('pt, 'd) scanner \<Rightarrow> (bool \<times> ('pt, 'd) scanner) result" where
  "probe env s =
     bind_result (current s) (\<lambda>e.
     bind_result (hasSignal (ev_ops env) e (sn_demod s)) (\<lambda>(b, d). Inr (b, s\<lparr>sn_demod := d\<rparr>)))"

definition enableAudioOut :: "('pt, 'd) scan_env \<Rightarrow> bool \<Rightarrow> ('pt, 'd) scanner \<Rightarrow> ('pt, 'd) scanner result" where
  "enableAudioOut env en s =
     bind_result (ev_squelchBreak env en (sn_demod s)) (\<lambda>d. Inr (s\<lparr>sn_demod := d\<rparr>))"

text \<open>\<open>_currentEntry = _systems.getNextEntry()\<close>\<close>

definition take_next :: "('pt, 'd) scan_env \<Rightarrow> ('pt, 'd) scanner \<Rightarrow> ('pt, 'd) scanner outcome" where
  "take_next env s =
     bind_outcome (getNextEntry (ev_api env) (sn_systems s)) (\<lambda>(e, sl).
       ok (s\<lparr>sn_currentEntry := Some e, sn_systems := sl\<rparr>))"

text \<open>The fields the context takes from the current entry when the state is not \<open>SCAN\<close>.\<close>

definition entry_context :: "'pt system_list \<Rightarrow> bool \<Rightarrow> 'pt entry \<Rightarrow> scanner_context \<Rightarrow> scanner_context result" where
  "entry_context sl manual e c =
     bind_result
       (if manual
        then Inr (c\<lparr>cx_systemTag := ''Manual'', cx_entryTag := ''Manual entry'', cx_entryIndex := ''MAN''\<rparr>)
        else bind_result (subscript (sl_systems sl) (en_sysIndex e)) (\<lambda>rs.
          Inr (c\<lparr>cx_systemTag := rs_tag rs, cx_entryTag := en_tag e,
                 cx_entryIndex := to_string (int (en_sysIndex e)) @ ''-'' @ to_string (int (en_entryIndex e))\<rparr>)))
       (\<lambda>c1. Inr (c1\<lparr>cx_frequency := en_freq e, cx_modulation := modulation_of e,
                      cx_delayMS := en_delayMS e, cx_lockout := isLockedOut e\<rparr>))"

definition broadcastContextUpdate :: "('pt, 'd) scanner \<Rightarrow> ('pt, 'd) scanner result" where
  "broadcastContextUpdate s =
     bind_result
       (if cx_state (sn_context s) \<noteq> SCAN
        then bind_result (current s) (\<lambda>e. entry_context (sn_systems s) (sn_manualMode s) e (sn_context s))
        else Inr (clearFields (sn_context s)))
       (\<lambda>c. Inr (s\<lparr>sn_context := c, sn_out := sn_out s @ [ScannerContext_copy c]\<rparr>))"

definition set_context_state :: "context_state \<Rightarrow> ('pt, 'd) scanner \<Rightarrow> ('pt, 'd) scanner" where
  "set_context_state cs s = s\<lparr>sn_context := (sn_context s)\<lparr>cx_state := cs\<rparr>\<rparr>"

definition broadcast_if :: "bool \<Rightarrow> ('pt, 'd) scanner \<Rightarrow> ('pt, 'd) scanner result" where
  "broadcast_if b s = (if b then broadcastContextUpdate s else Inr s)"

definition getCurrentContext :: "('pt, 'd) scanner \<Rightarrow> scanner_context" where
  "getCurrentContext s = ScannerContext_copy (sn_context s)"

definition state_changed :: "('pt, 'd) scanner \<Rightarrow> bool" where
  "state_changed s \<longleftrightarrow> currentState s \<noteq> lastState s"

section \<open>The state functions\<close>

definition ST_Load :: "('pt, 'd) scan_env \<Rightarrow> ('pt, 'd) scanner \<Rightarrow> ('pt, 'd) scanner outcome" where
  "ST_Load env s =
     lift_result (bind_result (populateFromFile (ev_api env) (ev_file env) (sn_systems s)) (\<lambda>sl.
       bind_result (sortBins (ev_sampleRate env (sn_demod s)) sl) (\<lambda>sl'.
         Inr (s\<lparr>sn_systems := sl', sn_sync := notifyReady (sn_sync s)\<rparr>))))"

text \<open>The end of \<open>ST_Scan\<close>, once an entry is selected.\<close>

definition scan_probe :: "('pt, 'd) scan_env \<Rightarrow> ('pt, 'd) scanner \<Rightarrow> ('pt, 'd) scanner result" where
  "scan_probe env s =
     bind_result (probe env s) (\<lambda>(b, s1).
       if b then
         let s2 = s1\<lparr>sn_squelchHits := sn_squelchHits s1 + 1\<rparr>
         in if sn_squelchHits s2 \<ge> SQUELCH_TRIGGER_HITS then Inr (InternalEvent ST_RECEIVE None s2)
            else Inr (InternalEvent ST_SCAN None s2)
       else Inr (InternalEvent ST_SCAN None (s1\<lparr>sn_squelchHits := 0\<rparr>)))"

definition ST_Scan :: "('pt, 'd) scan_env \<Rightarrow> ('pt, 'd) scanner \<Rightarrow> ('pt, 'd) scanner outcome" where
  "ST_Scan env s0 =
     (let s1 = (if state_changed s0 then s0\<lparr>sn_squelchHits := 0\<rparr> else s0)
      in if sl_size (sn_systems s1) = 0
         then ok (InternalEvent ST_MANUAL (Some (Ev_Uint32 100000000)) s1)
         else
           bind_outcome (lift_result (bind_result (enableAudioOut env False s1) (\<lambda>s2.
               broadcast_if (state_changed s2)
                 ((set_context_state SCAN s2)\<lparr>sn_manualMode := False, sn_externalHold := False\<rparr>)))) (\<lambda>s3.
           bind_outcome
             (if sn_squelchHits s3 = 0 \<or> state_changed s3 then take_next env s3 else ok s3) (\<lambda>s4.
           lift_result (scan_probe env s4))))"

text \<open>The loop that leaves dummy channels: tune to the dummy, take the next entry.\<close>

partial_function (option) skip_dummies ::
    "('pt, 'd) scan_env \<Rightarrow> ('pt, 'd) scanner \<Rightarrow> ('pt, 'd) scanner outcome" where
  "skip_dummies env s =
     (case current s of
        Inl f \<Rightarrow> Some (Inl f)
      | Inr e \<Rightarrow>
          if isDummy e then
            (case probe env s of
               Inl f \<Rightarrow> Some (Inl f)
             | Inr r \<Rightarrow>
                 (case take_next env (snd r) of
                    None \<Rightarrow> None
                  | Some t \<Rightarrow> (case t of
                      Inl f \<Rightarrow> Some (Inl f)
                    | Inr s2 \<Rightarrow> skip_dummies env s2)))
          else ok s)"

definition apply_index_hold ::
    "('pt, 'd) scan_env \<Rightarrow> ('pt, 'd) scanner \<Rightarrow> (bool \<times> ('pt, 'd) scanner) outcome" where
  "apply_index_hold env s =
     (if sn_externalHold s \<and> sn_holdIndex s \<noteq> []
      then bind_outcome (getEntryByIndex (ev_api env) (sn_holdIndex s) (sn_systems s)) (\<lambda>(e, sl).
             ok (True, s\<lparr>sn_currentEntry := Some e, sn_systems := sl, sn_holdIndex := []\<rparr>))
      else ok (False, s))"

text \<open>
  What \<open>ST_Hold\<close> does after probing the entry \<open>e\<close>: the elapsed time is converted to a
  duration of \<open>int\<close> milliseconds.
\<close>

definition hold_next :: "int \<Rightarrow> bool \<Rightarrow> 'pt entry \<Rightarrow> ('pt, 'd) scanner \<Rightarrow> ('pt, 'd) scanner" where
  "hold_next now signal e s =
     (if signal then InternalEvent ST_RECEIVE None s
      else if sn_externalHold s then InternalEvent ST_HOLD None s
      else if isLockedOut e then InternalEvent ST_SCAN None s
      else if en_delayMS e \<noteq> 0 then
        (if wrap32 (now - sn_timeoutStart s) < en_delayMS e then InternalEvent ST_HOLD None s
         else if \<not> evtSrcExternal s then InternalEvent ST_SCAN None s
         else s)
      else if \<not> evtSrcExternal s then InternalEvent ST_SCAN None s
      else s)"

definition hold_probe :: "('pt, 'd) scan_env \<Rightarrow> bool \<Rightarrow> ('pt, 'd) scanner \<Rightarrow> ('pt, 'd) scanner result" where
  "hold_probe env indexHold s =
     bind_result (enableAudioOut env False s) (\<lambda>s1.
     bind_result (broadcast_if (state_changed s1 \<or> indexHold) (set_context_state HOLD s1)) (\<lambda>s2.
     bind_result (current s2) (\<lambda>e.
     bind_result (probe env s2) (\<lambda>(b, s3). Inr (hold_next (ev_now env) b e s3)))))"

definition ST_Hold :: "('pt, 'd) scan_env \<Rightarrow> ('pt, 'd) scanner \<Rightarrow> ('pt, 'd) scanner outcome" where
  "ST_Hold env s =
     bind_outcome (apply_index_hold env s) (\<lambda>(indexHold, s1).
     bind_outcome (skip_dummies env s1) (\<lambda>s2.
     lift_result (hold_probe env indexHold s2)))"

definition ST_Receive :: "('pt, 'd) scan_env \<Rightarrow> ('pt, 'd) scanner \<Rightarrow> ('pt, 'd) scanner outcome" where
  "ST_Receive env s =
     lift_result (bind_result (current s) (\<lambda>e.
       let s1 = (if isLockedOut e then InternalEvent ST_SCAN None s else s)
       in bind_result (enableAudioOut env True s1) (\<lambda>s2.
          bind_result (broadcast_if (state_changed s2) (set_context_state RECEIVE s2)) (\<lambda>s3.
          bind_result (probe env s3) (\<lambda>(b, s4).
            if b then Inr (InternalEvent ST_RECEIVE None s4)
            else Inr ((InternalEvent ST_HOLD None s4)\<lparr>sn_timeoutStart := ev_now env\<rparr>))))))"

definition manual_channel :: "'pt ptree_api \<Rightarrow> int \<Rightarrow> string \<Rightarrow> 'pt entry" where
  "manual_channel api freq md =
     (if md = ''FM'' \<or> md = ''NFM'' then FMChannel api freq '''' False 0
      else if md = ''AM'' then AMChannel api freq '''' False 0
      else FMChannel api freq '''' False 0)"

definition ST_Manual ::
    "('pt, 'd) scan_env \<Rightarrow> scan_event option \<Rightarrow> ('pt, 'd) scanner \<Rightarrow> ('pt, 'd) scanner outcome" where
  "ST_Manual env data s =
     (case data of
        None \<Rightarrow> Some (Inl Null_Deref)
      | Some (Ev_Uint32 _) \<Rightarrow> Some (Inl Bad_Cast)
      | Some (Ev_Manual freq md) \<Rightarrow>
          let e = manual_channel (ev_api env) freq md
          in ok (InternalEvent ST_HOLD None
               (s\<lparr>sn_manualEntry := Some e, sn_currentEntry := Some e, sn_externalHold := True,
                  sn_manualMode := True\<rparr>)))"

definition save_scanner_state :: "('pt, 'd) scanner \<Rightarrow> scanner_state result" where
  "save_scanner_state s =
     (let st = (sn_saved s)\<lparr>ss_holdIndex := [], ss_holdKey := '''', ss_manualFreq := 0, ss_manualModulation := ''''\<rparr>
      in if sn_manualMode s then
           bind_result (current s) (\<lambda>e.
             Inr (st\<lparr>ss_scanState := 2, ss_manualFreq := en_freq e, ss_manualModulation := modulation_of e\<rparr>))
         else if sn_externalHold s then
           bind_result (current s) (\<lambda>e.
             Inr (st\<lparr>ss_scanState := 1,
                     ss_holdIndex := [wrap32 (int (en_sysIndex e)), wrap32 (int (en_entryIndex e))],
                     ss_holdKey := entry_key e\<rparr>))
         else Inr (st\<lparr>ss_scanState := 0\<rparr>))"

definition ST_SaveAll :: "('pt, 'd) scan_env \<Rightarrow> ('pt, 'd) scanner \<Rightarrow> ('pt, 'd) scanner outcome" where
  "ST_SaveAll env s =
     lift_result (bind_result (save_scanner_state s) (\<lambda>st.
       Inr (InternalEvent ST_STOPPED None
         (s\<lparr>sn_saved := st, sn_written := Some (writeToFile (ev_api env) (sn_systems s))\<rparr>))))"

definition ST_Stopped :: "('pt, 'd) scanner \<Rightarrow> ('pt, 'd) scanner outcome" where
  "ST_Stopped s = ok ((sm_stop s)\<lparr>sn_sync := notifyDeinit (sn_sync s)\<rparr>)"

text \<open>The state map, in the order of the enumeration.\<close>

definition scanner_map :: "('pt, 'd) scan_env \<Rightarrow> (scan_event, ('pt, 'd, unit) scanner_ext) state_fun list" where
  "scanner_map env = [\<lambda>_. ST_Load env, \<lambda>_. ST_Scan env, \<lambda>_. ST_Hold env, \<lambda>_. ST_Receive env,
     ST_Manual env, \<lambda>_. ST_SaveAll env, \<lambda>_. ST_Stopped]"

definition scanner_engine :: "('pt, 'd) scan_env \<Rightarrow> ('pt, 'd) scanner \<Rightarrow> ('pt, 'd) scanner outcome" where
  "scanner_engine env s = StateEngine 7 (scanner_map env) s"

definition scanner_run :: "('pt, 'd) scan_env list \<Rightarrow> ('pt, 'd) scanner \<Rightarrow> ('pt, 'd) scanner outcome" where
  "scanner_run envs s = run_engine 7 (map scanner_map envs) s"

end
