(* ===== verification/Scanner_Proofs.thy ===== *)
theory Scanner_Proofs
  imports Scanner
begin

text \<open>
  The scanner's invariants over every interleaving with its clients' requests, what each
  state function leads to, and what stopping, holding and saving do.
\<close>

section \<open>What the helpers change\<close>

lemma lift_result_iff [simp]: "lift_result r = Some (Inr x) \<longleftrightarrow> r = Inr x"
  by (simp add: lift_result_def)

lemma current_iff [simp]: "current s = Inr e \<longleftrightarrow> sn_currentEntry s = Some e"
  by (simp add: current_def split: option.splits)

lemma probe_frame:
  "probe env s = Inr (b, s') \<Longrightarrow> \<exists>d. s' = s\<lparr>sn_demod := d\<rparr> \<and> sn_currentEntry s \<noteq> None"
  by (auto simp: probe_def bind_result_Inr_iff)

lemma enableAudioOut_frame: "enableAudioOut env b s = Inr s' \<Longrightarrow> \<exists>d. s' = s\<lparr>sn_demod := d\<rparr>"
  by (auto simp: enableAudioOut_def bind_result_Inr_iff)

lemma broadcast_frame:
  "broadcast_if b s = Inr s' \<Longrightarrow> \<exists>c os. s' = s\<lparr>sn_context := c, sn_out := sn_out s @ map ScannerContext_copy os\<rparr>"
proof (cases b)
  case True
  assume "broadcast_if b s = Inr s'"
  then obtain c where "s' = s\<lparr>sn_context := c, sn_out := sn_out s @ [ScannerContext_copy c]\<rparr>"
    using True by (auto simp: broadcast_if_def broadcastContextUpdate_def bind_result_Inr_iff)
  then show ?thesis by (intro exI [of _ c] exI [of _ "[c]"]) simp
next
  case False
  assume "broadcast_if b s = Inr s'"
  then show ?thesis
    using False by (intro exI [of _ "sn_context s"] exI [of _ "[]"]) (simp add: broadcast_if_def)
qed

lemma next_candidate_frame:
  assumes "next_candidate api s = Some (Inr (e, s'))"
  shows "sl_systems s' = sl_systems s \<and> sl_bins s' = sl_bins s"
  using assms
  by (auto simp: next_candidate_def bind_result_Inr_iff Let_def split: if_splits option.splits)

lemma getNextEntry_frame:
  assumes "getNextEntry api s = Some (Inr (e, s'))"
  shows "sl_systems s' = sl_systems s \<and> sl_bins s' = sl_bins s"
proof -
  have "\<forall>e s'. r = Inr (e, s') \<longrightarrow> sl_systems s' = sl_systems s \<and> sl_bins s' = sl_bins s"
    if "getNextEntry api s = Some r" for r
    using that
  proof (rule getNextEntry.raw_induct
      [where P = "\<lambda>api s r. \<forall>e s'. r = Inr (e, s') \<longrightarrow> sl_systems s' = sl_systems s \<and> sl_bins s' = sl_bins s", rotated])
    fix self :: "'a ptree_api \<Rightarrow> 'a system_list \<Rightarrow> ('a entry \<times> 'a system_list) result option"
    fix api s r
    assume IH: "\<And>api s r. self api s = Some r \<Longrightarrow>
        \<forall>e s'. r = Inr (e, s') \<longrightarrow> sl_systems s' = sl_systems s \<and> sl_bins s' = sl_bins s"
      and eq: "(case next_candidate api s of None \<Rightarrow> None
        | Some (Inl f) \<Rightarrow> Some (Inl f)
        | Some (Inr c) \<Rightarrow> (case entry_locked (sl_systems s) (fst c) of
            Inl f \<Rightarrow> Some (Inl f)
          | Inr locked \<Rightarrow> if locked then self api (snd c) else Some (Inr c))) = Some r"
    show "\<forall>e s'. r = Inr (e, s') \<longrightarrow> sl_systems s' = sl_systems s \<and> sl_bins s' = sl_bins s"
      using eq next_candidate_frame [of api s]
      by (auto split: option.splits sum.splits if_splits dest!: IH)
  qed
  with assms show ?thesis by blast
qed

lemma getEntryByIndex_frame:
  "getEntryByIndex api i s = Some (Inr (e, s')) \<Longrightarrow> sl_systems s' = sl_systems s \<and> sl_bins s' = sl_bins s"
  by (auto simp: getEntryByIndex_def bind_result_Inr_iff dest: getNextEntry_frame split: if_splits)

lemma take_next_frame:
  "take_next env s = Some (Inr s') \<Longrightarrow>
   \<exists>e sl. s' = s\<lparr>sn_currentEntry := Some e, sn_systems := sl\<rparr> \<and> sl_systems sl = sl_systems (sn_systems s)"
  by (auto simp: take_next_def bind_outcome_ok_iff dest: getNextEntry_frame)

lemma apply_index_hold_frame:
  "apply_index_hold env s = Some (Inr (b, s')) \<Longrightarrow>
   \<exists>eo sl h. s' = s\<lparr>sn_currentEntry := eo, sn_systems := sl, sn_holdIndex := h\<rparr> \<and>
     sl_systems sl = sl_systems (sn_systems s) \<and> (sn_currentEntry s \<noteq> None \<longrightarrow> eo \<noteq> None)"
proof (cases "sn_externalHold s \<and> sn_holdIndex s \<noteq> []")
  case True
  assume "apply_index_hold env s = Some (Inr (b, s'))"
  with True show ?thesis
    by (auto simp: apply_index_hold_def bind_outcome_ok_iff dest: getEntryByIndex_frame)
next
  case False
  assume "apply_index_hold env s = Some (Inr (b, s'))"
  with False show ?thesis
    by (intro exI [of _ "sn_currentEntry s"] exI [of _ "sn_systems s"] exI [of _ "sn_holdIndex s"])
      (auto simp: apply_index_hold_def)
qed

text \<open>The result of the dummy loop holds a real channel.\<close>

lemma skip_dummies_frame:
  assumes "skip_dummies env s = Some (Inr s')"
  shows "\<exists>e sl d. s' = s\<lparr>sn_currentEntry := Some e, sn_systems := sl, sn_demod := d\<rparr> \<and> \<not> isDummy e \<and>
    sl_systems sl = sl_systems (sn_systems s)"
proof -
  let ?Q = "\<lambda>env s r. \<forall>s'. r = Inr s' \<longrightarrow> (\<exists>e sl d. s' = s\<lparr>sn_currentEntry := Some e, sn_systems := sl, sn_demod := d\<rparr> \<and>
      \<not> isDummy e \<and> sl_systems sl = sl_systems (sn_systems s))"
  have "?Q env s r" if "skip_dummies env s = Some r" for r
    using that
  proof (rule skip_dummies.raw_induct [where P = ?Q, rotated])
    fix self :: "('a, 'b) scan_env \<Rightarrow> ('a, 'b) scanner \<Rightarrow> ('a, 'b) scanner outcome"
    fix env s r
    assume IH: "\<And>env s r. self env s = Some r \<Longrightarrow> ?Q env s r"
      and eq: "(case current s of Inl f \<Rightarrow> Some (Inl f)
        | Inr e \<Rightarrow> if isDummy e then (case probe env s of Inl f \<Rightarrow> Some (Inl f)
            | Inr r \<Rightarrow> (case take_next env (snd r) of None \<Rightarrow> None
               | Some (Inl f) \<Rightarrow> Some (Inl f) | Some (Inr s2) \<Rightarrow> self env s2))
          else ok s) = Some r"
    show "?Q env s r"
    proof (intro allI impI)
      fix s' assume r: "r = Inr s'"
      then obtain e where e: "current s = Inr e" using eq by (auto split: sum.splits)
      show "\<exists>e sl d. s' = s\<lparr>sn_currentEntry := Some e, sn_systems := sl, sn_demod := d\<rparr> \<and>
          \<not> isDummy e \<and> sl_systems sl = sl_systems (sn_systems s)"
      proof (cases "isDummy e")
        case False
        with eq e r have "s' = s" by (simp add: ok_def)
        with e False show ?thesis
          by (intro exI [of _ e] exI [of _ "sn_systems s"] exI [of _ "sn_demod s"]) (auto)
      next
        case True
        with eq e r obtain b s1 s2 where "probe env s = Inr (b, s1)" "take_next env s1 = Some (Inr s2)"
          "self env s2 = Some (Inr s')"
          by (auto split: sum.splits option.splits)
        moreover obtain e' sl d where "s' = s2\<lparr>sn_currentEntry := Some e', sn_systems := sl, sn_demod := d\<rparr>"
          "\<not> isDummy e'" "sl_systems sl = sl_systems (sn_systems s2)"
          using IH [OF calculation(3)] by blast
        ultimately show ?thesis
          by (intro exI [of _ e'] exI [of _ sl] exI [of _ d]) (auto dest!: probe_frame take_next_frame)
      qed
    qed
  qed
  with assms show ?thesis by blast
qed


section \<open>The invariant\<close>

text \<open>The requests the program makes.\<close>

definition scanner_requests :: "('pt, 'd) scan_request set" where
  "scanner_requests = {startScan, stopScanner} \<union> range holdScan \<union> {manualEntry f md | f md. True}"

text \<open>
  The scanner receives, and is in manual mode, only with an entry selected; manual mode is a
  hold; manual entry is entered with the data it expects, unless the database is empty; and
  every context that went to the server has lost its delay and lockout.
\<close>

definition scanner_inv :: "('pt, 'd) scanner \<Rightarrow> bool" where
  "scanner_inv s \<longleftrightarrow>
     (currentState s = ST_RECEIVE \<longrightarrow> sn_currentEntry s \<noteq> None) \<and>
     (sn_manualMode s \<longrightarrow> sn_currentEntry s \<noteq> None \<and> sn_externalHold s) \<and>
     (currentState s = ST_MANUAL \<and> eventGenerated s \<longrightarrow>
        (\<exists>f md. pEventData s = Some (Ev_Manual f md)) \<or> sl_size (sn_systems s) = 0) \<and>
     (\<forall>c\<in>set (sn_out s). cx_delayMS c = 0 \<and> \<not> cx_lockout c)"

definition scan_event_ok :: "nat \<Rightarrow> scan_event option \<Rightarrow> bool" where
  "scan_event_ok n d \<longleftrightarrow> n \<noteq> ST_RECEIVE \<and> (n = ST_MANUAL \<longrightarrow> (\<exists>f md. d = Some (Ev_Manual f md)))"

text \<open>What a state function keeps: the invariant's parts, and a legal next state.\<close>

definition scanner_keeps :: "('pt, 'd) scanner \<Rightarrow> bool" where
  "scanner_keeps s \<longleftrightarrow> scanner_inv s \<and> currentState s < 7"

lemma broadcast_keeps_out:
  "broadcast_if b s = Inr s' \<Longrightarrow> \<forall>c\<in>set (sn_out s). cx_delayMS c = 0 \<and> \<not> cx_lockout c \<Longrightarrow>
   \<forall>c\<in>set (sn_out s'). cx_delayMS c = 0 \<and> \<not> cx_lockout c"
  by (auto dest!: broadcast_frame)

lemma set_context_state_frame [simp]:
  "currentState (set_context_state c s) = currentState s" "lastState (set_context_state c s) = lastState s"
  "sn_currentEntry (set_context_state c s) = sn_currentEntry s" "sn_systems (set_context_state c s) = sn_systems s"
  "sn_externalHold (set_context_state c s) = sn_externalHold s" "sn_manualMode (set_context_state c s) = sn_manualMode s"
  "sn_out (set_context_state c s) = sn_out s" "sn_demod (set_context_state c s) = sn_demod s"
  "sn_squelchHits (set_context_state c s) = sn_squelchHits s" "eventGenerated (set_context_state c s) = eventGenerated s"
  "pEventData (set_context_state c s) = pEventData s" "evtSrcExternal (set_context_state c s) = evtSrcExternal s"
  "sn_holdIndex (set_context_state c s) = sn_holdIndex s" "sm_run (set_context_state c s) = sm_run s"
  "state_changed (set_context_state c s) = state_changed s"
  by (simp_all add: set_context_state_def state_changed_def)

lemma InternalEvent_scanner_fields [simp]:
  "sn_currentEntry (InternalEvent n d s) = sn_currentEntry s" "sn_systems (InternalEvent n d s) = sn_systems s"
  "sn_externalHold (InternalEvent n d s) = sn_externalHold s" "sn_manualMode (InternalEvent n d s) = sn_manualMode s"
  "sn_out (InternalEvent n d s) = sn_out s" "sn_demod (InternalEvent n d s) = sn_demod s"
  "sn_squelchHits (InternalEvent n d s) = sn_squelchHits s" "sn_holdIndex (InternalEvent n d s) = sn_holdIndex s"
  "sn_saved (InternalEvent n d s) = sn_saved s" "sn_written (InternalEvent n d s) = sn_written s"
  "sn_sync (InternalEvent n d s) = sn_sync s" "sn_context (InternalEvent n d s) = sn_context s"
  "sn_timeoutStart (InternalEvent n d s) = sn_timeoutStart s"
  by (simp_all add: InternalEvent_def)

lemma ExternalEvent_scanner_fields [simp]:
  "sn_currentEntry (ExternalEvent n d s) = sn_currentEntry s" "sn_systems (ExternalEvent n d s) = sn_systems s"
  "sn_externalHold (ExternalEvent n d s) = sn_externalHold s" "sn_manualMode (ExternalEvent n d s) = sn_manualMode s"
  "sn_out (ExternalEvent n d s) = sn_out s" "sn_demod (ExternalEvent n d s) = sn_demod s"
  "sn_squelchHits (ExternalEvent n d s) = sn_squelchHits s" "sn_holdIndex (ExternalEvent n d s) = sn_holdIndex s"
  "sn_saved (ExternalEvent n d s) = sn_saved s" "sn_written (ExternalEvent n d s) = sn_written s"
  "sn_sync (ExternalEvent n d s) = sn_sync s" "sn_context (ExternalEvent n d s) = sn_context s"
  by (simp_all add: ExternalEvent_def)

lemma engine_map [simp]:
  "scanner_map env ! 0 = (\<lambda>_. ST_Load env)" "scanner_map env ! ST_LOAD = (\<lambda>_. ST_Load env)"
  "scanner_map env ! ST_SCAN = (\<lambda>_. ST_Scan env)" "scanner_map env ! ST_HOLD = (\<lambda>_. ST_Hold env)"
  "scanner_map env ! ST_RECEIVE = (\<lambda>_. ST_Receive env)" "scanner_map env ! ST_MANUAL = ST_Manual env"
  "scanner_map env ! ST_SAVEALL = (\<lambda>_. ST_SaveAll env)" "scanner_map env ! ST_STOPPED = (\<lambda>_. ST_Stopped)"
  by (simp_all add: scanner_map_def st_defs)

lemma states_below_7:
  "n < 7 \<Longrightarrow> n \<in> {ST_LOAD, ST_SCAN, ST_HOLD, ST_RECEIVE, ST_MANUAL, ST_SAVEALL, ST_STOPPED}"
  by (auto simp: st_defs)

lemma ST_Load_keeps:
  assumes "ST_Load env s = Some (Inr s')" "scanner_inv s" "currentState s = ST_LOAD" "\<not> eventGenerated s"
  shows "scanner_keeps s'"
  using assms
  by (auto simp: ST_Load_def bind_result_Inr_iff scanner_keeps_def scanner_inv_def st_defs)

lemma scan_probe_next:
  "scan_probe env s = Inr s' \<Longrightarrow> \<exists>n d h. (n = ST_RECEIVE \<or> n = ST_SCAN) \<and> sn_currentEntry s \<noteq> None \<and>
     s' = InternalEvent n None (s\<lparr>sn_demod := d, sn_squelchHits := h\<rparr>)"
proof -
  assume "scan_probe env s = Inr s'"
  then obtain b s1 where p: "probe env s = Inr (b, s1)" and s': "s' = (if b then
         let s2 = s1\<lparr>sn_squelchHits := sn_squelchHits s1 + 1\<rparr>
         in if sn_squelchHits s2 \<ge> SQUELCH_TRIGGER_HITS then InternalEvent ST_RECEIVE None s2
            else InternalEvent ST_SCAN None s2
       else InternalEvent ST_SCAN None (s1\<lparr>sn_squelchHits := 0\<rparr>))"
    by (auto simp: scan_probe_def bind_result_Inr_iff Let_def split: if_splits)
  from probe_frame [OF p] obtain d where "s1 = s\<lparr>sn_demod := d\<rparr>" "sn_currentEntry s \<noteq> None" by blast
  with s' show ?thesis by (auto simp: Let_def)
qed

lemma ST_Scan_keeps:
  assumes "ST_Scan env s = Some (Inr s')" "scanner_inv s"
  shows "scanner_keeps s'"
proof (cases "sl_size (sn_systems s) = 0")
  case True
  with assms show ?thesis
    by (auto simp: ST_Scan_def Let_def scanner_keeps_def scanner_inv_def st_defs split: if_splits)
next
  case False
  let ?s1 = "if state_changed s then s\<lparr>sn_squelchHits := 0\<rparr> else s"
  have "sl_size (sn_systems ?s1) \<noteq> 0" using False by simp
  with assms(1) obtain s2 s3 s4 where s2: "enableAudioOut env False ?s1 = Inr s2"
    and s3: "broadcast_if (state_changed s2) ((set_context_state SCAN s2)\<lparr>sn_manualMode := False, sn_externalHold := False\<rparr>) = Inr s3"
    and s4: "(if sn_squelchHits s3 = 0 \<or> state_changed s3 then take_next env s3 else ok s3) = Some (Inr s4)"
    and s': "scan_probe env s4 = Inr s'"
    by (auto simp: ST_Scan_def Let_def bind_outcome_ok_iff bind_result_Inr_iff)
  have out2: "\<forall>c\<in>set (sn_out s2). cx_delayMS c = 0 \<and> \<not> cx_lockout c"
  proof -
    obtain d where "s2 = ?s1\<lparr>sn_demod := d\<rparr>" using enableAudioOut_frame [OF s2] by blast
    then have "sn_out s2 = sn_out s" by simp
    with assms(2) show ?thesis by (simp add: scanner_inv_def)
  qed
  have out3: "\<forall>c\<in>set (sn_out s3). cx_delayMS c = 0 \<and> \<not> cx_lockout c" and m3: "\<not> sn_manualMode s3"
  proof -
    obtain c os where "s3 = ((set_context_state SCAN s2)\<lparr>sn_manualMode := False, sn_externalHold := False\<rparr>)
        \<lparr>sn_context := c, sn_out := sn_out s2 @ map ScannerContext_copy os\<rparr>"
      using broadcast_frame [OF s3] by auto
    then have "sn_out s3 = sn_out s2 @ map ScannerContext_copy os" "\<not> sn_manualMode s3" by simp_all
    with out2 show "\<forall>c\<in>set (sn_out s3). cx_delayMS c = 0 \<and> \<not> cx_lockout c" "\<not> sn_manualMode s3" by auto
  qed
  have s4': "\<exists>e sl. s4 = s3\<lparr>sn_currentEntry := e, sn_systems := sl\<rparr>"
  proof (cases "sn_squelchHits s3 = 0 \<or> state_changed s3")
    case True
    with s4 show ?thesis by (auto dest!: take_next_frame)
  next
    case False
    with s4 show ?thesis
      by (intro exI [of _ "sn_currentEntry s4"] exI [of _ "sn_systems s4"]) simp
  qed
  obtain e sl where f4: "s4 = s3\<lparr>sn_currentEntry := e, sn_systems := sl\<rparr>" using s4' by blast
  obtain n d h where n: "n = ST_RECEIVE \<or> n = ST_SCAN" and "sn_currentEntry s4 \<noteq> None"
    and f5: "s' = InternalEvent n None (s4\<lparr>sn_demod := d, sn_squelchHits := h\<rparr>)"
    using scan_probe_next [OF s'] by blast
  then have "e \<noteq> None" using f4 by simp
  then have "sn_currentEntry s' \<noteq> None" "sn_out s' = sn_out s3" "\<not> sn_manualMode s'" "currentState s' = n"
    using m3 by (simp_all add: f5 f4)
  with n out3 show ?thesis by (auto simp: scanner_keeps_def scanner_inv_def st_defs)
qed

lemma hold_next_cases:
  "\<exists>n. (n = ST_RECEIVE \<or> n = ST_HOLD \<or> n = ST_SCAN) \<and> hold_next now b e s = InternalEvent n None s \<or>
   hold_next now b e s = s"
  by (auto simp: hold_next_def)

lemma hold_probe_frame:
  assumes "hold_probe env h s = Inr s'"
  shows "\<exists>d c os b e. sn_currentEntry s = Some e \<and>
    s' = hold_next (ev_now env) b e (s\<lparr>sn_demod := d, sn_context := c, sn_out := sn_out s @ map ScannerContext_copy os\<rparr>)"
proof -
  obtain s1 s2 e b s3 where s1: "enableAudioOut env False s = Inr s1"
    and s2: "broadcast_if (state_changed s1 \<or> h) (set_context_state HOLD s1) = Inr s2"
    and e: "sn_currentEntry s2 = Some e" and s3: "probe env s2 = Inr (b, s3)"
    and s': "s' = hold_next (ev_now env) b e s3"
    using assms by (auto simp: hold_probe_def bind_result_Inr_iff)
  obtain d1 where "s1 = s\<lparr>sn_demod := d1\<rparr>" using enableAudioOut_frame [OF s1] by blast
  moreover obtain c os where "s2 = (set_context_state HOLD s1)\<lparr>sn_context := c, sn_out := sn_out s1 @ map ScannerContext_copy os\<rparr>"
    using broadcast_frame [OF s2] by auto
  moreover obtain d2 where "s3 = s2\<lparr>sn_demod := d2\<rparr>" using probe_frame [OF s3] by blast
  ultimately have "s3 = s\<lparr>sn_demod := d2, sn_context := c, sn_out := sn_out s @ map ScannerContext_copy os\<rparr>"
    and "sn_currentEntry s = Some e"
    using e by (simp_all add: set_context_state_def)
  with s' show ?thesis by blast
qed

lemma ST_Hold_frame:
  assumes "ST_Hold env s = Some (Inr s')"
  shows "\<exists>e sl h d c os b. \<not> isDummy e \<and> sl_systems sl = sl_systems (sn_systems s) \<and>
    s' = hold_next (ev_now env) b e (s\<lparr>sn_currentEntry := Some e, sn_systems := sl, sn_holdIndex := h,
      sn_demod := d, sn_context := c, sn_out := sn_out s @ map ScannerContext_copy os\<rparr>)"
proof -
  obtain i s1 s2 where s1: "apply_index_hold env s = Some (Inr (i, s1))" and s2: "skip_dummies env s1 = Some (Inr s2)"
    and s': "hold_probe env i s2 = Inr s'"
    using assms by (auto simp: ST_Hold_def bind_outcome_ok_iff)
  obtain eo sl h where f1: "s1 = s\<lparr>sn_currentEntry := eo, sn_systems := sl, sn_holdIndex := h\<rparr>"
    "sl_systems sl = sl_systems (sn_systems s)"
    using apply_index_hold_frame [OF s1] by blast
  obtain e sl2 d1 where f2: "s2 = s1\<lparr>sn_currentEntry := Some e, sn_systems := sl2, sn_demod := d1\<rparr>" "\<not> isDummy e"
    "sl_systems sl2 = sl_systems (sn_systems s1)"
    using skip_dummies_frame [OF s2] by blast
  obtain d c os b e2 where f3: "sn_currentEntry s2 = Some e2"
    "s' = hold_next (ev_now env) b e2 (s2\<lparr>sn_demod := d, sn_context := c, sn_out := sn_out s2 @ map ScannerContext_copy os\<rparr>)"
    using hold_probe_frame [OF s'] by blast
  have "s2\<lparr>sn_demod := d, sn_context := c, sn_out := sn_out s2 @ map ScannerContext_copy os\<rparr> =
      s\<lparr>sn_currentEntry := Some e, sn_systems := sl2, sn_holdIndex := h,
        sn_demod := d, sn_context := c, sn_out := sn_out s @ map ScannerContext_copy os\<rparr>"
    using f1(1) f2(1) by simp
  moreover have "e2 = e" using f3(1) f2(1) by simp
  ultimately have "s' = hold_next (ev_now env) b e (s\<lparr>sn_currentEntry := Some e, sn_systems := sl2, sn_holdIndex := h,
      sn_demod := d, sn_context := c, sn_out := sn_out s @ map ScannerContext_copy os\<rparr>)"
    using f3(2) by simp
  moreover have "sl_systems sl2 = sl_systems (sn_systems s)" using f1 f2(3) by simp
  ultimately show ?thesis using f2(2) by blast
qed

lemma ST_Hold_keeps:
  assumes "ST_Hold env s = Some (Inr s')" "scanner_inv s" "currentState s = ST_HOLD"
  shows "scanner_keeps s'"
proof -
  obtain e sl h d c os b where s': "s' = hold_next (ev_now env) b e (s\<lparr>sn_currentEntry := Some e, sn_systems := sl,
      sn_holdIndex := h, sn_demod := d, sn_context := c, sn_out := sn_out s @ map ScannerContext_copy os\<rparr>)"
    using ST_Hold_frame [OF assms(1)] by blast
  show ?thesis
    using hold_next_cases [of "ev_now env" b e "s\<lparr>sn_currentEntry := Some e, sn_systems := sl,
      sn_holdIndex := h, sn_demod := d, sn_context := c, sn_out := sn_out s @ map ScannerContext_copy os\<rparr>"]
      assms(2,3) by (auto simp: s' scanner_keeps_def scanner_inv_def st_defs)
qed

lemma ST_Receive_frame:
  assumes "ST_Receive env s = Some (Inr s')"
  shows "\<exists>n l d c os t. (n = ST_RECEIVE \<or> n = ST_HOLD) \<and> sn_currentEntry s \<noteq> None \<and>
    s' = (InternalEvent n None (s\<lparr>lastState := l, currentState := l, sn_demod := d, sn_context := c,
      sn_out := sn_out s @ map ScannerContext_copy os\<rparr>))\<lparr>sn_timeoutStart := t\<rparr>"
proof -
  obtain e where e: "sn_currentEntry s = Some e"
    using assms by (auto simp: ST_Receive_def bind_result_Inr_iff)
  define s1 where "s1 = (if isLockedOut e then InternalEvent ST_SCAN None s else s)"
  obtain s2 s3 b s4 where s2: "enableAudioOut env True s1 = Inr s2"
    and s3: "broadcast_if (state_changed s2) (set_context_state RECEIVE s2) = Inr s3"
    and s4: "probe env s3 = Inr (b, s4)"
    and s': "s' = (if b then InternalEvent ST_RECEIVE None s4
      else (InternalEvent ST_HOLD None s4)\<lparr>sn_timeoutStart := ev_now env\<rparr>)"
    using assms e by (auto simp: ST_Receive_def bind_result_Inr_iff Let_def s1_def split: if_splits)
  obtain d1 where f2: "s2 = s1\<lparr>sn_demod := d1\<rparr>" using enableAudioOut_frame [OF s2] by blast
  obtain c os where f3: "s3 = (set_context_state RECEIVE s2)\<lparr>sn_context := c, sn_out := sn_out s2 @ map ScannerContext_copy os\<rparr>"
    using broadcast_frame [OF s3] by auto
  obtain d2 where f4: "s4 = s3\<lparr>sn_demod := d2\<rparr>" using probe_frame [OF s4] by blast
  let ?l = "currentState s1"
  have "s' = (InternalEvent (if b then ST_RECEIVE else ST_HOLD) None (s\<lparr>lastState := ?l, currentState := ?l,
      sn_demod := d2, sn_context := c, sn_out := sn_out s @ map ScannerContext_copy os\<rparr>))
      \<lparr>sn_timeoutStart := if b then sn_timeoutStart s else ev_now env\<rparr>"
    by (auto simp: s' f4 f3 f2 s1_def set_context_state_def InternalEvent_def)
  with e show ?thesis by (intro exI conjI) (auto split: if_splits)
qed

lemma ST_Receive_keeps:
  assumes "ST_Receive env s = Some (Inr s')" "scanner_inv s"
  shows "scanner_keeps s'"
  using ST_Receive_frame [OF assms(1)] assms(2)
  by (auto simp: scanner_keeps_def scanner_inv_def st_defs)

lemma ST_Manual_keeps:
  "ST_Manual env d s = Some (Inr s') \<Longrightarrow> scanner_inv s \<Longrightarrow> scanner_keeps s'"
  by (auto simp: ST_Manual_def scanner_keeps_def scanner_inv_def st_defs Let_def
      split: option.splits scan_event.splits)

lemma ST_SaveAll_keeps:
  "ST_SaveAll env s = Some (Inr s') \<Longrightarrow> scanner_inv s \<Longrightarrow> scanner_keeps s'"
  by (auto simp: ST_SaveAll_def bind_result_Inr_iff scanner_keeps_def scanner_inv_def st_defs)

lemma ST_Stopped_keeps:
  "ST_Stopped s = Some (Inr s') \<Longrightarrow> scanner_inv s \<Longrightarrow> currentState s = ST_STOPPED \<Longrightarrow> scanner_keeps s'"
  by (auto simp: ST_Stopped_def sm_stop_def scanner_keeps_def scanner_inv_def st_defs)

lemma scanner_fun_keeps:
  assumes "currentState s < 7" "scanner_inv s"
    and run: "(scanner_map env ! currentState s) (pEventData s) (s\<lparr>pEventData := None, eventGenerated := False\<rparr>) = Some (Inr s')"
  shows "scanner_keeps s'"
proof -
  let ?s = "s\<lparr>pEventData := None, eventGenerated := False\<rparr>"
  have inv: "scanner_inv ?s" using assms(2) by (auto simp: scanner_inv_def)
  show ?thesis
    using states_below_7 [OF assms(1)] run inv
      ST_Load_keeps [of env ?s s'] ST_Scan_keeps [of env ?s s'] ST_Hold_keeps [of env ?s s']
      ST_Receive_keeps [of env ?s s'] ST_Manual_keeps [of env "pEventData s" ?s s']
      ST_SaveAll_keeps [of env ?s s'] ST_Stopped_keeps [of ?s s']
    by auto
qed

lemma request_tables:
  assumes "r \<in> scanner_requests"
  shows "length (rq_table r) = 7 \<and>
    (\<forall>n\<in>set (rq_table r). (n < 7 \<or> n = EVENT_IGNORED) \<and> scan_event_ok n (rq_data r))"
proof -
  consider "r = startScan" | "r = stopScanner" | h where "r = holdScan h" | f md where "r = manualEntry f md"
    using assms by (auto simp: scanner_requests_def)
  then show ?thesis
    by cases (simp_all add: startScan_def stopScanner_def holdScan_def manualEntry_def
        scan_event_ok_def st_defs EVENT_IGNORED_def)
qed

interpretation scanner: state_machine 7 "range scanner_map" scanner_requests scanner_inv scan_event_ok
proof unfold_locales
  show "(7::nat) \<le> EVENT_IGNORED" by (simp add: EVENT_IGNORED_def)
next
  fix m :: "(scan_event, ('a, 'b, unit) scanner_ext) state_fun list" and s s' :: "('a, 'b) scanner"
  assume "m \<in> range scanner_map" "currentState s < 7" "scanner_inv s"
    "(m ! currentState s) (pEventData s) (s\<lparr>pEventData := None, eventGenerated := False\<rparr>) = Some (Inr s')"
  then have "scanner_keeps s'" using scanner_fun_keeps by blast
  then show "scanner_inv (s'\<lparr>evtSrcExternal := False\<rparr>) \<and> currentState s' < 7"
    by (auto simp: scanner_keeps_def scanner_inv_def)
next
  fix r :: "('a, 'b) scan_request" and i :: nat
  assume "r \<in> scanner_requests" "i < 7"
  then show "(rq_table r ! i < 7 \<or> rq_table r ! i = EVENT_IGNORED) \<and> scan_event_ok (rq_table r ! i) (rq_data r)"
    using request_tables [of r] nth_mem [of i "rq_table r"] by auto
next
  fix r :: "('a, 'b) scan_request" and s :: "('a, 'b) scanner"
  assume "r \<in> scanner_requests" "scanner_inv s"
  then show "scanner_inv (rq_pre r s) \<and> currentState (rq_pre r s) = currentState s"
    by (auto simp: scanner_requests_def startScan_def stopScanner_def holdScan_def manualEntry_def scanner_inv_def)
next
  fix s :: "('a, 'b) scanner" and n d
  assume "scanner_inv s" "n < 7" "scan_event_ok n d"
  then show "scanner_inv (ExternalEvent n d s)"
    by (auto simp: scanner_inv_def scan_event_ok_def ExternalEvent_def)
qed

end
