(* ===== verification/Scanner_Runs.thy ===== *)
theory Scanner_Runs
  imports Scanner_Proofs
begin

text \<open>
  Runs of the scanner: what holding, stopping and restarting do, and that the scanner neither
  faults nor gets stuck while the radio answers and a channel is available.
\<close>

lemma st_not_ignored [simp]:
  "ST_SCAN \<noteq> EVENT_IGNORED" "ST_HOLD \<noteq> EVENT_IGNORED" "ST_MANUAL \<noteq> EVENT_IGNORED" "ST_SAVEALL \<noteq> EVENT_IGNORED"
  by (simp_all add: st_defs EVENT_IGNORED_def)

lemma st_below_7 [simp]:
  "ST_SCAN < 7" "ST_HOLD < 7" "ST_RECEIVE < 7" "ST_MANUAL < 7" "ST_SAVEALL < 7" "ST_STOPPED < 7"
  by (simp_all add: st_defs)

section \<open>The radio behind the scanner\<close>

text \<open>Beyond what an entry needs, the scanner mutes and unmutes the audio.\<close>

locale scanner_radio = demod_interface ops valid in_band
  for ops :: "'d demod_ops" and valid :: "'d \<Rightarrow> bool" and in_band :: "int \<Rightarrow> 'd \<Rightarrow> bool" +
  fixes squelchBreak :: "bool \<Rightarrow> 'd \<Rightarrow> 'd result"
  assumes squelchBreak_ok: "valid d \<Longrightarrow> \<exists>d'. squelchBreak b d = Inr d' \<and> valid d'"

definition env_uses :: "'d demod_ops \<Rightarrow> (bool \<Rightarrow> 'd \<Rightarrow> 'd result) \<Rightarrow> ('pt, 'd) scan_env \<Rightarrow> bool" where
  "env_uses ops sb env \<longleftrightarrow> ev_ops env = ops \<and> ev_squelchBreak env = sb"

section \<open>A database that can be scanned\<close>

definition scannable :: "int \<Rightarrow> 'pt system_list \<Rightarrow> bool" where
  "scannable bw sl \<longleftrightarrow> walk_ok bw sl \<and> (\<exists>B E. available_at sl B E) \<and> systems_ok (sl_systems sl) \<and>
     (\<forall>b\<in>set (sl_bins sl). \<forall>e\<in>set (bin_entries b). \<not> isDummy e)"

lemma scannable_frame:
  "scannable bw sl \<Longrightarrow> walk_ok bw sl' \<Longrightarrow> sl_systems sl' = sl_systems sl \<Longrightarrow> sl_bins sl' = sl_bins sl \<Longrightarrow>
   scannable bw sl'"
  by (auto simp: scannable_def available_at_def)

lemma scannable_next:
  assumes "scannable bw sl"
  shows "\<exists>e sl'. getNextEntry api sl = Some (Inr (e, sl')) \<and> scannable bw sl' \<and>
    sl_systems sl' = sl_systems sl \<and> sl_bins sl' = sl_bins sl \<and> entry_known (sl_systems sl) e"
proof -
  obtain B E where w: "walk_ok bw sl" and av: "available_at sl B E" using assms by (auto simp: scannable_def)
  obtain e sl' where e: "getNextEntry api sl = Some (Inr (e, sl'))" "call_result bw B E sl e sl'"
    using getNextEntry_call [OF w av] by blast
  moreover have "scannable bw sl'"
    by (rule scannable_frame [OF assms]) (use e(2) in \<open>auto simp: call_result_def\<close>)
  ultimately show ?thesis by (auto simp: call_result_def)
qed

lemma scannable_index:
  assumes "scannable bw sl"
  shows "\<exists>e sl'. getEntryByIndex api idx sl = Some (Inr (e, sl')) \<and> scannable bw sl' \<and>
    sl_systems sl' = sl_systems sl \<and> entry_known (sl_systems sl) e"
proof (cases "length idx < 2 \<or> idx ! 0 < 0 \<or> idx ! 1 < 0 \<or> idx ! 0 \<ge> int (sl_size sl) \<or>
    idx ! 1 \<ge> int (rs_numEntries (sl_systems sl ! nat (idx ! 0)))")
  case True
  then have eq: "getEntryByIndex api idx sl = getNextEntry api sl" by (simp only: getEntryByIndex_def if_True)
  show ?thesis unfolding eq using scannable_next [OF assms, of api] by blast
next
  case False
  let ?i = "nat (idx ! 0)" and ?j = "nat (idx ! 1)"
  have i: "?i < length (sl_systems sl)" using False by (auto simp: sl_size_def)
  have wi: "well_indexed (sl_systems sl ! ?i)" and si: "rs_sysIndex (sl_systems sl ! ?i) = ?i"
    using assms i by (auto simp: scannable_def systems_ok_def)
  then have "?j < length (rs_entries (sl_systems sl ! ?i))" using False by (auto simp: well_indexed_def)
  then have "system_at (sl_systems sl ! ?i) ?j = Inr (rs_entries (sl_systems sl ! ?i) ! ?j)"
    and "entry_known (sl_systems sl) (rs_entries (sl_systems sl ! ?i) ! ?j)"
    using wi si i by (simp_all add: system_at_def well_indexed_def entry_known_def)
  with False show ?thesis using assms unfolding getEntryByIndex_def by (simp only: if_False) auto
qed

section \<open>No fault and no hang\<close>

definition scanner_live :: "('d \<Rightarrow> bool) \<Rightarrow> int \<Rightarrow> ('pt, 'd) scanner \<Rightarrow> bool" where
  "scanner_live valid bw s \<longleftrightarrow>
     (currentState s = ST_SCAN \<or> currentState s = ST_HOLD \<or> currentState s = ST_RECEIVE) \<and>
     (evtSrcExternal s \<longrightarrow> currentState s = ST_SCAN \<or> sn_externalHold s) \<and>
     scannable bw (sn_systems s) \<and> valid (sn_demod s) \<and>
     (case sn_currentEntry s of
        Some e \<Rightarrow> entry_known (sl_systems (sn_systems s)) e
      | None \<Rightarrow> currentState s = ST_SCAN \<and> (sn_squelchHits s = 0 \<or> state_changed s) \<or>
                currentState s = ST_HOLD \<and> sn_externalHold s \<and> sn_holdIndex s \<noteq> [])"

lemma current_Some [simp]: "sn_currentEntry s = Some e \<Longrightarrow> current s = Inr e"
  by (simp add: current_def)

lemma entry_context_total:
  "entry_known (sl_systems sl) e \<Longrightarrow> \<exists>c'. entry_context sl m e c = Inr c'"
  by (simp add: entry_context_def entry_known_def subscript_in)

lemma broadcast_total:
  assumes "cx_state (sn_context s) \<noteq> SCAN \<Longrightarrow>
    \<exists>e. sn_currentEntry s = Some e \<and> entry_known (sl_systems (sn_systems s)) e"
  shows "\<exists>c os. broadcast_if b s = Inr (s\<lparr>sn_context := c, sn_out := os\<rparr>)"
proof (cases b)
  case True
  show ?thesis
  proof (cases "cx_state (sn_context s) = SCAN")
    case True
    then show ?thesis using \<open>b\<close> by (auto simp: broadcast_if_def broadcastContextUpdate_def)
  next
    case False
    obtain e where e: "sn_currentEntry s = Some e" "entry_known (sl_systems (sn_systems s)) e"
      using assms False by blast
    obtain c where "entry_context (sn_systems s) (sn_manualMode s) e (sn_context s) = Inr c"
      using entry_context_total [OF e(2)] by blast
    then show ?thesis using e \<open>b\<close> False by (auto simp: broadcast_if_def broadcastContextUpdate_def)
  qed
next
  case False
  then show ?thesis
    by (intro exI [of _ "sn_context s"] exI [of _ "sn_out s"]) (simp add: broadcast_if_def)
qed

context scanner_radio
begin

lemma probe_total:
  assumes "env_uses ops squelchBreak env" "valid (sn_demod s)" "sn_currentEntry s = Some e"
  shows "\<exists>b d. probe env s = Inr (b, s\<lparr>sn_demod := d\<rparr>) \<and> valid d"
proof -
  obtain b d where "hasSignal ops e (sn_demod s) = Inr (b, d)" "valid d"
    using hasSignal_total [OF assms(2)] by blast
  then show ?thesis using assms(1,3) by (intro exI [of _ b] exI [of _ d]) (simp add: probe_def env_uses_def)
qed

lemma audio_total:
  "env_uses ops squelchBreak env \<Longrightarrow> valid (sn_demod s) \<Longrightarrow>
   \<exists>d. enableAudioOut env b s = Inr (s\<lparr>sn_demod := d\<rparr>) \<and> valid d"
  using squelchBreak_ok [of "sn_demod s" b] by (auto simp: enableAudioOut_def env_uses_def)

lemma take_next_total:
  assumes "scannable bw (sn_systems s)"
  shows "\<exists>e sl. take_next env s = Some (Inr (s\<lparr>sn_currentEntry := Some e, sn_systems := sl\<rparr>)) \<and> scannable bw sl \<and>
     sl_systems sl = sl_systems (sn_systems s) \<and> entry_known (sl_systems sl) e"
proof -
  obtain e sl where "getNextEntry (ev_api env) (sn_systems s) = Some (Inr (e, sl))" "scannable bw sl"
    "sl_systems sl = sl_systems (sn_systems s)" "entry_known (sl_systems (sn_systems s)) e"
    using scannable_next [OF assms, of "ev_api env"] by blast
  then show ?thesis by (intro exI [of _ e] exI [of _ sl]) (simp add: take_next_def ok_def)
qed

lemma skip_dummies_real:
  "sn_currentEntry s = Some e \<Longrightarrow> \<not> isDummy e \<Longrightarrow> skip_dummies env s = Some (Inr s)"
  by (subst skip_dummies.simps) (simp add: current_def ok_def)

lemma skip_dummies_total:
  assumes "env_uses ops squelchBreak env" "valid (sn_demod s)" "scannable bw (sn_systems s)"
    and "sn_currentEntry s = Some e" "entry_known (sl_systems (sn_systems s)) e" "available_at (sn_systems s) B E"
  shows "\<exists>e' sl d. skip_dummies env s = Some (Inr (s\<lparr>sn_currentEntry := Some e', sn_systems := sl, sn_demod := d\<rparr>)) \<and>
    valid d \<and> scannable bw sl \<and> sl_systems sl = sl_systems (sn_systems s) \<and>
    entry_known (sl_systems sl) e' \<and> \<not> isDummy e'"
  using assms(2-)
proof (induction "sn_systems s" arbitrary: s e rule: wf_induct_rule [OF wf_walk_order [of B E]])
  case 1
  show ?case
  proof (cases "isDummy e")
    case False
    with 1 skip_dummies_real [OF "1.prems"(3) False] show ?thesis
      by (intro exI [of _ e] exI [of _ "sn_systems s"] exI [of _ "sn_demod s"]) simp
  next
    case True
    obtain b d where p: "probe env s = Inr (b, s\<lparr>sn_demod := d\<rparr>)" "valid d"
      using probe_total [OF assms(1) "1.prems"(1,3)] by blast
    obtain e1 sl1 where n: "getNextEntry (ev_api env) (sn_systems s) = Some (Inr (e1, sl1))"
      and c: "call_result bw B E (sn_systems s) e1 sl1"
      using getNextEntry_call [of bw "sn_systems s" B E "ev_api env"] "1.prems"(2,5)
      unfolding scannable_def by blast
    let ?t = "s\<lparr>sn_demod := d, sn_currentEntry := Some e1, sn_systems := sl1\<rparr>"
    have step: "skip_dummies env s = skip_dummies env ?t"
      using True "1.prems"(3) p n by (subst skip_dummies.simps) (simp add: current_def take_next_def ok_def)
    have t: "scannable bw sl1" "sl_systems sl1 = sl_systems (sn_systems s)" "entry_known (sl_systems sl1) e1"
      "available_at sl1 B E"
      using scannable_frame [OF "1.prems"(2), of sl1] c "1.prems"(5)
      by (auto simp: call_result_def available_at_def)
    show ?thesis
    proof (cases "(sl1, sn_systems s) \<in> walk_order B E")
      case True
      have "\<exists>e' sl d'. skip_dummies env ?t = Some (Inr (?t\<lparr>sn_currentEntry := Some e', sn_systems := sl, sn_demod := d'\<rparr>)) \<and>
          valid d' \<and> scannable bw sl \<and> sl_systems sl = sl_systems (sn_systems ?t) \<and>
          entry_known (sl_systems sl) e' \<and> \<not> isDummy e'"
        by (rule "1.hyps") (use True p t in auto)
      then show ?thesis using step t by auto
    next
      case False
      then have "e1 = bin_entries (sl_bins (sn_systems s) ! B) ! E" using c by (auto simp: call_result_def)
      then have "\<not> isDummy e1"
        using "1.prems"(2,5) unfolding scannable_def available_at_def by (metis nth_mem)
      then have "skip_dummies env ?t = Some (Inr ?t)" by (intro skip_dummies_real) auto
      then show ?thesis
        using step t p \<open>\<not> isDummy e1\<close> by (intro exI [of _ e1] exI [of _ sl1] exI [of _ d]) simp
    qed
  qed
qed

end

context scanner_radio
begin

lemma scan_probe_total:
  assumes "env_uses ops squelchBreak env" "valid (sn_demod s)" "sn_currentEntry s = Some e"
  shows "\<exists>n d h. scan_probe env s = Inr (InternalEvent n None (s\<lparr>sn_demod := d, sn_squelchHits := h\<rparr>)) \<and>
    (n = ST_RECEIVE \<or> n = ST_SCAN) \<and> valid d"
proof -
  obtain b d where p: "probe env s = Inr (b, s\<lparr>sn_demod := d\<rparr>)" and d: "valid d"
    using probe_total [OF assms] by blast
  have "\<exists>s'. scan_probe env s = Inr s'"
    using p by (cases b; cases "SQUELCH_TRIGGER_HITS \<le> sn_squelchHits s + 1") (simp_all add: scan_probe_def Let_def)
  then obtain s' where s': "scan_probe env s = Inr s'" by blast
  obtain n d' h where n: "n = ST_RECEIVE \<or> n = ST_SCAN"
    "s' = InternalEvent n None (s\<lparr>sn_demod := d', sn_squelchHits := h\<rparr>)"
    using scan_probe_next [OF s'] by blast
  have "sn_demod s' = d" using p s' by (auto simp: scan_probe_def Let_def split: if_splits)
  then have "d' = d" using n(2) by simp
  with s' n d show ?thesis by blast
qed

lemma ST_Scan_total:
  assumes env: "env_uses ops squelchBreak env" and live: "scanner_live valid bw s" and st: "currentState s = ST_SCAN"
  shows "\<exists>s'. ST_Scan env s = Some (Inr s') \<and> scanner_live valid bw (s'\<lparr>evtSrcExternal := False\<rparr>) \<and>
    eventGenerated s' \<and> sm_run s' = sm_run s \<and> (currentState s' = ST_SCAN \<or> currentState s' = ST_RECEIVE)"
proof -
  define s1 where "s1 = (if state_changed s then s\<lparr>sn_squelchHits := 0\<rparr> else s)"
  have f1: "sn_systems s1 = sn_systems s" "sn_demod s1 = sn_demod s" "sn_currentEntry s1 = sn_currentEntry s"
    "sn_squelchHits s1 = (if state_changed s then 0 else sn_squelchHits s)" "currentState s1 = currentState s"
    "lastState s1 = lastState s" "sm_run s1 = sm_run s"
    by (simp_all add: s1_def)
  have good: "scannable bw (sn_systems s)" "valid (sn_demod s)" using live by (simp_all add: scanner_live_def)
  then have ne: "sl_size (sn_systems s) \<noteq> 0" by (auto simp: scannable_def walk_ok_def sl_size_def)
  obtain d2 where s2: "enableAudioOut env False s1 = Inr (s1\<lparr>sn_demod := d2\<rparr>)" and d2: "valid d2"
    using audio_total [OF env, of s1 False] good f1 by auto
  let ?s2 = "s1\<lparr>sn_demod := d2\<rparr>"
  let ?m = "(set_context_state SCAN ?s2)\<lparr>sn_manualMode := False, sn_externalHold := False\<rparr>"
  obtain c os where s3: "broadcast_if (state_changed ?s2) ?m = Inr (?m\<lparr>sn_context := c, sn_out := os\<rparr>)"
    using broadcast_total [of ?m "state_changed ?s2"] by (auto simp: set_context_state_def)
  define s3 where "s3 = ?m\<lparr>sn_context := c, sn_out := os\<rparr>"
  have f3: "sn_systems s3 = sn_systems s" "sn_demod s3 = d2" "sn_currentEntry s3 = sn_currentEntry s"
    "sn_squelchHits s3 = sn_squelchHits s1" "currentState s3 = currentState s" "lastState s3 = lastState s"
    "sm_run s3 = sm_run s"
    by (simp_all add: s3_def f1)
  have "\<exists>s4 e. (if sn_squelchHits s3 = 0 \<or> state_changed s3 then take_next env s3 else ok s3) = Some (Inr s4) \<and>
      scannable bw (sn_systems s4) \<and> sn_demod s4 = d2 \<and> sn_currentEntry s4 = Some e \<and>
      entry_known (sl_systems (sn_systems s4)) e \<and> sm_run s4 = sm_run s"
  proof (cases "sn_squelchHits s3 = 0 \<or> state_changed s3")
    case True
    obtain e sl where "take_next env s3 = Some (Inr (s3\<lparr>sn_currentEntry := Some e, sn_systems := sl\<rparr>))"
      "scannable bw sl" "entry_known (sl_systems sl) e"
      using take_next_total [of bw s3 env] good f3(1) by auto
    then show ?thesis using True f3 by (intro exI) (auto simp: good)
  next
    case False
    then have nz: "sn_squelchHits s \<noteq> 0" "\<not> state_changed s"
      using f3 f1 by (auto simp: state_changed_def split: if_splits)
    obtain e where "sn_currentEntry s = Some e" "entry_known (sl_systems (sn_systems s)) e"
      using live nz st by (auto simp: scanner_live_def st_defs split: option.splits)
    then show ?thesis using False f3 good by (intro exI [of _ s3] exI [of _ e]) (simp add: ok_def)
  qed
  then obtain s4 e where s4: "(if sn_squelchHits s3 = 0 \<or> state_changed s3 then take_next env s3 else ok s3) = Some (Inr s4)"
    and f4: "scannable bw (sn_systems s4)" "sn_demod s4 = d2" "sn_currentEntry s4 = Some e"
      "entry_known (sl_systems (sn_systems s4)) e" "sm_run s4 = sm_run s" by blast
  obtain n d h where s5: "scan_probe env s4 = Inr (InternalEvent n None (s4\<lparr>sn_demod := d, sn_squelchHits := h\<rparr>))"
    and n: "n = ST_RECEIVE \<or> n = ST_SCAN" and d: "valid d"
    using scan_probe_total [OF env, of s4 e] f4 d2 by auto
  let ?s' = "InternalEvent n None (s4\<lparr>sn_demod := d, sn_squelchHits := h\<rparr>)"
  have "broadcast_if (state_changed ?s2) ?m = Inr s3" using s3 by (simp only: s3_def)
  then have "ST_Scan env s = Some (Inr ?s')"
    using ne s2 s4 s5 f1(1) by (simp add: ST_Scan_def Let_def lift_result_def flip: s1_def)
  moreover have "scanner_live valid bw (?s'\<lparr>evtSrcExternal := False\<rparr>)"
    using f4 n d by (auto simp: scanner_live_def)
  ultimately show ?thesis using f4 n by (intro exI [of _ ?s']) auto
qed

lemma hold_probe_total:
  assumes env: "env_uses ops squelchBreak env" and "valid (sn_demod s)" and e: "sn_currentEntry s = Some e"
    and known: "entry_known (sl_systems (sn_systems s)) e"
  shows "\<exists>b d c os. hold_probe env i s =
    Inr (hold_next (ev_now env) b e (s\<lparr>sn_demod := d, sn_context := c, sn_out := os\<rparr>)) \<and> valid d"
proof -
  obtain d1 where s1: "enableAudioOut env False s = Inr (s\<lparr>sn_demod := d1\<rparr>)" "valid d1"
    using audio_total [OF env assms(2)] by blast
  let ?m = "set_context_state HOLD (s\<lparr>sn_demod := d1\<rparr>)"
  obtain c os where s2: "broadcast_if (state_changed s \<or> i) ?m = Inr (?m\<lparr>sn_context := c, sn_out := os\<rparr>)"
    using broadcast_total [of ?m "state_changed s \<or> i"] e known by auto
  let ?s2 = "?m\<lparr>sn_context := c, sn_out := os\<rparr>"
  have "valid (sn_demod ?s2)" "sn_currentEntry ?s2 = Some e" using s1(2) e by simp_all
  from probe_total [OF env this] obtain b d where s3: "probe env ?s2 = Inr (b, ?s2\<lparr>sn_demod := d\<rparr>)" "valid d"
    by blast
  have sc: "state_changed (s\<lparr>sn_demod := d1\<rparr>) = state_changed s" by (simp add: state_changed_def)
  have "?s2\<lparr>sn_demod := d\<rparr> = s\<lparr>sn_demod := d, sn_context := c, sn_out := os\<rparr>"
    by (simp add: set_context_state_def)
  moreover have "hold_probe env i s = Inr (hold_next (ev_now env) b e (?s2\<lparr>sn_demod := d\<rparr>))"
    using s1 s2 s3 e by (simp add: hold_probe_def sc)
  ultimately show ?thesis using s3(2) by metis
qed

end

lemma hold_next_live:
  assumes "n = hold_next now b e s" "scannable bw (sn_systems s)" "valid (sn_demod s)"
    and "sn_currentEntry s = Some e" "entry_known (sl_systems (sn_systems s)) e"
    and "evtSrcExternal s \<longrightarrow> sn_externalHold s"
  shows "scanner_live valid bw (n\<lparr>evtSrcExternal := False\<rparr>) \<and> eventGenerated n \<and> sm_run n = sm_run s"
  using assms by (auto simp: hold_next_def scanner_live_def)

context scanner_radio
begin

lemma ST_Hold_total:
  assumes env: "env_uses ops squelchBreak env" and live: "scanner_live valid bw s" and st: "currentState s = ST_HOLD"
  shows "\<exists>s'. ST_Hold env s = Some (Inr s') \<and> scanner_live valid bw (s'\<lparr>evtSrcExternal := False\<rparr>) \<and>
    eventGenerated s' \<and> sm_run s' = sm_run s"
proof -
  have good: "scannable bw (sn_systems s)" "valid (sn_demod s)" "evtSrcExternal s \<longrightarrow> sn_externalHold s"
    using live st by (auto simp: scanner_live_def st_defs)
  have "\<exists>i s1 e. apply_index_hold env s = Some (Inr (i, s1)) \<and> scannable bw (sn_systems s1) \<and>
      sn_demod s1 = sn_demod s \<and> sn_currentEntry s1 = Some e \<and> entry_known (sl_systems (sn_systems s1)) e \<and>
      evtSrcExternal s1 = evtSrcExternal s \<and> sn_externalHold s1 = sn_externalHold s \<and> sm_run s1 = sm_run s"
  proof (cases "sn_externalHold s \<and> sn_holdIndex s \<noteq> []")
    case True
    obtain e sl where "getEntryByIndex (ev_api env) (sn_holdIndex s) (sn_systems s) = Some (Inr (e, sl))"
      "scannable bw sl" "sl_systems sl = sl_systems (sn_systems s)" "entry_known (sl_systems (sn_systems s)) e"
      using scannable_index [OF good(1)] by blast
    then show ?thesis using True by (intro exI [of _ True]) (simp add: apply_index_hold_def ok_def)
  next
    case False
    then obtain e where "sn_currentEntry s = Some e" "entry_known (sl_systems (sn_systems s)) e"
      using live st by (auto simp: scanner_live_def st_defs split: option.splits)
    moreover have "apply_index_hold env s = Some (Inr (False, s))"
      using False by (auto simp: apply_index_hold_def ok_def)
    ultimately show ?thesis using good by blast
  qed
  then obtain i s1 e where s1: "apply_index_hold env s = Some (Inr (i, s1))" and f1: "scannable bw (sn_systems s1)"
    "sn_demod s1 = sn_demod s" "sn_currentEntry s1 = Some e" "entry_known (sl_systems (sn_systems s1)) e"
    "evtSrcExternal s1 = evtSrcExternal s" "sn_externalHold s1 = sn_externalHold s" "sm_run s1 = sm_run s"
    by blast
  obtain B E where av: "available_at (sn_systems s1) B E" using f1(1) by (auto simp: scannable_def)
  have v1: "valid (sn_demod s1)" using f1(2) good(2) by simp
  obtain e2 sl d2 where s2: "skip_dummies env s1 = Some (Inr (s1\<lparr>sn_currentEntry := Some e2, sn_systems := sl, sn_demod := d2\<rparr>))"
    and f2: "valid d2" "scannable bw sl" "entry_known (sl_systems sl) e2"
    using skip_dummies_total [OF env v1 f1(1) f1(3,4) av] by blast
  let ?s2 = "s1\<lparr>sn_currentEntry := Some e2, sn_systems := sl, sn_demod := d2\<rparr>"
  have "valid (sn_demod ?s2)" "sn_currentEntry ?s2 = Some e2" "entry_known (sl_systems (sn_systems ?s2)) e2"
    using f2 by simp_all
  from hold_probe_total [OF env this, of i] obtain b d c os where s3: "hold_probe env i ?s2 =
      Inr (hold_next (ev_now env) b e2 (?s2\<lparr>sn_demod := d, sn_context := c, sn_out := os\<rparr>))" and d: "valid d" by blast
  let ?s' = "hold_next (ev_now env) b e2 (?s2\<lparr>sn_demod := d, sn_context := c, sn_out := os\<rparr>)"
  have "ST_Hold env s = Some (Inr ?s')" using s1 s2 s3 by (simp add: ST_Hold_def lift_result_def)
  moreover have "scanner_live valid bw (?s'\<lparr>evtSrcExternal := False\<rparr>) \<and> eventGenerated ?s' \<and>
      sm_run ?s' = sm_run (?s2\<lparr>sn_demod := d, sn_context := c, sn_out := os\<rparr>)"
    by (rule hold_next_live [OF refl]) (use f1 f2 d good in auto)
  ultimately show ?thesis using f1 by auto
qed

lemma ST_Receive_total:
  assumes env: "env_uses ops squelchBreak env" and live: "scanner_live valid bw s" and st: "currentState s = ST_RECEIVE"
  shows "\<exists>s'. ST_Receive env s = Some (Inr s') \<and> scanner_live valid bw (s'\<lparr>evtSrcExternal := False\<rparr>) \<and>
    eventGenerated s' \<and> sm_run s' = sm_run s"
proof -
  have good: "scannable bw (sn_systems s)" "valid (sn_demod s)" using live by (simp_all add: scanner_live_def)
  obtain e where e: "sn_currentEntry s = Some e" "entry_known (sl_systems (sn_systems s)) e"
    using live st by (auto simp: scanner_live_def st_defs split: option.splits)
  define s1 where "s1 = (if isLockedOut e then InternalEvent ST_SCAN None s else s)"
  have f1: "sn_demod s1 = sn_demod s" "sn_currentEntry s1 = Some e" "sn_systems s1 = sn_systems s" "sm_run s1 = sm_run s"
    using e by (simp_all add: s1_def)
  have "valid (sn_demod s1)" using f1 good by simp
  from audio_total [OF env this] obtain d2 where s2: "enableAudioOut env True s1 = Inr (s1\<lparr>sn_demod := d2\<rparr>)" and d2: "valid d2"
    by blast
  let ?m = "set_context_state RECEIVE (s1\<lparr>sn_demod := d2\<rparr>)"
  obtain c os where s3: "broadcast_if (state_changed (s1\<lparr>sn_demod := d2\<rparr>)) ?m = Inr (?m\<lparr>sn_context := c, sn_out := os\<rparr>)"
    using broadcast_total [of ?m "state_changed (s1\<lparr>sn_demod := d2\<rparr>)"] e f1 by auto
  let ?s3 = "?m\<lparr>sn_context := c, sn_out := os\<rparr>"
  have "valid (sn_demod ?s3)" "sn_currentEntry ?s3 = Some e" using d2 f1 by simp_all
  from probe_total [OF env this] obtain b d where s4: "probe env ?s3 = Inr (b, ?s3\<lparr>sn_demod := d\<rparr>)" and d: "valid d"
    by blast
  define s' where "s' = (if b then InternalEvent ST_RECEIVE None (?s3\<lparr>sn_demod := d\<rparr>)
      else (InternalEvent ST_HOLD None (?s3\<lparr>sn_demod := d\<rparr>))\<lparr>sn_timeoutStart := ev_now env\<rparr>)"
  have "ST_Receive env s = Some (Inr s')"
    using e s2 s3 s4 by (cases b) (simp_all add: ST_Receive_def lift_result_def Let_def s'_def flip: s1_def)
  moreover have "scanner_live valid bw (s'\<lparr>evtSrcExternal := False\<rparr>)" "eventGenerated s'" "sm_run s' = sm_run s"
    using f1 d e good by (auto simp: s'_def scanner_live_def)
  ultimately show ?thesis by blast
qed

text \<open>One pass of the engine, and any number of them.\<close>

lemma engine_total:
  assumes env: "env_uses ops squelchBreak env" and live: "scanner_live valid bw s"
  shows "\<exists>s'. scanner_engine env s = Some (Inr s') \<and> scanner_live valid bw s' \<and> eventGenerated s' \<and> sm_run s' = sm_run s"
proof -
  let ?s = "s\<lparr>pEventData := None, eventGenerated := False\<rparr>"
  have live': "scanner_live valid bw ?s" using live by (auto simp: scanner_live_def state_changed_def split: option.splits)
  have st: "currentState s = ST_SCAN \<or> currentState s = ST_HOLD \<or> currentState s = ST_RECEIVE"
    using live by (simp add: scanner_live_def)
  then have "\<exists>s'. (scanner_map env ! currentState s) (pEventData s) ?s = Some (Inr s') \<and>
      scanner_live valid bw (s'\<lparr>evtSrcExternal := False\<rparr>) \<and> eventGenerated s' \<and> sm_run s' = sm_run s"
    using ST_Scan_total [OF env live'] ST_Hold_total [OF env live'] ST_Receive_total [OF env live'] by auto
  then obtain s' where s': "(scanner_map env ! currentState s) (pEventData s) ?s = Some (Inr s')"
    "scanner_live valid bw (s'\<lparr>evtSrcExternal := False\<rparr>)" "eventGenerated s'" "sm_run s' = sm_run s" by blast
  moreover have "currentState s < 7" using st by (auto simp: st_defs)
  ultimately have "scanner_engine env s = Some (Inr (s'\<lparr>evtSrcExternal := False\<rparr>))"
    by (simp add: scanner_engine_def StateEngine_def Let_def ok_def)
  with s' show ?thesis by auto
qed

lemma run_total:
  assumes "\<forall>env\<in>set envs. env_uses ops squelchBreak env" "scanner_live valid bw s"
    and "eventGenerated s" "sm_run s"
  shows "\<exists>s'. scanner_run envs s = Some (Inr s') \<and> scanner_live valid bw s' \<and> eventGenerated s' \<and> sm_run s'"
  using assms
proof (induction envs arbitrary: s)
  case Nil
  then show ?case by (simp add: scanner_run_def ok_def)
next
  case (Cons env envs)
  obtain s1 where s1: "scanner_engine env s = Some (Inr s1)" "scanner_live valid bw s1" "eventGenerated s1" "sm_run s1"
    using engine_total [of env bw s] Cons.prems by auto
  then have "scanner_run (env # envs) s = scanner_run envs s1"
    using Cons.prems by (simp add: scanner_run_def scanner_engine_def)
  then show ?case using Cons.IH [of s1] Cons.prems s1 by auto
qed

end

section \<open>Holding\<close>

text \<open>A hold asked for by a client, on a channel.\<close>

definition held_on :: "'pt entry \<Rightarrow> ('pt, 'd) scanner \<Rightarrow> bool" where
  "held_on e s \<longleftrightarrow> (currentState s = ST_HOLD \<or> currentState s = ST_RECEIVE) \<and> sn_externalHold s \<and>
     sn_holdIndex s = [] \<and> sn_currentEntry s = Some e \<and> \<not> isDummy e"

lemma ST_Hold_held:
  assumes "ST_Hold env s = Some (Inr s')" "held_on e s"
  shows "held_on e s'"
proof -
  have "apply_index_hold env s = Some (Inr (False, s))"
    using assms(2) by (simp add: apply_index_hold_def held_on_def ok_def)
  moreover have "skip_dummies env s = Some (Inr s)"
    using assms(2) by (subst skip_dummies.simps) (simp add: held_on_def ok_def)
  ultimately have "hold_probe env False s = Inr s'"
    using assms(1) by (simp add: ST_Hold_def)
  from hold_probe_frame [OF this] show ?thesis
    using assms(2) by (auto simp: held_on_def hold_next_def)
qed

lemma ST_Receive_held:
  "ST_Receive env s = Some (Inr s') \<Longrightarrow> held_on e s \<Longrightarrow> held_on e s'"
  by (auto dest!: ST_Receive_frame simp: held_on_def)

lemma engine_held:
  assumes "scanner_engine env s = Some (Inr s')" "held_on e s"
  shows "held_on e s'"
proof -
  let ?s = "s\<lparr>pEventData := None, eventGenerated := False\<rparr>"
  obtain s1 where s1: "(scanner_map env ! currentState s) (pEventData s) ?s = Some (Inr s1)" "s' = s1\<lparr>evtSrcExternal := False\<rparr>"
    using assms(1) by (auto simp: scanner_engine_def StateEngine_def Let_def bind_outcome_ok_iff split: if_splits)
  have "held_on e ?s" using assms(2) by (simp add: held_on_def)
  moreover have "currentState s = ST_HOLD \<or> currentState s = ST_RECEIVE" using assms(2) by (simp add: held_on_def)
  ultimately have "held_on e s1"
    using s1(1) ST_Hold_held [of env ?s s1 e] ST_Receive_held [of env ?s s1 e] by auto
  then show ?thesis using s1(2) by (simp add: held_on_def)
qed

lemma run_engine_Cons:
  "scanner_run (env # envs) s = (if sm_run s \<and> eventGenerated s
     then bind_outcome (scanner_engine env s) (scanner_run envs) else ok s)"
proof -
  have "run_engine 7 (map scanner_map envs) = scanner_run envs"
    by (simp add: scanner_run_def fun_eq_iff)
  then show ?thesis by (simp add: scanner_run_def [of "env # envs"] scanner_engine_def)
qed

lemma run_held:
  "scanner_run envs s = Some (Inr s') \<Longrightarrow> held_on e s \<Longrightarrow> held_on e s'"
proof (induction envs arbitrary: s)
  case Nil
  then show ?case by (simp add: scanner_run_def)
next
  case (Cons env envs)
  then show ?case
    by (auto simp: run_engine_Cons bind_outcome_ok_iff dest: engine_held split: if_splits)
qed

section \<open>A small radio for witnesses\<close>

text \<open>A demodulator with no state, on which no channel has a signal.\<close>

definition silent_ops :: "unit demod_ops" where
  "silent_ops = \<lparr>op_setModem = (\<lambda>m d. Inr (True, d)), op_setFrequency = (\<lambda>f d. Inr (True, d)),
     op_setTunerFrequency = (\<lambda>f d. Inr (True, d)), op_squelchThresholdMet = (\<lambda>d. Inr (False, d))\<rparr>"

definition silent_env :: "(ctree, unit) scan_env" where
  "silent_env = \<lparr>ev_api = ctree_api, ev_ops = silent_ops, ev_squelchBreak = (\<lambda>b d. Inr d),
     ev_sampleRate = (\<lambda>d. 2048000), ev_file = File_Missing, ev_now = 0\<rparr>"

text \<open>A database of one system with two channels, as the loader makes it.\<close>

definition small_system :: "ctree radio_system" where
  "small_system = addEntry (Some (AMChannel ctree_api 118000000 ''Tower'' False 0))
     (addEntry (Some (FMChannel ctree_api 155000000 ''Fire'' False 2000)) ((AnalogSystem ''City'' False)\<lparr>rs_sysIndex := 0\<rparr>))"

definition small_tower :: "ctree entry" where
  "small_tower = rs_entries small_system ! 1"

definition small_list :: "ctree system_list" where
  "small_list = (SystemList_init ctree_api)\<lparr>sl_systems := [small_system]\<rparr>"

definition small_scanner :: "(ctree, unit) scanner" where
  "small_scanner = (ScannerSM_init ctree_api () ScannerState_init)\<lparr>sn_systems := small_list, sm_run := True,
     sn_currentEntry := Some (small_tower)\<rparr>"

lemmas small_defs = silent_env_def silent_ops_def small_scanner_def small_list_def small_system_def
  ScannerSM_init_def SystemList_init_def

lemma small_well_indexed: "well_indexed small_system" "rs_sysIndex small_system = 0"
  "length (rs_entries small_system) = 2"
  by (simp_all add: small_system_def well_indexed_addEntry)
    (simp_all add: addEntry_def AnalogSystem_def)

lemma small_entry: "en_kind (small_tower) = AM_Channel" "en_sysIndex (small_tower) = 0"
  "en_entryIndex (small_tower) = 1" "en_freq (small_tower) = 118000000"
  "en_tag (small_tower) = ''Tower''" "\<not> isLockedOut (small_tower)"
  by (simp_all add: small_tower_def small_system_def addEntry_def AnalogSystem_def isLockedOut_def) (simp add: channel_defs)

lemma small_systems_ok: "systems_ok (sl_systems (sn_systems small_scanner))"
  by (simp add: systems_ok_def small_scanner_def small_list_def small_well_indexed)

interpretation silent: scanner_radio silent_ops "\<lambda>_. True" "\<lambda>_ _. True" "\<lambda>b. Inr"
  by unfold_locales (auto simp: silent_ops_def)

lemma silent_env_uses: "env_uses silent_ops (\<lambda>b. Inr) silent_env"
  by (simp add: env_uses_def silent_env_def)

lemma sortBins_scannable:
  assumes ok: "systems_ok (sl_systems s)" and "0 < bw" and start: "sl_bins s = []" "sl_binNum s = 0" "sl_entryNum s = 0"
    and e: "e \<in> set (concat (map rs_entries (sl_systems s)))" "\<not> unavailable (sl_systems s) e"
    and real: "\<forall>e\<in>set (concat (map rs_entries (sl_systems s))). \<not> isDummy e"
  shows "\<exists>bs. sortBins bw s = Inr (s\<lparr>sl_bins := bs\<rparr>) \<and> scannable bw (s\<lparr>sl_bins := bs\<rparr>) \<and>
    concat (map bin_entries bs) = sort_key en_freq (concat (map rs_entries (sl_systems s)))"
proof -
  let ?es = "concat (map rs_entries (sl_systems s))"
  have "?es \<noteq> []" using e(1) by (metis empty_iff empty_set)
  then obtain bs where bs: "sortBins bw s = Inr (s\<lparr>sl_bins := bs\<rparr>)" "bs \<noteq> []"
    "\<forall>b\<in>set bs. bin_ok (sl_systems s) bw b" "concat (map bin_entries bs) = sort_key en_freq ?es"
    using sortBins_bins [OF ok assms(2)] start(1) by auto
  have mem: "set (concat (map bin_entries bs)) = set ?es" using bs(4) by simp
  obtain b where b: "b \<in> set bs" "e \<in> set (bin_entries b)" using e(1) mem by auto
  obtain B E where "B < length bs" "bs ! B = b" "E < length (bin_entries b)" "bin_entries b ! E = e"
    using b by (metis in_set_conv_nth)
  then have "available_at (s\<lparr>sl_bins := bs\<rparr>) B E" using e(2) by (simp add: available_at_def)
  moreover have "walk_ok bw (s\<lparr>sl_bins := bs\<rparr>)"
    using bs(2,3) start e(1) by (auto simp: walk_ok_def bin_ok_def)
  moreover have "\<forall>e\<in>set (concat (map bin_entries bs)). \<not> isDummy e" using real unfolding mem .
  then have "\<forall>b\<in>set bs. \<forall>e\<in>set (bin_entries b). \<not> isDummy e" by simp
  ultimately show ?thesis using bs ok by (auto simp: scannable_def)
qed

lemma small_scannable: "\<exists>bs. sortBins 2048000 small_list = Inr (small_list\<lparr>sl_bins := bs\<rparr>) \<and> scannable 2048000 (small_list\<lparr>sl_bins := bs\<rparr>)"
proof -
  have kinds: "\<forall>e\<in>set (rs_entries small_system). \<not> isDummy e"
    by (simp add: small_system_def addEntry_def AnalogSystem_def isDummy_def)
  have "small_tower \<in> set (rs_entries small_system)" by (simp add: small_well_indexed small_tower_def)
  moreover have "\<not> unavailable [small_system] (small_tower)"
    by (simp add: unavailable_def small_entry) (simp add: small_system_def addEntry_def AnalogSystem_def)
  moreover have "sl_systems small_list = [small_system]" "sl_bins small_list = []" "sl_binNum small_list = 0" "sl_entryNum small_list = 0"
    by (simp_all add: small_list_def SystemList_init_def)
  moreover have "systems_ok [small_system]" using small_systems_ok by (simp add: small_scanner_def small_list_def)
  ultimately show ?thesis
    using sortBins_scannable [of small_list 2048000 "small_tower"] kinds by auto
qed

section \<open>Properties\<close>

text \<open>
  C6: The engine's assertion holds in every interleaving. Whatever sequence of requests is
  issued, read and delivered by other threads between the engine's passes (with the
  transition table read before the mutex is taken), the current state stays a legal one and
  the scanner's invariant holds: it receives, and is in manual mode, only with an entry
  selected, manual mode is a hold, and manual entry has the data it needs unless the database
  is empty.
\<close>

theorem scanner_assert_never_fails:
  assumes "machine_reach 7 (range scanner_map) scanner_requests (ScannerSM_init api d saved, []) (s, pend)"
  shows "currentState s < 7 \<and> scanner_inv s"
proof (rule scanner.assert_never_fails [OF assms])
  show "scanner.config_ok (ScannerSM_init api d saved, [])"
    by (simp add: scanner.config_ok_def scanner_inv_def ScannerSM_init_def st_defs)
qed

theorem scanner_assert_never_fails_witness:
  "let s = ScannerSM_init ctree_api () ScannerState_init
   in currentState (ExternalEvent ST_SAVEALL None s) < 7 \<and> scanner_inv (ExternalEvent ST_SAVEALL None s)"
proof -
  let ?s = "ScannerSM_init ctree_api () ScannerState_init"
  let ?R = "machine_reach 7 (range scanner_map) scanner_requests (?s, [])"
  have i: "issue_request stopScanner (?s, []) = (?s, [(ST_SAVEALL, None)])"
    by (simp add: issue_request_def stopScanner_def ScannerSM_init_def)
  have "machine_step 7 (range scanner_map) scanner_requests (?s, []) (issue_request stopScanner (?s, []))"
    by (rule machine_step.issue) (simp add: scanner_requests_def)
  then have "?R (?s, [(ST_SAVEALL, None)])"
    unfolding i by (rule machine_reach.step [OF machine_reach.start])
  then have "?R (ExternalEvent ST_SAVEALL None ?s, remove1 (ST_SAVEALL, None) [(ST_SAVEALL, None)])"
    by (rule machine_reach.step) (rule machine_step.deliver, simp)
  from scanner_assert_never_fails [OF this] show ?thesis by (simp add: Let_def)
qed

text \<open>
  A hold holds. Once the scanner is held by a client on a channel, any number of passes of
  the engine, at any clock and with any signal, leave it in \<open>ST_HOLD\<close> or \<open>ST_RECEIVE\<close> on
  that very channel, with the hold still set, until another request is delivered.
\<close>

theorem hold_stays:
  assumes "held_on e s" "scanner_run envs s = Some (Inr s')"
  shows "held_on e s'"
  using run_held [OF assms(2,1)] .

theorem hold_stays_witness:
  "\<exists>bs s'. scanner_run [silent_env, silent_env] (InternalEvent ST_HOLD None
      (small_scanner\<lparr>sn_externalHold := True, sn_systems := small_list\<lparr>sl_bins := bs\<rparr>\<rparr>)) = Some (Inr s') \<and>
     held_on (small_tower) s'"
proof -
  obtain bs where bs: "scannable 2048000 (small_list\<lparr>sl_bins := bs\<rparr>)" using small_scannable by blast
  let ?s = "InternalEvent ST_HOLD None (small_scanner\<lparr>sn_externalHold := True, sn_systems := small_list\<lparr>sl_bins := bs\<rparr>\<rparr>)"
  have h: "held_on (small_tower) ?s"
    by (simp add: held_on_def small_scanner_def ScannerSM_init_def isDummy_def small_entry )
  have "scanner_live (\<lambda>_. True) 2048000 ?s"
    using bs by (simp add: scanner_live_def) (simp add: small_scanner_def ScannerSM_init_def small_entry entry_known_def small_list_def)
  then obtain s' where "scanner_run [silent_env, silent_env] ?s = Some (Inr s')"
    using silent.run_total [of "[silent_env, silent_env]" 2048000 ?s] silent_env_uses
    by (auto simp: small_scanner_def)
  with hold_stays [OF h this] show ?thesis by blast
qed

text \<open>
  C7: A stop that is read and delivered takes effect: from every state but \<open>ST_STOPPED\<close>, two
  passes of the engine save the state, write the database as it stands, end the scanner's
  thread and release whoever waits for it to deinitialise, provided that an entry is selected
  whenever the scanner is held or in manual mode.
\<close>

theorem stop_completes:
  assumes "currentState s < 6" "sm_run s" "sn_manualMode s \<or> sn_externalHold s \<longrightarrow> sn_currentEntry s \<noteq> None"
  shows "\<exists>s'. scanner_run (env1 # env2 # envs) (perform stopScanner s) = Some (Inr s') \<and>
    \<not> sm_run s' \<and> waitDeinit_returns (sn_sync s') \<and>
    sn_written s' = Some (writeToFile (ev_api env1) (sn_systems s)) \<and>
    save_scanner_state s = Inr (sn_saved s')"
proof -
  have "rq_table stopScanner ! currentState s = ST_SAVEALL"
    using assms(1) by (auto simp: stopScanner_def nth_Cons' less_Suc_eq numeral_eq_Suc)
  then have p: "perform stopScanner s = ExternalEvent ST_SAVEALL None s"
    by (simp add: perform_def Let_def) (simp add: stopScanner_def)
  let ?s0 = "ExternalEvent ST_SAVEALL None s"
  let ?s1 = "?s0\<lparr>pEventData := None, eventGenerated := False\<rparr>"
  have eq: "save_scanner_state ?s1 = save_scanner_state s"
    by (simp add: save_scanner_state_def current_def Let_def)
  obtain st where st: "save_scanner_state s = Inr st"
    using assms(3)
    by (cases "sn_manualMode s"; cases "sn_externalHold s"; cases "sn_currentEntry s") (auto simp: save_scanner_state_def Let_def)
  let ?s2 = "(InternalEvent ST_STOPPED None (?s1\<lparr>sn_saved := st, sn_written := Some (writeToFile (ev_api env1) (sn_systems s))\<rparr>))
      \<lparr>evtSrcExternal := False\<rparr>"
  have e1: "scanner_engine env1 ?s0 = Some (Inr ?s2)"
    using st eq by (simp add: scanner_engine_def StateEngine_def Let_def ExternalEvent_fields ST_SaveAll_def ok_def lift_result_def)
  obtain s3 where e2: "scanner_engine env2 ?s2 = Some (Inr s3)" and f3: "\<not> sm_run s3" "sn_sync s3 = notifyDeinit (sn_sync s)"
    "sn_written s3 = Some (writeToFile (ev_api env1) (sn_systems s))" "sn_saved s3 = st"
    by (simp add: scanner_engine_def StateEngine_def Let_def ST_Stopped_def sm_stop_def ok_def)
  have run0: "sm_run ?s0 \<and> eventGenerated ?s0"
    using assms(2) by (simp add: ExternalEvent_fields)
  have run2: "sm_run ?s2 \<and> eventGenerated ?s2" using assms(2) by (simp add: ExternalEvent_fields)
  have "scanner_run envs s3 = Some (Inr s3)" using f3(1) by (cases envs) (simp_all add: scanner_run_def ok_def)
  then have "scanner_run (env1 # env2 # envs) ?s0 = Some (Inr s3)"
    using e1 e2 run0 run2 by (simp add: run_engine_Cons)
  then show ?thesis using f3 st p by (auto simp: waitDeinit_returns_def notifyDeinit_def)
qed

theorem stop_completes_witness:
  "\<exists>s'. scanner_run [silent_env, silent_env] (perform stopScanner small_scanner) = Some (Inr s') \<and> \<not> sm_run s'"
  using stop_completes [of small_scanner silent_env silent_env "[]"]
  by (auto simp: small_scanner_def ScannerSM_init_def)

text \<open>
  A stop can nevertheless be lost, because the transition table is read before the mutex is
  taken. There is an interleaving in which a client's \<open>startScan\<close> reads the table first,
  \<open>stopScanner\<close> is then read and delivered in full, and the delivery of the stale scan event
  follows: the machine is left in \<open>ST_SCAN\<close> with nothing under way, and nothing saved.
\<close>

theorem stop_can_be_lost:
  assumes "currentState s = ST_HOLD"
  shows "\<exists>t. machine_reach 7 (range scanner_map) scanner_requests (s, []) (perform stopScanner s, [(ST_SCAN, None)]) \<and>
    machine_reach 7 (range scanner_map) scanner_requests (s, []) (t, []) \<and>
    t = ExternalEvent ST_SCAN None (perform stopScanner s) \<and>
    currentState t = ST_SCAN \<and> sn_written t = sn_written s \<and> sn_saved t = sn_saved s"
proof -
  let ?step = "machine_step 7 (range scanner_map) scanner_requests"
  let ?R = "machine_reach 7 (range scanner_map) scanner_requests (s, [])"
  have t: "rq_table startScan ! currentState s = ST_SCAN" "rq_table stopScanner ! currentState s = ST_SAVEALL"
    using assms by (simp_all add: startScan_def stopScanner_def st_defs)
  have "?step (s, []) (issue_request startScan (s, []))" "?step (s, [(ST_SCAN, None)]) (issue_request stopScanner (s, [(ST_SCAN, None)]))"
    by (rule machine_step.issue, simp add: scanner_requests_def)+
  then have s1: "?step (s, []) (s, [(ST_SCAN, None)])" and s2: "?step (s, [(ST_SCAN, None)]) (s, [(ST_SCAN, None), (ST_SAVEALL, None)])"
    using t by (simp_all add: issue_request_def) (simp_all add: startScan_def stopScanner_def)
  have s3: "?step (s, [(ST_SCAN, None), (ST_SAVEALL, None)])
      (ExternalEvent ST_SAVEALL None s, remove1 (ST_SAVEALL, None) [(ST_SCAN, None), (ST_SAVEALL, None)])"
    by (rule machine_step.deliver) simp
  have p: "perform stopScanner s = ExternalEvent ST_SAVEALL None s"
    using t by (simp add: perform_def) (simp add: stopScanner_def)
  have "ST_SAVEALL \<noteq> ST_SCAN" by (simp add: st_defs)
  then have r: "?R (perform stopScanner s, [(ST_SCAN, None)])"
    using machine_reach.step [OF machine_reach.step [OF machine_reach.step [OF machine_reach.start s1] s2] s3] p by simp
  have "?step (perform stopScanner s, [(ST_SCAN, None)]) (ExternalEvent ST_SCAN None (perform stopScanner s),
      remove1 (ST_SCAN, None) [(ST_SCAN, None)])"
    by (rule machine_step.deliver) simp
  then have "?R (ExternalEvent ST_SCAN None (perform stopScanner s), [])"
    using machine_reach.step [OF r] by simp
  with r show ?thesis by (simp add: p ExternalEvent_fields st_defs EVENT_IGNORED_def)
qed

theorem stop_can_be_lost_witness:
  "\<exists>t. machine_reach 7 (range scanner_map) scanner_requests
     (InternalEvent ST_HOLD None small_scanner, []) (t, []) \<and> currentState t = ST_SCAN"
  using stop_can_be_lost [of "InternalEvent ST_HOLD None small_scanner"] by auto

text \<open>
  A reception never goes straight back to scanning. Whatever the signal, and even when the
  entry it receives on is locked out, \<open>ST_Receive\<close> ends with the event \<open>ST_RECEIVE\<close> (signal
  present) or \<open>ST_HOLD\<close> (signal lost, with the resume timer started); the \<open>ST_SCAN\<close> event it
  generates for a locked entry is overwritten.
\<close>

theorem receive_never_scans:
  assumes "ST_Receive env s = Some (Inr s')"
  shows "eventGenerated s' \<and> pEventData s' = None \<and>
    (currentState s' = ST_RECEIVE \<and> sn_timeoutStart s' = sn_timeoutStart s \<or>
     currentState s' = ST_HOLD \<and> sn_timeoutStart s' = ev_now env)"
proof -
  obtain e where e: "sn_currentEntry s = Some e"
    using assms by (auto simp: ST_Receive_def bind_result_Inr_iff)
  define s1 where "s1 = (if isLockedOut e then InternalEvent ST_SCAN None s else s)"
  obtain s2 s3 b s4 where s2: "enableAudioOut env True s1 = Inr s2"
    and s3: "broadcast_if (state_changed s2) (set_context_state RECEIVE s2) = Inr s3"
    and s4: "probe env s3 = Inr (b, s4)"
    and s': "s' = (if b then InternalEvent ST_RECEIVE None s4
      else (InternalEvent ST_HOLD None s4)\<lparr>sn_timeoutStart := ev_now env\<rparr>)"
    using assms e by (auto simp: ST_Receive_def bind_result_Inr_iff Let_def s1_def split: if_splits)
  have "sn_timeoutStart s4 = sn_timeoutStart s1"
    using enableAudioOut_frame [OF s2] broadcast_frame [OF s3] probe_frame [OF s4]
    by (auto simp: set_context_state_def)
  then show ?thesis by (auto simp: s' s1_def)
qed

theorem receive_never_scans_witness:
  "\<exists>s'. ST_Receive silent_env (small_scanner\<lparr>sn_manualMode := True, currentState := ST_RECEIVE, sn_timeoutStart := 5,
     sn_currentEntry := Some (small_tower\<lparr>en_lockout := LOCKOUT_SESSION\<rparr>)\<rparr>) = Some (Inr s') \<and>
     (currentState s' = ST_RECEIVE \<or> currentState s' = ST_HOLD)"
proof -
  let ?s = "small_scanner\<lparr>sn_manualMode := True, currentState := ST_RECEIVE, sn_timeoutStart := 5,
     sn_currentEntry := Some (small_tower\<lparr>en_lockout := LOCKOUT_SESSION\<rparr>)\<rparr>"
  have env: "ev_squelchBreak silent_env = (\<lambda>b. Inr)" "ev_ops silent_env = silent_ops" "ev_now silent_env = 0"
    by (simp_all add: silent_env_def)
  have "\<exists>s'. ST_Receive silent_env ?s = Some (Inr s')"
    by (simp add: ST_Receive_def Let_def isLockedOut_def enableAudioOut_def env broadcast_if_def broadcastContextUpdate_def
        entry_context_def set_context_state_def probe_def hasSignal_def small_entry check_signal_def lift_result_def)
      (simp add: small_scanner_def ScannerSM_init_def silent_ops_def)
  then obtain s' where s': "ST_Receive silent_env ?s = Some (Inr s')" by blast
  show ?thesis using receive_never_scans [OF s'] s' by (auto simp: env)
qed

text \<open>
  C22: The held channel survives a restart. When \<open>ST_SaveAll\<close> runs while a client holds an
  entry of the database, the state it saves makes \<open>startScanner\<close> of a scanner that has loaded
  the same systems ask for a hold on the same index, and the hold then selects that very entry.
\<close>

theorem saved_hold_resumes:
  assumes ok: "systems_ok (sl_systems (sn_systems s))"
    and i: "i < length (sl_systems (sn_systems s))" "i < 2 ^ 31"
    and j: "j < length (rs_entries (sl_systems (sn_systems s) ! i))" "j < 2 ^ 31"
    and held: "sn_currentEntry s = Some (rs_entries (sl_systems (sn_systems s) ! i) ! j)"
      "sn_externalHold s" "\<not> sn_manualMode s"
    and saved: "ST_SaveAll env s = Some (Inr s')"
    and fresh: "currentState t = ST_LOAD" "sl_systems (sn_systems t) = sl_systems (sn_systems s)"
      "sn_saved t = sn_saved s'"
  shows "startScanner api t = Some (Inr (perform (holdScan [int i, int j]) t)) \<and>
    currentState (perform (holdScan [int i, int j]) t) = ST_HOLD \<and>
    (\<exists>u. apply_index_hold env' (perform (holdScan [int i, int j]) t) = Some (Inr (True, u)) \<and>
       sn_currentEntry u = sn_currentEntry s)"
proof -
  let ?rs = "sl_systems (sn_systems s) ! i" and ?e = "rs_entries (sl_systems (sn_systems s) ! i) ! j"
  have wi: "well_indexed ?rs" "rs_sysIndex ?rs = i" using ok i by (auto simp: systems_ok_def)
  then have idx: "en_sysIndex ?e = i" "en_entryIndex ?e = j" "rs_numEntries ?rs = length (rs_entries ?rs)"
    using j by (auto simp: well_indexed_def)
  have w: "wrap32 (int i) = int i" "wrap32 (int j) = int j"
    using i j by (auto intro!: wrap32_id simp: in_int32_def)
  have sv: "sn_saved t = (sn_saved s)\<lparr>ss_holdIndex := [int i, int j], ss_holdKey := entry_key ?e,
      ss_manualFreq := 0, ss_manualModulation := '''', ss_scanState := 1\<rparr>"
    using saved held idx w fresh(3) by (auto simp: ST_SaveAll_def save_scanner_state_def Let_def bind_result_Inr_iff)
  have get: "getEntryByIndex a [int i, int j] sl = Some (Inr (?e, sl))"
    if "sl_systems sl = sl_systems (sn_systems s)" for a and sl :: "'a system_list"
    using that i j idx by (simp add: getEntryByIndex_def sl_size_def system_at_def subscript_in)
  have p: "currentState (perform (holdScan [int i, int j]) t) = ST_HOLD"
    "sn_externalHold (perform (holdScan [int i, int j]) t)" "sn_holdIndex (perform (holdScan [int i, int j]) t) = [int i, int j]"
    "sn_systems (perform (holdScan [int i, int j]) t) = sn_systems t"
    using fresh(1) by (simp_all add: perform_def holdScan_def Let_def ST_LOAD_def ExternalEvent_fields)
  have "startScanner api t = Some (Inr (perform (holdScan [int i, int j]) t))"
    using get [OF fresh(2), of api] sv by (simp add: startScanner_def ok_def)
  moreover have "apply_index_hold env' (perform (holdScan [int i, int j]) t) = Some (Inr (True,
      (perform (holdScan [int i, int j]) t)\<lparr>sn_currentEntry := Some ?e, sn_holdIndex := []\<rparr>))"
    using get [of "sn_systems t" "ev_api env'"] fresh(2) p by (simp add: apply_index_hold_def ok_def)
  ultimately show ?thesis using p held(1) by auto
qed

theorem saved_hold_resumes_witness:
  "\<exists>s' u. ST_SaveAll silent_env (small_scanner\<lparr>sn_externalHold := True\<rparr>) = Some (Inr s') \<and>
     startScanner ctree_api (small_scanner\<lparr>sn_saved := sn_saved s', sn_currentEntry := None\<rparr>) = Some (Inr u) \<and>
     currentState u = ST_HOLD"
proof -
  let ?s = "small_scanner\<lparr>sn_externalHold := True\<rparr>"
  have f: "sl_systems (sn_systems ?s) = [small_system]" "currentState ?s = ST_LOAD" "\<not> sn_manualMode ?s"
    "sn_currentEntry ?s = Some small_tower"
    by (simp_all add: small_scanner_def small_list_def ScannerSM_init_def ST_LOAD_def)
  have "\<exists>s'. ST_SaveAll silent_env ?s = Some (Inr s')"
    using f by (simp add: ST_SaveAll_def save_scanner_state_def Let_def lift_result_def)
  then obtain s' where s': "ST_SaveAll silent_env ?s = Some (Inr s')" by blast
  let ?t = "small_scanner\<lparr>sn_saved := sn_saved s', sn_currentEntry := None\<rparr>"
  have "startScanner ctree_api ?t = Some (Inr (perform (holdScan [int 0, int 1]) ?t)) \<and>
    currentState (perform (holdScan [int 0, int 1]) ?t) = ST_HOLD \<and>
    (\<exists>u. apply_index_hold silent_env (perform (holdScan [int 0, int 1]) ?t) = Some (Inr (True, u)) \<and>
       sn_currentEntry u = sn_currentEntry ?s)"
    by (rule saved_hold_resumes [OF _ _ _ _ _ _ _ _ s'])
      (use f small_systems_ok small_well_indexed in \<open>auto simp: small_tower_def small_scanner_def ScannerSM_init_def\<close>)
  with s' show ?thesis by blast
qed

text \<open>
  The manual entry flow. A manual entry delivered from any running state makes the engine
  select a fresh channel with the frequency asked for, AM for \<open>"AM"\<close> and narrow FM for
  everything else, put the scanner in manual mode with an external hold, and go on in
  \<open>ST_HOLD\<close>.
\<close>

theorem manual_entry_flow:
  assumes "currentState s < 5" "sm_run s"
  shows "\<exists>t e. scanner_run [env] (perform (manualEntry freq md) s) = Some (Inr t) \<and>
    currentState t = ST_HOLD \<and> eventGenerated t \<and> sn_externalHold t \<and> sn_manualMode t \<and>
    sn_currentEntry t = Some e \<and> en_freq e = freq \<and>
    modulation_of e = (if md = ''AM'' then ''AM'' else ''NFM'') \<and> \<not> isDummy e \<and> \<not> isLockedOut e"
proof -
  have "rq_table (manualEntry freq md) ! currentState s = ST_MANUAL"
    using assms(1) by (auto simp: manualEntry_def nth_Cons' less_Suc_eq numeral_eq_Suc)
  then have p: "perform (manualEntry freq md) s = ExternalEvent ST_MANUAL (Some (Ev_Manual freq md)) s"
    by (simp add: perform_def Let_def) (simp add: manualEntry_def)
  define e where "e = manual_channel (ev_api env) freq md"
  have e: "en_freq e = freq" "modulation_of e = (if md = ''AM'' then ''AM'' else ''NFM'')" "\<not> isDummy e" "\<not> isLockedOut e"
    by (simp_all add: e_def manual_channel_def modulation_of_def isDummy_def)
  have "pEventData (ExternalEvent ST_MANUAL (Some (Ev_Manual freq md)) s) = Some (Ev_Manual freq md)"
    by (simp add: ExternalEvent_def)
  then have "\<exists>t. scanner_engine env (ExternalEvent ST_MANUAL (Some (Ev_Manual freq md)) s) = Some (Inr t) \<and>
      currentState t = ST_HOLD \<and> eventGenerated t \<and> sn_externalHold t \<and> sn_manualMode t \<and> sn_currentEntry t = Some e"
    by (simp add: scanner_engine_def StateEngine_def Let_def ExternalEvent_fields ST_Manual_def ok_def e_def)
  then obtain t where t: "scanner_engine env (ExternalEvent ST_MANUAL (Some (Ev_Manual freq md)) s) = Some (Inr t)"
    "currentState t = ST_HOLD" "eventGenerated t" "sn_externalHold t" "sn_manualMode t" "sn_currentEntry t = Some e" by blast
  have "scanner_run [env] (perform (manualEntry freq md) s) = Some (Inr t)"
    using t(1) assms(2) by (simp add: p run_engine_Cons ExternalEvent_fields scanner_run_def [of "[]"] ok_def)
  with t e show ?thesis by blast
qed

theorem manual_entry_flow_witness:
  "\<exists>t. scanner_run [silent_env] (perform (manualEntry 121500000 ''AM'') small_scanner) = Some (Inr t) \<and>
     (\<exists>e. sn_currentEntry t = Some e \<and> modulation_of e = ''AM'')"
  using manual_entry_flow [of small_scanner silent_env 121500000 "''AM''"]
  by (auto simp: small_scanner_def ScannerSM_init_def)

text \<open>
  C35: With an empty database the first scan faults. \<open>ST_Scan\<close> posts its default manual
  frequency as a bare \<open>uint32_t\<close>, which \<open>ST_Manual\<close> reinterprets as a \<open>ManualEntryData\<close>.
\<close>

theorem empty_database_faults:
  assumes "sl_systems (sn_systems s) = []" "sm_run s" "currentState s = ST_LOAD"
  shows "scanner_run [env1, env2] (perform startScan s) = Some (Inl Bad_Cast)"
proof -
  have p: "perform startScan s = ExternalEvent ST_SCAN None s"
    using assms(3) by (simp add: perform_def startScan_def ST_LOAD_def)
  let ?s1 = "(ExternalEvent ST_SCAN None s)\<lparr>pEventData := None, eventGenerated := False\<rparr>"
  have "sl_size (sn_systems ?s1) = 0" using assms(1) by (simp add: sl_size_def)
  then have "ST_Scan env1 ?s1 = ok (InternalEvent ST_MANUAL (Some (Ev_Uint32 100000000))
      (if state_changed ?s1 then ?s1\<lparr>sn_squelchHits := 0\<rparr> else ?s1))"
    by (simp add: ST_Scan_def Let_def)
  then obtain t where t: "scanner_engine env1 (ExternalEvent ST_SCAN None s) = Some (Inr t)" "sm_run t" "eventGenerated t"
    "currentState t = ST_MANUAL" "pEventData t = Some (Ev_Uint32 100000000)"
    using assms(2) by (simp add: scanner_engine_def StateEngine_def Let_def ExternalEvent_fields ok_def)
  then have "scanner_engine env2 t = Some (Inl Bad_Cast)"
    by (simp add: scanner_engine_def StateEngine_def Let_def ST_Manual_def)
  with t assms(2) show ?thesis by (simp add: p run_engine_Cons ExternalEvent_fields)
qed

theorem empty_database_faults_witness:
  "scanner_run [silent_env, silent_env] (perform startScan ((ScannerSM_init ctree_api () ScannerState_init)\<lparr>sm_run := True\<rparr>)) = Some (Inl Bad_Cast)"
  by (rule empty_database_faults) (simp_all add: ScannerSM_init_def SystemList_init_def ST_LOAD_def)

end
