(* ===== verification/Tuner.thy ===== *)
theory Tuner
  imports Configuration
begin

text \<open>
  The tuner: the device description \<open>SDRDeviceInfo\<close> (src/src/cubic/sdr/SDRDeviceInfo.cpp), the
  control side of \<open>SDRThread\<close> (src/src/cubic/sdr/SoapySDRThread.cpp), the tuning state of
  \<open>CubicSDR\<close> (src/src/cubic/CubicSDR.cpp) with the per-device settings it keeps
  (\<open>DeviceConfig\<close>, src/src/cubic/AppConfig.cpp), and \<open>TunerManager\<close>
  (src/src/sigproc/TunerManager.cpp), which chooses the device and its sample rate.

  The device itself (SoapySDR) is third-party: a device is the record of what it answers.
  A \<open>double\<close> rate and a \<open>float\<close> gain are the rational numbers they denote.
\<close>

section \<open>Devices\<close>

record sdr_device =
  sd_name :: string
  sd_driver :: string
  sd_available :: bool
  sd_opens :: bool
  sd_rates :: "rat list"

text \<open>A conversion of a \<open>double\<close> to a \<open>long\<close> drops the fraction.\<close>

definition to_long :: "rat \<Rightarrow> int" where
  "to_long x = (if x < 0 then - \<lfloor>- x\<rfloor> else \<lfloor>x\<rfloor>)"

definition DEVICE_SAMPLE_RATES_MAX_NB :: nat where "DEVICE_SAMPLE_RATES_MAX_NB = 25"

text \<open>The loop \<open>for (size_t i = 0; step * i < sampleRates.size(); i++)\<close>.\<close>

function decimate :: "nat \<Rightarrow> 'a list \<Rightarrow> nat \<Rightarrow> 'a list" where
  "decimate step xs i =
     (if 0 < step \<and> step * i < length xs then (xs ! (step * i)) # decimate step xs (i + 1) else [])"
  by pat_completeness auto
termination
  by (relation "measure (\<lambda>(step, xs, i). length xs - step * i)") auto

declare decimate.simps [simp del]

definition rate_step :: "nat \<Rightarrow> nat" where
  "rate_step n = (if n div DEVICE_SAMPLE_RATES_MAX_NB \<ge> 2 then n div DEVICE_SAMPLE_RATES_MAX_NB else 1)"

definition getSampleRates :: "sdr_device \<Rightarrow> int list result" where
  "getSampleRates d =
     (let rates = sort (sd_rates d);
          picked = map to_long (decimate (rate_step (length rates)) rates 0)
      in if rates = [] then Inl Out_Of_Bounds
         else if to_long (last rates) > last picked then Inr (picked @ [to_long (last rates)])
         else Inr picked)"

fun near_loop :: "int \<Rightarrow> int list \<Rightarrow> int \<Rightarrow> int \<Rightarrow> int" where
  "near_loop want [] minDelta best = best"
| "near_loop want (r # rs) minDelta best =
     (if \<bar>want - r\<bar> < minDelta then near_loop want rs \<bar>want - r\<bar> r else near_loop want rs minDelta best)"

definition getSampleRateNear :: "sdr_device \<Rightarrow> int \<Rightarrow> int result" where
  "getSampleRateNear d want =
     bind_result (getSampleRates d) (\<lambda>rates.
     bind_result (subscript rates 0) (\<lambda>r0. Inr (near_loop want rates \<bar>want - r0\<bar> r0)))"

section \<open>Tuning state\<close>

record device_config =
  dv_ppm :: int
  dv_offset :: int
  dv_agcMode :: bool
  dv_sampleRate :: int
  dv_gains :: "string \<rightharpoonup> rat"

definition DeviceConfig_init :: device_config where
  "DeviceConfig_init = \<lparr>dv_ppm = 0, dv_offset = 0, dv_agcMode = True, dv_sampleRate = 0, dv_gains = Map.empty\<rparr>"

record sdr_thread =
  th_device :: "sdr_device option"
  th_terminated :: bool
  th_frequency :: int
  th_sampleRate :: int
  th_offset :: int
  th_ppm :: int
  th_agcMode :: bool
  th_gains :: "string \<rightharpoonup> rat"

record cubic_sdr =
  cu_frequency :: int
  cu_offset :: int
  cu_ppm :: int
  cu_snap :: int
  cu_sampleRate :: int
  cu_rateInitialized :: bool
  cu_agcMode :: bool
  cu_stoppedDev :: "sdr_device option"
  cu_thread :: sdr_thread
  cu_configs :: "string \<rightharpoonup> device_config"

definition SDRThread_init :: sdr_thread where
  "SDRThread_init = \<lparr>th_device = None, th_terminated = False, th_frequency = 0, th_sampleRate = 2500000,
     th_offset = 0, th_ppm = 0, th_agcMode = True, th_gains = Map.empty\<rparr>"

text \<open>\<open>OnInit\<close> takes the centre frequency from the configuration.\<close>

definition CubicSDR_init :: "int \<Rightarrow> (string \<rightharpoonup> device_config) \<Rightarrow> cubic_sdr" where
  "CubicSDR_init centerFreq configs = \<lparr>cu_frequency = centerFreq, cu_offset = 0, cu_ppm = 0, cu_snap = 1,
     cu_sampleRate = 2500000, cu_rateInitialized = False, cu_agcMode = True, cu_stoppedDev = None,
     cu_thread = SDRThread_init, cu_configs = configs\<rparr>"

text \<open>\<open>AppConfig::getDevice\<close> creates the entry that is missing.\<close>

definition getDeviceConfig :: "string \<Rightarrow> (string \<rightharpoonup> device_config) \<Rightarrow> device_config" where
  "getDeviceConfig name configs = (case configs name of None \<Rightarrow> DeviceConfig_init | Some c \<Rightarrow> c)"

text \<open>The setters of the thread also write to the configuration of its device, if it has one.\<close>

definition update_config :: "(device_config \<Rightarrow> device_config) \<Rightarrow> cubic_sdr \<Rightarrow> cubic_sdr" where
  "update_config f c =
     (case th_device (cu_thread c) of
        None \<Rightarrow> c
      | Some d \<Rightarrow> c\<lparr>cu_configs := (cu_configs c)(sd_name d \<mapsto> f (getDeviceConfig (sd_name d) (cu_configs c)))\<rparr>)"

definition update_thread :: "(sdr_thread \<Rightarrow> sdr_thread) \<Rightarrow> cubic_sdr \<Rightarrow> cubic_sdr" where
  "update_thread f c = c\<lparr>cu_thread := f (cu_thread c)\<rparr>"

definition thread_setFrequency :: "int \<Rightarrow> sdr_thread \<Rightarrow> sdr_thread" where
  "thread_setFrequency freq t =
     t\<lparr>th_frequency := (if freq < cdiv (th_sampleRate t) 2 then cdiv (th_sampleRate t) 2 else freq)\<rparr>"

definition cubic_setFrequency :: "int \<Rightarrow> cubic_sdr \<Rightarrow> cubic_sdr" where
  "cubic_setFrequency freq c =
     (let f = (if freq < cdiv (cu_sampleRate c) 2 then cdiv (cu_sampleRate c) 2 else freq)
      in update_thread (thread_setFrequency f) (c\<lparr>cu_frequency := f\<rparr>))"

definition cubic_setOffset :: "int \<Rightarrow> cubic_sdr \<Rightarrow> cubic_sdr" where
  "cubic_setOffset ofs c =
     (let c1 = c\<lparr>cu_offset := ofs\<rparr>
      in if th_terminated (cu_thread c1) then c1
         else update_config (\<lambda>v. v\<lparr>dv_offset := ofs\<rparr>) (update_thread (\<lambda>t. t\<lparr>th_offset := ofs\<rparr>) c1))"

definition cubic_setSampleRate :: "int \<Rightarrow> cubic_sdr \<Rightarrow> cubic_sdr" where
  "cubic_setSampleRate rate c =
     (let c1 = c\<lparr>cu_sampleRate := rate\<rparr>;
          c2 = (if th_terminated (cu_thread c1) then c1
                else update_config (\<lambda>v. v\<lparr>dv_sampleRate := rate\<rparr>) (update_thread (\<lambda>t. t\<lparr>th_sampleRate := rate\<rparr>) c1))
      in cubic_setFrequency (cu_frequency c2) c2)"

definition cubic_setPPM :: "int \<Rightarrow> cubic_sdr \<Rightarrow> cubic_sdr" where
  "cubic_setPPM ppm c =
     (let c1 = c\<lparr>cu_ppm := ppm\<rparr>
      in if th_terminated (cu_thread c1) then c1
         else update_config (\<lambda>v. v\<lparr>dv_ppm := ppm\<rparr>) (update_thread (\<lambda>t. t\<lparr>th_ppm := ppm\<rparr>) c1))"

definition cubic_getPPM :: "cubic_sdr \<Rightarrow> int \<times> cubic_sdr" where
  "cubic_getPPM c =
     (let c1 = (case th_device (cu_thread c) of
          None \<Rightarrow> c
        | Some d \<Rightarrow> c\<lparr>cu_ppm := dv_ppm (getDeviceConfig (sd_name d) (cu_configs c))\<rparr>)
      in (cu_ppm c1, c1))"

definition cubic_setAGCMode :: "bool \<Rightarrow> cubic_sdr \<Rightarrow> cubic_sdr" where
  "cubic_setAGCMode mode c =
     (let c1 = c\<lparr>cu_agcMode := mode\<rparr>
      in if th_terminated (cu_thread c1) then c1
         else update_config (\<lambda>v. v\<lparr>dv_agcMode := mode\<rparr>) (update_thread (\<lambda>t. t\<lparr>th_agcMode := mode\<rparr>) c1))"

definition cubic_setGain :: "string \<Rightarrow> rat \<Rightarrow> cubic_sdr \<Rightarrow> cubic_sdr" where
  "cubic_setGain name g c =
     update_config (\<lambda>v. v\<lparr>dv_gains := (dv_gains v)(name \<mapsto> g)\<rparr>)
       (update_thread (\<lambda>t. t\<lparr>th_gains := (th_gains t)(name \<mapsto> g)\<rparr>) c)"

text \<open>\<open>gainValues[name]\<close> of a name that was never set is 0.\<close>

definition cubic_getGain :: "string \<Rightarrow> cubic_sdr \<Rightarrow> rat" where
  "cubic_getGain name c = (case th_gains (cu_thread c) name of None \<Rightarrow> 0 | Some g \<Rightarrow> g)"

definition setFrequencySnap :: "int \<Rightarrow> cubic_sdr \<Rightarrow> cubic_sdr" where
  "setFrequencySnap snap c = c\<lparr>cu_snap := (if snap > 1000000 then 1000000 else snap)\<rparr>"

definition cubic_getDevice :: "cubic_sdr \<Rightarrow> sdr_device option" where
  "cubic_getDevice c = (if th_device (cu_thread c) = None \<and> cu_stoppedDev c \<noteq> None then cu_stoppedDev c
     else th_device (cu_thread c))"

text \<open>
  \<open>stopDevice\<close>; \<open>running\<close> says whether the thread had been started, in which case it has ended
  once it is joined.
\<close>

definition stopDevice :: "bool \<Rightarrow> bool \<Rightarrow> cubic_sdr \<Rightarrow> cubic_sdr" where
  "stopDevice running store c =
     (let t = (cu_thread c)\<lparr>th_terminated := th_terminated (cu_thread c) \<or> running, th_device := None\<rparr>
      in c\<lparr>cu_stoppedDev := (if store then th_device (cu_thread c) else None), cu_thread := t\<rparr>)"

definition setDevice :: "bool \<Rightarrow> sdr_device \<Rightarrow> cubic_sdr \<Rightarrow> cubic_sdr result" where
  "setDevice running dev c =
     (let t = (cu_thread c)\<lparr>th_terminated := th_terminated (cu_thread c) \<or> running, th_device := Some dev\<rparr>;
          conf = getDeviceConfig (sd_name dev) (cu_configs c);
          c1 = c\<lparr>cu_thread := t, cu_configs := (cu_configs c)(sd_name dev \<mapsto> conf)\<rparr>
      in bind_result
           (if \<not> sd_opens dev then Inr c1
            else
              bind_result
                (if dv_sampleRate conf \<noteq> 0
                 then bind_result (getSampleRateNear dev (dv_sampleRate conf)) (\<lambda>r.
                        Inr (c1\<lparr>cu_sampleRate := r, cu_rateInitialized := True\<rparr>))
                 else Inr c1) (\<lambda>c2.
              bind_result
                (getSampleRateNear dev (if cu_rateInitialized c2 then cu_sampleRate c2 else 2500000)) (\<lambda>r.
                 let c3 = c2\<lparr>cu_sampleRate := r, cu_rateInitialized := True\<rparr>;
                     c4 = (if cu_frequency c3 < cdiv r 2 then c3\<lparr>cu_frequency := cdiv r 2\<rparr> else c3);
                     c5 = cubic_setSampleRate r (cubic_setFrequency (cu_frequency c4) c4);
                     conf5 = getDeviceConfig (sd_name dev) (cu_configs c5);
                     c6 = cubic_setPPM (dv_ppm conf5) c5;
                     c7 = cubic_setOffset (dv_offset (getDeviceConfig (sd_name dev) (cu_configs c6))) c6;
                     c8 = cubic_setAGCMode (dv_agcMode (getDeviceConfig (sd_name dev) (cu_configs c7))) c7
                 in Inr (c8\<lparr>cu_thread := (cu_thread c8)\<lparr>th_terminated := False\<rparr>\<rparr>))))
           (\<lambda>c'. Inr (c'\<lparr>cu_stoppedDev := None\<rparr>)))"

section \<open>TunerManager\<close>

record tuner_manager =
  tm_devs :: "(string \<times> sdr_device) list"
  tm_config :: tuner_config
  tm_device :: "sdr_device option"

definition TunerManager_init :: tuner_manager where
  "TunerManager_init = \<lparr>tm_devs = [], tm_config = TunerConfig_init, tm_device = None\<rparr>"

text \<open>\<open>_devs[name] = device\<close> on the map of known devices, kept as an association list.\<close>

fun dev_insert :: "string \<Rightarrow> sdr_device \<Rightarrow> (string \<times> sdr_device) list \<Rightarrow> (string \<times> sdr_device) list" where
  "dev_insert n d [] = [(n, d)]"
| "dev_insert n d (x # xs) = (if fst x = n then (n, d) # xs else x # dev_insert n d xs)"

definition enumerateDevices :: "sdr_device list \<Rightarrow> tuner_manager \<Rightarrow> bool \<times> tuner_manager" where
  "enumerateDevices devs m =
     (if devs = [] then (False, m)
      else (True, m\<lparr>tm_devs := foldl (\<lambda>ds d.
             if sd_driver d \<noteq> ''audio'' \<and> sd_name d \<noteq> '''' then dev_insert (sd_name d) d ds else ds)
           (tm_devs m) devs\<rparr>))"

text \<open>
  \<open>_devs\<close> is an \<open>unordered_map\<close>: \<open>begin_of\<close> is whichever element its iteration starts at.
\<close>

definition selectFirstAvailableDevice ::
    "((string \<times> sdr_device) list \<Rightarrow> string \<times> sdr_device) \<Rightarrow> tuner_manager \<Rightarrow> tuner_manager result" where
  "selectFirstAvailableDevice begin_of m =
     (if tm_devs m = [] then Inl Out_Of_Bounds
      else let d = snd (begin_of (tm_devs m))
           in Inr (m\<lparr>tm_device := Some d,
                     tm_config := (tm_config m)\<lparr>tc_driver := sd_driver d, tc_descriptor := sd_name d\<rparr>\<rparr>))"

definition LONG_MAX :: int where "LONG_MAX = 2 ^ 63 - 1"

definition nearestSampleRate :: "int \<Rightarrow> int list \<Rightarrow> int" where
  "nearestSampleRate desired rates = near_loop desired rates LONG_MAX (-1)"

text \<open>The search through the saved tuners in rank order.\<close>

fun find_tuner :: "(string \<times> sdr_device) list \<Rightarrow> tuner_config list \<Rightarrow> (tuner_config \<times> sdr_device) option" where
  "find_tuner devs [] = None"
| "find_tuner devs (t # ts) =
     (case map_of devs (tc_descriptor t) of
        None \<Rightarrow> find_tuner devs ts
      | Some d \<Rightarrow> if \<not> sd_available d then find_tuner devs ts else Some (t, d))"

text \<open>The branch that takes the first device and saves it to the list with rank \<open>size()\<close>.\<close>

definition select_new ::
    "((string \<times> sdr_device) list \<Rightarrow> string \<times> sdr_device) \<Rightarrow> tuner_config list \<Rightarrow> tuner_manager \<Rightarrow>
     (tuner_config list \<times> tuner_manager) result" where
  "select_new begin_of tuners m =
     bind_result (selectFirstAvailableDevice begin_of m) (\<lambda>m1.
       let conf = (tm_config m1)\<lparr>tc_rank := int (length tuners)\<rparr>
       in Inr (tuner_insert conf tuners, m1\<lparr>tm_config := conf\<rparr>))"

definition autoSelectTuner ::
    "((string \<times> sdr_device) list \<Rightarrow> string \<times> sdr_device) \<Rightarrow> tuner_config list \<Rightarrow> tuner_manager \<Rightarrow>
     (bool \<times> tuner_config list \<times> tuner_manager) result" where
  "autoSelectTuner begin_of tuners m =
     (if tm_devs m = [] then Inr (False, tuners, m)
      else
        bind_result
          (if tuners = [] then select_new begin_of tuners m
           else case find_tuner (tm_devs m) tuners of
                  None \<Rightarrow> select_new begin_of tuners m
                | Some (t, d) \<Rightarrow> Inr (tuners, m\<lparr>tm_config := t, tm_device := Some d\<rparr>)) (\<lambda>(ts, m1).
        case tm_device m1 of
          None \<Rightarrow> Inl Null_Deref
        | Some d \<Rightarrow> bind_result (getSampleRates d) (\<lambda>rates.
            Inr (True, ts, m1\<lparr>tm_config := (tm_config m1)\<lparr>tc_sampleRate :=
              nearestSampleRate (tc_sampleRate (tm_config m1)) rates\<rparr>\<rparr>))))"

definition startSelectedTuner :: "bool \<Rightarrow> tuner_manager \<Rightarrow> cubic_sdr \<Rightarrow> (bool \<times> cubic_sdr) result" where
  "startSelectedTuner running m c =
     (case tm_device m of
        None \<Rightarrow> Inl Null_Deref
      | Some d \<Rightarrow> bind_result (setDevice running d c) (\<lambda>c1.
          Inr (True, cubic_setSampleRate (tc_sampleRate (tm_config m)) (cubic_setPPM (tc_ppmCorrection (tm_config m)) c1))))"

definition stopSelectedTuner :: "bool \<Rightarrow> cubic_sdr \<Rightarrow> bool \<times> cubic_sdr" where
  "stopSelectedTuner running c = (True, stopDevice running False c)"

section \<open>Sample rates\<close>

lemma near_loop_best:
  assumes "near_loop want rs m b = r"
  shows "(r = b \<and> (\<forall>x\<in>set rs. m \<le> \<bar>want - x\<bar>)) \<or>
    (r \<in> set rs \<and> \<bar>want - r\<bar> < m \<and> (\<forall>x\<in>set rs. \<bar>want - r\<bar> \<le> \<bar>want - x\<bar>))"
  using assms
proof (induction rs arbitrary: m b)
  case (Cons x rs)
  show ?case
  proof (cases "\<bar>want - x\<bar> < m")
    case True
    with Cons.prems Cons.IH [of "\<bar>want - x\<bar>" x] show ?thesis by auto
  next
    case False
    with Cons.prems Cons.IH [of m b] show ?thesis by auto
  qed
qed simp

lemma decimate_eq:
  assumes "0 < step"
  shows "\<exists>k. decimate step xs i = map (\<lambda>j. xs ! (step * j)) [i..<i + k] \<and>
    (\<forall>j<k. step * (i + j) < length xs) \<and> length xs \<le> step * (i + k)"
  using assms
proof (induction step xs i rule: decimate.induct)
  case (1 step xs i)
  show ?case
  proof (cases "step * i < length xs")
    case False
    then show ?thesis by (intro exI [of _ 0]) (simp add: decimate.simps)
  next
    case True
    with 1 obtain k where k: "decimate step xs (i + 1) = map (\<lambda>j. xs ! (step * j)) [i + 1..<i + 1 + k]"
      "\<forall>j<k. step * (i + 1 + j) < length xs" "length xs \<le> step * (i + 1 + k)" by auto
    have "[i..<i + Suc k] = i # [i + 1..<i + 1 + k]" by (simp add: upt_rec)
    moreover have "\<forall>j<Suc k. step * (i + j) < length xs"
    proof (intro allI impI)
      fix j assume "j < Suc k"
      with True k(2) show "step * (i + j) < length xs" by (cases j) auto
    qed
    ultimately show ?thesis
      using 1(2) True k by (intro exI [of _ "Suc k"]) (simp add: decimate.simps [of step xs i])
  qed
qed

lemma decimate_subset: "0 < step \<Longrightarrow> set (decimate step xs i) \<subseteq> set xs"
proof -
  assume "0 < step"
  then obtain k where k: "decimate step xs i = map (\<lambda>j. xs ! (step * j)) [i..<i + k]"
    "\<forall>j<k. step * (i + j) < length xs" using decimate_eq by blast
  have "xs ! (step * x) \<in> set xs" if "i \<le> x" "x < i + k" for x
    using k(2) that by (metis add_less_cancel_left le_Suc_ex nth_mem)
  then show ?thesis unfolding k(1) by auto
qed

lemma decimate_sorted:
  assumes "0 < step" "sorted xs"
  shows "sorted (decimate step xs i)"
proof -
  obtain k where k: "decimate step xs i = map (\<lambda>j. xs ! (step * j)) [i..<i + k]"
    "\<forall>j<k. step * (i + j) < length xs" using decimate_eq [OF assms(1)] by blast
  have "xs ! (step * (i + a)) \<le> xs ! (step * (i + b))" if "a < b" "b < k" for a b
    using assms that k(2) by (intro sorted_nth_mono) auto
  then show ?thesis unfolding k(1) sorted_wrt_iff_nth_less by auto
qed

lemma to_long_mono: "x \<le> y \<Longrightarrow> to_long x \<le> to_long y"
proof -
  assume "x \<le> y"
  then have m: "\<lfloor>x\<rfloor> \<le> \<lfloor>y\<rfloor>" "\<lfloor>- y\<rfloor> \<le> \<lfloor>- x\<rfloor>" by (intro floor_mono; simp)+
  show ?thesis
  proof (cases "x < 0 \<and> \<not> y < 0")
    case True
    then have "0 \<le> \<lfloor>- x\<rfloor>" "0 \<le> \<lfloor>y\<rfloor>" by (simp_all add: le_floor_iff)
    then have "- \<lfloor>- x\<rfloor> \<le> \<lfloor>y\<rfloor>" by linarith
    with True show ?thesis by (simp add: to_long_def)
  next
    case False
    with m \<open>x \<le> y\<close> show ?thesis by (auto simp: to_long_def)
  qed
qed

lemma rate_step_pos [simp]: "0 < rate_step n"
  by (auto simp: rate_step_def)

text \<open>The number of rates that are left.\<close>

lemma rate_count: "k > 0 \<Longrightarrow> rate_step n * (k - 1) < n \<Longrightarrow> k \<le> 49"
proof -
  assume k: "k > 0" and lt: "rate_step n * (k - 1) < n"
  show ?thesis
  proof (cases "2 \<le> n div 25")
    case True
    let ?q = "n div 25"
    have "n = 25 * ?q + n mod 25" "n mod 25 < 25" by simp_all
    then have "n < 25 * ?q + 25" by linarith
    moreover have "25 * ?q + 25 \<le> ?q * 38" using True by linarith
    moreover have "?q * (k - 1) < n" using lt True by (simp add: rate_step_def DEVICE_SAMPLE_RATES_MAX_NB_def)
    ultimately have "?q * (k - 1) < ?q * 38" by (meson less_le_trans order_less_trans)
    then have "k - 1 < 38" using mult_less_cancel1 [of ?q "k - 1" 38] by blast
    then show ?thesis by simp
  next
    case False
    then have "rate_step n = 1" "n < 50" by (auto simp: rate_step_def DEVICE_SAMPLE_RATES_MAX_NB_def)
    with lt show ?thesis by simp
  qed
qed

lemma getSampleRates_cases:
  assumes "getSampleRates d = Inr rs"
  shows "sorted rs \<and> set rs \<subseteq> to_long ` set (sd_rates d) \<and> rs \<noteq> [] \<and> length rs \<le> 50 \<and>
    (\<forall>x\<in>set (sd_rates d). to_long x \<le> last rs)"
proof -
  let ?r = "sort (sd_rates d)"
  let ?p = "map to_long (decimate (rate_step (length ?r)) ?r 0)"
  have ne: "?r \<noteq> []" and rs: "rs = (if to_long (last ?r) > last ?p then ?p @ [to_long (last ?r)] else ?p)"
    using assms by (auto simp: getSampleRates_def Let_def split: if_splits)
  obtain k where k: "decimate (rate_step (length ?r)) ?r 0 = map (\<lambda>j. ?r ! (rate_step (length ?r) * j)) [0..<k]"
    "\<forall>j<k. rate_step (length ?r) * j < length ?r" "length ?r \<le> rate_step (length ?r) * k"
    using decimate_eq [of "rate_step (length ?r)" ?r 0] by auto
  have k0: "k > 0" using k(3) ne by (cases k) auto
  then have len: "k \<le> 49" using k(2) by (intro rate_count [of k "length ?r"]) auto
  have p: "?p \<noteq> []" "length ?p = k" using k(1) k0 by auto
  have sp: "sorted ?p"
    using decimate_sorted [of "rate_step (length ?r)" ?r 0] by (auto simp: sorted_map intro: to_long_mono elim: sorted_wrt_mono_rel [rotated])
  have sub: "set ?p \<subseteq> to_long ` set (sd_rates d)"
    using decimate_subset [of "rate_step (length ?r)" ?r 0] by auto
  have top: "to_long x \<le> to_long (last ?r)" if "x \<in> set (sd_rates d)" for x
    using that sorted_map_last_ge [of "\<lambda>x. x" ?r x] by (intro to_long_mono) simp
  have pm: "y \<le> last ?p" if "y \<in> set ?p" for y
    using that sp sorted_map_last_ge [of "\<lambda>x. x" ?p y] by simp
  have lastmem: "last ?r \<in> set (sd_rates d)" using last_in_set [OF ne] by simp
  show ?thesis
  proof (cases "to_long (last ?r) > last ?p")
    case True
    then show ?thesis using rs sp sub p len top pm lastmem by (auto simp: sorted_append dest: pm)
  next
    case False
    then show ?thesis using rs sp sub p len top by (auto dest: top)
  qed
qed

section \<open>Properties\<close>

text \<open>
  \<open>nearestSampleRate\<close> is optimal: for a tuner with at least one rate (within the range of
  \<open>long\<close>) it returns one of the supported rates, no other is closer to the one desired; and
  only for a tuner with no rates it returns -1.
\<close>

theorem nearestSampleRate_optimal:
  assumes "\<forall>r\<in>set rates. \<bar>desired - r\<bar> < LONG_MAX"
  shows "if rates = [] then nearestSampleRate desired rates = -1
    else nearestSampleRate desired rates \<in> set rates \<and>
      (\<forall>r\<in>set rates. \<bar>desired - nearestSampleRate desired rates\<bar> \<le> \<bar>desired - r\<bar>)"
proof (cases rates)
  case (Cons a as)
  then have "\<not> (\<forall>x\<in>set rates. LONG_MAX \<le> \<bar>desired - x\<bar>)" using assms by fastforce
  with Cons near_loop_best [of desired rates LONG_MAX "-1", OF refl] show ?thesis
    by (auto simp: nearestSampleRate_def)
qed (simp add: nearestSampleRate_def)

theorem nearestSampleRate_optimal_witness:
  "nearestSampleRate 2048000 [250000, 1024000, 2400000] \<in> {250000, 1024000, 2400000} \<and>
   \<bar>2048000 - nearestSampleRate 2048000 [250000, 1024000, 2400000]\<bar> \<le> 352000"
  using nearestSampleRate_optimal [of "[250000, 1024000, 2400000]" 2048000] by (simp add: LONG_MAX_def)

text \<open>
  The list of rates offered for a device is in increasing order, every one of them is a rate
  of the device, the largest one is always among them, and however many the device has the
  list has at most 50 of them.
\<close>

theorem getSampleRates_offer:
  assumes "getSampleRates d = Inr rs"
  shows "sorted rs \<and> set rs \<subseteq> to_long ` set (sd_rates d) \<and> length rs \<le> 50 \<and>
    last rs \<in> to_long ` set (sd_rates d) \<and> (\<forall>x\<in>set (sd_rates d). to_long x \<le> last rs)"
  using getSampleRates_cases [OF assms] by (auto dest: last_in_set)

theorem getSampleRates_offer_witness:
  "\<exists>rs. getSampleRates \<lparr>sd_name = ''rtl'', sd_driver = ''rtlsdr'', sd_available = True, sd_opens = True,
     sd_rates = [2400000, 250000]\<rparr> = Inr rs \<and> sorted rs \<and> last rs = 2400000"
proof -
  let ?d = "\<lparr>sd_name = ''rtl'', sd_driver = ''rtlsdr'', sd_available = True, sd_opens = True,
     sd_rates = [2400000, 250000]\<rparr> :: sdr_device"
  have "getSampleRates ?d = Inr [250000, 2400000]"
    by (simp add: getSampleRates_def Let_def decimate.simps rate_step_def DEVICE_SAMPLE_RATES_MAX_NB_def to_long_def)
  with getSampleRates_offer [OF this] show ?thesis by simp
qed

lemma find_tuner_first:
  assumes "find_tuner devs ts = Some (t, d)"
  shows "\<exists>ps qs. ts = ps @ t # qs \<and> map_of devs (tc_descriptor t) = Some d \<and> sd_available d \<and>
    (\<forall>p\<in>set ps. \<forall>d'. map_of devs (tc_descriptor p) = Some d' \<longrightarrow> \<not> sd_available d')"
  using assms
proof (induction ts)
  case (Cons x ts)
  show ?case
  proof (cases "\<exists>dx. map_of devs (tc_descriptor x) = Some dx \<and> sd_available dx")
    case True
    with Cons.prems have "t = x" "map_of devs (tc_descriptor x) = Some d" "sd_available d" by auto
    then show ?thesis by (intro exI [of _ "[]"] exI [of _ ts]) simp
  next
    case False
    then have "find_tuner devs ts = Some (t, d)" using Cons.prems by (auto split: option.splits if_splits)
    from Cons.IH [OF this] obtain ps qs where "ts = ps @ t # qs" "map_of devs (tc_descriptor t) = Some d" "sd_available d"
      "\<forall>p\<in>set ps. \<forall>d'. map_of devs (tc_descriptor p) = Some d' \<longrightarrow> \<not> sd_available d'" by blast
    with False show ?thesis by (intro exI [of _ "x # ps"] exI [of _ qs]) auto
  qed
qed simp

text \<open>
  When a configured tuner is plugged in and free, \<open>autoSelectTuner\<close> selects the one of least
  rank among them, leaves the saved list alone, and sets the rate of that device which is
  nearest to the configured one.
\<close>

theorem autoSelectTuner_least_rank:
  assumes "ranked tuners" "find_tuner (tm_devs m) tuners = Some (t, d)"
    and "autoSelectTuner begin_of tuners m = Inr (ok, tuners', m')"
  shows "ok \<and> tuners' = tuners \<and> tm_device m' = Some d \<and> sd_available d \<and>
    tc_descriptor (tm_config m') = tc_descriptor t \<and>
    (\<forall>u\<in>set tuners. tc_rank u < tc_rank t \<longrightarrow>
       (\<forall>d'. map_of (tm_devs m) (tc_descriptor u) = Some d' \<longrightarrow> \<not> sd_available d')) \<and>
    (\<exists>rates. getSampleRates d = Inr rates \<and>
       tc_sampleRate (tm_config m') = nearestSampleRate (tc_sampleRate t) rates)"
proof -
  obtain ps qs where f: "tuners = ps @ t # qs" "map_of (tm_devs m) (tc_descriptor t) = Some d" "sd_available d"
    "\<forall>p\<in>set ps. \<forall>d'. map_of (tm_devs m) (tc_descriptor p) = Some d' \<longrightarrow> \<not> sd_available d'"
    using find_tuner_first [OF assms(2)] by blast
  have "tm_devs m \<noteq> []" "tuners \<noteq> []" using f by auto
  with assms(2,3) obtain rates where r: "getSampleRates d = Inr rates" "ok" "tuners' = tuners"
    "m' = m\<lparr>tm_device := Some d, tm_config := t\<lparr>tc_sampleRate := nearestSampleRate (tc_sampleRate t) rates\<rparr>\<rparr>"
    by (auto simp: autoSelectTuner_def bind_result_Inr_iff)
  have "u \<in> set ps" if "u \<in> set tuners" "tc_rank u < tc_rank t" for u
    using that assms(1) f(1) by (auto simp: ranked_def sorted_wrt_append)
  with f r show ?thesis by auto
qed

definition demo_device :: sdr_device where
  "demo_device = \<lparr>sd_name = ''rtl'', sd_driver = ''rtlsdr'', sd_available = True, sd_opens = True, sd_rates = [2400000, 250000]\<rparr>"

lemma demo_rates [simp]: "getSampleRates demo_device = Inr [250000, 2400000]"
  by (simp add: getSampleRates_def Let_def decimate.simps rate_step_def DEVICE_SAMPLE_RATES_MAX_NB_def to_long_def
      demo_device_def)

theorem autoSelectTuner_least_rank_witness:
  "\<exists>m'. autoSelectTuner hd [TunerConfig_init\<lparr>tc_descriptor := ''rtl''\<rparr>] (TunerManager_init\<lparr>tm_devs := [(''rtl'', demo_device)]\<rparr>) =
     Inr (True, [TunerConfig_init\<lparr>tc_descriptor := ''rtl''\<rparr>], m') \<and> tm_device m' = Some demo_device"
proof -
  let ?t = "TunerConfig_init\<lparr>tc_descriptor := ''rtl''\<rparr>" and ?m = "TunerManager_init\<lparr>tm_devs := [(''rtl'', demo_device)]\<rparr>"
  have f: "find_tuner (tm_devs ?m) [?t] = Some (?t, demo_device)" by (simp add: demo_device_def)
  then have "\<exists>m'. autoSelectTuner hd [?t] ?m = Inr (True, [?t], m')" by (simp add: autoSelectTuner_def)
  then obtain m' where m': "autoSelectTuner hd [?t] ?m = Inr (True, [?t], m')" by blast
  from autoSelectTuner_least_rank [OF _ f m'] m' show ?thesis by (auto simp: ranked_def)
qed

text \<open>
  A tuner that is found for the first time is not always remembered: it is saved with the
  number of known tuners as its rank, and when a known tuner has that rank already, the set
  drops the new one without a word.
\<close>

theorem new_tuner_dropped:
  assumes "ranked tuners" "tuners \<noteq> []" "find_tuner (tm_devs m) tuners = None"
    and "t \<in> set tuners" "tc_rank t = int (length tuners)"
    and "autoSelectTuner begin_of tuners m = Inr (ok, tuners', m')" "tm_devs m \<noteq> []"
  shows "ok \<and> tuners' = tuners"
proof -
  have d: "tuner_insert c tuners = tuners" if "tc_rank c = int (length tuners)" for c
    using tuner_insert_dup [OF assms(4)] assms(1,5) that by simp
  show ?thesis
    using assms(2,3,6,7) d
    by (auto simp: autoSelectTuner_def select_new_def selectFirstAvailableDevice_def bind_result_Inr_iff Let_def
        split: option.splits)
qed

theorem new_tuner_dropped_witness:
  "\<exists>m'. autoSelectTuner hd [TunerConfig_init\<lparr>tc_rank := 1\<rparr>] (TunerManager_init\<lparr>tm_devs := [(''rtl'', demo_device)]\<rparr>) =
     Inr (True, [TunerConfig_init\<lparr>tc_rank := 1\<rparr>], m')"
proof -
  let ?t = "TunerConfig_init\<lparr>tc_rank := 1\<rparr>" and ?m = "TunerManager_init\<lparr>tm_devs := [(''rtl'', demo_device)]\<rparr>"
  have f: "find_tuner (tm_devs ?m) [?t] = None" by (simp add: TunerConfig_init_def)
  have "\<exists>ts m'. autoSelectTuner hd [?t] ?m = Inr (True, ts, m')"
    by (simp add: autoSelectTuner_def select_new_def selectFirstAvailableDevice_def Let_def TunerConfig_init_def)
  then obtain ts m' where m': "autoSelectTuner hd [?t] ?m = Inr (True, ts, m')" by blast
  from new_tuner_dropped [OF _ _ f _ _ m', of ?t] m' show ?thesis by (auto simp: ranked_def)
qed

section \<open>The tuned window\<close>

text \<open>A channel is in the window when retuning is not needed for it (\<open>Demodulator::setFrequency\<close>).\<close>

definition in_window :: "int \<Rightarrow> cubic_sdr \<Rightarrow> bool" where
  "in_window f c \<longleftrightarrow> \<bar>cu_frequency c - f\<bar> < cdiv (cu_sampleRate c) 2"

lemma cubic_setFrequency_fields [simp]:
  "cu_sampleRate (cubic_setFrequency f c) = cu_sampleRate c"
  "cu_frequency (cubic_setFrequency f c) = (if f < cdiv (cu_sampleRate c) 2 then cdiv (cu_sampleRate c) 2 else f)"
  "th_device (cu_thread (cubic_setFrequency f c)) = th_device (cu_thread c)"
  by (simp_all add: cubic_setFrequency_def update_thread_def thread_setFrequency_def Let_def)

lemma cubic_setSampleRate_fields [simp]:
  "cu_sampleRate (cubic_setSampleRate r c) = r"
  by (auto simp: cubic_setSampleRate_def update_config_def update_thread_def Let_def split: option.splits)

lemma cubic_setSampleRate_freq:
  "cdiv r 2 \<le> cu_frequency (cubic_setSampleRate r c)"
  by (auto simp: cubic_setSampleRate_def update_config_def update_thread_def Let_def split: option.splits)

lemma cubic_tune_in_window:
  assumes "2 \<le> cu_sampleRate c" "0 < f"
  shows "in_window f (cubic_setFrequency f c)"
  using assms by (auto simp: in_window_def cdiv_nonneg)

end
