(* ===== verification/Demod_Mgr.thy ===== *)
theory Demod_Mgr
  imports Std_Strings Complex_Main
begin

text \<open>
  The modems of the signal chain: \<open>DemodulatorInstance\<close>
  (src/src/cubic/demod/DemodulatorInstance.cpp, with the settings it forwards to its
  \<open>DemodulatorPreThread\<close> and \<open>DemodulatorThread\<close>) and the manager that owns them,
  \<open>DemodulatorMgr\<close> (src/src/cubic/demod/DemodulatorMgr.cpp).

  Instances are shared by pointer, so the manager's record holds a store of instances and
  every \<open>DemodulatorInstancePtr\<close> is an address in it. What the chain measures (signal level
  and floor) comes from outside and is a parameter of the demodulator's model.
\<close>

section \<open>Instances\<close>

record demod_instance =
  di_label :: string
  di_userLabel :: string
  di_active :: bool
  di_tracking :: bool
  di_terminated :: bool
  di_squelch :: bool
  di_squelchLevel :: rat
  di_muted :: bool
  di_type :: string
  di_frequency :: int
  di_bandwidth :: int
  di_gain :: rat
  di_deltaLock :: bool
  di_deltaLockOfs :: int
  di_lock :: int
  di_outputDevice :: int
  di_audioSampleRate :: int
  di_settings :: "(string \<times> string) list"
  di_lastBandwidth :: "string \<rightharpoonup> int"

definition DemodulatorInstance_init :: demod_instance where
  "DemodulatorInstance_init = \<lparr>di_label = ''Unnamed'', di_userLabel = '''', di_active = False,
     di_tracking = False, di_terminated = False, di_squelch = False, di_squelchLevel = -100,
     di_muted = False, di_type = '''', di_frequency = 0, di_bandwidth = 0, di_gain = 1,
     di_deltaLock = False, di_deltaLockOfs = 0, di_lock = 0, di_outputDevice = -1,
     di_audioSampleRate = 0, di_settings = [], di_lastBandwidth = Map.empty\<rparr>"

text \<open>The default rates the modem factories are registered with (\<open>CubicSDR::OnInit\<close>); others have 0.\<close>

definition modem_default_rate :: "string \<Rightarrow> int" where
  "modem_default_rate ty =
     (if ty = ''FM'' then 200000 else if ty = ''NBFM'' then 12500 else if ty = ''FMS'' then 200000
      else if ty = ''AM'' then 6000 else if ty = ''LSB'' then 5400 else if ty = ''USB'' then 5400
      else if ty = ''DSB'' then 5400 else if ty = ''I/Q'' then 48000 else 0)"

definition inst_run :: "demod_instance \<Rightarrow> demod_instance" where
  "inst_run d = (if di_active d then d else d\<lparr>di_active := True\<rparr>)"

definition inst_setActive :: "bool \<Rightarrow> demod_instance \<Rightarrow> demod_instance" where
  "inst_setActive st d = d\<lparr>di_tracking := di_tracking d \<and> st, di_active := st\<rparr>"

definition inst_terminate :: "demod_instance \<Rightarrow> demod_instance" where
  "inst_terminate d = d\<lparr>di_terminated := True\<rparr>"

definition inst_setFrequency :: "int \<Rightarrow> demod_instance \<Rightarrow> demod_instance" where
  "inst_setFrequency freq d =
     d\<lparr>di_frequency := (if freq - cdiv (di_bandwidth d) 2 \<le> 0 then cdiv (di_bandwidth d) 2 else freq)\<rparr>"

definition inst_setBandwidth :: "int \<Rightarrow> demod_instance \<Rightarrow> demod_instance" where
  "inst_setBandwidth bw d = d\<lparr>di_bandwidth := bw\<rparr>"

text \<open>Changing the type keeps the bandwidth of the old one for when it comes back.\<close>

definition inst_setDemodulatorType :: "string \<Rightarrow> demod_instance \<Rightarrow> demod_instance" where
  "inst_setDemodulatorType ty d =
     (let old = di_type d;
          last = (if old \<noteq> '''' \<and> old \<noteq> ty then (di_lastBandwidth d)(old \<mapsto> di_bandwidth d) else di_lastBandwidth d);
          bw0 = (if old \<noteq> '''' then (case last ty of None \<Rightarrow> 0 | Some b \<Rightarrow> b) else 0);
          bw = (if bw0 = 0 then modem_default_rate ty else bw0);
          d1 = d\<lparr>di_lastBandwidth := last, di_type := ty\<rparr>
      in if bw \<noteq> 0 then inst_setBandwidth bw d1 else d1)"

definition inst_setGain :: "rat \<Rightarrow> demod_instance \<Rightarrow> demod_instance" where
  "inst_setGain g d = d\<lparr>di_gain := g\<rparr>"

definition inst_setLabel :: "string \<Rightarrow> demod_instance \<Rightarrow> demod_instance" where
  "inst_setLabel l d = d\<lparr>di_label := l\<rparr>"

text \<open>\<open>rates\<close> is \<open>AudioThread::deviceSampleRate\<close>; an unknown device has rate 0.\<close>

definition inst_setOutputDevice :: "(int \<rightharpoonup> int) \<Rightarrow> int \<Rightarrow> demod_instance \<Rightarrow> demod_instance" where
  "inst_setOutputDevice rates dev d =
     d\<lparr>di_audioSampleRate := (case rates dev of None \<Rightarrow> 0 | Some r \<Rightarrow> r), di_outputDevice := dev\<rparr>"

definition inst_isSquelchEnabled :: "demod_instance \<Rightarrow> bool" where
  "inst_isSquelchEnabled d \<longleftrightarrow> di_squelchLevel d \<noteq> 0"

section \<open>The manager\<close>

record demod_mgr =
  dg_store :: "demod_instance list"
  dg_demods :: "nat list"
  dg_active :: "nat option"
  dg_current :: "nat option"
  dg_lastBandwidth :: int
  dg_lastType :: string
  dg_lastLock :: bool
  dg_lastSquelchEnabled :: bool
  dg_lastSquelch :: rat
  dg_lastGain :: rat
  dg_lastMuted :: bool
  dg_lastDeltaLock :: bool
  dg_lastSettings :: "string \<rightharpoonup> (string \<times> string) list"

definition DemodulatorMgr_init :: demod_mgr where
  "DemodulatorMgr_init = \<lparr>dg_store = [], dg_demods = [], dg_active = None, dg_current = None,
     dg_lastBandwidth = 200000, dg_lastType = ''FM'', dg_lastLock = False, dg_lastSquelchEnabled = False,
     dg_lastSquelch = -100, dg_lastGain = 1, dg_lastMuted = False, dg_lastDeltaLock = False,
     dg_lastSettings = Map.empty\<rparr>"

definition on_inst :: "nat \<Rightarrow> (demod_instance \<Rightarrow> demod_instance) \<Rightarrow> demod_mgr \<Rightarrow> demod_mgr" where
  "on_inst p f g = g\<lparr>dg_store := (dg_store g)[p := f (dg_store g ! p)]\<rparr>"

text \<open>Two setters of an instance also tell the manager.\<close>

definition inst_setSquelchLevel :: "nat \<Rightarrow> rat \<Rightarrow> demod_mgr \<Rightarrow> demod_mgr" where
  "inst_setSquelchLevel p level g =
     (on_inst p (\<lambda>d. d\<lparr>di_squelchLevel := level\<rparr>) g)\<lparr>dg_lastSquelch := level, dg_lastSquelchEnabled := True\<rparr>"

definition inst_setMuted :: "nat \<Rightarrow> bool \<Rightarrow> demod_mgr \<Rightarrow> demod_mgr" where
  "inst_setMuted p m g = (on_inst p (\<lambda>d. d\<lparr>di_muted := m\<rparr>) g)\<lparr>dg_lastMuted := m\<rparr>"

definition newThread :: "demod_mgr \<Rightarrow> nat \<times> demod_mgr" where
  "newThread g =
     (let p = length (dg_store g);
          d = inst_setLabel (to_string (int (length (dg_demods g)))) DemodulatorInstance_init
      in (p, g\<lparr>dg_store := dg_store g @ [d], dg_demods := dg_demods g @ [p]\<rparr>))"

definition deleteThread :: "nat \<Rightarrow> demod_mgr \<Rightarrow> demod_mgr" where
  "deleteThread p g =
     on_inst p (inst_terminate \<circ> inst_setActive False)
       (g\<lparr>dg_active := (if dg_active g = Some p then None else dg_active g),
          dg_current := (if dg_current g = Some p then None else dg_current g),
          dg_demods := remove1 p (dg_demods g)\<rparr>)"

function terminateAll :: "demod_mgr \<Rightarrow> demod_mgr" where
  "terminateAll g =
     (if dg_demods g = [] then g
      else terminateAll (deleteThread (last (dg_demods g)) (g\<lparr>dg_demods := butlast (dg_demods g)\<rparr>)))"
  by pat_completeness auto
termination
proof (relation "measure (\<lambda>g. length (dg_demods g))")
  fix g :: demod_mgr assume "dg_demods g \<noteq> []"
  moreover have "length (remove1 (last (dg_demods g)) (butlast (dg_demods g))) \<le> length (butlast (dg_demods g))"
    by (cases "last (dg_demods g) \<in> set (butlast (dg_demods g))") (simp_all add: length_remove1 del: length_butlast)
  moreover have "length (dg_demods g) > 0" using calculation(1) by simp
  ultimately have "length (remove1 (last (dg_demods g)) (butlast (dg_demods g))) < length (dg_demods g)"
    unfolding length_butlast by linarith
  then show "(deleteThread (last (dg_demods g)) (g\<lparr>dg_demods := butlast (dg_demods g)\<rparr>), g) \<in>
      measure (\<lambda>g. length (dg_demods g))"
    by (simp add: deleteThread_def on_inst_def)
qed simp

declare terminateAll.simps [simp del]

definition updateLastState :: "demod_mgr \<Rightarrow> demod_mgr" where
  "updateLastState g =
     (let known = (case dg_current g of None \<Rightarrow> False | Some p \<Rightarrow> p \<in> set (dg_demods g));
          g1 = (if known then g
                else case dg_active g of
                       None \<Rightarrow> g
                     | Some a \<Rightarrow> if di_active (dg_store g ! a) then g\<lparr>dg_current := Some a\<rparr>
                                 else g\<lparr>dg_active := None, dg_current := None\<rparr>);
          g2 = (case dg_current g1 of
                  None \<Rightarrow> g1
                | Some p \<Rightarrow> if di_active (dg_store g1 ! p) then g1 else g1\<lparr>dg_current := None\<rparr>)
      in case dg_current g2 of
           None \<Rightarrow> g2
         | Some p \<Rightarrow>
             let d = dg_store g2 ! p
             in g2\<lparr>dg_lastBandwidth := di_bandwidth d, dg_lastType := di_type d, dg_lastLock := di_lock d \<noteq> 0,
                   dg_lastSquelchEnabled := inst_isSquelchEnabled d, dg_lastSquelch := di_squelchLevel d,
                   dg_lastGain := di_gain d, dg_lastSettings := (dg_lastSettings g2)(di_type d \<mapsto> di_settings d)\<rparr>)"

definition setActiveDemodulator :: "nat option \<Rightarrow> bool \<Rightarrow> demod_mgr \<Rightarrow> demod_mgr" where
  "setActiveDemodulator demod temporary g =
     (let g1 = (if temporary then g
                else updateLastState
                       (if dg_active g \<noteq> None then updateLastState (g\<lparr>dg_current := dg_active g\<rparr>)
                        else g\<lparr>dg_current := demod\<rparr>))
      in g1\<lparr>dg_active := demod\<rparr>)"

definition setActiveDemodulatorByRawPointer :: "nat \<Rightarrow> bool \<Rightarrow> demod_mgr \<Rightarrow> demod_mgr" where
  "setActiveDemodulatorByRawPointer p temporary g =
     (if p \<in> set (dg_demods g) then setActiveDemodulator (Some p) temporary g else g)"

definition getCurrentModem :: "demod_mgr \<Rightarrow> nat option" where
  "getCurrentModem g = dg_current g"

definition getActiveContextModem :: "demod_mgr \<Rightarrow> nat option \<times> demod_mgr" where
  "getActiveContextModem g =
     (let g1 = (case dg_active g of
          None \<Rightarrow> g
        | Some p \<Rightarrow> if di_active (dg_store g ! p) then g else g\<lparr>dg_active := getCurrentModem g\<rparr>)
      in (dg_active g1, g1))"

definition setLastBandwidth :: "int \<Rightarrow> int \<Rightarrow> int \<Rightarrow> demod_mgr \<Rightarrow> demod_mgr" where
  "setLastBandwidth minBandwidth sampleRate bw g =
     g\<lparr>dg_lastBandwidth := (if bw < minBandwidth then minBandwidth else if bw > sampleRate then sampleRate else bw)\<rparr>"

text \<open>The window of a modem: sidebands extend to one side only.\<close>

definition demod_at :: "int \<Rightarrow> int \<Rightarrow> demod_instance \<Rightarrow> bool" where
  "demod_at freq bandwidth d \<longleftrightarrow>
     (let half = cdiv (di_bandwidth d) 2; buffer = cdiv bandwidth 2
      in freq \<le> di_frequency d + (if di_type d \<noteq> ''LSB'' then half else 0) + buffer \<and>
         freq \<ge> di_frequency d - (if di_type d \<noteq> ''USB'' then half else 0) - buffer)"

fun getDemodulatorsAt_loop :: "demod_instance list \<Rightarrow> int \<Rightarrow> int \<Rightarrow> nat list \<Rightarrow> nat list" where
  "getDemodulatorsAt_loop st freq bw [] = []"
| "getDemodulatorsAt_loop st freq bw (p # ps) =
     (if demod_at freq bw (st ! p) then p # getDemodulatorsAt_loop st freq bw ps
      else getDemodulatorsAt_loop st freq bw ps)"

definition getDemodulatorsAt :: "int \<Rightarrow> int \<Rightarrow> demod_mgr \<Rightarrow> nat list" where
  "getDemodulatorsAt freq bw g = getDemodulatorsAt_loop (dg_store g) freq bw (dg_demods g)"

fun anyDemodulatorsAt_loop :: "demod_instance list \<Rightarrow> int \<Rightarrow> int \<Rightarrow> nat list \<Rightarrow> bool" where
  "anyDemodulatorsAt_loop st freq bw [] = False"
| "anyDemodulatorsAt_loop st freq bw (p # ps) =
     (if demod_at freq bw (st ! p) then True else anyDemodulatorsAt_loop st freq bw ps)"

definition anyDemodulatorsAt :: "int \<Rightarrow> int \<Rightarrow> demod_mgr \<Rightarrow> bool" where
  "anyDemodulatorsAt freq bw g = anyDemodulatorsAt_loop (dg_store g) freq bw (dg_demods g)"

text \<open>
  The order by frequency. \<open>std::sort\<close> by activity is a parameter: it is not stable, so which
  of its orders it gives is unknown.
\<close>

definition getOrderedDemodulators :: "((nat \<Rightarrow> nat) \<Rightarrow> nat list \<Rightarrow> nat list) \<Rightarrow> bool \<Rightarrow> demod_mgr \<Rightarrow> nat list" where
  "getOrderedDemodulators std_sort actives g =
     (let act = (\<lambda>p. di_active (dg_store g ! p));
          ps = (if actives
                then dropWhile (\<lambda>p. \<not> act p) (std_sort (\<lambda>p. if act p then 1 else 0) (dg_demods g))
                else dg_demods g)
      in sort_key (\<lambda>p. di_frequency (dg_store g ! p)) ps)"

fun find_pos :: "nat \<Rightarrow> nat list \<Rightarrow> nat option" where
  "find_pos p [] = None"
| "find_pos p (x # xs) = (if x = p then Some 0 else (case find_pos p xs of None \<Rightarrow> None | Some i \<Rightarrow> Some (Suc i)))"

definition getPreviousDemodulator ::
    "((nat \<Rightarrow> nat) \<Rightarrow> nat list \<Rightarrow> nat list) \<Rightarrow> nat \<Rightarrow> bool \<Rightarrow> demod_mgr \<Rightarrow> nat option" where
  "getPreviousDemodulator std_sort demod actives g =
     (if getCurrentModem g = None then None
      else let ps = getOrderedDemodulators std_sort actives g
           in case find_pos demod ps of
                None \<Rightarrow> None
              | Some i \<Rightarrow> if ps ! i = hd ps then Some (last ps) else Some (ps ! (i - 1)))"

definition getNextDemodulator ::
    "((nat \<Rightarrow> nat) \<Rightarrow> nat list \<Rightarrow> nat list) \<Rightarrow> nat \<Rightarrow> bool \<Rightarrow> demod_mgr \<Rightarrow> nat option" where
  "getNextDemodulator std_sort demod actives g =
     (if getCurrentModem g = None then None
      else let ps = getOrderedDemodulators std_sort actives g
           in case find_pos demod ps of
                None \<Rightarrow> None
              | Some i \<Rightarrow> if ps ! i = last ps then Some (hd ps) else Some (ps ! (i + 1)))"

definition getLastDemodulatorWith :: "string \<Rightarrow> string \<Rightarrow> int \<Rightarrow> int \<Rightarrow> demod_mgr \<Rightarrow> nat option" where
  "getLastDemodulatorWith ty userLabel freq bw g =
     List.find (\<lambda>p. let d = dg_store g ! p in di_type d = ty \<and> di_userLabel d = userLabel \<and>
        di_frequency d = freq \<and> di_bandwidth d = bw) (rev (dg_demods g))"

section \<open>Well-formed managers\<close>

text \<open>Every pointer is an address of the store, and the list of modems has no duplicates.\<close>

definition mgr_ok :: "demod_mgr \<Rightarrow> bool" where
  "mgr_ok g \<longleftrightarrow> distinct (dg_demods g) \<and> (\<forall>p\<in>set (dg_demods g). p < length (dg_store g)) \<and>
     (\<forall>p. dg_active g = Some p \<or> dg_current g = Some p \<longrightarrow> p < length (dg_store g))"

lemma on_inst_fields [simp]:
  "dg_demods (on_inst p f g) = dg_demods g" "dg_active (on_inst p f g) = dg_active g"
  "dg_current (on_inst p f g) = dg_current g" "length (dg_store (on_inst p f g)) = length (dg_store g)"
  by (simp_all add: on_inst_def)

lemma on_inst_nth:
  "p < length (dg_store g) \<Longrightarrow> dg_store (on_inst p f g) ! q = (if q = p then f (dg_store g ! p) else dg_store g ! q)"
  by (simp add: on_inst_def nth_list_update)

lemma on_inst_other: "q \<noteq> p \<Longrightarrow> dg_store (on_inst p f g) ! q = dg_store g ! q"
  by (simp add: on_inst_def)

lemma mgr_ok_on_inst [simp]: "mgr_ok (on_inst p f g) = mgr_ok g"
  by (simp add: mgr_ok_def)

lemma newThread_ok: "mgr_ok g \<Longrightarrow> newThread g = (p, g') \<Longrightarrow> mgr_ok g' \<and> p < length (dg_store g')"
  by (force simp: newThread_def mgr_ok_def Let_def)

lemma deleteThread_ok: "mgr_ok g \<Longrightarrow> mgr_ok (deleteThread p g)"
  by (auto simp: deleteThread_def mgr_ok_def dest: set_remove1_subset [THEN subsetD])

lemma updateLastState_fields [simp]:
  "dg_store (updateLastState g) = dg_store g" "dg_demods (updateLastState g) = dg_demods g"
  by (auto simp: updateLastState_def Let_def split: option.splits)

lemma updateLastState_ok: "mgr_ok g \<Longrightarrow> mgr_ok (updateLastState g)"
  by (auto simp: updateLastState_def Let_def mgr_ok_def split: option.splits)

lemma setActiveDemodulator_ok:
  "mgr_ok g \<Longrightarrow> \<forall>p. demod = Some p \<longrightarrow> p < length (dg_store g) \<Longrightarrow> mgr_ok (setActiveDemodulator demod t g)"
proof -
  assume ok: "mgr_ok g" and p: "\<forall>p. demod = Some p \<longrightarrow> p < length (dg_store g)"
  have "mgr_ok (g\<lparr>dg_current := dg_active g\<rparr>)" "mgr_ok (g\<lparr>dg_current := demod\<rparr>)"
    using ok p by (auto simp: mgr_ok_def)
  then have "mgr_ok (if t then g else updateLastState
      (if dg_active g \<noteq> None then updateLastState (g\<lparr>dg_current := dg_active g\<rparr>) else g\<lparr>dg_current := demod\<rparr>))"
    using ok by (auto intro: updateLastState_ok)
  moreover have "dg_store (if t then g else updateLastState
      (if dg_active g \<noteq> None then updateLastState (g\<lparr>dg_current := dg_active g\<rparr>) else g\<lparr>dg_current := demod\<rparr>)) = dg_store g"
    by simp
  ultimately show ?thesis using p by (auto simp: setActiveDemodulator_def Let_def mgr_ok_def)
qed

lemma getActiveContextModem_ok: "mgr_ok g \<Longrightarrow> mgr_ok (snd (getActiveContextModem g))"
  by (auto simp: getActiveContextModem_def getCurrentModem_def Let_def mgr_ok_def split: option.splits)

lemma find_pos_Some: "find_pos p xs = Some i \<Longrightarrow> i < length xs \<and> xs ! i = p"
  by (induction xs arbitrary: i) (auto split: if_splits option.splits)

lemma find_pos_nth: "distinct xs \<Longrightarrow> i < length xs \<Longrightarrow> find_pos (xs ! i) xs = Some i"
proof (induction xs arbitrary: i)
  case (Cons x xs)
  then show ?case by (cases i) auto
qed simp

text \<open>
  Switching from the active modem \<open>a\<close> to another one: the current modem becomes \<open>a\<close>, the
  modem that is being left.
\<close>

lemma setActiveDemodulator_lags:
  assumes "dg_active g = Some a" "a \<in> set (dg_demods g)" "di_active (dg_store g ! a)"
  shows "dg_current (setActiveDemodulator demod False g) = Some a \<and>
    dg_active (setActiveDemodulator demod False g) = demod \<and>
    dg_store (setActiveDemodulator demod False g) = dg_store g \<and>
    dg_demods (setActiveDemodulator demod False g) = dg_demods g"
  using assms by (auto simp: setActiveDemodulator_def updateLastState_def Let_def)

section \<open>Properties\<close>

text \<open>
  \<open>anyDemodulatorsAt\<close> is the quick version of \<open>getDemodulatorsAt\<close>: it answers yes exactly
  when the list of modems at the frequency is not empty, and that list holds exactly the
  managed modems whose window (one-sided for LSB and USB, widened by half of the bandwidth
  asked about) covers the frequency, in the manager's order.
\<close>

theorem demodulators_at_agree:
  "(anyDemodulatorsAt freq bw g \<longleftrightarrow> getDemodulatorsAt freq bw g \<noteq> []) \<and>
   getDemodulatorsAt freq bw g = filter (\<lambda>p. demod_at freq bw (dg_store g ! p)) (dg_demods g)"
proof -
  have "getDemodulatorsAt_loop st freq bw ps = filter (\<lambda>p. demod_at freq bw (st ! p)) ps" for st ps
    by (induction ps) simp_all
  moreover have "anyDemodulatorsAt_loop st freq bw ps \<longleftrightarrow> (\<exists>p\<in>set ps. demod_at freq bw (st ! p))" for st ps
    by (induction ps) auto
  ultimately show ?thesis by (auto simp: getDemodulatorsAt_def anyDemodulatorsAt_def filter_empty_conv)
qed

text \<open>
  Stepping through the modems in frequency order is a cycle: for any modem of the order,
  the next one's previous one is the modem itself, at the ends of the order as well, whatever
  order the unstable sort by activity leaves.
\<close>

theorem next_previous_cycle:
  assumes "distinct (getOrderedDemodulators std_sort actives g)" "dg_current g \<noteq> None"
    and "d \<in> set (getOrderedDemodulators std_sort actives g)"
  shows "\<exists>n. getNextDemodulator std_sort d actives g = Some n \<and>
    getPreviousDemodulator std_sort n actives g = Some d"
proof -
  let ?ps = "getOrderedDemodulators std_sort actives g"
  obtain i where i: "i < length ?ps" "?ps ! i = d" using assms(3) by (auto simp: in_set_conv_nth)
  then have pos: "find_pos d ?ps = Some i" using find_pos_nth [OF assms(1) i(1)] by simp
  have ne: "?ps \<noteq> []" using assms(3) by auto
  have hd0: "hd ?ps = ?ps ! 0" and lst: "last ?ps = ?ps ! (length ?ps - 1)"
    using ne by (simp_all add: hd_conv_nth last_conv_nth)
  show ?thesis
  proof (cases "i = length ?ps - 1")
    case True
    then have "getNextDemodulator std_sort d actives g = Some (hd ?ps)"
      using pos lst i assms(2) by (simp add: getNextDemodulator_def getCurrentModem_def Let_def)
    moreover have "find_pos (hd ?ps) ?ps = Some 0" using find_pos_nth [OF assms(1), of 0] ne hd0 by simp
    then have "getPreviousDemodulator std_sort (hd ?ps) actives g = Some (last ?ps)"
      using hd0 assms(2) by (simp add: getPreviousDemodulator_def getCurrentModem_def Let_def)
    ultimately show ?thesis using lst True i by auto
  next
    case False
    then have lt: "i + 1 < length ?ps" using i by simp
    have "?ps ! i \<noteq> last ?ps" using lst i(1) False lt assms(1) by (simp add: nth_eq_iff_index_eq)
    then have "getNextDemodulator std_sort d actives g = Some (?ps ! (i + 1))"
      using pos assms(2) by (simp add: getNextDemodulator_def getCurrentModem_def Let_def)
    moreover have "?ps ! (i + 1) \<noteq> hd ?ps"
      using hd0 lt assms(1) ne by (simp add: nth_eq_iff_index_eq del: length_greater_0_conv)
    then have "getPreviousDemodulator std_sort (?ps ! (i + 1)) actives g = Some (?ps ! i)"
      using find_pos_nth [OF assms(1) lt] assms(2) by (simp add: getPreviousDemodulator_def getCurrentModem_def Let_def)
    ultimately show ?thesis using i by auto
  qed
qed

theorem next_previous_cycle_witness:
  "let g = DemodulatorMgr_init\<lparr>dg_store := [DemodulatorInstance_init\<lparr>di_frequency := 7\<rparr>, DemodulatorInstance_init],
       dg_demods := [0, 1], dg_current := Some 0\<rparr>
   in \<exists>n. getNextDemodulator (\<lambda>k xs. xs) 0 False g = Some n \<and> getPreviousDemodulator (\<lambda>k xs. xs) n False g = Some 0"
proof -
  let ?g = "DemodulatorMgr_init\<lparr>dg_store := [DemodulatorInstance_init\<lparr>di_frequency := 7\<rparr>, DemodulatorInstance_init],
       dg_demods := [0, 1], dg_current := Some 0\<rparr>"
  have "getOrderedDemodulators (\<lambda>k xs. xs) False ?g = [1, 0]"
    by (simp add: getOrderedDemodulators_def Let_def DemodulatorInstance_init_def)
  then show ?thesis
    using next_previous_cycle [of "\<lambda>k xs. xs" False ?g 0] by (simp add: Let_def)
qed

text \<open>
  Terminating all modems empties the manager: no modem is left, every one that was managed
  has been deactivated and told to terminate, and no pointer to one of them remains as the
  current or the active modem.
\<close>

theorem terminateAll_clears:
  assumes "mgr_ok g"
  shows "dg_demods (terminateAll g) = [] \<and>
    (\<forall>p\<in>set (dg_demods g). \<not> di_active (dg_store (terminateAll g) ! p) \<and> di_terminated (dg_store (terminateAll g) ! p) \<and>
       dg_active (terminateAll g) \<noteq> Some p \<and> dg_current (terminateAll g) \<noteq> Some p)"
proof -
  have "mgr_ok g \<Longrightarrow> dg_demods (terminateAll g) = [] \<and> length (dg_store (terminateAll g)) = length (dg_store g) \<and>
      (\<forall>p<length (dg_store g). \<not> di_active (dg_store g ! p) \<and> di_terminated (dg_store g ! p) \<or> p \<in> set (dg_demods g) \<longrightarrow>
         \<not> di_active (dg_store (terminateAll g) ! p) \<and> di_terminated (dg_store (terminateAll g) ! p)) \<and>
      (\<forall>p. (dg_active g \<noteq> Some p \<or> p \<in> set (dg_demods g) \<longrightarrow> dg_active (terminateAll g) \<noteq> Some p) \<and>
           (dg_current g \<noteq> Some p \<or> p \<in> set (dg_demods g) \<longrightarrow> dg_current (terminateAll g) \<noteq> Some p))"
  proof (induction g rule: terminateAll.induct)
    case (1 g)
    show ?case
    proof (cases "dg_demods g = []")
      case True
      then show ?thesis by (simp add: terminateAll.simps [of g])
    next
      case False
      let ?l = "last (dg_demods g)" and ?g = "g\<lparr>dg_demods := butlast (dg_demods g)\<rparr>"
      have split: "dg_demods g = butlast (dg_demods g) @ [?l]" using False by simp
      have "distinct (butlast (dg_demods g) @ [?l])" using "1.prems" split by (simp add: mgr_ok_def)
      then have nl: "?l \<notin> set (butlast (dg_demods g))" by simp
      have lt: "?l < length (dg_store g)" using "1.prems" False by (simp add: mgr_ok_def)
      have ok: "mgr_ok ?g" using "1.prems" by (auto simp: mgr_ok_def distinct_butlast dest: in_set_butlastD)
      have IH: "mgr_ok (deleteThread ?l ?g)" by (rule deleteThread_ok [OF ok])
      have set: "set (dg_demods g) = insert ?l (set (butlast (dg_demods g)))" using split by (metis Un_insert_right list.simps(15) set_append sup_bot_right empty_set)
      have st: "dg_store (deleteThread ?l ?g) ! p = (if p = ?l then inst_terminate (inst_setActive False (dg_store g ! ?l)) else dg_store g ! p)" for p
        using lt by (simp add: deleteThread_def on_inst_def nth_list_update)
      have dm: "dg_demods (deleteThread ?l ?g) = butlast (dg_demods g)" using nl by (simp add: deleteThread_def remove1_idem)
      have ptr: "dg_active (deleteThread ?l ?g) = (if dg_active g = Some ?l then None else dg_active g)"
        "dg_current (deleteThread ?l ?g) = (if dg_current g = Some ?l then None else dg_current g)"
        "length (dg_store (deleteThread ?l ?g)) = length (dg_store g)"
        by (simp_all add: deleteThread_def)
      have eq: "terminateAll g = terminateAll (deleteThread ?l ?g)" using False by (simp add: terminateAll.simps [of g])
      show ?thesis
        using "1.IH" [OF False IH] unfolding eq set
        by (auto simp: st dm ptr inst_terminate_def inst_setActive_def split: if_splits)
    qed
  qed
  with assms show ?thesis by (auto simp: mgr_ok_def)
qed

theorem terminateAll_clears_witness:
  "let g = snd (newThread (snd (newThread DemodulatorMgr_init)))
   in dg_demods (terminateAll g) = [] \<and> di_terminated (dg_store (terminateAll g) ! 1)"
proof -
  let ?g = "snd (newThread (snd (newThread DemodulatorMgr_init)))"
  have "mgr_ok ?g" "1 \<in> set (dg_demods ?g)" by (simp_all add: newThread_def Let_def DemodulatorMgr_init_def mgr_ok_def less_Suc_eq)
  from terminateAll_clears [OF this(1)] this(2) show ?thesis by (simp add: Let_def)
qed

end
