(* ===== verification/Demodulator.thy ===== *)
theory Demodulator
  imports Entry Tuner Demod_Mgr State_Machine Context
begin

text \<open>
  \<open>Demodulator\<close> (src/src/sigproc/Demodulator.h, src/src/sigproc/Demodulator.cpp), the radio the
  scanner listens with: it tunes \<open>CubicSDR\<close>, switches between the NFM and the AM modem of the
  modem manager, and decides whether a channel has a signal.

  The signal that the chain measures comes from the air: \<open>dr_air n\<close> gives level and floor of a
  modem at the n-th measurement, for the tuner and the modem as they are set then. Every
  history of signals is such a function. The waiting times have no effect on the state.
\<close>

section \<open>Data\<close>

type_synonym air = "nat \<Rightarrow> cubic_sdr \<Rightarrow> demod_instance \<Rightarrow> rat \<times> rat"

record demodulator =
  dr_mode :: modulation
  dr_squelchLevel :: rat
  dr_currentFreq :: int
  dr_gain :: rat
  dr_cubic :: cubic_sdr
  dr_mgr :: demod_mgr
  dr_tuner :: tuner_manager
  dr_demods :: "modulation \<rightharpoonup> nat"
  dr_refresher :: bool
  dr_sync :: sync_flags
  dr_out :: "demod_context list"
  dr_air :: air
  dr_reads :: nat

definition Demodulator_init :: "cubic_sdr \<Rightarrow> air \<Rightarrow> demodulator" where
  "Demodulator_init c air = \<lparr>dr_mode = NFM, dr_squelchLevel = 0, dr_currentFreq = 0, dr_gain = 0,
     dr_cubic = c, dr_mgr = DemodulatorMgr_init, dr_tuner = TunerManager_init, dr_demods = Map.empty,
     dr_refresher = False, dr_sync = \<lparr>sy_ready = False, sy_stopped = False\<rparr>, dr_out = [],
     dr_air = air, dr_reads = 0\<rparr>"

definition INIT_FREQUENCY :: int where "INIT_FREQUENCY = 100000000"

section \<open>Tuning\<close>

text \<open>A call on \<open>getCurrentModem()\<close>, which may be null.\<close>

definition tune_current :: "int \<Rightarrow> demodulator \<Rightarrow> demodulator result" where
  "tune_current freq d =
     (case getCurrentModem (dr_mgr d) of
        None \<Rightarrow> Inl Null_Deref
      | Some p \<Rightarrow> Inr (d\<lparr>dr_mgr := on_inst p (inst_setFrequency freq) (dr_mgr d)\<rparr>))"

definition Demodulator_setFrequency :: "int \<Rightarrow> demodulator \<Rightarrow> (bool \<times> demodulator) result" where
  "Demodulator_setFrequency freq d =
     bind_result (tune_current freq d) (\<lambda>d1.
       let d2 = (if \<bar>cu_frequency (dr_cubic d1) - freq\<bar> \<ge> cdiv (cu_sampleRate (dr_cubic d1)) 2
                 then d1\<lparr>dr_cubic := cubic_setFrequency freq (dr_cubic d1)\<rparr> else d1)
       in bind_result (tune_current freq d2) (\<lambda>d3. Inr (True, d3\<lparr>dr_currentFreq := freq\<rparr>)))"

definition Demodulator_setTunerFrequency :: "int \<Rightarrow> demodulator \<Rightarrow> (bool \<times> demodulator) result" where
  "Demodulator_setTunerFrequency freq d =
     bind_result (tune_current freq (d\<lparr>dr_cubic := cubic_setFrequency freq (dr_cubic d)\<rparr>)) (\<lambda>d1. Inr (True, d1))"

section \<open>Measuring\<close>

definition measure_active :: "demodulator \<Rightarrow> ((rat \<times> rat) \<times> demodulator) result" where
  "measure_active d =
     (case getActiveContextModem (dr_mgr d) of
        (None, g) \<Rightarrow> Inl Null_Deref
      | (Some p, g) \<Rightarrow> Inr (dr_air d (dr_reads d) (dr_cubic d) (dg_store g ! p),
                          d\<lparr>dr_mgr := g, dr_reads := dr_reads d + 1\<rparr>))"

definition getSignalLevel :: "demodulator \<Rightarrow> (rat \<times> demodulator) result" where
  "getSignalLevel d = bind_result (measure_active d) (\<lambda>(m, d1). Inr (fst m, d1))"

text \<open>
  The level as a percentage of the range between floor and 0 dBm. With a floor of 0 the
  conversion of the quotient to \<open>int\<close> is undefined.
\<close>

definition getSignalStrength :: "demodulator \<Rightarrow> (int \<times> demodulator) result" where
  "getSignalStrength d =
     bind_result (measure_active d) (\<lambda>(m, d1).
       let signal = fst m; floor = snd m; range = 0 - floor
       in if range = 0 then Inl Out_Of_Bounds
          else let level = float_to_int (100 * (signal - floor) / range)
               in Inr (if level > 100 then 100 else level, d1))"

definition getSNR :: "demodulator \<Rightarrow> (rat \<times> demodulator) result" where
  "getSNR d = bind_result (measure_active d) (\<lambda>(m, d1). Inr ((100 + fst m) / (100 + snd m), d1))"

definition SQUELCH_DBM :: int where "SQUELCH_DBM = 0"
definition SQUELCH_SNR :: int where "SQUELCH_SNR = 1"
definition SQUELCH_PCT :: int where "SQUELCH_PCT = 2"

definition squelchThresholdMet :: "int \<Rightarrow> demodulator \<Rightarrow> (bool \<times> demodulator) result" where
  "squelchThresholdMet squelchType d =
     (if squelchType = SQUELCH_PCT then
        bind_result (getSignalStrength d) (\<lambda>(l, d1). Inr (of_int l \<ge> dr_squelchLevel d1, d1))
      else if squelchType = SQUELCH_SNR then
        bind_result (measure_active d) (\<lambda>(m, d1). Inr (\<bar>fst m - snd m\<bar> \<ge> dr_squelchLevel d1, d1))
      else bind_result (getSignalLevel d) (\<lambda>(l, d1). Inr (l \<ge> dr_squelchLevel d1, d1)))"

section \<open>Switching modems\<close>

definition setModem :: "modulation \<Rightarrow> demodulator \<Rightarrow> (bool \<times> demodulator) result" where
  "setModem mode d =
     (if dr_mode d = mode then Inr (True, d)
      else case dr_demods d mode of
             None \<Rightarrow> Inl Null_Deref
           | Some p \<Rightarrow>
               let g1 = on_inst p (inst_setActive True) (dr_mgr d);
                   g2 = setActiveDemodulator (Some p) False g1
               in case dr_demods d (dr_mode d) of
                    None \<Rightarrow> Inl Null_Deref
                  | Some q \<Rightarrow> Inr (True, d\<lparr>dr_mgr := on_inst q (inst_setActive False) g2, dr_mode := mode\<rparr>))"

section \<open>Settings\<close>

definition contextUpdate :: "demodulator \<Rightarrow> demodulator" where
  "contextUpdate d = d\<lparr>dr_out := dr_out d @ [DemodContext_make (dr_gain d) (dr_squelchLevel d)]\<rparr>"

definition setSquelch :: "rat \<Rightarrow> demodulator \<Rightarrow> demodulator" where
  "setSquelch level d = contextUpdate (d\<lparr>dr_squelchLevel := level\<rparr>)"

definition AUTO_GAIN :: rat where "AUTO_GAIN = -10"

definition setTunerGain :: "rat \<Rightarrow> demodulator \<Rightarrow> demodulator" where
  "setTunerGain gain d =
     contextUpdate
       (if gain < 0 then d\<lparr>dr_cubic := cubic_setAGCMode True (dr_cubic d), dr_gain := AUTO_GAIN\<rparr>
        else let c = cubic_setGain ''TUNER'' gain (cubic_setAGCMode False (dr_cubic d))
             in d\<lparr>dr_cubic := c, dr_gain := cubic_getGain ''TUNER'' c\<rparr>)"

definition getTunerGain :: "demodulator \<Rightarrow> rat" where "getTunerGain d = dr_gain d"
definition getSquelch :: "demodulator \<Rightarrow> rat" where "getSquelch d = dr_squelchLevel d"

definition squelchBreak :: "bool \<Rightarrow> demodulator \<Rightarrow> demodulator result" where
  "squelchBreak mute d =
     (case getCurrentModem (dr_mgr d) of
        None \<Rightarrow> Inl Null_Deref
      | Some p \<Rightarrow> Inr (d\<lparr>dr_refresher := mute, dr_mgr := inst_setMuted p (\<not> mute) (dr_mgr d)\<rparr>))"

definition getTunerSampleRate :: "demodulator \<Rightarrow> int" where
  "getTunerSampleRate d = cu_sampleRate (dr_cubic d)"

section \<open>Starting and stopping\<close>

definition desired_rates :: "int list" where "desired_rates = [48000, 44100, 96000, 192000]"

text \<open>The inner loops over a device's rates: the rank and the rate kept so far.\<close>

fun rank_loop :: "int \<Rightarrow> int list \<Rightarrow> nat \<Rightarrow> nat \<times> int \<Rightarrow> nat \<times> int" where
  "rank_loop srate [] i best = best"
| "rank_loop srate (d # ds) i best =
     rank_loop srate ds (i + 1) (if d = srate \<and> fst best > i then (i, srate) else best)"

fun rates_loop :: "int list \<Rightarrow> nat \<times> int \<Rightarrow> nat \<times> int" where
  "rates_loop [] best = best"
| "rates_loop (r # rs) best = rates_loop rs (rank_loop r desired_rates 0 best)"

definition choose_output_rate :: "int list \<Rightarrow> int result" where
  "choose_output_rate rates =
     (let best = rates_loop rates (5, 0)
      in if fst best > 4 then (if rates = [] then Inl Out_Of_Bounds else Inr (last rates))
         else Inr (snd best))"

fun output_rates :: "(int \<times> int list) list \<Rightarrow> (int \<rightharpoonup> int) \<Rightarrow> (int \<rightharpoonup> int) result" where
  "output_rates [] m = Inr m"
| "output_rates (x # xs) m =
     bind_result (choose_output_rate (snd x)) (\<lambda>r. output_rates xs (m(fst x \<mapsto> r)))"

definition add_modem ::
    "string \<Rightarrow> string \<Rightarrow> bool \<Rightarrow> (int \<rightharpoonup> int) \<Rightarrow> int \<Rightarrow> demod_mgr \<Rightarrow> nat \<times> demod_mgr" where
  "add_modem label ty run_first rates audiodev g =
     (let (p, g1) = newThread g;
          g2 = on_inst p (inst_setLabel label) g1;
          g3 = on_inst p (inst_setDemodulatorType ty) g2;
          g4 = on_inst p (inst_setBandwidth 12500) g3;
          g5 = on_inst p (inst_setGain 1) g4;
          g6 = inst_setSquelchLevel p (-100) g5;
          g7 = inst_setMuted p True g6;
          g8 = on_inst p (inst_setOutputDevice rates audiodev) g7
      in (p, if run_first then on_inst p (inst_setFrequency INIT_FREQUENCY) (on_inst p inst_run g8)
             else on_inst p inst_run (on_inst p (inst_setFrequency INIT_FREQUENCY) g8)))"

text \<open>The two modems; the NFM one is put in focus.\<close>

definition create_modems :: "(int \<rightharpoonup> int) \<Rightarrow> int \<Rightarrow> demodulator \<Rightarrow> demodulator" where
  "create_modems rates audiodev d =
     (let (n, g1) = add_modem ''NFM'' ''NBFM'' True rates audiodev (dr_mgr d);
          (a, g2) = add_modem ''AM'' ''AM'' False rates audiodev g1
      in d\<lparr>dr_mgr := setActiveDemodulator (Some n) False g2,
           dr_demods := (dr_demods d)(NFM \<mapsto> n, AM \<mapsto> a)\<rparr>)"

text \<open>
  \<open>start\<close>. \<open>devs\<close> are the devices found, \<open>outdevs\<close> the audio outputs with their sample rates
  (a \<open>std::map\<close>, in key order) and \<open>running\<close> says whether the tuner's thread runs already.
  \<open>CHECK_F\<close> aborts the process. The result includes the list of saved tuners.
\<close>

definition Demodulator_start ::
    "demod_state \<Rightarrow> sdr_device list \<Rightarrow> ((string \<times> sdr_device) list \<Rightarrow> string \<times> sdr_device) \<Rightarrow>
     (int \<times> int list) list \<Rightarrow> bool \<Rightarrow> tuner_config list \<Rightarrow> demodulator \<Rightarrow>
     (tuner_config list \<times> demodulator) result" where
  "Demodulator_start saved devs begin_of outdevs running tuners d =
     (let d1 = d\<lparr>dr_squelchLevel := ds_squelch saved, dr_gain := ds_gain saved\<rparr>;
          found = enumerateDevices devs (dr_tuner d1)
      in if \<not> fst found then Inl Assert_Failed
         else bind_result (autoSelectTuner begin_of tuners (snd found)) (\<lambda>(selected, tuners', tm).
           if \<not> selected then Inl Assert_Failed
           else bind_result (startSelectedTuner running tm (dr_cubic d1)) (\<lambda>(started, c).
             if \<not> started \<or> outdevs = [] then Inl Assert_Failed
             else bind_result (output_rates outdevs Map.empty) (\<lambda>rates.
               let d2 = create_modems rates (fst (hd outdevs)) (d1\<lparr>dr_cubic := c, dr_tuner := tm\<rparr>)
               in Inr (tuners', d2\<lparr>dr_sync := notifyReady (dr_sync d2)\<rparr>)))))"

text \<open>
  \<open>OnExit\<close> waits for the tuner's thread and for the thread behind it (\<open>post_ended\<close> says whether
  that one ends in time), terminates every modem and joins the threads. A thread that has not
  ended, or that was never started, makes it leave the process on the spot, with code 11 or 12.
\<close>

definition cubic_OnExit :: "bool \<Rightarrow> demodulator \<Rightarrow> int + demodulator" where
  "cubic_OnExit post_ended d =
     (if \<not> th_terminated (cu_thread (dr_cubic d)) then Inl 11
      else if \<not> post_ended then Inl 12
      else Inr (d\<lparr>dr_mgr := terminateAll (dr_mgr d)\<rparr>))"

text \<open>\<open>stop\<close>; \<open>running\<close> says whether the tuner's thread had been started.\<close>

definition Demodulator_stop ::
    "bool \<Rightarrow> bool \<Rightarrow> demod_state \<Rightarrow> demodulator \<Rightarrow> int + demod_state \<times> demodulator" where
  "Demodulator_stop running post_ended saved d =
     (case cubic_OnExit post_ended (d\<lparr>dr_refresher := False, dr_cubic := snd (stopSelectedTuner running (dr_cubic d))\<rparr>) of
        Inl code \<Rightarrow> Inl code
      | Inr d1 \<Rightarrow> Inr (saved\<lparr>ds_gain := dr_gain d1, ds_squelch := dr_squelchLevel d1\<rparr>,
          d1\<lparr>dr_sync := notifyDeinit (dr_sync d1)\<rparr>))"

section \<open>The interface to the scanner\<close>

definition demodulator_ops :: "int \<Rightarrow> demodulator demod_ops" where
  "demodulator_ops squelchType = \<lparr>op_setModem = setModem, op_setFrequency = Demodulator_setFrequency,
     op_setTunerFrequency = Demodulator_setTunerFrequency,
     op_squelchThresholdMet = squelchThresholdMet squelchType\<rparr>"

text \<open>
  What holds from \<open>start\<close> on: two modems, NFM and AM, the one of the current mode active and in
  the manager's focus, a current modem, a sensible sample rate, and a noise floor.
\<close>

definition demod_valid :: "demodulator \<Rightarrow> bool" where
  "demod_valid d \<longleftrightarrow>
     2 \<le> cu_sampleRate (dr_cubic d) \<and> mgr_ok (dr_mgr d) \<and> (\<forall>n c i. snd (dr_air d n c i) \<noteq> 0) \<and>
     (\<exists>n a. dr_demods d = [NFM \<mapsto> n, AM \<mapsto> a] \<and> n \<noteq> a \<and>
        {n, a} \<subseteq> set (dg_demods (dr_mgr d)) \<and> dr_mode d \<noteq> FM \<and>
        dg_active (dr_mgr d) = Some (if dr_mode d = NFM then n else a) \<and>
        di_active (dg_store (dr_mgr d) ! (if dr_mode d = NFM then n else a)) \<and>
        (dg_current (dr_mgr d) = Some n \<or> dg_current (dr_mgr d) = Some a))"

lemma demod_validI:
  assumes "2 \<le> cu_sampleRate (dr_cubic d)" "mgr_ok (dr_mgr d)" "\<And>n c i. snd (dr_air d n c i) \<noteq> 0"
    and "dr_demods d = [NFM \<mapsto> n, AM \<mapsto> a]" "n \<noteq> a" "{n, a} \<subseteq> set (dg_demods (dr_mgr d))" "dr_mode d \<noteq> FM"
    and "dg_active (dr_mgr d) = Some (if dr_mode d = NFM then n else a)"
    and "di_active (dg_store (dr_mgr d) ! (if dr_mode d = NFM then n else a))"
    and "dg_current (dr_mgr d) = Some n \<or> dg_current (dr_mgr d) = Some a"
  shows "demod_valid d"
  using assms unfolding demod_valid_def by blast

definition tuned_to :: "int \<Rightarrow> demodulator \<Rightarrow> bool" where
  "tuned_to f d \<longleftrightarrow> in_window f (dr_cubic d)"

lemma demod_valid_cong:
  assumes "demod_valid d" "dg_demods g = dg_demods (dr_mgr d)" "dg_active g = dg_active (dr_mgr d)"
    "dg_current g = dg_current (dr_mgr d)" "length (dg_store g) = length (dg_store (dr_mgr d))"
    "\<forall>p<length (dg_store g). di_active (dg_store g ! p) = di_active (dg_store (dr_mgr d) ! p)"
    and "dr_mode e = dr_mode d" "cu_sampleRate (dr_cubic e) = cu_sampleRate (dr_cubic d)" "dr_mgr e = g"
      "dr_demods e = dr_demods d" "dr_air e = dr_air d"
  shows "demod_valid e"
proof -
  obtain n a where na: "dr_demods d = [NFM \<mapsto> n, AM \<mapsto> a]" "n \<noteq> a" "{n, a} \<subseteq> set (dg_demods (dr_mgr d))"
    "dr_mode d \<noteq> FM" "dg_active (dr_mgr d) = Some (if dr_mode d = NFM then n else a)"
    "di_active (dg_store (dr_mgr d) ! (if dr_mode d = NFM then n else a))"
    "dg_current (dr_mgr d) = Some n \<or> dg_current (dr_mgr d) = Some a"
    using assms(1) by (auto simp: demod_valid_def)
  have ok: "mgr_ok g" using assms by (simp add: demod_valid_def mgr_ok_def)
  have "(if dr_mode d = NFM then n else a) < length (dg_store g)"
    using na(3) assms(1,5) by (auto simp: demod_valid_def mgr_ok_def)
  with assms(6) na(6) have "di_active (dg_store g ! (if dr_mode d = NFM then n else a))" by blast
  with na ok assms show ?thesis
    unfolding demod_valid_def by (intro conjI exI [of _ n] exI [of _ a]) (auto simp: demod_valid_def)
qed

lemma valid_current:
  "demod_valid d \<Longrightarrow> \<exists>p. getCurrentModem (dr_mgr d) = Some p \<and> p < length (dg_store (dr_mgr d))"
  by (auto simp: demod_valid_def mgr_ok_def getCurrentModem_def)

lemma tune_current_ok:
  assumes "demod_valid d"
  shows "\<exists>g. tune_current f d = Inr (d\<lparr>dr_mgr := g\<rparr>) \<and> demod_valid (d\<lparr>dr_mgr := g\<rparr>)"
proof -
  obtain p where p: "getCurrentModem (dr_mgr d) = Some p" "p < length (dg_store (dr_mgr d))"
    using valid_current [OF assms] by blast
  let ?g = "on_inst p (inst_setFrequency f) (dr_mgr d)"
  have "demod_valid (d\<lparr>dr_mgr := ?g\<rparr>)"
    by (rule demod_valid_cong [OF assms, where g = ?g])
      (use p in \<open>auto simp: on_inst_nth inst_setFrequency_def\<close>)
  with p show ?thesis by (auto simp: tune_current_def)
qed

lemma valid_cubic:
  "demod_valid d \<Longrightarrow> cu_sampleRate c = cu_sampleRate (dr_cubic d) \<Longrightarrow> demod_valid (d\<lparr>dr_cubic := c\<rparr>)"
  by (simp add: demod_valid_def)

lemma setFrequency_valid:
  assumes "demod_valid d"
  shows "\<exists>d'. Demodulator_setFrequency f d = Inr (True, d') \<and> demod_valid d' \<and> (0 < f \<longrightarrow> tuned_to f d')"
proof -
  obtain g where g: "tune_current f d = Inr (d\<lparr>dr_mgr := g\<rparr>)" "demod_valid (d\<lparr>dr_mgr := g\<rparr>)"
    using tune_current_ok [OF assms] by blast
  let ?d1 = "d\<lparr>dr_mgr := g\<rparr>"
  let ?far = "\<bar>cu_frequency (dr_cubic d) - f\<bar> \<ge> cdiv (cu_sampleRate (dr_cubic d)) 2"
  define d2 where "d2 = (if ?far then ?d1\<lparr>dr_cubic := cubic_setFrequency f (dr_cubic ?d1)\<rparr> else ?d1)"
  have v2: "demod_valid d2" using g(2) by (auto simp: d2_def intro: valid_cubic)
  obtain g3 where g3: "tune_current f d2 = Inr (d2\<lparr>dr_mgr := g3\<rparr>)" "demod_valid (d2\<lparr>dr_mgr := g3\<rparr>)"
    using tune_current_ok [OF v2] by blast
  let ?d' = "(d2\<lparr>dr_mgr := g3\<rparr>)\<lparr>dr_currentFreq := f\<rparr>"
  have "Demodulator_setFrequency f d = Inr (True, ?d')"
    using g(1) g3(1) by (simp add: Demodulator_setFrequency_def Let_def flip: d2_def)
  moreover have "demod_valid ?d'" using g3(2) by (simp add: demod_valid_def)
  moreover have "tuned_to f ?d'" if "0 < f"
  proof (cases ?far)
    case True
    then show ?thesis
      using that cubic_tune_in_window [of "dr_cubic d" f] assms by (simp add: d2_def tuned_to_def demod_valid_def)
  next
    case False
    then show ?thesis by (simp add: d2_def tuned_to_def in_window_def)
  qed
  ultimately show ?thesis by blast
qed

lemma setTunerFrequency_valid:
  assumes "demod_valid d"
  shows "\<exists>d'. Demodulator_setTunerFrequency f d = Inr (True, d') \<and> demod_valid d' \<and> (0 < f \<longrightarrow> tuned_to f d') \<and>
    dr_cubic d' = cubic_setFrequency f (dr_cubic d)"
proof -
  let ?d1 = "d\<lparr>dr_cubic := cubic_setFrequency f (dr_cubic d)\<rparr>"
  have v: "demod_valid ?d1" using assms by (auto intro: valid_cubic)
  obtain g where g: "tune_current f ?d1 = Inr (?d1\<lparr>dr_mgr := g\<rparr>)" "demod_valid (?d1\<lparr>dr_mgr := g\<rparr>)"
    using tune_current_ok [OF v] by blast
  then show ?thesis
    using cubic_tune_in_window [of "dr_cubic d" f] assms
    by (simp add: Demodulator_setTunerFrequency_def tuned_to_def demod_valid_def)
qed

lemma measure_valid:
  assumes "demod_valid d"
  shows "\<exists>p. dg_active (dr_mgr d) = Some p \<and>
    measure_active d = Inr (dr_air d (dr_reads d) (dr_cubic d) (dg_store (dr_mgr d) ! p), d\<lparr>dr_reads := dr_reads d + 1\<rparr>)"
  using assms by (auto simp: demod_valid_def measure_active_def getActiveContextModem_def Let_def)

lemma valid_reads [simp]: "demod_valid (d\<lparr>dr_reads := n\<rparr>) = demod_valid d"
  by (simp add: demod_valid_def)

lemma squelch_valid:
  assumes "demod_valid d"
  shows "\<exists>b. squelchThresholdMet st d = Inr (b, d\<lparr>dr_reads := dr_reads d + 1\<rparr>)"
proof -
  have floor: "snd (dr_air d n c i) \<noteq> 0" for n c i using assms by (simp add: demod_valid_def)
  obtain p where "measure_active d = Inr (dr_air d (dr_reads d) (dr_cubic d) (dg_store (dr_mgr d) ! p), d\<lparr>dr_reads := dr_reads d + 1\<rparr>)"
    using measure_valid [OF assms] by blast
  then show ?thesis
    using floor by (cases "st = SQUELCH_PCT"; cases "st = SQUELCH_SNR")
      (simp_all add: squelchThresholdMet_def getSignalLevel_def getSignalStrength_def Let_def)
qed

lemma setModem_valid:
  assumes v: "demod_valid d" and "mode \<noteq> FM"
  shows "\<exists>d'. setModem mode d = Inr (True, d') \<and> demod_valid d' \<and> dr_mode d' = mode \<and>
    dr_cubic d' = dr_cubic d \<and> (dr_mode d \<noteq> mode \<longrightarrow> dg_current (dr_mgr d') = dr_demods d (dr_mode d)) \<and>
    dg_active (dr_mgr d') = dr_demods d mode \<and> dr_demods d' = dr_demods d \<and> dr_air d' = dr_air d \<and>
    (\<forall>p<length (dg_store (dr_mgr d)). di_frequency (dg_store (dr_mgr d') ! p) = di_frequency (dg_store (dr_mgr d) ! p)) \<and>
    dr_reads d' = dr_reads d"
proof (cases "dr_mode d = mode")
  case True
  with v assms(2) show ?thesis by (cases mode) (auto simp: setModem_def demod_valid_def)
next
  case False
  obtain n a where na: "dr_demods d = [NFM \<mapsto> n, AM \<mapsto> a]" "n \<noteq> a" "{n, a} \<subseteq> set (dg_demods (dr_mgr d))"
    "dr_mode d \<noteq> FM" "dg_active (dr_mgr d) = Some (if dr_mode d = NFM then n else a)"
    "di_active (dg_store (dr_mgr d) ! (if dr_mode d = NFM then n else a))"
    using v by (auto simp: demod_valid_def)
  define old new where "old = (if dr_mode d = NFM then n else a)" and "new = (if mode = NFM then n else a)"
  have ptr: "dr_demods d (dr_mode d) = Some old" "dr_demods d mode = Some new" "old \<noteq> new"
    using na(1,2,4) assms(2) False by (cases mode; cases "dr_mode d"; auto simp: old_def new_def)+
  have ok: "mgr_ok (dr_mgr d)" and lt: "old < length (dg_store (dr_mgr d))" "new < length (dg_store (dr_mgr d))"
    using v na(3) by (auto simp: demod_valid_def mgr_ok_def old_def new_def)
  have mem: "old \<in> set (dg_demods (dr_mgr d))" using na(3) by (simp add: old_def)
  let ?g1 = "on_inst new (inst_setActive True) (dr_mgr d)"
  let ?g2 = "setActiveDemodulator (Some new) False ?g1"
  let ?g3 = "on_inst old (inst_setActive False) ?g2"
  have g1: "dg_active ?g1 = Some old" "di_active (dg_store ?g1 ! old)"
    using na(5,6) ptr(3) lt by (simp_all add: old_def [symmetric] on_inst_nth)
  have g2: "dg_current ?g2 = Some old" "dg_active ?g2 = Some new" "dg_store ?g2 = dg_store ?g1" "dg_demods ?g2 = dg_demods ?g1"
    using setActiveDemodulator_lags [OF g1(1) _ g1(2), of "Some new"] mem by simp_all
  have act: "di_active (dg_store ?g3 ! new)" using g2(3) lt ptr(3) by (simp add: on_inst_nth inst_setActive_def)
  have freq: "di_frequency (dg_store ?g3 ! p) = di_frequency (dg_store (dr_mgr d) ! p)" for p
    using g2(3) lt by (simp add: on_inst_nth inst_setActive_def)
  have "mgr_ok ?g2" using ok lt by (intro setActiveDemodulator_ok) auto
  then have ok3: "mgr_ok ?g3" by simp
  let ?d = "d\<lparr>dr_mgr := ?g3, dr_mode := mode\<rparr>"
  have eq: "setModem mode d = Inr (True, ?d)" using False ptr by (simp add: setModem_def Let_def)
  have base: "2 \<le> cu_sampleRate (dr_cubic ?d)" "\<forall>n c i. snd (dr_air ?d n c i) \<noteq> 0"
    using v by (simp_all add: demod_valid_def)
  have act': "di_active (dg_store ?g3 ! (if mode = NFM then n else a))" using act by (simp add: new_def)
  have ptrs: "dg_active ?g3 = Some (if mode = NFM then n else a)" "dg_current ?g3 = Some n \<or> dg_current ?g3 = Some a"
    "dg_demods ?g3 = dg_demods (dr_mgr d)"
    using g2 by (simp_all add: old_def new_def)
  have ex: "\<exists>n a. dr_demods ?d = [NFM \<mapsto> n, AM \<mapsto> a] \<and> n \<noteq> a \<and>
      {n, a} \<subseteq> set (dg_demods (dr_mgr ?d)) \<and> dr_mode ?d \<noteq> FM \<and>
      dg_active (dr_mgr ?d) = Some (if dr_mode ?d = NFM then n else a) \<and>
      di_active (dg_store (dr_mgr ?d) ! (if dr_mode ?d = NFM then n else a)) \<and>
      (dg_current (dr_mgr ?d) = Some n \<or> dg_current (dr_mgr ?d) = Some a)"
    by (rule exI [of _ n], rule exI [of _ a]) (use na assms(2) act' ptrs in simp)
  have "demod_valid ?d" unfolding demod_valid_def using base ok3 ex by simp
  then show ?thesis
    using eq ptr g2 freq by (intro exI [of _ ?d]) simp
qed

lemma squelchBreak_valid:
  assumes "demod_valid d"
  shows "\<exists>d'. squelchBreak b d = Inr d' \<and> demod_valid d'"
proof -
  obtain p where p: "getCurrentModem (dr_mgr d) = Some p" "p < length (dg_store (dr_mgr d))"
    using valid_current [OF assms] by blast
  let ?g = "inst_setMuted p (\<not> b) (dr_mgr d)"
  have "demod_valid (d\<lparr>dr_refresher := b, dr_mgr := ?g\<rparr>)"
    by (rule demod_valid_cong [OF assms, where g = ?g])
      (use p in \<open>auto simp: inst_setMuted_def on_inst_nth\<close>)
  with p show ?thesis by (auto simp: squelchBreak_def)
qed

interpretation demodulator: demod_interface "demodulator_ops squelchType" demod_valid tuned_to
proof unfold_locales
  fix d :: demodulator and m :: modulation and f :: int
  assume v: "demod_valid d"
  show "\<exists>d'. op_setModem (demodulator_ops squelchType) m d = Inr (True, d') \<and> demod_valid d'" if "m \<noteq> FM"
    using setModem_valid [OF v that] by (auto simp: demodulator_ops_def)
  show "\<exists>d'. op_setFrequency (demodulator_ops squelchType) f d = Inr (True, d') \<and> demod_valid d' \<and> (0 < f \<longrightarrow> tuned_to f d')"
    using setFrequency_valid [OF v] by (simp add: demodulator_ops_def)
  show "\<exists>d'. op_setTunerFrequency (demodulator_ops squelchType) f d = Inr (True, d') \<and> demod_valid d' \<and> (0 < f \<longrightarrow> tuned_to f d')"
    using setTunerFrequency_valid [OF v, of f] by (auto simp: demodulator_ops_def)
  show "\<exists>b d'. op_squelchThresholdMet (demodulator_ops squelchType) d = Inr (b, d') \<and> demod_valid d' \<and> (tuned_to f d \<longrightarrow> tuned_to f d')"
    using squelch_valid [OF v, of squelchType] v by (auto simp: demodulator_ops_def tuned_to_def)
qed

end
