(* ===== verification/Radio_Scanner.thy ===== *)
theory Radio_Scanner
  imports Scanner_Runs Demodulator
begin

text \<open>
  The scanner on the program's own radio: the state machine of src/src/ScannerSM.cpp with the
  \<open>Demodulator\<close> of src/src/sigproc/Demodulator.cpp behind its entries and its squelch. The
  contracts of the two sides meet here, for every history of signals.
\<close>

section \<open>The demodulator satisfies the scanner's contract\<close>

interpretation pi_radio: scanner_radio "demodulator_ops squelchType" demod_valid tuned_to squelchBreak
  by unfold_locales (rule squelchBreak_valid)

text \<open>An environment of the program: its demodulator, with any squelch mode.\<close>

definition program_env :: "('pt, demodulator) scan_env \<Rightarrow> bool" where
  "program_env env \<longleftrightarrow> (\<exists>squelchType. ev_ops env = demodulator_ops squelchType) \<and> ev_squelchBreak env = squelchBreak \<and>
     ev_sampleRate env = getTunerSampleRate"

lemma program_env_uses:
  "program_env env \<Longrightarrow> \<exists>squelchType. env_uses (demodulator_ops squelchType) squelchBreak env"
  by (auto simp: program_env_def env_uses_def)

lemma program_run:
  assumes "\<forall>env\<in>set envs. program_env env" "scanner_live demod_valid bw s" "eventGenerated s" "sm_run s"
  shows "\<exists>s'. scanner_run envs s = Some (Inr s') \<and> scanner_live demod_valid bw s' \<and> eventGenerated s' \<and> sm_run s'"
  using assms
proof (induction envs arbitrary: s)
  case Nil
  then show ?case by (simp add: scanner_run_def ok_def)
next
  case (Cons env envs)
  obtain sq where "env_uses (demodulator_ops sq) squelchBreak env" using program_env_uses Cons.prems(1) by force
  from pi_radio.engine_total [OF this Cons.prems(2)] obtain s1 where s1: "scanner_engine env s = Some (Inr s1)"
    "scanner_live demod_valid bw s1" "eventGenerated s1" "sm_run s1" using Cons.prems by auto
  then show ?case using Cons.IH [of s1] Cons.prems by (simp add: run_engine_Cons)
qed

section \<open>Starting the demodulator\<close>

lemma setDevice_rate:
  "cu_sampleRate (snd (True, cubic_setSampleRate r c)) = r"
  by simp

lemma add_modem_effect:
  assumes "add_modem l ty first rates dev g = (p, g')" "mgr_ok g"
  shows "p = length (dg_store g) \<and> dg_demods g' = dg_demods g @ [p] \<and> dg_active g' = dg_active g \<and>
    dg_current g' = dg_current g \<and> length (dg_store g') = Suc p \<and> di_active (dg_store g' ! p) \<and>
    (\<forall>q<p. dg_store g' ! q = dg_store g ! q) \<and> mgr_ok g'"
proof -
  define g1 where "g1 = snd (newThread g)"
  have nt: "newThread g = (length (dg_store g), g1)" by (simp add: g1_def newThread_def Let_def)
  have g1: "dg_demods g1 = dg_demods g @ [length (dg_store g)]" "dg_active g1 = dg_active g" "dg_current g1 = dg_current g"
    "length (dg_store g1) = Suc (length (dg_store g))" "\<forall>q<length (dg_store g). dg_store g1 ! q = dg_store g ! q"
    by (auto simp: g1_def newThread_def Let_def nth_append)
  have ok1: "mgr_ok g1" using newThread_ok [OF assms(2) nt] by simp
  have p: "p = length (dg_store g)" using assms(1) nt by (simp add: add_modem_def Let_def)
  have lt: "p < length (dg_store g1)" using g1(4) p by simp
  note defs = add_modem_def Let_def inst_setSquelchLevel_def inst_setMuted_def
  have fields: "dg_demods g' = dg_demods g1" "dg_active g' = dg_active g1" "dg_current g' = dg_current g1"
    "length (dg_store g') = length (dg_store g1)"
    using assms(1) nt by (cases first; auto simp: defs)+
  have other: "dg_store g' ! q = dg_store g1 ! q" if "q \<noteq> p" for q
    using assms(1) nt that by (cases first) (auto simp: defs on_inst_other)
  have act: "di_active (dg_store g' ! p)"
    using assms(1) nt lt
    by (cases first) (auto simp: defs on_inst_nth inst_run_def inst_setFrequency_def)
  have "mgr_ok g'" using ok1 fields by (simp add: mgr_ok_def)
  with fields other act g1 p show ?thesis by auto
qed

lemma Demodulator_start_valid:
  assumes "Demodulator_start saved devs begin_of outdevs running tuners d = Inr (tuners', d')"
    and "dr_mgr d = DemodulatorMgr_init" "dr_demods d = Map.empty" "dr_mode d = NFM"
    and "\<forall>n c i. snd (dr_air d n c i) \<noteq> 0" "2 \<le> tc_sampleRate (tm_config (dr_tuner d'))"
  shows "demod_valid d' \<and> sy_ready (dr_sync d') \<and> dr_gain d' = ds_gain saved \<and> dr_squelchLevel d' = ds_squelch saved"
proof -
  let ?d1 = "d\<lparr>dr_squelchLevel := ds_squelch saved, dr_gain := ds_gain saved\<rparr>"
  obtain tm c rates where c: "startSelectedTuner running tm (dr_cubic d) = Inr (True, c)"
    and d': "d' = (create_modems rates (fst (hd outdevs)) (?d1\<lparr>dr_cubic := c, dr_tuner := tm\<rparr>))
      \<lparr>dr_sync := notifyReady (dr_sync (create_modems rates (fst (hd outdevs)) (?d1\<lparr>dr_cubic := c, dr_tuner := tm\<rparr>)))\<rparr>"
    using assms(1) by (auto simp: Demodulator_start_def Let_def bind_result_Inr_iff split: if_splits prod.splits)
  obtain n g1 where m1: "add_modem ''NFM'' ''NBFM'' True rates (fst (hd outdevs)) DemodulatorMgr_init = (n, g1)"
    by (cases "add_modem ''NFM'' ''NBFM'' True rates (fst (hd outdevs)) DemodulatorMgr_init")
  obtain a g2 where m2: "add_modem ''AM'' ''AM'' False rates (fst (hd outdevs)) g1 = (a, g2)"
    by (cases "add_modem ''AM'' ''AM'' False rates (fst (hd outdevs)) g1")
  let ?g3 = "setActiveDemodulator (Some n) False g2"
  have e: "d' = ?d1\<lparr>dr_cubic := c, dr_tuner := tm, dr_mgr := ?g3, dr_demods := [NFM \<mapsto> n, AM \<mapsto> a],
      dr_sync := notifyReady (dr_sync d)\<rparr>"
    using d' m1 m2 assms(2,3) by (simp add: create_modems_def)
  have ok0: "mgr_ok DemodulatorMgr_init" by (simp add: mgr_ok_def DemodulatorMgr_init_def)
  have e1: "n = 0" "dg_demods g1 = [0]" "dg_active g1 = None" "dg_current g1 = None" "length (dg_store g1) = 1"
    "di_active (dg_store g1 ! 0)" "mgr_ok g1"
    using add_modem_effect [OF m1 ok0] by (auto simp: DemodulatorMgr_init_def)
  have n: "a = 1" "dg_demods g2 = [0, 1]" "dg_active g2 = None" "dg_current g2 = None"
    "di_active (dg_store g2 ! 0)" "di_active (dg_store g2 ! 1)" "mgr_ok g2" "length (dg_store g2) = 2"
    using add_modem_effect [OF m2 e1(7)] e1 by auto
  have g3: "dg_current ?g3 = Some 0" "dg_active ?g3 = Some 0" "dg_store ?g3 = dg_store g2" "dg_demods ?g3 = [0, 1]"
    using n e1(1) by (simp_all add: setActiveDemodulator_def updateLastState_def Let_def)
  have ok3: "mgr_ok ?g3" using n e1(1) by (intro setActiveDemodulator_ok) auto
  have "cu_sampleRate c = tc_sampleRate (tm_config tm)"
    using c by (auto simp: startSelectedTuner_def bind_result_Inr_iff split: option.splits)
  then have rate: "2 \<le> cu_sampleRate (dr_cubic d')" using assms(6) by (simp add: e)
  have "demod_valid d'"
    by (rule demod_validI [where n = 0 and a = 1])
      (use rate ok3 n g3 e1(1) assms(4,5) in \<open>simp_all add: e\<close>)
  then show ?thesis by (simp add: e notifyReady_def)
qed

section \<open>A bin and the tuner's window\<close>

text \<open>
  How far an entry of a bin can be from the bin's centre frequency. The bin's entries are in
  order of frequency, and the centre is halfway between the first and the last.
\<close>

lemma center_distance:
  assumes "bin_ok systems bw b" "getCenterFreq b = Inr f" "e \<in> set (bin_entries b)"
    and "0 \<le> en_freq (hd (bin_entries b))"
  shows "2 * \<bar>f - en_freq e\<bar> \<le> en_freq (last (bin_entries b)) - en_freq (hd (bin_entries b)) + 1"
proof -
  let ?l = "en_freq (last (bin_entries b))" and ?h = "en_freq (hd (bin_entries b))"
  have so: "sorted (map en_freq (bin_entries b))" using assms(1) by (simp add: bin_ok_def)
  have e: "?h \<le> en_freq e" "en_freq e \<le> ?l"
    using sorted_map_hd_le [OF so assms(3)] sorted_map_last_ge [OF so assms(3)] by simp_all
  show ?thesis
  proof (cases "length (bin_entries b) > 1")
    case True
    then have "f = cdiv (?l + ?h) 2" using assms(2) by (simp add: getCenterFreq_def Let_def)
    then have "f * 2 \<le> ?l + ?h + 1" "?l + ?h - 1 \<le> f * 2" "f = (?l + ?h) div 2"
      using cdiv_2_bounds [of "?l + ?h"] e assms(4) by (simp_all add: cdiv_nonneg)
    then show ?thesis using e by (cases "f \<le> en_freq e") simp_all
  next
    case False
    then have "length (bin_entries b) = 1" using assms(3) by (cases "bin_entries b") auto
    then obtain x where x: "bin_entries b = [x]" by (cases "bin_entries b") auto
    then have "f = en_freq x" using assms(2) by (simp add: getCenterFreq_def subscript_def)
    then show ?thesis using x assms(3) by simp
  qed
qed

lemma retuned_window:
  assumes "cu_frequency c = f" "cu_sampleRate c = 2 * h" "0 < h" "\<bar>f - g\<bar> < h"
  shows "in_window g c"
  using assms by (simp add: in_window_def cdiv_nonneg)

section \<open>Properties\<close>


text \<open>A started demodulator, for witnesses: nothing but noise on the air.\<close>

definition demo_manager :: demod_mgr where
  "demo_manager = DemodulatorMgr_init\<lparr>dg_store := [DemodulatorInstance_init\<lparr>di_active := True, di_bandwidth := 12500\<rparr>,
       DemodulatorInstance_init\<lparr>di_active := True, di_bandwidth := 12500\<rparr>],
     dg_demods := [0, 1], dg_active := Some 0, dg_current := Some 0\<rparr>"

definition demo_demodulator :: demodulator where
  "demo_demodulator = (Demodulator_init ((CubicSDR_init 100000000 Map.empty)\<lparr>cu_sampleRate := 2048000\<rparr>) (\<lambda>n c i. (-60, -50)))
     \<lparr>dr_mgr := demo_manager, dr_demods := [NFM \<mapsto> 0, AM \<mapsto> 1]\<rparr>"

definition demo_env :: "(ctree, demodulator) scan_env" where
  "demo_env = \<lparr>ev_api = ctree_api, ev_ops = demodulator_ops SQUELCH_DBM, ev_squelchBreak = squelchBreak,
     ev_sampleRate = getTunerSampleRate, ev_file = File_Missing, ev_now = 0\<rparr>"

lemma demo_valid [simp]: "demod_valid demo_demodulator"
  by (rule demod_validI [where n = 0 and a = 1])
    (simp_all add: demo_demodulator_def demo_manager_def Demodulator_init_def mgr_ok_def
      DemodulatorMgr_init_def CubicSDR_init_def)


text \<open>
  Listening works on every channel: with a started demodulator, \<open>hasSignal\<close> of any entry
  returns, leaves the demodulator valid, and leaves the tuner so that a channel of positive
  frequency lies inside the received window; a dummy channel never reports a signal.
\<close>

theorem hasSignal_in_window:
  assumes "demod_valid d"
  shows "\<exists>b d'. hasSignal (demodulator_ops squelchType) e d = Inr (b, d') \<and> demod_valid d' \<and>
    (0 < en_freq e \<longrightarrow> in_window (en_freq e) (dr_cubic d')) \<and> (isDummy e \<longrightarrow> \<not> b)"
  using demodulator.hasSignal_total [OF assms, of squelchType e] by (simp add: tuned_to_def)

theorem hasSignal_in_window_witness:
  "\<exists>b d'. hasSignal (demodulator_ops SQUELCH_PCT) small_tower demo_demodulator = Inr (b, d') \<and>
     in_window 118000000 (dr_cubic d')"
  using hasSignal_in_window [OF demo_valid, of SQUELCH_PCT small_tower] by (auto simp: small_entry)

text \<open>
  One retuning per bin. Once the tuner sits at a bin's centre frequency (even sample rate,
  bins cut to it), every channel of the bin is received without retuning, as long as the bin
  spans at most the sample rate less two hertz.
\<close>

theorem bin_within_window:
  assumes "bin_ok systems bw b" "bw = 2 * h" "cu_sampleRate c = bw"
    and "getCenterFreq b = Inr f" "cu_frequency c = f" "0 \<le> en_freq (hd (bin_entries b))"
    and "en_freq (last (bin_entries b)) - en_freq (hd (bin_entries b)) \<le> bw - 2"
  shows "\<forall>e\<in>set (bin_entries b). in_window (en_freq e) c"
proof
  fix e assume e: "e \<in> set (bin_entries b)"
  have "2 * \<bar>f - en_freq e\<bar> \<le> 2 * h - 1" using center_distance [OF assms(1,4) e assms(6)] assms(2,7) by linarith
  then show "in_window (en_freq e) c" using assms(2,3,5) by (intro retuned_window) auto
qed

definition pair_bin :: "int \<Rightarrow> int \<Rightarrow> ctree entry_bin" where
  "pair_bin f g = \<lparr>bin_entries = [FMChannel ctree_api f '''' False 0, FMChannel ctree_api g '''' False 0], bin_locked = 0\<rparr>"

lemma pair_bin_ok: "f \<le> g \<Longrightarrow> g < f + bw \<Longrightarrow> 0 < bw \<Longrightarrow> bin_ok [AnalogSystem ''s'' False] bw (pair_bin f g)"
  by (simp add: pair_bin_def bin_ok_def entry_known_def unavailable_def)
    (simp add: channel_defs AnalogSystem_def)

theorem bin_within_window_witness:
  "map (\<lambda>e. in_window (en_freq e) ((CubicSDR_init 104 Map.empty)\<lparr>cu_sampleRate := 10\<rparr>)) (bin_entries (pair_bin 100 108)) = [True, True]"
proof -
  have "\<forall>e\<in>set (bin_entries (pair_bin 100 108)). in_window (en_freq e) ((CubicSDR_init 104 Map.empty)\<lparr>cu_sampleRate := 10\<rparr>)"
    by (rule bin_within_window [where bw = 10 and h = 5 and f = 104 and systems = "[AnalogSystem ''s'' False]"])
      (simp_all add: pair_bin_ok CubicSDR_init_def, simp_all add: pair_bin_def getCenterFreq_def cdiv_nonneg)
  then show ?thesis by (simp add: pair_bin_def)
qed

text \<open>
  The bound is sharp: \<open>sortBins\<close> also forms bins that span the sample rate less one hertz,
  and the last channel of such a bin is outside the window around the bin's centre, so that
  listening on it retunes.
\<close>

theorem widest_bin_retunes:
  assumes "bin_ok systems bw b" "bw = 2 * h" "0 < h" "cu_sampleRate c = bw" "getCenterFreq b = Inr f"
    and "cu_frequency c = f" "0 \<le> en_freq (hd (bin_entries b))"
    and "en_freq (last (bin_entries b)) - en_freq (hd (bin_entries b)) = bw - 1"
  shows "\<not> in_window (en_freq (last (bin_entries b))) c"
proof -
  let ?l = "en_freq (last (bin_entries b))" and ?h = "en_freq (hd (bin_entries b))"
  have "length (bin_entries b) > 1"
  proof (rule ccontr)
    assume "\<not> length (bin_entries b) > 1"
    moreover have "bin_entries b \<noteq> []" using assms(1) by (simp add: bin_ok_def)
    ultimately have "last (bin_entries b) = hd (bin_entries b)" by (cases "bin_entries b") auto
    with assms(2,3,8) show False by simp
  qed
  then have f: "f = (?l + ?h) div 2"
    using assms(2,3,5,7,8) by (simp add: getCenterFreq_def cdiv_nonneg)
  have "?l + ?h = 2 * (?h + h) - 1" using assms(2,8) by simp
  then have "f = ?h + h - 1" unfolding f by presburger
  then have "\<bar>f - ?l\<bar> = h" using assms(2,3,8) by simp
  then show ?thesis using assms(2,3,4,6) by (simp add: in_window_def cdiv_nonneg)
qed

theorem widest_bin_retunes_witness:
  "\<not> in_window (en_freq (last (bin_entries (pair_bin 100 109)))) ((CubicSDR_init 104 Map.empty)\<lparr>cu_sampleRate := 10\<rparr>)"
  by (rule widest_bin_retunes [where bw = 10 and h = 5 and f = 104 and systems = "[AnalogSystem ''s'' False]"])
    (simp_all add: pair_bin_ok CubicSDR_init_def, simp_all add: pair_bin_def getCenterFreq_def cdiv_nonneg)

text \<open>
  The first check on a channel of the other modulation is made with the wrong modem.
  After \<open>setModem\<close> switches, the modem manager's current modem is the one being left, so
  \<open>setFrequency\<close> tunes that one, while the level is read from the newly active modem, whose
  frequency is still what it was.
\<close>

theorem switched_modem_not_tuned:
  assumes "demod_valid d" "m \<noteq> FM" "dr_mode d \<noteq> m"
  shows "\<exists>d1 d2 p q. setModem m d = Inr (True, d1) \<and> Demodulator_setFrequency f d1 = Inr (True, d2) \<and>
    dr_demods d m = Some p \<and> dr_demods d (dr_mode d) = Some q \<and> p \<noteq> q \<and>
    dg_active (dr_mgr d2) = Some p \<and> dg_current (dr_mgr d2) = Some q \<and>
    di_frequency (dg_store (dr_mgr d2) ! p) = di_frequency (dg_store (dr_mgr d) ! p)"
proof -
  obtain d1 where d1: "setModem m d = Inr (True, d1)" "demod_valid d1" "dr_mode d1 = m"
    "dg_current (dr_mgr d1) = dr_demods d (dr_mode d)" "dg_active (dr_mgr d1) = dr_demods d m" "dr_demods d1 = dr_demods d"
    "\<forall>p<length (dg_store (dr_mgr d)). di_frequency (dg_store (dr_mgr d1) ! p) = di_frequency (dg_store (dr_mgr d) ! p)"
    using setModem_valid [OF assms(1,2)] assms(3) by auto
  obtain n a where na: "dr_demods d = [NFM \<mapsto> n, AM \<mapsto> a]" "n \<noteq> a" "{n, a} \<subseteq> set (dg_demods (dr_mgr d))" "dr_mode d \<noteq> FM"
    using assms(1) by (auto simp: demod_valid_def)
  define p q where "p = (if m = NFM then n else a)" and "q = (if dr_mode d = NFM then n else a)"
  have pq: "dr_demods d m = Some p" "dr_demods d (dr_mode d) = Some q" "p \<noteq> q"
    using na(1,2,4) assms(2,3) by (cases m; cases "dr_mode d"; auto simp: p_def q_def)+
  have lt: "p < length (dg_store (dr_mgr d))"
    using assms(1) na(3) by (auto simp: demod_valid_def mgr_ok_def p_def)
  have cur: "getCurrentModem (dr_mgr d1) = Some q" using d1(4) pq by (simp add: getCurrentModem_def)
  obtain d2 where d2: "Demodulator_setFrequency f d1 = Inr (True, d2)" using setFrequency_valid [OF d1(2)] by blast
  have "dg_active (dr_mgr d2) = Some p" "dg_current (dr_mgr d2) = Some q"
    "di_frequency (dg_store (dr_mgr d2) ! p) = di_frequency (dg_store (dr_mgr d1) ! p)"
    using d2 cur d1(4,5) pq
    by (auto simp: Demodulator_setFrequency_def tune_current_def getCurrentModem_def on_inst_other Let_def split: if_splits)
  with d1 d2 pq lt show ?thesis by auto
qed

theorem switched_modem_not_tuned_witness:
  "\<exists>d1 d2. setModem AM demo_demodulator = Inr (True, d1) \<and> Demodulator_setFrequency 118000000 d1 = Inr (True, d2) \<and>
     dg_active (dr_mgr d2) = Some 1 \<and> di_frequency (dg_store (dr_mgr d2) ! 1) = 0"
proof -
  have "dr_demods demo_demodulator AM = Some 1" "dr_mode demo_demodulator = NFM"
    "di_frequency (dg_store (dr_mgr demo_demodulator) ! 1) = 0"
    by (simp_all add: demo_demodulator_def Demodulator_init_def demo_manager_def DemodulatorMgr_init_def DemodulatorInstance_init_def)
  with switched_modem_not_tuned [OF demo_valid, of AM 118000000] show ?thesis by auto
qed

text \<open>
  Starting leaves a working demodulator: when \<open>Demodulator::start\<close> does not abort and the
  rate chosen for the tuner is at least 2, the demodulator satisfies everything the scanner
  relies on, is ready, and has the gain and the squelch of the saved state.
\<close>

theorem start_makes_valid:
  assumes "Demodulator_start saved devs begin_of outdevs running tuners (Demodulator_init c air) = Inr (tuners', d')"
    and "\<forall>n c i. snd (air n c i) \<noteq> 0" "2 \<le> tc_sampleRate (tm_config (dr_tuner d'))"
  shows "demod_valid d' \<and> waitReady_returns (dr_sync d') \<and> getTunerGain d' = ds_gain saved \<and> getSquelch d' = ds_squelch saved"
  using Demodulator_start_valid [OF assms(1) _ _ _ _ assms(3)] assms(2)
  by (simp add: Demodulator_init_def waitReady_returns_def getTunerGain_def getSquelch_def)

theorem start_makes_valid_witness:
  "\<exists>ts d'. Demodulator_start DemodState_init [demo_device] hd [(3, [44100])] False []
     (Demodulator_init (CubicSDR_init 100000000 Map.empty) (\<lambda>n c i. (-60, -50))) = Inr (ts, d') \<and> demod_valid d'"
proof -
  let ?d = "Demodulator_init (CubicSDR_init 100000000 Map.empty) (\<lambda>n c i. (-60, -50))"
  have near: "getSampleRateNear demo_device r = Inr (near_loop r [250000, 2400000] \<bar>r - 250000\<bar> 250000)" for r
    by (simp add: getSampleRateNear_def subscript_def)
  have out: "output_rates [(3, [44100])] Map.empty = Inr [3 \<mapsto> 44100]"
    by (simp add: choose_output_rate_def desired_rates_def Let_def)
  have enum: "enumerateDevices [demo_device] (dr_tuner ?d) = (True, TunerManager_init\<lparr>tm_devs := [(''rtl'', demo_device)]\<rparr>)"
    by (simp add: enumerateDevices_def demo_device_def TunerManager_init_def Demodulator_init_def)
  obtain ts tm where sel: "autoSelectTuner hd [] (TunerManager_init\<lparr>tm_devs := [(''rtl'', demo_device)]\<rparr>) = Inr (True, ts, tm)"
    and tm: "tm_device tm = Some demo_device" "tc_sampleRate (tm_config tm) = 2400000"
    by (simp add: autoSelectTuner_def select_new_def selectFirstAvailableDevice_def Let_def TunerManager_init_def
        TunerConfig_init_def nearestSampleRate_def LONG_MAX_def)
  have "sd_opens demo_device" by (simp add: demo_device_def)
  then obtain c where st: "startSelectedTuner False tm (CubicSDR_init 100000000 Map.empty) = Inr (True, c)"
    using tm by (simp add: startSelectedTuner_def setDevice_def near getDeviceConfig_def CubicSDR_init_def DeviceConfig_init_def Let_def)
  obtain d' where d': "Demodulator_start DemodState_init [demo_device] hd [(3, [44100])] False [] ?d = Inr (ts, d')"
    "dr_tuner d' = tm"
    using enum sel st out by (simp add: Demodulator_start_def Let_def create_modems_def Demodulator_init_def split: prod.splits)
  from start_makes_valid [OF d'(1)] d' tm show ?thesis by auto
qed

end
