(* ===== verification/Blocking_Queue.thy ===== *)
theory Blocking_Queue
  imports Prelude
begin

text \<open>
  \<open>ThreadBlockingQueue\<close> (src/src/cubic/util/ThreadBlockingQueue.h), the bounded queue that
  connects the threads of the signal chain and carries their control commands.

  Every operation holds the queue's mutex, so it is one atomic step. An operation that waits
  is given at the moment it looks at the queue; \<open>expired\<close> says whether its timeout has run
  out by then, and \<open>None\<close> means that the caller goes on waiting.
\<close>

section \<open>The queue\<close>

record 'a blocking_queue =
  bq_items :: "'a list"
  bq_max :: nat

definition ThreadBlockingQueue_init :: "'a blocking_queue" where
  "ThreadBlockingQueue_init = \<lparr>bq_items = [], bq_max = 1\<rparr>"

definition set_max_num_items :: "nat \<Rightarrow> 'a blocking_queue \<Rightarrow> 'a blocking_queue" where
  "set_max_num_items n q = (if n > bq_max q then q\<lparr>bq_max := n\<rparr> else q)"

definition NON_BLOCKING_TIMEOUT :: nat where "NON_BLOCKING_TIMEOUT = 100"
definition BLOCKING_INFINITE_TIMEOUT :: nat where "BLOCKING_INFINITE_TIMEOUT = 0"

definition bq_push :: "nat \<Rightarrow> bool \<Rightarrow> 'a \<Rightarrow> 'a blocking_queue \<Rightarrow> (bool \<times> 'a blocking_queue) option" where
  "bq_push timeout expired item q =
     (let pushed = (True, q\<lparr>bq_items := bq_items q @ [item]\<rparr>);
          room = length (bq_items q) < bq_max q
      in if timeout = BLOCKING_INFINITE_TIMEOUT then (if room then Some pushed else None)
         else if timeout \<le> NON_BLOCKING_TIMEOUT \<and> length (bq_items q) \<ge> bq_max q then Some (False, q)
         else if room then Some pushed
         else if expired then Some (False, q)
         else None)"

definition bq_try_push :: "'a \<Rightarrow> 'a blocking_queue \<Rightarrow> bool \<times> 'a blocking_queue" where
  "bq_try_push item q =
     (if length (bq_items q) \<ge> bq_max q then (False, q)
      else (True, q\<lparr>bq_items := bq_items q @ [item]\<rparr>))"

definition bq_pop :: "nat \<Rightarrow> bool \<Rightarrow> 'a blocking_queue \<Rightarrow> ('a option \<times> 'a blocking_queue) option" where
  "bq_pop timeout expired q =
     (let popped = (Some (hd (bq_items q)), q\<lparr>bq_items := tl (bq_items q)\<rparr>)
      in if timeout = BLOCKING_INFINITE_TIMEOUT then (if bq_items q \<noteq> [] then Some popped else None)
         else if timeout \<le> NON_BLOCKING_TIMEOUT \<and> bq_items q = [] then Some (None, q)
         else if bq_items q \<noteq> [] then Some popped
         else if expired then Some (None, q)
         else None)"

definition bq_try_pop :: "'a blocking_queue \<Rightarrow> 'a option \<times> 'a blocking_queue" where
  "bq_try_pop q =
     (if bq_items q = [] then (None, q)
      else (Some (hd (bq_items q)), q\<lparr>bq_items := tl (bq_items q)\<rparr>))"

definition bq_size :: "'a blocking_queue \<Rightarrow> nat" where
  "bq_size q = length (bq_items q)"

definition bq_empty :: "'a blocking_queue \<Rightarrow> bool" where
  "bq_empty q \<longleftrightarrow> bq_items q = []"

definition bq_full :: "'a blocking_queue \<Rightarrow> bool" where
  "bq_full q \<longleftrightarrow> length (bq_items q) \<ge> bq_max q"

definition bq_flush :: "'a blocking_queue \<Rightarrow> 'a blocking_queue" where
  "bq_flush q = q\<lparr>bq_items := []\<rparr>"

lemmas bq_timeouts = NON_BLOCKING_TIMEOUT_def BLOCKING_INFINITE_TIMEOUT_def

section \<open>Threads sharing a queue\<close>

text \<open>What a thread can do with the queue once it holds the mutex and its wait is over.\<close>

datatype 'a queue_op =
    Q_Push nat bool 'a | Q_Try_Push 'a | Q_Pop nat bool | Q_Try_Pop | Q_Flush | Q_Raise nat

text \<open>
  The effect on the queue, the items accepted from producers and handed to consumers. An
  operation that has to go on waiting has no effect.
\<close>

fun queue_step :: "'a queue_op \<Rightarrow> 'a blocking_queue \<Rightarrow> 'a list \<times> 'a list \<times> 'a blocking_queue" where
  "queue_step (Q_Push t x a) q =
     (case bq_push t x a q of None \<Rightarrow> ([], [], q) | Some (b, q') \<Rightarrow> (if b then [a] else [], [], q'))"
| "queue_step (Q_Try_Push a) q = (let r = bq_try_push a q in (if fst r then [a] else [], [], snd r))"
| "queue_step (Q_Pop t x) q =
     (case bq_pop t x q of None \<Rightarrow> ([], [], q) | Some (r, q') \<Rightarrow> ([], case r of None \<Rightarrow> [] | Some a \<Rightarrow> [a], q'))"
| "queue_step Q_Try_Pop q = (let r = bq_try_pop q in ([], case fst r of None \<Rightarrow> [] | Some a \<Rightarrow> [a], snd r))"
| "queue_step Q_Flush q = ([], [], bq_flush q)"
| "queue_step (Q_Raise n) q = ([], [], set_max_num_items n q)"

fun queue_run :: "'a queue_op list \<Rightarrow> 'a blocking_queue \<Rightarrow> 'a list \<times> 'a list \<times> 'a blocking_queue" where
  "queue_run [] q = ([], [], q)"
| "queue_run (op # ops) q =
     (case queue_step op q of (i, out, q') \<Rightarrow>
      case queue_run ops q' of (ins, outs, q'') \<Rightarrow> (i @ ins, out @ outs, q''))"

definition bq_ok :: "'a blocking_queue \<Rightarrow> bool" where
  "bq_ok q \<longleftrightarrow> 1 \<le> bq_max q \<and> length (bq_items q) \<le> bq_max q"

lemma bq_ok_init [simp]: "bq_ok ThreadBlockingQueue_init"
  by (simp add: bq_ok_def ThreadBlockingQueue_init_def)

lemma queue_step_ok:
  "queue_step op q = (i, out, q') \<Longrightarrow> bq_ok q \<Longrightarrow> bq_ok q' \<and> bq_max q \<le> bq_max q'"
  by (cases op)
    (auto simp: bq_push_def bq_try_push_def bq_pop_def bq_try_pop_def bq_flush_def set_max_num_items_def bq_ok_def Let_def
      split: if_splits option.splits)

lemma queue_run_ok:
  "queue_run ops q = (i, out, q') \<Longrightarrow> bq_ok q \<Longrightarrow> bq_ok q' \<and> bq_max q \<le> bq_max q'"
proof (induction ops arbitrary: q i out)
  case (Cons op ops)
  then show ?case by (fastforce split: prod.splits dest: queue_step_ok)
qed simp

section \<open>The contract of a queue\<close>

text \<open>
  What a thread that owns one end of a queue relies on: nothing is lost or reordered, and a
  refused item leaves the queue as it was.
\<close>

locale fifo_channel =
  fixes contents :: "'q \<Rightarrow> 'a list" and put :: "'a \<Rightarrow> 'q \<Rightarrow> bool \<times> 'q" and get :: "'q \<Rightarrow> 'a option \<times> 'q"
  assumes put_contents: "put a q = (b, q') \<Longrightarrow> contents q' = (if b then contents q @ [a] else contents q)"
    and get_contents: "get q = (r, q') \<Longrightarrow>
      (r = None \<longrightarrow> contents q = [] \<and> contents q' = []) \<and> (\<forall>a. r = Some a \<longrightarrow> contents q = a # contents q')"
begin

text \<open>A consumer that takes as long as there is something; \<open>n\<close> bounds how often it asks.\<close>

fun drain :: "nat \<Rightarrow> 'q \<Rightarrow> 'a list \<times> 'q" where
  "drain 0 q = ([], q)"
| "drain (Suc n) q =
     (case get q of (None, q') \<Rightarrow> ([], q') | (Some a, q') \<Rightarrow> (case drain n q' of (as, q'') \<Rightarrow> (a # as, q'')))"

lemma drain_all: "length (contents q) \<le> n \<Longrightarrow> fst (drain n q) = contents q \<and> contents (snd (drain n q)) = []"
proof (induction n arbitrary: q)
  case (Suc n)
  obtain r q' where g: "get q = (r, q')" by (cases "get q")
  show ?case
  proof (cases r)
    case None
    with get_contents [OF g] g show ?thesis by simp
  next
    case (Some a)
    with get_contents [OF g] have "contents q = a # contents q'" by simp
    moreover have "length (contents q') \<le> n" using Suc.prems calculation by simp
    ultimately show ?thesis using Suc.IH [of q'] g Some by (auto split: prod.splits)
  qed
qed simp

end

interpretation bq: fifo_channel bq_items bq_try_push bq_try_pop
  by unfold_locales (auto simp: bq_try_push_def bq_try_pop_def split: if_splits)

section \<open>Properties\<close>

definition is_flush :: "'a queue_op \<Rightarrow> bool" where
  "is_flush op \<longleftrightarrow> op = Q_Flush"

lemma queue_step_fifo:
  "queue_step op q = (i, out, q') \<Longrightarrow> \<not> is_flush op \<Longrightarrow> bq_items q @ i = out @ bq_items q'"
  by (cases op)
    (auto simp: bq_push_def bq_try_push_def bq_pop_def bq_try_pop_def set_max_num_items_def Let_def is_flush_def
      split: if_splits option.splits)

text \<open>
  The queue is first in, first out across threads: for any sequence of pushes, pops (waiting,
  timed or immediate) and capacity changes without a flush, what was in the queue followed by
  what was accepted equals what was handed out followed by what is left. Nothing is lost,
  duplicated or reordered.
\<close>

theorem queue_fifo:
  assumes "queue_run ops q = (i, out, q')" "\<forall>op\<in>set ops. \<not> is_flush op"
  shows "bq_items q @ i = out @ bq_items q'"
  using assms
proof (induction ops arbitrary: q i out q')
  case (Cons op ops)
  obtain i1 o1 q1 where s: "queue_step op q = (i1, o1, q1)" by (cases "queue_step op q")
  obtain i2 o2 q2 where r: "queue_run ops q1 = (i2, o2, q2)" by (cases "queue_run ops q1")
  have "bq_items q @ i1 = o1 @ bq_items q1" using queue_step_fifo [OF s] Cons.prems by simp
  moreover have "bq_items q1 @ i2 = o2 @ bq_items q2" using Cons.IH [OF r] Cons.prems by simp
  ultimately have "bq_items q @ i1 @ i2 = (o1 @ o2) @ bq_items q2" by (metis append.assoc)
  then show ?case using Cons.prems s r by auto
qed simp

theorem queue_fifo_witness:
  "queue_run [Q_Try_Push (1::nat), Q_Push 0 False 2, Q_Try_Push 3, Q_Pop 50 False] (set_max_num_items 2 ThreadBlockingQueue_init) =
     ([1, 2], [1], \<lparr>bq_items = [2], bq_max = 2\<rparr>) \<and> [] @ [1, 2] = [1] @ [2 :: nat]"
proof -
  have "queue_run [Q_Try_Push (1::nat), Q_Push 0 False 2, Q_Try_Push 3, Q_Pop 50 False] (set_max_num_items 2 ThreadBlockingQueue_init) =
     ([1, 2], [1], \<lparr>bq_items = [2], bq_max = 2\<rparr> :: nat blocking_queue)"
    by code_simp
  with queue_fifo [OF this] show ?thesis by (simp add: is_flush_def)
qed

text \<open>
  The queue never holds more than its capacity and the capacity is never reduced, whatever
  the threads do, flushes included; a full queue always accepts again after a pop, so a
  producer that waits for room without a timeout is let through.
\<close>

theorem queue_bounded:
  assumes "queue_run ops ThreadBlockingQueue_init = (i, out, q)"
  shows "bq_size q \<le> bq_max q \<and> 1 \<le> bq_max q \<and>
    (\<forall>a r q'. bq_try_pop q = (Some r, q') \<longrightarrow> (\<exists>q''. bq_push 0 False a q' = Some (True, q'')))"
  using queue_run_ok [OF assms bq_ok_init]
  by (auto simp: bq_size_def bq_ok_def bq_try_pop_def bq_push_def bq_timeouts split: if_splits)

theorem queue_bounded_witness:
  "\<exists>i out q. queue_run [Q_Try_Push 1, Q_Try_Push (2::nat)] ThreadBlockingQueue_init = (i, out, q) \<and>
     bq_size q \<le> bq_max q \<and> bq_size q = 1"
proof -
  have r: "queue_run [Q_Try_Push 1, Q_Try_Push (2::nat)] ThreadBlockingQueue_init = ([1], [], \<lparr>bq_items = [1], bq_max = 1\<rparr>)"
    by code_simp
  with queue_bounded [OF this] show ?thesis by (auto simp: bq_size_def)
qed

end
