(* ===== verification/Messages.thy ===== *)
theory Messages
  imports Context
begin

text \<open>
  Messages between threads (src/src/common/messages.h), the requests of clients
  (src/src/server/request.h), and the client end of the server: a connection
  (src/src/server/connection/connection.h) with what has been handed to it.
\<close>

section \<open>Constants\<close>

datatype connection_level = RECEIVE_ONLY | VIEWER | FULL_CONTROL

fun level_value :: "connection_level \<Rightarrow> nat" where
  "level_value RECEIVE_ONLY = 0"
| "level_value VIEWER = 1"
| "level_value FULL_CONTROL = 2"

datatype request_type =
    NOTIFY_DISCONNECTED | SYSTEM_FUNCTION | SCANNER_FUNCTION | DATABASE_RETRIEVE | DATABASE_MODIFY
  | CONFIG_RETRIEVE | CONFIG_MODIFY | DEMOD_CONFIGURE | GET_CONTEXT

definition SYSTEM_STOP :: int where "SYSTEM_STOP = 0"
definition SCANNER_CONTEXT :: int where "SCANNER_CONTEXT = 0"
definition DEMOD_CONTEXT :: int where "DEMOD_CONTEXT = 1"
definition DEMOD_SET_SQUELCH :: int where "DEMOD_SET_SQUELCH = 0"
definition DEMOD_SET_GAIN :: int where "DEMOD_SET_GAIN = 1"

text \<open>The destinations of a message.\<close>

definition SYSTEM_CONTROL :: nat where "SYSTEM_CONTROL = 0"
definition SCANNER_SM :: nat where "SCANNER_SM = 1"
definition DEMOD :: nat where "DEMOD = 2"
definition SERVER_MAN :: nat where "SERVER_MAN = 3"
definition CLIENT :: nat where "CLIENT = 254"

lemmas destination_defs = SYSTEM_CONTROL_def SCANNER_SM_def DEMOD_def SERVER_MAN_def CLIENT_def

section \<open>Requests and messages\<close>

text \<open>\<open>source\<close> is an \<open>unsigned char\<close>; the data of a request is an \<open>int\<close> where there is one.\<close>

record client_request =
  rq_source :: nat
  rq_handle :: int
  rq_type :: request_type
  rq_subType :: int
  rq_arg :: "int option"

definition ClientRequest_make :: "int \<Rightarrow> request_type \<Rightarrow> int \<Rightarrow> int option \<Rightarrow> client_request" where
  "ClientRequest_make handle ty sub data =
     \<lparr>rq_source = nat (handle mod 256), rq_handle = 0, rq_type = ty, rq_subType = sub, rq_arg = data\<rparr>"

text \<open>What \<open>pData\<close> points to.\<close>

datatype message_data =
    No_Data
  | Data_Request client_request
  | Data_Scanner_Context scanner_context
  | Data_Demod_Context demod_context
  | Data_General general_message
  | Data_Int int

record message =
  ms_source :: nat
  ms_destination :: nat
  ms_type :: nat
  ms_data :: message_data

text \<open>\<open>ServerMessage\<close>, the one kind that the server manager handles, with its types.\<close>

definition CONTEXT_UPDATE :: nat where "CONTEXT_UPDATE = 0"
definition SIGNAL_LEVEL :: nat where "SIGNAL_LEVEL = 1"
definition NOTIFY_ALL_CLIENTS :: nat where "NOTIFY_ALL_CLIENTS = 2"
definition NOTIFY_USERS :: nat where "NOTIFY_USERS = 3"
definition NOTIFY_VIEWERS :: nat where "NOTIFY_VIEWERS = 4"
definition SERVER_STOP :: nat where "SERVER_STOP = 255"

lemmas server_type_defs = CONTEXT_UPDATE_def SIGNAL_LEVEL_def NOTIFY_ALL_CLIENTS_def NOTIFY_USERS_def
  NOTIFY_VIEWERS_def SERVER_STOP_def

definition ServerMessage :: "nat \<Rightarrow> nat \<Rightarrow> message_data \<Rightarrow> message" where
  "ServerMessage src ty data = \<lparr>ms_source = src, ms_destination = SERVER_MAN, ms_type = ty, ms_data = data\<rparr>"

text \<open>The other kinds a client's request is wrapped in, each with its \<open>CLIENT_REQUEST\<close>.\<close>

definition ControllerMessage_request :: "client_request \<Rightarrow> message" where
  "ControllerMessage_request rq = \<lparr>ms_source = CLIENT, ms_destination = SYSTEM_CONTROL, ms_type = 2, ms_data = Data_Request rq\<rparr>"

definition ScannerMessage_request :: "client_request \<Rightarrow> message" where
  "ScannerMessage_request rq = \<lparr>ms_source = CLIENT, ms_destination = SCANNER_SM, ms_type = 0, ms_data = Data_Request rq\<rparr>"

definition DemodMessage_request :: "client_request \<Rightarrow> message" where
  "DemodMessage_request rq = \<lparr>ms_source = CLIENT, ms_destination = DEMOD, ms_type = 0, ms_data = Data_Request rq\<rparr>"

section \<open>Connections\<close>

text \<open>What a connection is handed, in order.\<close>

datatype client_event =
    Got_Scanner_Context scanner_context
  | Got_Demod_Context demod_context
  | Got_Message general_message
  | Got_System_Info system_info
  | Got_Signal_Level int

datatype connection_kind = Console | Socket

record connection =
  cn_kind :: connection_kind
  cn_level :: connection_level
  cn_handle :: int
  cn_managed :: bool
  cn_open :: bool
  cn_inbox :: "client_event list"

definition Connection_init :: "connection_kind \<Rightarrow> connection_level \<Rightarrow> connection" where
  "Connection_init k lvl = \<lparr>cn_kind = k, cn_level = lvl, cn_handle = -1, cn_managed = False,
     cn_open = (k = Socket), cn_inbox = []\<rparr>"

definition deliver_event :: "client_event \<Rightarrow> connection \<Rightarrow> connection" where
  "deliver_event ev c = c\<lparr>cn_inbox := cn_inbox c @ [ev]\<rparr>"

text \<open>
  \<open>connect\<close> of both kinds starts reading and reports success: the console sets \<open>_run\<close>, the
  socket is open already when the server has accepted it.
\<close>

definition connect :: "connection \<Rightarrow> bool \<times> connection" where
  "connect c = (True, c\<lparr>cn_open := True\<rparr>)"

end
