(* ===== verification/Server_Manager.thy ===== *)
theory Server_Manager
  imports Messages
begin

text \<open>
  \<open>ServerManager\<close> (src/src/ServerManager.cpp): the table of connections, permissions, the
  broadcasts, and the thread that empties the message queue. A connection is its position in a
  store, since the servers and the queue share connections with the table.
\<close>

section \<open>State\<close>

definition MAX_CONNECTIONS :: nat where "MAX_CONNECTIONS = 5"

record server_manager =
  sv_store :: "connection list"
  sv_slots :: "nat option list"
  sv_queue :: "message list"
  sv_connectionQueue :: "nat list"
  sv_activeConnections :: int
  sv_msgAvailable :: bool
  sv_allow :: bool
  sv_run :: bool

definition ServerManager_init :: server_manager where
  "ServerManager_init = \<lparr>sv_store = [], sv_slots = replicate MAX_CONNECTIONS None, sv_queue = [],
     sv_connectionQueue = [], sv_activeConnections = 0, sv_msgAvailable = False, sv_allow = False,
     sv_run = False\<rparr>"

definition RQ_ACCEPTED :: int where "RQ_ACCEPTED = 0"
definition RQ_DENIED :: int where "RQ_DENIED = 1"
definition RQ_INSUFFICIENT_PERMISSION :: int where "RQ_INSUFFICIENT_PERMISSION = 2"
definition RQ_INVALID_HANDLE :: int where "RQ_INVALID_HANDLE = 3"

lemmas response_defs = RQ_ACCEPTED_def RQ_DENIED_def RQ_INSUFFICIENT_PERMISSION_def RQ_INVALID_HANDLE_def

fun permissionMap :: "request_type \<Rightarrow> connection_level" where
  "permissionMap NOTIFY_DISCONNECTED = RECEIVE_ONLY"
| "permissionMap SYSTEM_FUNCTION = FULL_CONTROL"
| "permissionMap SCANNER_FUNCTION = FULL_CONTROL"
| "permissionMap DATABASE_RETRIEVE = VIEWER"
| "permissionMap DATABASE_MODIFY = FULL_CONTROL"
| "permissionMap CONFIG_RETRIEVE = VIEWER"
| "permissionMap CONFIG_MODIFY = FULL_CONTROL"
| "permissionMap DEMOD_CONFIGURE = FULL_CONTROL"
| "permissionMap GET_CONTEXT = RECEIVE_ONLY"

definition on_connection :: "nat \<Rightarrow> (connection \<Rightarrow> connection) \<Rightarrow> server_manager \<Rightarrow> server_manager" where
  "on_connection p f s = s\<lparr>sv_store := (sv_store s)[p := f (sv_store s ! p)]\<rparr>"

section \<open>Queues\<close>

text \<open>
  \<open>giveMessage\<close> and \<open>requestConnection\<close> enqueue and then only try the lock: \<open>free\<close> tells
  whether the queue thread has released it. If not, the flag is not set.
\<close>

definition wake :: "bool \<Rightarrow> server_manager \<Rightarrow> server_manager" where
  "wake free s = (if free then s\<lparr>sv_msgAvailable := True\<rparr> else s)"

definition giveMessage :: "bool \<Rightarrow> message \<Rightarrow> server_manager \<Rightarrow> server_manager" where
  "giveMessage free m s = wake free (s\<lparr>sv_queue := sv_queue s @ [m]\<rparr>)"

definition requestConnection :: "bool \<Rightarrow> nat \<Rightarrow> server_manager \<Rightarrow> int \<times> server_manager" where
  "requestConnection free p s =
     (if sv_activeConnections s < int MAX_CONNECTIONS
      then (RQ_ACCEPTED, wake free (s\<lparr>sv_connectionQueue := sv_connectionQueue s @ [p]\<rparr>))
      else (RQ_DENIED, s))"

definition allowConnections :: "server_manager \<Rightarrow> server_manager" where
  "allowConnections s = s\<lparr>sv_allow := True\<rparr>"

section \<open>Requests\<close>

definition makeContextRequest :: "client_request \<Rightarrow> message option result" where
  "makeContextRequest rq =
     (if rq_type rq \<noteq> GET_CONTEXT then Inl Assert_Failed
      else if rq_subType rq = SCANNER_CONTEXT then Inr (Some (ScannerMessage_request rq))
      else if rq_subType rq = DEMOD_CONTEXT then Inr (Some (DemodMessage_request rq))
      else Inr None)"

text \<open>The \<open>switch\<close>: the table after the request, and the message made of it.\<close>

fun dispatch_request :: "client_request \<Rightarrow> server_manager \<Rightarrow> request_type \<Rightarrow> (message option \<times> server_manager) result" where
  "dispatch_request rq s NOTIFY_DISCONNECTED = Inr (None, s\<lparr>sv_slots := (sv_slots s)[rq_source rq := None]\<rparr>)"
| "dispatch_request rq s SYSTEM_FUNCTION = Inr (Some (ControllerMessage_request rq), s)"
| "dispatch_request rq s SCANNER_FUNCTION = Inr (Some (ScannerMessage_request rq), s)"
| "dispatch_request rq s DEMOD_CONFIGURE = Inr (Some (DemodMessage_request rq), s)"
| "dispatch_request rq s GET_CONTEXT = bind_result (makeContextRequest rq) (\<lambda>m. Inr (m, s))"
| "dispatch_request rq s _ = Inr (None, s)"

text \<open>
  The result is the request's own handle, a member that is never assigned (and that is read
  after the request was deleted, in the branches that delete it).
\<close>

definition giveRequest :: "bool \<Rightarrow> client_request \<Rightarrow> server_manager \<Rightarrow> (int \<times> server_manager) result" where
  "giveRequest free rq s =
     bind_result (subscript (sv_slots s) (rq_source rq)) (\<lambda>slot.
       case slot of
         None \<Rightarrow> Inl Null_Deref
       | Some p \<Rightarrow>
           if level_value (cn_level (sv_store s ! p)) < level_value (permissionMap (rq_type rq))
           then Inr (RQ_INSUFFICIENT_PERMISSION, s)
           else bind_result (dispatch_request rq s (rq_type rq)) (\<lambda>(m, s1).
                  Inr (rq_handle rq, case m of None \<Rightarrow> s1 | Some m \<Rightarrow> giveMessage free m s1)))"

text \<open>\<open>Connection::issueRequest\<close> tells the client when its request failed.\<close>

definition request_failed :: "string \<Rightarrow> general_message" where
  "request_failed why = \<lparr>gm_type = ERROR, gm_content = ''Request failed: '' @ why\<rparr>"

definition issueRequest ::
    "bool \<Rightarrow> nat \<Rightarrow> request_type \<Rightarrow> int \<Rightarrow> int option \<Rightarrow> server_manager \<Rightarrow> (int \<times> server_manager) result" where
  "issueRequest free p ty sub data s =
     (if \<not> cn_managed (sv_store s ! p) then Inl Null_Deref
      else bind_result (giveRequest free (ClientRequest_make (cn_handle (sv_store s ! p)) ty sub data) s) (\<lambda>(r, s1).
        Inr (r,
          if r = RQ_DENIED then on_connection p (deliver_event (Got_Message (request_failed ''denied''))) s1
          else if r = RQ_INSUFFICIENT_PERMISSION
          then on_connection p (deliver_event (Got_Message (request_failed ''insufficient permissions''))) s1
          else if r = RQ_INVALID_HANDLE
          then on_connection p (deliver_event (Got_Message (request_failed ''bad connection handle''))) s1
          else s1)))"

definition notifyDisconnected :: "bool \<Rightarrow> nat \<Rightarrow> server_manager \<Rightarrow> server_manager result" where
  "notifyDisconnected free p s =
     bind_result (issueRequest free p NOTIFY_DISCONNECTED (-1) None s) (\<lambda>(_, s1). Inr s1)"

text \<open>\<open>systemFunction(STOP)\<close>, the only request besides the notice that a client still issues.\<close>

definition systemFunction_stop :: "bool \<Rightarrow> nat \<Rightarrow> server_manager \<Rightarrow> (int \<times> server_manager) result" where
  "systemFunction_stop free p s = issueRequest free p SYSTEM_FUNCTION SYSTEM_STOP None s"

section \<open>Connecting and disconnecting\<close>

text \<open>A console always says goodbye; a socket only if it is still open.\<close>

definition disconnect :: "bool \<Rightarrow> nat \<Rightarrow> server_manager \<Rightarrow> server_manager result" where
  "disconnect free p s =
     (let c = sv_store s ! p;
          s1 = on_connection p (\<lambda>c. c\<lparr>cn_open := False\<rparr>) s
      in case cn_kind c of
           Console \<Rightarrow> notifyDisconnected free p s1
         | Socket \<Rightarrow> if cn_open c then notifyDisconnected free p s1 else Inr s)"

text \<open>The loop of \<open>disconnectClients\<close> over the slots from \<open>i\<close>.\<close>

fun disconnect_slots :: "bool \<Rightarrow> nat list \<Rightarrow> server_manager \<Rightarrow> server_manager result" where
  "disconnect_slots free [] s = Inr s"
| "disconnect_slots free (i # is) s =
     (case sv_slots s ! i of
        None \<Rightarrow> disconnect_slots free is s
      | Some p \<Rightarrow> bind_result (disconnect free p s) (disconnect_slots free is))"

definition disconnectClients :: "bool \<Rightarrow> server_manager \<Rightarrow> server_manager result" where
  "disconnectClients free s = disconnect_slots free [0..<MAX_CONNECTIONS] (s\<lparr>sv_allow := False\<rparr>)"

text \<open>The first free slot takes the client; when there is none the client is dropped.\<close>

fun free_slot :: "nat option list \<Rightarrow> nat option" where
  "free_slot [] = None"
| "free_slot (None # _) = Some 0"
| "free_slot (Some _ # xs) = map_option Suc (free_slot xs)"

definition addConnection :: "nat \<Rightarrow> server_manager \<Rightarrow> server_manager" where
  "addConnection p s =
     (case free_slot (sv_slots s) of
        None \<Rightarrow> s
      | Some i \<Rightarrow>
          let s1 = on_connection p (\<lambda>c. c\<lparr>cn_handle := int i, cn_managed := True\<rparr>) s;
              (okay, c) = connect (sv_store s1 ! p);
              s2 = on_connection p (\<lambda>_. c) s1
          in if okay then s2\<lparr>sv_slots := (sv_slots s2)[i := Some p]\<rparr> else s2)"

section \<open>Broadcasts\<close>

text \<open>The loop over the slots: every connection that passes the test is handed the event.\<close>

fun broadcast_slots :: "(connection \<Rightarrow> bool) \<Rightarrow> client_event \<Rightarrow> nat option list \<Rightarrow> server_manager \<Rightarrow> server_manager" where
  "broadcast_slots P ev [] s = s"
| "broadcast_slots P ev (None # slots) s = broadcast_slots P ev slots s"
| "broadcast_slots P ev (Some p # slots) s =
     broadcast_slots P ev slots (if P (sv_store s ! p) then on_connection p (deliver_event ev) s else s)"

definition broadcast :: "(connection \<Rightarrow> bool) \<Rightarrow> client_event \<Rightarrow> server_manager \<Rightarrow> server_manager" where
  "broadcast P ev s = broadcast_slots P ev (sv_slots s) s"

text \<open>A scanner context is copied once for each client.\<close>

definition broadcastScannerContext :: "scanner_context \<Rightarrow> server_manager \<Rightarrow> server_manager" where
  "broadcastScannerContext c = broadcast (\<lambda>_. True) (Got_Scanner_Context (ScannerContext_copy c))"

definition broadcastDemodContext :: "demod_context \<Rightarrow> server_manager \<Rightarrow> server_manager" where
  "broadcastDemodContext c = broadcast (\<lambda>_. True) (Got_Demod_Context c)"

definition broadcastSignalLevelUpdate :: "int \<Rightarrow> server_manager \<Rightarrow> server_manager" where
  "broadcastSignalLevelUpdate level = broadcast (\<lambda>_. True) (Got_Signal_Level level)"

definition group_level :: "nat \<Rightarrow> connection_level" where
  "group_level g =
     (if g = NOTIFY_ALL_CLIENTS then RECEIVE_ONLY
      else if g = NOTIFY_USERS then FULL_CONTROL
      else VIEWER)"

definition broadcastGeneralMessage :: "nat \<Rightarrow> general_message \<Rightarrow> server_manager \<Rightarrow> server_manager" where
  "broadcastGeneralMessage g m =
     broadcast (\<lambda>c. level_value (group_level g) \<le> level_value (cn_level c)) (Got_Message m)"

section \<open>The queue thread\<close>

definition handleMessage :: "bool \<Rightarrow> message \<Rightarrow> server_manager \<Rightarrow> server_manager result" where
  "handleMessage free m s =
     (if ms_destination m \<noteq> SERVER_MAN then Inl Assert_Failed
      else if ms_type m = CONTEXT_UPDATE then
        (if ms_source m = SCANNER_SM then
           (case ms_data m of Data_Scanner_Context c \<Rightarrow> Inr (broadcastScannerContext c s) | _ \<Rightarrow> Inl Bad_Cast)
         else if ms_source m = DEMOD then
           (case ms_data m of Data_Demod_Context c \<Rightarrow> Inr (broadcastDemodContext c s) | _ \<Rightarrow> Inl Bad_Cast)
         else Inr s)
      else if ms_type m = NOTIFY_ALL_CLIENTS \<or> ms_type m = NOTIFY_USERS \<or> ms_type m = NOTIFY_VIEWERS then
        (case ms_data m of Data_General g \<Rightarrow> Inr (broadcastGeneralMessage (ms_type m) g s) | _ \<Rightarrow> Inl Bad_Cast)
      else if ms_type m = SERVER_STOP then
        bind_result (disconnectClients free s) (\<lambda>s1. Inr (s1\<lparr>sv_run := False\<rparr>))
      else if ms_type m = SIGNAL_LEVEL then
        (case ms_data m of Data_Int l \<Rightarrow> Inr (broadcastSignalLevelUpdate l s) | _ \<Rightarrow> Inl Bad_Cast)
      else Inr s)"

text \<open>\<open>stop\<close>, called from the main thread.\<close>

definition server_stop :: "bool \<Rightarrow> server_manager \<Rightarrow> server_manager result" where
  "server_stop free s = bind_result (disconnectClients free s) (\<lambda>s1. Inr (wake free (s1\<lparr>sv_run := False\<rparr>)))"

section \<open>Well-formed tables\<close>

text \<open>
  The table has its five slots, and a connection in slot \<open>i\<close> exists, is managed and has the
  handle \<open>i\<close>, so that no connection has two slots.
\<close>

definition server_ok :: "server_manager \<Rightarrow> bool" where
  "server_ok s \<longleftrightarrow> length (sv_slots s) = MAX_CONNECTIONS \<and>
     (\<forall>i p. i < MAX_CONNECTIONS \<longrightarrow> sv_slots s ! i = Some p \<longrightarrow>
        p < length (sv_store s) \<and> cn_managed (sv_store s ! p) \<and> cn_handle (sv_store s ! p) = int i)"

text \<open>Every connection of the table is open.\<close>

definition all_open :: "server_manager \<Rightarrow> bool" where
  "all_open s \<longleftrightarrow> (\<forall>p. Some p \<in> set (sv_slots s) \<longrightarrow> cn_open (sv_store s ! p))"

lemma server_ok_update [simp]:
  "server_ok (s\<lparr>sv_run := x0\<rparr>) = server_ok s" "all_open (s\<lparr>sv_run := x0\<rparr>) = all_open s"
  "server_ok (s\<lparr>sv_allow := x1\<rparr>) = server_ok s" "all_open (s\<lparr>sv_allow := x1\<rparr>) = all_open s"
  "server_ok (s\<lparr>sv_queue := x2\<rparr>) = server_ok s" "all_open (s\<lparr>sv_queue := x2\<rparr>) = all_open s"
  "server_ok (s\<lparr>sv_msgAvailable := x3\<rparr>) = server_ok s" "all_open (s\<lparr>sv_msgAvailable := x3\<rparr>) = all_open s"
  "server_ok (s\<lparr>sv_connectionQueue := x4\<rparr>) = server_ok s" "all_open (s\<lparr>sv_connectionQueue := x4\<rparr>) = all_open s"
  by (simp_all add: server_ok_def all_open_def)

lemma server_ok_slot:
  assumes "server_ok s" "i < MAX_CONNECTIONS" "sv_slots s ! i = Some p"
  shows "p < length (sv_store s)" "cn_managed (sv_store s ! p)" "cn_handle (sv_store s ! p) = int i"
    "i < length (sv_slots s)"
  using assms by (auto simp: server_ok_def)

lemma slot_unique:
  assumes "server_ok s" "i < MAX_CONNECTIONS" "j < MAX_CONNECTIONS" "sv_slots s ! i = Some p" "sv_slots s ! j = Some p"
  shows "i = j"
  using server_ok_slot(3) [OF assms(1,2,4)] server_ok_slot(3) [OF assms(1,3,5)] by simp

lemma on_connection_frame [simp]:
  "sv_slots (on_connection p f s) = sv_slots s" "sv_queue (on_connection p f s) = sv_queue s"
  "length (sv_store (on_connection p f s)) = length (sv_store s)"
  "sv_allow (on_connection p f s) = sv_allow s" "sv_run (on_connection p f s) = sv_run s"
  "sv_msgAvailable (on_connection p f s) = sv_msgAvailable s"
  "sv_activeConnections (on_connection p f s) = sv_activeConnections s"
  "sv_connectionQueue (on_connection p f s) = sv_connectionQueue s"
  by (simp_all add: on_connection_def)

lemma on_connection_nth:
  "p < length (sv_store s) \<Longrightarrow> sv_store (on_connection p f s) ! q = (if q = p then f (sv_store s ! p) else sv_store s ! q)"
  by (simp add: on_connection_def)

lemma server_ok_wake [simp]: "server_ok (wake b s) = server_ok s" "all_open (wake b s) = all_open s"
  by (simp_all add: wake_def)

lemma server_ok_giveMessage [simp]:
  "server_ok (giveMessage b m s) = server_ok s" "all_open (giveMessage b m s) = all_open s"
  by (simp_all add: giveMessage_def)

lemma wake_frame [simp]:
  "sv_slots (wake b s) = sv_slots s" "sv_store (wake b s) = sv_store s" "sv_queue (wake b s) = sv_queue s"
  "sv_run (wake b s) = sv_run s" "sv_allow (wake b s) = sv_allow s"
  "sv_connectionQueue (wake b s) = sv_connectionQueue s" "sv_activeConnections (wake b s) = sv_activeConnections s"
  by (simp_all add: wake_def)

lemma giveMessage_frame [simp]:
  "sv_slots (giveMessage b m s) = sv_slots s" "sv_store (giveMessage b m s) = sv_store s"
  "sv_queue (giveMessage b m s) = sv_queue s @ [m]" "sv_connectionQueue (giveMessage b m s) = sv_connectionQueue s"
  "sv_activeConnections (giveMessage b m s) = sv_activeConnections s"
  by (simp_all add: giveMessage_def)

section \<open>Requests are checked\<close>

text \<open>The message that a request of a permitted client becomes.\<close>

fun request_message :: "client_request \<Rightarrow> message list" where
  "request_message rq =
     (case rq_type rq of
        SYSTEM_FUNCTION \<Rightarrow> [ControllerMessage_request rq]
      | SCANNER_FUNCTION \<Rightarrow> [ScannerMessage_request rq]
      | DEMOD_CONFIGURE \<Rightarrow> [DemodMessage_request rq]
      | GET_CONTEXT \<Rightarrow> if rq_subType rq = SCANNER_CONTEXT then [ScannerMessage_request rq]
                       else if rq_subType rq = DEMOD_CONTEXT then [DemodMessage_request rq] else []
      | _ \<Rightarrow> [])"

lemma dispatch_request_total:
  "\<exists>m s'. dispatch_request rq s (rq_type rq) = Inr (m, s') \<and>
     (case m of None \<Rightarrow> [] | Some m \<Rightarrow> [m]) = request_message rq \<and>
     s' = (if rq_type rq = NOTIFY_DISCONNECTED then s\<lparr>sv_slots := (sv_slots s)[rq_source rq := None]\<rparr> else s)"
  by (cases "rq_type rq") (auto simp: makeContextRequest_def)

lemma giveRequest_connected:
  assumes "server_ok s" "i < MAX_CONNECTIONS" "sv_slots s ! i = Some p" "rq_source rq = i" "rq_handle rq = 0"
  shows "giveRequest free rq s =
     (if level_value (cn_level (sv_store s ! p)) < level_value (permissionMap (rq_type rq))
      then Inr (RQ_INSUFFICIENT_PERMISSION, s)
      else Inr (RQ_ACCEPTED,
        let s1 = (if rq_type rq = NOTIFY_DISCONNECTED then s\<lparr>sv_slots := (sv_slots s)[i := None]\<rparr> else s)
        in case request_message rq of [] \<Rightarrow> s1 | m # _ \<Rightarrow> giveMessage free m s1))"
proof -
  obtain m s' where d: "dispatch_request rq s (rq_type rq) = Inr (m, s')"
    "(case m of None \<Rightarrow> [] | Some m \<Rightarrow> [m]) = request_message rq"
    "s' = (if rq_type rq = NOTIFY_DISCONNECTED then s\<lparr>sv_slots := (sv_slots s)[rq_source rq := None]\<rparr> else s)"
    using dispatch_request_total by blast
  have sub: "subscript (sv_slots s) (rq_source rq) = Inr (Some p)"
    using server_ok_slot(4) [OF assms(1-3)] assms(3,4) by (simp add: subscript_in)
  have "giveRequest free rq s =
     (if level_value (cn_level (sv_store s ! p)) < level_value (permissionMap (rq_type rq))
      then Inr (RQ_INSUFFICIENT_PERMISSION, s)
      else Inr (0, case m of None \<Rightarrow> s' | Some m \<Rightarrow> giveMessage free m s'))"
    unfolding giveRequest_def sub bind_result_simps by (simp add: d(1) assms(5) del: permissionMap.simps)
  then show ?thesis
    using d(2) [symmetric] d(3) assms(4)
    by (cases m) (simp_all add: RQ_ACCEPTED_def Let_def del: request_message.simps)
qed

lemma request_source: "i < MAX_CONNECTIONS \<Longrightarrow> rq_source (ClientRequest_make (int i) ty sub data) = i"
  by (simp add: ClientRequest_make_def MAX_CONNECTIONS_def)

lemma request_fields [simp]: "rq_handle (ClientRequest_make h ty sub data) = 0"
  "rq_type (ClientRequest_make h ty sub data) = ty" "rq_subType (ClientRequest_make h ty sub data) = sub"
  by (simp_all add: ClientRequest_make_def)

lemma issueRequest_connected:
  assumes "server_ok s" "i < MAX_CONNECTIONS" "sv_slots s ! i = Some p"
    and rq: "rq = ClientRequest_make (int i) ty sub data"
  shows "issueRequest free p ty sub data s =
     (if level_value (cn_level (sv_store s ! p)) < level_value (permissionMap ty)
      then Inr (RQ_INSUFFICIENT_PERMISSION,
        on_connection p (deliver_event (Got_Message (request_failed ''insufficient permissions''))) s)
      else Inr (RQ_ACCEPTED,
        let s1 = (if ty = NOTIFY_DISCONNECTED then s\<lparr>sv_slots := (sv_slots s)[i := None]\<rparr> else s)
        in case request_message rq of [] \<Rightarrow> s1 | m # _ \<Rightarrow> giveMessage free m s1))"
proof -
  have g: "giveRequest free rq s =
     (if level_value (cn_level (sv_store s ! p)) < level_value (permissionMap ty)
      then Inr (RQ_INSUFFICIENT_PERMISSION, s)
      else Inr (RQ_ACCEPTED,
        let s1 = (if ty = NOTIFY_DISCONNECTED then s\<lparr>sv_slots := (sv_slots s)[i := None]\<rparr> else s)
        in case request_message rq of [] \<Rightarrow> s1 | m # _ \<Rightarrow> giveMessage free m s1))"
    using giveRequest_connected [OF assms(1-3), of rq free] request_source [OF assms(2)]
    by (simp add: rq del: request_message.simps)
  show ?thesis
    using g server_ok_slot(2,3) [OF assms(1-3)]
    by (simp add: issueRequest_def rq response_defs del: request_message.simps)
qed

section \<open>Broadcasts\<close>

fun occupants :: "nat option list \<Rightarrow> nat list" where
  "occupants [] = []"
| "occupants (None # xs) = occupants xs"
| "occupants (Some p # xs) = p # occupants xs"

lemma set_occupants: "set (occupants xs) = {p. Some p \<in> set xs}"
  by (induction xs rule: occupants.induct) auto

lemma occupants_distinct:
  assumes "\<And>i j p. i < length xs \<Longrightarrow> j < length xs \<Longrightarrow> xs ! i = Some p \<Longrightarrow> xs ! j = Some p \<Longrightarrow> i = j"
  shows "distinct (occupants xs)"
  using assms
proof (induction xs)
  case (Cons x xs)
  have IH: "distinct (occupants xs)"
  proof (rule Cons.IH)
    fix i j p assume "i < length xs" "j < length xs" "xs ! i = Some p" "xs ! j = Some p"
    then show "i = j" using Cons.prems [of "Suc i" "Suc j" p] by simp
  qed
  have "Some p \<notin> set xs" if "x = Some p" for p
  proof
    assume "Some p \<in> set xs"
    then obtain k where "k < length xs" "xs ! k = Some p" by (auto simp: in_set_conv_nth)
    then show False using Cons.prems [of 0 "Suc k" p] that by simp
  qed
  with IH show ?case by (cases x) (auto simp: set_occupants)
qed simp

lemma server_ok_distinct: "server_ok s \<Longrightarrow> distinct (occupants (sv_slots s))"
  using slot_unique by (intro occupants_distinct) (auto simp: server_ok_def)

lemma server_ok_in_slots:
  "server_ok s \<Longrightarrow> Some p \<in> set (sv_slots s) \<Longrightarrow> p < length (sv_store s)"
  using server_ok_slot(1) by (metis in_set_conv_nth server_ok_def)

lemma broadcast_slots_effect:
  assumes "distinct (occupants slots)" "\<forall>p. Some p \<in> set slots \<longrightarrow> p < length (sv_store s)"
  shows "sv_slots (broadcast_slots P ev slots s) = sv_slots s \<and>
    sv_queue (broadcast_slots P ev slots s) = sv_queue s \<and> sv_run (broadcast_slots P ev slots s) = sv_run s \<and>
    sv_allow (broadcast_slots P ev slots s) = sv_allow s \<and>
    sv_connectionQueue (broadcast_slots P ev slots s) = sv_connectionQueue s \<and>
    sv_activeConnections (broadcast_slots P ev slots s) = sv_activeConnections s \<and>
    length (sv_store (broadcast_slots P ev slots s)) = length (sv_store s) \<and>
    (\<forall>q. sv_store (broadcast_slots P ev slots s) ! q =
      (if Some q \<in> set slots \<and> P (sv_store s ! q) then deliver_event ev (sv_store s ! q) else sv_store s ! q))"
  using assms
proof (induction P ev slots s rule: broadcast_slots.induct)
  case (3 P ev p slots s)
  let ?s = "if P (sv_store s ! p) then on_connection p (deliver_event ev) s else s"
  have p: "p < length (sv_store s)" "Some p \<notin> set slots" "distinct (occupants slots)"
    using "3.prems" by (auto simp: set_occupants)
  have st: "sv_store ?s ! q = (if q = p \<and> P (sv_store s ! p) then deliver_event ev (sv_store s ! p) else sv_store s ! q)" for q
    using p(1) by (auto simp: on_connection_nth)
  show ?case
    using "3.IH" [OF p(3)] "3.prems"(2) p st by auto
qed auto

lemma broadcast_effect:
  assumes "server_ok s"
  shows "sv_slots (broadcast P ev s) = sv_slots s" "sv_queue (broadcast P ev s) = sv_queue s"
    "sv_run (broadcast P ev s) = sv_run s" "length (sv_store (broadcast P ev s)) = length (sv_store s)"
    "sv_allow (broadcast P ev s) = sv_allow s" "sv_connectionQueue (broadcast P ev s) = sv_connectionQueue s"
    "sv_activeConnections (broadcast P ev s) = sv_activeConnections s"
    "sv_store (broadcast P ev s) ! q =
      (if Some q \<in> set (sv_slots s) \<and> P (sv_store s ! q) then deliver_event ev (sv_store s ! q) else sv_store s ! q)"
  using broadcast_slots_effect [OF server_ok_distinct [OF assms], of s P ev] server_ok_in_slots [OF assms]
  by (simp_all add: broadcast_def)

lemma deliver_event_frame [simp]:
  "cn_managed (deliver_event ev c) = cn_managed c" "cn_handle (deliver_event ev c) = cn_handle c"
  "cn_open (deliver_event ev c) = cn_open c" "cn_level (deliver_event ev c) = cn_level c"
  "cn_kind (deliver_event ev c) = cn_kind c" "cn_inbox (deliver_event ev c) = cn_inbox c @ [ev]"
  by (simp_all add: deliver_event_def)

lemma broadcast_ok: "server_ok s \<Longrightarrow> server_ok (broadcast P ev s)"
  using broadcast_effect [of s P ev] by (auto simp: server_ok_def)

lemma broadcast_open: "server_ok s \<Longrightarrow> all_open s \<Longrightarrow> all_open (broadcast P ev s)"
  using broadcast_effect [of s P ev] by (auto simp: all_open_def)

section \<open>Adding and removing\<close>

lemma free_slot_None: "free_slot xs = None \<longleftrightarrow> None \<notin> set xs"
  by (induction xs rule: free_slot.induct) auto

lemma free_slot_Some:
  "free_slot xs = Some i \<Longrightarrow> i < length xs \<and> xs ! i = None \<and> (\<forall>j<i. xs ! j \<noteq> None)"
proof (induction xs arbitrary: i rule: free_slot.induct)
  case (3 x xs)
  then obtain k where "free_slot xs = Some k" "i = Suc k" by auto
  with "3.IH" show ?case by (auto simp: less_Suc_eq_0_disj)
qed auto

lemma addConnection_ok:
  assumes "server_ok s" "p < length (sv_store s)" "Some p \<notin> set (sv_slots s)"
  shows "server_ok (addConnection p s)"
proof (cases "free_slot (sv_slots s)")
  case (Some i)
  have i: "i < MAX_CONNECTIONS" "sv_slots s ! i = None"
    using free_slot_Some [OF Some] assms(1) by (auto simp: server_ok_def)
  have sl: "sv_slots (addConnection p s) = (sv_slots s)[i := Some p]"
    by (simp add: addConnection_def Some connect_def Let_def)
  have st: "sv_store (addConnection p s) ! q =
      (if q = p then (sv_store s ! p)\<lparr>cn_handle := int i, cn_managed := True, cn_open := True\<rparr> else sv_store s ! q)"
    and len: "length (sv_store (addConnection p s)) = length (sv_store s)" for q
    using assms(2) by (simp_all add: addConnection_def Some connect_def Let_def) (simp_all add: on_connection_def)
  have "sv_slots s ! j \<noteq> Some p" if "j < MAX_CONNECTIONS" for j
    using assms(1,3) that by (metis nth_mem server_ok_def)
  then show ?thesis
    using assms(1,2) i sl st len unfolding server_ok_def by (auto simp: nth_list_update)
qed (use assms in \<open>simp add: addConnection_def\<close>)

lemma addConnection_frame:
  "sv_queue (addConnection p s) = sv_queue s" "sv_connectionQueue (addConnection p s) = sv_connectionQueue s"
  "sv_activeConnections (addConnection p s) = sv_activeConnections s" "sv_run (addConnection p s) = sv_run s"
  "sv_allow (addConnection p s) = sv_allow s" "length (sv_store (addConnection p s)) = length (sv_store s)"
  by (auto simp: addConnection_def connect_def Let_def split: option.splits)

lemma addConnection_slots:
  "Some q \<in> set (sv_slots (addConnection p s)) \<Longrightarrow> q = p \<or> Some q \<in> set (sv_slots s)"
  using set_update_subset_insert [of "sv_slots s"]
  by (auto simp: addConnection_def connect_def Let_def split: option.splits dest!: set_update_subset_insert [THEN subsetD])

lemma addConnection_open:
  assumes "all_open s" "p < length (sv_store s)"
  shows "all_open (addConnection p s)"
proof (cases "free_slot (sv_slots s)")
  case (Some i)
  have st: "sv_store (addConnection p s) ! q =
      (if q = p then (sv_store s ! p)\<lparr>cn_handle := int i, cn_managed := True, cn_open := True\<rparr> else sv_store s ! q)" for q
    using assms(2) by (simp add: addConnection_def Some connect_def Let_def) (simp add: on_connection_def)
  show ?thesis using assms(1) st addConnection_slots [of _ p s] by (auto simp: all_open_def)
qed (use assms in \<open>simp add: addConnection_def\<close>)

lemma disconnect_connected:
  assumes "server_ok s" "i < MAX_CONNECTIONS" "sv_slots s ! i = Some p" "cn_open (sv_store s ! p)"
  shows "disconnect free p s =
    Inr ((on_connection p (\<lambda>c. c\<lparr>cn_open := False\<rparr>) s)\<lparr>sv_slots := (sv_slots s)[i := None]\<rparr>)"
proof -
  let ?s1 = "on_connection p (\<lambda>c. c\<lparr>cn_open := False\<rparr>) s"
  have ok: "server_ok ?s1" "sv_slots ?s1 ! i = Some p"
    using assms(1,3) server_ok_slot(1) [OF assms(1-3)] by (auto simp: server_ok_def on_connection_nth)
  have "notifyDisconnected free p ?s1 = Inr (?s1\<lparr>sv_slots := (sv_slots s)[i := None]\<rparr>)"
    using issueRequest_connected [OF ok(1) assms(2) ok(2) refl, of free NOTIFY_DISCONNECTED "-1" None]
    by (simp add: notifyDisconnected_def)
  then show ?thesis using assms(4) by (cases "cn_kind (sv_store s ! p)") (simp_all add: disconnect_def)
qed

lemma disconnect_slots_total:
  assumes "server_ok s" "all_open s" "\<forall>i\<in>set is. i < MAX_CONNECTIONS" "distinct is"
  shows "\<exists>s'. disconnect_slots free is s = Inr s' \<and> server_ok s' \<and> all_open s' \<and> sv_run s' = sv_run s \<and>
    sv_allow s' = sv_allow s \<and> sv_queue s' = sv_queue s \<and> sv_connectionQueue s' = sv_connectionQueue s \<and>
    sv_activeConnections s' = sv_activeConnections s \<and> length (sv_store s') = length (sv_store s) \<and>
    (\<forall>i<MAX_CONNECTIONS. sv_slots s' ! i = (if i \<in> set is then None else sv_slots s ! i))"
  using assms
proof (induction "is" arbitrary: s)
  case (Cons i "is")
  show ?case
  proof (cases "sv_slots s ! i")
    case None
    then show ?thesis using Cons.IH [OF Cons.prems(1,2)] Cons.prems by auto
  next
    case (Some p)
    have i: "i < MAX_CONNECTIONS" "length (sv_slots s) = MAX_CONNECTIONS" using Cons.prems by (auto simp: server_ok_def)
    have p: "p < length (sv_store s)" using server_ok_slot(1) [OF Cons.prems(1) i(1) Some] .
    have "cn_open (sv_store s ! p)" using Cons.prems(2) Some i by (metis all_open_def nth_mem)
    then have d: "disconnect free p s = Inr ((on_connection p (\<lambda>c. c\<lparr>cn_open := False\<rparr>) s)\<lparr>sv_slots := (sv_slots s)[i := None]\<rparr>)"
      (is "_ = Inr ?t") using disconnect_connected [OF Cons.prems(1) i(1) Some] by simp
    have gone: "Some p \<notin> set ((sv_slots s)[i := None])"
    proof
      assume "Some p \<in> set ((sv_slots s)[i := None])"
      then obtain j where "j < MAX_CONNECTIONS" "(sv_slots s)[i := None] ! j = Some p"
        using i(2) by (auto simp: in_set_conv_nth)
      then have "j \<noteq> i" "sv_slots s ! j = Some p" using i by (auto simp: nth_list_update split: if_splits)
      with slot_unique [OF Cons.prems(1) i(1) \<open>j < MAX_CONNECTIONS\<close> Some] show False by simp
    qed
    have ok: "server_ok ?t"
      using Cons.prems(1) p i(1) by (auto simp: server_ok_def on_connection_nth nth_list_update split: if_splits)
    have op: "all_open ?t"
    proof -
      have "cn_open (sv_store ?t ! q)" if "Some q \<in> set ((sv_slots s)[i := None])" for q
      proof -
        have "q \<noteq> p" using that gone by blast
        moreover have "Some q \<in> set (sv_slots s)" using that set_update_subset_insert [of "sv_slots s" i None] by auto
        ultimately show ?thesis using Cons.prems(2) p by (simp add: all_open_def on_connection_nth)
      qed
      then show ?thesis by (simp add: all_open_def)
    qed
    obtain s' where s': "disconnect_slots free is ?t = Inr s'" "server_ok s'" "all_open s'" "sv_run s' = sv_run ?t"
      "sv_allow s' = sv_allow ?t" "sv_queue s' = sv_queue ?t" "sv_connectionQueue s' = sv_connectionQueue ?t"
      "sv_activeConnections s' = sv_activeConnections ?t" "length (sv_store s') = length (sv_store ?t)"
      "\<forall>j<MAX_CONNECTIONS. sv_slots s' ! j = (if j \<in> set is then None else sv_slots ?t ! j)"
      using Cons.IH [OF ok op] Cons.prems(3,4) by auto
    show ?thesis
      by (rule exI [of _ s']) (use s' d Some i Cons.prems(4) in \<open>auto simp: nth_list_update\<close>)
  qed
qed auto

section \<open>Properties\<close>


text \<open>A manager with one viewer connected, for witnesses.\<close>

definition demo_server :: "connection_level \<Rightarrow> server_manager" where
  "demo_server lvl = addConnection 0 (ServerManager_init\<lparr>sv_store := [Connection_init Socket lvl], sv_run := True, sv_allow := True\<rparr>)"

lemma demo_server_ok: "server_ok (demo_server lvl)" "sv_slots (demo_server lvl) ! 0 = Some 0"
  "sv_queue (demo_server lvl) = []" "cn_level (sv_store (demo_server lvl) ! 0) = lvl" "all_open (demo_server lvl)"
proof -
  have e: "server_ok (ServerManager_init\<lparr>sv_store := [Connection_init Socket lvl], sv_run := True, sv_allow := True\<rparr>)"
    by (simp add: server_ok_def ServerManager_init_def)
  show "server_ok (demo_server lvl)" unfolding demo_server_def
    by (rule addConnection_ok [OF e]) (simp_all add: ServerManager_init_def)
  have s: "demo_server lvl = ServerManager_init\<lparr>sv_store := [(Connection_init Socket lvl)\<lparr>cn_handle := 0, cn_managed := True, cn_open := True\<rparr>],
      sv_slots := [Some 0, None, None, None, None], sv_run := True, sv_allow := True\<rparr>"
    by (simp add: demo_server_def addConnection_def ServerManager_init_def MAX_CONNECTIONS_def numeral_eq_Suc
        on_connection_def connect_def)
  show "sv_slots (demo_server lvl) ! 0 = Some 0" "sv_queue (demo_server lvl) = []"
    "cn_level (sv_store (demo_server lvl) ! 0) = lvl" "all_open (demo_server lvl)"
    by (simp_all add: s all_open_def) (simp_all add: ServerManager_init_def Connection_init_def)
qed


text \<open>
  C25: A broadcast reaches every client it is for, once, and no one else. Whatever the message
  thread handles, a scanner context, a demodulator context, a signal level or a general message
  for a group of users: each connection of the table whose level is high enough gets exactly
  one event at the end of its inbox, all others are untouched, and the table stays well-formed.
  Of a scanner context the clients get the copy, without the delay and the lockout flag.
\<close>

theorem broadcast_reaches_clients:
  assumes "server_ok s"
    and "(m, ev, need) \<in>
      {(ServerMessage SCANNER_SM CONTEXT_UPDATE (Data_Scanner_Context c), Got_Scanner_Context (ScannerContext_copy c), RECEIVE_ONLY),
       (ServerMessage DEMOD CONTEXT_UPDATE (Data_Demod_Context dc), Got_Demod_Context dc, RECEIVE_ONLY),
       (ServerMessage DEMOD SIGNAL_LEVEL (Data_Int l), Got_Signal_Level l, RECEIVE_ONLY),
       (ServerMessage src NOTIFY_ALL_CLIENTS (Data_General g), Got_Message g, RECEIVE_ONLY),
       (ServerMessage src NOTIFY_VIEWERS (Data_General g), Got_Message g, VIEWER),
       (ServerMessage src NOTIFY_USERS (Data_General g), Got_Message g, FULL_CONTROL)}"
  shows "\<exists>s'. handleMessage free m s = Inr s' \<and> server_ok s' \<and> sv_slots s' = sv_slots s \<and>
    (\<forall>q. cn_inbox (sv_store s' ! q) = cn_inbox (sv_store s ! q) @
       (if Some q \<in> set (sv_slots s) \<and> level_value need \<le> level_value (cn_level (sv_store s ! q)) then [ev] else []))"
proof -
  have "\<exists>P. handleMessage free m s = Inr (broadcast P ev s) \<and> (\<forall>c. P c = (level_value need \<le> level_value (cn_level c)))"
    using assms(2)
    by (auto simp: handleMessage_def ServerMessage_def server_type_defs destination_defs broadcastScannerContext_def
        broadcastDemodContext_def broadcastSignalLevelUpdate_def broadcastGeneralMessage_def group_level_def)
  then obtain P where P: "handleMessage free m s = Inr (broadcast P ev s)"
    "\<And>c. P c = (level_value need \<le> level_value (cn_level c))" by blast
  show ?thesis
    using P broadcast_effect [OF assms(1), of P ev] broadcast_ok [OF assms(1), of P ev]
    by (intro exI [of _ "broadcast P ev s"]) auto
qed

theorem broadcast_reaches_clients_witness:
  "\<exists>s'. handleMessage True (ServerMessage DEMOD SIGNAL_LEVEL (Data_Int 42)) (demo_server VIEWER) = Inr s' \<and>
     last (cn_inbox (sv_store s' ! 0)) = Got_Signal_Level 42"
proof -
  obtain s' where s': "handleMessage True (ServerMessage DEMOD SIGNAL_LEVEL (Data_Int 42)) (demo_server VIEWER) = Inr s'"
    "\<forall>q. cn_inbox (sv_store s' ! q) = cn_inbox (sv_store (demo_server VIEWER) ! q) @
       (if Some q \<in> set (sv_slots (demo_server VIEWER)) \<and> level_value RECEIVE_ONLY \<le> level_value (cn_level (sv_store (demo_server VIEWER) ! q))
        then [Got_Signal_Level 42] else [])"
    using broadcast_reaches_clients [OF demo_server_ok(1) [of VIEWER], where free = True and
        m = "ServerMessage DEMOD SIGNAL_LEVEL (Data_Int 42)" and ev = "Got_Signal_Level 42" and need = RECEIVE_ONLY and l = 42]
    by auto
  have "Some 0 \<in> set (sv_slots (demo_server VIEWER))"
    using demo_server_ok(1,2) [of VIEWER] by (metis MAX_CONNECTIONS_def nth_mem server_ok_def zero_less_numeral)
  with s' show ?thesis by auto
qed

text \<open>
  Stopping the server disconnects everyone: \<open>stop\<close> never faults, closes the door to new
  clients, leaves no connection in the table and ends the run of the queue thread, while the
  messages already queued stay where they are.
\<close>

theorem stop_disconnects_all:
  assumes "server_ok s" "all_open s"
  shows "\<exists>s'. server_stop free s = Inr s' \<and> \<not> sv_run s' \<and> \<not> sv_allow s' \<and> sv_queue s' = sv_queue s \<and>
    sv_slots s' = replicate MAX_CONNECTIONS None"
proof -
  let ?s = "s\<lparr>sv_allow := False\<rparr>"
  have ok: "server_ok ?s" "all_open ?s" using assms by (simp_all add: server_ok_def all_open_def)
  obtain s' where s': "disconnect_slots free [0..<MAX_CONNECTIONS] ?s = Inr s'" "server_ok s'" "sv_allow s' = sv_allow ?s"
    "sv_queue s' = sv_queue ?s" "\<forall>i<MAX_CONNECTIONS. sv_slots s' ! i = (if i \<in> set [0..<MAX_CONNECTIONS] then None else sv_slots ?s ! i)"
    using disconnect_slots_total [OF ok, of "[0..<MAX_CONNECTIONS]" free] by auto
  have "sv_slots s' = replicate MAX_CONNECTIONS None"
    using s'(2,5) by (intro nth_equalityI) (auto simp: server_ok_def)
  then show ?thesis using s' by (simp add: server_stop_def disconnectClients_def)
qed

theorem stop_disconnects_all_witness:
  "\<exists>s'. server_stop False (demo_server VIEWER) = Inr s' \<and> sv_slots s' = replicate MAX_CONNECTIONS None"
  using stop_disconnects_all [OF demo_server_ok(1,5)] by blast

text \<open>
  A client's accepted request brings the server down. The only requests a client can make
  besides leaving are wrapped in messages for other receivers, but queued for the server
  manager itself, whose thread asserts that it is the destination. So the console's \<open>exit\<close>
  of a client with full control is accepted and then aborts the process, whatever the state.
\<close>

theorem client_stop_aborts:
  assumes "server_ok s" "i < MAX_CONNECTIONS" "sv_slots s ! i = Some p" "cn_level (sv_store s ! p) = FULL_CONTROL"
  shows "\<exists>s' m. systemFunction_stop free p s = Inr (RQ_ACCEPTED, s') \<and> sv_queue s' = sv_queue s @ [m] \<and>
    (\<forall>free' t. handleMessage free' m t = Inl Assert_Failed)"
  using issueRequest_connected [OF assms(1-3) refl, of free SYSTEM_FUNCTION SYSTEM_STOP None] assms(4)
  by (simp add: systemFunction_stop_def handleMessage_def ControllerMessage_request_def destination_defs)

theorem client_stop_aborts_witness:
  "\<exists>s' m. systemFunction_stop True 0 (demo_server FULL_CONTROL) = Inr (RQ_ACCEPTED, s') \<and> sv_queue s' = [m] \<and>
     handleMessage True m s' = Inl Assert_Failed"
proof -
  obtain s' m where "systemFunction_stop True 0 (demo_server FULL_CONTROL) = Inr (RQ_ACCEPTED, s')"
    "sv_queue s' = sv_queue (demo_server FULL_CONTROL) @ [m]" "\<forall>free' t. handleMessage free' m t = Inl Assert_Failed"
    using client_stop_aborts [OF demo_server_ok(1) _ demo_server_ok(2), of FULL_CONTROL True]
    by (auto simp: MAX_CONNECTIONS_def demo_server_ok(4))
  then show ?thesis by (simp add: demo_server_ok(3))
qed

end
