(* ===== verification/Server_Queue.thy ===== *)
theory Server_Queue
  imports Server_Manager
begin

text \<open>
  The queue thread of \<open>ServerManager\<close> (\<open>_queueThreadFunc\<close> in src/src/ServerManager.cpp) beside
  the threads that give it messages and connections, as a step relation. What another thread
  does under way is \<open>qc_tries\<close>, the number of callers that have enqueued and not yet tried the
  lock; \<open>qc_sent\<close> and \<open>qc_handled\<close> record the messages for the statements only. The queues are
  those of a library: which of the waiting messages \<open>try_dequeue\<close> gives is left open.
\<close>

section \<open>Configurations\<close>

datatype queue_phase =
    Loop_Head            \<comment> \<open>about to test \<open>_run\<close>\<close>
  | Lock_Held            \<comment> \<open>the lock is taken, the condition not yet tested\<close>
  | Waiting              \<comment> \<open>in \<open>_cv.wait\<close>, the lock released\<close>
  | Message_Loop
  | Connection_Loop
  | Thread_Ended
  | Aborted fault

record queue_config =
  qc_man :: server_manager
  qc_phase :: queue_phase
  qc_tries :: nat
  qc_sent :: "message list"
  qc_handled :: "message list"

definition lock_free :: "queue_config \<Rightarrow> bool" where
  "lock_free c \<longleftrightarrow> qc_phase c = Loop_Head \<or> qc_phase c = Waiting \<or> qc_phase c = Thread_Ended"

definition queue_start :: "connection list \<Rightarrow> queue_config" where
  "queue_start cs = \<lparr>qc_man = ServerManager_init\<lparr>sv_store := cs, sv_run := True\<rparr>, qc_phase = Loop_Head,
     qc_tries = 0, qc_sent = [], qc_handled = []\<rparr>"

text \<open>The steps of the queue thread.\<close>

inductive thread_step :: "queue_config \<Rightarrow> queue_config \<Rightarrow> bool" where
  enter: "qc_phase c = Loop_Head \<Longrightarrow> sv_run (qc_man c) \<Longrightarrow> thread_step c (c\<lparr>qc_phase := Lock_Held\<rparr>)"
| leave: "qc_phase c = Loop_Head \<Longrightarrow> \<not> sv_run (qc_man c) \<Longrightarrow>
    thread_step c (c\<lparr>qc_phase := Thread_Ended, qc_man := (qc_man c)\<lparr>sv_queue := []\<rparr>\<rparr>)"
| sleep: "qc_phase c = Lock_Held \<Longrightarrow> \<not> sv_msgAvailable (qc_man c) \<Longrightarrow> thread_step c (c\<lparr>qc_phase := Waiting\<rparr>)"
| go_on: "qc_phase c = Lock_Held \<or> qc_phase c = Waiting \<Longrightarrow> sv_msgAvailable (qc_man c) \<Longrightarrow>
    thread_step c (c\<lparr>qc_phase := Message_Loop\<rparr>)"
| take_message: "qc_phase c = Message_Loop \<Longrightarrow> m \<in> set (sv_queue (qc_man c)) \<Longrightarrow>
    handleMessage False m ((qc_man c)\<lparr>sv_queue := remove1 m (sv_queue (qc_man c))\<rparr>) = Inr s \<Longrightarrow>
    thread_step c (c\<lparr>qc_man := s\<lparr>sv_msgAvailable := False\<rparr>, qc_handled := qc_handled c @ [m]\<rparr>)"
| abort: "qc_phase c = Message_Loop \<Longrightarrow> m \<in> set (sv_queue (qc_man c)) \<Longrightarrow>
    handleMessage False m ((qc_man c)\<lparr>sv_queue := remove1 m (sv_queue (qc_man c))\<rparr>) = Inl f \<Longrightarrow>
    thread_step c (c\<lparr>qc_phase := Aborted f\<rparr>)"
| no_more_messages: "qc_phase c = Message_Loop \<Longrightarrow> sv_queue (qc_man c) = [] \<Longrightarrow>
    thread_step c (c\<lparr>qc_phase := Connection_Loop\<rparr>)"
| take_connection: "qc_phase c = Connection_Loop \<Longrightarrow> sv_allow (qc_man c) \<Longrightarrow> sv_connectionQueue (qc_man c) = p # ps \<Longrightarrow>
    thread_step c (c\<lparr>qc_man := (addConnection p ((qc_man c)\<lparr>sv_connectionQueue := ps\<rparr>))\<lparr>sv_msgAvailable := False\<rparr>\<rparr>)"
| pass_done: "qc_phase c = Connection_Loop \<Longrightarrow> \<not> sv_allow (qc_man c) \<or> sv_connectionQueue (qc_man c) = [] \<Longrightarrow>
    thread_step c (c\<lparr>qc_phase := Loop_Head\<rparr>)"

text \<open>
  The steps of other threads: \<open>giveMessage\<close> and \<open>requestConnection\<close> in their two halves (a
  connection is offered once), the requests and the leaving of connected clients,
  \<open>allowConnections\<close>, and the first half of \<open>stop\<close>.
\<close>

inductive other_step :: "queue_config \<Rightarrow> queue_config \<Rightarrow> bool" where
  send: "other_step c (c\<lparr>qc_man := giveMessage False m (qc_man c), qc_tries := qc_tries c + 1, qc_sent := qc_sent c @ [m]\<rparr>)"
| offer: "p < length (sv_store (qc_man c)) \<Longrightarrow> p \<notin> set (sv_connectionQueue (qc_man c)) \<Longrightarrow> Some p \<notin> set (sv_slots (qc_man c)) \<Longrightarrow>
    other_step c (c\<lparr>qc_man := snd (requestConnection False p (qc_man c)), qc_tries := qc_tries c + 1\<rparr>)"
| attempt: "0 < qc_tries c \<Longrightarrow> other_step c (c\<lparr>qc_man := wake (lock_free c) (qc_man c), qc_tries := qc_tries c - 1\<rparr>)"
| request: "i < MAX_CONNECTIONS \<Longrightarrow> sv_slots (qc_man c) ! i = Some p \<Longrightarrow>
    issueRequest False p ty sub data (qc_man c) = Inr (r, s) \<Longrightarrow>
    other_step c (c\<lparr>qc_man := s, qc_tries := qc_tries c + 1,
      qc_sent := qc_sent c @ drop (length (sv_queue (qc_man c))) (sv_queue s)\<rparr>)"
| allow: "other_step c (c\<lparr>qc_man := allowConnections (qc_man c)\<rparr>)"
| stop: "server_stop False (qc_man c) = Inr s \<Longrightarrow> other_step c (c\<lparr>qc_man := s, qc_tries := qc_tries c + 1\<rparr>)"

inductive queue_reach :: "queue_config \<Rightarrow> queue_config \<Rightarrow> bool" for c where
  here: "queue_reach c c"
| by_thread: "queue_reach c d \<Longrightarrow> thread_step d e \<Longrightarrow> queue_reach c e"
| by_other: "queue_reach c d \<Longrightarrow> other_step d e \<Longrightarrow> queue_reach c e"

inductive_cases thread_step_cases: "thread_step c d"
inductive_cases other_step_cases: "other_step c d"
inductive_simps thread_step_simps: "thread_step c d"

section \<open>What every step keeps\<close>

definition table_kept :: "server_manager \<Rightarrow> server_manager \<Rightarrow> bool" where
  "table_kept s s' \<longleftrightarrow> server_ok s' \<and> all_open s' \<and> sv_connectionQueue s' = sv_connectionQueue s \<and>
     sv_activeConnections s' = sv_activeConnections s \<and> length (sv_store s') = length (sv_store s) \<and>
     (\<forall>p. Some p \<in> set (sv_slots s') \<longrightarrow> Some p \<in> set (sv_slots s))"

lemma table_kept_broadcast:
  "server_ok s \<Longrightarrow> all_open s \<Longrightarrow> table_kept s (broadcast P ev s) \<and> sv_queue (broadcast P ev s) = sv_queue s"
  using broadcast_effect [of s P ev] broadcast_ok [of s P ev] broadcast_open [of s P ev] by (simp add: table_kept_def)

lemma disconnectClients_kept:
  assumes "server_ok s" "all_open s"
  shows "\<exists>s'. disconnectClients free s = Inr s' \<and> table_kept s s' \<and> sv_queue s' = sv_queue s"
proof -
  let ?s = "s\<lparr>sv_allow := False\<rparr>"
  have ok: "server_ok ?s" "all_open ?s" using assms by (simp_all add: server_ok_def all_open_def)
  obtain s' where s': "disconnect_slots free [0..<MAX_CONNECTIONS] ?s = Inr s'" "server_ok s'" "all_open s'"
    "sv_queue s' = sv_queue s" "sv_connectionQueue s' = sv_connectionQueue s"
    "sv_activeConnections s' = sv_activeConnections s" "length (sv_store s') = length (sv_store s)"
    "\<forall>i<MAX_CONNECTIONS. sv_slots s' ! i = None"
    using disconnect_slots_total [OF ok, of "[0..<MAX_CONNECTIONS]" free] by auto
  have "Some p \<notin> set (sv_slots s')" for p
    using s'(2,8) by (auto simp: in_set_conv_nth server_ok_def)
  with s' show ?thesis by (simp add: disconnectClients_def table_kept_def)
qed

lemma handleMessage_kept:
  assumes "server_ok s" "all_open s" "handleMessage free m s = Inr s'"
  shows "table_kept s s' \<and> sv_queue s' = sv_queue s"
proof -
  have same: "table_kept s s" using assms(1,2) by (simp add: table_kept_def)
  obtain t where t: "disconnectClients free s = Inr t" "table_kept s t" "sv_queue t = sv_queue s"
    using disconnectClients_kept [OF assms(1,2)] by blast
  have "table_kept s (t\<lparr>sv_run := False\<rparr>)"
    using t(2) by (simp add: table_kept_def)
  then show ?thesis
    using assms(3) same t table_kept_broadcast [OF assms(1,2)]
    by (auto simp: handleMessage_def broadcastScannerContext_def broadcastDemodContext_def
        broadcastSignalLevelUpdate_def broadcastGeneralMessage_def split: if_splits message_data.splits)
qed

lemma issueRequest_kept:
  assumes "server_ok s" "all_open s" "i < MAX_CONNECTIONS" "sv_slots s ! i = Some p"
    and "issueRequest free p ty sub data s = Inr (r, s')"
  shows "table_kept s s' \<and> (\<exists>ms. sv_queue s' = sv_queue s @ ms)"
proof -
  let ?s1 = "if ty = NOTIFY_DISCONNECTED then s\<lparr>sv_slots := (sv_slots s)[i := None]\<rparr> else s"
  have "length (sv_slots s) = MAX_CONNECTIONS" using assms(1) by (simp add: server_ok_def)
  then have k: "table_kept s ?s1"
    using assms(1,2,3) set_update_subset_insert [of "sv_slots s" i None]
    by (auto simp: table_kept_def server_ok_def all_open_def nth_list_update split: if_splits)
  have "table_kept s (on_connection p (deliver_event ev) s)" for ev
    using assms(1,2) server_ok_slot(1) [OF assms(1,3,4)]
    by (auto simp: table_kept_def server_ok_def all_open_def on_connection_nth)
  moreover have "table_kept s (giveMessage free m ?s1)" for m
    using k by (simp add: table_kept_def)
  ultimately show ?thesis
    using assms(5) k unfolding issueRequest_connected [OF assms(1,3,4) refl] Let_def
    by (auto simp del: request_message.simps split: if_splits list.splits)
qed

definition queue_inv :: "queue_config \<Rightarrow> bool" where
  "queue_inv c \<longleftrightarrow> server_ok (qc_man c) \<and> all_open (qc_man c) \<and> sv_activeConnections (qc_man c) = 0 \<and>
     distinct (sv_connectionQueue (qc_man c)) \<and>
     (\<forall>p\<in>set (sv_connectionQueue (qc_man c)). p < length (sv_store (qc_man c)) \<and> Some p \<notin> set (sv_slots (qc_man c))) \<and>
     (qc_phase c \<noteq> Thread_Ended \<longrightarrow> mset (qc_handled c) + mset (sv_queue (qc_man c)) = mset (qc_sent c))"

lemma queue_inv_table:
  assumes "queue_inv c" "table_kept (qc_man c) s"
    and "qc_phase d = Thread_Ended \<or> mset (qc_handled d) + mset (sv_queue (qc_man d)) = mset (qc_sent d)"
    and "qc_man d = s\<lparr>sv_msgAvailable := b\<rparr>"
  shows "queue_inv d"
  using assms unfolding queue_inv_def table_kept_def by auto

lemma thread_step_keeps:
  assumes "thread_step c d" "queue_inv c"
  shows "queue_inv d"
  using assms
proof (cases rule: thread_step.cases)
  case (take_message m s)
  let ?s = "(qc_man c)\<lparr>sv_queue := remove1 m (sv_queue (qc_man c))\<rparr>"
  have ok: "server_ok ?s" "all_open ?s" using assms(2) by (simp_all add: queue_inv_def)
  have k: "table_kept ?s s" "sv_queue s = sv_queue ?s" using handleMessage_kept [OF ok take_message(4)] by simp_all
  then have k': "table_kept (qc_man c) s" by (simp add: table_kept_def)
  have "mset (qc_handled c) + mset (sv_queue (qc_man c)) = mset (qc_sent c)"
    using assms(2) take_message(2) by (simp add: queue_inv_def)
  moreover have "add_mset m (mset (remove1 m (sv_queue (qc_man c)))) = mset (sv_queue (qc_man c))"
    using take_message(3) by simp
  ultimately have "add_mset m (mset (qc_handled c) + mset (remove1 m (sv_queue (qc_man c)))) = mset (qc_sent c)"
    by (metis add_mset_add_single union_mset_add_mset_right)
  then show ?thesis
    using k(2) by (intro queue_inv_table [OF assms(2) k', where b = False]) (simp_all add: take_message(1))
next
  case (take_connection p ps)
  let ?s = "(qc_man c)\<lparr>sv_connectionQueue := ps\<rparr>"
  have ok: "server_ok ?s" "all_open ?s" using assms(2) by (simp_all add: queue_inv_def)
  have p: "p < length (sv_store ?s)" "Some p \<notin> set (sv_slots ?s)" "p \<notin> set ps"
    using assms(2) take_connection by (simp_all add: queue_inv_def)
  have "server_ok (addConnection p ?s)" "all_open (addConnection p ?s)"
    using addConnection_ok [OF ok(1) p(1,2)] addConnection_open [OF ok(2) p(1)] by simp_all
  then show ?thesis
    using assms(2) take_connection p addConnection_slots [of _ p ?s] addConnection_frame [of p ?s]
    by (auto simp: queue_inv_def)
qed (auto simp: queue_inv_def)

lemma other_step_keeps:
  assumes "other_step c d" "queue_inv c"
  shows "queue_inv d"
  using assms
proof (cases rule: other_step.cases)
  case (request i p ty sub data r s)
  have k: "table_kept (qc_man c) s" and q: "\<exists>ms. sv_queue s = sv_queue (qc_man c) @ ms"
    using issueRequest_kept [OF _ _ request(2,3,4)] assms(2) by (auto simp: queue_inv_def)
  obtain ms where ms: "sv_queue s = sv_queue (qc_man c) @ ms" using q by blast
  show ?thesis
    by (rule queue_inv_table [OF assms(2) k, where b = "sv_msgAvailable s"])
      (use assms(2) ms in \<open>auto simp: request(1) queue_inv_def simp flip: add.assoc\<close>)
next
  case (stop s)
  obtain t where t: "disconnectClients False (qc_man c) = Inr t" "table_kept (qc_man c) t" "sv_queue t = sv_queue (qc_man c)"
    using disconnectClients_kept [of "qc_man c" False] assms(2) by (auto simp: queue_inv_def)
  then have s: "s = t\<lparr>sv_run := False\<rparr>" using stop(2) by (simp add: server_stop_def wake_def)
  have "table_kept (qc_man c) s" using t(2) by (simp add: s table_kept_def)
  then show ?thesis
    by (rule queue_inv_table [OF assms(2), where b = "sv_msgAvailable s"])
      (use assms(2) t(3) in \<open>auto simp: stop(1) s queue_inv_def\<close>)
qed (auto simp: queue_inv_def requestConnection_def allowConnections_def)

lemma queue_reach_keeps: "queue_reach c d \<Longrightarrow> queue_inv c \<Longrightarrow> queue_inv d"
  by (induction rule: queue_reach.induct) (auto intro: thread_step_keeps other_step_keeps)

lemma queue_start_inv: "queue_inv (queue_start cs)"
  by (simp add: queue_inv_def queue_start_def ServerManager_init_def server_ok_def all_open_def)

lemma stop_total:
  assumes "server_ok s" "all_open s"
  shows "\<exists>s'. server_stop free s = Inr s' \<and> \<not> sv_run s' \<and> sv_queue s' = sv_queue s"
proof -
  obtain t where "disconnectClients free s = Inr t" "sv_queue t = sv_queue s"
    using disconnectClients_kept [OF assms] by blast
  then show ?thesis by (simp add: server_stop_def)
qed

lemma disconnect_slots_flag:
  "disconnect_slots False is s = Inr s' \<Longrightarrow> sv_msgAvailable s' = sv_msgAvailable s"
proof (induction "is" arbitrary: s)
  case (Cons i "is")
  have "issueRequest False p NOTIFY_DISCONNECTED sub data s = Inr (r, t) \<Longrightarrow> sv_msgAvailable t = sv_msgAvailable s" for p sub data s r t
    by (auto simp: issueRequest_def giveRequest_def bind_result_Inr_iff split: if_splits option.splits)
  then have "disconnect False p s = Inr t \<Longrightarrow> sv_msgAvailable t = sv_msgAvailable s" for p t
    by (fastforce simp: disconnect_def Let_def notifyDisconnected_def bind_result_Inr_iff split: connection_kind.splits if_splits)
  with Cons show ?case by (fastforce simp: bind_result_Inr_iff split: option.splits)
qed simp

lemma stop_flag: "server_stop False s = Inr s' \<Longrightarrow> sv_msgAvailable s' = sv_msgAvailable s"
  using disconnect_slots_flag [of _ "s\<lparr>sv_allow := False\<rparr>"]
  by (fastforce simp: server_stop_def disconnectClients_def wake_def bind_result_Inr_iff)

section \<open>Properties\<close>


definition demo_message :: message where
  "demo_message = ServerMessage DEMOD SIGNAL_LEVEL (Data_Int 42)"

text \<open>One client has sent a message, and has tried the lock.\<close>

definition demo_sent :: queue_config where
  "demo_sent = (queue_start [])\<lparr>qc_man := (giveMessage False demo_message (qc_man (queue_start [])))\<lparr>sv_msgAvailable := True\<rparr>,
     qc_sent := [demo_message], qc_phase := Waiting\<rparr>"

lemma demo_sent_reached: "queue_reach (queue_start []) demo_sent"
proof -
  let ?c0 = "queue_start []"
  let ?c1 = "?c0\<lparr>qc_phase := Lock_Held\<rparr>"
  let ?c2 = "?c1\<lparr>qc_phase := Waiting\<rparr>"
  let ?c3 = "?c2\<lparr>qc_man := giveMessage False demo_message (qc_man ?c2), qc_tries := qc_tries ?c2 + 1, qc_sent := qc_sent ?c2 @ [demo_message]\<rparr>"
  let ?c4 = "?c3\<lparr>qc_man := wake (lock_free ?c3) (qc_man ?c3), qc_tries := qc_tries ?c3 - 1\<rparr>"
  have "thread_step ?c0 ?c1" by (rule thread_step.enter) (simp_all add: queue_start_def)
  then have "queue_reach ?c0 ?c1" by (rule queue_reach.by_thread [OF queue_reach.here])
  moreover have "thread_step ?c1 ?c2" by (rule thread_step.sleep) (simp_all add: queue_start_def ServerManager_init_def)
  ultimately have "queue_reach ?c0 ?c2" by (rule queue_reach.by_thread)
  moreover have "other_step ?c2 ?c3" by (rule other_step.send)
  ultimately have "queue_reach ?c0 ?c3" by (rule queue_reach.by_other)
  moreover have "other_step ?c3 ?c4" by (rule other_step.attempt) (simp add: queue_start_def)
  ultimately have "queue_reach ?c0 ?c4" by (rule queue_reach.by_other)
  moreover have "?c4 = demo_sent" by (simp add: demo_sent_def lock_free_def wake_def queue_start_def)
  ultimately show ?thesis by simp
qed


text \<open>
  A wake-up can be lost. \<open>giveMessage\<close> and \<open>stop\<close> only try the lock, and set the flag only if
  they get it, while the queue thread holds it from the test of \<open>_run\<close> to the wait. There is an
  interleaving in which a message is given, the server is stopped, both callers have returned,
  and the queue thread sleeps with the message queued and nothing left to wake it: no step of
  it is possible, so it neither handles the message nor ends, and the main thread, which waits
  for it to deinitialise, hangs.
\<close>

theorem wake_up_can_be_lost:
  "\<exists>c. queue_reach (queue_start cs) c \<and> qc_tries c = 0 \<and> \<not> sv_run (qc_man c) \<and>
     sv_queue (qc_man c) = [m] \<and> qc_handled c = [] \<and> qc_phase c = Waiting \<and> (\<forall>d. \<not> thread_step c d)"
proof -
  let ?c0 = "queue_start cs"
  let ?c1 = "?c0\<lparr>qc_phase := Lock_Held\<rparr>"
  let ?c2 = "?c1\<lparr>qc_man := giveMessage False m (qc_man ?c1), qc_tries := qc_tries ?c1 + 1, qc_sent := qc_sent ?c1 @ [m]\<rparr>"
  let ?c3 = "?c2\<lparr>qc_man := wake (lock_free ?c2) (qc_man ?c2), qc_tries := qc_tries ?c2 - 1\<rparr>"
  have "thread_step ?c0 ?c1" by (rule thread_step.enter) (simp_all add: queue_start_def)
  then have "queue_reach ?c0 ?c1" by (rule queue_reach.by_thread [OF queue_reach.here])
  moreover have "other_step ?c1 ?c2" by (rule other_step.send)
  ultimately have "queue_reach ?c0 ?c2" by (rule queue_reach.by_other)
  moreover have "other_step ?c2 ?c3" by (rule other_step.attempt) (simp add: queue_start_def)
  ultimately have r3: "queue_reach ?c0 ?c3" by (rule queue_reach.by_other)
  have "queue_inv ?c3" by (rule queue_reach_keeps [OF r3 queue_start_inv])
  then have ok: "server_ok (qc_man ?c3)" "all_open (qc_man ?c3)" by (simp_all add: queue_inv_def)
  obtain s where s: "server_stop False (qc_man ?c3) = Inr s" "\<not> sv_run s" "sv_queue s = sv_queue (qc_man ?c3)"
    using stop_total [OF ok] by blast
  let ?c4 = "?c3\<lparr>qc_man := s, qc_tries := qc_tries ?c3 + 1\<rparr>"
  let ?c5 = "?c4\<lparr>qc_man := wake (lock_free ?c4) (qc_man ?c4), qc_tries := qc_tries ?c4 - 1\<rparr>"
  let ?c6 = "?c5\<lparr>qc_phase := Waiting\<rparr>"
  have m3: "\<not> sv_msgAvailable (qc_man ?c3)"
    by (simp add: queue_start_def lock_free_def wake_def giveMessage_def ServerManager_init_def)
  have m: "\<not> sv_msgAvailable s" using stop_flag [OF s(1)] m3 by simp
  have "other_step ?c3 ?c4" by (rule other_step.stop [OF s(1)])
  with r3 have "queue_reach ?c0 ?c4" by (rule queue_reach.by_other)
  moreover have "other_step ?c4 ?c5" by (rule other_step.attempt) simp
  ultimately have "queue_reach ?c0 ?c5" by (rule queue_reach.by_other)
  moreover have "thread_step ?c5 ?c6" by (rule thread_step.sleep) (use m in \<open>simp_all add: lock_free_def wake_def\<close>)
  ultimately have "queue_reach ?c0 ?c6" by (rule queue_reach.by_thread)
  moreover have "\<not> thread_step ?c6 d" for d
    using m by (auto simp: thread_step_simps lock_free_def wake_def)
  moreover have "sv_queue s = [m]"
    using s(3) by (simp add: queue_start_def ServerManager_init_def)
  ultimately show ?thesis
    using s(2) by (intro exI [of _ ?c6]) (simp add: queue_start_def lock_free_def wake_def)
qed

text \<open>
  The connection limit is not enforced where it is tested. \<open>_activeConnections\<close> is never
  changed, so every request for a connection is accepted; when the five slots are taken the
  accepted client is dropped by the queue thread without a word: it is never connected and gets
  no handle.
\<close>

theorem sixth_client_dropped:
  assumes "queue_reach (queue_start cs) c"
  shows "fst (requestConnection free p (qc_man c)) = RQ_ACCEPTED \<and>
    (None \<notin> set (sv_slots (qc_man c)) \<longrightarrow> addConnection p (qc_man c) = qc_man c)"
  using queue_reach_keeps [OF assms queue_start_inv]
  by (simp add: queue_inv_def requestConnection_def MAX_CONNECTIONS_def addConnection_def free_slot_None [THEN iffD2])

theorem sixth_client_dropped_witness:
  "fst (requestConnection True 7 (qc_man demo_sent)) = RQ_ACCEPTED"
  using sixth_client_dropped [OF demo_sent_reached] by simp

end
