(* ===== verification/Client_Calls.thy ===== *)
theory Client_Calls
  imports Radio_Scanner Configuration Server_Manager
begin

text \<open>
  What a client can do: the functions of \<open>app::\<close> (src/src/piscan_server.cpp) that forward to the
  scanner, the demodulator and the server, and the calls of \<open>Connection\<close>
  (src/src/server/connection/Connection.cpp) that are made of them. The program is the scanner
  with its demodulator, the server, and the configuration.
\<close>

section \<open>The program\<close>

record 'pt program =
  pg_scanner :: "('pt, demodulator) scanner"
  pg_server :: server_manager
  pg_config :: "'pt configuration"
  pg_verbosity :: int

text \<open>A function of the demodulator sends its contexts on; \<open>dr_out\<close> is what it has sent.\<close>

definition app_scannerContextUpdate :: "bool \<Rightarrow> scanner_context \<Rightarrow> server_manager \<Rightarrow> server_manager" where
  "app_scannerContextUpdate free c s =
     giveMessage free (ServerMessage SCANNER_SM CONTEXT_UPDATE (Data_Scanner_Context (ScannerContext_copy c))) s"

definition app_demodContextUpdate :: "bool \<Rightarrow> demod_context \<Rightarrow> server_manager \<Rightarrow> server_manager" where
  "app_demodContextUpdate free c s = giveMessage free (ServerMessage DEMOD CONTEXT_UPDATE (Data_Demod_Context c)) s"

definition app_signalLevelUpdate :: "bool \<Rightarrow> int \<Rightarrow> server_manager \<Rightarrow> server_manager" where
  "app_signalLevelUpdate free level s = giveMessage free (ServerMessage DEMOD SIGNAL_LEVEL (Data_Int level)) s"

section \<open>Forwarding\<close>

definition on_scanner :: "(('pt, demodulator) scanner \<Rightarrow> ('pt, demodulator) scanner) \<Rightarrow> 'pt program \<Rightarrow> 'pt program" where
  "on_scanner f p = p\<lparr>pg_scanner := f (pg_scanner p)\<rparr>"

definition app_startScan :: "'pt program \<Rightarrow> 'pt program" where
  "app_startScan = on_scanner (perform startScan)"

definition app_holdScan :: "int list \<Rightarrow> 'pt program \<Rightarrow> 'pt program" where
  "app_holdScan index = on_scanner (perform (holdScan index))"

definition app_stopScanner :: "'pt program \<Rightarrow> 'pt program" where
  "app_stopScanner = on_scanner (perform stopScanner)"

definition app_manualEntry :: "int \<Rightarrow> string \<Rightarrow> 'pt program \<Rightarrow> 'pt program" where
  "app_manualEntry freq md = on_scanner (perform (manualEntry freq md))"

definition app_getScannerContext :: "'pt program \<Rightarrow> scanner_context" where
  "app_getScannerContext p = getCurrentContext (pg_scanner p)"

definition app_getDemodContext :: "'pt program \<Rightarrow> demod_context" where
  "app_getDemodContext p =
     (let d = sn_demod (pg_scanner p) in DemodContext_make (getTunerGain d) (getSquelch d))"

text \<open>The settings of the demodulator, each of which ends in a context update.\<close>

definition on_demod :: "bool \<Rightarrow> (demodulator \<Rightarrow> demodulator) \<Rightarrow> 'pt program \<Rightarrow> 'pt program" where
  "on_demod free f p =
     (let d = f (sn_demod (pg_scanner p))
      in p\<lparr>pg_scanner := (pg_scanner p)\<lparr>sn_demod := d\<rparr>,
           pg_server := fold (app_demodContextUpdate free)
             (drop (length (dr_out (sn_demod (pg_scanner p)))) (dr_out d)) (pg_server p)\<rparr>)"

definition app_setTunerGain :: "bool \<Rightarrow> rat \<Rightarrow> 'pt program \<Rightarrow> 'pt program" where
  "app_setTunerGain free gain = on_demod free (setTunerGain gain)"

definition app_setDemodSquelch :: "bool \<Rightarrow> rat \<Rightarrow> 'pt program \<Rightarrow> 'pt program" where
  "app_setDemodSquelch free level = on_demod free (setSquelch level)"

definition app_getSystemInfo :: "string \<Rightarrow> 'pt program \<Rightarrow> system_info" where
  "app_getSystemInfo version p =
     (let ty = dm_squelchType (cf_demod (pg_config p))
      in \<lparr>si_version = version, si_buildNumber = 0,
          si_squelchRange = (if ty = SQUELCH_PCT \<or> ty = SQUELCH_SNR then (0, 100) else (-100, 0)),
          si_supportedModulations = [''FM'', ''AM'']\<rparr>)"

section \<open>The calls of a connection\<close>

datatype client_call =
    Call_Scan | Call_Hold | Call_Hold_Entry "int list" | Call_Manual int string
  | Call_Squelch int | Call_Gain rat
  | Call_Scanner_Context | Call_Demod_Context | Call_System_Info
  | Call_Stop | Call_Verbosity int

definition tell :: "nat \<Rightarrow> client_event \<Rightarrow> 'pt program \<Rightarrow> 'pt program" where
  "tell c ev p = p\<lparr>pg_server := on_connection c (deliver_event ev) (pg_server p)\<rparr>"

fun client_run :: "bool \<Rightarrow> string \<Rightarrow> nat \<Rightarrow> client_call \<Rightarrow> 'pt program \<Rightarrow> 'pt program result" where
  "client_run free version c Call_Scan p = Inr (app_startScan p)"
| "client_run free version c Call_Hold p = Inr (app_holdScan [] p)"
| "client_run free version c (Call_Hold_Entry index) p = Inr (app_holdScan index p)"
| "client_run free version c (Call_Manual freq md) p = Inr (app_manualEntry freq md p)"
| "client_run free version c (Call_Squelch level) p = Inr (app_setDemodSquelch free (of_int level) p)"
| "client_run free version c (Call_Gain level) p = Inr (app_setTunerGain free level p)"
| "client_run free version c Call_Scanner_Context p = Inr (tell c (Got_Scanner_Context (app_getScannerContext p)) p)"
| "client_run free version c Call_Demod_Context p = Inr (tell c (Got_Demod_Context (app_getDemodContext p)) p)"
| "client_run free version c Call_System_Info p = Inr (tell c (Got_System_Info (app_getSystemInfo version p)) p)"
| "client_run free version c Call_Stop p =
     bind_result (systemFunction_stop free c (pg_server p)) (\<lambda>(_, s). Inr (p\<lparr>pg_server := s\<rparr>))"
| "client_run free version c (Call_Verbosity v) p = Inr (p\<lparr>pg_verbosity := v\<rparr>)"

end
