(* ===== verification/Consoles.thy ===== *)
theory Consoles
  imports Client_Calls
begin

text \<open>
  The two kinds of connection: the commands of \<open>DebugConsole\<close>
  (src/src/server/connection/DebugConsole.cpp) and the messages of \<open>SocketConnection\<close>
  (src/src/server/connection/SocketConnection.cpp), each turned into the calls of the client.
  \<open>std::stof\<close>, which rounds to a \<open>float\<close>, is the parameter \<open>stof\<close>; parsing and serialising the
  protocol buffers, whose code is generated, are the parameters \<open>parse\<close> and \<open>serialize\<close>.
\<close>

section \<open>The console\<close>

text \<open>What a line of input leads to: a call, a text on the terminal, or nothing.\<close>

datatype console_action = Make_Call client_call | Print_Help | Print_Invalid | Print_Missing | No_Action

definition token_int :: "string list \<Rightarrow> nat \<Rightarrow> int result" where
  "token_int tokens i = bind_result (subscript tokens i) stoi"

fun hold_index :: "string list \<Rightarrow> int list result" where
  "hold_index [] = Inr []"
| "hold_index (t # ts) = bind_result (stoi t) (\<lambda>i. bind_result (hold_index ts) (\<lambda>is. Inr (i # is)))"

definition console_try :: "(string \<Rightarrow> rat result) \<Rightarrow> string list \<Rightarrow> console_action result" where
  "console_try stof tokens =
     bind_result (subscript tokens 0) (\<lambda>cmd.
       if cmd = ''exit'' then Inr (Make_Call Call_Stop)
       else if cmd = ''verbosity'' then bind_result (token_int tokens 1) (\<lambda>v. Inr (Make_Call (Call_Verbosity v)))
       else if cmd = ''squelch'' then
         (if length tokens > 1 then bind_result (token_int tokens 1) (\<lambda>l. Inr (Make_Call (Call_Squelch l)))
          else Inr (Make_Call Call_Demod_Context))
       else if cmd = ''scan'' then Inr (Make_Call Call_Scan)
       else if cmd = ''hold'' then
         (if length tokens > 2 then bind_result (hold_index (drop 1 tokens)) (\<lambda>is. Inr (Make_Call (Call_Hold_Entry is)))
          else Inr (Make_Call Call_Hold))
       else if cmd = ''gain'' then
         (if length tokens > 1 then
            (if tokens ! 1 = ''auto'' then Inr (Make_Call (Call_Gain AUTO_GAIN))
             else bind_result (token_int tokens 1) (\<lambda>g. Inr (Make_Call (Call_Gain (of_int g)))))
          else Inr (Make_Call Call_Demod_Context))
       else if cmd = ''manual'' then
         bind_result (subscript tokens 1) (\<lambda>t. bind_result (stof t) (\<lambda>f.
           Inr (Make_Call (Call_Manual (float_to_int f) (if length tokens > 2 then tokens ! 2 else ''FM'')))))
       else if cmd = ''get'' then
         bind_result (subscript tokens 1) (\<lambda>t. Inr (if t = ''context'' then Make_Call Call_Scanner_Context else No_Action))
       else if cmd = ''help'' then Inr Print_Help
       else Inr Print_Invalid)"

text \<open>The handler catches what is thrown; a subscript past the end throws nothing.\<close>

definition console_command :: "(string \<Rightarrow> rat result) \<Rightarrow> string list \<Rightarrow> console_action result" where
  "console_command stof tokens =
     (case console_try stof tokens of
        Inl f \<Rightarrow> if f = Invalid_Argument \<or> f = Out_Of_Range then Inr Print_Missing else Inl f
      | Inr a \<Rightarrow> Inr a)"

text \<open>
  The loop over the lines of input, from the tokens that are in the vector already; \<open>exit\<close> ends
  it. The vector is declared with five empty strings and cleared after each line.
\<close>

fun console_loop :: "(string \<Rightarrow> rat result) \<Rightarrow> string list \<Rightarrow> string list \<Rightarrow> console_action list \<times> fault option" where
  "console_loop stof tokens [] = ([], None)"
| "console_loop stof tokens (line # lines) =
     (case console_command stof (tokens @ getline_tokens CHR '' '' line) of
        Inl f \<Rightarrow> ([], Some f)
      | Inr a \<Rightarrow>
          if a = Make_Call Call_Stop then ([a], None)
          else (case console_loop stof [] lines of (as, f) \<Rightarrow> (a # as, f)))"

definition consoleInputFunc :: "(string \<Rightarrow> rat result) \<Rightarrow> string list \<Rightarrow> console_action list \<times> fault option" where
  "consoleInputFunc stof lines =
     (case console_loop stof (replicate 5 '''') lines of
        (as, f) \<Rightarrow> ([Make_Call Call_System_Info, Make_Call Call_Scanner_Context, Make_Call Call_Demod_Context] @ as, f))"

section \<open>The socket: reading\<close>

text \<open>A parsed \<open>ClientToServer\<close>: what its accessors return, defaults for what is not set.\<close>

record client_to_server =
  cs_type :: int
  cs_generalType :: int
  cs_scanState :: int
  cs_manFreq :: int
  cs_demodType :: int
  cs_level :: rat

datatype socket_action = Socket_Call client_call | Socket_Warning | Socket_Disconnect

definition handleGeneralRequest :: "client_to_server \<Rightarrow> socket_action" where
  "handleGeneralRequest m =
     (if cs_generalType m = 0 then Socket_Call Call_Scanner_Context
      else if cs_generalType m = 1 then Socket_Call Call_Demod_Context
      else if cs_generalType m = 2 then Socket_Call Call_System_Info
      else Socket_Warning)"

definition handleScanStateRequest :: "client_to_server \<Rightarrow> socket_action" where
  "handleScanStateRequest m =
     (if cs_scanState m = 0 then Socket_Call Call_Scan
      else if cs_scanState m = 1 then Socket_Call Call_Hold
      else if cs_scanState m = 2 then Socket_Call (Call_Manual (cs_manFreq m) ''FM'')
      else Socket_Warning)"

text \<open>The level is a \<open>float\<close>; \<open>setDemodSquelch\<close> takes an \<open>int\<close>.\<close>

definition handleDemodRequest :: "client_to_server \<Rightarrow> socket_action" where
  "handleDemodRequest m =
     (if cs_demodType m = 0 then Socket_Call (Call_Squelch (float_to_int (cs_level m)))
      else if cs_demodType m = 1 then Socket_Call (Call_Gain (cs_level m))
      else Socket_Warning)"

text \<open>\<open>None\<close> stands for an error of the read, whichever it is.\<close>

definition handleRead :: "('b list \<Rightarrow> client_to_server) \<Rightarrow> 'b list option \<Rightarrow> socket_action" where
  "handleRead parse r =
     (case r of
        None \<Rightarrow> Socket_Disconnect
      | Some bytes \<Rightarrow>
          let m = parse bytes
          in if cs_type m = 0 then handleGeneralRequest m
             else if cs_type m = 1 then handleScanStateRequest m
             else if cs_type m = 2 then handleDemodRequest m
             else Socket_Warning)"

definition socket_step :: "bool \<Rightarrow> string \<Rightarrow> nat \<Rightarrow> socket_action \<Rightarrow> 'pt program \<Rightarrow> 'pt program result" where
  "socket_step free version c a p =
     (case a of
        Socket_Call call \<Rightarrow> client_run free version c call p
      | Socket_Warning \<Rightarrow> Inr p
      | Socket_Disconnect \<Rightarrow> bind_result (disconnect free c (pg_server p)) (\<lambda>s. Inr (p\<lparr>pg_server := s\<rparr>)))"

section \<open>The socket: writing\<close>

definition WRITE_BUFFER_LENGTH :: nat where "WRITE_BUFFER_LENGTH = 1024"

text \<open>
  A connection serialises into its one buffer and starts an asynchronous write of so many
  bytes; the bytes are read from the buffer when the write is carried out. \<open>sw_wire\<close> is what
  the client has received.
\<close>

record 'b socket_writer =
  sw_buffer :: "'b list"
  sw_started :: "nat list"
  sw_wire :: "'b list list"

text \<open>\<open>SerializeToArray\<close> writes nothing if the message does not fit; \<open>ByteSize\<close> is still its size.\<close>

definition send_event :: "('m \<Rightarrow> 'b list) \<Rightarrow> 'm \<Rightarrow> 'b socket_writer \<Rightarrow> 'b socket_writer" where
  "send_event serialize m w =
     (let bytes = serialize m
      in w\<lparr>sw_buffer := (if length bytes \<le> WRITE_BUFFER_LENGTH then bytes @ drop (length bytes) (sw_buffer w) else sw_buffer w),
           sw_started := sw_started w @ [length bytes]\<rparr>)"

text \<open>The oldest write is carried out; a length past the buffer is an invalid read.\<close>

definition complete_write :: "'b socket_writer \<Rightarrow> 'b socket_writer result" where
  "complete_write w =
     (case sw_started w of
        [] \<Rightarrow> Inr w
      | n # ns \<Rightarrow> if n \<le> length (sw_buffer w)
                  then Inr (w\<lparr>sw_started := ns, sw_wire := sw_wire w @ [take n (sw_buffer w)]\<rparr>)
                  else Inl Out_Of_Bounds)"

section \<open>Properties\<close>

text \<open>The line that asks for a call.\<close>

fun command_words :: "client_call \<Rightarrow> string list" where
  "command_words Call_Scan = [''scan'']"
| "command_words Call_Hold = [''hold'']"
| "command_words (Call_Hold_Entry is) = ''hold'' # map to_string is"
| "command_words (Call_Squelch l) = [''squelch'', to_string l]"
| "command_words (Call_Gain g) = [''gain'', to_string \<lfloor>g\<rfloor>]"
| "command_words Call_Scanner_Context = [''get'', ''context'']"
| "command_words Call_Demod_Context = [''gain'']"
| "command_words Call_Stop = [''exit'']"
| "command_words (Call_Verbosity v) = [''verbosity'', to_string v]"
| "command_words _ = []"

fun typable :: "client_call \<Rightarrow> bool" where
  "typable (Call_Hold_Entry is) \<longleftrightarrow> 2 \<le> length is \<and> (\<forall>i\<in>set is. in_int32 i)"
| "typable (Call_Squelch l) \<longleftrightarrow> in_int32 l"
| "typable (Call_Gain g) \<longleftrightarrow> of_int \<lfloor>g\<rfloor> = g \<and> in_int32 \<lfloor>g\<rfloor>"
| "typable (Call_Verbosity v) \<longleftrightarrow> in_int32 v"
| "typable (Call_Manual f m) \<longleftrightarrow> False"
| "typable Call_System_Info \<longleftrightarrow> False"
| "typable _ \<longleftrightarrow> True"

lemma to_string_no_blank: "CHR '' '' \<notin> set (to_string v)"
  using to_string_chars [of v] by (auto simp: is_digit_def)

lemma command_words_no_blank: "t \<in> set (command_words call) \<Longrightarrow> CHR '' '' \<notin> set t"
  by (cases call) (use to_string_no_blank in auto)

lemma hold_index_to_string: "\<forall>i\<in>set is. in_int32 i \<Longrightarrow> hold_index (map to_string is) = Inr is"
  by (induction "is") (simp_all add: stoi_to_string)

lemma to_string_not_auto: "to_string v \<noteq> ''auto''"
  using to_string_chars [of v] by (auto simp: is_digit_def)

text \<open>
  The console understands what it is told. The line made of the words of a command, joined
  by blanks and read with an empty token vector, gives back exactly the call: scanning,
  holding with or without an index of any length from two, squelch and gain with any whole
  value in the range of an \<open>int\<close>, contexts, verbosity and exit.
\<close>

theorem console_round_trip:
  assumes "typable call"
  shows "console_command stof (getline_tokens CHR '' '' (join_tokens CHR '' '' (command_words call))) = Inr (Make_Call call)"
proof -
  have j: "getline_tokens CHR '' '' (join_tokens CHR '' '' (command_words call)) = command_words call"
    using command_words_no_blank by (intro getline_tokens_join) blast
  show ?thesis
    unfolding j using assms
    by (cases call)
      (auto simp: console_command_def console_try_def token_int_def subscript_def stoi_to_string
        hold_index_to_string to_string_not_auto)
qed

theorem console_round_trip_witness:
  "console_command (\<lambda>_. Inl Invalid_Argument) (getline_tokens CHR '' '' (join_tokens CHR '' '' (command_words (Call_Hold_Entry [0, 12])))) =
     Inr (Make_Call (Call_Hold_Entry [0, 12]))"
  by (rule console_round_trip) (simp add: in_int32_def)

text \<open>Results whose only faults are the exceptions that the handler catches.\<close>

definition throws_only :: "'a result \<Rightarrow> bool" where
  "throws_only r \<longleftrightarrow> (\<forall>f. r = Inl f \<longrightarrow> f = Invalid_Argument \<or> f = Out_Of_Range)"

lemma throws_bind: "throws_only r \<Longrightarrow> (\<And>x. throws_only (g x)) \<Longrightarrow> throws_only (bind_result r g)"
  by (auto simp: throws_only_def bind_result_def split: sum.splits)

lemma throws_if: "throws_only a \<Longrightarrow> throws_only b \<Longrightarrow> throws_only (if c then a else b)"
  by simp

lemma throws_Inr: "throws_only (Inr x)"
  by (simp add: throws_only_def)

lemmas throws_intros = throws_bind throws_if throws_Inr

lemma throws_subscript: "i < length xs \<Longrightarrow> throws_only (subscript xs i)"
  by (simp add: throws_only_def subscript_in)

lemma throws_stoi: "throws_only (stoi t)"
  unfolding stoi_def strtol_def Let_def case_prod_beta
  by (intro throws_intros) (simp_all add: throws_only_def)

lemma throws_hold_index: "throws_only (hold_index ts)"
  by (induction ts) (auto intro!: throws_intros throws_stoi)

text \<open>
  Which commands break the console. Errors of conversion are caught, but a missing token is
  not: the command reads past the end of the vector exactly when the line was empty, or was
  \<open>verbosity\<close>, \<open>manual\<close> or \<open>get\<close> with nothing after it, whatever \<open>stof\<close> throws.
\<close>

theorem console_faults_exactly:
  assumes "\<forall>t f. stof t = Inl f \<longrightarrow> f = Invalid_Argument \<or> f = Out_Of_Range"
  shows "(\<exists>f. console_command stof tokens = Inl f) \<longleftrightarrow>
    tokens = [] \<or> tokens = [''verbosity''] \<or> tokens = [''manual''] \<or> tokens = [''get'']"
proof -
  have st: "throws_only (stof t)" for t using assms by (simp add: throws_only_def)
  consider "tokens = []" | c where "tokens = [c]" | c t ts where "tokens = c # t # ts"
    by (metis neq_Nil_conv)
  then show ?thesis
  proof cases
    case 1
    then show ?thesis by (simp add: console_command_def console_try_def subscript_def)
  next
    case 2
    then show ?thesis
      by (auto simp: console_command_def console_try_def token_int_def subscript_def)
  next
    case 3
    have "throws_only (console_try stof tokens)"
      unfolding console_try_def token_int_def 3
      by (intro throws_intros throws_subscript throws_stoi throws_hold_index st) simp_all
    then have "\<not> (\<exists>f. console_command stof tokens = Inl f)"
      by (auto simp: console_command_def throws_only_def split: sum.splits)
    with 3 show ?thesis by simp
  qed
qed

theorem console_faults_exactly_witness:
  "\<exists>f. console_command (\<lambda>_. Inl Invalid_Argument) (getline_tokens CHR '' '' '''') = Inl f"
  using console_faults_exactly [of "\<lambda>_. Inl Invalid_Argument" "[]"] by simp

text \<open>
  The first line typed is never obeyed. The token vector starts with five empty strings, so
  the first command is the empty word: whatever the line says, \<open>exit\<close> included, the console
  answers that it is invalid and goes on with the second line.
\<close>

theorem first_line_ignored:
  "console_loop stof (replicate 5 '''') (line # lines) =
     (Print_Invalid # fst (console_loop stof [] lines), snd (console_loop stof [] lines))"
  by (simp add: console_command_def console_try_def subscript_def numeral_eq_Suc split: prod.splits)

text \<open>
  A setting made by one client reaches all of them. After a squelch call the demodulator has
  the new level, exactly one message has been queued, and whenever the server's thread handles
  it, on whatever well-formed table there is then, every connected client is handed the
  demodulator's context with the new squelch and the current gain.
\<close>

theorem squelch_reaches_clients:
  assumes "client_run free version c (Call_Squelch level) p = Inr p'" "server_ok s"
  shows "getSquelch (sn_demod (pg_scanner p')) = of_int level \<and>
    (\<exists>m s'. sv_queue (pg_server p') = sv_queue (pg_server p) @ [m] \<and> handleMessage free m s = Inr s' \<and>
      (\<forall>q. Some q \<in> set (sv_slots s) \<longrightarrow> cn_inbox (sv_store s' ! q) = cn_inbox (sv_store s ! q) @
         [Got_Demod_Context \<lparr>dc_gain = getTunerGain (sn_demod (pg_scanner p)), dc_squelch = level\<rparr>]))"
proof -
  let ?d = "sn_demod (pg_scanner p)"
  let ?ctx = "\<lparr>dc_gain = getTunerGain ?d, dc_squelch = level\<rparr>"
  let ?m = "ServerMessage DEMOD CONTEXT_UPDATE (Data_Demod_Context ?ctx)"
  have ctx: "DemodContext_make (dr_gain ?d) (of_int level) = ?ctx"
    by (simp add: DemodContext_make_def float_to_int_def getTunerGain_def)
  have p': "p' = p\<lparr>pg_scanner := (pg_scanner p)\<lparr>sn_demod := setSquelch (of_int level) ?d\<rparr>,
      pg_server := giveMessage free ?m (pg_server p)\<rparr>"
    using assms(1) ctx
    by (simp add: app_setDemodSquelch_def on_demod_def Let_def) (simp add: setSquelch_def contextUpdate_def app_demodContextUpdate_def)
  have h: "handleMessage free ?m s = Inr (broadcast (\<lambda>_. True) (Got_Demod_Context ?ctx) s)"
    by (simp add: handleMessage_def ServerMessage_def destination_defs CONTEXT_UPDATE_def broadcastDemodContext_def)
  show ?thesis
    using h broadcast_effect(8) [OF assms(2), of "\<lambda>_. True"]
    by (intro conjI exI [of _ ?m] exI [of _ "broadcast (\<lambda>_. True) (Got_Demod_Context ?ctx) s"])
      (simp_all add: p' setSquelch_def contextUpdate_def getSquelch_def)
qed

definition demo_program :: "ctree program" where
  "demo_program = \<lparr>pg_scanner = ScannerSM_init ctree_api demo_demodulator ScannerState_init,
     pg_server = demo_server FULL_CONTROL, pg_config = Configuration_init ctree_api ''./'', pg_verbosity = 0\<rparr>"

theorem squelch_reaches_clients_witness:
  "\<exists>p' m s'. client_run True ''1.0'' 0 (Call_Squelch (-50)) demo_program = Inr p' \<and>
     sv_queue (pg_server p') = [m] \<and> handleMessage True m (demo_server FULL_CONTROL) = Inr s' \<and>
     getSquelch (sn_demod (pg_scanner p')) = -50"
proof -
  obtain p' where p': "client_run True ''1.0'' 0 (Call_Squelch (-50)) demo_program = Inr p'" by simp
  then show ?thesis
    using squelch_reaches_clients [OF p' demo_server_ok(1) [of FULL_CONTROL]]
    by (auto simp: demo_program_def demo_server_ok(3))
qed

text \<open>
  Two events sent to a socket close together are mixed up. The connection has one buffer, and
  an asynchronous write reads it only when it is carried out: when a second event is sent
  before the first write is done, the client receives, in place of the first message, that many
  bytes of the second, and then the second.
\<close>

theorem overlapping_writes_mix:
  assumes "length (serialize a) \<le> length (serialize b)" "length (serialize b) \<le> WRITE_BUFFER_LENGTH"
    and "length (sw_buffer w) = WRITE_BUFFER_LENGTH" "sw_started w = []"
  shows "\<exists>w' w''. complete_write (send_event serialize b (send_event serialize a w)) = Inr w' \<and>
    complete_write w' = Inr w'' \<and> sw_wire w'' = sw_wire w @ [take (length (serialize a)) (serialize b), serialize b]"
  using assms by (simp add: complete_write_def send_event_def Let_def)

theorem overlapping_writes_mix_witness:
  "\<exists>w' w''. complete_write (send_event (\<lambda>x. x) [3, 4, 5] (send_event (\<lambda>x. x) [1, 2 :: nat]
      \<lparr>sw_buffer = replicate 1024 0, sw_started = [], sw_wire = []\<rparr>)) = Inr w' \<and>
     complete_write w' = Inr w'' \<and> sw_wire w'' = [[3, 4], [3, 4, 5]]"
  using overlapping_writes_mix [of "\<lambda>x. x" "[1, 2 :: nat]" "[3, 4, 5]" "\<lparr>sw_buffer = replicate 1024 0, sw_started = [], sw_wire = []\<rparr>"]
  by (simp add: WRITE_BUFFER_LENGTH_def)

end
