(* ===== verification/Sentinel.thy ===== *)
theory Sentinel
  imports Database Configuration
begin

text \<open>
  The importer of .hpd files: \<open>SentinelFile\<close> (src/src/scan/ListGenerator.h,
  src/src/scan/SentinelFile.cpp) and the \<open>main\<close> of the tool \<open>piscan_hpdconv\<close>, which writes what
  was imported as the systems file that the scanner loads.
\<close>

section \<open>The keywords of the format\<close>

definition SENTINEL_TRUE :: string where "SENTINEL_TRUE = ''On''"
definition SENTINEL_NFM :: string where "SENTINEL_NFM = ''NFM''"
definition SENTINEL_FM :: string where "SENTINEL_FM = ''FM''"
definition SENTINEL_AUTO :: string where "SENTINEL_AUTO = ''AUTO''"
definition SENTINEL_AM :: string where "SENTINEL_AM = ''AM''"
definition SENTINEL_CSQ :: string where "SENTINEL_CSQ = ''''"
definition SENTINEL_TONE_PRE :: string where "SENTINEL_TONE_PRE = ''TONE=''"
definition C_GROUP :: string where "C_GROUP = ''C-Group''"
definition C_FREQ :: string where "C_FREQ = ''C-Freq''"

lemmas sentinel_words = SENTINEL_TRUE_def SENTINEL_NFM_def SENTINEL_FM_def SENTINEL_AUTO_def SENTINEL_AM_def
  SENTINEL_CSQ_def SENTINEL_TONE_PRE_def C_GROUP_def C_FREQ_def

section \<open>Systems and channels\<close>

text \<open>\<open>_system\<close> is shared with the list, so it is the position in the list of the system it points to.\<close>

record 'pt sentinel_file =
  sf_list :: "'pt system_list"
  sf_system :: "nat option"

definition SentinelFile_init :: "'pt system_list \<Rightarrow> 'pt sentinel_file" where
  "SentinelFile_init s = \<lparr>sf_list = s, sf_system = None\<rparr>"

definition newAnalogSys :: "string list \<Rightarrow> 'pt sentinel_file \<Rightarrow> 'pt sentinel_file result" where
  "newAnalogSys tokens f =
     bind_result (subscript tokens 1) (\<lambda>tag.
     bind_result (subscript tokens 2) (\<lambda>lo.
       Inr (f\<lparr>sf_list := addSystem (AnalogSystem tag (lo = SENTINEL_TRUE)) (sf_list f),
              sf_system := Some (sl_size (sf_list f))\<rparr>)))"

text \<open>The choice of the channel from mode and tone; none is made for a mode or tone not foreseen.\<close>

definition sentinel_channel ::
    "'pt ptree_api \<Rightarrow> string \<Rightarrow> string \<Rightarrow> int \<Rightarrow> string \<Rightarrow> bool \<Rightarrow> int \<Rightarrow> 'pt entry option result" where
  "sentinel_channel api mode tone freq tag lockout delayMS =
     (if mode = SENTINEL_NFM \<or> mode = SENTINEL_FM \<or> mode = SENTINEL_AUTO then
        (if tone = SENTINEL_CSQ then Inr (Some (FMChannel api freq tag lockout delayMS))
         else if take 5 tone = SENTINEL_TONE_PRE then
           bind_result (substr_from tone 5) (\<lambda>tone_coded.
           bind_result (substr_from tone_coded 1) (\<lambda>code.
           bind_result (vec_at tone_coded 0) (\<lambda>c.
             Inr (Some (if c = CHR ''C'' then PLChannel api freq code tag lockout delayMS
                        else if c = CHR ''D'' then DCChannel api freq code tag lockout delayMS
                        else FMChannel api freq tag lockout delayMS)))))
         else Inr None)
      else if mode = SENTINEL_AM then Inr (Some (AMChannel api freq tag lockout delayMS))
      else Inr None)"

text \<open>\<open>std::stoi(s_delay) * 1000\<close> is computed in \<open>int\<close>.\<close>

definition delay_ms :: "string \<Rightarrow> int result" where
  "delay_ms s = bind_result (stoi s) (\<lambda>d. if in_int32 (d * 1000) then Inr (d * 1000) else Inl Signed_Overflow)"

definition newAnalogEntry :: "'pt ptree_api \<Rightarrow> string list \<Rightarrow> 'pt sentinel_file \<Rightarrow> 'pt sentinel_file result" where
  "newAnalogEntry api tokens f =
     (case sf_system f of
        None \<Rightarrow> Inr f
      | Some k \<Rightarrow>
          bind_result (subscript tokens 1) (\<lambda>s_tag.
          bind_result (subscript tokens 2) (\<lambda>s_lockout.
          bind_result (subscript tokens 3) (\<lambda>s_freq.
          bind_result (subscript tokens 4) (\<lambda>s_mode.
          bind_result (subscript tokens 5) (\<lambda>s_tone.
          bind_result (subscript tokens 8) (\<lambda>s_delay.
          bind_result (stoll s_freq) (\<lambda>freq.
          bind_result (delay_ms s_delay) (\<lambda>delayMS.
          bind_result (sentinel_channel api s_mode s_tone freq s_tag (s_lockout = SENTINEL_TRUE) delayMS) (\<lambda>newEntry.
            Inr (case newEntry of
                   None \<Rightarrow> f
                 | Some e \<Rightarrow>
                     let systems = sl_systems (sf_list f);
                         e1 = e\<lparr>en_sysIndex := sl_size (sf_list f) - 1, en_entryIndex := rs_numEntries (systems ! k)\<rparr>
                     in f\<lparr>sf_list := (sf_list f)\<lparr>sl_systems := systems[k := addEntry (Some e1) (systems ! k)]\<rparr>\<rparr>)))))))))))"

section \<open>Files\<close>

text \<open>The fields of a line; empty ones are left out.\<close>

definition hpd_fields :: "string \<Rightarrow> string list" where
  "hpd_fields line = filter (\<lambda>t. t \<noteq> '''') (getline_tokens (CHR 0x09) line)"

definition sentinel_tokens :: "'pt ptree_api \<Rightarrow> string list \<Rightarrow> 'pt sentinel_file \<Rightarrow> 'pt sentinel_file result" where
  "sentinel_tokens api tokens f =
     (if tokens = [] then Inr f
      else if tokens ! 0 = C_GROUP then newAnalogSys tokens f
      else if tokens ! 0 = C_FREQ \<and> sf_system f \<noteq> None then newAnalogEntry api tokens f
      else Inr f)"

fun sentinel_lines :: "'pt ptree_api \<Rightarrow> string list \<Rightarrow> 'pt sentinel_file \<Rightarrow> 'pt sentinel_file result" where
  "sentinel_lines api [] f = Inr f"
| "sentinel_lines api (line # ls) f = bind_result (sentinel_tokens api (hpd_fields line) f) (sentinel_lines api ls)"

text \<open>The contents of the file, \<open>None\<close> if it does not open.\<close>

definition generateSystemList ::
    "'pt ptree_api \<Rightarrow> string option \<Rightarrow> 'pt system_list \<Rightarrow> (bool \<times> 'pt system_list) result" where
  "generateSystemList api file list =
     (case file of
        None \<Rightarrow> Inr (False, list)
      | Some text \<Rightarrow>
          bind_result (sentinel_lines api (getline_tokens (CHR 0x0A) text) (SentinelFile_init list)) (\<lambda>f.
            Inr (True, sf_list f)))"

section \<open>The tool\<close>

text \<open>
  The options as \<open>getopt\<close> gives them; \<open>-d\<close> only changes what is logged. The result is the exit
  code, and the file written with its path. \<open>databasePath\<close> is the default directory.
\<close>

definition SYSTEMS_FILE :: string where "SYSTEMS_FILE = ''systems.json''"

definition hpdconv_option ::
    "file_system \<Rightarrow> string \<Rightarrow> string \<times> 'pt configuration \<Rightarrow> char \<times> string \<Rightarrow> string \<times> 'pt configuration" where
  "hpdconv_option fs databasePath st opt =
     (if fst opt = CHR ''i'' then (snd opt, snd st)
      else if fst opt = CHR ''o'' then (fst st, setWorkingDirectory fs databasePath (snd opt) (snd st))
      else st)"

definition hpdconv_main ::
    "'pt ptree_api \<Rightarrow> file_system \<Rightarrow> string \<Rightarrow> (string \<Rightarrow> string option) \<Rightarrow> nat \<Rightarrow> (char \<times> string) list \<Rightarrow>
     (int \<times> (string \<times> 'pt) option) result" where
  "hpdconv_main api fs databasePath open_file argc opts =
     (if argc < 5 then Inr (0, None)
      else case foldl (hpdconv_option fs databasePath) ('''', Configuration_init api databasePath) opts of
             (hpdPath, config) \<Rightarrow>
               bind_result (generateSystemList api (open_file hpdPath) (SystemList_init api)) (\<lambda>(okay, list).
                 Inr (if okay then (0, Some (cf_configPath config @ ''/'' @ SYSTEMS_FILE, writeToFile api list))
                      else (1, None))))"

section \<open>What a file describes\<close>

text \<open>The lines of a group and of its channels, as the fields the importer reads.\<close>

record hpd_channel =
  hc_tag :: string
  hc_lockout :: bool
  hc_freq :: int
  hc_mode :: string
  hc_tone :: string
  hc_between :: "string \<times> string"
  hc_delay :: int
  hc_more :: "string list"

record hpd_group =
  hg_tag :: string
  hg_lockout :: bool
  hg_more :: "string list"
  hg_channels :: "hpd_channel list"

definition lockout_field :: "bool \<Rightarrow> string" where
  "lockout_field lo = (if lo then ''On'' else ''Off'')"

definition channel_fields :: "hpd_channel \<Rightarrow> string list" where
  "channel_fields c = [C_FREQ, hc_tag c, lockout_field (hc_lockout c), to_string (hc_freq c), hc_mode c, hc_tone c,
     fst (hc_between c), snd (hc_between c), to_string (hc_delay c)] @ hc_more c"

definition group_fields :: "hpd_group \<Rightarrow> string list list" where
  "group_fields g = (C_GROUP # hg_tag g # lockout_field (hg_lockout g) # hg_more g) # map channel_fields (hg_channels g)"

definition hpd_item :: "string list \<Rightarrow> bool" where
  "hpd_item ts \<longleftrightarrow> ts \<noteq> [] \<and> (hd ts = C_GROUP \<or> hd ts = C_FREQ)"

definition hpd_kind :: "hpd_channel \<Rightarrow> channel_kind" where
  "hpd_kind c =
     (if hc_mode c = SENTINEL_AM then AM_Channel
      else if hc_tone c ! 5 = CHR ''C'' then PL_Channel (drop 6 (hc_tone c))
      else if hc_tone c ! 5 = CHR ''D'' then DC_Channel (drop 6 (hc_tone c))
      else FM_Channel)"

text \<open>A channel that fits: its numbers are in range, and an FM channel has a tone.\<close>

definition hpd_channel_ok :: "hpd_channel \<Rightarrow> bool" where
  "hpd_channel_ok c \<longleftrightarrow> hc_freq c \<noteq> 0 \<and> in_int32 (hc_freq c) \<and> in_int32 (hc_delay c * 1000) \<and>
     (hc_mode c = SENTINEL_AM \<or>
      (hc_mode c = SENTINEL_NFM \<or> hc_mode c = SENTINEL_FM \<or> hc_mode c = SENTINEL_AUTO) \<and>
      take 5 (hc_tone c) = SENTINEL_TONE_PRE \<and> 5 < length (hc_tone c))"

definition hpd_group_ok :: "hpd_group \<Rightarrow> bool" where
  "hpd_group_ok g \<longleftrightarrow> (\<forall>c\<in>set (hg_channels g). hpd_channel_ok c)"

text \<open>What is to be found in the database, apart from positions.\<close>

definition entry_view :: "'pt entry \<Rightarrow> string \<times> bool \<times> int \<times> channel_kind \<times> int" where
  "entry_view e = (en_tag e, isLockedOut e, en_freq e, en_kind e, en_delayMS e)"

definition system_view :: "'pt radio_system \<Rightarrow> string \<times> bool \<times> (string \<times> bool \<times> int \<times> channel_kind \<times> int) list" where
  "system_view rs = (rs_tag rs, rs_lockout rs, map entry_view (rs_entries rs))"

definition channel_view :: "hpd_channel \<Rightarrow> string \<times> bool \<times> int \<times> channel_kind \<times> int" where
  "channel_view c = (hc_tag c, hc_lockout c, hc_freq c, hpd_kind c, hc_delay c * 1000)"

definition group_view :: "hpd_group \<Rightarrow> string \<times> bool \<times> (string \<times> bool \<times> int \<times> channel_kind \<times> int) list" where
  "group_view g = (hg_tag g, hg_lockout g, map channel_view (hg_channels g))"

section \<open>Importing\<close>

definition channel_entry :: "'pt ptree_api \<Rightarrow> hpd_channel \<Rightarrow> 'pt entry" where
  "channel_entry api c = make_kind api (hpd_kind c) (hc_freq c) (hc_tag c) (hc_lockout c) (hc_delay c * 1000)"

definition group_system :: "'pt ptree_api \<Rightarrow> hpd_group \<Rightarrow> 'pt radio_system" where
  "group_system api g =
     foldl (\<lambda>rs c. addEntry (Some (channel_entry api c)) rs) (AnalogSystem (hg_tag g) (hg_lockout g)) (hg_channels g)"

lemma addEntry_reindexed [simp]:
  "addEntry (Some (e\<lparr>en_sysIndex := i, en_entryIndex := j\<rparr>)) rs = addEntry (Some e) rs"
  by (simp add: addEntry_def)

lemma sentinel_channel_ok:
  assumes "hpd_channel_ok c"
  shows "sentinel_channel api (hc_mode c) (hc_tone c) (hc_freq c) (hc_tag c) (hc_lockout c) (hc_delay c * 1000) =
    Inr (Some (channel_entry api c))"
proof (cases "hc_mode c = SENTINEL_AM")
  case True
  then show ?thesis by (simp add: sentinel_channel_def channel_entry_def hpd_kind_def sentinel_words)
next
  case False
  with assms have m: "hc_mode c = SENTINEL_NFM \<or> hc_mode c = SENTINEL_FM \<or> hc_mode c = SENTINEL_AUTO"
    and t: "take 5 (hc_tone c) = SENTINEL_TONE_PRE" "5 < length (hc_tone c)"
    by (auto simp: hpd_channel_ok_def)
  have "hc_tone c \<noteq> SENTINEL_CSQ" using t(2) by (auto simp: SENTINEL_CSQ_def)
  then show ?thesis
    using m t False
    by (simp add: sentinel_channel_def channel_entry_def hpd_kind_def substr_from_def vec_at_def)
qed

lemma delay_ms_ok: "in_int32 (d * 1000) \<Longrightarrow> delay_ms (to_string d) = Inr (d * 1000)"
  by (simp add: delay_ms_def stoi_to_string in_int32_def)

lemma newAnalogEntry_ok:
  assumes "hpd_channel_ok c" "sf_system f = Some k"
  shows "newAnalogEntry api (channel_fields c) f =
    Inr (f\<lparr>sf_list := (sf_list f)\<lparr>sl_systems :=
      (sl_systems (sf_list f))[k := addEntry (Some (channel_entry api c)) (sl_systems (sf_list f) ! k)]\<rparr>\<rparr>)"
proof -
  have r: "in_int64 (hc_freq c)" "in_int32 (hc_delay c * 1000)"
    using assms(1) by (auto simp: hpd_channel_ok_def in_int32_int64)
  have lo: "lockout_field (hc_lockout c) = SENTINEL_TRUE \<longleftrightarrow> hc_lockout c"
    by (simp add: lockout_field_def SENTINEL_TRUE_def)
  show ?thesis
    using sentinel_channel_ok [OF assms(1), of api] r assms(2)
    by (simp add: newAnalogEntry_def channel_fields_def subscript_def stoll_to_string delay_ms_ok lo Let_def)
qed

fun fold_tokens :: "'pt ptree_api \<Rightarrow> string list list \<Rightarrow> 'pt sentinel_file \<Rightarrow> 'pt sentinel_file result" where
  "fold_tokens api [] f = Inr f"
| "fold_tokens api (t # ts) f = bind_result (sentinel_tokens api t f) (fold_tokens api ts)"

lemma sentinel_tokens_other: "\<not> hpd_item ts \<Longrightarrow> sentinel_tokens api ts f = Inr f"
  by (cases ts) (auto simp: sentinel_tokens_def hpd_item_def)

lemma sentinel_lines_items:
  "sentinel_lines api ls f = fold_tokens api (filter hpd_item (map hpd_fields ls)) f"
proof (induction ls arbitrary: f)
  case (Cons l ls)
  show ?case
    by (cases "sentinel_tokens api (hpd_fields l) f"; cases "hpd_item (hpd_fields l)")
      (auto simp: Cons sentinel_tokens_other)
qed simp

lemma fold_tokens_append:
  "fold_tokens api (ts @ us) f = bind_result (fold_tokens api ts f) (fold_tokens api us)"
proof (induction ts arbitrary: f)
  case (Cons t ts)
  then show ?case by (cases "sentinel_tokens api t f") auto
qed simp

lemma fold_channels:
  assumes "\<forall>c\<in>set cs. hpd_channel_ok c" "sf_system f = Some k" "sl_systems (sf_list f) = rss @ [rs]" "k = length rss"
  shows "fold_tokens api (map channel_fields cs) f =
    Inr (f\<lparr>sf_list := (sf_list f)\<lparr>sl_systems :=
      rss @ [foldl (\<lambda>rs c. addEntry (Some (channel_entry api c)) rs) rs cs]\<rparr>\<rparr>)"
  using assms
proof (induction cs arbitrary: f rs)
  case Nil
  then show ?case by simp
next
  case (Cons c cs)
  let ?f = "f\<lparr>sf_list := (sf_list f)\<lparr>sl_systems := rss @ [addEntry (Some (channel_entry api c)) rs]\<rparr>\<rparr>"
  have "sentinel_tokens api (channel_fields c) f = newAnalogEntry api (channel_fields c) f"
    using Cons.prems(2) by (simp add: sentinel_tokens_def channel_fields_def sentinel_words)
  also have "\<dots> = Inr ?f"
    using newAnalogEntry_ok [of c f k api] Cons.prems by simp
  finally show ?case
    using Cons.IH [of ?f] Cons.prems by simp
qed

lemma fold_group:
  assumes "hpd_group_ok g"
  shows "fold_tokens api (group_fields g) f =
    Inr (f\<lparr>sf_list := (sf_list f)\<lparr>sl_systems := sl_systems (sf_list f) @ [group_system api g]\<rparr>,
           sf_system := Some (length (sl_systems (sf_list f)))\<rparr>)"
proof -
  let ?f = "f\<lparr>sf_list := addSystem (AnalogSystem (hg_tag g) (hg_lockout g)) (sf_list f),
              sf_system := Some (length (sl_systems (sf_list f)))\<rparr>"
  have "sentinel_tokens api (C_GROUP # hg_tag g # lockout_field (hg_lockout g) # hg_more g) f = Inr ?f"
    by (simp add: sentinel_tokens_def newAnalogSys_def subscript_def sl_size_def lockout_field_def SENTINEL_TRUE_def)
  then show ?thesis
    using fold_channels [of "hg_channels g" ?f "length (sl_systems (sf_list f))" "sl_systems (sf_list f)"
        "AnalogSystem (hg_tag g) (hg_lockout g)" api] assms
    by (simp add: group_fields_def hpd_group_ok_def group_system_def addSystem_def)
qed

lemma fold_groups:
  assumes "\<forall>g\<in>set gs. hpd_group_ok g"
  shows "\<exists>f'. fold_tokens api (concat (map group_fields gs)) f = Inr f' \<and>
    sl_systems (sf_list f') = sl_systems (sf_list f) @ map (group_system api) gs"
  using assms
proof (induction gs arbitrary: f)
  case (Cons g gs)
  let ?f = "f\<lparr>sf_list := (sf_list f)\<lparr>sl_systems := sl_systems (sf_list f) @ [group_system api g]\<rparr>,
           sf_system := Some (length (sl_systems (sf_list f)))\<rparr>"
  from Cons.IH [of ?f] Cons.prems fold_group [of g api f] show ?case
    by (auto simp: fold_tokens_append)
qed auto

lemma import_systems:
  assumes "filter hpd_item (map hpd_fields (getline_tokens (CHR 0x0A) text)) = concat (map group_fields gs)"
    and "\<forall>g\<in>set gs. hpd_group_ok g"
  shows "\<exists>s. generateSystemList api (Some text) (SystemList_init api) = Inr (True, s) \<and> sl_systems s = map (group_system api) gs"
  using fold_groups [OF assms(2), of api "SentinelFile_init (SystemList_init api)"]
  by (auto simp: generateSystemList_def sentinel_lines_items assms(1) SentinelFile_init_def SystemList_init_def)

section \<open>Loading what was imported\<close>

lemma entry_view_index [simp]:
  "entry_view (e\<lparr>en_sysIndex := i\<rparr>) = entry_view e" "entry_view (e\<lparr>en_entryIndex := j\<rparr>) = entry_view e"
  by (simp_all add: entry_view_def)

lemma view_addEntries:
  "system_view (foldl (\<lambda>rs e. addEntry (Some e) rs) rs es) =
     (rs_tag rs, rs_lockout rs, map entry_view (rs_entries rs) @ map entry_view es)"
  by (induction es arbitrary: rs) (simp_all add: system_view_def addEntry_def)

lemma reloadable_reindex: "reloadable api e \<Longrightarrow> reloadable api (e\<lparr>en_entryIndex := j, en_sysIndex := i\<rparr>)"
proof -
  assume e: "reloadable api e"
  let ?m = "make_kind api (en_kind e) (en_freq e) (en_tag e) (isLockedOut e) (en_delayMS e)"
  have "e = ?m\<lparr>en_sysIndex := en_sysIndex e, en_entryIndex := en_entryIndex e\<rparr>"
    using e by (simp add: reloadable_def)
  from arg_cong [OF this, of "\<lambda>x. x\<lparr>en_entryIndex := j, en_sysIndex := i\<rparr>"]
  have A: "e\<lparr>en_entryIndex := j, en_sysIndex := i\<rparr> = ?m\<lparr>en_sysIndex := i, en_entryIndex := j\<rparr>" by simp
  have f: "en_kind (e\<lparr>en_entryIndex := j, en_sysIndex := i\<rparr>) = en_kind e"
    "en_freq (e\<lparr>en_entryIndex := j, en_sysIndex := i\<rparr>) = en_freq e" "en_tag (e\<lparr>en_entryIndex := j, en_sysIndex := i\<rparr>) = en_tag e"
    "en_delayMS (e\<lparr>en_entryIndex := j, en_sysIndex := i\<rparr>) = en_delayMS e"
    "isLockedOut (e\<lparr>en_entryIndex := j, en_sysIndex := i\<rparr>) = isLockedOut e"
    "en_sysIndex (e\<lparr>en_entryIndex := j, en_sysIndex := i\<rparr>) = i" "en_entryIndex (e\<lparr>en_entryIndex := j, en_sysIndex := i\<rparr>) = j"
    by simp_all
  have "en_kind e \<noteq> Dummy_Channel" "en_freq e \<noteq> 0" "in_int32 (en_freq e)" "in_int32 (en_delayMS e)"
    using e by (simp_all add: reloadable_def)
  then show ?thesis unfolding reloadable_def f by (intro conjI A)
qed

lemma reloadable_addEntries:
  "\<forall>e\<in>set es. reloadable api e \<Longrightarrow> \<forall>e\<in>set (rs_entries rs). reloadable api e \<Longrightarrow>
   \<forall>e\<in>set (rs_entries (foldl (\<lambda>rs e. addEntry (Some e) rs) rs es)). reloadable api e"
proof (induction es arbitrary: rs)
  case (Cons e es)
  then have "\<forall>x\<in>set (rs_entries (addEntry (Some e) rs)). reloadable api x"
    by (auto simp: addEntry_def reloadable_reindex)
  with Cons.IH [of "addEntry (Some e) rs"] Cons.prems show ?case by simp
qed simp

lemma group_system_fold:
  "group_system api g = foldl (\<lambda>rs e. addEntry (Some e) rs) (AnalogSystem (hg_tag g) (hg_lockout g)) (map (channel_entry api) (hg_channels g))"
  by (simp add: group_system_def foldl_map)

lemma make_kind_fields:
  "k \<noteq> Dummy_Channel \<Longrightarrow> en_kind (make_kind api k f tag lo del) = k \<and> en_freq (make_kind api k f tag lo del) = f \<and>
     en_tag (make_kind api k f tag lo del) = tag \<and> en_delayMS (make_kind api k f tag lo del) = del \<and>
     (isLockedOut (make_kind api k f tag lo del) \<longleftrightarrow> lo)"
  by (cases k) auto

lemma hpd_kind_real: "hpd_kind c \<noteq> Dummy_Channel"
  by (simp add: hpd_kind_def)

lemma channel_entry_view: "entry_view (channel_entry api c) = channel_view c"
  by (simp add: entry_view_def channel_entry_def channel_view_def make_kind_fields hpd_kind_real)

lemma channel_entry_reloadable:
  assumes "hpd_channel_ok c"
  shows "reloadable api (channel_entry api c)"
proof -
  have "x\<lparr>en_sysIndex := en_sysIndex x, en_entryIndex := en_entryIndex x\<rparr> = x" for x :: "'a entry" by simp
  then show ?thesis
    using assms by (simp add: reloadable_def hpd_channel_ok_def channel_entry_def make_kind_fields hpd_kind_real)
qed

lemma group_system_view: "system_view (group_system api g) = group_view g"
  by (simp add: group_system_fold view_addEntries AnalogSystem_def group_view_def channel_entry_view comp_def)

lemma group_system_reloadable:
  assumes "hpd_group_ok g" "e \<in> set (rs_entries (group_system api g))"
  shows "reloadable api e"
  using reloadable_addEntries [of "map (channel_entry api) (hg_channels g)" api "AnalogSystem (hg_tag g) (hg_lockout g)"] assms
  by (simp add: group_system_fold AnalogSystem_def hpd_group_ok_def channel_entry_reloadable)

lemma load_system_view:
  fixes api :: "'pt ptree_api"
  assumes laws: "ptree_laws api" and "\<forall>e\<in>set (rs_entries rs). reloadable api e"
  shows "\<exists>rs'. load_system api s (system_ptree api rs) = addSystem rs' s \<and> system_view rs' = system_view rs"
proof -
  let ?rs0 = "(AnalogSystem (rs_tag rs) (rs_lockout rs) :: 'pt radio_system)\<lparr>rs_sysIndex := sl_size s\<rparr>"
  let ?rs = "foldl (\<lambda>rs e. addEntry (Some e) rs) ?rs0 (rs_entries rs)"
  have "load_system api s (system_ptree api rs) = addSystem ?rs s"
    using system_ptree_reads [OF laws, of rs] foldl_reload [OF laws assms(2)]
    by (simp add: load_system_def makeSystem_def AnalogSystem_load_def)
  moreover have "system_view ?rs = system_view rs"
    unfolding view_addEntries by (simp add: system_view_def AnalogSystem_def)
  ultimately show ?thesis by blast
qed

lemma foldl_load_view:
  assumes laws: "ptree_laws api" and "\<forall>rs\<in>set rss. \<forall>e\<in>set (rs_entries rs). reloadable api e"
  shows "map system_view (sl_systems (foldl (load_system api) s (map (system_ptree api) rss))) =
    map system_view (sl_systems s) @ map system_view rss"
  using assms(2)
proof (induction rss arbitrary: s)
  case (Cons rs rss)
  obtain rs' where "load_system api s (system_ptree api rs) = addSystem rs' s" "system_view rs' = system_view rs"
    using load_system_view [OF laws, of rs s] Cons.prems by auto
  with Cons.IH [of "addSystem rs' s"] Cons.prems show ?case by (simp add: addSystem_def)
qed simp

lemma reload_views:
  assumes laws: "ptree_laws api" and "\<forall>rs\<in>set (sl_systems s). \<forall>e\<in>set (rs_entries rs). reloadable api e"
  shows "\<exists>s'. populateFromFile api (File_Tree (writeToFile api s)) (SystemList_init api) = Inr s' \<and>
    map system_view (sl_systems s') = map system_view (sl_systems s) \<and> systems_ok (sl_systems s')"
proof -
  let ?t = "writeToFile api s"
  let ?s' = "foldl (load_system api) ((SystemList_init api)\<lparr>sl_json := ?t\<rparr>) (map (system_ptree api) (sl_systems s))"
  have "get_child api ?t [''systems''] = Inr (map (system_ptree api) (sl_systems s))"
    using laws by (simp add: writeToFile_def pt_simps)
  then have load: "populateFromFile api (File_Tree ?t) (SystemList_init api) = Inr ?s'" by (simp add: populateFromFile_def)
  have "systems_ok (sl_systems ?s')" using populate_ok [OF load] by (simp add: SystemList_init_def)
  with load foldl_load_view [OF laws assms(2)] show ?thesis by (simp add: SystemList_init_def)
qed

section \<open>Properties\<close>

text \<open>
  C32: Importing and loading agree with the file. Run with \<open>-i\<close> and \<open>-o\<close> on an .hpd file whose group
  and channel lines, other lines apart, describe the groups \<open>gs\<close>, with FM channels that have a
  tone and numbers in range, \<open>piscan_hpdconv\<close> exits with 0 and writes \<open>systems.json\<close> in the
  output directory; the scanner then loads from it a well-indexed database with exactly these
  systems in order, and in each exactly its channels in order: tag, lockout, frequency, the
  kind with its tone or code, and the delay in milliseconds. That the importer numbers all
  its entries as of system 0 does no harm, since the loader numbers them again.
\<close>

theorem import_then_load:
  assumes "ptree_laws api" "fs_exists fs dir" "argc \<ge> 5" "open_file hpd = Some text"
    and "filter hpd_item (map hpd_fields (getline_tokens (CHR 0x0A) text)) = concat (map group_fields gs)"
    and "\<forall>g\<in>set gs. hpd_group_ok g"
  shows "\<exists>t s. hpdconv_main api fs db open_file argc [(CHR ''i'', hpd), (CHR ''o'', dir)] =
      Inr (0, Some (dir @ ''/'' @ SYSTEMS_FILE, t)) \<and>
    populateFromFile api (File_Tree t) (SystemList_init api) = Inr s \<and>
    systems_ok (sl_systems s) \<and> map system_view (sl_systems s) = map group_view gs"
proof -
  obtain s where s: "generateSystemList api (Some text) (SystemList_init api) = Inr (True, s)"
    "sl_systems s = map (group_system api) gs"
    using import_systems [OF assms(5,6)] by blast
  have "\<forall>rs\<in>set (sl_systems s). \<forall>e\<in>set (rs_entries rs). reloadable api e"
    using s(2) assms(6) group_system_reloadable by auto
  from reload_views [OF assms(1) this]
  obtain s' where "populateFromFile api (File_Tree (writeToFile api s)) (SystemList_init api) = Inr s'"
    "map system_view (sl_systems s') = map group_view gs" "systems_ok (sl_systems s')"
    using s(2) by (auto simp: group_system_view comp_def)
  moreover have "hpdconv_main api fs db open_file argc [(CHR ''i'', hpd), (CHR ''o'', dir)] =
      Inr (0, Some (dir @ ''/'' @ SYSTEMS_FILE, writeToFile api s))"
    using assms(2,3,4) s(1) by (simp add: hpdconv_main_def hpdconv_option_def setWorkingDirectory_def)
  ultimately show ?thesis by blast
qed

text \<open>A file with two groups and three channels, and a line that is neither.\<close>

definition demo_fields :: "string list list" where
  "demo_fields =
     [[''TargetModel'', ''BCDx36HP''],
      [''C-Group'', ''City'', ''Off''],
      [''C-Freq'', '''', '''', ''Fire'', ''Off'', ''155000000'', ''NFM'', ''TONE=C100.0'', ''3'', ''0'', ''2''],
      [''C-Freq'', '''', '''', ''Tower'', ''On'', ''118000000'', ''AM'', ''TONE=Srch'', ''15'', ''0'', ''1''],
      [''C-Group'', ''County'', ''On''],
      [''C-Freq'', '''', '''', ''Works'', ''Off'', ''460000000'', ''AUTO'', ''TONE=D023'', ''3'', ''0'', ''0'']]"

definition demo_hpd :: string where
  "demo_hpd = join_tokens (CHR 0x0A) (map (join_tokens (CHR 0x09)) demo_fields)"

definition demo_groups :: "hpd_group list" where
  "demo_groups =
     [\<lparr>hg_tag = ''City'', hg_lockout = False, hg_more = [],
       hg_channels = [\<lparr>hc_tag = ''Fire'', hc_lockout = False, hc_freq = 155000000, hc_mode = ''NFM'', hc_tone = ''TONE=C100.0'',
                        hc_between = (''3'', ''0''), hc_delay = 2, hc_more = []\<rparr>,
                      \<lparr>hc_tag = ''Tower'', hc_lockout = True, hc_freq = 118000000, hc_mode = ''AM'', hc_tone = ''TONE=Srch'',
                        hc_between = (''15'', ''0''), hc_delay = 1, hc_more = []\<rparr>]\<rparr>,
      \<lparr>hg_tag = ''County'', hg_lockout = True, hg_more = [],
       hg_channels = [\<lparr>hc_tag = ''Works'', hc_lockout = False, hc_freq = 460000000, hc_mode = ''AUTO'', hc_tone = ''TONE=D023'',
                        hc_between = (''3'', ''0''), hc_delay = 0, hc_more = []\<rparr>]\<rparr>]"

lemma demo_hpd_fields: "map hpd_fields (getline_tokens (CHR 0x0A) demo_hpd) = map (filter (\<lambda>t. t \<noteq> '''')) demo_fields"
proof -
  have tab: "\<forall>ts\<in>set demo_fields. \<forall>t\<in>set ts. CHR 0x09 \<notin> set t" by (simp add: demo_fields_def)
  have "\<forall>ts\<in>set demo_fields. CHR 0x0A \<notin> set (join_tokens (CHR 0x09) ts)" by (simp add: demo_fields_def join_tokens_def)
  then have "getline_tokens (CHR 0x0A) demo_hpd = map (join_tokens (CHR 0x09)) demo_fields"
    unfolding demo_hpd_def by (intro getline_tokens_join) simp
  then show ?thesis using tab by (simp add: hpd_fields_def getline_tokens_join)
qed

lemma digit_chars:
  "digit_char 0 = CHR ''0''" "digit_char 1 = CHR ''1''" "digit_char 2 = CHR ''2''" "digit_char 4 = CHR ''4''"
  "digit_char 5 = CHR ''5''" "digit_char 6 = CHR ''6''" "digit_char 8 = CHR ''8''" "digit_char (Suc 0) = CHR ''1''"
  by code_simp+

lemma demo_numbers:
  "to_string 155000000 = ''155000000''" "to_string 118000000 = ''118000000''" "to_string 460000000 = ''460000000''"
  "to_string 2 = ''2''" "to_string 1 = ''1''" "to_string 0 = ''0''"
  by (simp_all add: to_string_def nat_digits.simps digit_chars)

lemma demo_hpd_groups:
  "filter hpd_item (map hpd_fields (getline_tokens (CHR 0x0A) demo_hpd)) = concat (map group_fields demo_groups)"
  unfolding demo_hpd_fields
  by (simp add: demo_fields_def demo_groups_def group_fields_def channel_fields_def hpd_item_def sentinel_words
      lockout_field_def demo_numbers)

lemma demo_groups_ok: "\<forall>g\<in>set demo_groups. hpd_group_ok g"
  by (simp add: demo_groups_def hpd_group_ok_def hpd_channel_ok_def in_int32_def sentinel_words)

theorem import_then_load_witness:
  "\<exists>t s. hpdconv_main ctree_api \<lparr>fs_exists = \<lambda>_. True, fs_create_directory = \<lambda>_. False\<rparr> ''/etc'' (\<lambda>_. Some demo_hpd) 5
      [(CHR ''i'', ''list.hpd''), (CHR ''o'', ''/data'')] = Inr (0, Some (''/data/systems.json'', t)) \<and>
    populateFromFile ctree_api (File_Tree t) (SystemList_init ctree_api) = Inr s \<and>
    map system_view (sl_systems s) =
      [(''City'', False, [(''Fire'', False, 155000000, PL_Channel ''100.0'', 2000), (''Tower'', True, 118000000, AM_Channel, 1000)]),
       (''County'', True, [(''Works'', False, 460000000, DC_Channel ''023'', 0)])]"
proof -
  have v: "map group_view demo_groups =
      [(''City'', False, [(''Fire'', False, 155000000, PL_Channel ''100.0'', 2000), (''Tower'', True, 118000000, AM_Channel, 1000)]),
       (''County'', True, [(''Works'', False, 460000000, DC_Channel ''023'', 0)])]"
    by (simp add: demo_groups_def group_view_def channel_view_def hpd_kind_def sentinel_words)
  have path: "''/data'' @ ''/'' @ SYSTEMS_FILE = ''/data/systems.json''" by (simp add: SYSTEMS_FILE_def)
  let ?fs = "\<lparr>fs_exists = \<lambda>_. True, fs_create_directory = \<lambda>_. False\<rparr>"
  have ex: "fs_exists ?fs ''/data''" by simp
  from import_then_load [where open_file = "\<lambda>_. Some demo_hpd" and hpd = "''list.hpd''" and db = "''/etc''",
      OF ctree_laws ex order_refl refl demo_hpd_groups demo_groups_ok]
  show ?thesis unfolding v path by (elim exE conjE) (intro exI conjI)
qed

end
