(* ===== verification/Audio_Mixer.thy ===== *)
theory Audio_Mixer
  imports Blocking_Queue Complex_Main
begin

text \<open>
  The audio output of the signal chain (src/src/cubic/audio/AudioThread.h,
  src/src/cubic/audio/AudioThread.cpp): the callback of a controller thread, which mixes the
  queues of the audio threads that are bound to it and hands the mix to the sound card and, as
  a batch of its left channel, to the audio stream server. Threads point to each other, so they
  live in a store and a pointer is an address in it. Samples are rationals.
\<close>

section \<open>Data\<close>

record audio_input =
  ai_sampleRate :: int
  ai_channels :: int
  ai_peak :: rat
  ai_squelched :: bool
  ai_data :: "rat list"

definition AudioThreadInput_init :: audio_input where
  "AudioThreadInput_init = \<lparr>ai_sampleRate = 0, ai_channels = 0, ai_peak = 0, ai_squelched = False, ai_data = []\<rparr>"

record audio_thread =
  at_terminated :: bool
  at_stopping :: bool
  at_active :: bool
  at_queue :: "audio_input blocking_queue option"
  at_current :: "audio_input option"
  at_ptr :: nat
  at_gain :: rat
  at_bound :: "nat list"
  at_outputQueue :: "rat list list"
  at_outputDevice :: int
  at_deviceId :: int
  at_sampleRate :: int
  at_nBufferFrames :: nat
  at_underflowCount :: nat
  at_stream :: bool

definition AudioThread_init :: audio_thread where
  "AudioThread_init = \<lparr>at_terminated = False, at_stopping = False, at_active = False, at_queue = None,
     at_current = None, at_ptr = 0, at_gain = 1, at_bound = [], at_outputQueue = [], at_outputDevice = -1,
     at_deviceId = 0, at_sampleRate = 0, at_nBufferFrames = 1024, at_underflowCount = 0, at_stream = False\<rparr>"

section \<open>Mixing one thread\<close>

text \<open>\<open>out[i] += v\<close> on the buffer of the sound card; the source does not check its end.\<close>

definition add_sample :: "nat \<Rightarrow> rat \<Rightarrow> rat list \<Rightarrow> rat list result" where
  "add_sample i v out = (if i < length out then Inr (out[i := out ! i + v]) else Inl Out_Of_Bounds)"

definition add_mono :: "nat \<Rightarrow> rat \<Rightarrow> rat list \<Rightarrow> rat list result" where
  "add_mono i v out = bind_result (add_sample (2 * i) v out) (add_sample (2 * i + 1) v)"

text \<open>
  The two loops over the frames, which differ in what they do with a sample (\<open>put\<close>) and in how
  many they take. \<open>cur\<close> is \<open>currentInput\<close>; a buffer that is used up is replaced by the next
  one, and the loop ends when there is none.
\<close>

fun mix_loop ::
    "(nat \<Rightarrow> rat \<Rightarrow> rat list \<Rightarrow> rat list result) \<Rightarrow> rat \<Rightarrow> nat \<Rightarrow> nat \<Rightarrow> audio_input \<Rightarrow> nat \<Rightarrow> audio_input blocking_queue \<Rightarrow> rat \<Rightarrow>
     rat list \<Rightarrow> (rat list \<times> audio_input option \<times> nat \<times> audio_input blocking_queue \<times> rat) result" where
  "mix_loop put gain 0 i cur p q mixPeak out = Inr (out, Some cur, p, q, mixPeak)"
| "mix_loop put gain (Suc n) i cur p q mixPeak out =
     (if p < length (ai_data cur) then
        bind_result (put i (ai_data cur ! p * gain) out) (mix_loop put gain n (i + 1) cur (p + 1) q mixPeak)
      else case bq_try_pop q of
             (None, q1) \<Rightarrow> Inr (out, None, 0, q1, mixPeak)
           | (Some b, q1) \<Rightarrow>
               let m1 = max mixPeak (ai_peak b * gain)
               in if ai_data b \<noteq> [] then
                    bind_result (put i (ai_data b ! 0 * gain) out) (mix_loop put gain n (i + 1) b 1 q1 m1)
                  else mix_loop put gain n (i + 1) b 1 q1 m1 out)"

text \<open>Buffers of another sample rate are thrown away; if none is waiting the current one stays.\<close>

fun drain_rate :: "int \<Rightarrow> audio_input option \<Rightarrow> audio_input list \<Rightarrow> audio_input option \<times> audio_input list" where
  "drain_rate rate cur [] = (cur, [])"
| "drain_rate rate cur (b # bs) = (if ai_sampleRate b = rate then (Some b, bs) else drain_rate rate None bs)"

definition mix_current ::
    "nat \<Rightarrow> audio_input \<Rightarrow> nat \<Rightarrow> audio_input blocking_queue \<Rightarrow> audio_thread \<Rightarrow> rat list \<Rightarrow>
     (rat list \<times> audio_thread \<times> rat) result" where
  "mix_current n b p q t out =
     (if ai_channels b = 0 \<or> ai_data b = [] then
        (case bq_try_pop q of
           (None, _) \<Rightarrow> Inr (out, t\<lparr>at_current := Some b, at_ptr := p, at_queue := Some q\<rparr>, 0)
         | (Some c, q1) \<Rightarrow> Inr (out, t\<lparr>at_current := Some c, at_ptr := 0, at_queue := Some q1\<rparr>, 0))
      else bind_result
        (if ai_channels b = 1 then mix_loop add_mono (at_gain t) n 0 b p q (ai_peak b * at_gain t) out
         else mix_loop add_sample (at_gain t) (nat (ai_channels b * int n)) 0 b p q (ai_peak b * at_gain t) out)
        (\<lambda>(out', cur, p', q', mixPeak).
          Inr (out', t\<lparr>at_current := cur, at_ptr := p', at_queue := Some q'\<rparr>, mixPeak)))"

text \<open>The body of the loop over the bound threads; \<open>continue\<close> adds nothing to the peak.\<close>

definition mix_thread :: "nat \<Rightarrow> int \<Rightarrow> audio_thread \<Rightarrow> rat list \<Rightarrow> (rat list \<times> audio_thread \<times> rat) result" where
  "mix_thread n rate t out =
     (case at_queue t of
        None \<Rightarrow> Inr (out, t, 0)
      | Some q \<Rightarrow>
          if at_terminated t \<or> bq_empty q \<or> \<not> at_active t then Inr (out, t, 0)
          else case at_current t of
                 None \<Rightarrow> (case bq_try_pop q of (c, q1) \<Rightarrow> Inr (out, t\<lparr>at_ptr := 0, at_current := c, at_queue := Some q1\<rparr>, 0))
               | Some b \<Rightarrow>
                   if ai_sampleRate b \<noteq> rate then
                     (case drain_rate rate (Some b) (bq_items q) of (cur, rest) \<Rightarrow>
                        let q1 = q\<lparr>bq_items := rest\<rparr>
                        in case cur of
                             None \<Rightarrow> Inr (out, t\<lparr>at_current := None, at_ptr := 0, at_queue := Some q1\<rparr>, 0)
                           | Some c \<Rightarrow> mix_current n c 0 q1 t out)
                   else mix_current n b (at_ptr t) q t out)"

fun mix_bound :: "nat \<Rightarrow> int \<Rightarrow> nat list \<Rightarrow> audio_thread list \<Rightarrow> rat list \<Rightarrow> rat \<Rightarrow> (rat list \<times> audio_thread list \<times> rat) result" where
  "mix_bound n rate [] ts out peak = Inr (out, ts, peak)"
| "mix_bound n rate (j # js) ts out peak =
     bind_result (subscript ts j) (\<lambda>t.
     bind_result (mix_thread n rate t out) (\<lambda>(out', t', mixPeak).
       mix_bound n rate js (ts[j := t']) out' (peak + mixPeak)))"

section \<open>The callback\<close>

definition normalize_volume :: "rat \<Rightarrow> rat list \<Rightarrow> rat list" where
  "normalize_volume peak out = (if peak > 1 then map (\<lambda>x. x * (1 / peak)) out else out)"

text \<open>The left channel: the samples at even positions.\<close>

fun left_channel :: "rat list \<Rightarrow> rat list" where
  "left_channel (l # r # xs) = l # left_channel xs"
| "left_channel _ = []"

text \<open>
  \<open>src\<close> is the address of the controller, \<open>n\<close> the number of frames the sound card asks for.
  The result has the code that ends the stream or goes on, what the sound card plays, and the
  threads. \<open>room\<close> tells whether the lock-free queue takes another batch, \<open>status\<close> whether
  the sound card reports an underflow.
\<close>

definition audioCallback ::
    "(rat list list \<Rightarrow> bool) \<Rightarrow> bool \<Rightarrow> nat \<Rightarrow> nat \<Rightarrow> audio_thread list \<Rightarrow> (int \<times> rat list \<times> audio_thread list) result" where
  "audioCallback room status n src ts =
     (let out0 = replicate (2 * n) 0
      in bind_result (subscript ts src) (\<lambda>c.
           if at_terminated c then Inr (1, out0, ts)
           else let ts1 = (if status then ts[src := c\<lparr>at_underflowCount := at_underflowCount c + 1\<rparr>] else ts)
                in bind_result (mix_bound n (at_sampleRate c) (at_bound c) ts1 out0 0) (\<lambda>(out, ts2, peak).
                     let out' = normalize_volume peak out;
                         batch = left_channel out';
                         c2 = ts2 ! src
                     in Inr (0, out', if room (at_outputQueue c2)
                                      then ts2[src := c2\<lparr>at_outputQueue := at_outputQueue c2 @ [batch]\<rparr>]
                                      else ts2))))"

section \<open>The mix is bounded\<close>

text \<open>A buffer whose peak is the one of its samples, as \<open>DemodulatorThread\<close> computes it.\<close>

definition input_ok :: "audio_input \<Rightarrow> bool" where
  "input_ok b \<longleftrightarrow> (\<forall>x\<in>set (ai_data b). \<bar>x\<bar> \<le> ai_peak b) \<and> ai_channels b \<le> 2"

definition audio_ok :: "audio_thread \<Rightarrow> bool" where
  "audio_ok t \<longleftrightarrow> 0 \<le> at_gain t \<and> (\<forall>b. at_current t = Some b \<longrightarrow> input_ok b) \<and>
     (\<forall>q. at_queue t = Some q \<longrightarrow> (\<forall>b\<in>set (bq_items q). input_ok b))"

lemma audio_ok_init [simp]: "audio_ok AudioThread_init"
  by (simp add: audio_ok_def AudioThread_init_def)

lemma ball_list_update: "\<forall>x\<in>set xs. P x \<Longrightarrow> P y \<Longrightarrow> \<forall>x\<in>set (xs[k := y]). P x"
  using set_update_subset_insert [of xs k y] by blast

lemma audio_ok_other [simp]:
  "audio_ok (t\<lparr>at_underflowCount := u\<rparr>) = audio_ok t" "audio_ok (t\<lparr>at_outputQueue := ob\<rparr>) = audio_ok t"
  by (simp_all add: audio_ok_def)

lemma input_sample: "input_ok b \<Longrightarrow> p < length (ai_data b) \<Longrightarrow> \<bar>ai_data b ! p\<bar> \<le> ai_peak b"
  by (simp add: input_ok_def)

lemma input_peak_nonneg: "input_ok b \<Longrightarrow> ai_data b \<noteq> [] \<Longrightarrow> 0 \<le> ai_peak b"
  using input_sample [of b 0] by (simp add: order_trans [OF abs_ge_zero])

lemma scaled_sample:
  fixes gain :: rat
  assumes "input_ok b" "p < length (ai_data b)" "0 \<le> gain" "ai_peak b * gain \<le> m"
  shows "\<bar>ai_data b ! p * gain\<bar> \<le> m"
proof -
  have "\<bar>ai_data b ! p * gain\<bar> = \<bar>ai_data b ! p\<bar> * gain" using assms(3) by (simp add: abs_mult)
  also have "\<dots> \<le> ai_peak b * gain" using input_sample [OF assms(1,2)] assms(3) by (rule mult_right_mono)
  finally show ?thesis using assms(4) by simp
qed

text \<open>
  What the loop needs of the way samples are put: the \<open>i\<close>-th is added to the \<open>w\<close> positions from
  \<open>i * w\<close> on, and to no other.
\<close>

locale frame_writer =
  fixes put :: "nat \<Rightarrow> rat \<Rightarrow> rat list \<Rightarrow> rat list result" and w :: nat
  assumes put_adds: "i * w + w \<le> length out \<Longrightarrow>
    \<exists>out'. put i v out = Inr out' \<and> length out' = length out \<and>
      (\<forall>j<length out. out' ! j = out ! j + (if i * w \<le> j \<and> j < i * w + w then v else 0))"
begin

lemma put_bounded:
  assumes "i * w + w \<le> length out" "\<bar>v\<bar> \<le> m"
    and "\<forall>j<length out. \<bar>out ! j\<bar> \<le> B j + (if j < i * w then m else 0)"
  shows "\<exists>out'. put i v out = Inr out' \<and> length out' = length out \<and>
    (\<forall>j<length out. \<bar>out' ! j\<bar> \<le> B j + (if j < (i + 1) * w then m else 0))"
proof -
  obtain out' where o: "put i v out = Inr out'" "length out' = length out"
    "\<forall>j<length out. out' ! j = out ! j + (if i * w \<le> j \<and> j < i * w + w then v else 0)"
    using put_adds [OF assms(1)] by blast
  have "\<bar>out' ! j\<bar> \<le> B j + (if j < (i + 1) * w then m else 0)" if j: "j < length out" for j
  proof (cases "i * w \<le> j \<and> j < i * w + w")
    case True
    then have "out' ! j = out ! j + v" using o(3) j by simp
    moreover have "\<bar>out ! j\<bar> \<le> B j" using assms(3) j True by auto
    ultimately show ?thesis using True assms(2) abs_triangle_ineq [of "out ! j" v] by simp
  next
    case False
    then have "out' ! j = out ! j" "j < (i + 1) * w \<longleftrightarrow> j < i * w" using o(3) j by auto
    then show ?thesis using assms(3) j by simp
  qed
  with o(1,2) show ?thesis by blast
qed

lemma mix_loop_bounded:
  assumes "0 \<le> gain" "input_ok cur" "\<forall>b\<in>set (bq_items q). input_ok b" "0 \<le> m" "ai_peak cur * gain \<le> m"
    and "(i + n) * w \<le> length out" "\<forall>j<length out. \<bar>out ! j\<bar> \<le> B j + (if j < i * w then m else 0)"
  shows "\<exists>out' cur' p' q' m'. mix_loop put gain n i cur p q m out = Inr (out', cur', p', q', m') \<and>
    length out' = length out \<and> 0 \<le> m' \<and> (\<forall>j<length out. \<bar>out' ! j\<bar> \<le> B j + m') \<and>
    (\<forall>b. cur' = Some b \<longrightarrow> input_ok b) \<and> (\<forall>b\<in>set (bq_items q'). input_ok b)"
  using assms
proof (induction n arbitrary: i cur p q m out)
  case 0
  then have "\<forall>j<length out. \<bar>out ! j\<bar> \<le> B j + m" by (auto split: if_splits)
  with 0 show ?case by simp
next
  case (Suc n)
  have room: "i * w + w \<le> length out" "(i + 1 + n) * w \<le> length out"
    using Suc.prems(6) by (auto simp: algebra_simps)
  show ?case
  proof (cases "p < length (ai_data cur)")
    case True
    then have v: "\<bar>ai_data cur ! p * gain\<bar> \<le> m" using Suc.prems by (intro scaled_sample)
    obtain out1 where o: "put i (ai_data cur ! p * gain) out = Inr out1" "length out1 = length out"
      "\<forall>j<length out. \<bar>out1 ! j\<bar> \<le> B j + (if j < (i + 1) * w then m else 0)"
      using put_bounded [OF room(1) v Suc.prems(7)] by blast
    have l: "(i + 1 + n) * w \<le> length out1"
      and B: "\<forall>j<length out1. \<bar>out1 ! j\<bar> \<le> B j + (if j < (i + 1) * w then m else 0)" using room(2) o by simp_all
    from Suc.IH [OF Suc.prems(1-5) l B, of "p + 1"] show ?thesis using True o(1,2) by simp
  next
    case no: False
    show ?thesis
    proof (cases "bq_items q")
      case Nil
      have "\<forall>j<length out. \<bar>out ! j\<bar> \<le> B j + m" using Suc.prems(4,7) by (auto split: if_splits)
      with Nil no Suc.prems show ?thesis by (simp add: bq_try_pop_def)
    next
      case (Cons b bs)
      let ?q = "q\<lparr>bq_items := bs\<rparr>" and ?m = "max m (ai_peak b * gain)"
      have pop: "bq_try_pop q = (Some b, ?q)" using Cons by (simp add: bq_try_pop_def)
      have b: "input_ok b" "\<forall>c\<in>set (bq_items ?q). input_ok c" using Suc.prems(3) Cons by simp_all
      have m: "0 \<le> ?m" "ai_peak b * gain \<le> ?m" using Suc.prems(4) by simp_all
      have B: "\<forall>j<length out. \<bar>out ! j\<bar> \<le> B j + (if j < i * w then ?m else 0)"
        using Suc.prems(7) by (auto split: if_splits)
      show ?thesis
      proof (cases "ai_data b = []")
        case True
        have "\<forall>j<length out. \<bar>out ! j\<bar> \<le> B j + (if j < (i + 1) * w then ?m else 0)"
          using B m(1) by (auto split: if_splits)
        from Suc.IH [OF Suc.prems(1) b m room(2) this, of 1] show ?thesis using no True by (simp add: pop)
      next
        case False
        then have v: "\<bar>ai_data b ! 0 * gain\<bar> \<le> ?m" using Suc.prems(1) b(1) m(2) by (intro scaled_sample) simp_all
        obtain out1 where o: "put i (ai_data b ! 0 * gain) out = Inr out1" "length out1 = length out"
          "\<forall>j<length out. \<bar>out1 ! j\<bar> \<le> B j + (if j < (i + 1) * w then ?m else 0)"
          using put_bounded [OF room(1) v B] by blast
        have l: "(i + 1 + n) * w \<le> length out1"
          and B1: "\<forall>j<length out1. \<bar>out1 ! j\<bar> \<le> B j + (if j < (i + 1) * w then ?m else 0)" using room(2) o by simp_all
        from Suc.IH [OF Suc.prems(1) b m l B1, of 1] show ?thesis using no False o(1,2) by (simp add: pop)
      qed
    qed
  qed
qed

end

interpretation stereo: frame_writer add_sample 1
  by unfold_locales (auto simp: add_sample_def nth_list_update)

interpretation mono: frame_writer add_mono 2
proof
  fix i v and out :: "rat list"
  assume "i * 2 + 2 \<le> length out"
  then show "\<exists>out'. add_mono i v out = Inr out' \<and> length out' = length out \<and>
      (\<forall>j<length out. out' ! j = out ! j + (if i * 2 \<le> j \<and> j < i * 2 + 2 then v else 0))"
    by (auto simp: add_mono_def add_sample_def nth_list_update)
qed

text \<open>One thread, and all of them, raise the bound of every position by the peak they report.\<close>

lemma mix_current_bounded:
  assumes "audio_ok t" "input_ok b" "\<forall>c\<in>set (bq_items q). input_ok c" "length out = 2 * n"
  shows "\<exists>out' t' m. mix_current n b p q t out = Inr (out', t', m) \<and> audio_ok t' \<and> length out' = length out \<and>
    0 \<le> m \<and> (\<forall>j<length out. \<bar>out' ! j\<bar> \<le> \<bar>out ! j\<bar> + m)"
proof (cases "ai_channels b = 0 \<or> ai_data b = []")
  case True
  then show ?thesis
    using assms by (cases "bq_items q") (simp_all add: mix_current_def bq_try_pop_def audio_ok_def)
next
  case False
  have g: "0 \<le> at_gain t" using assms(1) by (simp add: audio_ok_def)
  then have m: "0 \<le> ai_peak b * at_gain t" using input_peak_nonneg [OF assms(2)] False by simp
  have "nat (ai_channels b * int n) \<le> 2 * n"
    using assms(2) mult_right_mono [of "ai_channels b" 2 "int n"] by (simp add: input_ok_def)
  then have l: "(0 + n) * 2 \<le> length out" "(0 + nat (ai_channels b * int n)) * 1 \<le> length out" using assms(4) by simp_all
  have B: "\<forall>j<length out. \<bar>out ! j\<bar> \<le> \<bar>out ! j\<bar> + (if j < 0 * w then ai_peak b * at_gain t else 0)" for w :: nat by simp
  let ?loop = "if ai_channels b = 1 then mix_loop add_mono (at_gain t) n 0 b p q (ai_peak b * at_gain t) out
    else mix_loop add_sample (at_gain t) (nat (ai_channels b * int n)) 0 b p q (ai_peak b * at_gain t) out"
  have "\<exists>out' cur' p' q' m'. ?loop = Inr (out', cur', p', q', m') \<and> length out' = length out \<and> 0 \<le> m' \<and>
    (\<forall>j<length out. \<bar>out' ! j\<bar> \<le> \<bar>out ! j\<bar> + m') \<and> (\<forall>b. cur' = Some b \<longrightarrow> input_ok b) \<and> (\<forall>b\<in>set (bq_items q'). input_ok b)"
  proof (cases "ai_channels b = 1")
    case True
    from mono.mix_loop_bounded [OF g assms(2,3) m order_refl l(1) B, of p] show ?thesis by (simp only: True simp_thms if_True)
  next
    case False
    from stereo.mix_loop_bounded [OF g assms(2,3) m order_refl l(2) B, of p] show ?thesis by (simp only: False if_False)
  qed
  then obtain out' cur' p' q' m' where r: "?loop = Inr (out', cur', p', q', m')" "length out' = length out" "0 \<le> m'"
    "\<forall>j<length out. \<bar>out' ! j\<bar> \<le> \<bar>out ! j\<bar> + m'" "\<forall>b. cur' = Some b \<longrightarrow> input_ok b" "\<forall>b\<in>set (bq_items q'). input_ok b"
    by (elim exE conjE)
  then have "audio_ok (t\<lparr>at_current := cur', at_ptr := p', at_queue := Some q'\<rparr>)"
    using g by (simp add: audio_ok_def)
  moreover have "mix_current n b p q t out = Inr (out', t\<lparr>at_current := cur', at_ptr := p', at_queue := Some q'\<rparr>, m')"
    unfolding mix_current_def r(1) using False by simp
  ultimately show ?thesis using r(2-4) by (intro exI conjI)
qed

lemma drain_rate_items:
  "drain_rate rate cur bs = (cur', rest) \<Longrightarrow> set rest \<subseteq> set bs \<and> (cur' = cur \<or> cur' = None \<or> (\<exists>b\<in>set bs. cur' = Some b))"
proof (induction bs arbitrary: cur)
  case (Cons b bs)
  then show ?case by (cases "ai_sampleRate b = rate") fastforce+
qed simp

lemma drain_rate_ok:
  assumes "drain_rate rate cur bs = (cur', rest)" "\<forall>b\<in>set bs. input_ok b" "\<forall>b. cur = Some b \<longrightarrow> input_ok b"
  shows "(\<forall>b. cur' = Some b \<longrightarrow> input_ok b) \<and> (\<forall>b\<in>set rest. input_ok b)"
  using drain_rate_items [OF assms(1)] assms(2,3) by blast

lemma mix_thread_bounded:
  assumes "audio_ok t" "length out = 2 * n"
  shows "\<exists>out' t' m. mix_thread n rate t out = Inr (out', t', m) \<and> audio_ok t' \<and> length out' = length out \<and>
    0 \<le> m \<and> (\<forall>j<length out. \<bar>out' ! j\<bar> \<le> \<bar>out ! j\<bar> + m)"
proof -
  have skip: "\<exists>out' t' m. Inr (out, t, 0) = Inr (out', t', m) \<and> audio_ok t' \<and> length out' = length out \<and>
      0 \<le> m \<and> (\<forall>j<length out. \<bar>out' ! j\<bar> \<le> \<bar>out ! j\<bar> + m)" if "audio_ok t" for t
    using that by simp
  show ?thesis
  proof (cases "at_queue t")
    case None
    with assms(1) show ?thesis by (simp add: mix_thread_def)
  next
    case (Some q)
    have items: "\<forall>c\<in>set (bq_items q). input_ok c" using assms(1) Some by (simp add: audio_ok_def)
    show ?thesis
    proof (cases "at_terminated t \<or> bq_empty q \<or> \<not> at_active t")
      case True
      with Some assms(1) show ?thesis by (auto simp: mix_thread_def)
    next
      case live: False
      show ?thesis
      proof (cases "at_current t")
        case None
        have "audio_ok (t\<lparr>at_ptr := 0, at_current := fst (bq_try_pop q), at_queue := Some (snd (bq_try_pop q))\<rparr>)"
          using assms(1) items by (cases "bq_items q") (simp_all add: audio_ok_def bq_try_pop_def)
        with live Some None show ?thesis by (auto simp: mix_thread_def split: prod.splits)
      next
        case cur: (Some b)
        then have b: "input_ok b" using assms(1) by (simp add: audio_ok_def)
        show ?thesis
        proof (cases "ai_sampleRate b = rate")
          case True
          with live Some cur mix_current_bounded [OF assms(1) b items assms(2), of "at_ptr t"]
          show ?thesis by (simp add: mix_thread_def)
        next
          case False
          obtain c rest where d: "drain_rate rate (Some b) (bq_items q) = (c, rest)" by force
          have r: "\<forall>b. c = Some b \<longrightarrow> input_ok b" "\<forall>b\<in>set rest. input_ok b"
            using drain_rate_ok [OF d items] b by simp_all
          show ?thesis
          proof (cases c)
            case None
            with assms(1) r(2) live Some cur False d show ?thesis by (simp add: mix_thread_def audio_ok_def)
          next
            case (Some x)
            then have "input_ok x" "\<forall>b\<in>set (bq_items (q\<lparr>bq_items := rest\<rparr>)). input_ok b" using r by simp_all
            from mix_current_bounded [OF assms(1) this assms(2), of 0] live cur False d Some \<open>at_queue t = Some q\<close>
            show ?thesis by (simp add: mix_thread_def)
          qed
        qed
      qed
    qed
  qed
qed

lemma mix_bound_bounded:
  assumes "\<forall>t\<in>set ts. audio_ok t" "\<forall>j\<in>set js. j < length ts" "length out = 2 * n" "\<forall>j<length out. \<bar>out ! j\<bar> \<le> peak"
  shows "\<exists>out' ts' peak'. mix_bound n rate js ts out peak = Inr (out', ts', peak') \<and> length out' = length out \<and>
    length ts' = length ts \<and> (\<forall>t\<in>set ts'. audio_ok t) \<and> (\<forall>j<length out. \<bar>out' ! j\<bar> \<le> peak')"
  using assms
proof (induction js arbitrary: ts out peak)
  case (Cons k js)
  then have k: "k < length ts" "audio_ok (ts ! k)" by simp_all
  obtain out' t' m where t: "mix_thread n rate (ts ! k) out = Inr (out', t', m)" "audio_ok t'" "length out' = length out"
    "0 \<le> m" "\<forall>j<length out. \<bar>out' ! j\<bar> \<le> \<bar>out ! j\<bar> + m"
    using mix_thread_bounded [OF k(2) Cons.prems(3)] by blast
  have "\<bar>out' ! j\<bar> \<le> peak + m" if "j < length out'" for j
  proof -
    have "\<bar>out' ! j\<bar> \<le> \<bar>out ! j\<bar> + m" "\<bar>out ! j\<bar> \<le> peak" using t(3,5) Cons.prems(4) that by simp_all
    then show ?thesis by linarith
  qed
  moreover have "\<forall>t\<in>set (ts[k := t']). audio_ok t" using Cons.prems(1) t(2) by (rule ball_list_update)
  ultimately show ?case
    using Cons.IH [of "ts[k := t']" out' "peak + m"] Cons.prems t k by (simp add: subscript_def)
qed simp

text \<open>Only the callback itself touches the queue for the stream server.\<close>

lemma mix_thread_queue: "mix_thread n rate t out = Inr (out', t', m) \<Longrightarrow> at_outputQueue t' = at_outputQueue t"
  by (auto simp: mix_thread_def mix_current_def bind_result_Inr_iff Let_def split: option.splits if_splits prod.splits)

lemma mix_bound_queue: "mix_bound n rate js ts out peak = Inr (out', ts', peak') \<Longrightarrow> map at_outputQueue ts' = map at_outputQueue ts"
proof (induction js arbitrary: ts out peak)
  case (Cons j js)
  then obtain o1 t1 m1 where t: "j < length ts" "mix_thread n rate (ts ! j) out = Inr (o1, t1, m1)"
    "mix_bound n rate js (ts[j := t1]) o1 (peak + m1) = Inr (out', ts', peak')"
    by (auto simp: bind_result_Inr_iff)
  have "map at_outputQueue (ts[j := t1]) = map at_outputQueue ts"
    using mix_thread_queue [OF t(2)] t(1) by (simp add: map_update list_update_same_conv)
  with Cons.IH [OF t(3)] show ?case by simp
qed simp

lemma normalize_bounded:
  assumes "\<forall>j<length out. \<bar>out ! j\<bar> \<le> peak"
  shows "\<forall>x\<in>set (normalize_volume peak out). \<bar>x\<bar> \<le> 1"
proof (cases "peak > 1")
  case True
  have "\<bar>out ! j * (1 / peak)\<bar> \<le> 1" if "j < length out" for j
    using assms that True by (simp add: abs_mult)
  with True show ?thesis by (auto simp: normalize_volume_def in_set_conv_nth)
next
  case False
  have "\<bar>out ! j\<bar> \<le> 1" if "j < length out" for j using assms that False by fastforce
  with False show ?thesis by (auto simp: normalize_volume_def in_set_conv_nth)
qed

lemma left_channel_subset: "set (left_channel xs) \<subseteq> set xs"
  by (induction xs rule: left_channel.induct) auto

lemma length_left_channel: "length (left_channel xs) = length xs div 2"
  by (induction xs rule: left_channel.induct) auto

lemma length_normalize [simp]: "length (normalize_volume p xs) = length xs"
  by (simp add: normalize_volume_def)

lemma callback_bounded:
  assumes "\<forall>t\<in>set ts. audio_ok t" "src < length ts" "\<forall>j\<in>set (at_bound (ts ! src)). j < length ts"
  shows "\<exists>code out ts'. audioCallback room status n src ts = Inr (code, out, ts') \<and> length out = 2 * n \<and>
    (\<forall>x\<in>set out. \<bar>x\<bar> \<le> 1) \<and> (\<forall>t\<in>set ts'. audio_ok t) \<and> length ts' = length ts \<and>
    code = (if at_terminated (ts ! src) then 1 else 0) \<and>
    at_outputQueue (ts' ! src) = at_outputQueue (ts ! src) @
      (if code = 0 \<and> room (at_outputQueue (ts ! src)) then [left_channel out] else [])"
proof (cases "at_terminated (ts ! src)")
  case True
  with assms show ?thesis by (simp add: audioCallback_def subscript_def)
next
  case False
  let ?c = "ts ! src"
  let ?ts = "if status then ts[src := ?c\<lparr>at_underflowCount := at_underflowCount ?c + 1\<rparr>] else ts"
  have "audio_ok (?c\<lparr>at_underflowCount := u\<rparr>)" for u using assms(1,2) by simp
  then have "\<forall>t\<in>set (ts[src := ?c\<lparr>at_underflowCount := at_underflowCount ?c + 1\<rparr>]). audio_ok t"
    by (rule ball_list_update [OF assms(1)])
  then have ok: "\<forall>t\<in>set ?ts. audio_ok t" "length ?ts = length ts"
    using assms(1) by simp_all
  obtain out ts2 peak where m: "mix_bound n (at_sampleRate ?c) (at_bound ?c) ?ts (replicate (2 * n) 0) 0 = Inr (out, ts2, peak)"
    "length out = 2 * n" "length ts2 = length ts" "\<forall>t\<in>set ts2. audio_ok t" "\<forall>j<length out. \<bar>out ! j\<bar> \<le> peak"
    using mix_bound_bounded [OF ok(1), of "at_bound ?c" "replicate (2 * n) 0" n 0 "at_sampleRate ?c"] assms(3) ok(2) by auto
  let ?out = "normalize_volume peak out"
  let ?c2 = "ts2 ! src"
  let ?ts' = "if room (at_outputQueue ?c2) then ts2[src := ?c2\<lparr>at_outputQueue := at_outputQueue ?c2 @ [left_channel ?out]\<rparr>] else ts2"
  have call: "audioCallback room status n src ts = Inr (0, ?out, ?ts')"
    using False m(1) assms(2) by (simp add: audioCallback_def subscript_def Let_def)
  have "audio_ok (?c2\<lparr>at_outputQueue := ob\<rparr>)" for ob using m(3,4) assms(2) by simp
  then have "\<forall>t\<in>set (ts2[src := ?c2\<lparr>at_outputQueue := at_outputQueue ?c2 @ [left_channel ?out]\<rparr>]). audio_ok t"
    by (rule ball_list_update [OF m(4)])
  then have "\<forall>t\<in>set ?ts'. audio_ok t" using m(4) by simp
  moreover have q: "at_outputQueue ?c2 = at_outputQueue ?c"
  proof -
    have "map at_outputQueue ts2 ! src = map at_outputQueue ?ts ! src" by (simp only: mix_bound_queue [OF m(1)])
    then show ?thesis using assms(2) m(3) by (simp split: if_splits)
  qed
  moreover have "at_outputQueue (?ts' ! src) = at_outputQueue ?c @ (if room (at_outputQueue ?c) then [left_channel ?out] else [])"
    using assms(2) m(3) q by simp
  ultimately show ?thesis
    using call m(2,3) False normalize_bounded [OF m(5)]
    by (intro exI [of _ 0] exI [of _ ?out] exI [of _ ?ts']) simp
qed

section \<open>A bound thread is a stream\<close>

text \<open>
  The abstract view of a thread: the samples it has yet to play. Playing adds the first samples
  to the frames of the mix, each to both channels.
\<close>

definition pending :: "audio_thread \<Rightarrow> rat list" where
  "pending t =
     (case at_current t of None \<Rightarrow> [] | Some b \<Rightarrow> drop (at_ptr t) (ai_data b)) @
     (case at_queue t of None \<Rightarrow> [] | Some q \<Rightarrow> concat (map ai_data (bq_items q)))"

definition play_from :: "nat \<Rightarrow> rat \<Rightarrow> rat list \<Rightarrow> rat list \<Rightarrow> rat list" where
  "play_from i gain xs out =
     map (\<lambda>j. out ! j + (if i \<le> j div 2 \<and> j div 2 - i < length xs then xs ! (j div 2 - i) * gain else 0)) [0..<length out]"

definition mono_input :: "int \<Rightarrow> audio_input \<Rightarrow> bool" where
  "mono_input rate b \<longleftrightarrow> ai_channels b = 1 \<and> ai_sampleRate b = rate \<and> ai_data b \<noteq> []"

definition mono_thread :: "int \<Rightarrow> audio_thread \<Rightarrow> bool" where
  "mono_thread rate t \<longleftrightarrow> (\<forall>b. at_current t = Some b \<longrightarrow> mono_input rate b) \<and>
     (\<forall>q. at_queue t = Some q \<longrightarrow> (\<forall>b\<in>set (bq_items q). mono_input rate b))"

lemma length_play [simp]: "length (play_from i gain xs out) = length out"
  by (simp add: play_from_def)

lemma play_nothing [simp]: "play_from i gain [] out = out"
  by (simp add: play_from_def map_nth)

lemma add_mono_plays:
  assumes "i * 2 + 2 \<le> length out"
  shows "\<exists>out'. add_mono i (x * gain) out = Inr out' \<and> length out' = length out \<and>
    play_from (i + 1) gain xs out' = play_from i gain (x # xs) out"
proof -
  obtain out' where o: "add_mono i (x * gain) out = Inr out'" "length out' = length out"
    "\<forall>j<length out. out' ! j = out ! j + (if i * 2 \<le> j \<and> j < i * 2 + 2 then x * gain else 0)"
    using mono.put_adds [OF assms, of "x * gain"] by blast
  have "out' ! j + (if i + 1 \<le> j div 2 \<and> j div 2 - (i + 1) < length xs then xs ! (j div 2 - (i + 1)) * gain else 0) =
      out ! j + (if i \<le> j div 2 \<and> j div 2 - i < length (x # xs) then (x # xs) ! (j div 2 - i) * gain else 0)"
    if j: "j < length out" for j
  proof -
    consider "j div 2 < i" | "j div 2 = i" | "i < j div 2" by linarith
    then show ?thesis
    proof cases
      case 1
      then have "\<not> i * 2 \<le> j" by linarith
      with 1 o(3) j show ?thesis by simp
    next
      case 2
      then have "i * 2 \<le> j \<and> j < i * 2 + 2" by linarith
      with 2 o(3) j show ?thesis by simp
    next
      case 3
      then have "\<not> j < i * 2 + 2" "j div 2 - i = Suc (j div 2 - (i + 1))" by linarith+
      with 3 o(3) j show ?thesis by simp
    qed
  qed
  then have "play_from (i + 1) gain xs out' = play_from i gain (x # xs) out"
    unfolding play_from_def o(2) by (intro map_cong) auto
  with o(1,2) show ?thesis by blast
qed

lemma mix_loop_streams:
  assumes "\<forall>b\<in>set (bq_items q). mono_input rate b" "mono_input rate cur" "(i + n) * 2 \<le> length out"
    and "xs = drop p (ai_data cur) @ concat (map ai_data (bq_items q))"
  shows "\<exists>cur' p' q' m'. mix_loop add_mono gain n i cur p q m out = Inr (play_from i gain (take n xs) out, cur', p', q', m') \<and>
    pending (t\<lparr>at_current := cur', at_ptr := p', at_queue := Some q'\<rparr>) = drop n xs \<and>
    mono_thread rate (t\<lparr>at_current := cur', at_ptr := p', at_queue := Some q'\<rparr>)"
  using assms
proof (induction n arbitrary: i cur p q m out xs)
  case 0
  then show ?case by (simp add: pending_def mono_thread_def)
next
  case (Suc n)
  have room: "i * 2 + 2 \<le> length out" using Suc.prems(3) by simp
  show ?case
  proof (cases "p < length (ai_data cur)")
    case True
    then have xs: "xs = ai_data cur ! p # (drop (p + 1) (ai_data cur) @ concat (map ai_data (bq_items q)))" (is "_ = _ # ?ys")
      using Suc.prems(4) by (simp add: Cons_nth_drop_Suc)
    obtain out' where o: "add_mono i (ai_data cur ! p * gain) out = Inr out'" "length out' = length out"
      "play_from (i + 1) gain (take n ?ys) out' = play_from i gain (ai_data cur ! p # take n ?ys) out"
      using add_mono_plays [OF room] by blast
    have "(i + 1 + n) * 2 \<le> length out'" using Suc.prems(3) o(2) by simp
    from Suc.IH [OF Suc.prems(1,2) this refl, of "p + 1" m] show ?thesis
      using True o(1,3) unfolding xs by simp
  next
    case no: False
    show ?thesis
    proof (cases "bq_items q")
      case Nil
      with no Suc.prems(4) show ?thesis by (simp add: bq_try_pop_def pending_def mono_thread_def)
    next
      case (Cons b bs)
      let ?q = "q\<lparr>bq_items := bs\<rparr>" and ?ys = "drop 1 (ai_data b) @ concat (map ai_data bs)"
      have pop: "bq_try_pop q = (Some b, ?q)" using Cons by (simp add: bq_try_pop_def)
      have b: "mono_input rate b" "\<forall>c\<in>set (bq_items ?q). mono_input rate c" using Suc.prems(1) Cons by simp_all
      then have ne: "ai_data b \<noteq> []" by (simp add: mono_input_def)
      then have xs: "xs = ai_data b ! 0 # ?ys" using Suc.prems(4) no Cons by (cases "ai_data b") simp_all
      obtain out' where o: "add_mono i (ai_data b ! 0 * gain) out = Inr out'" "length out' = length out"
        "play_from (i + 1) gain (take n ?ys) out' = play_from i gain (ai_data b ! 0 # take n ?ys) out"
        using add_mono_plays [OF room] by blast
      have "(i + 1 + n) * 2 \<le> length out'" using Suc.prems(3) o(2) by simp
      from Suc.IH [OF b(2,1) this, of ?ys 1 "max m (ai_peak b * gain)"] show ?thesis
        using no ne o(1,3) unfolding xs by (simp add: pop)
    qed
  qed
qed

section \<open>Properties\<close>

text \<open>
  The mix never clips. If every thread of the audio system is well-formed (no negative gain, at
  most two channels, and the samples of each buffer within the peak it carries), the callback of
  a controller runs without writing past the sound card's buffer, returns as many samples as it
  was asked for, all within [-1, 1] however many threads are mixed and whatever their gains, and
  leaves all threads well-formed. What it queues for the stream server, as long as that has room,
  is the left channel of it. A controller that has been terminated plays silence and ends.
\<close>

theorem mix_never_clips:
  assumes "\<forall>t\<in>set ts. audio_ok t" "src < length ts" "\<forall>j\<in>set (at_bound (ts ! src)). j < length ts"
  shows "\<exists>code out ts'. audioCallback room status n src ts = Inr (code, out, ts') \<and> length out = 2 * n \<and>
    (\<forall>x\<in>set out. \<bar>x\<bar> \<le> 1) \<and> (\<forall>t\<in>set ts'. audio_ok t) \<and> length ts' = length ts \<and>
    code = (if at_terminated (ts ! src) then 1 else 0) \<and>
    at_outputQueue (ts' ! src) = at_outputQueue (ts ! src) @
      (if code = 0 \<and> room (at_outputQueue (ts ! src)) then [left_channel out] else [])"
  by (rule callback_bounded [OF assms])

text \<open>
  C16: A bound thread is a stream, of which the mixer plays the front. Seen as the samples it has yet
  to play, a thread whose buffers are mono and of the controller's rate is only ever shortened
  from the front: of \<open>n\<close> frames the mix gets its first samples, scaled by its gain, on both
  channels, in order and none twice, across the boundaries of buffers, and the rest stays. It
  plays as many as there are, up to \<open>n\<close>, when it is active, has a buffer in hand and another
  waiting; in every other case it plays nothing and loses nothing.
\<close>

theorem mixer_plays_stream:
  assumes "mono_thread rate t" "length out = 2 * n"
  shows "\<exists>t' m k. mix_thread n rate t out = Inr (play_from 0 (at_gain t) (take k (pending t)) out, t', m) \<and>
    pending t' = drop k (pending t) \<and> mono_thread rate t' \<and>
    k = (if \<not> at_terminated t \<and> at_active t \<and> at_current t \<noteq> None \<and> (\<exists>q. at_queue t = Some q \<and> bq_items q \<noteq> [])
         then n else 0)"
proof (cases "at_queue t")
  case None
  with assms show ?thesis by (simp add: mix_thread_def)
next
  case (Some q)
  have items: "\<forall>b\<in>set (bq_items q). mono_input rate b" using assms(1) Some by (simp add: mono_thread_def)
  show ?thesis
  proof (cases "at_terminated t \<or> bq_empty q \<or> \<not> at_active t")
    case True
    with Some assms show ?thesis by (auto simp: mix_thread_def bq_empty_def)
  next
    case live: False
    show ?thesis
    proof (cases "at_current t")
      case None
      obtain b bs where q: "bq_items q = b # bs" using live by (cases "bq_items q") (auto simp: bq_empty_def)
      then have pop: "bq_try_pop q = (Some b, q\<lparr>bq_items := bs\<rparr>)" by (simp add: bq_try_pop_def)
      let ?t = "t\<lparr>at_ptr := 0, at_current := Some b, at_queue := Some (q\<lparr>bq_items := bs\<rparr>)\<rparr>"
      have "pending ?t = pending t" "mono_thread rate ?t"
        using None Some q items by (simp_all add: pending_def mono_thread_def)
      with live Some None pop show ?thesis by (simp add: mix_thread_def)
    next
      case cur: (Some b)
      have b: "mono_input rate b" using assms(1) cur by (simp add: mono_thread_def)
      have l: "(0 + n) * 2 \<le> length out" using assms(2) by simp
      obtain cur' p' q' m' where
        "mix_loop add_mono (at_gain t) n 0 b (at_ptr t) q (ai_peak b * at_gain t) out =
           Inr (play_from 0 (at_gain t) (take n (pending t)) out, cur', p', q', m')"
        "pending (t\<lparr>at_current := cur', at_ptr := p', at_queue := Some q'\<rparr>) = drop n (pending t)"
        "mono_thread rate (t\<lparr>at_current := cur', at_ptr := p', at_queue := Some q'\<rparr>)"
        using mix_loop_streams [OF items b l, of "pending t" "at_ptr t" "at_gain t" "ai_peak b * at_gain t" t] cur Some
        by (auto simp: pending_def)
      with live Some cur b show ?thesis
        by (auto simp: mix_thread_def mix_current_def mono_input_def bq_empty_def)
    qed
  qed
qed

text \<open>A controller with one bound thread that is loud, for witnesses.\<close>

definition demo_input :: "rat list \<Rightarrow> audio_input" where
  "demo_input xs = \<lparr>ai_sampleRate = 48000, ai_channels = 1, ai_peak = 1, ai_squelched = False, ai_data = xs\<rparr>"

definition demo_bound :: audio_thread where
  "demo_bound = AudioThread_init\<lparr>at_active := True, at_sampleRate := 48000, at_gain := 2,
     at_current := Some (demo_input [1 / 2, -1]), at_queue := Some \<lparr>bq_items = [demo_input [1, 1 / 4]], bq_max = 10\<rparr>\<rparr>"

definition demo_controller :: audio_thread where
  "demo_controller = AudioThread_init\<lparr>at_active := True, at_sampleRate := 48000, at_bound := [1]\<rparr>"

lemma demo_audio_ok: "\<forall>t\<in>set [demo_controller, demo_bound]. audio_ok t"
  by (simp add: demo_controller_def demo_bound_def demo_input_def audio_ok_def input_ok_def AudioThread_init_def)

theorem mix_never_clips_witness:
  "\<exists>code out ts'. audioCallback (\<lambda>_. True) False 3 0 [demo_controller, demo_bound] = Inr (code, out, ts') \<and> length out = 6 \<and>
     list_all (\<lambda>x. \<bar>x\<bar> \<le> 1) out"
  using mix_never_clips [OF demo_audio_ok, of 0 "\<lambda>_. True" False 3]
  by (auto simp: demo_controller_def list_all_iff)

theorem mixer_plays_stream_witness:
  "\<exists>t' m. mix_thread 3 48000 demo_bound (replicate 6 0) = Inr ([1, 1, -2, -2, 2, 2], t', m) \<and> pending t' = [1 / 4]"
proof -
  have m: "mono_thread 48000 demo_bound"
    by (simp add: demo_bound_def demo_input_def mono_thread_def mono_input_def AudioThread_init_def)
  have p: "pending demo_bound = [1 / 2, -1, 1, 1 / 4]" and g: "at_gain demo_bound = 2"
    and live: "\<not> at_terminated demo_bound" "at_active demo_bound" "at_current demo_bound \<noteq> None"
      "\<exists>q. at_queue demo_bound = Some q \<and> bq_items q \<noteq> []"
    by (simp_all add: pending_def demo_bound_def demo_input_def AudioThread_init_def)
  have "play_from 0 2 [1 / 2, -1, 1] (replicate 6 0) = [1, 1, -2, -2, 2, 2]"
    by (simp add: play_from_def upt_rec nth_Cons')
  then show ?thesis
    using mixer_plays_stream [OF m, of "replicate 6 0" 3] live
    by (auto simp: p g numeral_eq_Suc)
qed

end
