(* ===== verification/Pcm_Source.thy ===== *)
theory Pcm_Source
  imports Audio_Mixer
begin

text \<open>
  The source of the audio stream (src/src/server/audio_server/LocalPCMSource.cpp): frames of
  16-bit samples, taken one by one from the batches that the mixer's callback has queued.
  \<open>_currentBatch\<close> with \<open>_batchIterator\<close> is the rest of a batch from the iterator on. The RTSP
  library asks for a frame and offers a buffer; what it does with it is not modelled.
\<close>

section \<open>The source\<close>

record pcm_source =
  ps_samplingFrequency :: nat
  ps_preferredFrameSize :: nat
  ps_batch :: "rat list option"
  ps_frameSize :: nat
  ps_lastPlayTime :: nat
  ps_sec :: nat
  ps_usec :: nat

text \<open>About 20 ms of samples in a frame, but no more than fit into 1400 bytes.\<close>

definition preferred_frame_size :: "nat \<Rightarrow> nat" where
  "preferred_frame_size fs =
     (let maxSamplesPerFrame = (1400 * 8) div (1 * 16); desiredSamplesPerFrame = nat \<lfloor>(2 / 100) * rat_of_nat fs\<rfloor>
      in (min desiredSamplesPerFrame maxSamplesPerFrame * 1 * 16) div 8)"

definition LocalPCMSource :: "nat \<Rightarrow> pcm_source" where
  "LocalPCMSource fs = \<lparr>ps_samplingFrequency = fs, ps_preferredFrameSize = preferred_frame_size fs, ps_batch = None,
     ps_frameSize = 0, ps_lastPlayTime = 0, ps_sec = 0, ps_usec = 0\<rparr>"

text \<open>There is a source only if there is a controller.\<close>

definition createNew :: "audio_thread option \<Rightarrow> pcm_source option" where
  "createNew controller = map_option (\<lambda>c. LocalPCMSource (nat (at_sampleRate c))) controller"

section \<open>Reading a frame\<close>

text \<open>The conversion to \<open>short\<close> of a value out of its range is undefined.\<close>

definition pcm_of :: "rat \<Rightarrow> int result" where
  "pcm_of x = (let v = \<lfloor>x * 32767\<rfloor> in if -32768 \<le> v \<and> v \<le> 32767 then Inr v else Inl Signed_Overflow)"

text \<open>
  The loop over the samples. \<open>acc\<close> is what has been copied to the buffer, which has room for
  \<open>capacity\<close> bytes; reading from a batch without samples reads past its end.
\<close>

function pcm_loop ::
    "nat \<Rightarrow> nat \<Rightarrow> int list \<Rightarrow> rat list option \<Rightarrow> rat list list \<Rightarrow> (int list \<times> rat list option \<times> rat list list) result" where
  "pcm_loop capacity samplesToRead acc None [] = Inr (acc, None, [])"
| "pcm_loop capacity samplesToRead acc None ([] # queue) = Inl Out_Of_Bounds"
| "pcm_loop capacity samplesToRead acc (Some []) queue = Inl Out_Of_Bounds"
| "pcm_loop capacity samplesToRead acc None ((x # xs) # queue) =
     pcm_loop capacity samplesToRead acc (Some (x # xs)) queue"
| "pcm_loop capacity samplesToRead acc (Some (x # xs)) queue =
     bind_result (pcm_of x) (\<lambda>pcm.
       if 2 * (length acc + 1) > capacity then Inl Out_Of_Bounds
       else let acc' = acc @ [pcm]; batch = (if xs = [] then None else Some xs)
            in if length acc' = samplesToRead then Inr (acc', batch, queue)
               else pcm_loop capacity samplesToRead acc' batch queue)"
  by pat_completeness auto
termination
  by (relation "measure (\<lambda>(capacity, n, acc, batch, queue).
        (case batch of None \<Rightarrow> 1 | Some xs \<Rightarrow> 2 * length xs) + sum_list (map (\<lambda>xs. 2 * length xs) queue))")
    auto

datatype pcm_frame = Closed | Frame "int list"

text \<open>\<open>gettimeofday\<close> of the first frame; every next one follows the play time of the one before.\<close>

definition next_time :: "nat \<times> nat \<Rightarrow> pcm_source \<Rightarrow> nat \<times> nat" where
  "next_time now s =
     (if ps_sec s = 0 \<and> ps_usec s = 0 then now
      else let uSeconds = (ps_usec s + ps_lastPlayTime s) mod 2 ^ 32
           in (ps_sec s + uSeconds div 1000000, uSeconds mod 1000000))"

definition play_time :: "pcm_source \<Rightarrow> nat \<Rightarrow> nat" where
  "play_time s frameSize = nat \<lfloor>(1000000 / rat_of_nat (ps_samplingFrequency s)) * rat_of_nat frameSize / 2\<rfloor>"

definition doGetNextFrame ::
    "bool \<Rightarrow> nat \<times> nat \<Rightarrow> nat \<Rightarrow> rat list list \<Rightarrow> pcm_source \<Rightarrow> (pcm_frame \<times> rat list list \<times> pcm_source) result" where
  "doGetNextFrame terminated now maxSize queue s =
     (if terminated then Inr (Closed, queue, s)
      else let fMaxSize = min maxSize (ps_preferredFrameSize s); samplesToRead = fMaxSize div 2
           in bind_result (pcm_loop maxSize samplesToRead [] (ps_batch s) queue) (\<lambda>(pcm, batch, queue').
                let s1 = s\<lparr>ps_batch := batch, ps_frameSize := 2 * length pcm\<rparr>
                in if pcm = [] then Inr (Closed, queue', s1)
                   else let (sec, usec) = next_time now s
                        in Inr (Frame pcm, queue', s1\<lparr>ps_sec := sec, ps_usec := usec,
                             ps_lastPlayTime := play_time s (2 * length pcm)\<rparr>)))"

section \<open>What is left of the stream\<close>

definition unread :: "pcm_source \<Rightarrow> rat list list \<Rightarrow> rat list" where
  "unread s queue = (case ps_batch s of None \<Rightarrow> [] | Some xs \<Rightarrow> xs) @ concat queue"

definition batches_ok :: "pcm_source \<Rightarrow> rat list list \<Rightarrow> bool" where
  "batches_ok s queue \<longleftrightarrow> ps_batch s \<noteq> Some [] \<and> [] \<notin> set queue \<and> (\<forall>x\<in>set (unread s queue). \<bar>x\<bar> \<le> 1)"

definition pcm_value :: "rat \<Rightarrow> int" where
  "pcm_value x = \<lfloor>x * 32767\<rfloor>"

lemma pcm_value_range:
  assumes "\<bar>x\<bar> \<le> 1"
  shows "-32767 \<le> pcm_value x \<and> pcm_value x \<le> 32767"
proof -
  have "-32767 \<le> x * 32767 \<and> x * 32767 \<le> 32767" using assms by (simp add: abs_le_iff)
  then show ?thesis by (simp add: pcm_value_def le_floor_iff floor_le_iff)
qed

lemma pcm_of_ok: "\<bar>x\<bar> \<le> 1 \<Longrightarrow> pcm_of x = Inr (pcm_value x)"
  using pcm_value_range [of x] by (simp add: pcm_of_def pcm_value_def)

lemma pcm_loop_reads:
  assumes "batch \<noteq> Some []" "[] \<notin> set queue" "\<forall>x\<in>set xs. \<bar>x\<bar> \<le> 1"
    and "xs = (case batch of None \<Rightarrow> [] | Some ys \<Rightarrow> ys) @ concat queue"
    and "length acc < n" "2 * n \<le> capacity"
  shows "\<exists>batch' queue'. pcm_loop capacity n acc batch queue =
      Inr (acc @ map pcm_value (take (n - length acc) xs), batch', queue') \<and> batch' \<noteq> Some [] \<and> [] \<notin> set queue' \<and>
    drop (n - length acc) xs = (case batch' of None \<Rightarrow> [] | Some ys \<Rightarrow> ys) @ concat queue'"
  using assms
proof (induction capacity n acc batch queue arbitrary: xs rule: pcm_loop.induct)
  case (5 capacity n acc x ys queue)
  let ?acc = "acc @ [pcm_value x]" and ?batch = "if ys = [] then None else Some ys" and ?xs = "ys @ concat queue"
  have xs: "xs = x # ?xs" using 5(5) by simp
  then have x: "pcm_of x = Inr (pcm_value x)" using 5(4) by (simp add: pcm_of_ok)
  have room: "\<not> 2 * (length acc + 1) > capacity" using 5(6,7) by simp
  have rest: "?xs = (case ?batch of None \<Rightarrow> [] | Some ys \<Rightarrow> ys) @ concat queue" by simp
  obtain k where k: "n - length acc = Suc k" using 5(6) by (cases "n - length acc") simp_all
  show ?case
  proof (cases "length ?acc = n")
    case True
    then have "k = 0" using k by simp
    with True x room k rest 5(3) show ?thesis unfolding xs by (simp add: Let_def)
  next
    case False
    have "n - length ?acc = k" "length ?acc < n" using k False 5(6) by simp_all
    with 5(1) [OF room refl refl False, of ?xs] 5(3,4,7) rest x room k False
    show ?thesis unfolding xs by (auto simp: Let_def)
  qed
qed auto

text \<open>All frames until the source closes the stream, at most \<open>j\<close>; the clock is read only for the first.\<close>

primrec pcm_run :: "nat \<times> nat \<Rightarrow> nat \<Rightarrow> nat \<Rightarrow> rat list list \<Rightarrow> pcm_source \<Rightarrow> int list list result" where
  "pcm_run now maxSize 0 queue s = Inr []"
| "pcm_run now maxSize (Suc j) queue s =
     bind_result (doGetNextFrame False now maxSize queue s) (\<lambda>(f, queue', s').
       case f of
         Closed \<Rightarrow> Inr []
       | Frame pcm \<Rightarrow> bind_result (pcm_run now maxSize j queue' s') (\<lambda>frames. Inr (pcm # frames)))"

lemma preferred_even: "preferred_frame_size fs = 2 * min (fs div 50) 700"
proof -
  have "\<lfloor>(2 / 100) * rat_of_nat fs\<rfloor> = \<lfloor>rat_of_nat fs / rat_of_nat 50\<rfloor>" by simp
  also have "\<dots> = int (fs div 50)" by (rule floor_divide_of_nat_eq)
  finally show ?thesis by (simp add: preferred_frame_size_def Let_def)
qed

lemma doGetNextFrame_streams:
  assumes "batches_ok s queue" "ps_preferredFrameSize s = preferred_frame_size fs" "50 \<le> fs" "2 \<le> maxSize"
  defines "k \<equiv> min maxSize (preferred_frame_size fs) div 2"
  shows "\<exists>queue' s'. doGetNextFrame False now maxSize queue s =
      Inr (if unread s queue = [] then Closed else Frame (map pcm_value (take k (unread s queue))), queue', s') \<and>
    unread s' queue' = drop k (unread s queue) \<and> batches_ok s' queue' \<and>
    ps_preferredFrameSize s' = preferred_frame_size fs \<and> 0 < k \<and> k \<le> 700"
proof -
  have "1 \<le> fs div 50" using div_le_mono [OF assms(3), of 50] by simp
  then have "2 \<le> min maxSize (2 * min (fs div 50) 700)" using assms(4) by simp
  from div_le_mono [OF this, of 2] have k: "0 < k" "k \<le> 700" "2 * k \<le> maxSize"
    by (simp_all add: k_def preferred_even)
  have b: "ps_batch s \<noteq> Some []" "[] \<notin> set queue" "\<forall>x\<in>set (unread s queue). \<bar>x\<bar> \<le> 1"
    using assms(1) by (simp_all add: batches_ok_def)
  obtain batch' queue' where r: "pcm_loop maxSize k [] (ps_batch s) queue = Inr (map pcm_value (take k (unread s queue)), batch', queue')"
    "batch' \<noteq> Some []" "[] \<notin> set queue'" "drop k (unread s queue) = (case batch' of None \<Rightarrow> [] | Some ys \<Rightarrow> ys) @ concat queue'"
    using pcm_loop_reads [OF b unread_def, of "[]" k maxSize] k by auto
  have left: "unread (s\<lparr>ps_batch := batch', ps_frameSize := a\<rparr>) queue' = drop k (unread s queue)"
    "unread (s\<lparr>ps_batch := batch', ps_frameSize := a, ps_sec := e, ps_usec := u, ps_lastPlayTime := l\<rparr>) queue' = drop k (unread s queue)"
    for a e u l using r(4) by (simp_all add: unread_def)
  have "\<forall>x\<in>set (drop k (unread s queue)). \<bar>x\<bar> \<le> 1" using b(3) by (auto dest: in_set_dropD)
  then have "batches_ok (s\<lparr>ps_batch := batch', ps_frameSize := a\<rparr>) queue'"
    "batches_ok (s\<lparr>ps_batch := batch', ps_frameSize := a, ps_sec := e, ps_usec := u, ps_lastPlayTime := l\<rparr>) queue'"
    for a e u l using r(2,3) left by (simp_all add: batches_ok_def)
  then show ?thesis
    using k(1,2) r(1) left assms(2) by (auto simp: doGetNextFrame_def k_def [symmetric] Let_def split: prod.splits)
qed

lemma pcm_run_streams:
  assumes "batches_ok s queue" "ps_preferredFrameSize s = preferred_frame_size fs" "50 \<le> fs" "2 \<le> maxSize"
    and "length (unread s queue) < j"
  shows "\<exists>frames. pcm_run now maxSize j queue s = Inr frames \<and> concat frames = map pcm_value (unread s queue) \<and>
    (\<forall>f\<in>set frames. f \<noteq> [] \<and> length f \<le> 700)"
  using assms
proof (induction j arbitrary: s queue)
  case (Suc j)
  let ?xs = "unread s queue" and ?k = "min maxSize (preferred_frame_size fs) div 2"
  obtain queue' s' where d: "doGetNextFrame False now maxSize queue s =
      Inr (if ?xs = [] then Closed else Frame (map pcm_value (take ?k ?xs)), queue', s')"
    "unread s' queue' = drop ?k ?xs" "batches_ok s' queue'" "ps_preferredFrameSize s' = preferred_frame_size fs" "0 < ?k" "?k \<le> 700"
    using doGetNextFrame_streams [OF Suc.prems(1-4)] by blast
  show ?case
  proof (cases "?xs = []")
    case True
    with d(1) show ?thesis by simp
  next
    case False
    then have "length (unread s' queue') < j" using d(2,5) Suc.prems(5) by (cases ?xs) auto
    then obtain frames where f: "pcm_run now maxSize j queue' s' = Inr frames" "concat frames = map pcm_value (drop ?k ?xs)"
      "\<forall>f\<in>set frames. f \<noteq> [] \<and> length f \<le> 700"
      using Suc.IH [OF d(3,4) Suc.prems(3,4)] d(2) by auto
    have "take ?k ?xs \<noteq> []" using False d(5) by (cases ?xs; cases ?k) simp_all
    moreover have "map pcm_value (take ?k ?xs) @ map pcm_value (drop ?k ?xs) = map pcm_value ?xs"
      by (simp flip: map_append)
    ultimately show ?thesis using d(1,6) False f by (intro exI [of _ "map pcm_value (take ?k ?xs) # frames"]) auto
  qed
qed simp

section \<open>Properties\<close>

text \<open>
  C17: What a stream client hears is what the sound card plays. Take a well-formed audio system whose
  controller plays a buffer of \<open>n\<close> frames, and a source that was made with a sampling rate of at
  least 50 Hz. If the lock-free queue has room, then asking the source for frames until it closes
  delivers, cut into frames of at most 700 samples (1400 bytes), exactly the samples that were
  queued before, followed by the left channel of the buffer that the sound card got: none is
  lost, repeated or reordered at the edges of batches and frames, and each is a 16-bit value
  between -32767 and 32767, so that no conversion overflows.
\<close>

theorem stream_delivers_mix:
  assumes "\<forall>t\<in>set ts. audio_ok t" "src < length ts" "\<forall>j\<in>set (at_bound (ts ! src)). j < length ts"
    and "\<not> at_terminated (ts ! src)" "room (at_outputQueue (ts ! src))" "0 < n"
    and "batches_ok s (at_outputQueue (ts ! src))" "ps_preferredFrameSize s = preferred_frame_size fs" "50 \<le> fs" "2 \<le> maxSize"
  shows "\<exists>out ts' j frames. audioCallback room status n src ts = Inr (0, out, ts') \<and>
    pcm_run now maxSize j (at_outputQueue (ts' ! src)) s = Inr frames \<and>
    concat frames = map pcm_value (unread s (at_outputQueue (ts ! src)) @ left_channel out) \<and>
    list_all (\<lambda>f. length f \<le> 700 \<and> list_all (\<lambda>v. -32767 \<le> v \<and> v \<le> 32767) f) frames"
proof -
  obtain out ts' where c: "audioCallback room status n src ts = Inr (0, out, ts')" "length out = 2 * n"
    "\<forall>x\<in>set out. \<bar>x\<bar> \<le> 1" "at_outputQueue (ts' ! src) = at_outputQueue (ts ! src) @ [left_channel out]"
    using callback_bounded [OF assms(1-3), of room status n] assms(4,5) by auto
  let ?q = "at_outputQueue (ts' ! src)"
  have u: "unread s ?q = unread s (at_outputQueue (ts ! src)) @ left_channel out" by (simp add: c(4) unread_def)
  have "left_channel out \<noteq> []" using length_left_channel [of out] c(2) assms(6) by auto
  moreover have "\<forall>x\<in>set (left_channel out). \<bar>x\<bar> \<le> 1" using c(3) left_channel_subset [of out] by blast
  ultimately have ok: "batches_ok s ?q" using assms(7) by (auto simp: batches_ok_def u) (auto simp: c(4))
  obtain j frames where f: "pcm_run now maxSize j ?q s = Inr frames"
    "concat frames = map pcm_value (unread s ?q)" "\<forall>f\<in>set frames. f \<noteq> [] \<and> length f \<le> 700"
    using pcm_run_streams [OF ok assms(8-10) lessI] by blast
  have "-32767 \<le> v \<and> v \<le> 32767" if "f \<in> set frames" "v \<in> set f" for f v
  proof -
    have "v \<in> set (concat frames)" using that by auto
    then show ?thesis using f(2) ok pcm_value_range by (auto simp: batches_ok_def)
  qed
  then have "list_all (\<lambda>f. length f \<le> 700 \<and> list_all (\<lambda>v. -32767 \<le> v \<and> v \<le> 32767) f) frames"
    using f(3) by (simp add: list_all_iff)
  with c(1) f(1) f(2) [unfolded u] show ?thesis by (intro exI conjI)
qed

theorem stream_delivers_mix_witness:
  "\<exists>out ts' j frames. audioCallback (\<lambda>_. True) False 3 0 [demo_controller, demo_bound] = Inr (0, out, ts') \<and>
     pcm_run (1, 0) 1400 j (at_outputQueue (ts' ! 0)) (LocalPCMSource 48000) = Inr frames \<and>
     concat frames = map pcm_value (left_channel out)"
proof -
  have ok: "batches_ok (LocalPCMSource 48000) (at_outputQueue ([demo_controller, demo_bound] ! 0))"
    "ps_preferredFrameSize (LocalPCMSource 48000) = preferred_frame_size 48000" "0 < (3::nat)" "(50::nat) \<le> 48000" "(2::nat) \<le> 1400"
    by (simp_all add: batches_ok_def unread_def LocalPCMSource_def demo_controller_def AudioThread_init_def)
  have c: "0 < length [demo_controller, demo_bound]" "\<forall>j\<in>set (at_bound ([demo_controller, demo_bound] ! 0)). j < length [demo_controller, demo_bound]"
    "\<not> at_terminated ([demo_controller, demo_bound] ! 0)" "(\<lambda>_. True) (at_outputQueue ([demo_controller, demo_bound] ! 0))"
    "unread (LocalPCMSource 48000) (at_outputQueue ([demo_controller, demo_bound] ! 0)) = []"
    by (simp_all add: demo_controller_def AudioThread_init_def unread_def LocalPCMSource_def)
  from stream_delivers_mix [of "[demo_controller, demo_bound]" 0 "\<lambda>_. True" 3 "LocalPCMSource 48000" 48000 1400 False "(1, 0)",
      OF demo_audio_ok c(1,2,3,4) ok(3,1,2,4,5)]
  show ?thesis unfolding c(5) append_Nil by blast
qed

end
