(* ===== verification/Demod_Thread.thy ===== *)
theory Demod_Thread
  imports Audio_Mixer Demod_Mgr
begin

text \<open>
  The thread of a modem (src/src/cubic/demod/DemodulatorThread.cpp): one pass of its loop for a
  buffer of samples, after the modem has made audio of it. The pass tracks the level and its
  floor and ceiling, decides about the squelch, and pushes the audio to the queue of the audio
  thread. What the modem makes and the level it has in decibels (\<open>linearToDb\<close> of the mean
  magnitude, on the C library's logarithm) are given. The queue for a visual display is bound
  nowhere in the program and left out.
\<close>

section \<open>State\<close>

record demod_thread =
  dt_squelchLevel :: rat
  dt_signalLevel :: rat
  dt_signalFloor :: rat
  dt_signalCeil :: rat
  dt_squelchEnabled :: bool
  dt_squelchBreak :: bool
  dt_muted :: bool

definition DemodulatorThread_init :: demod_thread where
  "DemodulatorThread_init = \<lparr>dt_squelchLevel = -100, dt_signalLevel = -100, dt_signalFloor = -30,
     dt_signalCeil = 30, dt_squelchEnabled = False, dt_squelchBreak = False, dt_muted = False\<rparr>"

definition setMuted :: "bool \<Rightarrow> demod_thread \<Rightarrow> demod_thread" where
  "setMuted m d = d\<lparr>dt_muted := m\<rparr>"

text \<open>Setting a level switches the squelch on.\<close>

definition setSquelchLevel :: "rat \<Rightarrow> demod_thread \<Rightarrow> demod_thread" where
  "setSquelchLevel l d = d\<lparr>dt_squelchEnabled := True, dt_squelchLevel := l\<rparr>"

datatype control_command = SQUELCH_ON | SQUELCH_OFF

fun control :: "control_command \<Rightarrow> demod_thread \<Rightarrow> demod_thread" where
  "control SQUELCH_ON d = d\<lparr>dt_squelchEnabled := True\<rparr>"
| "control SQUELCH_OFF d = d\<lparr>dt_squelchEnabled := False\<rparr>"

text \<open>
  A buffer: how many samples, at which rate, the audio that the modem made (if it is of a kind
  that has any) and the level. \<open>squelchLock\<close> is shared by all threads.
\<close>

record demod_pass =
  dp_size :: nat
  dp_sampleRate :: int
  dp_audio :: "audio_input option"
  dp_level :: rat

record demod_shared =
  ds_mgr :: demod_mgr
  ds_soloMode :: bool
  ds_squelchLock :: "nat option"

section \<open>One pass\<close>

definition releaseSquelchLock :: "nat option \<Rightarrow> demod_shared \<Rightarrow> demod_shared" where
  "releaseSquelchLock inst s =
     (if inst = None \<or> ds_squelchLock s = inst then s\<lparr>ds_squelchLock := None\<rparr> else s)"

definition sample_time :: "demod_pass \<Rightarrow> rat" where
  "sample_time p = of_nat (dp_size p) / of_int (dp_sampleRate p)"

definition has_audio :: "demod_pass \<Rightarrow> bool" where
  "has_audio p \<longleftrightarrow> (case dp_audio p of None \<Rightarrow> False | Some a \<Rightarrow> ai_data a \<noteq> [])"

definition current_level :: "demod_pass \<Rightarrow> rat" where
  "current_level p = (if has_audio p then dp_level p else 0)"

text \<open>Floor and ceiling follow the level; the statements in the source's order.\<close>

definition track_levels :: "demod_pass \<Rightarrow> demod_thread \<Rightarrow> demod_thread" where
  "track_levels p d =
     (if \<not> has_audio p then d
      else let cur = current_level p; sl = dt_squelchLevel d; t = sample_time p;
               sc1 = (if cur > dt_signalCeil d then cur else dt_signalCeil d);
               sf1 = (if cur < dt_signalFloor d then cur else dt_signalFloor d);
               sc2 = (if sl + 1 > sc1 then sl + 1 else sc1);
               sc3 = (if sf1 + 2 > sc2 then sf1 + 2 else sc2)
           in d\<lparr>dt_signalFloor := sf1 + ((cur - 5) - sf1) * t * (15 / 100),
                dt_signalCeil := sc3 - (sc3 - (cur + 2)) * t * (5 / 100)\<rparr>)"

definition smoothed_level :: "demod_pass \<Rightarrow> demod_thread \<Rightarrow> rat" where
  "smoothed_level p d =
     (let cur = current_level p; l = dt_signalLevel d
      in if cur > l then l + (cur - l) * (1 / 2) else l + (cur - l) * (5 / 100) * sample_time p * 30)"

definition is_squelched :: "demod_pass \<Rightarrow> demod_thread \<Rightarrow> bool" where
  "is_squelched p d \<longleftrightarrow> dt_squelchEnabled d \<and> smoothed_level p d < dt_squelchLevel d"

text \<open>\<open>me\<close> is the instance of this thread; in solo mode the first one to break through locks out the others.\<close>

definition update_squelch :: "nat \<Rightarrow> bool \<Rightarrow> demod_thread \<Rightarrow> demod_shared \<Rightarrow> demod_thread \<times> demod_shared" where
  "update_squelch me squelched d s =
     (if \<not> dt_squelchEnabled d then (d, s)
      else if \<not> squelched \<and> \<not> dt_squelchBreak d then
        (if ds_soloMode s then
           (if ds_squelchLock s = None
            then (d\<lparr>dt_squelchBreak := True\<rparr>, s\<lparr>ds_squelchLock := Some me,
                    ds_mgr := setActiveDemodulatorByRawPointer me False (setActiveDemodulator None True (ds_mgr s))\<rparr>)
            else (d, s))
         else (d\<lparr>dt_squelchBreak := True\<rparr>, s))
      else if squelched \<and> dt_squelchBreak d then (d\<lparr>dt_squelchBreak := False\<rparr>, releaseSquelchLock (Some me) s)
      else (d, s))"

definition audio_peak :: "rat list \<Rightarrow> rat" where
  "audio_peak data = foldl (\<lambda>peak x. if \<bar>x\<bar> > peak then \<bar>x\<bar> else peak) 0 data"

definition finish_audio :: "bool \<Rightarrow> audio_input \<Rightarrow> audio_input" where
  "finish_audio squelched a = a\<lparr>ai_peak := audio_peak (ai_data a), ai_squelched := squelched\<rparr>"

text \<open>
  The pass: the thread, what it shares, the queue to the audio thread and the one to the
  recorder, if there is one. Commands of the control queue are carried out last.
\<close>

definition run_pass ::
    "nat \<Rightarrow> demod_pass \<Rightarrow> control_command list \<Rightarrow> demod_thread \<Rightarrow> demod_shared \<Rightarrow> audio_input blocking_queue \<Rightarrow>
     audio_input blocking_queue option \<Rightarrow>
     demod_thread \<times> demod_shared \<times> audio_input blocking_queue \<times> audio_input blocking_queue option" where
  "run_pass me p commands d s audioQueue sinkQueue =
     (if dp_size p = 0 then (d, s, audioQueue, sinkQueue)
      else let d1 = track_levels p d;
               squelched = is_squelched p d1;
               d2 = d1\<lparr>dt_signalLevel := current_level p\<rparr>
           in case update_squelch me squelched d2 s of (d3, s1) \<Rightarrow>
                let ati = map_option (finish_audio squelched) (dp_audio p);
                    heard = (\<not> squelched \<and> \<not> dt_muted d3 \<and> (\<not> ds_soloMode s1 \<or> getCurrentModem (ds_mgr s1) = Some me));
                    q = (case ati of None \<Rightarrow> audioQueue | Some a \<Rightarrow> if heard then snd (bq_try_push a audioQueue) else audioQueue);
                    sink = (case ati of None \<Rightarrow> sinkQueue | Some a \<Rightarrow> map_option (\<lambda>r. snd (bq_try_push a r)) sinkQueue)
                in (fold control commands d3, s1, q, sink))"

section \<open>The level\<close>

lemma squelch_keeps_levels:
  "update_squelch me b d s = (d', s') \<Longrightarrow> dt_signalFloor d' = dt_signalFloor d \<and> dt_signalCeil d' = dt_signalCeil d \<and>
     dt_signalLevel d' = dt_signalLevel d \<and> dt_muted d' = dt_muted d \<and> dt_squelchEnabled d' = dt_squelchEnabled d \<and>
     ds_soloMode s' = ds_soloMode s"
  by (auto simp: update_squelch_def releaseSquelchLock_def split: if_splits)

lemma control_keeps_levels:
  "dt_signalFloor (fold control cs d) = dt_signalFloor d \<and> dt_signalCeil (fold control cs d) = dt_signalCeil d \<and>
   dt_signalLevel (fold control cs d) = dt_signalLevel d \<and> dt_squelchBreak (fold control cs d) = dt_squelchBreak d"
proof (induction cs arbitrary: d)
  case (Cons c cs)
  then show ?case by (cases c) simp_all
qed simp

lemma between_convex:
  fixes a b w :: rat
  assumes "0 \<le> w" "w \<le> 1" "m \<le> a" "m \<le> b"
  shows "m \<le> a - (a - b) * w"
proof -
  have "0 \<le> (a - m) * (1 - w)" "0 \<le> (b - m) * w" using assms by (intro mult_nonneg_nonneg; simp)+
  then show ?thesis by (simp add: algebra_simps)
qed

text \<open>
  C31: After a buffer with audio the level of a modem lies between its floor and its ceiling, and is
  the level of that buffer alone, whatever they were before, as long as the buffer is shorter than
  six seconds (the weights of the two averages are then at most one). The commands that are
  carried out at the end of the pass do not change them.
\<close>

theorem level_between_floor_and_ceiling:
  assumes "run_pass me p cs d s q r = (d', s', q', r')" "has_audio p" "dp_size p \<noteq> 0" "0 < dp_sampleRate p"
    "int (dp_size p) \<le> 6 * dp_sampleRate p"
  shows "dt_signalFloor d' \<le> dp_level p \<and> dp_level p \<le> dt_signalCeil d' \<and> dt_signalLevel d' = dp_level p"
proof -
  let ?t = "sample_time p" and ?d1 = "track_levels p d" and ?cur = "dp_level p"
  obtain d3 s1 where u: "update_squelch me (is_squelched p ?d1) (?d1\<lparr>dt_signalLevel := current_level p\<rparr>) s = (d3, s1)"
    by fastforce
  have d': "d' = fold control cs d3" using assms(1,3) by (simp add: run_pass_def u Let_def)
  have same: "dt_signalFloor d' = dt_signalFloor ?d1" "dt_signalCeil d' = dt_signalCeil ?d1" "dt_signalLevel d' = current_level p"
    using squelch_keeps_levels [OF u] control_keeps_levels [of cs d3] by (simp_all add: d')
  have cur: "current_level p = ?cur" using assms(2) by (simp add: current_level_def)
  have "rat_of_int (int (dp_size p)) \<le> rat_of_int (6 * dp_sampleRate p)" using assms(5) by (simp only: of_int_le_iff)
  then have t: "0 \<le> ?t" "?t \<le> 6" using assms(4) by (simp_all add: sample_time_def divide_simps)
  define sf where "sf = (if ?cur < dt_signalFloor d then ?cur else dt_signalFloor d)"
  obtain sc where sc: "dt_signalCeil ?d1 = sc - (sc - (?cur + 2)) * (?t * (5 / 100))" "?cur \<le> sc"
    using assms(2) by (auto simp: track_levels_def cur Let_def mult.assoc)
  have fl: "dt_signalFloor ?d1 = sf - (sf - (?cur - 5)) * (?t * (15 / 100))"
    using assms(2) by (simp add: track_levels_def cur Let_def sf_def algebra_simps)
  have "?cur \<le> dt_signalCeil ?d1" unfolding sc(1) using t sc(2) by (intro between_convex) simp_all
  moreover have "- ?cur \<le> (- sf) - ((- sf) - (- (?cur - 5))) * (?t * (15 / 100))"
    using t by (intro between_convex) (simp_all add: sf_def)
  then have "dt_signalFloor ?d1 \<le> ?cur" unfolding fl by (simp add: field_simps)
  ultimately show ?thesis using same cur by simp
qed

section \<open>Modems side by side\<close>

text \<open>
  The threads of the modems, each with its queue to its audio thread; a pass belongs to one of
  them. No recorder is attached.
\<close>

type_synonym modems = "(demod_thread \<times> audio_input blocking_queue) list"

definition modem_pass :: "modems \<times> demod_shared \<Rightarrow> nat \<times> demod_pass \<times> control_command list \<Rightarrow> modems \<times> demod_shared" where
  "modem_pass m x = (case m of (ts, s) \<Rightarrow> case x of (me, p, cs) \<Rightarrow>
     case run_pass me p cs (fst (ts ! me)) s (snd (ts ! me)) None of (d, s', q, _) \<Rightarrow> (ts[me := (d, q)], s'))"

definition breaks_hold_lock :: "modems \<times> demod_shared \<Rightarrow> bool" where
  "breaks_hold_lock m \<longleftrightarrow> ds_soloMode (snd m) \<and>
     (\<forall>i<length (fst m). dt_squelchBreak (fst (fst m ! i)) \<longleftrightarrow> ds_squelchLock (snd m) = Some i)"

lemma update_squelch_lock:
  assumes "update_squelch me b d s = (d', s')" "ds_soloMode s" "dt_squelchBreak d \<longleftrightarrow> ds_squelchLock s = Some me"
  shows "(dt_squelchBreak d' \<longleftrightarrow> ds_squelchLock s' = Some me) \<and>
    (i \<noteq> me \<longrightarrow> (ds_squelchLock s' = Some i \<longleftrightarrow> ds_squelchLock s = Some i))"
  using assms by (auto simp: update_squelch_def releaseSquelchLock_def split: if_splits)

lemma run_pass_thread:
  assumes "run_pass me p cs d s q r = (d', s', q', r')" "dp_size p \<noteq> 0"
  obtains b d2 d3 where "update_squelch me b d2 s = (d3, s')" "dt_squelchBreak d2 = dt_squelchBreak d"
    "dt_squelchEnabled d2 = dt_squelchEnabled d" "dt_muted d3 = dt_muted d" "d' = fold control cs d3"
proof -
  let ?d1 = "track_levels p d"
  let ?d2 = "?d1\<lparr>dt_signalLevel := current_level p\<rparr>"
  obtain d3 s1 where u: "update_squelch me (is_squelched p ?d1) ?d2 s = (d3, s1)" by fastforce
  have d: "d' = fold control cs d3" "s' = s1" using assms by (simp_all add: run_pass_def u Let_def)
  have k: "dt_squelchBreak ?d2 = dt_squelchBreak d" "dt_squelchEnabled ?d2 = dt_squelchEnabled d" "dt_muted ?d2 = dt_muted d"
    by (simp_all add: track_levels_def Let_def)
  show thesis
    by (rule that [of _ ?d2 d3]) (use u d k squelch_keeps_levels [OF u] in simp_all)
qed

lemma modem_pass_lock:
  assumes "breaks_hold_lock m" "fst x < length (fst m)"
  shows "breaks_hold_lock (modem_pass m x) \<and> length (fst (modem_pass m x)) = length (fst m)"
proof -
  obtain ts s where m: "m = (ts, s)" by fastforce
  obtain me p cs where x: "x = (me, p, cs)" by (cases x) auto
  obtain d' s' q' r' where r: "run_pass me p cs (fst (ts ! me)) s (snd (ts ! me)) None = (d', s', q', r')"
    by (metis prod_cases4)
  have mp: "modem_pass (ts, s) (me, p, cs) = (ts[me := (d', q')], s')" by (simp add: modem_pass_def r)
  have inv: "ds_soloMode s" "\<And>i. i < length ts \<Longrightarrow> dt_squelchBreak (fst (ts ! i)) \<longleftrightarrow> ds_squelchLock s = Some i"
    using assms(1) by (simp_all add: breaks_hold_lock_def m)
  have me: "me < length ts" using assms(2) by (simp add: m x)
  show ?thesis
  proof (cases "dp_size p = 0")
    case True
    then have "d' = fst (ts ! me)" "s' = s" using r by (simp_all add: run_pass_def)
    then show ?thesis using inv me by (simp add: m x mp breaks_hold_lock_def nth_list_update)
  next
    case False
    obtain b d2 d3 where u: "update_squelch me b d2 s = (d3, s')" "dt_squelchBreak d2 = dt_squelchBreak (fst (ts ! me))"
      "d' = fold control cs d3"
      by (rule run_pass_thread [OF r False]) blast
    have "dt_squelchBreak d2 \<longleftrightarrow> ds_squelchLock s = Some me" using inv(2) [OF me] u(2) by simp
    note l = update_squelch_lock [OF u(1) inv(1) this]
    have "dt_squelchBreak d' \<longleftrightarrow> ds_squelchLock s' = Some me" using l by (simp add: u(3) control_keeps_levels)
    moreover have "ds_soloMode s'" using squelch_keeps_levels [OF u(1)] inv(1) by simp
    ultimately show ?thesis using inv(2) l me by (simp add: m x mp breaks_hold_lock_def nth_list_update)
  qed
qed

lemma modem_passes_lock:
  "breaks_hold_lock m \<Longrightarrow> list_all (\<lambda>x. fst x < length (fst m)) xs \<Longrightarrow> breaks_hold_lock (foldl modem_pass m xs)"
proof (induction xs arbitrary: m)
  case (Cons x xs)
  then show ?case using modem_pass_lock [of m x] by simp
qed simp

text \<open>
  C29: In solo mode at most one modem has broken through the squelch, and it is the one that holds
  the squelch lock: this holds in every state that buffers and commands of any modems, in any
  order, lead to from one where no modem has.
\<close>

theorem one_modem_breaks_squelch:
  assumes "ds_soloMode s" "ds_squelchLock s = None" "list_all (\<lambda>t. \<not> dt_squelchBreak (fst t)) ts"
    "list_all (\<lambda>x. fst x < length ts) xs" "foldl modem_pass (ts, s) xs = (ts', s')"
    "i < length ts'" "j < length ts'" "dt_squelchBreak (fst (ts' ! i))" "dt_squelchBreak (fst (ts' ! j))"
  shows "i = j \<and> ds_squelchLock s' = Some i"
proof -
  have "breaks_hold_lock (ts, s)" using assms(1-3) by (simp add: breaks_hold_lock_def list_all_length)
  then have "breaks_hold_lock (ts', s')" using modem_passes_lock [of "(ts, s)" xs] assms(4,5) by simp
  then show ?thesis using assms(6-9) by (simp add: breaks_hold_lock_def)
qed

text \<open>Switching the squelch off does not give the lock back.\<close>

lemma squelch_off_pass:
  assumes "breaks_hold_lock m" "fst x < length (fst m)" "ds_squelchLock (snd m) = Some k"
    "\<not> dt_squelchEnabled (fst (fst m ! k))" "\<not> (fst x = k \<and> SQUELCH_ON \<in> set (snd (snd x)))" "k < length (fst m)"
  shows "ds_squelchLock (snd (modem_pass m x)) = Some k \<and> \<not> dt_squelchEnabled (fst (fst (modem_pass m x) ! k))"
proof -
  obtain ts s where m: "m = (ts, s)" by fastforce
  obtain me p cs where x: "x = (me, p, cs)" by (cases x) auto
  obtain d' s' q' r' where r: "run_pass me p cs (fst (ts ! me)) s (snd (ts ! me)) None = (d', s', q', r')"
    by (metis prod_cases4)
  have mp: "modem_pass (ts, s) (me, p, cs) = (ts[me := (d', q')], s')" by (simp add: modem_pass_def r)
  have off: "\<not> dt_squelchEnabled d \<Longrightarrow> SQUELCH_ON \<notin> set cs \<Longrightarrow> \<not> dt_squelchEnabled (fold control cs d)" for d
  proof (induction cs arbitrary: d)
    case (Cons c cs)
    then show ?case by (cases c) simp_all
  qed simp
  have inv: "ds_soloMode s" "\<And>i. i < length ts \<Longrightarrow> dt_squelchBreak (fst (ts ! i)) \<longleftrightarrow> ds_squelchLock s = Some i"
    using assms(1) by (simp_all add: breaks_hold_lock_def m)
  show ?thesis
  proof (cases "dp_size p = 0")
    case True
    then have "d' = fst (ts ! me)" "s' = s" using r by (simp_all add: run_pass_def)
    then show ?thesis using assms mp by (cases "me = k") (simp_all add: m x)
  next
    case False
    obtain b d2 d3 where u: "update_squelch me b d2 s = (d3, s')" "dt_squelchBreak d2 = dt_squelchBreak (fst (ts ! me))"
      "dt_squelchEnabled d2 = dt_squelchEnabled (fst (ts ! me))" "d' = fold control cs d3"
      by (rule run_pass_thread [OF r False]) blast
    show ?thesis
    proof (cases "me = k")
      case True
      then have "\<not> dt_squelchEnabled d2" using assms(4) u(3) by (simp add: m)
      then have "s' = s" "d3 = d2" "\<not> dt_squelchEnabled d3" using u(1) by (simp_all add: update_squelch_def)
      then show ?thesis using assms(3,5,6) True off u(4) mp by (simp add: m x)
    next
      case False
      then have "\<not> dt_squelchBreak d2" using inv(2) [of me] assms(2,3) u(2) by (simp add: m x)
      then have "ds_squelchLock s' = Some k"
        using u(1) assms(3) False by (auto simp: update_squelch_def m split: if_splits)
      then show ?thesis using assms(4) False mp by (simp add: m x)
    qed
  qed
qed

lemma squelch_off_passes:
  assumes "breaks_hold_lock m" "list_all (\<lambda>x. fst x < length (fst m) \<and> \<not> (fst x = k \<and> SQUELCH_ON \<in> set (snd (snd x)))) xs"
    "ds_squelchLock (snd m) = Some k" "\<not> dt_squelchEnabled (fst (fst m ! k))" "k < length (fst m)"
  shows "ds_squelchLock (snd (foldl modem_pass m xs)) = Some k \<and> breaks_hold_lock (foldl modem_pass m xs) \<and>
    length (fst (foldl modem_pass m xs)) = length (fst m)"
  using assms
proof (induction xs arbitrary: m)
  case (Cons x xs)
  have "fst x < length (fst m)" "\<not> (fst x = k \<and> SQUELCH_ON \<in> set (snd (snd x)))" using Cons.prems(2) by simp_all
  note p = squelch_off_pass [OF Cons.prems(1) this(1) Cons.prems(3,4) this(2) Cons.prems(5)]
    and l = modem_pass_lock [OF Cons.prems(1) this(1)]
  show ?case using Cons.IH [of "modem_pass m x"] Cons.prems p l by simp
qed simp

text \<open>
  A modem whose squelch is switched off while it holds the squelch lock keeps the lock: in
  solo mode no other modem ever breaks through its squelch again, however strong its signal,
  until the squelch of the first one is switched on.
\<close>

theorem squelch_off_locks_out_others:
  assumes "ds_soloMode s" "\<forall>i<length ts. dt_squelchBreak (fst (ts ! i)) \<longleftrightarrow> ds_squelchLock s = Some i"
    "ds_squelchLock s = Some k" "k < length ts" "\<not> dt_squelchEnabled (fst (ts ! k))"
    "list_all (\<lambda>x. fst x < length ts \<and> \<not> (fst x = k \<and> SQUELCH_ON \<in> set (snd (snd x)))) xs"
    "foldl modem_pass (ts, s) xs = (ts', s')" "i < length ts'" "i \<noteq> k"
  shows "\<not> dt_squelchBreak (fst (ts' ! i))"
proof -
  have "breaks_hold_lock (ts, s)" using assms(1,2) by (simp add: breaks_hold_lock_def)
  then show ?thesis
    using squelch_off_passes [of "(ts, s)" k xs] assms(3-9) by (simp add: breaks_hold_lock_def)
qed

section \<open>What reaches the audio thread\<close>

lemma audio_peak_bounds: "\<forall>x\<in>set data. \<bar>x\<bar> \<le> audio_peak data"
proof -
  have "b \<le> foldl (\<lambda>peak x. if \<bar>x\<bar> > peak then \<bar>x\<bar> else peak) b data \<and>
    (\<forall>x\<in>set data. \<bar>x\<bar> \<le> foldl (\<lambda>peak x. if \<bar>x\<bar> > peak then \<bar>x\<bar> else peak) b data)" for b :: rat
  proof (induction data arbitrary: b)
    case (Cons y ys)
    show ?case using Cons.IH [of "\<bar>y\<bar>"] Cons.IH [of b] by auto
  qed simp
  then show ?thesis by (simp add: audio_peak_def)
qed

lemma finish_audio_ok: "ai_channels a \<le> 2 \<Longrightarrow> input_ok (finish_audio b a)"
  using audio_peak_bounds by (simp add: finish_audio_def input_ok_def)

lemma try_push_items: "set (bq_items (snd (bq_try_push a q))) \<subseteq> insert a (set (bq_items q))"
  by (auto simp: bq_try_push_def bq_push_def split: if_splits option.splits)

definition made_stereo :: "demod_pass \<Rightarrow> bool" where
  "made_stereo p \<longleftrightarrow> (case dp_audio p of None \<Rightarrow> True | Some a \<Rightarrow> ai_channels a \<le> 2)"

lemma modem_pass_items:
  assumes "list_all (\<lambda>t. list_all input_ok (bq_items (snd t))) (fst m)" "fst x < length (fst m)" "made_stereo (fst (snd x))"
  shows "list_all (\<lambda>t. list_all input_ok (bq_items (snd t))) (fst (modem_pass m x)) \<and>
    length (fst (modem_pass m x)) = length (fst m)"
proof -
  obtain ts s where m: "m = (ts, s)" by fastforce
  obtain me p cs where x: "x = (me, p, cs)" by (cases x) auto
  let ?q = "snd (ts ! me)"
  obtain d' s' q' r' where r: "run_pass me p cs (fst (ts ! me)) s ?q None = (d', s', q', r')"
    by (metis prod_cases4)
  have q: "list_all input_ok (bq_items ?q)" using assms(1,2) by (simp add: m x list_all_length)
  have push: "list_all input_ok (bq_items (snd (bq_try_push (finish_audio b a) ?q)))" if "dp_audio p = Some a" for a b
  proof -
    have "input_ok (finish_audio b a)" using assms(3) that by (intro finish_audio_ok) (simp add: made_stereo_def x)
    then show ?thesis using q try_push_items [of "finish_audio b a" ?q] by (auto simp: list_all_iff)
  qed
  have "list_all input_ok (bq_items q')"
  proof (cases "dp_size p = 0")
    case True
    then show ?thesis using r q by (simp add: run_pass_def)
  next
    case False
    then show ?thesis using r q push
      by (cases "dp_audio p") (auto simp: run_pass_def Let_def split: prod.splits if_splits)
  qed
  then show ?thesis
    using assms(1,2) unfolding m x modem_pass_def
    by (auto simp: r list_all_length nth_list_update)
qed

lemma modem_passes_items:
  "list_all (\<lambda>t. list_all input_ok (bq_items (snd t))) (fst m) \<Longrightarrow>
   list_all (\<lambda>x. fst x < length (fst m) \<and> made_stereo (fst (snd x))) xs \<Longrightarrow>
   list_all (\<lambda>t. list_all input_ok (bq_items (snd t))) (fst (foldl modem_pass m xs)) \<and>
   length (fst (foldl modem_pass m xs)) = length (fst m)"
proof (induction xs arbitrary: m)
  case (Cons x xs)
  have "list_all (\<lambda>t. list_all input_ok (bq_items (snd t))) (fst (modem_pass m x)) \<and>
    length (fst (modem_pass m x)) = length (fst m)"
    using Cons.prems by (intro modem_pass_items) simp_all
  then show ?case using Cons.IH [of "modem_pass m x"] Cons.prems(2) by simp
qed simp

text \<open>
  C28: What modems make never clips. Let the threads of any modems work on any buffers, squelched or
  not, loud or not, as long as the modem makes mono or stereo. Whatever is then in their queues is
  well-formed for the audio threads that take it, so that the callback of a controller that these
  are bound to, whatever else they are at, plays samples within [-1, 1] and nothing past the sound
  card's buffer.
\<close>

theorem modems_never_clip:
  assumes "list_all (\<lambda>t. bq_items (snd t) = []) ts" "list_all (\<lambda>x. fst x < length ts \<and> made_stereo (fst (snd x))) xs"
    "foldl modem_pass (ts, s) xs = (ts', s')" "length as = length ts" "list_all audio_ok (c # as)"
    "list_all (\<lambda>j. j \<le> length ts) (at_bound c)"
  shows "\<exists>code out as'. audioCallback room status n 0 (c # map2 (\<lambda>a m. a\<lparr>at_queue := Some (snd m)\<rparr>) as ts') = Inr (code, out, as') \<and>
    length out = 2 * n \<and> (\<forall>x\<in>set out. \<bar>x\<bar> \<le> 1)"
proof -
  let ?as = "c # map2 (\<lambda>a m. a\<lparr>at_queue := Some (snd m)\<rparr>) as ts'"
  have items: "list_all (\<lambda>t. list_all input_ok (bq_items (snd t))) ts'" and len: "length ts' = length ts"
    using modem_passes_items [of "(ts, s)" xs] assms(1-3) by (simp_all add: list_all_length)
  have "\<forall>a\<in>set ?as. audio_ok a"
  proof
    fix a
    assume "a \<in> set ?as"
    then consider "a = c" | b m where "(b, m) \<in> set (zip as ts')" "a = b\<lparr>at_queue := Some (snd m)\<rparr>"
      by auto
    then show "audio_ok a"
    proof cases
      case 2
      then have "audio_ok b" "list_all input_ok (bq_items (snd m))"
        using assms(5) items by (auto simp: list_all_iff dest: set_zip_leftD set_zip_rightD)
      with 2 show ?thesis by (simp add: audio_ok_def list_all_iff)
    qed (use assms(5) in simp)
  qed
  moreover have "\<forall>j\<in>set (at_bound c). j < length ?as"
    using assms(4,6) len by (simp add: list_all_iff less_Suc_eq_le)
  ultimately show ?thesis using callback_bounded [of ?as 0 room status n] by fastforce
qed

text \<open>Two modems with their squelch at -50, in solo mode, for witnesses.\<close>

definition demo_modem :: "demod_thread \<times> audio_input blocking_queue" where
  "demo_modem = (setSquelchLevel (-50) DemodulatorThread_init, set_max_num_items 10 ThreadBlockingQueue_init)"

definition demo_shared :: demod_shared where
  "demo_shared = \<lparr>ds_mgr = DemodulatorMgr_init, ds_soloMode = True, ds_squelchLock = None\<rparr>"

definition demo_pass :: "rat \<Rightarrow> demod_pass" where
  "demo_pass l = \<lparr>dp_size = 4, dp_sampleRate = 48000, dp_audio = Some (demo_input [1 / 2, -2]), dp_level = l\<rparr>"

theorem level_between_floor_and_ceiling_witness:
  "case run_pass 0 (demo_pass (-40)) [] (fst demo_modem) demo_shared (snd demo_modem) None of
     (d, s, q, r) \<Rightarrow> dt_signalFloor d \<le> -40 \<and> -40 \<le> dt_signalCeil d \<and> dt_signalLevel d = -40"
proof -
  obtain d s q r where run: "run_pass 0 (demo_pass (-40)) [] (fst demo_modem) demo_shared (snd demo_modem) None = (d, s, q, r)"
    by (metis prod_cases4)
  have "has_audio (demo_pass (-40))" "dp_level (demo_pass (-40)) = -40" "dp_size (demo_pass (-40)) = 4"
    "dp_sampleRate (demo_pass (-40)) = 48000"
    by (simp_all add: demo_pass_def has_audio_def demo_input_def)
  then show ?thesis using level_between_floor_and_ceiling [OF run] by (simp add: run)
qed

definition demo_off :: demod_thread where
  "demo_off = (fst demo_modem)\<lparr>dt_squelchEnabled := False, dt_squelchBreak := True\<rparr>"

definition demo_passes :: "(nat \<times> demod_pass \<times> control_command list) list" where
  "demo_passes = [(0, demo_pass (-40), []), (0, demo_pass (-40), []), (1, demo_pass (-30), []), (1, demo_pass (-30), [])]"

lemma demo_runs:
  obtains ts s where "foldl modem_pass ([demo_modem, demo_modem], demo_shared) demo_passes = (ts, s)" "length ts = 2"
    "dt_squelchBreak (fst (ts ! 0))"
proof -
  let ?r = "foldl modem_pass ([demo_modem, demo_modem], demo_shared) demo_passes"
  have "length (fst ?r) = 2" "dt_squelchBreak (fst (fst ?r ! 0))" by code_simp+
  then show thesis by (intro that [of "fst ?r" "snd ?r"]) simp_all
qed

lemma demo_passes_ok: "list_all (\<lambda>x. fst x < 2 \<and> made_stereo (fst (snd x))) demo_passes"
  by (simp add: demo_passes_def demo_pass_def demo_input_def made_stereo_def)

theorem one_modem_breaks_squelch_witness:
  "case foldl modem_pass ([demo_modem, demo_modem], demo_shared) demo_passes of
     (ts, s) \<Rightarrow> dt_squelchBreak (fst (ts ! 0)) \<and> \<not> dt_squelchBreak (fst (ts ! 1))"
proof (rule demo_runs)
  fix ts s
  assume run: "foldl modem_pass ([demo_modem, demo_modem], demo_shared) demo_passes = (ts, s)" "length ts = 2"
    "dt_squelchBreak (fst (ts ! 0))"
  have "\<not> dt_squelchBreak (fst (ts ! 1))"
    using one_modem_breaks_squelch [OF _ _ _ _ run(1), of 0 1] run(2,3) demo_passes_ok
    by (auto simp: demo_shared_def demo_modem_def setSquelchLevel_def DemodulatorThread_init_def list_all_iff numeral_2_eq_2)
  with run show ?thesis by simp
qed

theorem squelch_off_locks_out_others_witness:
  "case foldl modem_pass ([(demo_off, snd demo_modem), demo_modem], demo_shared\<lparr>ds_squelchLock := Some 0\<rparr>) demo_passes of
     (ts, s) \<Rightarrow> \<not> dt_squelchBreak (fst (ts ! 1))"
proof -
  let ?ts = "[(demo_off, snd demo_modem), demo_modem]" and ?s = "demo_shared\<lparr>ds_squelchLock := Some 0\<rparr>"
  obtain ts s where run: "foldl modem_pass (?ts, ?s) demo_passes = (ts, s)" by fastforce
  have inv: "dt_squelchBreak (fst (?ts ! i)) \<longleftrightarrow> ds_squelchLock ?s = Some i" if "i < length ?ts" for i
    using that by (cases i) (simp_all add: demo_off_def demo_modem_def setSquelchLevel_def DemodulatorThread_init_def)
  have "length (fst (foldl modem_pass (?ts, ?s) demo_passes)) = 2" by code_simp
  then have "length ts = 2" by (simp add: run)
  then have "\<not> dt_squelchBreak (fst (ts ! 1))"
    using squelch_off_locks_out_others [OF _ _ _ _ _ _ run, of 0 1] inv
    by (simp add: demo_shared_def demo_off_def demo_passes_def)
  then show ?thesis by (simp add: run)
qed

theorem modems_never_clip_witness:
  "case foldl modem_pass ([demo_modem, demo_modem], demo_shared) demo_passes of
     (ts, s) \<Rightarrow> \<exists>code out as. audioCallback (\<lambda>_. True) False 2 0
       (demo_controller\<lparr>at_bound := [1, 2]\<rparr> # map2 (\<lambda>a m. a\<lparr>at_queue := Some (snd m)\<rparr>) [demo_bound, demo_bound] ts) = Inr (code, out, as) \<and>
       length out = 4 \<and> list_all (\<lambda>x. \<bar>x\<bar> \<le> 1) out"
proof -
  obtain ts s where run: "foldl modem_pass ([demo_modem, demo_modem], demo_shared) demo_passes = (ts, s)" by fastforce
  have "list_all (\<lambda>t. bq_items (snd t) = []) [demo_modem, demo_modem]"
    by (simp add: demo_modem_def ThreadBlockingQueue_init_def set_max_num_items_def)
  moreover have "list_all audio_ok (demo_controller\<lparr>at_bound := [1, 2]\<rparr> # [demo_bound, demo_bound])"
    using demo_audio_ok by (simp add: audio_ok_def)
  ultimately show ?thesis
    using modems_never_clip [OF _ _ run, of "[demo_bound, demo_bound]" "demo_controller\<lparr>at_bound := [1, 2]\<rparr>" "\<lambda>_. True" False 2]
      demo_passes_ok by (auto simp: run list_all_iff numeral_2_eq_2)
qed

end
