(* ===== verification/Sdr_Stream.thy ===== *)
theory Sdr_Stream
  imports Tuner Blocking_Queue "HOL-Library.List_Lexorder" "HOL-Library.Char_ord"
begin

text \<open>
  The thread of the tuner (\<open>SDRThread\<close>, src/src/cubic/sdr/SoapySDRThread.cpp): the settings that
  other threads leave for it and that it hands to the device, and \<open>readStream\<close>, which cuts what
  the device delivers into batches for the channelizer. The device (SoapySDR) is third-party: it
  is the record of its answers, and what it is told is a list of commands.
\<close>

section \<open>State\<close>

text \<open>A complex sample, with its real part first.\<close>

type_synonym sample = "rat \<times> rat"

record sdr_data =
  sx_frequency :: int
  sx_sampleRate :: int
  sx_dcCorrected :: bool
  sx_numChannels :: nat
  sx_data :: "sample list"

text \<open>The part of the thread that the tuner's model has, with what only the thread itself uses.\<close>

record sdr_stream = sdr_thread +
  ss_stream :: bool
  ss_antenna :: string
  ss_antennaChanged :: bool
  ss_rateChanged :: bool
  ss_freqChanged :: bool
  ss_offsetChanged :: bool
  ss_ppmChanged :: bool
  ss_agcChanged :: bool
  ss_gainValueChanged :: bool
  ss_settingValueChanged :: bool
  ss_hasPPM :: bool
  ss_hasHardwareDC :: bool
  ss_frequencyLocked :: bool
  ss_frequencyLockInit :: bool
  ss_lockFreq :: int
  ss_iqSwap :: bool
  ss_numElems :: nat
  ss_mtuElems :: nat
  ss_numChannels :: nat
  ss_gainChanged :: "(string \<times> bool) list"
  ss_settings :: "string \<rightharpoonup> string"
  ss_settingChanged :: "(string \<times> bool) list"
  ss_overflow :: "sample list"
  ss_blockedAttempts :: nat
  ss_msgAvailable :: bool

definition SDRStream_init :: sdr_stream where
  "SDRStream_init = sdr_thread.extend SDRThread_init
     \<lparr>ss_stream = False, ss_antenna = '''', ss_antennaChanged = False, ss_rateChanged = False, ss_freqChanged = False,
       ss_offsetChanged = False, ss_ppmChanged = False, ss_agcChanged = False, ss_gainValueChanged = False,
       ss_settingValueChanged = False, ss_hasPPM = False, ss_hasHardwareDC = False, ss_frequencyLocked = False,
       ss_frequencyLockInit = False, ss_lockFreq = 0, ss_iqSwap = False, ss_numElems = 0, ss_mtuElems = 0, ss_numChannels = 8,
       ss_gainChanged = [], ss_settings = Map.empty, ss_settingChanged = [], ss_overflow = [], ss_blockedAttempts = 0,
       ss_msgAvailable = False\<rparr>"

section \<open>What other threads leave\<close>

definition sdr_setFrequency :: "int \<Rightarrow> sdr_stream \<Rightarrow> sdr_stream" where
  "sdr_setFrequency freq t =
     t\<lparr>th_frequency := (if freq < cdiv (th_sampleRate t) 2 then cdiv (th_sampleRate t) 2 else freq), ss_freqChanged := True\<rparr>"

definition lockFrequency :: "int \<Rightarrow> sdr_stream \<Rightarrow> sdr_stream" where
  "lockFrequency freq t =
     sdr_setFrequency freq (t\<lparr>ss_lockFreq := freq, ss_frequencyLocked := True, ss_frequencyLockInit := False\<rparr>)"

definition unlockFrequency :: "sdr_stream \<Rightarrow> sdr_stream" where
  "unlockFrequency t = t\<lparr>ss_frequencyLocked := False, ss_frequencyLockInit := False, ss_freqChanged := True\<rparr>"

definition sdr_setOffset :: "int \<Rightarrow> sdr_stream \<Rightarrow> sdr_stream" where
  "sdr_setOffset ofs t = t\<lparr>th_offset := ofs, ss_offsetChanged := True\<rparr>"

definition setAntenna :: "string \<Rightarrow> sdr_stream \<Rightarrow> sdr_stream" where
  "setAntenna name t = t\<lparr>ss_antenna := name, ss_antennaChanged := True\<rparr>"

definition sdr_setSampleRate :: "int \<Rightarrow> sdr_stream \<Rightarrow> sdr_stream" where
  "sdr_setSampleRate rate t = t\<lparr>th_sampleRate := rate, ss_rateChanged := True\<rparr>"

definition sdr_setPPM :: "int \<Rightarrow> sdr_stream \<Rightarrow> sdr_stream" where
  "sdr_setPPM ppm t = t\<lparr>th_ppm := ppm, ss_ppmChanged := True\<rparr>"

definition sdr_setAGCMode :: "bool \<Rightarrow> sdr_stream \<Rightarrow> sdr_stream" where
  "sdr_setAGCMode m t = t\<lparr>th_agcMode := m, ss_agcChanged := True\<rparr>"

definition setIQSwap :: "bool \<Rightarrow> sdr_stream \<Rightarrow> sdr_stream" where
  "setIQSwap b t = t\<lparr>ss_iqSwap := b\<rparr>"

text \<open>\<open>m[k] = v\<close> on a map that is iterated in the order of its keys.\<close>

fun put_key :: "string \<Rightarrow> 'a \<Rightarrow> (string \<times> 'a) list \<Rightarrow> (string \<times> 'a) list" where
  "put_key k v [] = [(k, v)]"
| "put_key k v ((l, w) # m) = (if k = l then (k, v) # m else if k < l then (k, v) # (l, w) # m else (l, w) # put_key k v m)"

definition sdr_setGain :: "string \<Rightarrow> rat \<Rightarrow> sdr_stream \<Rightarrow> sdr_stream" where
  "sdr_setGain name v t =
     t\<lparr>th_gains := (th_gains t)(name \<mapsto> v), ss_gainChanged := put_key name True (ss_gainChanged t), ss_gainValueChanged := True\<rparr>"

definition writeSetting :: "string \<Rightarrow> string \<Rightarrow> sdr_stream \<Rightarrow> sdr_stream" where
  "writeSetting name v t =
     t\<lparr>ss_settings := (ss_settings t)(name \<mapsto> v), ss_settingChanged := put_key name True (ss_settingChanged t),
       ss_settingValueChanged := True\<rparr>"

section \<open>Settings for the device\<close>

datatype device_command =
    Setup_Stream | Set_DC_Offset_Mode bool | Set_Antenna string | Deactivate_Stream | Set_Sample_Rate int | Set_Bandwidth int | Activate_Stream
  | Set_Frequency_RF int | Set_Frequency_CORR int | Set_Gain_Mode bool | Set_Gain string rat | Write_Setting string string

text \<open>
  The device's answers: whether it sets up a stream, the rate it takes for the one it is told, its
  MTU, what it supports, the gains and the settings it reports; and what the configuration has for
  it.
\<close>

record device_answers =
  da_stream :: bool
  da_hasCORR :: bool
  da_hasDCOffsetMode :: bool
  da_settings :: "(string \<times> string) list"
  da_ppm :: int
  da_offset :: int
  da_rate :: "int \<Rightarrow> int"
  da_mtu :: nat
  da_hasGainMode :: bool
  da_gains :: "(string \<times> rat) list"
  da_configGains :: "(string \<times> rat) list"
  da_bladeRF :: bool

definition CHANNELIZER_RATE_MAX :: int where "CHANNELIZER_RATE_MAX = 500000"
definition TARGET_DISPLAY_FPS :: int where "TARGET_DISPLAY_FPS = 60"

text \<open>Quotients of two integers, converted to \<open>double\<close>, rounded up or down.\<close>

definition ceil_div :: "int \<Rightarrow> int \<Rightarrow> int" where
  "ceil_div a b = \<lceil>rat_of_int a / rat_of_int b\<rceil>"

definition floor_div :: "int \<Rightarrow> int \<Rightarrow> int" where
  "floor_div a b = \<lfloor>rat_of_int a / rat_of_int b\<rfloor>"

lemma floor_div_code [code]: "floor_div a b = a div b"
  by (simp add: floor_div_def floor_divide_of_int_eq)

lemma ceil_div_code [code]: "ceil_div a b = - (- a div b)"
  using floor_divide_of_int_eq [of "- a" b, where ?'a = rat] by (simp add: ceil_div_def ceiling_def)

definition getOptimalChannelCount :: "int \<Rightarrow> int" where
  "getOptimalChannelCount rate =
     (if rate \<le> CHANNELIZER_RATE_MAX then 1
      else let c = ceil_div rate CHANNELIZER_RATE_MAX;
               c1 = (if c mod 2 = 1 then c - 1 else c)
           in if c1 < 2 then 2 else c1)"

definition getOptimalElementCount :: "int \<Rightarrow> int \<Rightarrow> int \<Rightarrow> int" where
  "getOptimalElementCount nch rate fps = ceil_div (floor_div rate fps) nch * nch"

definition updateGains :: "device_answers \<Rightarrow> sdr_stream \<Rightarrow> sdr_stream" where
  "updateGains dev t =
     t\<lparr>th_gains := map_of (da_gains dev), ss_gainChanged := map (\<lambda>(k, _). (k, False)) (da_gains dev), ss_gainValueChanged := False\<rparr>"

definition update_rate :: "device_answers \<Rightarrow> sdr_stream \<Rightarrow> sdr_stream \<times> device_command list" where
  "update_rate dev t =
     (if \<not> ss_rateChanged t then (t, [])
      else let rate = da_rate dev (th_sampleRate t);
               nch = nat (getOptimalChannelCount rate);
               elems = nat (getOptimalElementCount (int nch) rate TARGET_DISPLAY_FPS)
           in (t\<lparr>th_sampleRate := rate, ss_numChannels := nch, ss_numElems := elems,
                 ss_mtuElems := (if da_mtu dev = 0 then elems else da_mtu dev), ss_overflow := [], ss_rateChanged := False\<rparr>,
               [Deactivate_Stream, Set_Sample_Rate (th_sampleRate t)] @
               (if da_bladeRF dev then [Set_Bandwidth (th_sampleRate t)] else []) @ [Activate_Stream]))"

definition update_frequency :: "sdr_stream \<Rightarrow> sdr_stream \<times> device_command list" where
  "update_frequency t =
     (if \<not> ss_freqChanged t then (t, [])
      else let t1 = t\<lparr>ss_freqChanged := False, ss_msgAvailable := True\<rparr>
           in if ss_frequencyLocked t \<and> \<not> ss_frequencyLockInit t
              then (t1\<lparr>ss_frequencyLockInit := True\<rparr>, [Set_Frequency_RF (ss_lockFreq t)])
              else if \<not> ss_frequencyLocked t then (t1, [Set_Frequency_RF (th_frequency t - th_offset t)])
              else (t1, []))"

definition update_agc :: "device_answers \<Rightarrow> sdr_stream \<Rightarrow> sdr_stream \<times> device_command list" where
  "update_agc dev t =
     (if \<not> ss_agcChanged t then (t, [])
      else let t1 = t\<lparr>ss_agcChanged := False\<rparr>
           in (if th_agcMode t then t1 else fold (\<lambda>(k, v). sdr_setGain k v) (da_configGains dev) (updateGains dev t1),
               if da_hasGainMode dev then [Set_Gain_Mode (th_agcMode t)] else []))"

definition update_gains_values :: "sdr_stream \<Rightarrow> sdr_stream \<times> device_command list" where
  "update_gains_values t =
     (if \<not> ss_gainValueChanged t \<or> th_agcMode t then (t, [])
      else (t\<lparr>ss_gainChanged := map (\<lambda>(k, _). (k, False)) (ss_gainChanged t), ss_gainValueChanged := False\<rparr>,
            map (\<lambda>(k, _). Set_Gain k (case th_gains t k of None \<Rightarrow> 0 | Some v \<Rightarrow> v)) (filter snd (ss_gainChanged t))))"

definition update_device_settings :: "sdr_stream \<Rightarrow> sdr_stream \<times> device_command list" where
  "update_device_settings t =
     (if \<not> ss_settingValueChanged t then (t, [])
      else (t\<lparr>ss_settingChanged := map (\<lambda>(k, _). (k, False)) (ss_settingChanged t), ss_settingValueChanged := False\<rparr>,
            map (\<lambda>(k, _). Write_Setting k (case ss_settings t k of None \<Rightarrow> '''' | Some v \<Rightarrow> v)) (filter snd (ss_settingChanged t))))"

text \<open>All of it, in the source's order. Without a stream nothing is done.\<close>

definition then_update ::
    "(sdr_stream \<Rightarrow> sdr_stream \<times> device_command list) \<Rightarrow> sdr_stream \<times> device_command list \<Rightarrow> sdr_stream \<times> device_command list" where
  "then_update f x = (case f (fst x) of (t, cs) \<Rightarrow> (t, snd x @ cs))"

definition update_antenna :: "sdr_stream \<Rightarrow> sdr_stream \<times> device_command list" where
  "update_antenna t = (if ss_antennaChanged t then (t\<lparr>ss_antennaChanged := False\<rparr>, [Set_Antenna (ss_antenna t)]) else (t, []))"

definition update_offset :: "sdr_stream \<Rightarrow> sdr_stream \<times> device_command list" where
  "update_offset t = ((if ss_offsetChanged t then t\<lparr>ss_freqChanged := True, ss_offsetChanged := False\<rparr> else t), [])"

definition update_ppm :: "sdr_stream \<Rightarrow> sdr_stream \<times> device_command list" where
  "update_ppm t =
     (if ss_ppmChanged t \<and> ss_hasPPM t then (t\<lparr>ss_ppmChanged := False\<rparr>, [Set_Frequency_CORR (th_ppm t)]) else (t, []))"

definition updateSettings :: "device_answers \<Rightarrow> sdr_stream \<Rightarrow> sdr_stream \<times> device_command list" where
  "updateSettings dev t =
     (if \<not> ss_stream t then (t, [])
      else then_update update_device_settings (then_update update_gains_values (then_update (update_agc dev)
        (then_update update_frequency (then_update update_ppm (then_update (update_rate dev)
          (then_update update_offset (update_antenna t))))))))"

text \<open>
  \<open>init\<close>, which the thread starts with: the stream, the settings in the configuration, those of the
  device that were changed before, and then the rate.
\<close>

fun init_settings :: "(string \<times> string) list \<Rightarrow> sdr_stream \<Rightarrow> sdr_stream \<times> device_command list" where
  "init_settings [] t = (t, [])"
| "init_settings ((k, v) # info) t =
     (let known = k \<in> set (map fst (ss_settingChanged t)) \<and> ss_settings t k \<noteq> None;
          t1 = (if known then t else t\<lparr>ss_settings := (ss_settings t)(k \<mapsto> v)\<rparr>);
          c = (if known then [Write_Setting k (the (ss_settings t k))] else [])
      in case init_settings info (t1\<lparr>ss_settingChanged := put_key k False (ss_settingChanged t1)\<rparr>) of (t2, cs) \<Rightarrow> (t2, c @ cs))"

definition sdr_init :: "device_answers \<Rightarrow> sdr_stream \<Rightarrow> (sdr_stream \<times> device_command list) result" where
  "sdr_init dev t =
     (let t1 = t\<lparr>th_ppm := da_ppm dev, ss_ppmChanged := True, th_offset := da_offset dev\<rparr>
      in if \<not> da_stream dev then Inl Assert_Failed
         else let t2 = t1\<lparr>ss_stream := True, ss_hasPPM := da_hasCORR dev, ss_hasHardwareDC := da_hasDCOffsetMode dev\<rparr>;
                  cs = [Setup_Stream, Set_Sample_Rate (th_sampleRate t2), Set_Frequency_RF (th_frequency t2 - th_offset t2)] @
                       (if da_hasCORR dev then [Set_Frequency_CORR (th_ppm t2)] else []) @
                       (if da_hasDCOffsetMode dev then [Set_DC_Offset_Mode True] else []) @
                       (if da_hasGainMode dev then [Set_Gain_Mode (th_agcMode t2)] else []);
                  t3 = (if ss_settingValueChanged t2 then t2 else t2\<lparr>ss_settings := Map.empty, ss_settingChanged := []\<rparr>)
              in case init_settings (da_settings dev) t3 of (t4, cs4) \<Rightarrow>
                 case updateSettings dev (t4\<lparr>ss_settingValueChanged := False, ss_rateChanged := True\<rparr>) of (t5, cs5) \<Rightarrow>
                   Inr (t5, cs @ cs4 @ cs5))"

section \<open>Reading\<close>

text \<open>
  What the device answers to one read: samples, of two floats each as they lie in the buffer, or
  nothing, or an error.
\<close>

datatype read_answer = Samples "sample list" | Read_Nothing | Read_Error int

definition as_sample :: "bool \<Rightarrow> sample \<Rightarrow> sample" where
  "as_sample swap p = (if swap then (snd p, fst p) else p)"

text \<open>
  The loop: \<open>data\<close> is what has been read so far, \<open>n\<close> how many samples the batch has to have.
  When no answer is left the thread has been told to stop. The result has the overflow buffer,
  the last code and whether the loop was stopped.
\<close>

fun read_loop ::
    "bool \<Rightarrow> nat \<Rightarrow> read_answer list \<Rightarrow> sample list \<Rightarrow> sample list \<Rightarrow> int \<Rightarrow> sample list \<times> sample list \<times> int \<times> bool \<times> read_answer list" where
  "read_loop swap n answers data ov code =
     (if n \<le> length data then (data, ov, code, False, answers)
      else case answers of
             [] \<Rightarrow> (data, ov, code, True, [])
           | Read_Nothing # rest \<Rightarrow> (data, ov, 0, False, rest)
           | Read_Error c # rest \<Rightarrow> (data, ov, c, False, rest)
           | Samples xs # rest \<Rightarrow>
               let ys = map (as_sample swap) xs; k = n - length data
               in if xs = [] then (data, ov, 0, False, rest)
                  else if length xs > k then read_loop swap n rest (data @ take k ys) (ov @ drop k ys) (int (length xs))
                  else read_loop swap n rest (data @ ys) ov (int (length xs)))"

declare read_loop.simps [simp del]

text \<open>
  One batch. The queue of the channelizer is asked twice: whether it is full, and to take the
  batch; \<open>stopSystem\<close> is asked for after fifty refusals in a row.
\<close>

record read_result =
  rr_code :: int
  rr_batch :: "sample list"
  rr_pushed :: bool
  rr_stopSystem :: bool
  rr_stopping :: bool

definition readStream ::
    "read_answer list \<Rightarrow> sdr_stream \<Rightarrow> sdr_data blocking_queue \<Rightarrow>
     read_result \<times> sdr_stream \<times> sdr_data blocking_queue \<times> read_answer list" where
  "readStream answers t q =
     (let n = ss_numElems t;
          first = take n (ss_overflow t)
      in case read_loop (ss_iqSwap t) n answers first (drop n (ss_overflow t)) 0 of
           (data, ov, code, stopping, rest) \<Rightarrow>
             let t1 = t\<lparr>ss_overflow := ov\<rparr>;
                 batch = \<lparr>sx_frequency = th_frequency t, sx_sampleRate = th_sampleRate t, sx_dcCorrected = ss_hasHardwareDC t,
                          sx_numChannels = ss_numChannels t, sx_data = data\<rparr>
             in if data \<noteq> [] \<and> \<not> stopping \<and> \<not> bq_full q then
                  (case bq_try_push batch q of (ok, q') \<Rightarrow>
                     (\<lparr>rr_code = (if ok then code else -32), rr_batch = data, rr_pushed = ok, rr_stopSystem = False, rr_stopping = stopping\<rparr>,
                      t1\<lparr>ss_blockedAttempts := (if ok then 0 else ss_blockedAttempts t + 1)\<rparr>, q', rest))
                else
                  (\<lparr>rr_code = -31, rr_batch = data, rr_pushed = False,
                     rr_stopSystem = (\<not> stopping \<and> ss_blockedAttempts t + 1 \<ge> 50), rr_stopping = stopping\<rparr>,
                   (if stopping then t1 else t1\<lparr>ss_blockedAttempts := ss_blockedAttempts t + 1\<rparr>), q, rest))"

section \<open>The stream and its batches\<close>

text \<open>
  The reads of a run: before each the channelizer has taken a number of batches off the queue. The
  result has what it took, what each read came to, and the rest.
\<close>

fun read_batches ::
    "nat list \<Rightarrow> read_answer list \<Rightarrow> sdr_stream \<Rightarrow> sdr_data blocking_queue \<Rightarrow>
     sdr_data list \<times> read_result list \<times> sdr_stream \<times> sdr_data blocking_queue \<times> read_answer list" where
  "read_batches [] answers t q = ([], [], t, q, answers)"
| "read_batches (k # ks) answers t q =
     (case readStream answers t (q\<lparr>bq_items := drop k (bq_items q)\<rparr>) of (r, t1, q1, rest) \<Rightarrow>
      case read_batches ks rest t1 q1 of (ys, rs, t2, q2, rest2) \<Rightarrow>
        (take k (bq_items q) @ ys, r # rs, t2, q2, rest2))"

definition samples_of :: "bool \<Rightarrow> read_answer \<Rightarrow> sample list" where
  "samples_of swap a = (case a of Samples xs \<Rightarrow> map (as_sample swap) xs | _ \<Rightarrow> [])"

definition delivers :: "read_answer \<Rightarrow> bool" where
  "delivers a \<longleftrightarrow> (\<exists>x xs. a = Samples (x # xs))"

lemma delivers_code [code, simp]:
  "delivers (Samples xs) \<longleftrightarrow> xs \<noteq> []" "\<not> delivers Read_Nothing" "\<not> delivers (Read_Error c)"
  by (simp_all add: delivers_def neq_Nil_conv)

lemma read_loop_keeps:
  assumes "read_loop swap n answers data ov code = (data', ov', code', st, rest)" "ov \<noteq> [] \<longrightarrow> n \<le> length data"
  shows "\<exists>used. answers = used @ rest \<and> data' @ ov' = data @ ov @ concat (map (samples_of swap) used) \<and>
    length data' \<le> max n (length data) \<and> (ov' \<noteq> [] \<longrightarrow> n \<le> length data') \<and>
    (st \<longrightarrow> rest = []) \<and> (\<not> st \<and> list_all delivers used \<longrightarrow> n \<le> length data')"
  using assms
proof (induction answers arbitrary: data ov code)
  case Nil
  then show ?case by (auto simp: read_loop.simps [of swap n] split: if_splits)
next
  case (Cons a answers)
  show ?case
  proof (cases "n \<le> length data")
    case True
    with Cons.prems show ?thesis by (intro exI [of _ "[]"]) (auto simp: read_loop.simps [of swap n])
  next
    case False
    with Cons.prems(2) have ov: "ov = []" by blast
    show ?thesis
    proof (cases a)
      case Read_Nothing
      with Cons.prems False ov show ?thesis
        by (intro exI [of _ "[a]"]) (auto simp: read_loop.simps [of swap n] samples_of_def)
    next
      case (Read_Error c)
      with Cons.prems False ov show ?thesis
        by (intro exI [of _ "[a]"]) (auto simp: read_loop.simps [of swap n] samples_of_def)
    next
      case (Samples xs)
      let ?ys = "map (as_sample swap) xs" and ?k = "n - length data"
      show ?thesis
      proof (cases "xs = []")
        case True
        with Samples Cons.prems False ov show ?thesis
          by (intro exI [of _ "[a]"]) (auto simp: read_loop.simps [of swap n] samples_of_def)
      next
        case nonempty: False
        define data1 where "data1 = (if length xs > ?k then data @ take ?k ?ys else data @ ?ys)"
        define ov1 where "ov1 = (if length xs > ?k then drop ?k ?ys else [])"
        have run: "read_loop swap n answers data1 ov1 (int (length xs)) = (data', ov', code', st, rest)"
          using Cons.prems(1) False nonempty Samples ov
          by (simp add: read_loop.simps [of swap n "Samples xs # answers"] data1_def ov1_def Let_def split: if_splits)
        have "ov1 \<noteq> [] \<longrightarrow> n \<le> length data1" using False by (auto simp: ov1_def data1_def)
        from Cons.IH [OF run this] obtain used where u: "answers = used @ rest"
          "data' @ ov' = data1 @ ov1 @ concat (map (samples_of swap) used)"
          "length data' \<le> max n (length data1)" "ov' \<noteq> [] \<longrightarrow> n \<le> length data'"
          "st \<longrightarrow> rest = []" "\<not> st \<and> list_all delivers used \<longrightarrow> n \<le> length data'" by blast
        have "data1 @ ov1 = data @ ?ys" by (simp add: data1_def ov1_def)
        then have "data' @ ov' = data @ ov @ concat (map (samples_of swap) (a # used))"
          using u(2) by (simp only: append.assoc [symmetric]) (simp add: samples_of_def Samples ov)
        moreover have "length data1 \<le> n" using False by (auto simp: data1_def)
        then have "length data' \<le> max n (length data)" using u(3) by simp
        ultimately show ?thesis
          using u(1,4-6) by (intro exI [of _ "a # used"] conjI) simp_all
      qed
    qed
  qed
qed

lemma readStream_keeps:
  assumes "readStream answers t q = (r, t', q', rest)"
  shows "\<exists>used. answers = used @ rest \<and>
    rr_batch r @ ss_overflow t' = ss_overflow t @ concat (map (samples_of (ss_iqSwap t)) used) \<and>
    length (rr_batch r) \<le> ss_numElems t \<and>
    (\<not> rr_stopping r \<and> list_all delivers used \<longrightarrow> length (rr_batch r) = ss_numElems t) \<and>
    ss_iqSwap t' = ss_iqSwap t \<and> ss_numElems t' = ss_numElems t \<and> ss_numChannels t' = ss_numChannels t \<and>
    map sx_data (bq_items q') = map sx_data (bq_items q) @ (if rr_pushed r then [rr_batch r] else []) \<and>
    (rr_pushed r \<longleftrightarrow> rr_batch r \<noteq> [] \<and> \<not> rr_stopping r \<and> length (bq_items q) < bq_max q) \<and> bq_max q' = bq_max q"
proof -
  let ?n = "ss_numElems t"
  obtain data ov code st rest' where l:
    "read_loop (ss_iqSwap t) ?n answers (take ?n (ss_overflow t)) (drop ?n (ss_overflow t)) 0 = (data, ov, code, st, rest')"
    by (metis prod_cases5)
  have "drop ?n (ss_overflow t) \<noteq> [] \<longrightarrow> ?n \<le> length (take ?n (ss_overflow t))" by auto
  from read_loop_keeps [OF l this] obtain used where k: "answers = used @ rest'"
    "data @ ov = take ?n (ss_overflow t) @ drop ?n (ss_overflow t) @ concat (map (samples_of (ss_iqSwap t)) used)"
    "length data \<le> max ?n (length (take ?n (ss_overflow t)))"
    "\<not> st \<and> list_all delivers used \<longrightarrow> ?n \<le> length data" by blast
  from k(2) have u: "data @ ov = ss_overflow t @ concat (map (samples_of (ss_iqSwap t)) used)"
    by (simp only: append.assoc [symmetric] append_take_drop_id)
  have rs: "rr_batch r = data" "rr_stopping r = st" "rest = rest'" "ss_overflow t' = ov" "ss_iqSwap t' = ss_iqSwap t"
    "ss_numElems t' = ?n" "ss_numChannels t' = ss_numChannels t" "bq_max q' = bq_max q"
    "rr_pushed r \<longleftrightarrow> data \<noteq> [] \<and> \<not> st \<and> length (bq_items q) < bq_max q"
    "map sx_data (bq_items q') = map sx_data (bq_items q) @ (if rr_pushed r then [data] else [])"
    using assms by (auto simp: readStream_def l bq_full_def bq_try_push_def Let_def split: if_splits)
  have n: "length data \<le> ?n" using k(3) by simp
  show ?thesis by (intro exI [of _ used]) (use n k(1,4) u rs in \<open>auto simp: le_antisym\<close>)
qed

text \<open>
  C15: The batches are the stream of the device, cut into pieces. Whatever the device answers to each
  read and whatever its MTU, and however many batches the channelizer has taken between the reads,
  the batches put together, followed by what the overflow buffer holds, are what the overflow
  buffer held before and all that the device has delivered since: no sample is lost, repeated or
  moved across the boundary of a batch. Of these batches the queue is given, in order, those that
  are not empty and for which it has room. A batch never has more than \<open>numElems\<close> samples, and no batch has fewer as
  long as the device delivers, until the thread is stopped.
\<close>

theorem batches_are_the_stream:
  assumes "read_batches ks answers t q = (ys, rs, t', q', rest)"
  shows "\<exists>used. answers = used @ rest \<and>
    concat (map rr_batch rs) @ ss_overflow t' = ss_overflow t @ concat (map (samples_of (ss_iqSwap t)) used) \<and>
    map sx_data (ys @ bq_items q') = map sx_data (bq_items q) @ map rr_batch (filter rr_pushed rs) \<and>
    list_all (\<lambda>r. length (rr_batch r) \<le> ss_numElems t) rs \<and> length rs = length ks \<and>
    (list_all delivers used \<longrightarrow> list_all (\<lambda>r. rr_stopping r \<or> length (rr_batch r) = ss_numElems t) rs)"
  using assms
proof (induction ks arbitrary: answers t q ys rs)
  case (Cons k ks)
  let ?q = "q\<lparr>bq_items := drop k (bq_items q)\<rparr>"
  obtain r t1 q1 rest1 where r: "readStream answers t ?q = (r, t1, q1, rest1)" by (metis prod_cases4)
  obtain ys1 rs1 where n: "read_batches ks rest1 t1 q1 = (ys1, rs1, t', q', rest)"
    and eq: "ys = take k (bq_items q) @ ys1" "rs = r # rs1"
    using Cons.prems by (auto simp: r split: prod.splits)
  from readStream_keeps [OF r] obtain used where u: "answers = used @ rest1"
    "rr_batch r @ ss_overflow t1 = ss_overflow t @ concat (map (samples_of (ss_iqSwap t)) used)"
    "length (rr_batch r) \<le> ss_numElems t" "ss_iqSwap t1 = ss_iqSwap t" "ss_numElems t1 = ss_numElems t"
    "map sx_data (bq_items q1) = map sx_data (bq_items ?q) @ (if rr_pushed r then [rr_batch r] else [])"
    "list_all delivers used \<longrightarrow> rr_stopping r \<or> length (rr_batch r) = ss_numElems t" by blast
  from Cons.IH [OF n] obtain used1 where v: "rest1 = used1 @ rest"
    "concat (map rr_batch rs1) @ ss_overflow t' = ss_overflow t1 @ concat (map (samples_of (ss_iqSwap t1)) used1)"
    "map sx_data (ys1 @ bq_items q') = map sx_data (bq_items q1) @ map rr_batch (filter rr_pushed rs1)"
    "list_all (\<lambda>r. length (rr_batch r) \<le> ss_numElems t1) rs1" "length rs1 = length ks"
    "list_all delivers used1 \<longrightarrow> list_all (\<lambda>r. rr_stopping r \<or> length (rr_batch r) = ss_numElems t1) rs1" by blast
  have "concat (map rr_batch rs) @ ss_overflow t' = ss_overflow t @ concat (map (samples_of (ss_iqSwap t)) (used @ used1))"
    using u(2,4) v(2) by (simp add: eq)
  moreover have "map sx_data (ys @ bq_items q') = map sx_data (bq_items q) @ map rr_batch (filter rr_pushed rs)"
  proof -
    have "map sx_data (ys @ bq_items q') = map sx_data (take k (bq_items q)) @ map sx_data (ys1 @ bq_items q')"
      by (simp add: eq)
    also have "\<dots> = map sx_data (take k (bq_items q)) @ map sx_data (drop k (bq_items q)) @
        (if rr_pushed r then [rr_batch r] else []) @ map rr_batch (filter rr_pushed rs1)"
      using v(3) u(6) by simp
    also have "\<dots> = map sx_data (bq_items q) @ map rr_batch (filter rr_pushed rs)"
    proof -
      have "map sx_data (bq_items q) = map sx_data (take k (bq_items q)) @ map sx_data (drop k (bq_items q))"
        by (metis append_take_drop_id map_append)
      then show ?thesis by (simp add: eq)
    qed
    finally show ?thesis .
  qed
  moreover have "list_all (\<lambda>r. length (rr_batch r) \<le> ss_numElems t) rs \<and> length rs = length (k # ks)"
    using u(3,5) v(4,5) by (simp add: eq)
  moreover have "list_all delivers (used @ used1) \<longrightarrow> list_all (\<lambda>r. rr_stopping r \<or> length (rr_batch r) = ss_numElems t) rs"
    using u(5,7) v(6) by (simp add: eq)
  moreover have "answers = (used @ used1) @ rest" using u(1) v(1) by simp
  ultimately show ?case by blast
qed simp

section \<open>The device has what was asked for\<close>

text \<open>What other threads and the thread's own loop do to the settings.\<close>

datatype sdr_op =
    Op_Frequency int | Op_Lock int | Op_Unlock | Op_Offset int | Op_Antenna string | Op_Rate int | Op_PPM int | Op_AGC bool
  | Op_Swap bool | Op_Gain string rat | Op_Setting string string | Op_Update

fun do_sdr_op :: "device_answers \<Rightarrow> sdr_stream \<times> device_command list \<Rightarrow> sdr_op \<Rightarrow> sdr_stream \<times> device_command list" where
  "do_sdr_op dev (t, cs) (Op_Frequency f) = (sdr_setFrequency f t, cs)"
| "do_sdr_op dev (t, cs) (Op_Lock f) = (lockFrequency f t, cs)"
| "do_sdr_op dev (t, cs) Op_Unlock = (unlockFrequency t, cs)"
| "do_sdr_op dev (t, cs) (Op_Offset f) = (sdr_setOffset f t, cs)"
| "do_sdr_op dev (t, cs) (Op_Antenna a) = (setAntenna a t, cs)"
| "do_sdr_op dev (t, cs) (Op_Rate r) = (sdr_setSampleRate r t, cs)"
| "do_sdr_op dev (t, cs) (Op_PPM p) = (sdr_setPPM p t, cs)"
| "do_sdr_op dev (t, cs) (Op_AGC m) = (sdr_setAGCMode m t, cs)"
| "do_sdr_op dev (t, cs) (Op_Swap b) = (setIQSwap b t, cs)"
| "do_sdr_op dev (t, cs) (Op_Gain k v) = (sdr_setGain k v t, cs)"
| "do_sdr_op dev (t, cs) (Op_Setting k v) = (writeSetting k v t, cs)"
| "do_sdr_op dev (t, cs) Op_Update = then_update (updateSettings dev) (t, cs)"

text \<open>The frequency a device is at, and the rate it runs at, after what it has been told.\<close>

fun rf_command :: "device_command \<Rightarrow> int option \<Rightarrow> int option" where
  "rf_command (Set_Frequency_RF f) _ = Some f"
| "rf_command _ f = f"

fun rate_command :: "(int \<Rightarrow> int) \<Rightarrow> device_command \<Rightarrow> int option \<Rightarrow> int option" where
  "rate_command actual (Set_Sample_Rate r) _ = Some (actual r)"
| "rate_command actual _ r = r"

definition device_rf :: "device_command list \<Rightarrow> int option" where
  "device_rf cs = fold rf_command cs None"

definition device_rate :: "(int \<Rightarrow> int) \<Rightarrow> device_command list \<Rightarrow> int option" where
  "device_rate actual cs = fold (rate_command actual) cs None"

definition wanted_rf :: "sdr_stream \<Rightarrow> int" where
  "wanted_rf t = (if ss_frequencyLocked t then ss_lockFreq t else th_frequency t - th_offset t)"

definition follows :: "device_answers \<Rightarrow> sdr_stream \<times> device_command list \<Rightarrow> bool" where
  "follows dev x \<longleftrightarrow> (case x of (t, cs) \<Rightarrow>
     ss_stream t \<and>
     (ss_freqChanged t \<or> ss_offsetChanged t \<or> device_rf cs = Some (wanted_rf t)) \<and>
     (ss_frequencyLocked t \<and> ss_frequencyLockInit t \<longrightarrow> device_rf cs = Some (ss_lockFreq t)) \<and>
     (ss_rateChanged t \<or> device_rate (da_rate dev) cs = Some (th_sampleRate t)) \<and>
     (ss_rateChanged t \<or> (int (ss_numChannels t) = getOptimalChannelCount (th_sampleRate t) \<and>
        ss_numElems t = nat (getOptimalElementCount (int (ss_numChannels t)) (th_sampleRate t) TARGET_DISPLAY_FPS))))"

text \<open>Commands that are neither about the frequency nor about the rate.\<close>

fun tunes :: "device_command \<Rightarrow> bool" where
  "tunes (Set_Frequency_RF f) = True"
| "tunes (Set_Sample_Rate r) = True"
| "tunes _ = False"

lemma no_tune_rf: "list_all (Not \<circ> tunes) cs \<Longrightarrow> fold rf_command cs x = x"
proof (induction cs arbitrary: x)
  case (Cons c cs)
  then show ?case by (cases c) simp_all
qed simp

lemma no_tune_rate: "list_all (Not \<circ> tunes) cs \<Longrightarrow> fold (rate_command f) cs x = x"
proof (induction cs arbitrary: x)
  case (Cons c cs)
  then show ?case by (cases c) simp_all
qed simp

lemma channel_count_pos: "0 < getOptimalChannelCount rate"
  by (auto simp: getOptimalChannelCount_def Let_def)

definition keeps_tuning :: "sdr_stream \<Rightarrow> sdr_stream \<Rightarrow> bool" where
  "keeps_tuning t t' \<longleftrightarrow> ss_stream t' = ss_stream t \<and> ss_freqChanged t' = ss_freqChanged t \<and> ss_offsetChanged t' = ss_offsetChanged t \<and>
     ss_frequencyLocked t' = ss_frequencyLocked t \<and> ss_frequencyLockInit t' = ss_frequencyLockInit t \<and> ss_lockFreq t' = ss_lockFreq t \<and>
     th_frequency t' = th_frequency t \<and> th_offset t' = th_offset t \<and> ss_rateChanged t' = ss_rateChanged t \<and>
     th_sampleRate t' = th_sampleRate t \<and> ss_numChannels t' = ss_numChannels t \<and> ss_numElems t' = ss_numElems t"

lemma follows_keeps:
  assumes "follows dev (t, cs)" "keeps_tuning t t'" "list_all (Not \<circ> tunes) ds"
  shows "follows dev (t', cs @ ds)"
  using assms
  by (cases "ss_frequencyLocked t")
    (simp_all add: follows_def keeps_tuning_def device_rf_def device_rate_def wanted_rf_def no_tune_rf no_tune_rate)

lemma gains_keep_tuning: "keeps_tuning t (fold (\<lambda>(k, v). sdr_setGain k v) gains t)"
proof (induction gains arbitrary: t)
  case (Cons g gains)
  obtain k v where g: "g = (k, v)" by fastforce
  have "keeps_tuning t (sdr_setGain k v t)" by (simp add: keeps_tuning_def sdr_setGain_def)
  moreover have "keeps_tuning (sdr_setGain k v t) (fold (\<lambda>(k, v). sdr_setGain k v) gains (sdr_setGain k v t))"
    by (rule Cons.IH)
  ultimately show ?case by (simp add: keeps_tuning_def g)
qed (simp add: keeps_tuning_def)

definition settles :: "(sdr_stream \<Rightarrow> sdr_stream \<times> device_command list) \<Rightarrow> bool" where
  "settles f \<longleftrightarrow> (\<forall>t. keeps_tuning t (fst (f t)) \<and> list_all (Not \<circ> tunes) (snd (f t)))"

lemma settling_updates:
  "settles update_antenna" "settles update_ppm" "settles (update_agc dev)" "settles update_gains_values" "settles update_device_settings"
proof -
  have "keeps_tuning t (fold (\<lambda>(k, v). sdr_setGain k v) gains (updateGains dev (t\<lparr>ss_agcChanged := False\<rparr>)))" for t gains
    using gains_keep_tuning [of "updateGains dev (t\<lparr>ss_agcChanged := False\<rparr>)" gains]
    by (simp add: keeps_tuning_def updateGains_def)
  then show "settles (update_agc dev)" by (auto simp: settles_def update_agc_def keeps_tuning_def Let_def)
qed (auto simp: settles_def update_antenna_def update_ppm_def update_gains_values_def update_device_settings_def keeps_tuning_def
      list_all_iff)

lemma then_settles:
  assumes "settles f" "follows dev x"
  shows "follows dev (then_update f x)"
proof -
  obtain t cs where x: "x = (t, cs)" by fastforce
  obtain t' ds where f: "f t = (t', ds)" by fastforce
  have "keeps_tuning t (fst (f t))" "list_all (Not \<circ> tunes) (snd (f t))" using assms(1) by (simp_all add: settles_def)
  then show ?thesis using follows_keeps [of dev t cs t' ds] assms(2) by (simp add: then_update_def x f)
qed

lemma follows_offset: "follows dev x \<Longrightarrow> follows dev (then_update update_offset x)"
  by (cases x) (auto simp: follows_def then_update_def update_offset_def wanted_rf_def)

lemma follows_rate: "follows dev x \<Longrightarrow> follows dev (then_update (update_rate dev) x)"
proof (cases x)
  case (Pair t cs)
  assume f: "follows dev x"
  show ?thesis
  proof (cases "ss_rateChanged t")
    case True
    let ?rate = "da_rate dev (th_sampleRate t)"
    have "int (nat (getOptimalChannelCount ?rate)) = getOptimalChannelCount ?rate"
      using channel_count_pos [of ?rate] by simp
    with f True Pair show ?thesis
      by (cases "ss_frequencyLocked t")
        (simp_all add: follows_def then_update_def update_rate_def Let_def wanted_rf_def device_rf_def device_rate_def)
  qed (use f Pair in \<open>simp add: then_update_def update_rate_def\<close>)
qed

lemma follows_frequency:
  "follows dev x \<Longrightarrow> follows dev (then_update update_frequency x) \<and>
     \<not> ss_freqChanged (fst (then_update update_frequency x)) \<and>
     ss_offsetChanged (fst (then_update update_frequency x)) = ss_offsetChanged (fst x)"
proof (cases x)
  case (Pair t cs)
  assume f: "follows dev x"
  show ?thesis
  proof (cases "ss_freqChanged t")
    case True
    with f Pair show ?thesis
      by (cases "ss_frequencyLocked t"; cases "ss_frequencyLockInit t")
        (simp_all add: follows_def then_update_def update_frequency_def Let_def wanted_rf_def device_rf_def device_rate_def)
  qed (use f Pair in \<open>simp add: then_update_def update_frequency_def\<close>)
qed

lemma settled_flags:
  assumes "settles f"
  shows "ss_freqChanged (fst (then_update f x)) = ss_freqChanged (fst x)" "ss_offsetChanged (fst (then_update f x)) = ss_offsetChanged (fst x)"
    "ss_rateChanged (fst (then_update f x)) = ss_rateChanged (fst x)"
proof -
  have "keeps_tuning (fst x) (fst (f (fst x)))" using assms by (simp add: settles_def)
  moreover have "fst (then_update f x) = fst (f (fst x))" by (simp add: then_update_def split: prod.splits)
  ultimately show "ss_freqChanged (fst (then_update f x)) = ss_freqChanged (fst x)"
    "ss_offsetChanged (fst (then_update f x)) = ss_offsetChanged (fst x)"
    "ss_rateChanged (fst (then_update f x)) = ss_rateChanged (fst x)" by (simp_all add: keeps_tuning_def)
qed

lemma rate_flags:
  "\<not> ss_rateChanged (fst (then_update (update_rate dev) x)) \<and>
   ss_freqChanged (fst (then_update (update_rate dev) x)) = ss_freqChanged (fst x) \<and>
   ss_offsetChanged (fst (then_update (update_rate dev) x)) = ss_offsetChanged (fst x)"
  by (simp add: then_update_def update_rate_def Let_def split: prod.splits)

lemma frequency_keeps_rate: "ss_rateChanged (fst (then_update update_frequency x)) = ss_rateChanged (fst x)"
  by (simp add: then_update_def update_frequency_def Let_def split: prod.splits)

lemma offset_flag: "\<not> ss_offsetChanged (fst (then_update update_offset x))"
  by (simp add: then_update_def update_offset_def split: prod.splits)

lemma follows_update:
  assumes "follows dev x"
  shows "follows dev (then_update (updateSettings dev) x) \<and> \<not> ss_freqChanged (fst (then_update (updateSettings dev) x)) \<and>
    \<not> ss_offsetChanged (fst (then_update (updateSettings dev) x)) \<and> \<not> ss_rateChanged (fst (then_update (updateSettings dev) x))"
proof -
  obtain t cs where x: "x = (t, cs)" by fastforce
  have s: "ss_stream t" using assms by (simp add: follows_def x)
  let ?x1 = "then_update update_antenna x"
  let ?x4 = "then_update update_ppm (then_update (update_rate dev) (then_update update_offset ?x1))"
  let ?x5 = "then_update update_frequency ?x4"
  let ?x8 = "then_update update_device_settings (then_update update_gains_values (then_update (update_agc dev) ?x5))"
  have chain: "then_update (updateSettings dev) x = ?x8"
    using s by (simp add: then_update_def updateSettings_def x split: prod.splits)
  note k = settling_updates
  have x4: "follows dev ?x4"
    using assms then_settles [OF k(1)] follows_offset follows_rate then_settles [OF k(2)] by blast
  have off: "\<not> ss_offsetChanged (fst ?x4)" "\<not> ss_rateChanged (fst ?x4)"
    using offset_flag [of ?x1] by (simp_all add: settled_flags [OF k(2)] rate_flags)
  note x5 = follows_frequency [OF x4]
  have "follows dev ?x8" using x5 then_settles [OF k(3)] then_settles [OF k(4)] then_settles [OF k(5)] by blast
  moreover have "\<not> ss_freqChanged (fst ?x8)" "\<not> ss_offsetChanged (fst ?x8)" "\<not> ss_rateChanged (fst ?x8)"
    using x5 off by (simp_all add: settled_flags [OF k(3)] settled_flags [OF k(4)] settled_flags [OF k(5)] frequency_keeps_rate)
  ultimately show ?thesis by (simp add: chain)
qed

lemma follows_op: "follows dev x \<Longrightarrow> follows dev (do_sdr_op dev x op)"
proof -
  assume f: "follows dev x"
  obtain t cs where x: "x = (t, cs)" by fastforce
  have keep: "follows dev (t', cs)" if "keeps_tuning t t'" for t'
    using follows_keeps [of dev t cs t' "[]"] f that by (simp add: x)
  show ?thesis
  proof (cases op)
    case Op_Update
    then show ?thesis using follows_update [OF f] by (simp add: x)
  next
    case (Op_Frequency v)
    then show ?thesis using f by (simp add: x sdr_setFrequency_def follows_def wanted_rf_def)
  next
    case (Op_Lock v)
    then show ?thesis using f by (simp add: x sdr_setFrequency_def lockFrequency_def follows_def wanted_rf_def)
  next
    case Op_Unlock
    then show ?thesis using f by (simp add: x unlockFrequency_def follows_def wanted_rf_def)
  next
    case (Op_Offset v)
    then show ?thesis using f by (simp add: x sdr_setOffset_def follows_def wanted_rf_def)
  next
    case (Op_Rate v)
    then show ?thesis using f
      by (cases "ss_frequencyLocked t") (simp_all add: x sdr_setSampleRate_def follows_def wanted_rf_def)
  qed (use keep in \<open>simp_all add: x keeps_tuning_def setAntenna_def sdr_setPPM_def sdr_setAGCMode_def setIQSwap_def
        sdr_setGain_def writeSetting_def\<close>)
qed

lemma follows_ops: "follows dev x \<Longrightarrow> follows dev (foldl (do_sdr_op dev) x ops)"
  by (induction ops arbitrary: x) (simp_all add: follows_op)

lemma init_settings_keeps:
  "init_settings info t = (t', ds) \<Longrightarrow> keeps_tuning t t' \<and> list_all (Not \<circ> tunes) ds"
proof (induction info arbitrary: t ds)
  case (Cons x info)
  obtain k v where x: "x = (k, v)" by fastforce
  define known where "known \<longleftrightarrow> k \<in> set (map fst (ss_settingChanged t)) \<and> ss_settings t k \<noteq> None"
  define t1 where "t1 = (if known then t else t\<lparr>ss_settings := (ss_settings t)(k \<mapsto> v)\<rparr>)"
  define t2 where "t2 = t1\<lparr>ss_settingChanged := put_key k False (ss_settingChanged t1)\<rparr>"
  define c where "c = (if known then [Write_Setting k (the (ss_settings t k))] else [])"
  obtain t3 es where n: "init_settings info t2 = (t3, es)" by fastforce
  have "(t3, c @ es) = (t', ds)"
    using Cons.prems n unfolding x init_settings.simps Let_def known_def [symmetric] t1_def [symmetric] t2_def [symmetric] c_def [symmetric]
    by simp
  then have e: "t3 = t'" "ds = c @ es" by simp_all
  have "keeps_tuning t t2" "list_all (Not \<circ> tunes) c" by (simp_all add: t2_def t1_def c_def keeps_tuning_def)
  then show ?case using Cons.IH [OF n [unfolded e(1)]] by (simp add: e keeps_tuning_def o_def)
qed (simp add: keeps_tuning_def)

lemma sdr_init_follows:
  assumes "sdr_init dev t0 = Inr x" "\<not> (ss_frequencyLocked t0 \<and> \<not> ss_freqChanged t0)" "\<not> ss_frequencyLockInit t0"
  shows "follows dev x"
proof -
  define t3 where "t3 = (let t2 = t0\<lparr>th_ppm := da_ppm dev, ss_ppmChanged := True, th_offset := da_offset dev, ss_stream := True,
      ss_hasPPM := da_hasCORR dev, ss_hasHardwareDC := da_hasDCOffsetMode dev\<rparr>
    in if ss_settingValueChanged t2 then t2 else t2\<lparr>ss_settings := Map.empty, ss_settingChanged := []\<rparr>)"
  define cs where "cs = [Setup_Stream, Set_Sample_Rate (th_sampleRate t3), Set_Frequency_RF (th_frequency t3 - th_offset t3)] @
    (if da_hasCORR dev then [Set_Frequency_CORR (th_ppm t3)] else []) @ (if da_hasDCOffsetMode dev then [Set_DC_Offset_Mode True] else []) @
    (if da_hasGainMode dev then [Set_Gain_Mode (th_agcMode t3)] else [])"
  obtain t4 cs4 where i: "init_settings (da_settings dev) t3 = (t4, cs4)" by fastforce
  let ?t5 = "t4\<lparr>ss_settingValueChanged := False, ss_rateChanged := True\<rparr>"
  have "th_sampleRate t3 = th_sampleRate t0" "th_frequency t3 = th_frequency t0" "th_offset t3 = da_offset dev"
    "th_ppm t3 = da_ppm dev" "th_agcMode t3 = th_agcMode t0" by (simp_all add: t3_def Let_def)
  then have x: "x = then_update (updateSettings dev) (?t5, cs @ cs4)"
    using assms(1) i by (auto simp: sdr_init_def t3_def cs_def Let_def then_update_def split: if_splits prod.splits)
  note k = init_settings_keeps [OF i]
  have "device_rf cs = Some (th_frequency t3 - th_offset t3)" by (simp add: cs_def device_rf_def)
  moreover have "ss_frequencyLocked t3 = ss_frequencyLocked t0" "ss_freqChanged t3 = ss_freqChanged t0" "ss_stream t3"
    "ss_frequencyLockInit t3 = ss_frequencyLockInit t0" by (simp_all add: t3_def Let_def)
  ultimately have "follows dev (?t5, cs @ cs4)"
    using k assms(2,3) by (cases "ss_frequencyLocked t0")
      (simp_all add: follows_def keeps_tuning_def wanted_rf_def device_rf_def no_tune_rf)
  then show ?thesis using follows_update by (simp add: x)
qed

lemma whole_elements: "n dvd nat (getOptimalElementCount (int n) rate fps)"
proof -
  have "int n dvd getOptimalElementCount (int n) rate fps" by (simp add: getOptimalElementCount_def)
  then show ?thesis by (cases "0 \<le> getOptimalElementCount (int n) rate fps") (simp_all add: int_dvd_int_iff [symmetric] del: int_dvd_int_iff)
qed

lemma settled_tuning:
  assumes "sdr_init dev t0 = Inr x" "\<not> ss_frequencyLocked t0" "\<not> ss_frequencyLockInit t0"
    "foldl (do_sdr_op dev) x (ops @ [Op_Update]) = (t, cs)"
  shows "follows dev (t, cs) \<and> \<not> ss_freqChanged t \<and> \<not> ss_offsetChanged t \<and> \<not> ss_rateChanged t"
proof -
  let ?y = "foldl (do_sdr_op dev) x ops"
  have "follows dev ?y" using sdr_init_follows [OF assms(1)] assms(2,3) by (intro follows_ops) simp
  moreover have "then_update (updateSettings dev) ?y = (t, cs)" using assms(4) by (cases ?y) simp
  ultimately show ?thesis using follows_update [of dev ?y] by simp
qed


text \<open>A device with two channels of 300000 samples each, for witnesses.\<close>

definition demo_answers :: device_answers where
  "demo_answers = \<lparr>da_stream = True, da_hasCORR = True, da_hasDCOffsetMode = False, da_settings = [], da_ppm = 0,
     da_offset = 0, da_rate = (\<lambda>r. if r \<le> 250000 then 250000 else 600000), da_mtu = 4096, da_hasGainMode = True,
     da_gains = [], da_configGains = [], da_bladeRF = False\<rparr>"

definition demo_ops :: "sdr_op list" where
  "demo_ops = [Op_Frequency 155000000, Op_Rate 500000, Op_Update, Op_AGC False, Op_Frequency 460000000]"


theorem batches_are_the_stream_witness:
  "case read_batches [0, 0, 1, 0] [Samples [(1, 2), (3, 4), (5, 6)], Samples [(7, 8), (9, 0), (2, 2)], Samples [(4, 4), (5, 5)]]
       (SDRStream_init\<lparr>ss_numElems := 2\<rparr>) \<lparr>bq_items = [], bq_max = 1\<rparr> of
     (ys, rs, t, q, rest) \<Rightarrow> rest = [] \<and> map rr_pushed rs = [True, False, True, False] \<and>
       concat (map rr_batch rs) @ ss_overflow t = [(1, 2), (3, 4), (5, 6), (7, 8), (9, 0), (2, 2), (4, 4), (5, 5)]"
proof -
  let ?as = "[Samples [(1, 2), (3, 4), (5, 6)], Samples [(7, 8), (9, 0), (2, 2)], Samples [(4, 4), (5, 5)]]"
  let ?t = "SDRStream_init\<lparr>ss_numElems := 2\<rparr>" and ?q = "\<lparr>bq_items = [], bq_max = 1\<rparr>"
  obtain ys rs t q rest where run: "read_batches [0, 0, 1, 0] ?as ?t ?q = (ys, rs, t, q, rest)" by (metis prod_cases5)
  have "map rr_pushed (fst (snd (read_batches [0, 0, 1, 0] ?as ?t ?q))) = [True, False, True, False] \<and>
      snd (snd (snd (snd (read_batches [0, 0, 1, 0] ?as ?t ?q)))) = []" by code_simp
  then have e: "map rr_pushed rs = [True, False, True, False]" "rest = []" unfolding run by simp_all
  have "ss_iqSwap ?t = False" "ss_overflow ?t = []" by (simp_all add: SDRStream_init_def sdr_stream.defs sdr_thread.defs SDRThread_init_def)
  then show ?thesis
    using batches_are_the_stream [OF run] e unfolding run by (auto simp: samples_of_def as_sample_def)
qed

end
