(* ===== verification/Channelizer.thy ===== *)
theory Channelizer
  imports Demod_Mgr Sdr_Stream
begin

text \<open>
  The channelizer (\<open>SDRPostThread\<close>, src/src/cubic/sdr/SDRPostThread.cpp): it keeps the list of modems
  that are in the tuned window, splits a batch of the tuner's samples into channels, and pushes
  to each modem the channel nearest to its frequency.

  The filters (liquid-dsp) are third-party: a filter is a function from its state and the samples
  it is given. Nothing selects the second kind of filter bank (\<open>SDRPostPFBCH2\<close>), which is left
  out. Following (\<open>setFollow\<close>) is only ever switched off in the source, and the label of a modem
  is for display; both are left out. A modem's input queue is named by the address of the modem.
\<close>

section \<open>State\<close>

record iq_data =
  iq_frequency :: int
  iq_sampleRate :: int
  iq_data :: "sample list"

record 'f post_filters =
  fi_create :: "nat \<Rightarrow> 'f"
  fi_bank :: "'f \<Rightarrow> sample list \<Rightarrow> 'f \<times> sample list"
  fi_dc :: "'f \<Rightarrow> sample list \<Rightarrow> 'f \<times> sample list"

record 'f post_thread =
  pt_frequency :: int
  pt_sampleRate :: int
  pt_numChannels :: nat
  pt_lastChanMode :: int
  pt_doRefresh :: bool
  pt_chanBw :: int
  pt_chanCenters :: "int list"
  pt_runDemods :: "nat list"
  pt_demodChannel :: "int list"
  pt_demodChannelActive :: "nat list"
  pt_dataOut :: "sample list"
  pt_bank :: "'f"
  pt_dc :: "'f"

definition SDRPostThread_init :: "'f \<Rightarrow> 'f post_thread" where
  "SDRPostThread_init dc = \<lparr>pt_frequency = 0, pt_sampleRate = 0, pt_numChannels = 0, pt_lastChanMode = 0, pt_doRefresh = False,
     pt_chanBw = 0, pt_chanCenters = [], pt_runDemods = [], pt_demodChannel = [], pt_demodChannelActive = [], pt_dataOut = [],
     pt_bank = dc, pt_dc = dc\<rparr>"

type_synonym pipes = "iq_data blocking_queue list"

section \<open>The modems in the window\<close>

definition out_of_window :: "'f post_thread \<Rightarrow> int \<Rightarrow> bool" where
  "out_of_window pt f \<longleftrightarrow> \<bar>pt_frequency pt - f\<bar> > cdiv (pt_sampleRate pt) 2"

definition update_demod :: "int \<Rightarrow> nat \<Rightarrow> 'f post_thread \<times> demod_mgr \<Rightarrow> 'f post_thread \<times> demod_mgr" where
  "update_demod centerFreq p x = (case x of (pt, g) \<Rightarrow>
     let d = dg_store g ! p;
         locked = centerFreq + di_deltaLockOfs d;
         g1 = (if di_deltaLock d \<and> di_frequency d \<noteq> locked
               then on_inst p (\<lambda>d. (inst_setFrequency locked d)\<lparr>di_tracking := False\<rparr>) g else g);
         d1 = dg_store g1 ! p;
         g2 = (if out_of_window pt (di_frequency d1) then
                 (if getCurrentModem g1 = Some p then on_inst p (inst_setActive False) g1
                  else if di_active d1 \<and> \<not> di_tracking d1 then on_inst p (inst_setActive False) g1
                  else g1)
               else if \<not> di_active d1 then
                 (let g' = on_inst p (inst_setActive True) g1
                  in if getCurrentModem g' = None then setActiveDemodulator (Some p) True g' else g')
               else g1)
     in if di_active (dg_store g2 ! p)
        then (pt\<lparr>pt_runDemods := pt_runDemods pt @ [p], pt_demodChannel := pt_demodChannel pt @ [-1]\<rparr>, g2)
        else (pt, g2))"

definition updateActiveDemodulators :: "int \<Rightarrow> 'f post_thread \<times> demod_mgr \<Rightarrow> 'f post_thread \<times> demod_mgr" where
  "updateActiveDemodulators centerFreq x = (case x of (pt, g) \<Rightarrow>
     fold (update_demod centerFreq) (dg_demods g) (pt\<lparr>pt_runDemods := [], pt_demodChannel := []\<rparr>, g))"

section \<open>The channels\<close>

text \<open>\<open>chanCenters[i] = f\<close>, which the source does not check.\<close>

definition set_at :: "nat \<Rightarrow> 'a \<Rightarrow> 'a list \<Rightarrow> 'a list result" where
  "set_at i v xs = (if i < length xs then Inr (xs[i := v]) else Inl Out_Of_Bounds)"

fun center_loop :: "'f post_thread \<Rightarrow> nat list \<Rightarrow> int list \<Rightarrow> int list result" where
  "center_loop pt [] cs = Inr cs"
| "center_loop pt (i # is) cs =
     (let ofs = wrap32 (pt_chanBw pt * int i)
      in bind_result (set_at i (pt_frequency pt + ofs) cs) (\<lambda>c1.
         bind_result (set_at (i + pt_numChannels pt div 2) (pt_frequency pt - cdiv (pt_sampleRate pt) 2 + ofs) c1)
           (center_loop pt is)))"

definition updateChannels :: "'f post_thread \<Rightarrow> 'f post_thread result" where
  "updateChannels pt =
     bind_result (center_loop pt [0..<pt_numChannels pt div 2] (pt_chanCenters pt)) (\<lambda>cs.
     bind_result (set_at (pt_numChannels pt) (pt_frequency pt + cdiv (pt_sampleRate pt) 2) cs) (\<lambda>cs'.
       Inr (pt\<lparr>pt_chanCenters := cs'\<rparr>)))"

fun channel_loop :: "int list \<Rightarrow> int \<Rightarrow> nat list \<Rightarrow> int \<Rightarrow> int \<Rightarrow> int result" where
  "channel_loop cs f [] minDelta chan = Inr chan"
| "channel_loop cs f (i # is) minDelta chan =
     bind_result (subscript cs i) (\<lambda>c.
       if \<bar>f - c\<bar> < minDelta then channel_loop cs f is \<bar>f - c\<bar> (int i) else channel_loop cs f is minDelta chan)"

definition getChannelAt :: "int \<Rightarrow> 'f post_thread \<Rightarrow> int result" where
  "getChannelAt f pt = channel_loop (pt_chanCenters pt) f [0..<pt_numChannels pt + 1] (pt_sampleRate pt) (-1)"

definition initPFBCH :: "'f post_filters \<Rightarrow> 'f post_thread \<Rightarrow> 'f post_thread" where
  "initPFBCH F pt =
     (let n = pt_numChannels pt
      in pt\<lparr>pt_bank := fi_create F n, pt_chanBw := cdiv (pt_sampleRate pt) (int n),
            pt_chanCenters := take (n + 1) (pt_chanCenters pt) @ replicate (n + 1 - length (pt_chanCenters pt)) 0,
            pt_demodChannelActive := take (n + 1) (pt_demodChannelActive pt) @ replicate (n + 1 - length (pt_demodChannelActive pt)) 0\<rparr>)"

section \<open>A batch\<close>

text \<open>To the queue of each modem whose channel it is; a full queue loses it.\<close>

definition push_pipe :: "iq_data \<Rightarrow> nat \<Rightarrow> pipes \<Rightarrow> pipes" where
  "push_pipe b p ps = ps[p := snd (bq_try_push b (ps ! p))]"

text \<open>\<open>dataOut[idx]\<close>, \<open>dataOut[idx + numChannels]\<close>, and so on.\<close>

fun deinterlace :: "sample list \<Rightarrow> nat \<Rightarrow> nat \<Rightarrow> nat \<Rightarrow> sample list result" where
  "deinterlace xs n idx 0 = Inr []"
| "deinterlace xs n idx (Suc k) =
     bind_result (subscript xs idx) (\<lambda>x. bind_result (deinterlace xs n (idx + n) k) (\<lambda>ys. Inr (x # ys)))"

fun nearest_channels :: "demod_mgr \<Rightarrow> 'f post_thread \<Rightarrow> nat list \<Rightarrow> int list result" where
  "nearest_channels g pt [] = Inr []"
| "nearest_channels g pt (p # ps) =
     bind_result (getChannelAt (di_frequency (dg_store g ! p)) pt) (\<lambda>c.
     bind_result (nearest_channels g pt ps) (\<lambda>cs. Inr (c # cs)))"

text \<open>The number of modems of each channel; a modem without one has channel \<open>-1\<close>.\<close>

fun count_channels :: "int list \<Rightarrow> nat list \<Rightarrow> nat list result" where
  "count_channels [] act = Inr act"
| "count_channels (c # cs) act =
     (if c \<ge> 0 then bind_result (subscript act (nat c)) (\<lambda>k. count_channels cs (act[nat c := k + 1]))
      else count_channels cs act)"

definition reset_active :: "nat \<Rightarrow> nat list \<Rightarrow> nat list result" where
  "reset_active n act = (if n \<le> length act then Inr (replicate n 0 @ drop n act) else Inl Out_Of_Bounds)"

text \<open>The channel of the current modem is run even when it is no modem's, for a display.\<close>

definition active_channel :: "demod_mgr \<Rightarrow> nat list \<Rightarrow> int list \<Rightarrow> int" where
  "active_channel g ps chans =
     foldl (\<lambda>a (p, c). if getCurrentModem g = Some p then c else a) (-1) (zip ps chans)"

definition run_channel ::
    "'f post_filters \<Rightarrow> demod_mgr \<Rightarrow> int \<Rightarrow> nat \<Rightarrow> 'f post_thread \<times> pipes \<Rightarrow> ('f post_thread \<times> pipes) result" where
  "run_channel F g bandwidth i x = (case x of (pt, ps) \<Rightarrow>
     let n = pt_numChannels pt; size = length (pt_dataOut pt) div n;
         idx = (if i = n then n div 2 else i)
     in bind_result (subscript (pt_demodChannelActive pt) i) (\<lambda>act.
        if active_channel g (pt_runDemods pt) (pt_demodChannel pt) \<noteq> int i \<and> act = 0 then Inr (pt, ps)
        else bind_result (subscript (pt_chanCenters pt) i) (\<lambda>center.
             bind_result (deinterlace (pt_dataOut pt) n idx size) (\<lambda>raw.
               let (dc, samples) = (if i = 0 then fi_dc F (pt_dc pt) raw else (pt_dc pt, raw));
                   b = \<lparr>iq_frequency = center, iq_sampleRate = bandwidth, iq_data = samples\<rparr>
               in Inr (pt\<lparr>pt_dc := dc\<rparr>,
                       fold (push_pipe b) (map fst (filter (\<lambda>(p, c). c = int i) (zip (pt_runDemods pt) (pt_demodChannel pt)))) ps)))))"

fun run_channels ::
    "'f post_filters \<Rightarrow> demod_mgr \<Rightarrow> int \<Rightarrow> nat list \<Rightarrow> 'f post_thread \<times> pipes \<Rightarrow> ('f post_thread \<times> pipes) result" where
  "run_channels F g bandwidth [] x = Inr x"
| "run_channels F g bandwidth (i # is) x = bind_result (run_channel F g bandwidth i x) (run_channels F g bandwidth is)"

definition runDemodChannels ::
    "'f post_filters \<Rightarrow> demod_mgr \<Rightarrow> int \<Rightarrow> 'f post_thread \<Rightarrow> pipes \<Rightarrow> ('f post_thread \<times> pipes) result" where
  "runDemodChannels F g bandwidth pt ps =
     bind_result (reset_active (pt_numChannels pt + 1) (pt_demodChannelActive pt)) (\<lambda>act0.
     bind_result (nearest_channels g pt (pt_runDemods pt)) (\<lambda>chans.
     bind_result (count_channels chans act0) (\<lambda>act.
       run_channels F g bandwidth [0..<pt_numChannels pt + 1]
         (pt\<lparr>pt_demodChannel := chans, pt_demodChannelActive := act\<rparr>, ps))))"

text \<open>The filter bank reads a block of samples, as many as there are channels, for each block it writes.\<close>

function analyze :: "('f \<Rightarrow> sample list \<Rightarrow> 'f \<times> sample list) \<Rightarrow> nat \<Rightarrow> 'f \<Rightarrow> sample list \<Rightarrow> ('f \<times> sample list) result" where
  "analyze bank n st xs =
     (if xs = [] then Inr (st, [])
      else if n = 0 \<or> length xs < n then Inl Out_Of_Bounds
      else case bank st (take n xs) of (st1, ys) \<Rightarrow>
             bind_result (analyze bank n st1 (drop n xs)) (\<lambda>(st2, zs). Inr (st2, ys @ zs)))"
  by pat_completeness auto
termination by (relation "measure (\<lambda>(bank, n, st, xs). length xs)") auto

declare analyze.simps [simp del]

definition refresh_pfb :: "'f post_filters \<Rightarrow> sdr_data \<Rightarrow> 'f post_thread \<Rightarrow> bool \<times> 'f post_thread" where
  "refresh_pfb F b pt =
     (if pt_numChannels pt \<noteq> sx_numChannels b \<or> pt_sampleRate pt \<noteq> sx_sampleRate b \<or> pt_lastChanMode pt \<noteq> 1 \<or> pt_doRefresh pt
      then (True, (initPFBCH F (pt\<lparr>pt_numChannels := sx_numChannels b, pt_sampleRate := wrap32 (sx_sampleRate b)\<rparr>))\<lparr>pt_lastChanMode := 1\<rparr>)
      else (False, pt))"

definition prepare_pfb ::
    "'f post_filters \<Rightarrow> int \<Rightarrow> sdr_data \<Rightarrow> 'f post_thread \<times> demod_mgr \<Rightarrow> ('f post_thread \<times> demod_mgr) result" where
  "prepare_pfb F centerFreq b x = (case x of (pt, g) \<Rightarrow>
     case refresh_pfb F b pt of (refreshed, pt1) \<Rightarrow>
       if refreshed \<or> pt_frequency pt1 \<noteq> sx_frequency b
       then (case updateActiveDemodulators centerFreq (pt1\<lparr>pt_frequency := sx_frequency b\<rparr>, g) of
               (pt2, g2) \<Rightarrow> bind_result (updateChannels pt2) (\<lambda>pt3. Inr (pt3, g2)))
       else Inr (pt1, g))"

definition runPFBCH ::
    "'f post_filters \<Rightarrow> int \<Rightarrow> sdr_data \<Rightarrow> 'f post_thread \<times> demod_mgr \<times> pipes \<Rightarrow> ('f post_thread \<times> demod_mgr \<times> pipes) result" where
  "runPFBCH F centerFreq b x = (case x of (pt, g, ps) \<Rightarrow>
     bind_result (prepare_pfb F centerFreq b (pt, g)) (\<lambda>(pt4, g4).
       if pt_runDemods pt4 = [] then Inr (pt4, g4, ps)
       else bind_result (analyze (fi_bank F) (pt_numChannels pt4) (pt_bank pt4) (sx_data b)) (\<lambda>(bank, out).
            bind_result (runDemodChannels F g4 (pt_chanBw pt4) (pt4\<lparr>pt_bank := bank, pt_dataOut := out\<rparr>) ps) (\<lambda>(pt5, ps5).
              Inr (pt5, g4, ps5)))))"

text \<open>One channel: each modem gets the whole batch, with the offset at zero removed.\<close>

definition runSingleCH ::
    "'f post_filters \<Rightarrow> int \<Rightarrow> sdr_data \<Rightarrow> 'f post_thread \<times> demod_mgr \<times> pipes \<Rightarrow> 'f post_thread \<times> demod_mgr \<times> pipes" where
  "runSingleCH F centerFreq b x = (case x of (pt, g, ps) \<Rightarrow>
     let refreshed = (pt_sampleRate pt \<noteq> sx_sampleRate b \<or> pt_doRefresh pt);
         pt1 = (if refreshed then pt\<lparr>pt_sampleRate := wrap32 (sx_sampleRate b), pt_numChannels := 1\<rparr> else pt);
         (pt2, g2) = (if refreshed \<or> pt_frequency pt1 \<noteq> sx_frequency b
                      then updateActiveDemodulators centerFreq (pt1\<lparr>pt_frequency := sx_frequency b\<rparr>, g) else (pt1, g));
         (dc, samples) = fi_dc F (pt_dc pt2) (sx_data b);
         out = \<lparr>iq_frequency = pt_frequency pt2, iq_sampleRate = pt_sampleRate pt2, iq_data = samples\<rparr>
     in (pt2\<lparr>pt_dc := dc\<rparr>, g2, fold (push_pipe out) (pt_runDemods pt2) ps))"

text \<open>
  One pass of the thread's loop for a batch. Afterwards the modems are looked at again if one of
  them has left the window or somebody asked for it.
\<close>

definition post_pass ::
    "'f post_filters \<Rightarrow> int \<Rightarrow> sdr_data \<Rightarrow> 'f post_thread \<times> demod_mgr \<times> pipes \<Rightarrow> ('f post_thread \<times> demod_mgr \<times> pipes) result" where
  "post_pass F centerFreq b x =
     bind_result (if sx_data b = [] then Inr x
                  else if sx_numChannels b > 1 then runPFBCH F centerFreq b x else Inr (runSingleCH F centerFreq b x)) (\<lambda>(pt, g, ps).
       if pt_doRefresh pt \<or> list_ex (\<lambda>p. out_of_window pt (di_frequency (dg_store g ! p))) (pt_runDemods pt)
       then (case updateActiveDemodulators centerFreq (pt, g) of (pt', g') \<Rightarrow> Inr (pt'\<lparr>pt_doRefresh := False\<rparr>, g', ps))
       else Inr (pt, g, ps))"

definition notifyDemodulatorsChanged :: "'f post_thread \<Rightarrow> 'f post_thread" where
  "notifyDemodulatorsChanged pt = pt\<lparr>pt_doRefresh := True\<rparr>"

section \<open>The centres of the channels\<close>

lemma center_loop_sets:
  assumes "h = pt_numChannels pt div 2" "set is \<subseteq> {..<h}" "distinct is" "2 * h \<le> length cs"
  shows "\<exists>cs'. center_loop pt is cs = Inr cs' \<and> length cs' = length cs \<and>
    (\<forall>i<h. cs' ! i = (if i \<in> set is then pt_frequency pt + wrap32 (pt_chanBw pt * int i) else cs ! i) \<and>
      cs' ! (i + h) = (if i \<in> set is then pt_frequency pt - cdiv (pt_sampleRate pt) 2 + wrap32 (pt_chanBw pt * int i) else cs ! (i + h)))"
  using assms(2-4)
proof (induction "is" arbitrary: cs)
  case (Cons k ks)
  let ?a = "pt_frequency pt + wrap32 (pt_chanBw pt * int k)"
  let ?b = "pt_frequency pt - cdiv (pt_sampleRate pt) 2 + wrap32 (pt_chanBw pt * int k)"
  have k: "k < h" "k \<notin> set ks" using Cons.prems by auto
  have step: "center_loop pt (k # ks) cs = center_loop pt ks (cs[k := ?a, k + h := ?b])"
    using k Cons.prems(3) by (simp add: Let_def set_at_def assms(1) [symmetric])
  have "2 * h \<le> length (cs[k := ?a, k + h := ?b])" using Cons.prems(3) by simp
  from Cons.IH [OF _ _ this] Cons.prems obtain cs' where c: "center_loop pt ks (cs[k := ?a, k + h := ?b]) = Inr cs'"
    "length cs' = length cs"
    "\<forall>i<h. cs' ! i = (if i \<in> set ks then pt_frequency pt + wrap32 (pt_chanBw pt * int i) else cs[k := ?a, k + h := ?b] ! i) \<and>
      cs' ! (i + h) = (if i \<in> set ks then pt_frequency pt - cdiv (pt_sampleRate pt) 2 + wrap32 (pt_chanBw pt * int i)
        else cs[k := ?a, k + h := ?b] ! (i + h))" by auto
  have "cs' ! i = (if i \<in> set (k # ks) then pt_frequency pt + wrap32 (pt_chanBw pt * int i) else cs ! i) \<and>
      cs' ! (i + h) = (if i \<in> set (k # ks) then pt_frequency pt - cdiv (pt_sampleRate pt) 2 + wrap32 (pt_chanBw pt * int i) else cs ! (i + h))"
    if "i < h" for i
    using c(3) that k Cons.prems(3) by (cases "i = k") (simp_all add: nth_list_update)
  then show ?case using c(1,2) step by (intro exI [of _ cs']) simp
qed simp

definition grid_ok :: "'f post_thread \<Rightarrow> bool" where
  "grid_ok pt \<longleftrightarrow> (let n = pt_numChannels pt; h = n div 2; S = pt_sampleRate pt in
     even n \<and> 2 \<le> n \<and> int n \<le> S \<and> pt_chanBw pt = S div int n \<and> length (pt_chanCenters pt) = n + 1 \<and>
     (\<forall>i<h. pt_chanCenters pt ! i = pt_frequency pt + pt_chanBw pt * int i \<and>
            pt_chanCenters pt ! (i + h) = pt_frequency pt - S div 2 + pt_chanBw pt * int i) \<and>
     pt_chanCenters pt ! n = pt_frequency pt + S div 2)"

lemma updateChannels_total:
  assumes "length (pt_chanCenters pt) = pt_numChannels pt + 1"
  shows "\<exists>cs. updateChannels pt = Inr (pt\<lparr>pt_chanCenters := cs\<rparr>) \<and> length cs = pt_numChannels pt + 1"
proof -
  let ?h = "pt_numChannels pt div 2"
  have "set [0..<?h] \<subseteq> {..<?h}" "2 * ?h \<le> length (pt_chanCenters pt)" using assms by auto
  from center_loop_sets [OF refl this(1) distinct_upt this(2)]
  obtain cs' where "center_loop pt [0..<?h] (pt_chanCenters pt) = Inr cs'" "length cs' = length (pt_chanCenters pt)" by blast
  then show ?thesis using assms
    by (intro exI [of _ "cs'[pt_numChannels pt := pt_frequency pt + cdiv (pt_sampleRate pt) 2]"]) (simp add: updateChannels_def set_at_def)
qed

lemma updateChannels_grid:
  assumes "even (pt_numChannels pt)" "2 \<le> pt_numChannels pt" "int (pt_numChannels pt) \<le> pt_sampleRate pt" "in_int32 (pt_sampleRate pt)"
    "pt_chanBw pt = pt_sampleRate pt div int (pt_numChannels pt)" "length (pt_chanCenters pt) = pt_numChannels pt + 1"
  shows "\<exists>cs. updateChannels pt = Inr (pt\<lparr>pt_chanCenters := cs\<rparr>) \<and> grid_ok (pt\<lparr>pt_chanCenters := cs\<rparr>)"
proof -
  let ?n = "pt_numChannels pt" and ?S = "pt_sampleRate pt" and ?bw = "pt_chanBw pt"
  define h where "h = ?n div 2"
  have n: "?n = 2 * h" "1 \<le> h" using assms(1,2) by (auto simp: h_def)
  have "set [0..<h] \<subseteq> {..<h}" "2 * h \<le> length (pt_chanCenters pt)" using n assms(6) by auto
  from center_loop_sets [OF h_def this(1) distinct_upt this(2)] obtain cs where c:
    "center_loop pt [0..<h] (pt_chanCenters pt) = Inr cs" "length cs = ?n + 1"
    "\<And>i. i < h \<Longrightarrow> cs ! i = pt_frequency pt + wrap32 (?bw * int i)"
    "\<And>i. i < h \<Longrightarrow> cs ! (i + h) = pt_frequency pt - cdiv ?S 2 + wrap32 (?bw * int i)"
    using assms(6) by auto
  have w: "wrap32 (?bw * int i) = ?bw * int i" if "i < h" for i
  proof (rule wrap32_id)
    have "0 \<le> ?bw" using assms(2,3,5) by (simp add: pos_imp_zdiv_nonneg_iff)
    moreover have "?bw * int i \<le> ?bw * int ?n" using that n calculation by (intro mult_left_mono) simp_all
    moreover have "?bw * int ?n \<le> ?S" using assms(2,5) by (simp add: minus_mod_eq_div_mult [symmetric])
    moreover have "0 \<le> ?bw * int i" using calculation(1) by simp
    ultimately show "in_int32 (?bw * int i)" using assms(4) unfolding in_int32_def by linarith
  qed
  have S: "cdiv ?S 2 = ?S div 2" using assms(2,3) by (intro cdiv_nonneg) simp_all
  let ?cs = "cs[?n := pt_frequency pt + ?S div 2]"
  have "updateChannels pt = Inr (pt\<lparr>pt_chanCenters := ?cs\<rparr>)"
    using c(1,2) by (simp add: updateChannels_def set_at_def h_def [symmetric] S)
  moreover have "grid_ok (pt\<lparr>pt_chanCenters := ?cs\<rparr>)"
    using assms(1-3,5) c(2-4) n w S by (simp add: grid_ok_def Let_def h_def [symmetric])
  ultimately show ?thesis by blast
qed

section \<open>The channel of a frequency\<close>

lemma channel_loop_nearest:
  assumes "\<forall>i\<in>set is. i < length cs"
  shows "\<exists>c. channel_loop cs f is m c0 = Inr c \<and>
    (if \<exists>i\<in>set is. \<bar>f - cs ! i\<bar> < m
     then \<exists>i\<in>set is. c = int i \<and> \<bar>f - cs ! i\<bar> < m \<and> (\<forall>j\<in>set is. \<bar>f - cs ! i\<bar> \<le> \<bar>f - cs ! j\<bar>)
     else c = c0)"
  using assms
proof (induction "is" arbitrary: m c0)
  case (Cons k ks)
  show ?case
  proof (cases "\<bar>f - cs ! k\<bar> < m")
    case True
    have step: "channel_loop cs f (k # ks) m c0 = channel_loop cs f ks \<bar>f - cs ! k\<bar> (int k)"
      using True Cons.prems by (simp add: subscript_in)
    obtain c where c: "channel_loop cs f ks \<bar>f - cs ! k\<bar> (int k) = Inr c"
      "if \<exists>i\<in>set ks. \<bar>f - cs ! i\<bar> < \<bar>f - cs ! k\<bar>
       then \<exists>i\<in>set ks. c = int i \<and> \<bar>f - cs ! i\<bar> < \<bar>f - cs ! k\<bar> \<and> (\<forall>j\<in>set ks. \<bar>f - cs ! i\<bar> \<le> \<bar>f - cs ! j\<bar>)
       else c = int k"
      using Cons.IH [of "\<bar>f - cs ! k\<bar>" "int k"] Cons.prems by auto
    show ?thesis
    proof (cases "\<exists>i\<in>set ks. \<bar>f - cs ! i\<bar> < \<bar>f - cs ! k\<bar>")
      case less: True
      then obtain i where i: "i \<in> set ks" "c = int i" "\<bar>f - cs ! i\<bar> < \<bar>f - cs ! k\<bar>" "\<forall>j\<in>set ks. \<bar>f - cs ! i\<bar> \<le> \<bar>f - cs ! j\<bar>"
        using c(2) by auto
      then have "\<bar>f - cs ! i\<bar> < m \<and> (\<forall>j\<in>set (k # ks). \<bar>f - cs ! i\<bar> \<le> \<bar>f - cs ! j\<bar>)" using True by simp
      then show ?thesis using i(1,2) c(1) step True by (intro exI [of _ c]) auto
    next
      case False
      then have "c = int k" "\<forall>j\<in>set (k # ks). \<bar>f - cs ! k\<bar> \<le> \<bar>f - cs ! j\<bar>" using c(2) by auto
      then show ?thesis using c(1) step True by (intro exI [of _ c]) auto
    qed
  next
    case False
    then have step: "channel_loop cs f (k # ks) m c0 = channel_loop cs f ks m c0"
      using Cons.prems by (simp add: subscript_in)
    obtain c where c: "channel_loop cs f ks m c0 = Inr c"
      "if \<exists>i\<in>set ks. \<bar>f - cs ! i\<bar> < m
       then \<exists>i\<in>set ks. c = int i \<and> \<bar>f - cs ! i\<bar> < m \<and> (\<forall>j\<in>set ks. \<bar>f - cs ! i\<bar> \<le> \<bar>f - cs ! j\<bar>)
       else c = c0"
      using Cons.IH [of m c0] Cons.prems by auto
    show ?thesis
    proof (cases "\<exists>i\<in>set ks. \<bar>f - cs ! i\<bar> < m")
      case True
      then obtain i where i: "i \<in> set ks" "c = int i" "\<bar>f - cs ! i\<bar> < m" "\<forall>j\<in>set ks. \<bar>f - cs ! i\<bar> \<le> \<bar>f - cs ! j\<bar>"
        using c(2) by auto
      then have "\<forall>j\<in>set (k # ks). \<bar>f - cs ! i\<bar> \<le> \<bar>f - cs ! j\<bar>" using False by simp
      then show ?thesis using i c(1) step True by (intro exI [of _ c]) auto
    next
      case none: False
      then show ?thesis using c step False by (intro exI [of _ c]) simp
    qed
  qed
qed simp

text \<open>Points \<open>bw\<close> apart, and the end of the line.\<close>

lemma grid_near:
  fixes e bw q :: int
  assumes "0 \<le> e" "e \<le> bw * int h + q" "0 \<le> q" "q < int h" "0 < bw"
  shows "(\<exists>i<h. 2 * \<bar>e - bw * int i\<bar> \<le> bw + int h) \<or> 2 * \<bar>e - (bw * int h + q)\<bar> \<le> bw + int h"
proof -
  obtain k m where e: "e = bw * k + m" and m: "0 \<le> m" "m < bw" and k: "0 \<le> k"
    using assms(1,5) by (intro that [of "e div bw" "e mod bw"]) (simp_all add: pos_imp_zdiv_nonneg_iff)
  define i where "i = nat k"
  have i: "int i = k" using k by (simp add: i_def)
  show ?thesis
  proof (cases "i + 1 < h")
    case True
    have "\<bar>e - bw * int i\<bar> = m" "\<bar>e - bw * int (i + 1)\<bar> = bw - m"
      using e m i by (simp_all add: algebra_simps)
    moreover have "2 * m \<le> bw + int h \<or> 2 * (bw - m) \<le> bw + int h" by (cases "2 * m \<le> bw") simp_all
    ultimately show ?thesis using True by (metis Suc_eq_plus1 Suc_lessD)
  next
    case False
    define x where "x = bw * int (h - 1)"
    have h: "0 < h" using assms(3,4) by simp
    then have x: "bw * int h = x + bw" by (simp add: x_def of_nat_diff algebra_simps)
    have "x \<le> bw * k" unfolding x_def using False i assms(5) by (intro mult_left_mono) simp_all
    then have "\<bar>e - x\<bar> = e - x" "\<bar>e - (bw * int h + q)\<bar> = x + bw + q - e" using e m assms(2) x by simp_all
    moreover have "2 * (e - x) \<le> bw + int h \<or> 2 * (x + bw + q - e) \<le> bw + int h"
      using assms(4) by (cases "2 * (e - x) \<le> bw + int h") simp_all
    ultimately show ?thesis using h unfolding x_def by (metis diff_less zero_less_one)
  qed
qed

lemma window_near_grid:
  assumes "grid_ok pt" "\<bar>f - pt_frequency pt\<bar> \<le> pt_sampleRate pt div 2"
  shows "\<exists>i\<le>pt_numChannels pt. 2 * \<bar>f - pt_chanCenters pt ! i\<bar> \<le> pt_chanBw pt + int (pt_numChannels pt div 2)"
proof -
  let ?n = "pt_numChannels pt" and ?S = "pt_sampleRate pt" and ?bw = "pt_chanBw pt" and ?cs = "pt_chanCenters pt" and ?F = "pt_frequency pt"
  define h where "h = ?n div 2"
  define q where "q = ?S div 2 - ?bw * int h"
  have g: "?n = 2 * h" "1 \<le> h" "int ?n \<le> ?S" "?bw = ?S div int ?n"
    "\<And>i. i < h \<Longrightarrow> ?cs ! i = ?F + ?bw * int i" "\<And>i. i < h \<Longrightarrow> ?cs ! (i + h) = ?F - ?S div 2 + ?bw * int i" "?cs ! ?n = ?F + ?S div 2"
    using assms(1) by (auto simp: grid_ok_def Let_def h_def)
  have "?S = ?bw * int ?n + ?S mod int ?n" by (simp only: g(4) div_mult_mod_eq)
  then obtain r where r: "?S = ?bw * int ?n + r" "0 \<le> r" "r < int ?n"
    using g(1,2) by (intro that [of "?S mod int ?n"]) simp_all
  then have S2: "?S = 2 * (?bw * int h) + r" by (simp add: g(1))
  then have q: "q = r div 2" by (simp add: q_def)
  have q2: "0 \<le> q" "q < int h" using r(2,3) g(1) by (simp_all add: q)
  have bw: "0 < ?bw" using g(1-4) by (simp add: pos_imp_zdiv_pos_iff)
  have S3: "?S div 2 = ?bw * int h + q" by (simp add: q_def)
  show ?thesis
  proof (cases "?F \<le> f")
    case True
    have "0 \<le> f - ?F" "f - ?F \<le> ?bw * int h + q" using True assms(2) S3 by simp_all
    from grid_near [OF this q2 bw] show ?thesis
    proof (elim disjE exE conjE)
      fix i assume i: "i < h" "2 * \<bar>f - ?F - ?bw * int i\<bar> \<le> ?bw + int h"
      then show ?thesis using g(1,5) by (intro exI [of _ i]) (simp add: algebra_simps)
    next
      assume "2 * \<bar>f - ?F - (?bw * int h + q)\<bar> \<le> ?bw + int h"
      then show ?thesis using g(7) S3 g(1) by (intro exI [of _ ?n]) (simp add: algebra_simps)
    qed
  next
    case False
    have "0 \<le> f - ?F + ?S div 2" "f - ?F + ?S div 2 \<le> ?bw * int h + q" using False assms(2) S3 by simp_all
    from grid_near [OF this q2 bw] show ?thesis
    proof (elim disjE exE conjE)
      fix i assume i: "i < h" "2 * \<bar>f - ?F + ?S div 2 - ?bw * int i\<bar> \<le> ?bw + int h"
      have "f - ?cs ! (i + h) = f - ?F + ?S div 2 - ?bw * int i" using g(6) [OF i(1)] by simp
      then have "2 * \<bar>f - ?cs ! (i + h)\<bar> \<le> ?bw + int (?n div 2)" using i(2) by (simp only: h_def)
      then show ?thesis using g(1) i(1) by (intro exI [of _ "i + h"]) simp
    next
      assume "2 * \<bar>f - ?F + ?S div 2 - (?bw * int h + q)\<bar> \<le> ?bw + int h"
      then have "2 * \<bar>f - ?F\<bar> \<le> ?bw + int h" using S3 by simp
      then show ?thesis using g(1,2) g(5) [of 0] by (intro exI [of _ 0]) simp
    qed
  qed
qed

lemma getChannelAt_grid:
  assumes "grid_ok pt" "\<bar>f - pt_frequency pt\<bar> \<le> pt_sampleRate pt div 2"
  shows "\<exists>c. getChannelAt f pt = Inr (int c) \<and> c \<le> pt_numChannels pt \<and>
    2 * \<bar>f - pt_chanCenters pt ! c\<bar> \<le> pt_chanBw pt + int (pt_numChannels pt div 2) \<and>
    (\<forall>j\<le>pt_numChannels pt. \<bar>f - pt_chanCenters pt ! c\<bar> \<le> \<bar>f - pt_chanCenters pt ! j\<bar>)"
proof -
  let ?n = "pt_numChannels pt" and ?S = "pt_sampleRate pt" and ?cs = "pt_chanCenters pt"
  have len: "length ?cs = ?n + 1" and n: "2 \<le> ?n" "int ?n \<le> ?S" and bw: "pt_chanBw pt = ?S div int ?n"
    using assms(1) by (auto simp: grid_ok_def Let_def)
  obtain i where i: "i \<le> ?n" "2 * \<bar>f - ?cs ! i\<bar> \<le> pt_chanBw pt + int (?n div 2)"
    using window_near_grid [OF assms] by blast
  have "?S div int ?n \<le> ?S div 2" using n by (intro zdiv_mono2) simp_all
  moreover have "int (?n div 2) \<le> ?S div 2" using n by simp
  ultimately have "2 * \<bar>f - ?cs ! i\<bar> \<le> ?S div 2 + ?S div 2" using i(2) bw by linarith
  also have "\<dots> < 2 * ?S" using n by linarith
  finally have lt: "\<bar>f - ?cs ! i\<bar> < ?S" by simp
  have "i \<in> set [0..<?n + 1]" using i(1) by auto
  then have ex: "\<exists>i\<in>set [0..<?n + 1]. \<bar>f - ?cs ! i\<bar> < ?S" using lt by blast
  have "\<forall>i\<in>set [0..<?n + 1]. i < length ?cs" using len by auto
  from channel_loop_nearest [OF this, of f ?S "-1"] ex obtain c where c: "getChannelAt f pt = Inr (int c)" "c \<in> set [0..<?n + 1]"
    "\<forall>j\<in>set [0..<?n + 1]. \<bar>f - ?cs ! c\<bar> \<le> \<bar>f - ?cs ! j\<bar>"
    unfolding getChannelAt_def by auto
  then have near: "\<forall>j\<le>?n. \<bar>f - ?cs ! c\<bar> \<le> \<bar>f - ?cs ! j\<bar>" by auto
  then have "2 * \<bar>f - ?cs ! c\<bar> \<le> pt_chanBw pt + int (?n div 2)" using i by (meson order_trans mult_left_mono zero_le_numeral)
  then show ?thesis using c(1,2) near by (intro exI [of _ c]) auto
qed

section \<open>The modems that are run\<close>

lemma update_demod_step:
  assumes "update_demod c q (pt, g) = (pt', g')"
  shows "\<exists>R. pt' = pt\<lparr>pt_runDemods := pt_runDemods pt @ R, pt_demodChannel := pt_demodChannel pt @ replicate (length R) (-1)\<rparr> \<and>
    (R = [] \<or> R = [q]) \<and> dg_demods g' = dg_demods g \<and> length (dg_store g') = length (dg_store g) \<and>
    (\<forall>p. p \<noteq> q \<longrightarrow> dg_store g' ! p = dg_store g ! p) \<and>
    di_deltaLock (dg_store g' ! q) = di_deltaLock (dg_store g ! q) \<and>
    (q < length (dg_store g) \<and> \<not> di_deltaLock (dg_store g ! q) \<longrightarrow>
       di_frequency (dg_store g' ! q) = di_frequency (dg_store g ! q) \<and>
       (\<not> out_of_window pt (di_frequency (dg_store g ! q)) \<longrightarrow> R = [q]))"
proof -
  let ?d = "dg_store g ! q" and ?locked = "c + di_deltaLockOfs (dg_store g ! q)"
  define g1 where "g1 = (if di_deltaLock ?d \<and> di_frequency ?d \<noteq> ?locked
    then on_inst q (\<lambda>d. (inst_setFrequency ?locked d)\<lparr>di_tracking := False\<rparr>) g else g)"
  define d1 where "d1 = dg_store g1 ! q"
  define g2 where "g2 = (if out_of_window pt (di_frequency d1) then
      (if getCurrentModem g1 = Some q then on_inst q (inst_setActive False) g1
       else if di_active d1 \<and> \<not> di_tracking d1 then on_inst q (inst_setActive False) g1 else g1)
    else if \<not> di_active d1 then
      (let g' = on_inst q (inst_setActive True) g1
       in if getCurrentModem g' = None then setActiveDemodulator (Some q) True g' else g')
    else g1)"
  define R where "R = (if di_active (dg_store g2 ! q) then [q] else [])"
  have e: "g' = g2" "pt' = pt\<lparr>pt_runDemods := pt_runDemods pt @ R, pt_demodChannel := pt_demodChannel pt @ replicate (length R) (-1)\<rparr>"
  proof -
    have "update_demod c q (pt, g) = (if di_active (dg_store g2 ! q)
        then (pt\<lparr>pt_runDemods := pt_runDemods pt @ [q], pt_demodChannel := pt_demodChannel pt @ [-1]\<rparr>, g2) else (pt, g2))"
      by (simp only: update_demod_def prod.case Let_def g1_def d1_def g2_def)
    then have "(pt', g') = (if di_active (dg_store g2 ! q)
        then (pt\<lparr>pt_runDemods := pt_runDemods pt @ [q], pt_demodChannel := pt_demodChannel pt @ [-1]\<rparr>, g2) else (pt, g2))"
      unfolding assms .
    note x = this
    show "g' = g2" using x by (cases "di_active (dg_store g2 ! q)") simp_all
    show "pt' = pt\<lparr>pt_runDemods := pt_runDemods pt @ R, pt_demodChannel := pt_demodChannel pt @ replicate (length R) (-1)\<rparr>"
      using x by (cases "di_active (dg_store g2 ! q)") (simp_all add: R_def)
  qed
  have s1: "dg_demods g1 = dg_demods g" "length (dg_store g1) = length (dg_store g)" "\<And>p. p \<noteq> q \<Longrightarrow> dg_store g1 ! p = dg_store g ! p"
    "\<not> di_deltaLock ?d \<Longrightarrow> d1 = ?d"
    by (simp_all add: g1_def d1_def on_inst_def)
  have s1l: "di_deltaLock d1 = di_deltaLock ?d"
    by (cases "q < length (dg_store g)") (simp_all add: g1_def d1_def on_inst_def inst_setFrequency_def not_less list_update_beyond)
  have s2: "dg_demods g2 = dg_demods g1" "length (dg_store g2) = length (dg_store g1)" "\<And>p. p \<noteq> q \<Longrightarrow> dg_store g2 ! p = dg_store g1 ! p"
    by (simp_all add: g2_def on_inst_def setActiveDemodulator_def Let_def)
  have s2l: "di_deltaLock (dg_store g2 ! q) = di_deltaLock d1"
    by (cases "q < length (dg_store g1)") (simp_all add: g2_def d1_def on_inst_def inst_setActive_def setActiveDemodulator_def Let_def not_less list_update_beyond)
  have s2f: "di_frequency (dg_store g2 ! q) = di_frequency d1"
    by (cases "q < length (dg_store g1)") (simp_all add: g2_def d1_def on_inst_def inst_setActive_def setActiveDemodulator_def Let_def not_less list_update_beyond)
  have act: "di_active (dg_store g2 ! q)" if "q < length (dg_store g)" "\<not> out_of_window pt (di_frequency d1)"
    using that s1(2) by (simp add: g2_def d1_def on_inst_def inst_setActive_def setActiveDemodulator_def Let_def)
  have d: "dg_demods g' = dg_demods g" "length (dg_store g') = length (dg_store g)"
    "\<forall>p. p \<noteq> q \<longrightarrow> dg_store g' ! p = dg_store g ! p" "di_deltaLock (dg_store g' ! q) = di_deltaLock ?d"
    using s1(1-3) s1l s2 s2l by (simp_all add: e(1))
  have f: "q < length (dg_store g) \<and> \<not> di_deltaLock ?d \<longrightarrow>
       di_frequency (dg_store g' ! q) = di_frequency ?d \<and> (\<not> out_of_window pt (di_frequency ?d) \<longrightarrow> R = [q])"
    using s1(4) s2f act by (simp add: e(1) R_def)
  have R: "R = [] \<or> R = [q]" by (simp add: R_def)
  show ?thesis by (rule exI [of _ R]) (intro conjI e(2) R d f)
qed

lemma update_demods_fold:
  assumes "fold (update_demod c) ps (pt, g) = (pt', g')" "distinct ps"
  shows "\<exists>R. pt' = pt\<lparr>pt_runDemods := pt_runDemods pt @ R, pt_demodChannel := pt_demodChannel pt @ replicate (length R) (-1)\<rparr> \<and>
    set R \<subseteq> set ps \<and> distinct R \<and> dg_demods g' = dg_demods g \<and> length (dg_store g') = length (dg_store g) \<and>
    (\<forall>p. p \<notin> set ps \<longrightarrow> dg_store g' ! p = dg_store g ! p) \<and>
    (\<forall>p\<in>set ps. p < length (dg_store g) \<and> \<not> di_deltaLock (dg_store g ! p) \<longrightarrow>
       di_frequency (dg_store g' ! p) = di_frequency (dg_store g ! p) \<and>
       (\<not> out_of_window pt (di_frequency (dg_store g ! p)) \<longrightarrow> p \<in> set R))"
  using assms
proof (induction ps arbitrary: pt g)
  case (Cons q ps)
  obtain pt1 g1 where u: "update_demod c q (pt, g) = (pt1, g1)" by fastforce
  from update_demod_step [OF u] obtain Q where q:
    "pt1 = pt\<lparr>pt_runDemods := pt_runDemods pt @ Q, pt_demodChannel := pt_demodChannel pt @ replicate (length Q) (-1)\<rparr>"
    "Q = [] \<or> Q = [q]" "dg_demods g1 = dg_demods g" "length (dg_store g1) = length (dg_store g)"
    "\<And>p. p \<noteq> q \<Longrightarrow> dg_store g1 ! p = dg_store g ! p"
    "q < length (dg_store g) \<and> \<not> di_deltaLock (dg_store g ! q) \<longrightarrow>
       di_frequency (dg_store g1 ! q) = di_frequency (dg_store g ! q) \<and>
       (\<not> out_of_window pt (di_frequency (dg_store g ! q)) \<longrightarrow> Q = [q])" by blast
  have "fold (update_demod c) ps (pt1, g1) = (pt', g')" "distinct ps" using Cons.prems u by simp_all
  from Cons.IH [OF this] obtain R where r:
    "pt' = pt1\<lparr>pt_runDemods := pt_runDemods pt1 @ R, pt_demodChannel := pt_demodChannel pt1 @ replicate (length R) (-1)\<rparr>"
    "set R \<subseteq> set ps" "distinct R" "dg_demods g' = dg_demods g1" "length (dg_store g') = length (dg_store g1)"
    "\<And>p. p \<notin> set ps \<Longrightarrow> dg_store g' ! p = dg_store g1 ! p"
    "\<And>p. p \<in> set ps \<Longrightarrow> p < length (dg_store g1) \<and> \<not> di_deltaLock (dg_store g1 ! p) \<Longrightarrow>
       di_frequency (dg_store g' ! p) = di_frequency (dg_store g1 ! p) \<and>
       (\<not> out_of_window pt1 (di_frequency (dg_store g1 ! p)) \<longrightarrow> p \<in> set R)" by blast
  have nq: "q \<notin> set ps" using Cons.prems(2) by simp
  have w: "out_of_window pt1 f = out_of_window pt f" for f by (simp add: q(1) out_of_window_def)
  have "pt' = pt\<lparr>pt_runDemods := pt_runDemods pt @ Q @ R, pt_demodChannel := pt_demodChannel pt @ replicate (length (Q @ R)) (-1)\<rparr>"
    by (simp add: r(1) q(1) replicate_add)
  moreover have "set (Q @ R) \<subseteq> set (q # ps)" "distinct (Q @ R)" using q(2) r(2,3) nq by auto
  moreover have "dg_store g' ! p = dg_store g ! p" if "p \<notin> set (q # ps)" for p using that r(6) q(5) by simp
  moreover have "di_frequency (dg_store g' ! p) = di_frequency (dg_store g ! p) \<and>
      (\<not> out_of_window pt (di_frequency (dg_store g ! p)) \<longrightarrow> p \<in> set (Q @ R))"
    if "p \<in> set (q # ps)" "p < length (dg_store g)" "\<not> di_deltaLock (dg_store g ! p)" for p
  proof (cases "p = q")
    case True
    then show ?thesis using q(6) r(6) [OF nq] that by auto
  next
    case False
    then show ?thesis using r(7) [of p] q(4,5) that w by simp
  qed
  ultimately show ?case using r(4,5) q(3,4) by (intro exI [of _ "Q @ R"]) simp
qed simp

lemma updateActive:
  assumes "updateActiveDemodulators c (pt, g) = (pt', g')" "distinct (dg_demods g)"
  shows "\<exists>R. pt' = pt\<lparr>pt_runDemods := R, pt_demodChannel := replicate (length R) (-1)\<rparr> \<and>
    set R \<subseteq> set (dg_demods g) \<and> distinct R \<and> dg_demods g' = dg_demods g \<and> length (dg_store g') = length (dg_store g) \<and>
    (\<forall>p\<in>set (dg_demods g). p < length (dg_store g) \<and> \<not> di_deltaLock (dg_store g ! p) \<longrightarrow>
       di_frequency (dg_store g' ! p) = di_frequency (dg_store g ! p) \<and>
       (\<not> out_of_window pt (di_frequency (dg_store g ! p)) \<longrightarrow> p \<in> set R))"
proof -
  have "fold (update_demod c) (dg_demods g) (pt\<lparr>pt_runDemods := [], pt_demodChannel := []\<rparr>, g) = (pt', g')"
    using assms(1) by (simp add: updateActiveDemodulators_def)
  from update_demods_fold [OF this assms(2)] show ?thesis by (auto simp: out_of_window_def)
qed

section \<open>Splitting a batch\<close>

definition bank_ok :: "'f post_filters \<Rightarrow> bool" where
  "bank_ok F \<longleftrightarrow> (\<forall>st xs. length (snd (fi_bank F st xs)) = length xs)"

lemma analyze_total:
  assumes "bank_ok F" "0 < n" "n dvd length xs"
  shows "\<exists>st' ys. analyze (fi_bank F) n st xs = Inr (st', ys) \<and> length ys = length xs"
  using assms(3)
proof (induction "length xs" arbitrary: xs st rule: less_induct)
  case less
  show ?case
  proof (cases "xs = []")
    case False
    then have n: "n \<le> length xs" using less.prems by (simp add: dvd_imp_le)
    obtain st1 ys where b: "fi_bank F st (take n xs) = (st1, ys)" by fastforce
    have "length ys = n" using assms(1) n b unfolding bank_ok_def by (metis length_take min.absorb2 snd_conv)
    moreover have "length (drop n xs) < length xs" using assms(2) n by simp
    from less.hyps [OF this, of st1] obtain st2 zs where "analyze (fi_bank F) n st1 (drop n xs) = Inr (st2, zs)"
      "length zs = length (drop n xs)" using less.prems by auto
    ultimately show ?thesis using False n assms(2) b by (simp add: analyze.simps [of _ n st xs])
  qed (simp add: analyze.simps)
qed

lemma analyze_overruns: "0 < n \<Longrightarrow> \<not> n dvd length xs \<Longrightarrow> analyze bank n st xs = Inl Out_Of_Bounds"
proof (induction "length xs" arbitrary: xs st rule: less_induct)
  case less
  then have ne: "xs \<noteq> []" by auto
  show ?case
  proof (cases "length xs < n")
    case True
    with ne show ?thesis by (simp add: analyze.simps [of _ n st xs])
  next
    case False
    have "\<not> n dvd length (drop n xs)" using less.prems(2) False by (simp add: dvd_minus_self)
    moreover have "length (drop n xs) < length xs" using False less.prems(1) by simp
    ultimately have "analyze bank n s (drop n xs) = Inl Out_Of_Bounds" for s using less.hyps less.prems(1) by blast
    then show ?thesis using ne False less.prems(1) by (simp add: analyze.simps [of _ n st xs] split: prod.splits)
  qed
qed

lemma deinterlace_total: "k = 0 \<or> idx + (k - 1) * n < length xs \<Longrightarrow> \<exists>ys. deinterlace xs n idx k = Inr ys \<and> length ys = k"
proof (induction k arbitrary: idx)
  case (Suc k)
  then have i: "idx < length xs" by simp
  have "k = 0 \<or> idx + n + (k - 1) * n < length xs" using Suc.prems by (cases k) (simp_all add: algebra_simps)
  from Suc.IH [OF this] show ?case using i by (auto simp: subscript_in)
qed simp

lemma nearest_channels_total:
  assumes "length (pt_chanCenters pt) = pt_numChannels pt + 1"
  shows "\<exists>cs. nearest_channels g pt ps = Inr cs \<and> length cs = length ps \<and> (\<forall>c\<in>set cs. c \<le> int (pt_numChannels pt)) \<and>
    (\<forall>k<length ps. getChannelAt (di_frequency (dg_store g ! (ps ! k))) pt = Inr (cs ! k))"
proof (induction ps)
  case (Cons p ps)
  have "\<forall>i\<in>set [0..<pt_numChannels pt + 1]. i < length (pt_chanCenters pt)" using assms by auto
  from channel_loop_nearest [OF this] obtain c where c: "getChannelAt (di_frequency (dg_store g ! p)) pt = Inr c"
    "c \<le> int (pt_numChannels pt)"
    unfolding getChannelAt_def by (metis (no_types, lifting) atLeastLessThan_iff le_iff_add less_Suc_eq_le Suc_eq_plus1
      of_nat_le_iff of_nat_0_le_iff order_trans set_upt uminus_int_code(1) neg_0_le_iff_le zero_le_one minus_le_iff)
  obtain cs where "nearest_channels g pt ps = Inr cs" "length cs = length ps" "\<forall>c\<in>set cs. c \<le> int (pt_numChannels pt)"
    "\<forall>k<length ps. getChannelAt (di_frequency (dg_store g ! (ps ! k))) pt = Inr (cs ! k)" using Cons.IH by blast
  then show ?case using c by (intro exI [of _ "c # cs"]) (auto simp: nth_Cons split: nat.splits)
qed simp

lemma count_channels_total:
  "\<forall>c\<in>set cs. c < int (length act) \<Longrightarrow>
   \<exists>act'. count_channels cs act = Inr act' \<and> length act' = length act \<and>
     (\<forall>k<length act. act ! k \<le> act' ! k \<and> (int k \<in> set cs \<longrightarrow> 0 < act' ! k))"
proof (induction cs arbitrary: act)
  case (Cons c cs)
  show ?case
  proof (cases "c \<ge> 0")
    case True
    then have c: "nat c < length act" using Cons.prems by auto
    let ?act = "act[nat c := act ! nat c + 1]"
    obtain act' where a: "count_channels cs ?act = Inr act'" "length act' = length act"
      "\<forall>k<length act. ?act ! k \<le> act' ! k \<and> (int k \<in> set cs \<longrightarrow> 0 < act' ! k)"
      using Cons.IH [of ?act] Cons.prems by auto
    have "act ! k \<le> act' ! k \<and> (int k \<in> set (c # cs) \<longrightarrow> 0 < act' ! k)" if k: "k < length act" for k
      using a(3) [rule_format, OF k] k by (cases "k = nat c") (auto simp: nth_list_update)
    then show ?thesis using True c a(1,2) by (intro exI [of _ act']) (simp add: subscript_in)
  next
    case False
    then obtain act' where "count_channels cs act = Inr act'" "length act' = length act"
      "\<forall>k<length act. act ! k \<le> act' ! k \<and> (int k \<in> set cs \<longrightarrow> 0 < act' ! k)"
      using Cons.IH [of act] Cons.prems by auto
    then show ?thesis using False by (intro exI [of _ act']) auto
  qed
qed auto

lemma length_push_pipes: "length (fold (push_pipe b) xs ps) = length ps"
  by (induction xs arbitrary: ps) (simp_all add: push_pipe_def)

lemma fold_push_pipe:
  "distinct xs \<Longrightarrow> p < length ps \<Longrightarrow>
   length (fold (push_pipe b) xs ps) = length ps \<and>
   fold (push_pipe b) xs ps ! p = (if p \<in> set xs then snd (bq_try_push b (ps ! p)) else ps ! p)"
proof (induction xs arbitrary: ps)
  case (Cons x xs)
  then show ?case by (cases "x = p") (auto simp: push_pipe_def nth_list_update)
qed simp

lemma run_channel_step:
  assumes "length (pt_chanCenters pt) = pt_numChannels pt + 1" "length (pt_demodChannelActive pt) = pt_numChannels pt + 1"
    "1 < pt_numChannels pt" "i \<le> pt_numChannels pt" "distinct (pt_runDemods pt)" "length (pt_demodChannel pt) = length (pt_runDemods pt)"
  shows "\<exists>dc ps'. run_channel F g bw i (pt, ps) = Inr (pt\<lparr>pt_dc := dc\<rparr>, ps') \<and> length ps' = length ps \<and>
    (\<forall>k<length (pt_runDemods pt). pt_runDemods pt ! k < length ps \<longrightarrow>
       (pt_demodChannel pt ! k \<noteq> int i \<longrightarrow> ps' ! (pt_runDemods pt ! k) = ps ! (pt_runDemods pt ! k)) \<and>
       (pt_demodChannel pt ! k = int i \<and> 0 < pt_demodChannelActive pt ! i \<longrightarrow>
          (\<exists>xs. ps' ! (pt_runDemods pt ! k) = snd (bq_try_push
             \<lparr>iq_frequency = pt_chanCenters pt ! i, iq_sampleRate = bw, iq_data = xs\<rparr> (ps ! (pt_runDemods pt ! k))))))"
proof (cases "active_channel g (pt_runDemods pt) (pt_demodChannel pt) \<noteq> int i \<and> pt_demodChannelActive pt ! i = 0")
  case True
  have "pt = pt\<lparr>pt_dc := pt_dc pt\<rparr>" by simp
  then show ?thesis
    using True assms(2,4) by (intro exI [of _ "pt_dc pt"] exI [of _ ps]) (simp add: run_channel_def subscript_in Let_def)
next
  case False
  let ?n = "pt_numChannels pt"
  let ?size = "length (pt_dataOut pt) div ?n" and ?idx = "if i = ?n then ?n div 2 else i"
  let ?zip = "zip (pt_runDemods pt) (pt_demodChannel pt)"
  have "?idx < ?n" using assms(3,4) by auto
  have "?idx + (?size - 1) * ?n < length (pt_dataOut pt)" if "?size \<noteq> 0"
  proof -
    have "?idx + (?size - 1) * ?n < ?n + (?size - 1) * ?n" using \<open>?idx < ?n\<close> by simp
    also have "\<dots> = ?size * ?n" using that by (metis Suc_diff_1 gr0I mult_Suc)
    also have "\<dots> \<le> length (pt_dataOut pt)" by simp
    finally show ?thesis .
  qed
  then have "?size = 0 \<or> ?idx + (?size - 1) * ?n < length (pt_dataOut pt)" by blast
  from deinterlace_total [OF this] obtain raw where raw: "deinterlace (pt_dataOut pt) ?n ?idx ?size = Inr raw" by blast
  obtain dc xs where dc: "(if i = 0 then fi_dc F (pt_dc pt) raw else (pt_dc pt, raw)) = (dc, xs)" by fastforce
  let ?b = "\<lparr>iq_frequency = pt_chanCenters pt ! i, iq_sampleRate = bw, iq_data = xs\<rparr>"
  let ?to = "map fst (filter (\<lambda>(p, c). c = int i) ?zip)"
  have run: "run_channel F g bw i (pt, ps) = Inr (pt\<lparr>pt_dc := dc\<rparr>, fold (push_pipe ?b) ?to ps)"
  proof -
    have "subscript (pt_demodChannelActive pt) i = Inr (pt_demodChannelActive pt ! i)"
      "subscript (pt_chanCenters pt) i = Inr (pt_chanCenters pt ! i)" using assms(1,2,4) by simp_all
    then show ?thesis by (simp only: run_channel_def prod.case Let_def bind_result_simps raw dc False if_False)
  qed
  have "distinct (map fst ?zip)" using assms(5,6) by simp
  then have d: "distinct ?to" by (rule distinct_map_filter)
  have mem: "pt_runDemods pt ! k \<in> set ?to \<longleftrightarrow> pt_demodChannel pt ! k = int i" if k: "k < length (pt_runDemods pt)" for k
  proof
    assume "pt_runDemods pt ! k \<in> set ?to"
    then obtain j where "j < length (pt_runDemods pt)" "pt_runDemods pt ! j = pt_runDemods pt ! k" "pt_demodChannel pt ! j = int i"
      using assms(6) by (auto simp: set_zip)
    then show "pt_demodChannel pt ! k = int i" using assms(5) k nth_eq_iff_index_eq by blast
  next
    assume "pt_demodChannel pt ! k = int i"
    then have "(pt_runDemods pt ! k, int i) \<in> set ?zip" using k assms(6) by (auto simp: set_zip)
    then show "pt_runDemods pt ! k \<in> set ?to" by force
  qed
  have len: "length (fold (push_pipe ?b) ?to ps) = length ps"
    by (rule length_push_pipes)
  show ?thesis
  proof (rule exI [of _ dc], rule exI [of _ "fold (push_pipe ?b) ?to ps"], intro conjI run len allI impI)
    fix k assume k: "k < length (pt_runDemods pt)" "pt_runDemods pt ! k < length ps"
    note f = fold_push_pipe [OF d k(2), of ?b]
    { assume "pt_demodChannel pt ! k \<noteq> int i"
      then show "fold (push_pipe ?b) ?to ps ! (pt_runDemods pt ! k) = ps ! (pt_runDemods pt ! k)" using f mem [OF k(1)] by simp }
    { assume "pt_demodChannel pt ! k = int i \<and> 0 < pt_demodChannelActive pt ! i"
      then show "\<exists>xs. fold (push_pipe ?b) ?to ps ! (pt_runDemods pt ! k) = snd (bq_try_push
             \<lparr>iq_frequency = pt_chanCenters pt ! i, iq_sampleRate = bw, iq_data = xs\<rparr> (ps ! (pt_runDemods pt ! k)))"
        using f mem [OF k(1)] by auto }
  qed
qed

lemma run_channels_deliver:
  assumes "length (pt_chanCenters pt) = pt_numChannels pt + 1" "length (pt_demodChannelActive pt) = pt_numChannels pt + 1"
    "1 < pt_numChannels pt" "\<forall>i\<in>set is. i \<le> pt_numChannels pt" "distinct is" "distinct (pt_runDemods pt)"
    "length (pt_demodChannel pt) = length (pt_runDemods pt)"
  shows "\<exists>dc ps'. run_channels F g bw is (pt, ps) = Inr (pt\<lparr>pt_dc := dc\<rparr>, ps') \<and> length ps' = length ps \<and>
    (\<forall>k<length (pt_runDemods pt). pt_runDemods pt ! k < length ps \<longrightarrow>
       (pt_demodChannel pt ! k \<notin> int ` set is \<longrightarrow> ps' ! (pt_runDemods pt ! k) = ps ! (pt_runDemods pt ! k)) \<and>
       (\<forall>c\<in>set is. pt_demodChannel pt ! k = int c \<and> 0 < pt_demodChannelActive pt ! c \<longrightarrow>
          (\<exists>xs. ps' ! (pt_runDemods pt ! k) = snd (bq_try_push
             \<lparr>iq_frequency = pt_chanCenters pt ! c, iq_sampleRate = bw, iq_data = xs\<rparr> (ps ! (pt_runDemods pt ! k))))))"
  using assms
proof (induction "is" arbitrary: pt ps)
  case Nil
  have "pt = pt\<lparr>pt_dc := pt_dc pt\<rparr>" by simp
  then show ?case by (intro exI [of _ "pt_dc pt"] exI [of _ ps]) simp
next
  case (Cons i "is")
  have "i \<le> pt_numChannels pt" "i \<notin> set is" using Cons.prems(4,5) by simp_all
  from run_channel_step [OF Cons.prems(1-3) this(1) Cons.prems(6,7), of F g bw ps] obtain dc ps1 where s:
    "run_channel F g bw i (pt, ps) = Inr (pt\<lparr>pt_dc := dc\<rparr>, ps1)" "length ps1 = length ps"
    "\<forall>k<length (pt_runDemods pt). pt_runDemods pt ! k < length ps \<longrightarrow>
       (pt_demodChannel pt ! k \<noteq> int i \<longrightarrow> ps1 ! (pt_runDemods pt ! k) = ps ! (pt_runDemods pt ! k)) \<and>
       (pt_demodChannel pt ! k = int i \<and> 0 < pt_demodChannelActive pt ! i \<longrightarrow>
          (\<exists>xs. ps1 ! (pt_runDemods pt ! k) = snd (bq_try_push
             \<lparr>iq_frequency = pt_chanCenters pt ! i, iq_sampleRate = bw, iq_data = xs\<rparr> (ps ! (pt_runDemods pt ! k)))))" by blast
  have "\<exists>dc' ps'. run_channels F g bw is (pt\<lparr>pt_dc := dc\<rparr>, ps1) = Inr (pt\<lparr>pt_dc := dc'\<rparr>, ps') \<and> length ps' = length ps1 \<and>
    (\<forall>k<length (pt_runDemods pt). pt_runDemods pt ! k < length ps1 \<longrightarrow>
       (pt_demodChannel pt ! k \<notin> int ` set is \<longrightarrow> ps' ! (pt_runDemods pt ! k) = ps1 ! (pt_runDemods pt ! k)) \<and>
       (\<forall>c\<in>set is. pt_demodChannel pt ! k = int c \<and> 0 < pt_demodChannelActive pt ! c \<longrightarrow>
          (\<exists>xs. ps' ! (pt_runDemods pt ! k) = snd (bq_try_push
             \<lparr>iq_frequency = pt_chanCenters pt ! c, iq_sampleRate = bw, iq_data = xs\<rparr> (ps1 ! (pt_runDemods pt ! k))))))"
    using Cons.IH [of "pt\<lparr>pt_dc := dc\<rparr>" ps1] Cons.prems by simp
  then obtain dc' ps' where n:
    "run_channels F g bw is (pt\<lparr>pt_dc := dc\<rparr>, ps1) = Inr (pt\<lparr>pt_dc := dc'\<rparr>, ps')" "length ps' = length ps1"
    "\<forall>k<length (pt_runDemods pt). pt_runDemods pt ! k < length ps1 \<longrightarrow>
       (pt_demodChannel pt ! k \<notin> int ` set is \<longrightarrow> ps' ! (pt_runDemods pt ! k) = ps1 ! (pt_runDemods pt ! k)) \<and>
       (\<forall>c\<in>set is. pt_demodChannel pt ! k = int c \<and> 0 < pt_demodChannelActive pt ! c \<longrightarrow>
          (\<exists>xs. ps' ! (pt_runDemods pt ! k) = snd (bq_try_push
             \<lparr>iq_frequency = pt_chanCenters pt ! c, iq_sampleRate = bw, iq_data = xs\<rparr> (ps1 ! (pt_runDemods pt ! k)))))" by blast
  have "run_channels F g bw (i # is) (pt, ps) = Inr (pt\<lparr>pt_dc := dc'\<rparr>, ps')" using s(1) n(1) by simp
  moreover have "(pt_demodChannel pt ! k \<notin> int ` set (i # is) \<longrightarrow> ps' ! (pt_runDemods pt ! k) = ps ! (pt_runDemods pt ! k)) \<and>
       (\<forall>c\<in>set (i # is). pt_demodChannel pt ! k = int c \<and> 0 < pt_demodChannelActive pt ! c \<longrightarrow>
          (\<exists>xs. ps' ! (pt_runDemods pt ! k) = snd (bq_try_push
             \<lparr>iq_frequency = pt_chanCenters pt ! c, iq_sampleRate = bw, iq_data = xs\<rparr> (ps ! (pt_runDemods pt ! k)))))"
    if k: "k < length (pt_runDemods pt)" "pt_runDemods pt ! k < length ps" for k
  proof (cases "pt_demodChannel pt ! k = int i")
    case True
    then have "pt_demodChannel pt ! k \<notin> int ` set is" using \<open>i \<notin> set is\<close> by auto
    then have "ps' ! (pt_runDemods pt ! k) = ps1 ! (pt_runDemods pt ! k)" using n(3) k s(2) by simp
    then show ?thesis using s(3) k True by auto
  next
    case False
    then have "ps1 ! (pt_runDemods pt ! k) = ps ! (pt_runDemods pt ! k)" using s(3) k by simp
    then show ?thesis using n(3) [rule_format, OF k(1)] k(2) s(2) False by simp
  qed
  ultimately show ?case using n(2) s(2) by (intro exI [of _ dc'] exI [of _ ps']) simp
qed

lemma runDemodChannels_deliver:
  assumes "length (pt_chanCenters pt) = pt_numChannels pt + 1" "length (pt_demodChannelActive pt) = pt_numChannels pt + 1"
    "1 < pt_numChannels pt" "distinct (pt_runDemods pt)"
  shows "\<exists>act chans dc ps'. runDemodChannels F g bw pt ps =
      Inr (pt\<lparr>pt_demodChannel := chans, pt_demodChannelActive := act, pt_dc := dc\<rparr>, ps') \<and>
    length act = pt_numChannels pt + 1 \<and> length ps' = length ps \<and>
    (\<forall>p\<in>set (pt_runDemods pt). \<forall>c. p < length ps \<and> c \<le> pt_numChannels pt \<and> getChannelAt (di_frequency (dg_store g ! p)) pt = Inr (int c) \<longrightarrow>
       (\<exists>xs. ps' ! p = snd (bq_try_push \<lparr>iq_frequency = pt_chanCenters pt ! c, iq_sampleRate = bw, iq_data = xs\<rparr> (ps ! p))))"
proof -
  let ?n = "pt_numChannels pt"
  from nearest_channels_total [OF assms(1), of g "pt_runDemods pt"] obtain chans where c:
    "nearest_channels g pt (pt_runDemods pt) = Inr chans" "length chans = length (pt_runDemods pt)" "\<forall>c\<in>set chans. c \<le> int ?n"
    "\<forall>k<length (pt_runDemods pt). getChannelAt (di_frequency (dg_store g ! (pt_runDemods pt ! k))) pt = Inr (chans ! k)" by blast
  define act0 where "act0 = replicate (?n + 1) (0::nat) @ drop (?n + 1) (pt_demodChannelActive pt)"
  have r: "reset_active (?n + 1) (pt_demodChannelActive pt) = Inr act0" using assms(2) by (simp add: reset_active_def act0_def)
  have l0: "length act0 = ?n + 1" using assms(2) by (simp add: act0_def)
  then have "\<forall>c\<in>set chans. c < int (length act0)" using c(3) by auto
  from count_channels_total [OF this] obtain act where a: "count_channels chans act0 = Inr act" "length act = ?n + 1"
    "\<forall>k<?n + 1. int k \<in> set chans \<longrightarrow> 0 < act ! k" using l0 by auto
  let ?pt = "pt\<lparr>pt_demodChannel := chans, pt_demodChannelActive := act\<rparr>"
  have "\<forall>i\<in>set [0..<?n + 1]. i \<le> pt_numChannels ?pt" by auto
  moreover have "length (pt_chanCenters ?pt) = pt_numChannels ?pt + 1" "length (pt_demodChannelActive ?pt) = pt_numChannels ?pt + 1"
    "1 < pt_numChannels ?pt" "distinct (pt_runDemods ?pt)" "length (pt_demodChannel ?pt) = length (pt_runDemods ?pt)"
    using assms a(2) c(2) by simp_all
  ultimately obtain dc ps' where d: "run_channels F g bw [0..<?n + 1] (?pt, ps) = Inr (?pt\<lparr>pt_dc := dc\<rparr>, ps')" "length ps' = length ps"
    and d3: "\<forall>k<length (pt_runDemods ?pt). pt_runDemods ?pt ! k < length ps \<longrightarrow>
       (\<forall>c\<in>set [0..<?n + 1]. pt_demodChannel ?pt ! k = int c \<and> 0 < pt_demodChannelActive ?pt ! c \<longrightarrow>
          (\<exists>xs. ps' ! (pt_runDemods ?pt ! k) = snd (bq_try_push
             \<lparr>iq_frequency = pt_chanCenters ?pt ! c, iq_sampleRate = bw, iq_data = xs\<rparr> (ps ! (pt_runDemods ?pt ! k)))))"
    using run_channels_deliver [of ?pt "[0..<?n + 1]" F g bw ps, OF _ _ _ _ distinct_upt] by blast
  have "runDemodChannels F g bw pt ps = Inr (?pt\<lparr>pt_dc := dc\<rparr>, ps')"
    unfolding runDemodChannels_def by (simp only: r c(1) a(1) d(1) bind_result_simps)
  moreover have "\<exists>xs. ps' ! p = snd (bq_try_push \<lparr>iq_frequency = pt_chanCenters pt ! c', iq_sampleRate = bw, iq_data = xs\<rparr> (ps ! p))"
    if p: "p \<in> set (pt_runDemods pt)" "p < length ps" "c' \<le> ?n" "getChannelAt (di_frequency (dg_store g ! p)) pt = Inr (int c')" for p c'
  proof -
    obtain k where k: "k < length (pt_runDemods pt)" "p = pt_runDemods pt ! k" using p(1) by (auto simp: in_set_conv_nth)
    then have ch: "chans ! k = int c'" using c(4) p(4) by simp
    then have "int c' \<in> set chans" using k(1) c(2) by (metis nth_mem)
    then have "0 < act ! c'" using a(3) p(3) by simp
    have "c' \<in> set [0..<?n + 1]" using p(3) by auto
    moreover have "k < length (pt_runDemods ?pt)" "pt_runDemods ?pt ! k < length ps" "pt_demodChannel ?pt ! k = int c'"
      "0 < pt_demodChannelActive ?pt ! c'" using k p(2) ch \<open>0 < act ! c'\<close> by simp_all
    ultimately have "\<exists>xs. ps' ! (pt_runDemods ?pt ! k) = snd (bq_try_push
        \<lparr>iq_frequency = pt_chanCenters ?pt ! c', iq_sampleRate = bw, iq_data = xs\<rparr> (ps ! (pt_runDemods ?pt ! k)))"
      using d3 by blast
    then show ?thesis using k(2) by simp
  qed
  ultimately show ?thesis using a(2) d(2) by (intro exI [of _ act] exI [of _ chans] exI [of _ dc] exI [of _ ps']) simp
qed

section \<open>What holds between two batches\<close>

definition post_ok :: "'f post_thread \<Rightarrow> bool" where
  "post_ok pt \<longleftrightarrow>
     (pt_sampleRate pt \<noteq> 0 \<longrightarrow> in_int32 (pt_sampleRate pt) \<and> 0 < pt_sampleRate pt \<and>
        pt_numChannels pt = nat (getOptimalChannelCount (pt_sampleRate pt))) \<and>
     (1 < pt_numChannels pt \<and> pt_lastChanMode pt = 1 \<longrightarrow> grid_ok pt \<and> length (pt_demodChannelActive pt) = pt_numChannels pt + 1) \<and>
     distinct (pt_runDemods pt)"

text \<open>A batch as \<open>readStream\<close> makes it when the device delivers.\<close>

definition batch_ok :: "sdr_data \<Rightarrow> bool" where
  "batch_ok b \<longleftrightarrow> in_int32 (sx_sampleRate b) \<and> 0 < sx_sampleRate b \<and>
     sx_numChannels b = nat (getOptimalChannelCount (sx_sampleRate b)) \<and> sx_numChannels b dvd length (sx_data b)"

lemma optimal_count:
  assumes "1 < nat (getOptimalChannelCount S)" "0 < S"
  shows "even (nat (getOptimalChannelCount S)) \<and> int (nat (getOptimalChannelCount S)) \<le> S"
proof -
  let ?c = "ceil_div S CHANNELIZER_RATE_MAX"
  have S: "500000 < S" using assms(1) by (simp add: getOptimalChannelCount_def CHANNELIZER_RATE_MAX_def split: if_splits)
  have "getOptimalChannelCount S = (let c1 = if ?c mod 2 = 1 then ?c - 1 else ?c in if c1 < 2 then 2 else c1)"
    using S by (simp add: getOptimalChannelCount_def CHANNELIZER_RATE_MAX_def)
  moreover have "?c \<le> S" using S by (simp add: ceil_div_code CHANNELIZER_RATE_MAX_def)
  moreover have "even (if ?c mod 2 = 1 then ?c - 1 else ?c)" by presburger
  ultimately have "even (getOptimalChannelCount S)" "getOptimalChannelCount S \<le> S" "0 \<le> getOptimalChannelCount S"
    using S by (auto simp: Let_def)
  then show ?thesis by (simp add: even_nat_iff)
qed

lemma grid_okD:
  "grid_ok pt \<Longrightarrow> pt_chanBw pt = pt_sampleRate pt div int (pt_numChannels pt) \<and> length (pt_chanCenters pt) = pt_numChannels pt + 1"
  by (simp add: grid_ok_def Let_def)

lemma resized: "min a b + (b - a) = (b :: nat)"
  by (simp add: min_def)

lemma grid_ok_other [simp]:
  "grid_ok (pt\<lparr>pt_runDemods := a\<rparr>) = grid_ok pt" "grid_ok (pt\<lparr>pt_demodChannel := c\<rparr>) = grid_ok pt"
  "grid_ok (pt\<lparr>pt_demodChannelActive := d\<rparr>) = grid_ok pt" "grid_ok (pt\<lparr>pt_dc := e\<rparr>) = grid_ok pt"
  "grid_ok (pt\<lparr>pt_bank := e\<rparr>) = grid_ok pt" "grid_ok (pt\<lparr>pt_dataOut := x\<rparr>) = grid_ok pt" "grid_ok (pt\<lparr>pt_doRefresh := y\<rparr>) = grid_ok pt"
  by (simp_all add: grid_ok_def)

definition prepared :: "sdr_data \<Rightarrow> 'f post_thread \<Rightarrow> bool" where
  "prepared b pt \<longleftrightarrow> grid_ok pt \<and> pt_frequency pt = sx_frequency b \<and> pt_sampleRate pt = sx_sampleRate b \<and>
     pt_numChannels pt = sx_numChannels b \<and> length (pt_demodChannelActive pt) = pt_numChannels pt + 1 \<and>
     pt_lastChanMode pt = 1 \<and> distinct (pt_runDemods pt)"

definition looks_again :: "sdr_data \<Rightarrow> 'f post_thread \<Rightarrow> bool" where
  "looks_again b pt \<longleftrightarrow> pt_doRefresh pt \<or> pt_frequency pt \<noteq> sx_frequency b \<or> pt_sampleRate pt \<noteq> sx_sampleRate b"

lemma prepare_total:
  assumes "post_ok pt" "in_int32 (sx_sampleRate b)" "0 < sx_sampleRate b"
    "sx_numChannels b = nat (getOptimalChannelCount (sx_sampleRate b))" "1 < sx_numChannels b" "distinct (dg_demods g)"
  shows "\<exists>pt' g'. prepare_pfb F c b (pt, g) = Inr (pt', g') \<and> prepared b pt' \<and> dg_demods g' = dg_demods g \<and>
    (\<forall>p\<in>set (dg_demods g). p < length (dg_store g) \<and> \<not> di_deltaLock (dg_store g ! p) \<and>
       \<bar>di_frequency (dg_store g ! p) - sx_frequency b\<bar> \<le> sx_sampleRate b div 2 \<and> (looks_again b pt \<or> p \<in> set (pt_runDemods pt)) \<longrightarrow>
       p \<in> set (pt_runDemods pt') \<and> di_frequency (dg_store g' ! p) = di_frequency (dg_store g ! p))"
proof -
  let ?n = "sx_numChannels b" and ?S = "sx_sampleRate b"
  have n: "even ?n" "int ?n \<le> ?S" using optimal_count [of ?S] assms(3-5) by simp_all
  obtain refreshed pt1 where r: "refresh_pfb F b pt = (refreshed, pt1)" by fastforce
  have p1: "pt_numChannels pt1 = ?n" "pt_sampleRate pt1 = ?S" "pt_lastChanMode pt1 = 1" "pt_chanBw pt1 = ?S div int ?n"
    "length (pt_chanCenters pt1) = ?n + 1" "length (pt_demodChannelActive pt1) = ?n + 1" "distinct (pt_runDemods pt1)"
    "pt_runDemods pt1 = pt_runDemods pt" "pt_frequency pt1 = pt_frequency pt"
    and p2: "\<not> refreshed \<Longrightarrow> grid_ok pt1 \<and> pt1 = pt \<and> \<not> pt_doRefresh pt \<and> pt_sampleRate pt = ?S"
  proof -
    have "(pt_numChannels pt1 = ?n \<and> pt_sampleRate pt1 = ?S \<and> pt_lastChanMode pt1 = 1 \<and> pt_chanBw pt1 = ?S div int ?n \<and>
      length (pt_chanCenters pt1) = ?n + 1 \<and> length (pt_demodChannelActive pt1) = ?n + 1 \<and> distinct (pt_runDemods pt1) \<and>
      pt_runDemods pt1 = pt_runDemods pt \<and> pt_frequency pt1 = pt_frequency pt) \<and>
      (\<not> refreshed \<longrightarrow> grid_ok pt1 \<and> pt1 = pt \<and> \<not> pt_doRefresh pt \<and> pt_sampleRate pt = ?S)"
    proof (cases refreshed)
      case True
      then have "pt1 = (initPFBCH F (pt\<lparr>pt_numChannels := ?n, pt_sampleRate := wrap32 ?S\<rparr>))\<lparr>pt_lastChanMode := 1\<rparr>"
        using r by (auto simp: refresh_pfb_def split: if_splits)
      moreover have "wrap32 ?S = ?S" by (rule wrap32_id) (rule assms(2))
      moreover have "cdiv ?S (int ?n) = ?S div int ?n" using assms(3,5) by (intro cdiv_nonneg) simp_all
      ultimately show ?thesis using True assms(1) by (simp add: initPFBCH_def Let_def post_ok_def resized)
    next
      case False
      then have "pt1 = pt" "pt_numChannels pt = ?n" "pt_sampleRate pt = ?S" "pt_lastChanMode pt = 1" "\<not> pt_doRefresh pt"
        using r by (auto simp: refresh_pfb_def split: if_splits)
      moreover have "distinct (pt_runDemods pt)"
        "1 < pt_numChannels pt \<and> pt_lastChanMode pt = 1 \<longrightarrow> grid_ok pt \<and> length (pt_demodChannelActive pt) = pt_numChannels pt + 1"
        using assms(1) unfolding post_ok_def by blast+
      ultimately have g: "grid_ok pt" "length (pt_demodChannelActive pt) = ?n + 1" "distinct (pt_runDemods pt)"
        using assms(5) by simp_all
      show ?thesis using False g grid_okD [OF g(1)] \<open>pt1 = pt\<close> \<open>pt_numChannels pt = ?n\<close> \<open>pt_sampleRate pt = ?S\<close>
          \<open>pt_lastChanMode pt = 1\<close> \<open>\<not> pt_doRefresh pt\<close> by simp
    qed
    then show "pt_numChannels pt1 = ?n" "pt_sampleRate pt1 = ?S" "pt_lastChanMode pt1 = 1" "pt_chanBw pt1 = ?S div int ?n"
      "length (pt_chanCenters pt1) = ?n + 1" "length (pt_demodChannelActive pt1) = ?n + 1" "distinct (pt_runDemods pt1)"
      "pt_runDemods pt1 = pt_runDemods pt" "pt_frequency pt1 = pt_frequency pt"
      "\<not> refreshed \<Longrightarrow> grid_ok pt1 \<and> pt1 = pt \<and> \<not> pt_doRefresh pt \<and> pt_sampleRate pt = ?S" by blast+
  qed
  show ?thesis
  proof (cases "refreshed \<or> pt_frequency pt1 \<noteq> sx_frequency b")
    case True
    let ?pt = "pt1\<lparr>pt_frequency := sx_frequency b\<rparr>"
    obtain pt2 g2 where u: "updateActiveDemodulators c (?pt, g) = (pt2, g2)" by fastforce
    from updateActive [OF u assms(6)] obtain R where R: "pt2 = ?pt\<lparr>pt_runDemods := R, pt_demodChannel := replicate (length R) (-1)\<rparr>"
      "distinct R" "dg_demods g2 = dg_demods g"
      "\<And>p. p \<in> set (dg_demods g) \<Longrightarrow> p < length (dg_store g) \<Longrightarrow> \<not> di_deltaLock (dg_store g ! p) \<Longrightarrow>
         di_frequency (dg_store g2 ! p) = di_frequency (dg_store g ! p) \<and>
         (\<not> out_of_window ?pt (di_frequency (dg_store g ! p)) \<longrightarrow> p \<in> set R)" by blast
    have "even (pt_numChannels pt2)" "2 \<le> pt_numChannels pt2" "int (pt_numChannels pt2) \<le> pt_sampleRate pt2" "in_int32 (pt_sampleRate pt2)"
      "pt_chanBw pt2 = pt_sampleRate pt2 div int (pt_numChannels pt2)" "length (pt_chanCenters pt2) = pt_numChannels pt2 + 1"
      using n assms(2,5) p1 by (simp_all add: R(1))
    from updateChannels_grid [OF this] obtain cs where cs: "updateChannels pt2 = Inr (pt2\<lparr>pt_chanCenters := cs\<rparr>)"
      "grid_ok (pt2\<lparr>pt_chanCenters := cs\<rparr>)" by blast
    have "prepare_pfb F c b (pt, g) = Inr (pt2\<lparr>pt_chanCenters := cs\<rparr>, g2)" using True r u cs(1) by (simp add: prepare_pfb_def)
    moreover have "prepared b (pt2\<lparr>pt_chanCenters := cs\<rparr>)" using cs(2) p1 R(2) by (simp add: prepared_def R(1))
    moreover have "cdiv ?S 2 = ?S div 2" using assms(3) by (intro cdiv_nonneg) simp_all
    then have "\<not> out_of_window ?pt f" if "\<bar>f - sx_frequency b\<bar> \<le> ?S div 2" for f
      using that p1(2) by (simp add: out_of_window_def abs_minus_commute)
    ultimately show ?thesis using R by (intro exI [of _ "pt2\<lparr>pt_chanCenters := cs\<rparr>"] exI [of _ g2]) auto
  next
    case False
    then have e: "pt1 = pt" "grid_ok pt" "\<not> pt_doRefresh pt" "pt_sampleRate pt = ?S" "pt_frequency pt = sx_frequency b" "\<not> refreshed"
      using p2 by auto
    then have "prepare_pfb F c b (pt, g) = Inr (pt, g)" using r by (simp add: prepare_pfb_def)
    moreover have "prepared b pt" "\<not> looks_again b pt"
      using e p1 by (simp_all add: prepared_def looks_again_def)
    ultimately show ?thesis by (intro exI [of _ pt] exI [of _ g]) simp
  qed
qed

lemma prepared_ok: "prepared b pt \<Longrightarrow> in_int32 (sx_sampleRate b) \<Longrightarrow> 0 < sx_sampleRate b \<Longrightarrow>
    sx_numChannels b = nat (getOptimalChannelCount (sx_sampleRate b)) \<Longrightarrow> post_ok pt"
  by (simp add: prepared_def post_ok_def)

lemma post_ok_other [simp]:
  "post_ok (pt\<lparr>pt_demodChannel := c\<rparr>) = post_ok pt" "post_ok (pt\<lparr>pt_dc := e\<rparr>) = post_ok pt"
  "post_ok (pt\<lparr>pt_bank := e\<rparr>) = post_ok pt" "post_ok (pt\<lparr>pt_dataOut := x\<rparr>) = post_ok pt" "post_ok (pt\<lparr>pt_doRefresh := y\<rparr>) = post_ok pt"
  by (simp_all add: post_ok_def)

lemma runPFBCH_delivers:
  assumes "post_ok pt" "batch_ok b" "1 < sx_numChannels b" "distinct (dg_demods g)" "bank_ok F"
  shows "\<exists>pt' g' ps'. runPFBCH F c b (pt, g, ps) = Inr (pt', g', ps') \<and> post_ok pt' \<and> pt_frequency pt' = sx_frequency b \<and>
    pt_sampleRate pt' = sx_sampleRate b \<and> dg_demods g' = dg_demods g \<and> length ps' = length ps \<and>
    (\<forall>p\<in>set (dg_demods g). p < length (dg_store g) \<and> p < length ps \<and> \<not> di_deltaLock (dg_store g ! p) \<and>
       \<bar>di_frequency (dg_store g ! p) - sx_frequency b\<bar> \<le> sx_sampleRate b div 2 \<and> (looks_again b pt \<or> p \<in> set (pt_runDemods pt)) \<longrightarrow>
       (\<exists>x. ps' ! p = snd (bq_try_push x (ps ! p)) \<and> iq_sampleRate x = sx_sampleRate b div int (sx_numChannels b) \<and>
          2 * \<bar>di_frequency (dg_store g ! p) - iq_frequency x\<bar> \<le> iq_sampleRate x + int (sx_numChannels b div 2)))"
proof -
  let ?n = "sx_numChannels b" and ?S = "sx_sampleRate b"
  have b: "in_int32 ?S" "0 < ?S" "?n = nat (getOptimalChannelCount ?S)" "?n dvd length (sx_data b)"
    using assms(2) by (auto simp: batch_ok_def)
  from prepare_total [OF assms(1) b(1-3) assms(3,4), of F c] obtain pt1 g1 where p:
    "prepare_pfb F c b (pt, g) = Inr (pt1, g1)" "prepared b pt1" "dg_demods g1 = dg_demods g"
    "\<And>p. p \<in> set (dg_demods g) \<Longrightarrow> p < length (dg_store g) \<and> \<not> di_deltaLock (dg_store g ! p) \<and>
       \<bar>di_frequency (dg_store g ! p) - sx_frequency b\<bar> \<le> ?S div 2 \<and> (looks_again b pt \<or> p \<in> set (pt_runDemods pt)) \<Longrightarrow>
       p \<in> set (pt_runDemods pt1) \<and> di_frequency (dg_store g1 ! p) = di_frequency (dg_store g ! p)" by blast
  have q: "grid_ok pt1" "pt_numChannels pt1 = ?n" "pt_sampleRate pt1 = ?S" "pt_frequency pt1 = sx_frequency b"
    "length (pt_demodChannelActive pt1) = ?n + 1" "distinct (pt_runDemods pt1)" "length (pt_chanCenters pt1) = ?n + 1"
    "pt_chanBw pt1 = ?S div int ?n"
    using p(2) by (auto simp: prepared_def grid_ok_def Let_def)
  have ok1: "post_ok pt1" using prepared_ok [OF p(2) b(1-3)] .
  show ?thesis
  proof (cases "pt_runDemods pt1 = []")
    case True
    then have run: "runPFBCH F c b (pt, g, ps) = Inr (pt1, g1, ps)" using p(1) by (simp add: runPFBCH_def)
    have "\<not> (p \<in> set (dg_demods g) \<and> p < length (dg_store g) \<and> \<not> di_deltaLock (dg_store g ! p) \<and>
       \<bar>di_frequency (dg_store g ! p) - sx_frequency b\<bar> \<le> ?S div 2 \<and> (looks_again b pt \<or> p \<in> set (pt_runDemods pt)))" for p
      using p(4) [of p] True by auto
    then show ?thesis using run ok1 q(3,4) p(3) by (intro exI [of _ pt1] exI [of _ g1] exI [of _ ps]) auto
  next
    case False
    obtain bank out where a: "analyze (fi_bank F) ?n (pt_bank pt1) (sx_data b) = Inr (bank, out)"
      using analyze_total [OF assms(5) _ b(4)] assms(3) by (metis less_trans zero_less_one)
    let ?pt = "pt1\<lparr>pt_bank := bank, pt_dataOut := out\<rparr>"
    have "length (pt_chanCenters ?pt) = pt_numChannels ?pt + 1" "length (pt_demodChannelActive ?pt) = pt_numChannels ?pt + 1"
      "1 < pt_numChannels ?pt" "distinct (pt_runDemods ?pt)" using q assms(3) by simp_all
    from runDemodChannels_deliver [OF this, of F g1 "pt_chanBw pt1" ps] obtain act chans dc ps' where d:
      "runDemodChannels F g1 (pt_chanBw pt1) ?pt ps = Inr (?pt\<lparr>pt_demodChannel := chans, pt_demodChannelActive := act, pt_dc := dc\<rparr>, ps')"
      "length act = pt_numChannels ?pt + 1" "length ps' = length ps"
      "\<And>p c. p \<in> set (pt_runDemods ?pt) \<Longrightarrow> p < length ps \<and> c \<le> pt_numChannels ?pt \<and>
         getChannelAt (di_frequency (dg_store g1 ! p)) ?pt = Inr (int c) \<Longrightarrow>
         \<exists>xs. ps' ! p = snd (bq_try_push \<lparr>iq_frequency = pt_chanCenters ?pt ! c, iq_sampleRate = pt_chanBw pt1, iq_data = xs\<rparr> (ps ! p))"
      by blast
    let ?pt' = "?pt\<lparr>pt_demodChannel := chans, pt_demodChannelActive := act, pt_dc := dc\<rparr>"
    have run: "runPFBCH F c b (pt, g, ps) = Inr (?pt', g1, ps')" using p(1) False a d(1) q(2) by (simp add: runPFBCH_def)
    have "post_ok ?pt'" using ok1 d(2) q(1) by (simp add: post_ok_def)
    moreover have "\<exists>x. ps' ! p = snd (bq_try_push x (ps ! p)) \<and> iq_sampleRate x = ?S div int ?n \<and>
          2 * \<bar>di_frequency (dg_store g ! p) - iq_frequency x\<bar> \<le> iq_sampleRate x + int (?n div 2)"
      if h: "p \<in> set (dg_demods g)" "p < length (dg_store g)" "p < length ps" "\<not> di_deltaLock (dg_store g ! p)"
        "\<bar>di_frequency (dg_store g ! p) - sx_frequency b\<bar> \<le> ?S div 2" "looks_again b pt \<or> p \<in> set (pt_runDemods pt)" for p
    proof -
      have m: "p \<in> set (pt_runDemods pt1)" "di_frequency (dg_store g1 ! p) = di_frequency (dg_store g ! p)"
        using p(4) [OF h(1)] h by blast+
      have "\<bar>di_frequency (dg_store g1 ! p) - pt_frequency ?pt\<bar> \<le> pt_sampleRate ?pt div 2" using h(5) m(2) q(3,4) by simp
      moreover have "grid_ok ?pt" using q(1) by simp
      ultimately obtain ch where ch: "getChannelAt (di_frequency (dg_store g1 ! p)) ?pt = Inr (int ch)" "ch \<le> pt_numChannels ?pt"
        "2 * \<bar>di_frequency (dg_store g1 ! p) - pt_chanCenters ?pt ! ch\<bar> \<le> pt_chanBw ?pt + int (pt_numChannels ?pt div 2)"
        using getChannelAt_grid by blast
      have "p \<in> set (pt_runDemods ?pt)" using m(1) by simp
      from d(4) [OF this, of ch] ch(1,2) h(3) obtain xs where
        "ps' ! p = snd (bq_try_push \<lparr>iq_frequency = pt_chanCenters ?pt ! ch, iq_sampleRate = pt_chanBw pt1, iq_data = xs\<rparr> (ps ! p))"
        by blast
      then show ?thesis using ch(3) m(2) q(2,8)
        by (intro exI [of _ "\<lparr>iq_frequency = pt_chanCenters ?pt ! ch, iq_sampleRate = pt_chanBw pt1, iq_data = xs\<rparr>"]) simp
    qed
    ultimately show ?thesis using run d(3) q(3,4) p(3)
      by (intro exI [of _ ?pt'] exI [of _ g1] exI [of _ ps']) simp
  qed
qed

lemma single_ok:
  assumes "post_ok pt" "batch_ok b" "\<not> 1 < sx_numChannels b" "distinct (dg_demods g)" "runSingleCH F c b (pt, g, ps) = (pt', g', ps')"
  shows "post_ok pt' \<and> dg_demods g' = dg_demods g"
proof -
  let ?S = "sx_sampleRate b"
  have b: "in_int32 ?S" "0 < ?S" "sx_numChannels b = nat (getOptimalChannelCount ?S)" using assms(2) by (simp_all add: batch_ok_def)
  then have one: "sx_numChannels b = 1" using assms(3) channel_count_pos [of ?S] by simp
  define refreshed where "refreshed = (pt_sampleRate pt \<noteq> ?S \<or> pt_doRefresh pt)"
  define pt1 where "pt1 = (if refreshed then pt\<lparr>pt_sampleRate := wrap32 ?S, pt_numChannels := 1\<rparr> else pt)"
  obtain pt2 g2 where u: "(if refreshed \<or> pt_frequency pt1 \<noteq> sx_frequency b
    then updateActiveDemodulators c (pt1\<lparr>pt_frequency := sx_frequency b\<rparr>, g) else (pt1, g)) = (pt2, g2)" by fastforce
  obtain dc xs where d: "fi_dc F (pt_dc pt2) (sx_data b) = (dc, xs)" by fastforce
  have "runSingleCH F c b (pt, g, ps) = (pt2\<lparr>pt_dc := dc\<rparr>, g2, fold (push_pipe
      \<lparr>iq_frequency = pt_frequency pt2, iq_sampleRate = pt_sampleRate pt2, iq_data = xs\<rparr>) (pt_runDemods pt2) ps)"
    unfolding runSingleCH_def prod.case Let_def by (simp only: u [unfolded pt1_def refreshed_def] prod.case d)
  then have res: "pt' = pt2\<lparr>pt_dc := dc\<rparr>" "g' = g2" using assms(5) by simp_all
  have w: "wrap32 ?S = ?S" using b(1) by (rule wrap32_id)
  have p1: "pt_sampleRate pt1 = ?S" "pt_numChannels pt1 = 1" "distinct (pt_runDemods pt1)"
    using assms(1) b one w by (auto simp: pt1_def refreshed_def post_ok_def)
  have "(pt_sampleRate pt2 = ?S \<and> pt_numChannels pt2 = 1 \<and> distinct (pt_runDemods pt2)) \<and> dg_demods g2 = dg_demods g"
  proof (cases "refreshed \<or> pt_frequency pt1 \<noteq> sx_frequency b")
    case True
    then have "updateActiveDemodulators c (pt1\<lparr>pt_frequency := sx_frequency b\<rparr>, g) = (pt2, g2)" using u by simp
    from updateActive [OF this assms(4)] p1 show ?thesis by auto
  qed (use u p1 in auto)
  then show ?thesis using b one by (simp add: post_ok_def res)
qed

lemma post_pass_total:
  assumes "post_ok pt" "batch_ok b" "distinct (dg_demods g)" "bank_ok F"
  shows "\<exists>pt' g' ps'. post_pass F c b (pt, g, ps) = Inr (pt', g', ps') \<and> post_ok pt'"
proof -
  have "\<exists>pt1 g1 ps1. (if sx_data b = [] then Inr (pt, g, ps)
      else if sx_numChannels b > 1 then runPFBCH F c b (pt, g, ps) else Inr (runSingleCH F c b (pt, g, ps))) = Inr (pt1, g1, ps1) \<and>
    post_ok pt1 \<and> dg_demods g1 = dg_demods g"
  proof (cases "sx_data b = []")
    case True
    then show ?thesis using assms(1) by simp
  next
    case False
    show ?thesis
    proof (cases "1 < sx_numChannels b")
      case True
      then show ?thesis using False runPFBCH_delivers [OF assms(1,2) True assms(3,4), of c ps] by auto
    next
      case one: False
      obtain pt1 g1 ps1 where "runSingleCH F c b (pt, g, ps) = (pt1, g1, ps1)" by (metis prod_cases3)
      then show ?thesis using one False single_ok [OF assms(1,2) one assms(3)] by fastforce
    qed
  qed
  then obtain pt1 g1 ps1 where s: "(if sx_data b = [] then Inr (pt, g, ps)
      else if sx_numChannels b > 1 then runPFBCH F c b (pt, g, ps) else Inr (runSingleCH F c b (pt, g, ps))) = Inr (pt1, g1, ps1)"
    "post_ok pt1" "dg_demods g1 = dg_demods g" by blast
  show ?thesis
  proof (cases "pt_doRefresh pt1 \<or> list_ex (\<lambda>p. out_of_window pt1 (di_frequency (dg_store g1 ! p))) (pt_runDemods pt1)")
    case True
    obtain pt2 g2 where u: "updateActiveDemodulators c (pt1, g1) = (pt2, g2)" by fastforce
    from updateActive [OF u] assms(3) s(3) obtain R where
      "pt2 = pt1\<lparr>pt_runDemods := R, pt_demodChannel := replicate (length R) (-1)\<rparr>" "distinct R" by auto
    then have "post_ok (pt2\<lparr>pt_doRefresh := False\<rparr>)" using s(2) by (simp add: post_ok_def)
    then show ?thesis using s(1) True u by (simp add: post_pass_def)
  next
    case False
    then show ?thesis using s by (simp add: post_pass_def)
  qed
qed

section \<open>Properties\<close>

text \<open>
  The passes of a run. Between two batches other threads may have changed the centre frequency,
  the modems and their queues in any way.
\<close>

fun post_run ::
    "'f post_filters \<Rightarrow> (int \<times> sdr_data \<times> demod_mgr \<times> pipes) list \<Rightarrow> 'f post_thread \<Rightarrow> 'f post_thread result" where
  "post_run F [] pt = Inr pt"
| "post_run F ((c, b, g, ps) # xs) pt = bind_result (post_pass F c b (pt, g, ps)) (\<lambda>(pt', _, _). post_run F xs pt')"

lemma post_run_total:
  "post_ok pt \<Longrightarrow> list_all (\<lambda>(c, b, g, ps). batch_ok b \<and> distinct (dg_demods g)) xs \<Longrightarrow> bank_ok F \<Longrightarrow>
   \<exists>pt'. post_run F xs pt = Inr pt' \<and> post_ok pt'"
proof (induction xs arbitrary: pt)
  case (Cons x xs)
  obtain c b g ps where x: "x = (c, b, g, ps)" by (cases x) auto
  then obtain pt' g' ps' where "post_pass F c b (pt, g, ps) = Inr (pt', g', ps')" "post_ok pt'"
    using post_pass_total [of pt b g F c ps] Cons.prems by auto
  then show ?case using Cons.IH [of pt'] Cons.prems by (simp add: x)
qed simp

text \<open>
  C14: The channelizer never reads or writes past a buffer, whatever other threads do to the modems
  and to the tuning between batches, as long as each batch has the number of channels that fits
  its sample rate and a whole number of samples for each channel.
\<close>

theorem channelizer_never_overruns:
  assumes "list_all (\<lambda>(c, b, g, ps). batch_ok b \<and> distinct (dg_demods g)) xs" "bank_ok F"
  shows "\<exists>pt. post_run F xs (SDRPostThread_init dc) = Inr pt"
proof -
  have "post_ok (SDRPostThread_init dc)" by (simp add: post_ok_def SDRPostThread_init_def)
  then show ?thesis using post_run_total [of "SDRPostThread_init dc"] assms by blast
qed


lemma readStream_pushes:
  assumes "readStream answers t q = (r, t', q', rest)" "rr_pushed r"
  shows "last (bq_items q') = \<lparr>sx_frequency = th_frequency t, sx_sampleRate = th_sampleRate t, sx_dcCorrected = ss_hasHardwareDC t,
    sx_numChannels = ss_numChannels t, sx_data = rr_batch r\<rparr> \<and> rr_batch r \<noteq> []"
  using assms by (auto simp: readStream_def bq_try_push_def bq_full_def Let_def split: prod.splits if_splits)

text \<open>
  What the tuner delivers is good for the channelizer. Take a
  thread that has taken up its settings, and a batch it has pushed. If the device has delivered all
  along, the batch is a whole number of samples for each channel and the right number of channels
  for its rate, which is what the channelizer needs.
\<close>

lemma delivered_batch_ok:
  assumes "sdr_init dev t0 = Inr x" "\<not> ss_frequencyLocked t0" "\<not> ss_frequencyLockInit t0"
    "foldl (do_sdr_op dev) x (ops @ [Op_Update]) = (t, cs)" "in_int32 (th_sampleRate t)" "0 < th_sampleRate t"
    "readStream answers t q = (r, t', q', rest)" "rr_pushed r" "list_all delivers answers"
  shows "batch_ok (last (bq_items q'))"
proof -
  have n: "int (ss_numChannels t) = getOptimalChannelCount (th_sampleRate t)" "ss_numChannels t dvd ss_numElems t"
    using settled_tuning [OF assms(1-4)] whole_elements [of "ss_numChannels t"] by (auto simp: follows_def)
  from readStream_keeps [OF assms(7)] obtain used where "answers = used @ rest"
    "\<not> rr_stopping r \<and> list_all delivers used \<longrightarrow> length (rr_batch r) = ss_numElems t" "rr_pushed r \<longrightarrow> \<not> rr_stopping r" by blast
  then have "length (rr_batch r) = ss_numElems t" using assms(8,9) by simp
  moreover have "ss_numChannels t = nat (getOptimalChannelCount (th_sampleRate t))" using n(1) by simp
  ultimately show ?thesis using readStream_pushes [OF assms(7,8)] assms(5,6) n(2) by (simp add: batch_ok_def)
qed

text \<open>
  A read that ends early makes the channelizer read past its buffer. When the device reports an
  error, an overflow say, after some samples of a batch, the thread pushes the samples it has. If
  they are not a whole number for each channel and there is a modem in the window, the channelizer
  hands the filter bank a last block that is not all there.
\<close>

theorem short_read_overruns:
  assumes "readStream answers t q = (r, t', q', rest)" "rr_pushed r" "\<not> ss_numChannels t dvd length (rr_batch r)"
    "1 < ss_numChannels t" "ss_numChannels t = nat (getOptimalChannelCount (th_sampleRate t))" "in_int32 (th_sampleRate t)"
    "0 < th_sampleRate t" "list_all (\<lambda>(c, b, g, ps). batch_ok b \<and> distinct (dg_demods g)) xs" "bank_ok F"
    "post_run F xs (SDRPostThread_init dc) = Inr pt" "distinct (dg_demods g)" "p \<in> set (dg_demods g)" "p < length (dg_store g)"
    "\<not> di_deltaLock (dg_store g ! p)" "looks_again (last (bq_items q')) pt \<or> p \<in> set (pt_runDemods pt)"
    "\<bar>di_frequency (dg_store g ! p) - th_frequency t\<bar> \<le> th_sampleRate t div 2"
  shows "post_pass F c (last (bq_items q')) (pt, g, ps) = Inl Out_Of_Bounds"
proof -
  let ?b = "last (bq_items q')"
  have b: "sx_frequency ?b = th_frequency t" "sx_sampleRate ?b = th_sampleRate t" "sx_numChannels ?b = ss_numChannels t"
    "sx_data ?b = rr_batch r" "rr_batch r \<noteq> []"
    using readStream_pushes [OF assms(1,2)] by simp_all
  have "post_ok (SDRPostThread_init dc)" by (simp add: post_ok_def SDRPostThread_init_def)
  then have "post_ok pt" using post_run_total [of "SDRPostThread_init dc" xs F] assms(8-10) by auto
  from prepare_total [OF this, of ?b g F c] assms(4-7,11) obtain pt1 g1 where p: "prepare_pfb F c ?b (pt, g) = Inr (pt1, g1)"
    "prepared ?b pt1"
    "\<forall>p\<in>set (dg_demods g). p < length (dg_store g) \<and> \<not> di_deltaLock (dg_store g ! p) \<and>
       \<bar>di_frequency (dg_store g ! p) - sx_frequency ?b\<bar> \<le> sx_sampleRate ?b div 2 \<and> (looks_again ?b pt \<or> p \<in> set (pt_runDemods pt)) \<longrightarrow>
       p \<in> set (pt_runDemods pt1) \<and> di_frequency (dg_store g1 ! p) = di_frequency (dg_store g ! p)"
    by (auto simp: b)
  have "p \<in> set (pt_runDemods pt1)" using p(3) assms(12-16) by (simp add: b)
  then have ne: "pt_runDemods pt1 \<noteq> []" by auto
  have "pt_numChannels pt1 = ss_numChannels t" using p(2) by (simp add: prepared_def b)
  then have "analyze (fi_bank F) (pt_numChannels pt1) (pt_bank pt1) (sx_data ?b) = Inl Out_Of_Bounds"
    using assms(3,4) by (intro analyze_overruns) (simp_all add: b)
  then have "runPFBCH F c ?b (pt, g, ps) = Inl Out_Of_Bounds" using p(1) ne by (simp add: runPFBCH_def)
  then show ?thesis using assms(4) by (simp add: post_pass_def b)
qed

text \<open>A filter bank that changes nothing, and a modem 100 kHz above the centre, for witnesses.\<close>

definition demo_filters :: "unit post_filters" where
  "demo_filters = \<lparr>fi_create = (\<lambda>n. ()), fi_bank = Pair, fi_dc = Pair\<rparr>"

definition demo_modems :: demod_mgr where
  "demo_modems = DemodulatorMgr_init\<lparr>dg_store := [DemodulatorInstance_init\<lparr>di_frequency := 155100000\<rparr>], dg_demods := [0]\<rparr>"

definition demo_thread :: sdr_stream where
  "demo_thread = SDRStream_init\<lparr>th_frequency := 155000000, th_sampleRate := 600000, ss_numChannels := 2, ss_numElems := 4\<rparr>"

definition demo_batch :: sdr_data where
  "demo_batch = \<lparr>sx_frequency = 155000000, sx_sampleRate = 600000, sx_dcCorrected = False, sx_numChannels = 2, sx_data = [(1, 0), (2, 0), (3, 0), (4, 0)]\<rparr>"

lemma demo_optimal: "getOptimalChannelCount 600000 = 2"
  by code_simp

lemma demo_batch_ok: "batch_ok demo_batch"
  by (simp add: batch_ok_def demo_batch_def demo_optimal in_int32_def)

lemma demo_bank_ok: "bank_ok demo_filters"
  by (simp add: bank_ok_def demo_filters_def)

theorem channelizer_never_overruns_witness:
  "\<exists>pt. post_run demo_filters [(0, demo_batch, demo_modems, []), (0, demo_batch, DemodulatorMgr_init, [])] (SDRPostThread_init ()) = Inr pt"
  using channelizer_never_overruns [of "[(0, demo_batch, demo_modems, []), (0, demo_batch, DemodulatorMgr_init, [])]" demo_filters "()"]
    demo_batch_ok demo_bank_ok by (simp add: demo_modems_def DemodulatorMgr_init_def)


theorem short_read_overruns_witness:
  "case readStream [Samples [(1, 0), (2, 0), (3, 0)], Read_Error (-4)] demo_thread \<lparr>bq_items = [], bq_max = 10\<rparr> of
     (r, t, q, rest) \<Rightarrow> rr_pushed r \<and>
       post_pass demo_filters 0 (last (bq_items q)) (SDRPostThread_init (), demo_modems, []) = Inl Out_Of_Bounds"
proof -
  let ?as = "[Samples [(1, 0), (2, 0), (3, 0)], Read_Error (-4)]" and ?q = "\<lparr>bq_items = [], bq_max = 10\<rparr>"
  obtain r t q rest where run: "readStream ?as demo_thread ?q = (r, t, q, rest)" by (metis prod_cases4)
  have "rr_pushed (fst (readStream ?as demo_thread ?q)) \<and> length (rr_batch (fst (readStream ?as demo_thread ?q))) = 3" by code_simp
  then have r: "rr_pushed r" "length (rr_batch r) = 3" unfolding run by simp_all
  have t: "ss_numChannels demo_thread = 2" "th_sampleRate demo_thread = 600000" "th_frequency demo_thread = 155000000"
    by (simp_all add: demo_thread_def)
  have l: "looks_again (last (bq_items q)) (SDRPostThread_init ())"
    using readStream_pushes [OF run r(1)] by (simp add: looks_again_def SDRPostThread_init_def t)
  have "post_pass demo_filters 0 (last (bq_items q)) (SDRPostThread_init (), demo_modems, []) = Inl Out_Of_Bounds"
    using l r demo_bank_ok
    by (intro short_read_overruns [OF run, of "[]" demo_filters "()" "SDRPostThread_init ()" demo_modems 0])
      (simp_all add: t demo_optimal in_int32_def demo_modems_def DemodulatorMgr_init_def DemodulatorInstance_init_def)
  then show ?thesis using r(1) by (simp add: run)
qed

end
