(* ===== verification/Modem_Threads.thy ===== *)
theory Modem_Threads
  imports Demod_Mgr Sdr_Stream
begin

text \<open>
  How a modem comes to be: \<open>DemodulatorPreThread\<close> (src/src/cubic/demod/DemodulatorPreThread.cpp) takes
  what other threads ask for and what the channelizer sends and orders modems and filters from
  \<open>DemodulatorWorkerThread\<close> (src/src/cubic/demod/DemodulatorWorkerThread.cpp), which makes them
  (\<open>Modem::makeModem\<close>, src/src/cubic/modules/modem/); \<open>DemodulatorThread\<close> uses them, and deletes
  them when the next one comes. The three threads share modems and kits by pointer, so these live
  in stores and a pointer is an index; an object that has been deleted is in a set.

  What the filters make of the samples is third-party and left out: a buffer is the pointers and
  rates it carries. \<open>DemodulatorPreThread::run\<close> is two steps, up to the buffer it pushes and from
  the results it takes, so that other threads can come in between. A step that has to wait, for a
  queue to have room or to have an item, leaves everything as it is.
\<close>

section \<open>Modems and their kits\<close>

type_synonym modem_settings = "(string \<times> string) list"

record modem =
  md_name :: string
  md_demph :: int
  md_refreshKit :: bool

text \<open>
  The flag \<open>refreshKit\<close> of a new modem has no value until the worker clears it, before it hands the
  modem out. A modem casts the kits it is given to the class that its
  \<open>buildKit\<close> makes. The digital modems are left out: the program is built without them.
\<close>

datatype kit_class = Kit_Analog | Kit_FMStereo | Kit_Plain

record modem_kit =
  kt_class :: kit_class
  kt_sampleRate :: int
  kt_audioSampleRate :: int

definition modem_names :: "string list" where
  "modem_names = [''FM'', ''NBFM'', ''FMS'', ''AM'', ''LSB'', ''USB'', ''DSB'', ''I/Q'']"

definition makeModem :: "string \<Rightarrow> modem option" where
  "makeModem name = (if name \<in> set modem_names then Some \<lparr>md_name = name, md_demph = (if name = ''FMS'' then 75 else 0), md_refreshKit = False\<rparr> else None)"

definition kit_class_of :: "string \<Rightarrow> kit_class" where
  "kit_class_of name = (if name = ''FMS'' then Kit_FMStereo else if name = ''I/Q'' then Kit_Plain else Kit_Analog)"

definition MIN_BANDWIDTH :: int where "MIN_BANDWIDTH = 500"

text \<open>The modems' \<open>checkSampleRate\<close>, for rates that fit an \<open>int\<close>: of \<open>ModemFMStereo\<close>, \<open>ModemIQ\<close>, the single sidebands, and the others.\<close>

definition checkSampleRate :: "string \<Rightarrow> int \<Rightarrow> int \<Rightarrow> int" where
  "checkSampleRate name rate audioRate =
     (if name = ''FMS'' then (if rate < 100000 then 100000 else if rate < 1500 then 1500 else rate)
      else if name = ''I/Q'' then audioRate
      else if name = ''LSB'' \<or> name = ''USB'' then
        (if rate < MIN_BANDWIDTH then MIN_BANDWIDTH else if rate mod 2 = 0 then rate else rate + 1)
      else (if rate < MIN_BANDWIDTH then MIN_BANDWIDTH else rate))"

definition buildKit :: "string \<Rightarrow> int \<Rightarrow> int \<Rightarrow> modem_kit" where
  "buildKit name rate audioRate = \<lparr>kt_class = kit_class_of name, kt_sampleRate = rate, kt_audioSampleRate = audioRate\<rparr>"

definition modem_writeSetting :: "string \<Rightarrow> string \<Rightarrow> modem \<Rightarrow> modem result" where
  "modem_writeSetting k v m =
     (if md_name m = ''FMS'' \<and> k = ''demph''
      then bind_result (stoi v) (\<lambda>n. Inr (m\<lparr>md_demph := n, md_refreshKit := True\<rparr>))
      else Inr m)"

fun writeSettings :: "modem_settings \<Rightarrow> modem \<Rightarrow> modem result" where
  "writeSettings [] m = Inr m"
| "writeSettings ((k, v) # s) m = bind_result (modem_writeSetting k v m) (writeSettings s)"

section \<open>State\<close>

datatype worker_cmd = DEMOD_WORKER_THREAD_CMD_BUILD_FILTERS | DEMOD_WORKER_THREAD_CMD_MAKE_DEMOD

record worker_command =
  wc_cmd :: worker_cmd
  wc_frequency :: int
  wc_sampleRate :: int
  wc_bandwidth :: int
  wc_audioSampleRate :: int
  wc_demodType :: string
  wc_settings :: modem_settings

text \<open>\<open>wr_iqResampleRatio\<close> is \<open>None\<close> when no resampler was made.\<close>

record worker_result =
  wr_iqResampleRatio :: "rat option"
  wr_sampleRate :: int
  wr_bandwidth :: int
  wr_modem :: "nat option"
  wr_modemKit :: "nat option"
  wr_modemName :: string

record worker_thread =
  wk_cModem :: "nat option"
  wk_cModemKit :: "nat option"
  wk_cModemName :: string
  wk_filterCommand :: "worker_command option"
  wk_demodCommand :: "worker_command option"
  wk_done :: bool

record pre_thread =
  pr_initialized :: bool
  pr_iqResampleRatio :: "rat option"
  pr_cModem :: "nat option"
  pr_cModemKit :: "nat option"
  pr_currentSampleRate :: int
  pr_newSampleRate :: int
  pr_currentFrequency :: int
  pr_newFrequency :: int
  pr_currentBandwidth :: int
  pr_newBandwidth :: int
  pr_currentAudioSampleRate :: int
  pr_newAudioSampleRate :: int
  pr_sampleRateChanged :: bool
  pr_frequencyChanged :: bool
  pr_bandwidthChanged :: bool
  pr_audioSampleRateChanged :: bool
  pr_modemSettings :: modem_settings
  pr_modemSettingsChanged :: bool
  pr_shiftFrequency :: int
  pr_demodTypeChanged :: bool
  pr_demodType :: string
  pr_newDemodType :: string
  pr_taken :: "int option"

definition DemodulatorPreThread_init :: pre_thread where
  "DemodulatorPreThread_init = \<lparr>pr_initialized = False, pr_iqResampleRatio = None, pr_cModem = None, pr_cModemKit = None,
     pr_currentSampleRate = 0, pr_newSampleRate = 0, pr_currentFrequency = 0, pr_newFrequency = 0, pr_currentBandwidth = 0,
     pr_newBandwidth = 0, pr_currentAudioSampleRate = 0, pr_newAudioSampleRate = 0, pr_sampleRateChanged = False,
     pr_frequencyChanged = False, pr_bandwidthChanged = False, pr_audioSampleRateChanged = False, pr_modemSettings = [],
     pr_modemSettingsChanged = False, pr_shiftFrequency = 0, pr_demodTypeChanged = False, pr_demodType = '''',
     pr_newDemodType = '''', pr_taken = None\<rparr>"

definition DemodulatorWorkerThread_init :: worker_thread where
  "DemodulatorWorkerThread_init = \<lparr>wk_cModem = None, wk_cModemKit = None, wk_cModemName = '''', wk_filterCommand = None,
     wk_demodCommand = None, wk_done = False\<rparr>"

record post_iq =
  po_modem :: nat
  po_modemKit :: nat
  po_modemName :: string
  po_sampleRate :: int

text \<open>The three threads, the stores, and the queues between them.\<close>

record modem_world =
  mw_pre :: pre_thread
  mw_worker :: worker_thread
  mw_user :: "(nat \<times> nat) option"
  mw_modems :: "modem list"
  mw_kits :: "modem_kit list"
  mw_deadModems :: "nat set"
  mw_deadKits :: "nat set"
  mw_commands :: "worker_command blocking_queue"
  mw_results :: "worker_result blocking_queue"
  mw_output :: "post_iq blocking_queue"

definition modem_world_init :: modem_world where
  "modem_world_init = \<lparr>mw_pre = DemodulatorPreThread_init, mw_worker = DemodulatorWorkerThread_init, mw_user = None,
     mw_modems = [], mw_kits = [], mw_deadModems = {}, mw_deadKits = {},
     mw_commands = set_max_num_items 2 ThreadBlockingQueue_init, mw_results = set_max_num_items 100 ThreadBlockingQueue_init,
     mw_output = set_max_num_items 100 ThreadBlockingQueue_init\<rparr>"

section \<open>What other threads ask for\<close>

definition setDemodType :: "string \<Rightarrow> pre_thread \<Rightarrow> pre_thread" where
  "setDemodType ty p = p\<lparr>pr_newDemodType := ty, pr_demodTypeChanged := True\<rparr>"

definition getDemodType :: "pre_thread \<Rightarrow> string" where
  "getDemodType p = (if pr_demodTypeChanged p then pr_newDemodType p else pr_demodType p)"

definition pre_setFrequency :: "int \<Rightarrow> pre_thread \<Rightarrow> pre_thread" where
  "pre_setFrequency f p = p\<lparr>pr_frequencyChanged := True, pr_newFrequency := f\<rparr>"

definition pre_getFrequency :: "pre_thread \<Rightarrow> int" where
  "pre_getFrequency p = (if pr_frequencyChanged p then pr_newFrequency p else pr_currentFrequency p)"

definition pre_setSampleRate :: "int \<Rightarrow> pre_thread \<Rightarrow> pre_thread" where
  "pre_setSampleRate r p = p\<lparr>pr_sampleRateChanged := True, pr_newSampleRate := r\<rparr>"

definition pre_setBandwidth :: "int \<Rightarrow> pre_thread \<Rightarrow> pre_thread" where
  "pre_setBandwidth b p = p\<lparr>pr_bandwidthChanged := True, pr_newBandwidth := b\<rparr>"

definition pre_getBandwidth :: "pre_thread \<Rightarrow> int" where
  "pre_getBandwidth p = (if pr_bandwidthChanged p then pr_newBandwidth p else pr_currentBandwidth p)"

definition pre_setAudioSampleRate :: "int \<Rightarrow> pre_thread \<Rightarrow> pre_thread" where
  "pre_setAudioSampleRate r p = p\<lparr>pr_audioSampleRateChanged := True, pr_newAudioSampleRate := r\<rparr>"

definition writeModemSetting :: "string \<Rightarrow> string \<Rightarrow> pre_thread \<Rightarrow> pre_thread" where
  "writeModemSetting k v p = p\<lparr>pr_modemSettings := put_key k v (pr_modemSettings p), pr_modemSettingsChanged := True\<rparr>"

definition writeModemSettings :: "modem_settings \<Rightarrow> pre_thread \<Rightarrow> pre_thread" where
  "writeModemSettings s p = p\<lparr>pr_modemSettings := s, pr_modemSettingsChanged := True\<rparr>"

section \<open>A pass of \<open>DemodulatorPreThread\<close>\<close>

text \<open>
  What a pass is given: the buffer of the channelizer, and what the modem's instance answers. Rates
  and bandwidths are not negative.
\<close>

record pass_input =
  pi_frequency :: int
  pi_sampleRate :: int
  pi_size :: nat
  pi_audioSampleRate :: int
  pi_lastSettings :: "string \<Rightarrow> modem_settings"

definition take_frequency :: "pre_thread \<Rightarrow> pre_thread" where
  "take_frequency p =
     (if pr_frequencyChanged p then p\<lparr>pr_currentFrequency := pr_newFrequency p, pr_frequencyChanged := False\<rparr> else p)"

definition take_sample_rate :: "int \<Rightarrow> pre_thread \<Rightarrow> pre_thread" where
  "take_sample_rate r p =
     (if r \<noteq> pr_currentSampleRate p
      then p\<lparr>pr_newSampleRate := r, pr_sampleRateChanged := (r \<noteq> 0 \<or> pr_sampleRateChanged p)\<rparr> else p)"

definition take_audio_rate :: "int \<Rightarrow> pre_thread \<Rightarrow> pre_thread" where
  "take_audio_rate a p =
     (if pr_newAudioSampleRate p = 0
      then p\<lparr>pr_newAudioSampleRate := a, pr_audioSampleRateChanged := (a \<noteq> 0 \<or> pr_audioSampleRateChanged p)\<rparr>
      else if a \<noteq> pr_newAudioSampleRate p \<and> a \<noteq> 0
      then p\<lparr>pr_newAudioSampleRate := a, pr_audioSampleRateChanged := True\<rparr> else p)"

definition rates_known :: "pre_thread \<Rightarrow> bool" where
  "rates_known p \<longleftrightarrow> pr_newSampleRate p \<noteq> 0 \<and> pr_newAudioSampleRate p \<noteq> 0 \<and> pr_newBandwidth p \<noteq> 0"

text \<open>The command for the worker, if any. \<open>rebuild\<close> is what the modem answers to \<open>shouldRebuildKit\<close>.\<close>

definition make_command :: "pass_input \<Rightarrow> pre_thread \<Rightarrow> pre_thread \<times> worker_command option" where
  "make_command inp p =
     (let last = pi_lastSettings inp (pr_newDemodType p);
          settings = (if last \<noteq> [] then fold (\<lambda>(k, v). put_key k v) (pr_modemSettings p) last else pr_modemSettings p)
      in (p\<lparr>pr_demodType := pr_newDemodType p, pr_sampleRateChanged := False, pr_audioSampleRateChanged := False,
            pr_modemSettings := [], pr_modemSettingsChanged := False, pr_cModem := None, pr_cModemKit := None,
            pr_demodTypeChanged := False, pr_initialized := False\<rparr>,
          Some \<lparr>wc_cmd = DEMOD_WORKER_THREAD_CMD_MAKE_DEMOD, wc_frequency = pr_newFrequency p, wc_sampleRate = pr_newSampleRate p,
            wc_bandwidth = pr_newBandwidth p, wc_audioSampleRate = pr_newAudioSampleRate p, wc_demodType = pr_newDemodType p,
            wc_settings = settings\<rparr>))"

definition build_command :: "pre_thread \<Rightarrow> pre_thread \<times> worker_command option" where
  "build_command p =
     (p\<lparr>pr_bandwidthChanged := False, pr_sampleRateChanged := False, pr_audioSampleRateChanged := False, pr_modemSettings := []\<rparr>,
      Some \<lparr>wc_cmd = DEMOD_WORKER_THREAD_CMD_BUILD_FILTERS, wc_frequency = pr_newFrequency p, wc_sampleRate = pr_newSampleRate p,
        wc_bandwidth = pr_newBandwidth p, wc_audioSampleRate = pr_newAudioSampleRate p, wc_demodType = '''', wc_settings = []\<rparr>)"

definition order_filters :: "pass_input \<Rightarrow> bool \<Rightarrow> pre_thread \<Rightarrow> pre_thread \<times> worker_command option" where
  "order_filters inp rebuild p =
     (if pr_demodTypeChanged p \<and> rates_known p then make_command inp p
      else if pr_cModemKit p \<noteq> None \<and> pr_cModem p \<noteq> None \<and>
        (pr_bandwidthChanged p \<or> pr_sampleRateChanged p \<or> pr_audioSampleRateChanged p \<or> rebuild) \<and> rates_known p
      then build_command p
      else (p, None))"

definition take_shift :: "int \<Rightarrow> pre_thread \<Rightarrow> pre_thread" where
  "take_shift f p =
     (if pr_currentFrequency p - f \<noteq> pr_shiftFrequency p then p\<lparr>pr_shiftFrequency := wrap32 (pr_currentFrequency p - f)\<rparr> else p)"

text \<open>\<open>(int) ((double) (inp->sampleRate / 2) * 1.5)\<close>\<close>

definition shift_limit :: "int \<Rightarrow> int" where
  "shift_limit r = cdiv (cdiv r 2 * 3) 2"

text \<open>The modem's flag is read only when it decides.\<close>

definition ask_rebuild :: "pre_thread \<Rightarrow> modem_world \<Rightarrow> bool result" where
  "ask_rebuild p w =
     (case pr_cModem p of
        None \<Rightarrow> Inr False
      | Some m \<Rightarrow> if pr_cModemKit p = None \<or> pr_demodTypeChanged p \<and> rates_known p \<or>
                    pr_bandwidthChanged p \<or> pr_sampleRateChanged p \<or> pr_audioSampleRateChanged p then Inr False
                  else if m \<in> mw_deadModems w then Inl Use_After_Free
                  else Inr (md_refreshKit (mw_modems w ! m)))"

definition post_buffer :: "pass_input \<Rightarrow> pre_thread \<Rightarrow> modem_world \<Rightarrow> post_iq option result" where
  "post_buffer inp p w =
     (case (pr_cModem p, pr_cModemKit p) of
        (Some m, Some k) \<Rightarrow>
          if pi_size inp = 0 \<or> pi_sampleRate inp \<noteq> pr_currentSampleRate p then Inr None
          else if pr_iqResampleRatio p = None then Inl Null_Deref
          else if m \<in> mw_deadModems w then Inl Use_After_Free
          else Inr (Some \<lparr>po_modem = m, po_modemKit = k, po_modemName = md_name (mw_modems w ! m), po_sampleRate = pr_currentBandwidth p\<rparr>)
      | _ \<Rightarrow> Inr None)"

definition pre_front :: "pass_input \<Rightarrow> modem_world \<Rightarrow> modem_world result" where
  "pre_front inp w =
     (if pr_taken (mw_pre w) \<noteq> None then Inr w
      else let p1 = take_audio_rate (pi_audioSampleRate inp) (take_sample_rate (pi_sampleRate inp) (take_frequency (mw_pre w)))
           in bind_result (ask_rebuild p1 w) (\<lambda>rebuild.
              case order_filters inp rebuild p1 of (p2, cmd) \<Rightarrow>
              let p3 = take_shift (pi_frequency inp) p2
              in if cmd \<noteq> None \<and> bq_full (mw_commands w) then Inr w
                 else let cs = (case cmd of None \<Rightarrow> mw_commands w | Some c \<Rightarrow> snd (bq_try_push c (mw_commands w)))
                      in if pr_cModem p3 \<noteq> None \<and> pr_cModemKit p3 \<noteq> None \<and> \<bar>pr_shiftFrequency p3\<bar> > shift_limit (pi_sampleRate inp)
                         then Inr (w\<lparr>mw_pre := p3, mw_commands := cs\<rparr>)
                         else bind_result (post_buffer inp p3 w) (\<lambda>b.
                           if b \<noteq> None \<and> bq_full (mw_output w) then Inr w
                           else Inr (w\<lparr>mw_pre := p3\<lparr>pr_taken := Some (pi_frequency inp)\<rparr>, mw_commands := cs,
                                  mw_output := (case b of None \<Rightarrow> mw_output w | Some x \<Rightarrow> snd (bq_try_push x (mw_output w)))\<rparr>))))"

definition take_result :: "int \<Rightarrow> modem_kit list \<Rightarrow> worker_result \<Rightarrow> pre_thread \<Rightarrow> pre_thread" where
  "take_result f kits r p =
     (let p1 = (case wr_iqResampleRatio r of None \<Rightarrow> p | Some x \<Rightarrow> p\<lparr>pr_iqResampleRatio := Some x\<rparr>);
          p2 = (case wr_modem r of None \<Rightarrow> p1 | Some m \<Rightarrow> p1\<lparr>pr_cModem := Some m\<rparr>);
          p3 = (case wr_modemKit r of None \<Rightarrow> p2
                | Some k \<Rightarrow> p2\<lparr>pr_cModemKit := Some k, pr_currentAudioSampleRate := kt_audioSampleRate (kits ! k)\<rparr>);
          p4 = (if wr_bandwidth r \<noteq> 0 then p3\<lparr>pr_currentBandwidth := wr_bandwidth r\<rparr> else p3);
          p5 = (if wr_sampleRate r \<noteq> 0 then p4\<lparr>pr_currentSampleRate := wr_sampleRate r\<rparr> else p4);
          p6 = (if wr_modemName r \<noteq> '''' then p5\<lparr>pr_demodType := wr_modemName r, pr_demodTypeChanged := False\<rparr> else p5)
      in p6\<lparr>pr_shiftFrequency := wrap32 (f - 1), pr_initialized := (pr_cModem p6 \<noteq> None)\<rparr>)"

definition pre_back :: "modem_world \<Rightarrow> modem_world result" where
  "pre_back w =
     (case pr_taken (mw_pre w) of
        None \<Rightarrow> Inr w
      | Some f \<Rightarrow>
          let p = (fold (take_result f (mw_kits w)) (bq_items (mw_results w)) (mw_pre w))\<lparr>pr_taken := None\<rparr>;
              w1 = w\<lparr>mw_results := bq_flush (mw_results w)\<rparr>
          in case pr_cModem p of
               Some m \<Rightarrow>
                 if \<not> pr_modemSettingsChanged p then Inr (w1\<lparr>mw_pre := p\<rparr>)
                 else if m \<in> mw_deadModems w then Inl Use_After_Free
                 else bind_result (writeSettings (pr_modemSettings p) (mw_modems w ! m)) (\<lambda>md.
                   Inr (w1\<lparr>mw_pre := p\<lparr>pr_modemSettings := [], pr_modemSettingsChanged := False\<rparr>, mw_modems := (mw_modems w)[m := md]\<rparr>))
             | None \<Rightarrow> Inr (w1\<lparr>mw_pre := p\<rparr>))"

section \<open>The worker\<close>

definition worker_pop :: "modem_world \<Rightarrow> modem_world" where
  "worker_pop w =
     (if wk_done (mw_worker w) then w
      else case bq_try_pop (mw_commands w) of
             (None, _) \<Rightarrow> w
           | (Some c, q) \<Rightarrow>
               let k = mw_worker w
               in w\<lparr>mw_commands := q,
                    mw_worker := (case wc_cmd c of
                        DEMOD_WORKER_THREAD_CMD_BUILD_FILTERS \<Rightarrow> k\<lparr>wk_filterCommand := Some c\<rparr>
                      | DEMOD_WORKER_THREAD_CMD_MAKE_DEMOD \<Rightarrow> k\<lparr>wk_demodCommand := Some c\<rparr>)\<lparr>wk_done := bq_empty q\<rparr>\<rparr>)"

text \<open>Making the modem: the worker's pointer and the store.\<close>

definition worker_modem :: "worker_thread \<Rightarrow> modem list \<Rightarrow> (nat option \<times> modem list) result" where
  "worker_modem k ms =
     (case wk_demodCommand k of
        None \<Rightarrow> Inr (wk_cModem k, ms)
      | Some c \<Rightarrow>
          (case makeModem (wc_demodType c) of
             None \<Rightarrow> Inl Null_Deref
           | Some m0 \<Rightarrow> bind_result (writeSettings (wc_settings c) m0) (\<lambda>m1. Inr (Some (length ms), ms @ [m1]))))"

definition rates_of :: "worker_command option \<Rightarrow> int \<times> int" where
  "rates_of c = (case c of None \<Rightarrow> (0, 0) | Some c \<Rightarrow> (wc_bandwidth c, wc_audioSampleRate c))"

text \<open>The bandwidth and the kit, for the modem that is there now.\<close>

definition worker_kit :: "worker_thread \<Rightarrow> nat option \<Rightarrow> modem list \<Rightarrow> modem_kit list \<Rightarrow> int \<times> nat option \<times> modem_kit list" where
  "worker_kit k m ms kits =
     (let build = (\<lambda>(bw, audio). case m of
            Some i \<Rightarrow> let b = checkSampleRate (md_name (ms ! i)) bw audio
                      in (b, Some (length kits), kits @ [buildKit (md_name (ms ! i)) b audio])
          | None \<Rightarrow> (0, None, kits));
          made = rates_of (wk_demodCommand k); filt = rates_of (wk_filterCommand k)
      in if wk_demodCommand k \<noteq> None \<and> fst made \<noteq> 0 \<and> snd made \<noteq> 0 then build made
         else if wk_filterCommand k \<noteq> None \<and> fst filt \<noteq> 0 \<and> snd filt \<noteq> 0 then build filt
         else if wk_demodCommand k \<noteq> None then (0, None, kits)
         else (0, wk_cModemKit k, kits))"

definition worker_work :: "modem_world \<Rightarrow> modem_world result" where
  "worker_work w =
     (let k = mw_worker w
      in if \<not> wk_done k \<or> bq_full (mw_results w) then Inr w
         else if wk_demodCommand k = None \<and> wk_filterCommand k = None then Inr (w\<lparr>mw_worker := k\<lparr>wk_done := False\<rparr>\<rparr>)
         else bind_result (worker_modem k (mw_modems w)) (\<lambda>(m, ms).
              case worker_kit k m ms (mw_kits w) of (bw, kit, kits) \<Rightarrow>
              let rate = (case wk_demodCommand k of Some c \<Rightarrow> wc_sampleRate c
                          | None \<Rightarrow> (case wk_filterCommand k of Some c \<Rightarrow> wc_sampleRate c | None \<Rightarrow> 0));
                  audio = snd (rates_of (if wk_demodCommand k \<noteq> None then wk_demodCommand k else wk_filterCommand k));
                  idle = k\<lparr>wk_cModem := m, wk_cModemKit := kit, wk_filterCommand := None, wk_demodCommand := None, wk_done := False,
                           wk_cModemName := (case wk_demodCommand k of None \<Rightarrow> wk_cModemName k | Some _ \<Rightarrow> md_name (ms ! the m))\<rparr>
              in case m of
                   None \<Rightarrow> Inr (w\<lparr>mw_worker := idle, mw_kits := kits,
                     mw_results := snd (bq_try_push \<lparr>wr_iqResampleRatio = None, wr_sampleRate = rate, wr_bandwidth = bw, wr_modem = None,
                       wr_modemKit = kit, wr_modemName = wk_cModemName idle\<rparr> (mw_results w))\<rparr>)
                 | Some i \<Rightarrow>
                     if i \<in> mw_deadModems w then Inl Use_After_Free
                     else let ok = (rate \<noteq> 0 \<and> bw \<noteq> 0);
                              b = (if ok then checkSampleRate (md_name (ms ! i)) bw audio else bw)
                          in Inr (w\<lparr>mw_worker := idle, mw_kits := kits, mw_modems := ms[i := (ms ! i)\<lparr>md_refreshKit := False\<rparr>],
                               mw_results := snd (bq_try_push \<lparr>wr_iqResampleRatio = (if ok then Some (of_int b / of_int rate) else None),
                                 wr_sampleRate = rate, wr_bandwidth = b, wr_modem = m, wr_modemKit = kit,
                                 wr_modemName = wk_cModemName idle\<rparr> (mw_results w))\<rparr>)))"

section \<open>\<open>DemodulatorThread\<close> takes a buffer\<close>

definition use_modem :: "modem_world \<Rightarrow> nat \<Rightarrow> nat \<Rightarrow> unit result" where
  "use_modem w m k =
     (if m \<in> mw_deadModems w \<or> k \<in> mw_deadKits w then Inl Use_After_Free
      else if kt_class (mw_kits w ! k) \<noteq> kit_class_of (md_name (mw_modems w ! m)) then Inl Bad_Cast else Inr ())"

text \<open>
  When the next modem or kit comes, the old kit is given back to the old modem (\<open>disposeKit\<close>) and
  the old modem is deleted.
\<close>

definition replace_pair :: "nat \<times> nat \<Rightarrow> nat \<times> nat \<Rightarrow> modem_world \<Rightarrow> modem_world result" where
  "replace_pair old new w =
     bind_result (if snd new = snd old then Inr w
        else bind_result (use_modem w (fst old) (snd old)) (\<lambda>_. Inr (w\<lparr>mw_deadKits := insert (snd old) (mw_deadKits w)\<rparr>))) (\<lambda>w1.
     if fst new = fst old then Inr w1
     else if fst old \<in> mw_deadModems w1 then Inl Use_After_Free
     else Inr (w1\<lparr>mw_deadModems := insert (fst old) (mw_deadModems w1)\<rparr>))"

text \<open>A buffer that the resampler left empty is passed over (\<open>drained\<close>).\<close>

definition user_take :: "bool \<Rightarrow> modem_world \<Rightarrow> modem_world result" where
  "user_take drained w =
     (case bq_try_pop (mw_output w) of
        (None, _) \<Rightarrow> Inr w
      | (Some b, q) \<Rightarrow>
          let new = (po_modem b, po_modemKit b)
          in if drained then Inr (w\<lparr>mw_output := q\<rparr>)
             else bind_result (case mw_user w of None \<Rightarrow> Inr w | Some old \<Rightarrow> replace_pair old new w) (\<lambda>w1.
               bind_result (use_modem w1 (fst new) (snd new)) (\<lambda>_. Inr (w1\<lparr>mw_user := Some new, mw_output := q\<rparr>))))"

section \<open>Runs\<close>

datatype modem_step =
    Ask_Type string | Ask_Frequency int | Ask_Sample_Rate int | Ask_Bandwidth int | Ask_Audio_Rate int | Ask_Setting string string
  | Ask_Settings modem_settings | Pre_Front pass_input | Pre_Back | Worker_Pop | Worker_Work | User_Take bool

definition on_pre :: "(pre_thread \<Rightarrow> pre_thread) \<Rightarrow> modem_world \<Rightarrow> modem_world result" where
  "on_pre f w = Inr (w\<lparr>mw_pre := f (mw_pre w)\<rparr>)"

fun do_modem_step :: "modem_step \<Rightarrow> modem_world \<Rightarrow> modem_world result" where
  "do_modem_step (Ask_Type t) w = on_pre (setDemodType t) w"
| "do_modem_step (Ask_Frequency f) w = on_pre (pre_setFrequency f) w"
| "do_modem_step (Ask_Sample_Rate r) w = on_pre (pre_setSampleRate r) w"
| "do_modem_step (Ask_Bandwidth b) w = on_pre (pre_setBandwidth b) w"
| "do_modem_step (Ask_Audio_Rate r) w = on_pre (pre_setAudioSampleRate r) w"
| "do_modem_step (Ask_Setting k v) w = on_pre (writeModemSetting k v) w"
| "do_modem_step (Ask_Settings s) w = on_pre (writeModemSettings s) w"
| "do_modem_step (Pre_Front inp) w = pre_front inp w"
| "do_modem_step Pre_Back w = pre_back w"
| "do_modem_step Worker_Pop w = Inr (worker_pop w)"
| "do_modem_step Worker_Work w = worker_work w"
| "do_modem_step (User_Take e) w = user_take e w"

fun modem_run :: "modem_step list \<Rightarrow> modem_world \<Rightarrow> modem_world result" where
  "modem_run [] w = Inr w"
| "modem_run (s # ss) w = bind_result (do_modem_step s w) (modem_run ss)"

section \<open>No modem is used after it was deleted\<close>

text \<open>
  Every pointer pair in use, from the oldest to the newest: what \<open>DemodulatorThread\<close> holds, the
  buffers on their way to it, what the preprocessor holds, the results on their way to that, and
  the worker's own.
\<close>

definition pair_list :: "nat option \<Rightarrow> nat option \<Rightarrow> (nat \<times> nat) list" where
  "pair_list m k = (case (m, k) of (Some a, Some b) \<Rightarrow> [(a, b)] | _ \<Rightarrow> [])"

definition user_pairs :: "modem_world \<Rightarrow> (nat \<times> nat) list" where
  "user_pairs w = (case mw_user w of None \<Rightarrow> [] | Some p \<Rightarrow> [p])"

definition buffer_pairs :: "modem_world \<Rightarrow> (nat \<times> nat) list" where
  "buffer_pairs w = map (\<lambda>b. (po_modem b, po_modemKit b)) (bq_items (mw_output w))"

definition pre_pairs :: "pre_thread \<Rightarrow> (nat \<times> nat) list" where
  "pre_pairs p = pair_list (pr_cModem p) (pr_cModemKit p)"

definition result_pairs :: "worker_result list \<Rightarrow> (nat \<times> nat) list" where
  "result_pairs rs = concat (map (\<lambda>r. pair_list (wr_modem r) (wr_modemKit r)) rs)"

definition worker_pairs :: "worker_thread \<Rightarrow> (nat \<times> nat) list" where
  "worker_pairs k = pair_list (wk_cModem k) (wk_cModemKit k)"

definition older :: "nat \<times> nat \<Rightarrow> nat \<times> nat \<Rightarrow> bool" where
  "older p q \<longleftrightarrow> fst p \<le> fst q \<and> snd p \<le> snd q"

definition pair_live :: "modem_world \<Rightarrow> nat \<times> nat \<Rightarrow> bool" where
  "pair_live w p \<longleftrightarrow> fst p < length (mw_modems w) \<and> snd p < length (mw_kits w) \<and>
     kt_class (mw_kits w ! snd p) = kit_class_of (md_name (mw_modems w ! fst p)) \<and>
     (\<forall>d\<in>mw_deadModems w. d < fst p) \<and> (\<forall>d\<in>mw_deadKits w. d < snd p)"

definition store_ok :: "modem_world \<Rightarrow> (nat \<times> nat) list \<Rightarrow> bool" where
  "store_ok w c \<longleftrightarrow> sorted_wrt older c \<and> (\<forall>p\<in>set c. pair_live w p) \<and>
     (\<forall>d\<in>mw_deadModems w. d < length (mw_modems w)) \<and> (\<forall>d\<in>mw_deadKits w. d < length (mw_kits w))"

definition pairs_in_use :: "modem_world \<Rightarrow> (nat \<times> nat) list" where
  "pairs_in_use w = user_pairs w @ buffer_pairs w @ pre_pairs (mw_pre w) @ result_pairs (bq_items (mw_results w)) @
     worker_pairs (mw_worker w)"

definition setting_ok :: "string \<times> string \<Rightarrow> bool" where
  "setting_ok kv \<longleftrightarrow> fst kv = ''demph'' \<longrightarrow> (case stoi (snd kv) of Inr _ \<Rightarrow> True | Inl _ \<Rightarrow> False)"

definition command_ok :: "worker_command \<Rightarrow> bool" where
  "command_ok c \<longleftrightarrow> wc_sampleRate c \<noteq> 0 \<and> wc_bandwidth c \<noteq> 0 \<and> wc_audioSampleRate c \<noteq> 0 \<and> list_all setting_ok (wc_settings c) \<and>
     (wc_cmd c = DEMOD_WORKER_THREAD_CMD_MAKE_DEMOD \<longrightarrow> wc_demodType c \<in> set modem_names)"

definition result_ok :: "worker_result \<Rightarrow> bool" where
  "result_ok r \<longleftrightarrow> wr_modem r \<noteq> None \<and> wr_modemKit r \<noteq> None \<and> wr_iqResampleRatio r \<noteq> None"

definition pre_ok :: "pre_thread \<Rightarrow> bool" where
  "pre_ok p \<longleftrightarrow> (pr_cModem p = None \<longleftrightarrow> pr_cModemKit p = None) \<and> (pr_cModem p \<noteq> None \<longrightarrow> pr_iqResampleRatio p \<noteq> None) \<and>
     list_all setting_ok (pr_modemSettings p) \<and> (pr_demodTypeChanged p \<longrightarrow> pr_newDemodType p \<in> set modem_names)"

definition batch_ok :: "worker_thread \<Rightarrow> bool" where
  "batch_ok k \<longleftrightarrow> (wk_cModem k = None \<longleftrightarrow> wk_cModemKit k = None) \<and>
     (case wk_demodCommand k of None \<Rightarrow> True
      | Some c \<Rightarrow> command_ok c \<and> wc_cmd c = DEMOD_WORKER_THREAD_CMD_MAKE_DEMOD) \<and>
     (case wk_filterCommand k of None \<Rightarrow> True
      | Some c \<Rightarrow> command_ok c \<and> wk_cModem k \<noteq> None)"

text \<open>Filters are only ordered for a modem that was made.\<close>

definition orders_ok :: "modem_world \<Rightarrow> bool" where
  "orders_ok w \<longleftrightarrow> list_all command_ok (bq_items (mw_commands w)) \<and>
     (wk_cModem (mw_worker w) = None \<longrightarrow> pr_cModem (mw_pre w) = None \<and> bq_items (mw_results w) = [] \<and>
        list_all (\<lambda>c. wc_cmd c = DEMOD_WORKER_THREAD_CMD_MAKE_DEMOD) (bq_items (mw_commands w)))"

definition modems_ok :: "modem_world \<Rightarrow> bool" where
  "modems_ok w \<longleftrightarrow> store_ok w (pairs_in_use w) \<and> pre_ok (mw_pre w) \<and> batch_ok (mw_worker w) \<and> orders_ok w \<and>
     list_all result_ok (bq_items (mw_results w))"

text \<open>
  What the other threads may ask for. In this range the conversions between \<open>int\<close>, \<open>unsigned int\<close>
  and \<open>long long\<close> on the way of a rate keep it.
\<close>

definition rate_ok :: "int \<Rightarrow> bool" where
  "rate_ok r \<longleftrightarrow> 0 \<le> r \<and> r < 2147483647"

fun asks_ok :: "modem_step \<Rightarrow> bool" where
  "asks_ok (Ask_Type t) \<longleftrightarrow> t \<in> set modem_names"
| "asks_ok (Ask_Setting k v) \<longleftrightarrow> setting_ok (k, v)"
| "asks_ok (Ask_Settings s) \<longleftrightarrow> list_all setting_ok s"
| "asks_ok (Ask_Bandwidth b) \<longleftrightarrow> rate_ok b"
| "asks_ok (Ask_Sample_Rate r) \<longleftrightarrow> rate_ok r"
| "asks_ok (Ask_Audio_Rate r) \<longleftrightarrow> rate_ok r"
| "asks_ok (Pre_Front inp) \<longleftrightarrow> rate_ok (pi_sampleRate inp) \<and> rate_ok (pi_audioSampleRate inp) \<and>
     list_all (\<lambda>t. list_all setting_ok (pi_lastSettings inp t)) modem_names"
| "asks_ok _ \<longleftrightarrow> True"

lemmas pairs_defs = pair_list_def user_pairs_def buffer_pairs_def pre_pairs_def result_pairs_def worker_pairs_def

lemma older_refl [simp]: "older p p"
  by (simp add: older_def)

lemma older_trans: "older p q \<Longrightarrow> older q r \<Longrightarrow> older p r"
  by (simp add: older_def)

lemma modems_ok_init: "modems_ok modem_world_init"
  by (simp add: modems_ok_def modem_world_init_def store_ok_def pairs_in_use_def pairs_defs pre_ok_def batch_ok_def orders_ok_def
      DemodulatorPreThread_init_def DemodulatorWorkerThread_init_def ThreadBlockingQueue_init_def set_max_num_items_def)

lemma pair_liveD:
  assumes "store_ok w c" "p \<in> set c"
  shows "fst p \<notin> mw_deadModems w" "snd p \<notin> mw_deadKits w" "use_modem w (fst p) (snd p) = Inr ()"
  using assms by (auto simp: store_ok_def pair_live_def use_modem_def)

lemma bq_push_items: "\<not> bq_full q \<Longrightarrow> bq_items (snd (bq_try_push x q)) = bq_items q @ [x]"
  by (simp add: bq_full_def bq_try_push_def)

subsection \<open>Settings\<close>

lemma modem_writeSetting_ok:
  assumes "setting_ok (k, v)"
  shows "\<exists>m'. modem_writeSetting k v m = Inr m' \<and> md_name m' = md_name m"
  using assms by (cases "stoi v") (auto simp: modem_writeSetting_def setting_ok_def)

lemma writeSettings_ok:
  "list_all setting_ok s \<Longrightarrow> \<exists>m'. writeSettings s m = Inr m' \<and> md_name m' = md_name m"
proof (induction s arbitrary: m)
  case (Cons kv s)
  obtain k v where kv: "kv = (k, v)" by (cases kv)
  with Cons.prems obtain m1 where "modem_writeSetting k v m = Inr m1" "md_name m1 = md_name m"
    using modem_writeSetting_ok [of k v m] by auto
  with Cons kv show ?case by fastforce
qed simp

lemma put_key_ok: "setting_ok (k, v) \<Longrightarrow> list_all setting_ok s \<Longrightarrow> list_all setting_ok (put_key k v s)"
  by (induction k v s rule: put_key.induct) auto

lemma put_all_ok:
  "list_all setting_ok s \<Longrightarrow> list_all setting_ok l \<Longrightarrow> list_all setting_ok (fold (\<lambda>(k, v). put_key k v) s l)"
  by (induction s arbitrary: l) (auto simp: put_key_ok)

lemma checkSampleRate_nonzero: "audio \<noteq> 0 \<Longrightarrow> checkSampleRate n bw audio \<noteq> 0"
  by (auto simp: checkSampleRate_def MIN_BANDWIDTH_def)

subsection \<open>The preprocessor's first half\<close>

lemma store_ok_sub: "store_ok w c \<Longrightarrow> sorted_wrt older c' \<Longrightarrow> set c' \<subseteq> set c \<Longrightarrow> store_ok w c'"
  by (auto simp: store_ok_def)

lemma store_ok_sorted: "store_ok w c \<Longrightarrow> sorted_wrt older c"
  by (simp add: store_ok_def)

lemma store_ok_updates [simp]:
  "store_ok (w\<lparr>mw_pre := p\<rparr>) c = store_ok w c"
  "store_ok (w\<lparr>mw_worker := k\<rparr>) c = store_ok w c"
  "store_ok (w\<lparr>mw_user := u\<rparr>) c = store_ok w c"
  "store_ok (w\<lparr>mw_commands := cs\<rparr>) c = store_ok w c"
  "store_ok (w\<lparr>mw_results := rs\<rparr>) c = store_ok w c"
  "store_ok (w\<lparr>mw_output := out\<rparr>) c = store_ok w c"
  by (simp_all add: store_ok_def pair_live_def)

lemma takes_keep:
  "pre_pairs (take_audio_rate a (take_sample_rate r (take_frequency p))) = pre_pairs p"
  "pr_cModem (take_audio_rate a (take_sample_rate r (take_frequency p))) = pr_cModem p"
  "pre_ok (take_audio_rate a (take_sample_rate r (take_frequency p))) = pre_ok p"
  by (simp_all add: pre_pairs_def pre_ok_def take_audio_rate_def take_sample_rate_def take_frequency_def)

lemma take_shift_keeps [simp]:
  "pre_pairs (take_shift f p) = pre_pairs p" "pr_cModem (take_shift f p) = pr_cModem p" "pre_ok (take_shift f p) = pre_ok p"
  by (simp_all add: take_shift_def pre_pairs_def pre_ok_def)

lemma pre_pairs_Some: "pre_ok p \<Longrightarrow> pr_cModem p = Some m \<Longrightarrow> \<exists>k. pr_cModemKit p = Some k \<and> pre_pairs p = [(m, k)]"
  by (auto simp: pre_ok_def pre_pairs_def pair_list_def)

lemma pre_pairs_None: "pr_cModem p = None \<Longrightarrow> pre_pairs p = []"
  by (simp add: pre_pairs_def pair_list_def)

lemma order_filters_ok:
  assumes "order_filters inp rb p = (p2, cmd)" "pre_ok p" "list_all (\<lambda>t. list_all setting_ok (pi_lastSettings inp t)) modem_names"
  shows "pre_ok p2" "pre_pairs p2 = [] \<and> pr_cModem p2 = None \<or> pre_pairs p2 = pre_pairs p \<and> pr_cModem p2 = pr_cModem p"
    "cmd = Some c \<Longrightarrow> command_ok c" "cmd = Some c \<Longrightarrow> pr_cModem p = None \<Longrightarrow> wc_cmd c = DEMOD_WORKER_THREAD_CMD_MAKE_DEMOD"
proof -
  consider (make) "pr_demodTypeChanged p" "rates_known p" "make_command inp p = (p2, cmd)"
    | (build) "pr_cModem p \<noteq> None" "rates_known p" "build_command p = (p2, cmd)" | (none) "p2 = p" "cmd = None"
    using assms(1) by (auto simp: order_filters_def split: if_splits)
  then have "pre_ok p2 \<and> (pre_pairs p2 = [] \<and> pr_cModem p2 = None \<or> pre_pairs p2 = pre_pairs p \<and> pr_cModem p2 = pr_cModem p) \<and>
    (\<forall>c. cmd = Some c \<longrightarrow> command_ok c \<and> (pr_cModem p = None \<longrightarrow> wc_cmd c = DEMOD_WORKER_THREAD_CMD_MAKE_DEMOD))"
  proof cases
    case make
    then have "list_all setting_ok (pi_lastSettings inp (pr_newDemodType p))"
      using assms(2,3) by (auto simp: pre_ok_def list_all_iff)
    with make assms(2) show ?thesis
      by (auto simp: make_command_def Let_def pre_ok_def command_ok_def rates_known_def put_all_ok pre_pairs_def pair_list_def)
  next
    case build
    with assms(2) show ?thesis
      by (auto simp: build_command_def pre_ok_def command_ok_def rates_known_def pre_pairs_def)
  qed (use assms(2) in simp)
  then show "pre_ok p2" "pre_pairs p2 = [] \<and> pr_cModem p2 = None \<or> pre_pairs p2 = pre_pairs p \<and> pr_cModem p2 = pr_cModem p"
    "cmd = Some c \<Longrightarrow> command_ok c" "cmd = Some c \<Longrightarrow> pr_cModem p = None \<Longrightarrow> wc_cmd c = DEMOD_WORKER_THREAD_CMD_MAKE_DEMOD"
    by blast+
qed

lemma ask_rebuild_ok:
  assumes "store_ok w c" "set (pre_pairs p) \<subseteq> set c" "pre_ok p"
  shows "\<exists>b. ask_rebuild p w = Inr b"
proof (cases "pr_cModem p")
  case (Some m)
  then obtain k where "pr_cModemKit p = Some k" "pre_pairs p = [(m, k)]" using pre_pairs_Some assms(3) by blast
  with assms(1,2) have "m \<notin> mw_deadModems w" using pair_liveD(1) by fastforce
  with Some show ?thesis by (simp add: ask_rebuild_def) (auto intro: exI [of _ False])
qed (auto simp: ask_rebuild_def)

lemma post_buffer_ok:
  assumes "store_ok w c" "set (pre_pairs p) \<subseteq> set c" "pre_ok p"
  shows "post_buffer inp p w = Inr None \<or> (\<exists>b. post_buffer inp p w = Inr (Some b) \<and> pre_pairs p = [(po_modem b, po_modemKit b)])"
proof (cases "pr_cModem p")
  case (Some m)
  then obtain k where k: "pr_cModemKit p = Some k" "pre_pairs p = [(m, k)]" using pre_pairs_Some assms(3) by blast
  with assms(1,2) have "m \<notin> mw_deadModems w" using pair_liveD(1) by fastforce
  with Some k assms(3) show ?thesis by (auto simp: post_buffer_def pre_ok_def)
qed (simp add: post_buffer_def)

lemma sorted_drop_mid: "sorted_wrt older (a @ b @ c) \<Longrightarrow> sorted_wrt older (a @ c)"
  by (simp add: sorted_wrt_append)

lemma sorted_copy_mid: "sorted_wrt older (a @ b @ [x] @ c) \<Longrightarrow> sorted_wrt older (a @ (b @ [x]) @ [x] @ c)"
  by (auto simp: sorted_wrt_append)

lemma modems_ok_pre:
  assumes ok: "modems_ok w"
    and p: "pre_ok p" "pre_pairs p = [] \<and> pr_cModem p = None \<or> pre_pairs p = pre_pairs (mw_pre w) \<and> pr_cModem p = pr_cModem (mw_pre w)"
    and cs: "list_all command_ok (bq_items cs)"
      "wk_cModem (mw_worker w) = None \<Longrightarrow> list_all (\<lambda>c. wc_cmd c = DEMOD_WORKER_THREAD_CMD_MAKE_DEMOD) (bq_items cs)"
    and out: "bq_items out = bq_items (mw_output w) \<or>
      (\<exists>b. bq_items out = bq_items (mw_output w) @ [b] \<and> pre_pairs p = [(po_modem b, po_modemKit b)])"
  shows "modems_ok (w\<lparr>mw_pre := p, mw_commands := cs, mw_output := out\<rparr>)" (is "modems_ok ?w")
proof -
  let ?o = "\<lambda>q. map (\<lambda>b. (po_modem b, po_modemKit b)) (bq_items q)"
  let ?tl = "result_pairs (bq_items (mw_results w)) @ worker_pairs (mw_worker w)"
  have st: "store_ok w (pairs_in_use w)" using ok by (simp add: modems_ok_def)
  have old: "pairs_in_use w = user_pairs w @ ?o (mw_output w) @ pre_pairs (mw_pre w) @ ?tl"
    and new: "pairs_in_use ?w = user_pairs w @ ?o out @ pre_pairs p @ ?tl"
    by (simp_all add: pairs_in_use_def user_pairs_def buffer_pairs_def)
  have "store_ok w (pairs_in_use ?w)"
  proof (rule store_ok_sub [OF st])
    note s = store_ok_sorted [OF st, unfolded old]
    from out p(2) consider "?o out = ?o (mw_output w)" "pre_pairs p = []"
      | "?o out = ?o (mw_output w)" "pre_pairs p = pre_pairs (mw_pre w)"
      | b where "?o out = ?o (mw_output w) @ [b]" "pre_pairs p = [b]" "pre_pairs (mw_pre w) = [b]"
      by (elim disjE exE conjE) (auto simp del: map_append, auto)
    then have "sorted_wrt older (pairs_in_use ?w) \<and> set (pairs_in_use ?w) \<subseteq> set (pairs_in_use w)"
    proof cases
      case 1
      with s show ?thesis unfolding old new
        by (auto simp: sorted_wrt_append)
    next
      case 2
      with s show ?thesis unfolding old new by simp
    next
      case 3
      with sorted_copy_mid [of "user_pairs w" "?o (mw_output w)" _ ?tl] s show ?thesis unfolding old new by auto
    qed
    then show "sorted_wrt older (pairs_in_use ?w)" "set (pairs_in_use ?w) \<subseteq> set (pairs_in_use w)" by blast+
  qed
  moreover have "orders_ok ?w" using ok p(2) cs by (auto simp: modems_ok_def orders_ok_def)
  ultimately show ?thesis using ok p(1) by (simp add: modems_ok_def)
qed

lemma pre_front_ok:
  assumes ok: "modems_ok w" and inp: "list_all (\<lambda>t. list_all setting_ok (pi_lastSettings inp t)) modem_names"
  shows "\<exists>w'. pre_front inp w = Inr w' \<and> modems_ok w'"
proof (cases "pr_taken (mw_pre w) = None")
  case False
  with ok show ?thesis by (simp add: pre_front_def)
next
  case taken: True
  define p1 where "p1 = take_audio_rate (pi_audioSampleRate inp) (take_sample_rate (pi_sampleRate inp) (take_frequency (mw_pre w)))"
  have p1: "pre_pairs p1 = pre_pairs (mw_pre w)" "pr_cModem p1 = pr_cModem (mw_pre w)" "pre_ok p1"
    using ok by (simp_all add: p1_def takes_keep modems_ok_def)
  have st: "store_ok w (pairs_in_use w)" using ok by (simp add: modems_ok_def)
  have sub: "set (pre_pairs p1) \<subseteq> set (pairs_in_use w)" by (auto simp: p1 pairs_in_use_def)
  obtain rb where rb: "ask_rebuild p1 w = Inr rb" using ask_rebuild_ok [OF st sub p1(3)] by blast
  obtain p2 cmd where of: "order_filters inp rb p1 = (p2, cmd)" by (cases "order_filters inp rb p1")
  note of_ok = order_filters_ok [OF of p1(3) inp]
  define p3 where "p3 = take_shift (pi_frequency inp) p2"
  have p3: "pre_pairs p3 = [] \<and> pr_cModem p3 = None \<or> pre_pairs p3 = pre_pairs (mw_pre w) \<and> pr_cModem p3 = pr_cModem (mw_pre w)" "pre_ok p3"
    using of_ok(1,2) p1 by (auto simp: p3_def)
  define cs where "cs = (case cmd of None \<Rightarrow> mw_commands w | Some c \<Rightarrow> snd (bq_try_push c (mw_commands w)))"
  have sub3: "set (pre_pairs p3) \<subseteq> set (pairs_in_use w)" using p3(1) by (auto simp: pairs_in_use_def)
  have cs: "list_all command_ok (bq_items cs)"
      "wk_cModem (mw_worker w) = None \<Longrightarrow> list_all (\<lambda>c. wc_cmd c = DEMOD_WORKER_THREAD_CMD_MAKE_DEMOD) (bq_items cs)"
    if "\<not> (cmd \<noteq> None \<and> bq_full (mw_commands w))"
    using that ok of_ok(3,4) p1(2) by (auto simp: cs_def modems_ok_def orders_ok_def bq_push_items split: option.splits)
  have pt: "pre_ok (p3\<lparr>pr_taken := t\<rparr>)" "pre_pairs (p3\<lparr>pr_taken := t\<rparr>) = pre_pairs p3" for t
    using p3(2) by (auto simp: pre_ok_def pre_pairs_def)
  have front: "pre_front inp w =
     (if cmd \<noteq> None \<and> bq_full (mw_commands w) then Inr w
      else if pr_cModem p3 \<noteq> None \<and> pr_cModemKit p3 \<noteq> None \<and> \<bar>pr_shiftFrequency p3\<bar> > shift_limit (pi_sampleRate inp)
      then Inr (w\<lparr>mw_pre := p3, mw_commands := cs\<rparr>)
      else bind_result (post_buffer inp p3 w) (\<lambda>b.
        if b \<noteq> None \<and> bq_full (mw_output w) then Inr w
        else Inr (w\<lparr>mw_pre := p3\<lparr>pr_taken := Some (pi_frequency inp)\<rparr>, mw_commands := cs,
               mw_output := (case b of None \<Rightarrow> mw_output w | Some x \<Rightarrow> snd (bq_try_push x (mw_output w)))\<rparr>)))"
    unfolding pre_front_def Let_def p1_def [symmetric] rb bind_result_simps of prod.case p3_def [symmetric] cs_def [symmetric]
    by (simp only: taken simp_thms if_False)
  consider (wait) "cmd \<noteq> None \<and> bq_full (mw_commands w)"
    | (skip) "\<not> (cmd \<noteq> None \<and> bq_full (mw_commands w))" "pre_front inp w = Inr (w\<lparr>mw_pre := p3, mw_commands := cs\<rparr>)"
    | (post) "\<not> (cmd \<noteq> None \<and> bq_full (mw_commands w))" "pre_front inp w = bind_result (post_buffer inp p3 w) (\<lambda>b.
        if b \<noteq> None \<and> bq_full (mw_output w) then Inr w
        else Inr (w\<lparr>mw_pre := p3\<lparr>pr_taken := Some (pi_frequency inp)\<rparr>, mw_commands := cs,
               mw_output := (case b of None \<Rightarrow> mw_output w | Some x \<Rightarrow> snd (bq_try_push x (mw_output w)))\<rparr>))"
    using front by (metis (no_types, lifting))
  then show ?thesis
  proof cases
    case wait
    with ok front show ?thesis by simp
  next
    case skip
    have "modems_ok (w\<lparr>mw_pre := p3, mw_commands := cs, mw_output := mw_output w\<rparr>)"
      by (rule modems_ok_pre [OF ok p3(2,1) cs [OF skip(1)]]) simp_all
    with skip(2) show ?thesis by simp
  next
    case post
    note keep = modems_ok_pre [OF ok pt(1) [of "Some (pi_frequency inp)"] _ cs [OF post(1)], unfolded pt(2)]
    from post_buffer_ok [OF st sub3 p3(2), of inp] show ?thesis
    proof (elim disjE exE conjE)
      assume "post_buffer inp p3 w = Inr None"
      with post(2) keep [of "mw_output w"] p3(1) show ?thesis by simp
    next
      fix b assume "post_buffer inp p3 w = Inr (Some b)" "pre_pairs p3 = [(po_modem b, po_modemKit b)]"
      with post(2) keep [of "snd (bq_try_push b (mw_output w))"] p3(1) ok show ?thesis
        by (cases "bq_full (mw_output w)") (simp_all add: bq_push_items)
    qed
  qed
qed

subsection \<open>Its second half\<close>

lemma take_result_ok:
  assumes "pre_ok p" "result_ok r"
  shows "pre_ok (take_result f kits r p)" "pre_pairs (take_result f kits r p) = pair_list (wr_modem r) (wr_modemKit r)"
  using assms by (auto simp: take_result_def Let_def pre_ok_def pre_pairs_def result_ok_def)

lemma fold_take_result:
  assumes "pre_ok p" "list_all result_ok rs" "sorted_wrt older (a @ pre_pairs p @ result_pairs rs @ c)"
  shows "pre_ok (fold (take_result f kits) rs p) \<and> sorted_wrt older (a @ pre_pairs (fold (take_result f kits) rs p) @ c) \<and>
    set (pre_pairs (fold (take_result f kits) rs p)) \<subseteq> set (pre_pairs p @ result_pairs rs)"
  using assms
proof (induction rs arbitrary: p)
  case (Cons r rs)
  let ?p = "take_result f kits r p"
  have r: "result_ok r" using Cons.prems(2) by simp
  note tr = take_result_ok [OF Cons.prems(1) r, of f kits]
  have "sorted_wrt older (a @ pre_pairs ?p @ result_pairs rs @ c)"
    using Cons.prems(3) sorted_drop_mid [of a "pre_pairs p"] by (simp add: tr(2) result_pairs_def)
  with Cons.IH [OF tr(1)] Cons.prems(2) show ?case by (auto simp: tr(2) result_pairs_def)
qed (simp add: result_pairs_def)

lemma store_ok_rename:
  assumes "md_name md = md_name (mw_modems w ! m)"
  shows "store_ok (w\<lparr>mw_modems := (mw_modems w)[m := md]\<rparr>) c = store_ok w c"
proof -
  have "md_name ((mw_modems w)[m := md] ! i) = md_name (mw_modems w ! i)" for i
    using assms by (cases "m < length (mw_modems w)") (auto simp: nth_list_update list_update_beyond)
  then show ?thesis by (simp add: store_ok_def pair_live_def)
qed

lemma pre_back_ok:
  assumes ok: "modems_ok w"
  shows "\<exists>w'. pre_back w = Inr w' \<and> modems_ok w'"
proof (cases "pr_taken (mw_pre w)")
  case None
  with ok show ?thesis by (simp add: pre_back_def)
next
  case (Some f)
  define q where "q = fold (take_result f (mw_kits w)) (bq_items (mw_results w)) (mw_pre w)"
  define p where "p = q\<lparr>pr_taken := None\<rparr>"
  define w1 where "w1 = w\<lparr>mw_results := bq_flush (mw_results w)\<rparr>"
  have st: "store_ok w (pairs_in_use w)" using ok by (simp add: modems_ok_def)
  have "pre_ok q \<and> sorted_wrt older ((user_pairs w @ buffer_pairs w) @ pre_pairs q @ worker_pairs (mw_worker w)) \<and>
    set (pre_pairs q) \<subseteq> set (pre_pairs (mw_pre w) @ result_pairs (bq_items (mw_results w)))"
    unfolding q_def using ok store_ok_sorted [OF st]
    by (intro fold_take_result) (simp_all add: modems_ok_def pairs_in_use_def)
  then have q: "pre_ok p" "sorted_wrt older (user_pairs w @ buffer_pairs w @ pre_pairs p @ worker_pairs (mw_worker w))"
      "set (pre_pairs p) \<subseteq> set (pairs_in_use w)"
    by (auto simp: p_def pre_ok_def pre_pairs_def pairs_in_use_def)
  have worker: "pr_cModem p = None" if "wk_cModem (mw_worker w) = None"
    using that ok by (simp add: modems_ok_def orders_ok_def p_def q_def)
  have keep: "modems_ok (w1\<lparr>mw_pre := p'\<rparr>)" if "pre_ok p'" "pre_pairs p' = pre_pairs p" "pr_cModem p' = pr_cModem p" for p'
  proof -
    have "pairs_in_use (w1\<lparr>mw_pre := p'\<rparr>) = user_pairs w @ buffer_pairs w @ pre_pairs p @ worker_pairs (mw_worker w)"
      by (simp add: pairs_in_use_def w1_def that user_pairs_def buffer_pairs_def result_pairs_def bq_flush_def)
    moreover have "set \<dots> \<subseteq> set (pairs_in_use w)" using q(3) by (auto simp: pairs_in_use_def)
    ultimately have "store_ok w (pairs_in_use (w1\<lparr>mw_pre := p'\<rparr>))" using store_ok_sub [OF st q(2)] by simp
    with ok that worker show ?thesis by (simp add: modems_ok_def orders_ok_def w1_def bq_flush_def)
  qed
  show ?thesis
  proof (cases "pr_cModem p")
    case None
    then show ?thesis using keep [of p] q(1) Some
      by (simp add: pre_back_def q_def [symmetric] p_def [symmetric] w1_def [symmetric])
  next
    case m: (Some m)
    then obtain k where "pre_pairs p = [(m, k)]" using pre_pairs_Some q(1) by blast
    with q(3) have live: "m \<notin> mw_deadModems w" using pair_liveD(1) [OF st, of "(m, k)"] by simp
    show ?thesis
    proof (cases "pr_modemSettingsChanged p")
      case False
      with Some m show ?thesis using keep [of p] q(1)
        by (simp add: pre_back_def q_def [symmetric] p_def [symmetric] w1_def [symmetric])
    next
      case True
      define p' where "p' = p\<lparr>pr_modemSettings := [], pr_modemSettingsChanged := False\<rparr>"
      have "list_all setting_ok (pr_modemSettings p)" using q(1) by (simp add: pre_ok_def)
      then obtain md where md: "writeSettings (pr_modemSettings p) (mw_modems w ! m) = Inr md" "md_name md = md_name (mw_modems w ! m)"
        using writeSettings_ok by blast
      have "modems_ok (w1\<lparr>mw_pre := p'\<rparr>)"
        by (rule keep) (use q(1) in \<open>auto simp: p'_def pre_ok_def pre_pairs_def\<close>)
      moreover have "md_name md = md_name (mw_modems (w1\<lparr>mw_pre := p'\<rparr>) ! m)" using md(2) by (simp add: w1_def)
      moreover have "pairs_in_use (w1\<lparr>mw_pre := p', mw_modems := ms\<rparr>) = pairs_in_use (w1\<lparr>mw_pre := p'\<rparr>)" for ms
        by (simp add: pairs_in_use_def user_pairs_def buffer_pairs_def)
      ultimately have "modems_ok (w1\<lparr>mw_pre := p', mw_modems := (mw_modems w)[m := md]\<rparr>)"
        using store_ok_rename [of md "w1\<lparr>mw_pre := p'\<rparr>" m] by (simp add: modems_ok_def orders_ok_def w1_def)
      with Some m True live md(1) show ?thesis
        by (simp add: pre_back_def q_def [symmetric] p_def [symmetric] w1_def [symmetric] p'_def [symmetric])
    qed
  qed
qed

subsection \<open>The worker\<close>

lemma worker_pop_ok:
  assumes ok: "modems_ok w"
  shows "modems_ok (worker_pop w)"
proof (cases "wk_done (mw_worker w) \<or> bq_items (mw_commands w) = []")
  case True
  with ok show ?thesis by (auto simp: worker_pop_def bq_try_pop_def)
next
  case False
  then obtain c cs where cs: "bq_items (mw_commands w) = c # cs" by (cases "bq_items (mw_commands w)") auto
  have c: "command_ok c" "list_all command_ok cs"
    and make: "wk_cModem (mw_worker w) = None \<Longrightarrow>
      wc_cmd c = DEMOD_WORKER_THREAD_CMD_MAKE_DEMOD \<and> list_all (\<lambda>c. wc_cmd c = DEMOD_WORKER_THREAD_CMD_MAKE_DEMOD) cs"
    using ok cs by (simp_all add: modems_ok_def orders_ok_def)
  define k' where "k' = (case wc_cmd c of
      DEMOD_WORKER_THREAD_CMD_BUILD_FILTERS \<Rightarrow> mw_worker w\<lparr>wk_filterCommand := Some c\<rparr>
    | DEMOD_WORKER_THREAD_CMD_MAKE_DEMOD \<Rightarrow> mw_worker w\<lparr>wk_demodCommand := Some c\<rparr>)\<lparr>wk_done := (cs = [])\<rparr>"
  have w': "worker_pop w = w\<lparr>mw_commands := (mw_commands w)\<lparr>bq_items := cs\<rparr>, mw_worker := k'\<rparr>"
    using False cs by (simp add: worker_pop_def bq_try_pop_def bq_empty_def Let_def k'_def)
  have k'1: "wk_cModem k' = wk_cModem (mw_worker w)" by (cases "wc_cmd c") (simp_all add: k'_def)
  have k'2: "wk_cModemKit k' = wk_cModemKit (mw_worker w)" by (cases "wc_cmd c") (simp_all add: k'_def)
  have "batch_ok (mw_worker w)" using ok by (simp add: modems_ok_def)
  then have "batch_ok k'" using make c
    by (cases "wc_cmd c") (auto simp: k'_def batch_ok_def split: option.splits)
  note k' = k'1 k'2 this
  have "pairs_in_use (worker_pop w) = pairs_in_use w"
    by (simp add: w' pairs_in_use_def user_pairs_def buffer_pairs_def worker_pairs_def k')
  with ok k' c make show ?thesis by (auto simp: modems_ok_def orders_ok_def w')
qed

lemma makeModem_known: "t \<in> set modem_names \<Longrightarrow> \<exists>m. makeModem t = Some m \<and> md_name m = t"
  by (simp add: makeModem_def)

text \<open>What the worker leaves when it has worked on a command.\<close>

definition worker_made :: "modem_world \<Rightarrow> nat \<Rightarrow> worker_thread \<Rightarrow> modem list \<Rightarrow> modem_kit \<Rightarrow> worker_result \<Rightarrow> bool" where
  "worker_made w i k ms kit r \<longleftrightarrow>
     worker_work w = Inr (w\<lparr>mw_worker := k, mw_kits := mw_kits w @ [kit], mw_modems := ms,
       mw_results := snd (bq_try_push r (mw_results w))\<rparr>) \<and>
     wk_cModem k = Some i \<and> wk_cModemKit k = Some (length (mw_kits w)) \<and> wk_demodCommand k = None \<and> wk_filterCommand k = None \<and>
     result_ok r \<and> wr_modem r = Some i \<and> wr_modemKit r = Some (length (mw_kits w)) \<and>
     length (mw_modems w) \<le> length ms \<and> (\<forall>j<length (mw_modems w). md_name (ms ! j) = md_name (mw_modems w ! j)) \<and>
     i < length ms \<and> kt_class kit = kit_class_of (md_name (ms ! i)) \<and>
     (i = length (mw_modems w) \<or> wk_cModem (mw_worker w) = Some i)"

lemma worker_makes:
  assumes ok: "modems_ok w" and go: "wk_done (mw_worker w)" "\<not> bq_full (mw_results w)"
    and c: "wk_demodCommand (mw_worker w) = Some c"
  shows "\<exists>i k ms kit r. worker_made w i k ms kit r"
proof -
  have c_ok: "command_ok c" "wc_cmd c = DEMOD_WORKER_THREAD_CMD_MAKE_DEMOD"
    using ok c by (simp_all add: modems_ok_def batch_ok_def)
  then obtain m0 where m0: "makeModem (wc_demodType c) = Some m0" using makeModem_known by (auto simp: command_ok_def)
  obtain m1 where m1: "writeSettings (wc_settings c) m0 = Inr m1"
    using writeSettings_ok c_ok(1) by (metis command_ok_def)
  have dead: "length (mw_modems w) \<notin> mw_deadModems w" using ok by (auto simp: modems_ok_def store_ok_def)
  have rates: "wc_sampleRate c \<noteq> 0" "wc_bandwidth c \<noteq> 0" "wc_audioSampleRate c \<noteq> 0" using c_ok by (simp_all add: command_ok_def)
  define b where "b = checkSampleRate (md_name m1) (wc_bandwidth c) (wc_audioSampleRate c)"
  have b: "b \<noteq> 0" by (simp add: b_def rates checkSampleRate_nonzero)
  have "worker_made w (length (mw_modems w))
     (mw_worker w\<lparr>wk_cModem := Some (length (mw_modems w)), wk_cModemKit := Some (length (mw_kits w)), wk_filterCommand := None,
        wk_demodCommand := None, wk_done := False, wk_cModemName := md_name m1\<rparr>)
     (mw_modems w @ [m1\<lparr>md_refreshKit := False\<rparr>]) (buildKit (md_name m1) b (wc_audioSampleRate c))
     \<lparr>wr_iqResampleRatio = Some (of_int (checkSampleRate (md_name m1) b (wc_audioSampleRate c)) / of_int (wc_sampleRate c)),
        wr_sampleRate = wc_sampleRate c, wr_bandwidth = checkSampleRate (md_name m1) b (wc_audioSampleRate c),
        wr_modem = Some (length (mw_modems w)), wr_modemKit = Some (length (mw_kits w)), wr_modemName = md_name m1\<rparr>"
    unfolding worker_made_def worker_work_def Let_def
    by (simp add: go c worker_modem_def m0 m1 worker_kit_def rates_of_def rates dead b b_def [symmetric] Let_def
        result_ok_def buildKit_def nth_append)
  then show ?thesis by blast
qed

lemma worker_builds:
  assumes ok: "modems_ok w" and go: "wk_done (mw_worker w)" "\<not> bq_full (mw_results w)"
    and c: "wk_demodCommand (mw_worker w) = None" "wk_filterCommand (mw_worker w) = Some c"
  shows "\<exists>i k ms kit r. worker_made w i k ms kit r"
proof -
  obtain i k where ik: "wk_cModem (mw_worker w) = Some i" "wk_cModemKit (mw_worker w) = Some k" and c_ok: "command_ok c"
    using ok c by (auto simp: modems_ok_def batch_ok_def)
  then have "(i, k) \<in> set (pairs_in_use w)" by (simp add: pairs_in_use_def worker_pairs_def pair_list_def)
  moreover have "store_ok w (pairs_in_use w)" using ok by (simp add: modems_ok_def)
  ultimately have i: "i \<notin> mw_deadModems w" "i < length (mw_modems w)"
    using pair_liveD(1) [of w _ "(i, k)"] by (auto simp: store_ok_def pair_live_def)
  have rates: "wc_sampleRate c \<noteq> 0" "wc_bandwidth c \<noteq> 0" "wc_audioSampleRate c \<noteq> 0" using c_ok by (simp_all add: command_ok_def)
  define n where "n = md_name (mw_modems w ! i)"
  define b where "b = checkSampleRate n (wc_bandwidth c) (wc_audioSampleRate c)"
  have b: "b \<noteq> 0" by (simp add: b_def rates checkSampleRate_nonzero)
  have "worker_made w i
     (mw_worker w\<lparr>wk_cModem := Some i, wk_cModemKit := Some (length (mw_kits w)), wk_filterCommand := None,
        wk_demodCommand := None, wk_done := False, wk_cModemName := wk_cModemName (mw_worker w)\<rparr>)
     ((mw_modems w)[i := (mw_modems w ! i)\<lparr>md_refreshKit := False\<rparr>]) (buildKit n b (wc_audioSampleRate c))
     \<lparr>wr_iqResampleRatio = Some (of_int (checkSampleRate n b (wc_audioSampleRate c)) / of_int (wc_sampleRate c)),
        wr_sampleRate = wc_sampleRate c, wr_bandwidth = checkSampleRate n b (wc_audioSampleRate c),
        wr_modem = Some i, wr_modemKit = Some (length (mw_kits w)), wr_modemName = wk_cModemName (mw_worker w)\<rparr>"
    unfolding worker_made_def worker_work_def Let_def
    by (simp add: go c ik worker_modem_def worker_kit_def rates_of_def rates i b n_def [symmetric] b_def [symmetric] Let_def
        result_ok_def buildKit_def nth_list_update)
  then show ?thesis by blast
qed

lemma store_ok_grow:
  assumes st: "store_ok w (c @ d)" and new: "worker_made w i k ms kit r" and last: "i = length (mw_modems w) \<or> (\<exists>j. last (c @ d) = (i, j) \<and> c @ d \<noteq> [])"
  shows "store_ok (w\<lparr>mw_kits := mw_kits w @ [kit], mw_modems := ms\<rparr>) (c @ [(i, length (mw_kits w)), (i, length (mw_kits w))])"
proof -
  let ?w = "w\<lparr>mw_kits := mw_kits w @ [kit], mw_modems := ms\<rparr>"
  note made = new [unfolded worker_made_def]
  have live: "pair_live w p" if "p \<in> set (c @ d)" for p using st that by (simp add: store_ok_def)
  have below: "fst p \<le> i" "snd p \<le> length (mw_kits w)" if p: "p \<in> set (c @ d)" for p
  proof -
    show "snd p \<le> length (mw_kits w)" using live [OF p] by (simp add: pair_live_def)
    from last show "fst p \<le> i"
    proof
      assume "i = length (mw_modems w)"
      with live [OF p] show ?thesis by (simp add: pair_live_def)
    next
      assume "\<exists>j. last (c @ d) = (i, j) \<and> c @ d \<noteq> []"
      then obtain j where j: "last (c @ d) = (i, j)" "c @ d \<noteq> []" by blast
      then have split: "c @ d = butlast (c @ d) @ [(i, j)]" using append_butlast_last_id by metis
      have "sorted_wrt older (butlast (c @ d) @ [(i, j)])" using st split by (simp add: store_ok_def)
      moreover have "p \<in> set (butlast (c @ d) @ [(i, j)])" using p split by metis
      ultimately have "older p (i, j)" by (auto simp: sorted_wrt_append)
      then show ?thesis by (simp add: older_def)
    qed
  qed
  have dead: "\<forall>e\<in>mw_deadModems w. e < i"
  proof (cases "i = length (mw_modems w)")
    case True
    with st show ?thesis by (simp add: store_ok_def)
  next
    case False
    with last obtain j where "(i, j) \<in> set (c @ d)" using last_in_set by metis
    then have "pair_live w (i, j)" by (rule live)
    then show ?thesis by (simp add: pair_live_def)
  qed
  have "sorted_wrt older (c @ [(i, length (mw_kits w)), (i, length (mw_kits w))])"
    using st below by (auto simp: store_ok_def sorted_wrt_append older_def)
  moreover have "pair_live ?w p" if "p \<in> set c" for p
  proof -
    have "pair_live w p" using live that by simp
    then show ?thesis using made by (auto simp: pair_live_def nth_append)
  qed
  moreover have "pair_live ?w (i, length (mw_kits w))" using made dead st by (simp add: pair_live_def store_ok_def)
  ultimately show ?thesis using st made by (auto simp: store_ok_def intro: less_le_trans)
qed

lemma worker_made_ok:
  assumes ok: "modems_ok w" and room: "\<not> bq_full (mw_results w)" and new: "worker_made w i k ms kit r"
  shows "\<exists>w'. worker_work w = Inr w' \<and> modems_ok w'"
proof -
  note made = new [unfolded worker_made_def]
  define w' where "w' = w\<lparr>mw_worker := k, mw_kits := mw_kits w @ [kit], mw_modems := ms,
    mw_results := snd (bq_try_push r (mw_results w))\<rparr>"
  define c where "c = user_pairs w @ buffer_pairs w @ pre_pairs (mw_pre w) @ result_pairs (bq_items (mw_results w))"
  have old: "pairs_in_use w = c @ worker_pairs (mw_worker w)" by (simp add: pairs_in_use_def c_def)
  have st: "store_ok w (c @ worker_pairs (mw_worker w))" using ok by (simp add: modems_ok_def flip: old)
  have last: "i = length (mw_modems w) \<or>
    (\<exists>j. last (c @ worker_pairs (mw_worker w)) = (i, j) \<and> c @ worker_pairs (mw_worker w) \<noteq> [])"
    using made ok by (auto simp: worker_pairs_def pair_list_def modems_ok_def batch_ok_def)
  have "pairs_in_use w' = c @ [(i, length (mw_kits w)), (i, length (mw_kits w))]"
    using made room by (simp add: pairs_in_use_def w'_def c_def bq_push_items user_pairs_def buffer_pairs_def result_pairs_def
        worker_pairs_def pair_list_def)
  moreover have "store_ok w' x = store_ok (w\<lparr>mw_kits := mw_kits w @ [kit], mw_modems := ms\<rparr>) x" for x
    by (simp add: w'_def store_ok_def pair_live_def)
  ultimately have "store_ok w' (pairs_in_use w')" using store_ok_grow [OF st new last] by simp
  then have "modems_ok w'" using ok made room
    by (simp add: modems_ok_def orders_ok_def batch_ok_def w'_def bq_push_items)
  with made show ?thesis unfolding w'_def by blast
qed

lemma worker_work_ok:
  assumes ok: "modems_ok w"
  shows "\<exists>w'. worker_work w = Inr w' \<and> modems_ok w'"
proof -
  consider (wait) "\<not> wk_done (mw_worker w) \<or> bq_full (mw_results w)"
    | (idle) "wk_done (mw_worker w)" "\<not> bq_full (mw_results w)" "wk_demodCommand (mw_worker w) = None" "wk_filterCommand (mw_worker w) = None"
    | (make) c where "wk_done (mw_worker w)" "\<not> bq_full (mw_results w)" "wk_demodCommand (mw_worker w) = Some c"
    | (build) c where "wk_done (mw_worker w)" "\<not> bq_full (mw_results w)" "wk_demodCommand (mw_worker w) = None" "wk_filterCommand (mw_worker w) = Some c"
    by fastforce
  then show ?thesis
  proof cases
    case wait
    with ok show ?thesis by (auto simp: worker_work_def Let_def)
  next
    case idle
    have "pairs_in_use (w\<lparr>mw_worker := (mw_worker w)\<lparr>wk_done := False\<rparr>\<rparr>) = pairs_in_use w"
      by (simp add: pairs_in_use_def user_pairs_def buffer_pairs_def worker_pairs_def)
    with idle ok show ?thesis by (simp add: worker_work_def Let_def modems_ok_def orders_ok_def batch_ok_def)
  next
    case make
    with worker_makes [OF ok] worker_made_ok [OF ok] show ?thesis by blast
  next
    case build
    with worker_builds [OF ok] worker_made_ok [OF ok] show ?thesis by blast
  qed
qed

subsection \<open>The demodulator\<close>

lemma store_ok_bury:
  assumes "store_ok w c" "\<forall>p\<in>set c. k < snd p" "k < length (mw_kits w)"
  shows "store_ok (w\<lparr>mw_deadKits := insert k (mw_deadKits w)\<rparr>) c"
  using assms by (auto simp: store_ok_def pair_live_def)

lemma store_ok_bury_modem:
  assumes "store_ok w c" "\<forall>p\<in>set c. m < fst p" "m < length (mw_modems w)"
  shows "store_ok (w\<lparr>mw_deadModems := insert m (mw_deadModems w)\<rparr>) c"
  using assms by (auto simp: store_ok_def pair_live_def)

lemma replace_pair_ok:
  assumes st: "store_ok w (old # new # c)"
  shows "\<exists>dm dk. replace_pair old new w = Inr (w\<lparr>mw_deadModems := dm, mw_deadKits := dk\<rparr>) \<and>
    store_ok (w\<lparr>mw_deadModems := dm, mw_deadKits := dk\<rparr>) (new # c)"
proof -
  have older: "older old new" "\<forall>p\<in>set c. older new p" and live: "pair_live w old"
    using st by (simp_all add: store_ok_def)
  have st0: "store_ok w (new # c)" using st by (rule store_ok_sub) (use st in \<open>auto simp: store_ok_def\<close>)
  obtain dk where dk: "(if snd new = snd old then Inr w
      else bind_result (use_modem w (fst old) (snd old)) (\<lambda>_. Inr (w\<lparr>mw_deadKits := insert (snd old) (mw_deadKits w)\<rparr>)))
      = Inr (w\<lparr>mw_deadKits := dk\<rparr>)" "store_ok (w\<lparr>mw_deadKits := dk\<rparr>) (new # c)"
  proof (cases "snd new = snd old")
    case True
    with st0 show ?thesis by (intro that [of "mw_deadKits w"]) simp_all
  next
    case False
    then have "\<forall>p\<in>set (new # c). snd old < snd p" using older by (auto simp: older_def)
    then have "store_ok (w\<lparr>mw_deadKits := insert (snd old) (mw_deadKits w)\<rparr>) (new # c)"
      using st0 live by (intro store_ok_bury) (simp_all add: pair_live_def)
    with False pair_liveD(3) [OF st, of old] show ?thesis by (intro that [of "insert (snd old) (mw_deadKits w)"]) simp_all
  qed
  show ?thesis
  proof (cases "fst new = fst old")
    case True
    with dk show ?thesis by - (rule exI [of _ "mw_deadModems w"], rule exI [of _ dk], simp add: replace_pair_def)
  next
    case False
    let ?w1 = "w\<lparr>mw_deadKits := dk\<rparr>"
    have "\<forall>p\<in>set (new # c). fst old < fst p" using older False by (auto simp: older_def)
    then have "store_ok (?w1\<lparr>mw_deadModems := insert (fst old) (mw_deadModems ?w1)\<rparr>) (new # c)"
      using dk(2) live by (intro store_ok_bury_modem) (simp_all add: pair_live_def)
    moreover have "fst old \<notin> mw_deadModems w" using pair_liveD(1) [OF st] by simp
    moreover have "?w1\<lparr>mw_deadModems := m\<rparr> = w\<lparr>mw_deadModems := m, mw_deadKits := dk\<rparr>" for m
      by (cases w) simp
    ultimately show ?thesis using False dk(1)
      by - (rule exI [of _ "insert (fst old) (mw_deadModems w)"], rule exI [of _ dk], simp add: replace_pair_def)
  qed
qed

lemma user_take_ok:
  assumes ok: "modems_ok w"
  shows "\<exists>w'. user_take drained w = Inr w' \<and> modems_ok w'"
proof (cases "bq_items (mw_output w)")
  case Nil
  with ok show ?thesis by (simp add: user_take_def bq_try_pop_def)
next
  case (Cons b bs)
  define q where "q = (mw_output w)\<lparr>bq_items := bs\<rparr>"
  define new where "new = (po_modem b, po_modemKit b)"
  define c where "c = map (\<lambda>b. (po_modem b, po_modemKit b)) bs @ pre_pairs (mw_pre w) @ result_pairs (bq_items (mw_results w)) @
    worker_pairs (mw_worker w)"
  have st: "store_ok w (user_pairs w @ new # c)" using ok Cons
    by (simp add: modems_ok_def pairs_in_use_def buffer_pairs_def c_def new_def)
  have keep: "modems_ok (w\<lparr>mw_deadModems := dm, mw_deadKits := dk, mw_user := u, mw_output := q\<rparr>)"
    if "store_ok (w\<lparr>mw_deadModems := dm, mw_deadKits := dk\<rparr>) (user_pairs (w\<lparr>mw_user := u\<rparr>) @ c)" for dm dk u
  proof -
    have "pairs_in_use (w\<lparr>mw_deadModems := dm, mw_deadKits := dk, mw_user := u, mw_output := q\<rparr>) = user_pairs (w\<lparr>mw_user := u\<rparr>) @ c"
      by (simp add: pairs_in_use_def c_def q_def buffer_pairs_def user_pairs_def)
    with that ok show ?thesis by (simp add: modems_ok_def orders_ok_def)
  qed
  show ?thesis
  proof (cases drained)
    case True
    have "store_ok w (user_pairs w @ c)" using st by (rule store_ok_sub) (use st in \<open>auto simp: store_ok_def sorted_wrt_append\<close>)
    then have "modems_ok (w\<lparr>mw_output := q\<rparr>)" using keep [where dm = "mw_deadModems w" and dk = "mw_deadKits w" and u = "mw_user w"] by simp
    with True Cons show ?thesis by (simp add: user_take_def bq_try_pop_def q_def)
  next
    case False
    obtain dm dk where w2: "(case mw_user w of None \<Rightarrow> Inr w | Some old \<Rightarrow> replace_pair old new w) =
        Inr (w\<lparr>mw_deadModems := dm, mw_deadKits := dk\<rparr>)"
      and st2: "store_ok (w\<lparr>mw_deadModems := dm, mw_deadKits := dk\<rparr>) (new # c)"
    proof (cases "mw_user w")
      case None
      with st show ?thesis by (intro that [of "mw_deadKits w" "mw_deadModems w"]) (simp_all add: user_pairs_def)
    next
      case (Some old)
      with st replace_pair_ok [of w old new c] show ?thesis by (auto simp: user_pairs_def intro: that)
    qed
    have use: "use_modem (w\<lparr>mw_deadModems := dm, mw_deadKits := dk\<rparr>) (fst new) (snd new) = Inr ()"
      using pair_liveD(3) [OF st2] by simp
    have "user_take drained w = Inr (w\<lparr>mw_deadModems := dm, mw_deadKits := dk, mw_user := Some new, mw_output := q\<rparr>)"
      using False Cons w2 use by (simp add: user_take_def bq_try_pop_def Let_def new_def [symmetric] q_def [symmetric])
    moreover have "modems_ok (w\<lparr>mw_deadModems := dm, mw_deadKits := dk, mw_user := Some new, mw_output := q\<rparr>)"
      by (rule keep) (use st2 in \<open>simp add: user_pairs_def\<close>)
    ultimately show ?thesis by blast
  qed
qed

lemma pre_update_ok:
  assumes ok: "modems_ok w" and p: "pre_ok p" "pr_cModem p = pr_cModem (mw_pre w)" "pr_cModemKit p = pr_cModemKit (mw_pre w)"
  shows "modems_ok (w\<lparr>mw_pre := p\<rparr>)"
proof -
  have "pairs_in_use (w\<lparr>mw_pre := p\<rparr>) = pairs_in_use w"
    using p by (simp add: pairs_in_use_def user_pairs_def buffer_pairs_def pre_pairs_def)
  with ok p show ?thesis by (simp add: modems_ok_def orders_ok_def)
qed

lemma modem_step_ok:
  assumes ok: "modems_ok w" and asked: "asks_ok s"
  shows "\<exists>w'. do_modem_step s w = Inr w' \<and> modems_ok w'"
proof -
  have pre: "pre_ok (mw_pre w)" using ok by (simp add: modems_ok_def)
  show ?thesis
  proof (cases s)
    case (Ask_Type t)
    have "modems_ok (w\<lparr>mw_pre := setDemodType t (mw_pre w)\<rparr>)"
      by (rule pre_update_ok [OF ok]) (use pre asked Ask_Type in \<open>auto simp: setDemodType_def pre_ok_def\<close>)
    with Ask_Type show ?thesis by (simp add: on_pre_def)
  next
    case (Ask_Frequency f)
    have "modems_ok (w\<lparr>mw_pre := pre_setFrequency f (mw_pre w)\<rparr>)"
      by (rule pre_update_ok [OF ok]) (use pre in \<open>auto simp: pre_setFrequency_def pre_ok_def\<close>)
    with Ask_Frequency show ?thesis by (simp add: on_pre_def)
  next
    case (Ask_Sample_Rate r)
    have "modems_ok (w\<lparr>mw_pre := pre_setSampleRate r (mw_pre w)\<rparr>)"
      by (rule pre_update_ok [OF ok]) (use pre in \<open>auto simp: pre_setSampleRate_def pre_ok_def\<close>)
    with Ask_Sample_Rate show ?thesis by (simp add: on_pre_def)
  next
    case (Ask_Bandwidth b)
    have "modems_ok (w\<lparr>mw_pre := pre_setBandwidth b (mw_pre w)\<rparr>)"
      by (rule pre_update_ok [OF ok]) (use pre in \<open>auto simp: pre_setBandwidth_def pre_ok_def\<close>)
    with Ask_Bandwidth show ?thesis by (simp add: on_pre_def)
  next
    case (Ask_Audio_Rate r)
    have "modems_ok (w\<lparr>mw_pre := pre_setAudioSampleRate r (mw_pre w)\<rparr>)"
      by (rule pre_update_ok [OF ok]) (use pre in \<open>auto simp: pre_setAudioSampleRate_def pre_ok_def\<close>)
    with Ask_Audio_Rate show ?thesis by (simp add: on_pre_def)
  next
    case (Ask_Setting k v)
    have "modems_ok (w\<lparr>mw_pre := writeModemSetting k v (mw_pre w)\<rparr>)"
      by (rule pre_update_ok [OF ok]) (use pre asked Ask_Setting in \<open>auto simp: writeModemSetting_def pre_ok_def put_key_ok\<close>)
    with Ask_Setting show ?thesis by (simp add: on_pre_def)
  next
    case (Ask_Settings st)
    have "modems_ok (w\<lparr>mw_pre := writeModemSettings st (mw_pre w)\<rparr>)"
      by (rule pre_update_ok [OF ok]) (use pre asked Ask_Settings in \<open>auto simp: writeModemSettings_def pre_ok_def\<close>)
    with Ask_Settings show ?thesis by (simp add: on_pre_def)
  qed (use ok asked pre_front_ok pre_back_ok worker_pop_ok worker_work_ok user_take_ok in simp_all)
qed

lemma modem_run_ok:
  "modems_ok w \<Longrightarrow> list_all asks_ok ss \<Longrightarrow> \<exists>w'. modem_run ss w = Inr w' \<and> modems_ok w'"
proof (induction ss arbitrary: w)
  case (Cons s ss)
  then obtain w1 where "do_modem_step s w = Inr w1" "modems_ok w1" using modem_step_ok [of w s] by auto
  with Cons show ?case by simp
qed simp


definition pass_at :: "int \<Rightarrow> int \<Rightarrow> pass_input" where
  "pass_at f r = \<lparr>pi_frequency = f, pi_sampleRate = r, pi_size = 4096, pi_audioSampleRate = 48000, pi_lastSettings = (\<lambda>_. [])\<rparr>"

definition busy_run :: "modem_step list" where
  "busy_run = [Ask_Type ''FM'', Ask_Bandwidth 200000, Ask_Frequency 100000000, Pre_Front (pass_at 100000000 500000), Pre_Back,
     Worker_Pop, Worker_Work, Pre_Front (pass_at 100000000 500000), Pre_Back, Pre_Front (pass_at 100000000 500000), User_Take False,
     Ask_Type ''FMS'', Ask_Setting ''demph'' ''75'', Pre_Back, Pre_Front (pass_at 100000000 500000), Worker_Pop, Worker_Work,
     Pre_Back, Pre_Front (pass_at 100000000 500000), User_Take False, User_Take False]"


section \<open>What becomes of a request\<close>

lemma fold_take_result_last:
  assumes "wr_modemName r \<noteq> ''''"
  shows "pr_demodType (fold (take_result f kits) (rs @ [r]) p) = wr_modemName r"
    "\<not> pr_demodTypeChanged (fold (take_result f kits) (rs @ [r]) p)"
  using assms by (simp_all add: take_result_def Let_def)

lemma pre_back_pre:
  assumes "pre_back w = Inr w'" "pr_taken (mw_pre w) = Some f"
  shows "pr_demodType (mw_pre w') = pr_demodType (fold (take_result f (mw_kits w)) (bq_items (mw_results w)) (mw_pre w))"
    "pr_demodTypeChanged (mw_pre w') = pr_demodTypeChanged (fold (take_result f (mw_kits w)) (bq_items (mw_results w)) (mw_pre w))"
  using assms by (auto simp: pre_back_def Let_def bind_result_Inr_iff split: option.splits if_splits)

text \<open>
  A request for another modem type is lost when it comes while the preprocessor is in a pass
  and the worker's result is waiting: taking the result clears the flag of the request, so the
  type that was asked for is forgotten and the demodulator answers with the old one.
\<close>

theorem type_change_can_be_lost:
  assumes "list_all asks_ok steps" "modem_run steps modem_world_init = Inr w" "t \<in> set modem_names"
    and "pr_taken (mw_pre w) \<noteq> None" "bq_items (mw_results w) = rs @ [r]" "wr_modemName r \<noteq> ''''"
  shows "\<exists>w'. modem_run [Ask_Type t, Pre_Back] w = Inr w' \<and>
    getDemodType (mw_pre w') = wr_modemName r \<and> \<not> pr_demodTypeChanged (mw_pre w')"
proof -
  obtain w1 where "modem_run steps modem_world_init = Inr w1" "modems_ok w1"
    using modem_run_ok [OF modems_ok_init assms(1)] by blast
  then have ok: "modems_ok w" using assms(2) by simp
  define w2 where "w2 = w\<lparr>mw_pre := setDemodType t (mw_pre w)\<rparr>"
  have ask: "do_modem_step (Ask_Type t) w = Inr w2" by (simp add: on_pre_def w2_def)
  then have "modems_ok w2" using modem_step_ok [OF ok, of "Ask_Type t"] assms(3) by simp
  then obtain w' where w': "pre_back w2 = Inr w'" using pre_back_ok by blast
  obtain f where f: "pr_taken (mw_pre w2) = Some f" using assms(4) by (auto simp: w2_def setDemodType_def)
  have rs: "bq_items (mw_results w2) = rs @ [r]" using assms(5) by (simp add: w2_def)
  have "modem_run [Ask_Type t, Pre_Back] w = Inr w'" using ask w' by simp
  with pre_back_pre [OF w' f] fold_take_result_last [OF assms(6)] show ?thesis
    unfolding rs by (auto simp: getDemodType_def)
qed

definition racing_run :: "modem_step list" where
  "racing_run = [Ask_Type ''FM'', Ask_Bandwidth 200000, Ask_Frequency 100000000, Pre_Front (pass_at 100000000 500000), Pre_Back,
     Worker_Pop, Worker_Work, Pre_Front (pass_at 100000000 500000)]"

definition world_of :: "modem_world result \<Rightarrow> modem_world" where
  "world_of r = (case r of Inl _ \<Rightarrow> modem_world_init | Inr w \<Rightarrow> w)"

lemma type_change_can_be_lost_witness:
  "\<exists>w'. modem_run [Ask_Type ''AM'', Pre_Back] (world_of (modem_run racing_run modem_world_init)) = Inr w' \<and>
    getDemodType (mw_pre w') = ''FM'' \<and> \<not> pr_demodTypeChanged (mw_pre w')"
proof -
  define w where "w = world_of (modem_run racing_run modem_world_init)"
  define r where "r = hd (bq_items (mw_results w))"
  have name: "wr_modemName r = ''FM''" unfolding r_def w_def by code_simp
  have "\<exists>w'. modem_run [Ask_Type ''AM'', Pre_Back] w = Inr w' \<and>
      getDemodType (mw_pre w') = wr_modemName r \<and> \<not> pr_demodTypeChanged (mw_pre w')"
  proof (rule type_change_can_be_lost)
    show "list_all asks_ok racing_run" by code_simp
    have "(case modem_run racing_run modem_world_init of Inl _ \<Rightarrow> False | Inr _ \<Rightarrow> True)" by code_simp
    then show "modem_run racing_run modem_world_init = Inr w" by (auto simp: w_def world_of_def split: sum.splits)
    show "''AM'' \<in> set modem_names" by code_simp
    show "pr_taken (mw_pre w) \<noteq> None" unfolding w_def by code_simp
    have "length (bq_items (mw_results w)) = 1" unfolding w_def by code_simp
    then show "bq_items (mw_results w) = [] @ [r]" by (auto simp: r_def length_Suc_conv)
    show "wr_modemName r \<noteq> ''''" by (simp add: name)
  qed
  then show ?thesis by (simp only: name w_def)
qed

definition stale_run :: "modem_step list" where
  "stale_run = racing_run @ [Pre_Back, Pre_Front (pass_at 100000000 500000), Pre_Back, Worker_Pop, Worker_Work,
     Ask_Type ''AM'', Ask_Bandwidth 10000, Pre_Front (pass_at 100000000 500000), Pre_Back,
     Ask_Bandwidth 20000, Pre_Front (pass_at 100000000 500000), Pre_Back,
     Worker_Pop, Worker_Pop, Worker_Work, Pre_Front (pass_at 100000000 500000), Pre_Back]"

text \<open>
  A bandwidth that is asked for can be lost for good. A result that was on its way when the
  modem was ordered gives the preprocessor the old modem back; so it orders filters for the new
  bandwidth before the new modem is there, the worker takes both orders at once and makes the modem
  with the first bandwidth. Of 20 kHz, asked for last, nothing is left: the demodulator is
  initialized, answers 10 kHz, and no order is waiting or will be made.
\<close>

theorem bandwidth_change_can_be_lost:
  "case modem_run stale_run modem_world_init of
     Inl _ \<Rightarrow> False
   | Inr w \<Rightarrow> pr_initialized (mw_pre w) \<and> getDemodType (mw_pre w) = ''AM'' \<and> pre_getBandwidth (mw_pre w) = 10000 \<and>
       pr_newBandwidth (mw_pre w) = 20000 \<and> \<not> pr_bandwidthChanged (mw_pre w) \<and>
       bq_empty (mw_commands w) \<and> bq_empty (mw_results w) \<and> wk_filterCommand (mw_worker w) = None \<and> \<not> wk_done (mw_worker w)"
  by code_simp

end
