(* ===== verification/Audio_Device.thy ===== *)
theory Audio_Device
  imports Audio_Mixer
begin

text \<open>
  Which audio thread plays on which device (src/src/cubic/audio/AudioThread.cpp): the static tables
  of devices, the controller that is made for a device the first time a thread plays on it, the
  threads that are bound to it for its callback, and the commands that move a thread to another
  device or change a rate. Threads live in a store, as in Audio_Mixer; \<open>deviceController\<close> can hold
  a null pointer, because \<open>operator[]\<close> makes the entry it does not find.

  RtAudio is third-party: \<open>rt_audio\<close> says how many devices it finds, which is the default, and on
  which device and at which rate it can open a stream. It is given that opening fails when the
  stream is open already, and that stopping fails when it is not.
\<close>

section \<open>State\<close>

record rt_audio =
  ra_count :: nat
  ra_default :: int
  ra_opens :: "int \<Rightarrow> int \<Rightarrow> bool"

datatype audio_command = AUDIO_THREAD_CMD_SET_DEVICE int | AUDIO_THREAD_CMD_SET_SAMPLE_RATE int

text \<open>\<open>aw_told\<close> lists what demodulators on a device have been told its rate is.\<close>

record audio_world =
  aw_threads :: "audio_thread list"
  aw_started :: "nat list"
  aw_commands :: "nat \<Rightarrow> audio_command blocking_queue"
  aw_controller :: "int \<Rightarrow> nat option option"
  aw_rate :: "int \<Rightarrow> int option"
  aw_instance :: "nat option"
  aw_told :: "(int \<times> int) list"

text \<open>\<open>Demodulator::start\<close> sets the rate of every output device before it makes a thread.\<close>

definition audio_start :: "(int \<times> int) list \<Rightarrow> audio_world" where
  "audio_start rates = \<lparr>aw_threads = [], aw_started = [], aw_commands = (\<lambda>_. ThreadBlockingQueue_init), aw_controller = (\<lambda>_. None),
     aw_rate = map_of rates, aw_instance = None, aw_told = []\<rparr>"

definition on_audio :: "nat \<Rightarrow> (audio_thread \<Rightarrow> audio_thread) \<Rightarrow> audio_world \<Rightarrow> audio_world" where
  "on_audio t f w = w\<lparr>aw_threads := (aw_threads w)[t := f (aw_threads w ! t)]\<rparr>"

section \<open>Operations\<close>

definition bindThread :: "nat \<Rightarrow> nat \<Rightarrow> audio_world \<Rightarrow> audio_world" where
  "bindThread c other = on_audio c (\<lambda>t. if other \<in> set (at_bound t) then t else t\<lparr>at_bound := at_bound t @ [other]\<rparr>)"

definition removeThread :: "nat \<Rightarrow> nat \<Rightarrow> audio_world \<Rightarrow> audio_world" where
  "removeThread c other = on_audio c (\<lambda>t. t\<lparr>at_bound := remove1 other (at_bound t)\<rparr>)"

definition setGain :: "rat \<Rightarrow> audio_thread \<Rightarrow> audio_thread" where
  "setGain g t = t\<lparr>at_gain := (let g1 = (if g < 0 then 0 else g) in if g1 > 2 then 2 else g1)\<rparr>"

definition setInitOutputDevice :: "nat \<Rightarrow> int \<Rightarrow> int \<Rightarrow> audio_world \<Rightarrow> audio_world" where
  "setInitOutputDevice t d rate w =
     (let w1 = on_audio t (\<lambda>x. x\<lparr>at_outputDevice := d\<rparr>) w
      in if rate = -1 then
           if aw_rate w1 (at_deviceId (aw_threads w ! t)) = None then on_audio t (\<lambda>x. x\<lparr>at_sampleRate := -1\<rparr>) w1
           else (case aw_rate w1 d of
                   Some r \<Rightarrow> on_audio t (\<lambda>x. x\<lparr>at_sampleRate := r\<rparr>) w1
                 | None \<Rightarrow> on_audio t (\<lambda>x. x\<lparr>at_sampleRate := 0\<rparr>) (w1\<lparr>aw_rate := (aw_rate w1)(d \<mapsto> 0)\<rparr>))
         else on_audio t (\<lambda>x. x\<lparr>at_sampleRate := rate\<rparr>) (w1\<lparr>aw_rate := (aw_rate w1)(d \<mapsto> rate)\<rparr>))"

text \<open>The end of \<open>setupDevice\<close>, which is not reached when the rate is unknown or the stream does not open.\<close>

definition device_ready :: "nat \<Rightarrow> int \<Rightarrow> audio_world \<Rightarrow> audio_world" where
  "device_ready t d = on_audio t (\<lambda>x. x\<lparr>at_active := True, at_outputDevice := (if d \<noteq> -1 then d else at_outputDevice x)\<rparr>)"

definition leave_device :: "nat \<Rightarrow> audio_world \<Rightarrow> audio_world result" where
  "leave_device t w =
     (case aw_controller w (at_outputDevice (aw_threads w ! t)) of
        None \<Rightarrow> Inr w
      | Some None \<Rightarrow> Inl Null_Deref
      | Some (Some c) \<Rightarrow> Inr (removeThread c t w))"

text \<open>The new controller, with the thread bound to it; its own thread is yet to start.\<close>

definition new_controller :: "nat \<Rightarrow> int \<Rightarrow> int \<Rightarrow> audio_world \<Rightarrow> audio_world" where
  "new_controller t d rate w =
     (let c = length (aw_threads w);
          w1 = bindThread c t (setInitOutputDevice c d rate (w\<lparr>aw_threads := aw_threads w @ [AudioThread_init]\<rparr>))
      in w1\<lparr>aw_controller := (aw_controller w1)(d \<mapsto> Some c)\<rparr>)"

definition join_device :: "rt_audio \<Rightarrow> nat \<Rightarrow> int \<Rightarrow> int \<Rightarrow> audio_world \<Rightarrow> audio_world result" where
  "join_device ra t d rate w =
     (case aw_controller w d of
        None \<Rightarrow> Inr (device_ready t d (new_controller t d rate w))
      | Some None \<Rightarrow> Inl Null_Deref
      | Some (Some c) \<Rightarrow>
          if c = t then
            let w1 = on_audio t (\<lambda>x. x\<lparr>at_outputQueue := []\<rparr>) (w\<lparr>aw_instance := Some t\<rparr>)
            in if ra_opens ra d rate \<and> \<not> at_stream (aw_threads w ! t)
               then Inr (device_ready t d (on_audio t (\<lambda>x. x\<lparr>at_stream := True\<rparr>) w1)) else Inr w1
          else Inr (device_ready t d (bindThread c t w)))"

definition setupDevice :: "rt_audio \<Rightarrow> nat \<Rightarrow> int \<Rightarrow> audio_world \<Rightarrow> audio_world result" where
  "setupDevice ra t d w =
     bind_result (leave_device t (on_audio t (\<lambda>x. x\<lparr>at_deviceId := d\<rparr>) w)) (\<lambda>w1.
       case aw_rate w1 d of
         None \<Rightarrow> Inr w1
       | Some rate \<Rightarrow> join_device ra t d rate (on_audio t (\<lambda>x. x\<lparr>at_sampleRate := rate\<rparr>) w1))"

text \<open>
  \<open>setSampleRate\<close> of a controller calls itself on the threads bound to it, with fuel in the model;
  \<open>None\<close> is no result yet. The stream that does not stop or open throws, out of the thread.
\<close>

fun each_bound :: "(nat \<Rightarrow> audio_world \<Rightarrow> audio_world result option) \<Rightarrow> nat list \<Rightarrow> audio_world \<Rightarrow> audio_world result option" where
  "each_bound f [] w = Some (Inr w)"
| "each_bound f (j # js) w =
     (case f j w of None \<Rightarrow> None | Some (Inl e) \<Rightarrow> Some (Inl e) | Some (Inr w1) \<Rightarrow> each_bound f js w1)"

primrec setSampleRate :: "rt_audio \<Rightarrow> int \<Rightarrow> nat \<Rightarrow> nat \<Rightarrow> audio_world \<Rightarrow> audio_world result option" where
  "setSampleRate ra rate 0 = (\<lambda>t w. None)"
| "setSampleRate ra rate (Suc n) = (\<lambda>t w.
     let d = at_outputDevice (aw_threads w ! t);
         done = (\<lambda>w. on_audio t (\<lambda>x. x\<lparr>at_sampleRate := rate\<rparr>) w)
     in case aw_controller w d of
          None \<Rightarrow> Some (Inr (done (w\<lparr>aw_controller := (aw_controller w)(d \<mapsto> None)\<rparr>)))
        | Some c \<Rightarrow>
            if c \<noteq> Some t then Some (Inr (done w))
            else if \<not> at_stream (aw_threads w ! t) then Some (Inl Device_Error)
            else let w1 = on_audio t (\<lambda>x. x\<lparr>at_stream := False\<rparr>) (w\<lparr>aw_rate := (aw_rate w)(d \<mapsto> rate)\<rparr>)
                 in case each_bound (setSampleRate ra rate n) (at_bound (aw_threads w1 ! t)) w1 of
                      None \<Rightarrow> None
                    | Some (Inl e) \<Rightarrow> Some (Inl e)
                    | Some (Inr w2) \<Rightarrow>
                        if ra_opens ra (at_deviceId (aw_threads w2 ! t)) rate
                        then Some (Inr (done (on_audio t (\<lambda>x. x\<lparr>at_stream := True\<rparr>) (w2\<lparr>aw_told := aw_told w2 @ [(d, rate)]\<rparr>))))
                        else Some (Inl Device_Error))"

definition ask_device :: "nat \<Rightarrow> int \<Rightarrow> audio_world \<Rightarrow> audio_world" where
  "ask_device t d w = w\<lparr>aw_commands := (aw_commands w)(t := snd (bq_try_push (AUDIO_THREAD_CMD_SET_DEVICE d) (aw_commands w t)))\<rparr>"

definition setDeviceSampleRate :: "int \<Rightarrow> int \<Rightarrow> audio_world \<Rightarrow> audio_world" where
  "setDeviceSampleRate d rate w =
     (case aw_controller w d of
        Some (Some c) \<Rightarrow>
          w\<lparr>aw_commands := (aw_commands w)(c := snd (bq_try_push (AUDIO_THREAD_CMD_SET_SAMPLE_RATE rate) (aw_commands w c)))\<rparr>
      | _ \<Rightarrow> w)"

definition audio_setActive :: "nat \<Rightarrow> bool \<Rightarrow> audio_world \<Rightarrow> audio_world" where
  "audio_setActive t state w =
     (let x = aw_threads w ! t
      in case aw_controller w (at_deviceId x) of
           Some (Some c) \<Rightarrow>
             let w1 = (if state \<and> \<not> at_active x \<and> at_queue x \<noteq> None then bindThread c t w
                       else if \<not> state \<and> at_active x then removeThread c t w else w)
             in on_audio t (\<lambda>x. x\<lparr>at_queue := map_option bq_flush (at_queue x), at_active := state\<rparr>) w1
         | _ \<Rightarrow> w)"

section \<open>\<open>AudioThread::run\<close>\<close>

text \<open>Up to the loop. \<open>input\<close> is the queue the thread was given, \<open>None\<close> for a controller.\<close>

definition run_start :: "rt_audio \<Rightarrow> nat \<Rightarrow> audio_input blocking_queue option \<Rightarrow> audio_world \<Rightarrow> audio_world result" where
  "run_start ra t input w =
     (let w0 = w\<lparr>aw_started := t # aw_started w\<rparr>; d = at_outputDevice (aw_threads w ! t)
      in if ra_count ra < 1 then Inr (on_audio t (\<lambda>x. x\<lparr>at_terminated := True\<rparr>) w0)
         else bind_result (setupDevice ra t (if d = -1 then ra_default ra else d) w0) (\<lambda>w1.
           Inr (on_audio t (\<lambda>x. x\<lparr>at_queue := input\<rparr>) w1)))"

definition run_command :: "rt_audio \<Rightarrow> nat \<Rightarrow> audio_world \<Rightarrow> audio_world result option" where
  "run_command ra t w =
     (case bq_try_pop (aw_commands w t) of
        (None, _) \<Rightarrow> Some (Inr w)
      | (Some c, q) \<Rightarrow>
          let w1 = w\<lparr>aw_commands := (aw_commands w)(t := q)\<rparr>
          in case c of
               AUDIO_THREAD_CMD_SET_DEVICE d \<Rightarrow> Some (setupDevice ra t d w1)
             | AUDIO_THREAD_CMD_SET_SAMPLE_RATE rate \<Rightarrow> setSampleRate ra rate (Suc (length (aw_threads w))) t w1)"

text \<open>After the loop.\<close>

definition run_end :: "nat \<Rightarrow> audio_world \<Rightarrow> audio_world result" where
  "run_end t w =
     (let w1 = on_audio t (\<lambda>x. x\<lparr>at_queue := map_option bq_flush (at_queue x), at_current := None\<rparr>) w;
          d = at_deviceId (aw_threads w ! t);
          stop = on_audio t (\<lambda>x. x\<lparr>at_terminated := True\<rparr>)
      in case aw_controller w1 d of
           None \<Rightarrow> Inl Null_Deref
         | Some None \<Rightarrow> Inl Null_Deref
         | Some (Some c) \<Rightarrow>
             if c \<noteq> t then Inr (stop (removeThread c t w1))
             else Inr (stop (on_audio t (\<lambda>x. x\<lparr>at_stream := False\<rparr>) w1)))"

section \<open>Runs\<close>

text \<open>
  A run interleaves the threads and those that use them. \<open>Play\<close> is a call of the callback of a
  controller by the sound card, which it makes only while the stream is open. A step that cannot
  happen, of a thread that does not exist or is not running, is passed over; demodulators do not
  activate a thread they have terminated, nor set the device of a running one but by a command.
\<close>

datatype audio_step =
    New_Audio | Init_Device nat int | Start_Audio nat "audio_input blocking_queue" | Start_Controller nat | Ask_Device nat int
  | Ask_Device_Rate int int | Command nat | Activate nat bool | Set_Gain nat rat | Feed nat audio_input
  | Play "rat list list \<Rightarrow> bool" bool nat nat | End_Audio nat

definition is_controller :: "audio_world \<Rightarrow> nat \<Rightarrow> bool" where
  "is_controller w t \<longleftrightarrow> aw_controller w (at_outputDevice (aw_threads w ! t)) = Some (Some t)"

definition is_running :: "audio_world \<Rightarrow> nat \<Rightarrow> bool" where
  "is_running w t \<longleftrightarrow> t < length (aw_threads w) \<and> t \<in> set (aw_started w) \<and> \<not> at_terminated (aw_threads w ! t)"

definition is_new :: "audio_world \<Rightarrow> nat \<Rightarrow> bool" where
  "is_new w t \<longleftrightarrow> t < length (aw_threads w) \<and> t \<notin> set (aw_started w)"

fun enabled :: "audio_world \<Rightarrow> audio_step \<Rightarrow> bool" where
  "enabled w New_Audio \<longleftrightarrow> True"
| "enabled w (Init_Device t d) \<longleftrightarrow> is_new w t \<and> \<not> is_controller w t"
| "enabled w (Start_Audio t q) \<longleftrightarrow> is_new w t \<and> \<not> is_controller w t"
| "enabled w (Start_Controller t) \<longleftrightarrow> is_new w t \<and> is_controller w t"
| "enabled w (Ask_Device t d) \<longleftrightarrow> is_running w t \<and> \<not> is_controller w t"
| "enabled w (Ask_Device_Rate d r) \<longleftrightarrow> True"
| "enabled w (Command t) \<longleftrightarrow> is_running w t"
| "enabled w (Activate t state) \<longleftrightarrow> is_running w t \<and> \<not> is_controller w t"
| "enabled w (Set_Gain t g) \<longleftrightarrow> t < length (aw_threads w)"
| "enabled w (Feed t b) \<longleftrightarrow> is_running w t"
| "enabled w (Play room status n t) \<longleftrightarrow> is_running w t \<and> at_stream (aw_threads w ! t)"
| "enabled w (End_Audio t) \<longleftrightarrow> is_running w t \<and> \<not> is_controller w t"

fun do_audio_step :: "rt_audio \<Rightarrow> audio_step \<Rightarrow> audio_world \<Rightarrow> audio_world result option" where
  "do_audio_step ra New_Audio w = Some (Inr (w\<lparr>aw_threads := aw_threads w @ [AudioThread_init]\<rparr>))"
| "do_audio_step ra (Init_Device t d) w = Some (Inr (setInitOutputDevice t d (-1) w))"
| "do_audio_step ra (Start_Audio t q) w = Some (run_start ra t (Some q) w)"
| "do_audio_step ra (Start_Controller t) w = Some (run_start ra t None w)"
| "do_audio_step ra (Ask_Device t d) w = Some (Inr (ask_device t d w))"
| "do_audio_step ra (Ask_Device_Rate d r) w = Some (Inr (setDeviceSampleRate d r w))"
| "do_audio_step ra (Command t) w = run_command ra t w"
| "do_audio_step ra (Activate t state) w = Some (Inr (audio_setActive t state w))"
| "do_audio_step ra (Set_Gain t g) w = Some (Inr (on_audio t (setGain g) w))"
| "do_audio_step ra (Feed t b) w = Some (Inr (on_audio t (\<lambda>x. x\<lparr>at_queue := map_option (\<lambda>q. snd (bq_try_push b q)) (at_queue x)\<rparr>) w))"
| "do_audio_step ra (Play room status n t) w =
     Some (bind_result (audioCallback room status n t (aw_threads w)) (\<lambda>(code, out, ts). Inr (w\<lparr>aw_threads := ts\<rparr>)))"
| "do_audio_step ra (End_Audio t) w = Some (run_end t w)"

fun audio_run :: "rt_audio \<Rightarrow> audio_step list \<Rightarrow> audio_world \<Rightarrow> audio_world result option" where
  "audio_run ra [] w = Some (Inr w)"
| "audio_run ra (s # ss) w =
     (if \<not> enabled w s then audio_run ra ss w
      else case do_audio_step ra s w of
             None \<Rightarrow> None
           | Some (Inl e) \<Rightarrow> Some (Inl e)
           | Some (Inr w1) \<Rightarrow> audio_run ra ss w1)"

section \<open>Every thread is bound where it plays\<close>

text \<open>The fields that say where a thread plays; the rest of a thread is samples.\<close>

definition place :: "audio_thread \<Rightarrow> bool \<times> int \<times> int \<times> nat list \<times> bool" where
  "place x = (at_terminated x, at_outputDevice x, at_deviceId x, at_bound x, at_stream x)"

text \<open>Thread \<open>j\<close>: as a controller, as a running thread that is none, and what it is bound to.\<close>

definition controller_fine :: "int list \<Rightarrow> audio_world \<Rightarrow> nat \<Rightarrow> bool" where
  "controller_fine devs w j \<longleftrightarrow> (is_controller w j \<longrightarrow> \<not> at_terminated (aw_threads w ! j) \<and>
     (if j \<in> set (aw_started w) then at_stream (aw_threads w ! j) \<and> at_deviceId (aw_threads w ! j) = at_outputDevice (aw_threads w ! j)
      else \<not> at_stream (aw_threads w ! j)))"

definition player_fine :: "int list \<Rightarrow> audio_world \<Rightarrow> nat \<Rightarrow> bool" where
  "player_fine devs w j \<longleftrightarrow>
     (is_running w j \<and> \<not> is_controller w j \<longrightarrow> at_outputDevice (aw_threads w ! j) = at_deviceId (aw_threads w ! j) \<and>
        aw_controller w (at_deviceId (aw_threads w ! j)) \<noteq> None) \<and>
     (is_new w j \<and> \<not> is_controller w j \<longrightarrow> at_outputDevice (aw_threads w ! j) \<in> set (-1 # devs) \<and>
        \<not> at_terminated (aw_threads w ! j))"

definition bound_fine :: "audio_world \<Rightarrow> nat \<Rightarrow> bool" where
  "bound_fine w j \<longleftrightarrow> distinct (at_bound (aw_threads w ! j)) \<and>
     (\<forall>k\<in>set (at_bound (aw_threads w ! j)). is_controller w j \<and> is_running w k \<and> \<not> is_controller w k \<and>
        at_deviceId (aw_threads w ! k) = at_outputDevice (aw_threads w ! j))"

definition table_fine :: "int list \<Rightarrow> audio_world \<Rightarrow> bool" where
  "table_fine devs w \<longleftrightarrow>
     (\<forall>d v. aw_controller w d = Some v \<longrightarrow>
        d \<in> set devs \<and> (\<exists>c<length (aw_threads w). v = Some c \<and> at_outputDevice (aw_threads w ! c) = d)) \<and>
     (\<forall>d\<in>set devs. aw_rate w d \<noteq> None) \<and> -1 \<notin> set devs \<and> (\<forall>t\<in>set (aw_started w). t < length (aw_threads w)) \<and>
     (\<forall>t d. AUDIO_THREAD_CMD_SET_DEVICE d \<in> set (bq_items (aw_commands w t)) \<longrightarrow>
        d \<in> set devs \<and> t < length (aw_threads w) \<and> \<not> is_controller w t)"

definition world_fine :: "int list \<Rightarrow> audio_world \<Rightarrow> bool" where
  "world_fine devs w \<longleftrightarrow> table_fine devs w \<and>
     (\<forall>j<length (aw_threads w). controller_fine devs w j \<and> player_fine devs w j \<and> bound_fine w j)"

definition sound_fine :: "audio_world \<Rightarrow> bool" where
  "sound_fine w \<longleftrightarrow> (\<forall>x\<in>set (aw_threads w). audio_ok x \<and> at_gain x \<le> 2)"

lemmas fine_defs = controller_fine_def player_fine_def bound_fine_def table_fine_def is_controller_def is_running_def is_new_def

lemma on_audio_simps [simp]:
  "length (aw_threads (on_audio t f w)) = length (aw_threads w)" "aw_started (on_audio t f w) = aw_started w"
  "aw_commands (on_audio t f w) = aw_commands w" "aw_controller (on_audio t f w) = aw_controller w"
  "aw_rate (on_audio t f w) = aw_rate w" "aw_told (on_audio t f w) = aw_told w"
  by (simp_all add: on_audio_def)

lemma thread_on_audio [simp]:
  "t < length (aw_threads w) \<Longrightarrow>
    aw_threads (on_audio t f w) ! j = (if j = t then f (aw_threads w ! t) else aw_threads w ! j)"
  by (simp add: on_audio_def)

lemma place_eqD:
  assumes "place x = place y"
  shows "at_terminated x = at_terminated y" "at_outputDevice x = at_outputDevice y" "at_deviceId x = at_deviceId y"
    "at_bound x = at_bound y" "at_stream x = at_stream y"
  using assms by (simp_all add: place_def)

lemma table_entry:
  assumes "table_fine devs w" "aw_controller w d = Some v"
  obtains c where "v = Some c" "c < length (aw_threads w)" "at_outputDevice (aw_threads w ! c) = d" "is_controller w c" "d \<in> set devs"
proof -
  obtain c where "c < length (aw_threads w)" "v = Some c" "at_outputDevice (aw_threads w ! c) = d" "d \<in> set devs"
    using assms unfolding table_fine_def by blast
  then show thesis using assms(2) that by (simp add: is_controller_def)
qed

text \<open>A change that leaves the controllers where they are.\<close>

lemma table_fine_keep:
  assumes tab: "table_fine devs w" and len: "length (aw_threads w') = length (aw_threads w)" and comm: "aw_commands w' = aw_commands w"
    and ctl: "aw_controller w' = aw_controller w" and started: "\<And>t. t \<in> set (aw_started w') \<Longrightarrow> t < length (aw_threads w)"
    and rate: "\<And>d. aw_rate w d \<noteq> None \<Longrightarrow> aw_rate w' d \<noteq> None"
    and dev: "\<And>j. is_controller w j \<Longrightarrow> j < length (aw_threads w) \<Longrightarrow> at_outputDevice (aw_threads w' ! j) = at_outputDevice (aw_threads w ! j)"
    and no: "\<And>j. \<not> is_controller w j \<Longrightarrow> j < length (aw_threads w) \<Longrightarrow> \<not> is_controller w' j"
  shows "table_fine devs w'"
  unfolding table_fine_def
proof (intro conjI allI impI ballI)
  {
    fix d v assume "aw_controller w' d = Some v"
    then have "aw_controller w d = Some v" using ctl by simp
    then obtain c where c: "v = Some c" "c < length (aw_threads w)" "at_outputDevice (aw_threads w ! c) = d" "is_controller w c" "d \<in> set devs"
      using table_entry [OF tab] by blast
    then show "d \<in> set devs" "\<exists>c<length (aw_threads w'). v = Some c \<and> at_outputDevice (aw_threads w' ! c) = d" using len dev by auto
  next
    fix d assume "d \<in> set devs"
    then show "aw_rate w' d \<noteq> None" using tab rate unfolding table_fine_def by blast
  next
    show "-1 \<notin> set devs" using tab unfolding table_fine_def by blast
  next
    fix t assume "t \<in> set (aw_started w')"
    then show "t < length (aw_threads w')" using started len by simp
  next
    fix t d assume "AUDIO_THREAD_CMD_SET_DEVICE d \<in> set (bq_items (aw_commands w' t))"
    then have "AUDIO_THREAD_CMD_SET_DEVICE d \<in> set (bq_items (aw_commands w t))" using comm by simp
    then have "d \<in> set devs \<and> t < length (aw_threads w) \<and> \<not> is_controller w t" using tab unfolding table_fine_def by blast
    then show "d \<in> set devs" "t < length (aw_threads w')" "\<not> is_controller w' t" using len no by simp_all
  }
qed

lemma table_fine_cong:
  assumes "table_fine devs w" "length (aw_threads w') = length (aw_threads w)" "aw_commands w' = aw_commands w"
    "aw_controller w' = aw_controller w" "\<And>t. t \<in> set (aw_started w') \<Longrightarrow> t < length (aw_threads w)"
    "\<And>d. aw_rate w d \<noteq> None \<Longrightarrow> aw_rate w' d \<noteq> None"
    "\<And>j. j < length (aw_threads w) \<Longrightarrow> at_outputDevice (aw_threads w' ! j) = at_outputDevice (aw_threads w ! j)"
  shows "table_fine devs w'"
  using assms by (intro table_fine_keep [of devs w w']) (simp_all add: is_controller_def)

text \<open>Where threads play is all that matters.\<close>

lemma world_fine_cong:
  assumes "map place (aw_threads w') = map place (aw_threads w)" "aw_started w' = aw_started w"
    "aw_commands w' = aw_commands w" "aw_controller w' = aw_controller w"
    "\<And>d. aw_rate w d \<noteq> None \<Longrightarrow> aw_rate w' d \<noteq> None" "world_fine devs w"
  shows "world_fine devs w'"
proof -
  have len: "length (aw_threads w') = length (aw_threads w)" using map_eq_imp_length_eq assms(1) by blast
  have pl: "place (aw_threads w' ! j) = place (aw_threads w ! j)" if "j < length (aw_threads w)" for j
    using assms(1) that len by (metis nth_map)
  note f = place_eqD [OF pl]
  have c: "is_controller w' j = is_controller w j" and r: "is_running w' j = is_running w j" and n: "is_new w' j = is_new w j"
    if "j < length (aw_threads w)" for j
    using that by (simp_all add: is_controller_def is_running_def is_new_def f assms(2,4) len)
  have "table_fine devs w'"
    by (rule table_fine_cong [of _ w]) (use assms len f in \<open>auto simp: world_fine_def table_fine_def\<close>)
  moreover have "controller_fine devs w' j \<and> player_fine devs w' j \<and> bound_fine w' j" if j: "j < length (aw_threads w)" for j
  proof -
    have old: "controller_fine devs w j" "player_fine devs w j" "bound_fine w j" using assms(6) j by (simp_all add: world_fine_def)
    have k: "k < length (aw_threads w)" if "k \<in> set (at_bound (aw_threads w ! j))" for k
      using old(3) that by (auto simp: bound_fine_def is_running_def)
    have "controller_fine devs w' j" using old(1) j by (simp add: controller_fine_def c f assms(2))
    moreover have "player_fine devs w' j" using old(2) j by (simp add: player_fine_def c r n f assms(4))
    moreover have "bound_fine w' j" using old(3) j k by (simp add: bound_fine_def c r f)
    ultimately show ?thesis by blast
  qed
  ultimately show ?thesis by (simp add: world_fine_def len)
qed

lemma world_fine_on:
  assumes "world_fine devs w" "place (f (aw_threads w ! t)) = place (aw_threads w ! t)"
  shows "world_fine devs (on_audio t f w)"
proof (rule world_fine_cong [of _ w])
  show "map place (aw_threads (on_audio t f w)) = map place (aw_threads w)"
    using assms(2) by (cases "t < length (aw_threads w)") (simp_all add: on_audio_def map_update list_update_beyond list_update_same_conv)
qed (use assms(1) in simp_all)

subsection \<open>Leaving and joining a device\<close>

text \<open>The world while thread \<open>t\<close> is on its way between devices.\<close>

definition bound_but :: "nat \<Rightarrow> audio_world \<Rightarrow> nat \<Rightarrow> bool" where
  "bound_but t w j \<longleftrightarrow> distinct (at_bound (aw_threads w ! j)) \<and>
     (\<forall>k\<in>set (at_bound (aw_threads w ! j)) - {t}. is_controller w j \<and> is_running w k \<and> \<not> is_controller w k \<and>
        at_deviceId (aw_threads w ! k) = at_outputDevice (aw_threads w ! j))"

definition world_but :: "int list \<Rightarrow> nat \<Rightarrow> audio_world \<Rightarrow> bool" where
  "world_but devs t w \<longleftrightarrow> table_fine devs w \<and> is_running w t \<and> \<not> is_controller w t \<and> at_bound (aw_threads w ! t) = [] \<and>
     (\<forall>j<length (aw_threads w). bound_but t w j) \<and>
     (\<forall>j<length (aw_threads w). j \<noteq> t \<longrightarrow> controller_fine devs w j \<and> player_fine devs w j) \<and>
     (\<forall>c<length (aw_threads w). t \<in> set (at_bound (aw_threads w ! c)) \<longrightarrow>
        aw_controller w (at_outputDevice (aw_threads w ! t)) = Some (Some c))"

lemma runningD: "is_running w t \<Longrightarrow> t < length (aw_threads w)"
  by (simp add: is_running_def)

lemma newD: "is_new w t \<Longrightarrow> t < length (aw_threads w)"
  by (simp add: is_new_def)

lemma world_fineD:
  assumes "world_fine devs w" "j < length (aw_threads w)"
  shows "controller_fine devs w j" "player_fine devs w j" "bound_fine w j"
  using assms by (simp_all add: world_fine_def)

lemma no_bound:
  assumes "bound_fine w j" "\<not> is_controller w j"
  shows "at_bound (aw_threads w ! j) = []"
  using assms by (cases "at_bound (aw_threads w ! j)") (auto simp: bound_fine_def)

lemma bound_at:
  assumes w: "world_fine devs w" and c: "c < length (aw_threads w)" "t \<in> set (at_bound (aw_threads w ! c))"
  shows "aw_controller w (at_outputDevice (aw_threads w ! t)) = Some (Some c)" "is_running w t" "\<not> is_controller w t"
proof -
  have b: "is_controller w c" "is_running w t" "\<not> is_controller w t" "at_deviceId (aw_threads w ! t) = at_outputDevice (aw_threads w ! c)"
    using world_fineD(3) [OF w c(1)] c(2) by (auto simp: bound_fine_def)
  have "at_outputDevice (aw_threads w ! t) = at_deviceId (aw_threads w ! t)"
    using world_fineD(2) [OF w runningD [OF b(2)]] b(2,3) by (simp add: player_fine_def)
  then show "aw_controller w (at_outputDevice (aw_threads w ! t)) = Some (Some c)" using b(1,4) by (simp add: is_controller_def)
  show "is_running w t" "\<not> is_controller w t" by (fact b)+
qed

lemma start_moving:
  assumes w: "world_fine devs w" and t: "is_running w t \<or> is_new w t" "\<not> is_controller w t"
    and ss: "set ss = insert t (set (aw_started w))"
  shows "world_but devs t (on_audio t (\<lambda>x. x\<lparr>at_deviceId := d\<rparr>) (w\<lparr>aw_started := ss\<rparr>))" (is "world_but devs t ?w")
proof -
  have len: "t < length (aw_threads w)" using t(1) runningD newD by blast
  have alive: "\<not> at_terminated (aw_threads w ! t)"
    using t world_fineD(2) [OF w len] by (auto simp: is_running_def player_fine_def)
  have th: "aw_threads ?w ! j = (if j = t then (aw_threads w ! t)\<lparr>at_deviceId := d\<rparr> else aw_threads w ! j)" for j
    using len by (subst thread_on_audio) simp_all
  have c: "is_controller ?w j = is_controller w j" for j by (simp add: is_controller_def th)
  have r: "is_running ?w t" using len alive by (simp add: is_running_def th ss)
  have r': "is_running ?w j = is_running w j" "is_new ?w j = is_new w j" if "j \<noteq> t" for j
    using that by (simp_all add: is_running_def is_new_def th ss)
  have tab: "table_fine devs w" using w by (simp add: world_fine_def)
  then have "table_fine devs ?w"
    by (rule table_fine_cong) (use tab len in \<open>auto simp: th ss table_fine_def\<close>)
  moreover have "at_bound (aw_threads ?w ! t) = []" using no_bound [OF world_fineD(3) [OF w len] t(2)] by (simp add: th)
  moreover have "bound_but t ?w j" if "j < length (aw_threads w)" for j
    using world_fineD(3) [OF w that] by (auto simp: bound_but_def bound_fine_def c th r')
  moreover have "controller_fine devs ?w j \<and> player_fine devs ?w j" if "j < length (aw_threads w)" "j \<noteq> t" for j
    using world_fineD(1,2) [OF w that(1)] that(2) by (simp add: controller_fine_def player_fine_def c r' th ss)
  moreover have "aw_controller ?w (at_outputDevice (aw_threads ?w ! t)) = Some (Some c)"
    if "c < length (aw_threads w)" "t \<in> set (at_bound (aw_threads ?w ! c))" for c
    using bound_at(1) [OF w that(1)] that(2) by (simp add: th split: if_splits)
  ultimately show ?thesis using r t(2) by (simp add: world_but_def c)
qed

lemma leave_fine:
  assumes w: "world_but devs t w"
  shows "\<exists>w1. leave_device t w = Inr w1 \<and> world_but devs t w1 \<and> (\<forall>c<length (aw_threads w1). t \<notin> set (at_bound (aw_threads w1 ! c))) \<and>
    at_deviceId (aw_threads w1 ! t) = at_deviceId (aw_threads w ! t) \<and> aw_rate w1 = aw_rate w"
proof (cases "aw_controller w (at_outputDevice (aw_threads w ! t))")
  case None
  with w show ?thesis by (auto simp: leave_device_def world_but_def)
next
  case (Some v)
  have tab: "table_fine devs w" using w by (simp add: world_but_def)
  then obtain c where c: "v = Some c" "c < length (aw_threads w)" "at_outputDevice (aw_threads w ! c) = at_outputDevice (aw_threads w ! t)"
    using Some unfolding table_fine_def by blast
  have neq: "c \<noteq> t" using w Some c by (auto simp: world_but_def is_controller_def)
  define w1 where "w1 = removeThread c t w"
  have th: "aw_threads w1 ! j = (if j = c then (aw_threads w ! c)\<lparr>at_bound := remove1 t (at_bound (aw_threads w ! c))\<rparr> else aw_threads w ! j)" for j
    using c(2) by (simp add: w1_def removeThread_def)
  have same: "length (aw_threads w1) = length (aw_threads w)" "aw_started w1 = aw_started w" "aw_controller w1 = aw_controller w"
    "aw_commands w1 = aw_commands w" "aw_rate w1 = aw_rate w"
    by (simp_all add: w1_def removeThread_def)
  have k: "is_controller w1 j = is_controller w j" "is_running w1 j = is_running w j" "is_new w1 j = is_new w j" for j
    by (simp_all add: is_controller_def is_running_def is_new_def th same)
  have "table_fine devs w1"
    by (rule table_fine_cong [OF tab]) (use tab in \<open>auto simp: same th table_fine_def\<close>)
  moreover have "bound_but t w1 j" if "j < length (aw_threads w)" for j
    using w that set_remove1_subset [of t "at_bound (aw_threads w ! j)"]
    by (auto simp: world_but_def bound_but_def k th)
  moreover have "controller_fine devs w1 j \<and> player_fine devs w1 j" if "j < length (aw_threads w)" "j \<noteq> t" for j
    using w that by (auto simp: world_but_def controller_fine_def player_fine_def k th same)
  moreover have gone: "t \<notin> set (at_bound (aw_threads w1 ! j))" if j: "j < length (aw_threads w)" for j
  proof
    assume in1: "t \<in> set (at_bound (aw_threads w1 ! j))"
    then have "t \<in> set (at_bound (aw_threads w ! j))" using set_remove1_subset by (fastforce simp: th split: if_splits)
    then have "j = c" using w j Some c(1) by (auto simp: world_but_def)
    moreover have "distinct (at_bound (aw_threads w ! c))" using w c(2) by (simp add: world_but_def bound_but_def)
    ultimately show False using in1 by (simp add: th)
  qed
  moreover have "is_running w1 t" "\<not> is_controller w1 t" "at_bound (aw_threads w1 ! t) = []"
    using w neq by (simp_all add: world_but_def k th)
  ultimately have "world_but devs t w1" by (simp add: world_but_def same)
  moreover have "leave_device t w = Inr w1" using Some c(1) by (simp add: leave_device_def w1_def)
  ultimately show ?thesis using gone neq same by (auto simp: th)
qed

lemma join_existing:
  assumes w: "world_but devs t w" and free: "\<forall>c<length (aw_threads w). t \<notin> set (at_bound (aw_threads w ! c))"
    and d: "at_deviceId (aw_threads w ! t) = d" "d \<noteq> -1" and c: "aw_controller w d = Some (Some c)" "c \<noteq> t"
  shows "world_fine devs (device_ready t d (bindThread c t w))" (is "world_fine devs ?w")
proof -
  have tab: "table_fine devs w" and t: "is_running w t" "\<not> is_controller w t" "at_bound (aw_threads w ! t) = []"
    using w by (simp_all add: world_but_def)
  have tl: "t < length (aw_threads w)" using t(1) by (rule runningD)
  obtain c' where "Some c = Some c'" "c' < length (aw_threads w)" "at_outputDevice (aw_threads w ! c') = d" "is_controller w c'" "d \<in> set devs"
    by (rule table_entry [OF tab c(1)])
  then have cl: "c < length (aw_threads w)" "at_outputDevice (aw_threads w ! c) = d" "is_controller w c" by simp_all
  have th: "aw_threads ?w ! j = (if j = t then (aw_threads w ! t)\<lparr>at_active := True, at_outputDevice := d\<rparr>
      else if j = c then (aw_threads w ! c)\<lparr>at_bound := at_bound (aw_threads w ! c) @ [t]\<rparr> else aw_threads w ! j)" for j
    using tl cl(1) free c(2) d(2) by (simp add: device_ready_def bindThread_def)
  have same: "length (aw_threads ?w) = length (aw_threads w)" "aw_started ?w = aw_started w" "aw_controller ?w = aw_controller w"
    "aw_commands ?w = aw_commands w" "aw_rate ?w = aw_rate w"
    by (simp_all add: device_ready_def bindThread_def)
  have k: "is_controller ?w j = is_controller w j" for j
    using c t(2) by (auto simp: is_controller_def th same)
  have r: "is_running ?w j = is_running w j" "is_new ?w j = is_new w j" for j
    by (simp_all add: is_running_def is_new_def th same)
  have "table_fine devs ?w"
    by (rule table_fine_keep [OF tab]) (use tab t(2) k in \<open>auto simp: same th table_fine_def\<close>)
  moreover have "controller_fine devs ?w j \<and> player_fine devs ?w j \<and> bound_fine ?w j" if j: "j < length (aw_threads w)" for j
  proof -
    have b: "bound_but t w j" using w j by (simp add: world_but_def)
    show ?thesis
    proof (cases "j = t")
      case True
      have "\<not> is_new w t" using t(1) by (simp add: is_running_def is_new_def)
      with True t c d(1) show ?thesis by (auto simp: controller_fine_def player_fine_def bound_fine_def k r th same)
    next
      case False
      then have "controller_fine devs w j" "player_fine devs w j" using w j by (simp_all add: world_but_def)
      then have "controller_fine devs ?w j" "player_fine devs ?w j" using False
        by (auto simp: controller_fine_def player_fine_def k r th same)
      moreover have "bound_fine ?w j"
        using b False free j t cl d(1) by (auto simp: bound_but_def bound_fine_def k r th)
      ultimately show ?thesis by blast
    qed
  qed
  ultimately show ?thesis by (simp add: world_fine_def same)
qed

lemma join_new:
  assumes w: "world_but devs t w" and free: "\<forall>c<length (aw_threads w). t \<notin> set (at_bound (aw_threads w ! c))"
    and d: "at_deviceId (aw_threads w ! t) = d" "d \<in> set devs" "aw_controller w d = None"
  shows "world_fine devs (device_ready t d (new_controller t d rate w))" (is "world_fine devs ?w")
proof -
  let ?n = "length (aw_threads w)"
  have tab: "table_fine devs w" and t: "is_running w t" "\<not> is_controller w t" "at_bound (aw_threads w ! t) = []"
    using w by (simp_all add: world_but_def)
  have tl: "t < ?n" using t(1) by (rule runningD)
  have d1: "d \<noteq> -1" using tab d(2) by (auto simp: table_fine_def)
  define w0 where "w0 = setInitOutputDevice ?n d rate (w\<lparr>aw_threads := aw_threads w @ [AudioThread_init]\<rparr>)"
  have w0: "aw_started w0 = aw_started w" "aw_controller w0 = aw_controller w" "aw_commands w0 = aw_commands w"
    by (simp_all add: w0_def setInitOutputDevice_def Let_def split: option.split)
  have w0_rate: "aw_rate w0 x \<noteq> None" if "aw_rate w x \<noteq> None" for x
    using that by (auto simp: w0_def setInitOutputDevice_def Let_def split: option.split)
  have w0_len: "length (aw_threads w0) = Suc ?n"
    by (simp add: w0_def setInitOutputDevice_def Let_def split: option.split)
  define r where "r = at_sampleRate (aw_threads w0 ! ?n)"
  have w0_th: "aw_threads w0 = aw_threads w @ [AudioThread_init\<lparr>at_outputDevice := d, at_sampleRate := r\<rparr>]"
    by (simp add: r_def w0_def setInitOutputDevice_def Let_def on_audio_def split: option.split)
  have th: "aw_threads ?w ! j = (if j = t then (aw_threads w ! t)\<lparr>at_active := True, at_outputDevice := d\<rparr>
      else if j = ?n then AudioThread_init\<lparr>at_outputDevice := d, at_sampleRate := r, at_bound := [t]\<rparr> else aw_threads w ! j)" if "j \<le> ?n" for j
    using that tl d1
    by (simp add: device_ready_def new_controller_def Let_def w0_def [symmetric] bindThread_def w0_len)
      (simp add: w0_th nth_append AudioThread_init_def)
  have same: "length (aw_threads ?w) = Suc ?n" "aw_started ?w = aw_started w" "aw_controller ?w = (aw_controller w)(d \<mapsto> Some ?n)"
    "aw_commands ?w = aw_commands w" "aw_rate ?w = aw_rate w0"
    by (simp_all add: device_ready_def new_controller_def Let_def w0_def [symmetric] bindThread_def w0_len w0)
  have k: "is_controller ?w j = (j = ?n \<or> is_controller w j)" if j: "j \<le> ?n" for j
  proof -
    consider "j = ?n" | "j = t" "j \<noteq> ?n" | "j \<noteq> t" "j < ?n" using j by linarith
    then show ?thesis
    proof cases
      case 1
      with tl show ?thesis by (simp add: is_controller_def th same)
    next
      case 2
      with tl t(2) show ?thesis by (simp add: is_controller_def th same)
    next
      case 3
      then show ?thesis using d(3) by (simp add: is_controller_def th same)
    qed
  qed
  have r: "is_running ?w j = is_running w j" "is_new ?w j = is_new w j" if "j < ?n" for j
    using that by (simp_all add: is_running_def is_new_def th same)
  have fresh: "is_new ?w ?n" using tab by (auto simp: is_new_def same table_fine_def)
  have "table_fine devs ?w"
    unfolding table_fine_def
  proof (intro conjI allI impI ballI)
    {
      fix x v assume v: "aw_controller ?w x = Some v"
      show "x \<in> set devs" "\<exists>c<length (aw_threads ?w). v = Some c \<and> at_outputDevice (aw_threads ?w ! c) = x"
      proof -
        consider "x = d" "v = Some ?n" | "x \<noteq> d" "aw_controller w x = Some v" using v by (simp add: same split: if_splits)
        then have "x \<in> set devs \<and> (\<exists>c<length (aw_threads ?w). v = Some c \<and> at_outputDevice (aw_threads ?w ! c) = x)"
        proof cases
          case 1
          with d(2) tl show ?thesis by (auto simp: same th intro!: exI [of _ ?n])
        next
          case 2
          obtain c where c: "v = Some c" "c < ?n" "at_outputDevice (aw_threads w ! c) = x" "is_controller w c" "x \<in> set devs"
            by (rule table_entry [OF tab 2(2)])
          then have "c \<noteq> t" using t(2) by blast
          with c show ?thesis by (auto simp: same th intro!: exI [of _ c])
        qed
        then show "x \<in> set devs" "\<exists>c<length (aw_threads ?w). v = Some c \<and> at_outputDevice (aw_threads ?w ! c) = x" by blast+
      qed
    next
      fix x assume "x \<in> set devs"
      then have "aw_rate w x \<noteq> None" using tab by (simp add: table_fine_def)
      then show "aw_rate ?w x \<noteq> None" unfolding same by (rule w0_rate)
    next
      show "-1 \<notin> set devs" using tab by (simp add: table_fine_def)
    next
      fix s assume "s \<in> set (aw_started ?w)"
      then show "s < length (aw_threads ?w)" using tab by (auto simp: same table_fine_def)
    next
      fix s x assume "AUDIO_THREAD_CMD_SET_DEVICE x \<in> set (bq_items (aw_commands ?w s))"
      then have "x \<in> set devs \<and> s < ?n \<and> \<not> is_controller w s" using tab unfolding table_fine_def same by blast
      then show "x \<in> set devs" "s < length (aw_threads ?w)" "\<not> is_controller ?w s" using k [of s] by (simp_all add: same)
    }
  qed
  moreover have "controller_fine devs ?w j \<and> player_fine devs ?w j \<and> bound_fine ?w j" if j: "j \<le> ?n" for j
  proof -
    consider "j = ?n" | "j = t" "j \<noteq> ?n" | "j \<noteq> t" "j < ?n" using j by linarith
    then show ?thesis
    proof cases
      case 1
      have "?n \<notin> set (aw_started w)" using fresh by (simp add: is_new_def same)
      then show ?thesis using 1 t tl d(1) k [of ?n] k [of t] r [of t]
        by (simp add: controller_fine_def player_fine_def bound_fine_def th same AudioThread_init_def)
    next
      case 2
      have "\<not> is_new w t" using t(1) by (simp add: is_running_def is_new_def)
      with 2 t tl d(1) k [of t] r [of t] show ?thesis
        by (simp add: controller_fine_def player_fine_def bound_fine_def th same)
    next
      case 3
      have "controller_fine devs w j" "player_fine devs w j" "bound_but t w j" using w 3 by (simp_all add: world_but_def)
      moreover have below: "x < ?n" if "x \<in> set (at_bound (aw_threads w ! j)) - {t}" for x
        using \<open>bound_but t w j\<close> that by (auto simp: bound_but_def dest: runningD)
      moreover have "bound_fine ?w j"
        unfolding bound_fine_def
      proof (intro conjI ballI)
        have th_j: "aw_threads ?w ! j = aw_threads w ! j" using 3 by (simp add: th)
        show "distinct (at_bound (aw_threads ?w ! j))" using \<open>bound_but t w j\<close> by (simp add: th_j bound_but_def)
        fix x assume "x \<in> set (at_bound (aw_threads ?w ! j))"
        then have x: "x \<in> set (at_bound (aw_threads w ! j)) - {t}" using free 3 by (auto simp: th_j)
        then have "is_controller w j" "is_running w x" "\<not> is_controller w x"
          "at_deviceId (aw_threads w ! x) = at_outputDevice (aw_threads w ! j)" "x < ?n" "x \<noteq> t"
          using \<open>bound_but t w j\<close> below [OF x] by (auto simp: bound_but_def)
        then show "is_controller ?w j" "is_running ?w x" "\<not> is_controller ?w x"
          "at_deviceId (aw_threads ?w ! x) = at_outputDevice (aw_threads ?w ! j)"
          using 3 k [of j] k [of x] r [of x] by (simp_all add: th)
      qed
      ultimately show ?thesis using 3 k [of j] r [of j]
        by (simp add: controller_fine_def player_fine_def th same)
    qed
  qed
  ultimately show ?thesis by (simp add: world_fine_def same less_Suc_eq_le)
qed

lemma setup_player:
  assumes w: "world_fine devs w" and t: "is_running w t \<or> is_new w t" "\<not> is_controller w t" and d: "d \<in> set devs"
    and ss: "set ss = insert t (set (aw_started w))"
  shows "\<exists>w'. setupDevice ra t d (w\<lparr>aw_started := ss\<rparr>) = Inr w' \<and> world_fine devs w'"
proof -
  let ?w0 = "on_audio t (\<lambda>x. x\<lparr>at_deviceId := d\<rparr>) (w\<lparr>aw_started := ss\<rparr>)"
  have len: "t < length (aw_threads w)" using t(1) runningD newD by blast
  obtain w1 where w1: "leave_device t ?w0 = Inr w1" "world_but devs t w1"
      "\<forall>c<length (aw_threads w1). t \<notin> set (at_bound (aw_threads w1 ! c))"
      "at_deviceId (aw_threads w1 ! t) = d" "aw_rate w1 = aw_rate w"
    using leave_fine [OF start_moving [OF w t ss, of d]] len by (auto simp: on_audio_def)
  have tab: "table_fine devs w1" and noctl: "\<not> is_controller w1 t" using w1(2) by (simp_all add: world_but_def)
  obtain rate where rate: "aw_rate w1 d = Some rate" using tab d by (auto simp: table_fine_def)
  define w2 where "w2 = on_audio t (\<lambda>x. x\<lparr>at_sampleRate := rate\<rparr>) w1"
  have tl1: "t < length (aw_threads w1)" using w1(2) by (auto simp: world_but_def dest: runningD)
  have th: "aw_threads w2 ! j = (if j = t then (aw_threads w1 ! t)\<lparr>at_sampleRate := rate\<rparr> else aw_threads w1 ! j)" for j
    using tl1 by (simp add: w2_def)
  have same: "length (aw_threads w2) = length (aw_threads w1)" "aw_started w2 = aw_started w1" "aw_controller w2 = aw_controller w1"
      "aw_commands w2 = aw_commands w1" "aw_rate w2 = aw_rate w1"
    by (simp_all add: w2_def)
  have k: "is_controller w2 j = is_controller w1 j" "is_running w2 j = is_running w1 j" "is_new w2 j = is_new w1 j" for j
    by (simp_all add: is_controller_def is_running_def is_new_def th same)
  have "table_fine devs w2" by (rule table_fine_cong [OF tab]) (use tab in \<open>auto simp: same th table_fine_def\<close>)
  moreover have "bound_but t w2 j" if "j < length (aw_threads w1)" for j
    using w1(2) that by (auto simp: world_but_def bound_but_def k th)
  moreover have "controller_fine devs w2 j \<and> player_fine devs w2 j" if "j < length (aw_threads w1)" "j \<noteq> t" for j
    using w1(2) that by (auto simp: world_but_def controller_fine_def player_fine_def k th same)
  moreover have free: "\<forall>c<length (aw_threads w2). t \<notin> set (at_bound (aw_threads w2 ! c))" using w1(3) by (simp add: th same)
  ultimately have but: "world_but devs t w2" using w1(2) by (simp add: world_but_def k same th)
  have d2: "at_deviceId (aw_threads w2 ! t) = d" using w1(4) by (simp add: th)
  have d1: "d \<noteq> -1" using tab d by (auto simp: table_fine_def)
  have "\<exists>w'. join_device ra t d rate w2 = Inr w' \<and> world_fine devs w'"
  proof (cases "aw_controller w2 d")
    case None
    then show ?thesis using join_new [OF but free d2 d] by (simp add: join_device_def)
  next
    case (Some v)
    have "table_fine devs w2" using but by (simp add: world_but_def)
    then obtain c where c: "v = Some c" "is_controller w2 c" by (rule table_entry [OF _ Some])
    then have "c \<noteq> t" using noctl k by blast
    with join_existing [OF but free d2 d1] Some c show ?thesis by (simp add: join_device_def)
  qed
  then show ?thesis using w1(1) rate by (simp add: setupDevice_def w2_def)
qed

subsection \<open>The other operations\<close>

lemma start_player:
  assumes w: "world_fine devs w" and t: "is_new w t" "\<not> is_controller w t" and ra: "0 < ra_count ra" "ra_default ra \<in> set devs"
  shows "\<exists>w'. run_start ra t (Some q) w = Inr w' \<and> world_fine devs w'"
proof -
  define d where "d = (if at_outputDevice (aw_threads w ! t) = -1 then ra_default ra else at_outputDevice (aw_threads w ! t))"
  have "d \<in> set devs" using world_fineD(2) [OF w newD [OF t(1)]] t ra(2) by (auto simp: d_def player_fine_def)
  then obtain w1 where w1: "setupDevice ra t d (w\<lparr>aw_started := t # aw_started w\<rparr>) = Inr w1" "world_fine devs w1"
    using setup_player [OF w disjI2 [OF t(1)] t(2), of d "t # aw_started w" ra] by auto
  have "world_fine devs (on_audio t (\<lambda>x. x\<lparr>at_queue := Some q\<rparr>) w1)" by (rule world_fine_on [OF w1(2)]) (simp add: place_def)
  with w1(1) ra(1) show ?thesis by (simp add: run_start_def d_def [symmetric] Let_def)
qed

lemma start_controller:
  assumes w: "world_fine devs w" and t: "is_new w t" "is_controller w t" and ra: "0 < ra_count ra" "\<forall>d r. ra_opens ra d r"
  shows "\<exists>w'. run_start ra t None w = Inr w' \<and> world_fine devs w'"
proof -
  define d where "d = at_outputDevice (aw_threads w ! t)"
  have tl: "t < length (aw_threads w)" using t(1) by (rule newD)
  have tab: "table_fine devs w" using w by (simp add: world_fine_def)
  have ctl: "aw_controller w d = Some (Some t)" using t(2) by (simp add: is_controller_def d_def)
  then have dev: "d \<in> set devs" using tab by (auto simp: table_fine_def)
  then have d1: "d \<noteq> -1" and "aw_rate w d \<noteq> None" using tab by (auto simp: table_fine_def)
  then obtain rate where rate: "aw_rate w d = Some rate" by blast
  have free: "t \<notin> set (at_bound (aw_threads w ! t))" using world_fineD(3) [OF w tl] t(2) by (auto simp: bound_fine_def)
  have closed: "\<not> at_stream (aw_threads w ! t)" "\<not> at_terminated (aw_threads w ! t)"
    using world_fineD(1) [OF w tl] t by (auto simp: controller_fine_def is_new_def)
  define x where "x = (aw_threads w ! t)\<lparr>at_deviceId := d, at_sampleRate := rate, at_outputQueue := [], at_stream := True,
    at_active := True, at_queue := None\<rparr>"
  define w' where "w' = w\<lparr>aw_started := t # aw_started w, aw_instance := Some t, aw_threads := (aw_threads w)[t := x]\<rparr>"
  have run: "run_start ra t None w = Inr w'"
    using ra tl d1 ctl rate free closed(1)
    by (simp add: run_start_def setupDevice_def leave_device_def join_device_def device_ready_def removeThread_def on_audio_def
        d_def [symmetric] remove1_idem Let_def w'_def x_def) (simp add: d_def)
  have th: "aw_threads w' ! j = (if j = t then x else aw_threads w ! j)" for j using tl by (simp add: w'_def)
  have same: "length (aw_threads w') = length (aw_threads w)" "aw_started w' = t # aw_started w" "aw_controller w' = aw_controller w"
    by (simp_all add: w'_def)
  have k: "is_controller w' j = is_controller w j" for j by (simp add: is_controller_def th x_def d_def same)
  have r: "is_running w' j = is_running w j" "is_new w' j = is_new w j" if "j \<noteq> t" for j
    using that by (simp_all add: is_running_def is_new_def th same)
  have "table_fine devs w'" by (rule table_fine_cong [OF tab]) (use tab tl in \<open>auto simp: w'_def x_def nth_list_update table_fine_def\<close>)
  moreover have "controller_fine devs w' j \<and> player_fine devs w' j \<and> bound_fine w' j" if j: "j < length (aw_threads w)" for j
  proof (cases "j = t")
    case True
    have n: "k \<noteq> t" if "k \<in> set (at_bound (aw_threads w ! t))" for k using free that by blast
    with True world_fineD(3) [OF w tl] t(2) closed(2) show ?thesis
      by (auto simp: controller_fine_def player_fine_def bound_fine_def k th r same x_def d_def)
  next
    case False
    have "l \<noteq> t" if "l \<in> set (at_bound (aw_threads w ! j))" for l
      using that world_fineD(3) [OF w j] t(2) by (auto simp: bound_fine_def)
    with False world_fineD [OF w j] show ?thesis
      by (auto simp: controller_fine_def player_fine_def bound_fine_def k th r same)
  qed
  ultimately have "world_fine devs w'" by (simp add: world_fine_def same)
  with run show ?thesis by blast
qed

text \<open>Threads change place only when they are set up.\<close>

definition same_places :: "audio_world \<Rightarrow> audio_world \<Rightarrow> bool" where
  "same_places w w' \<longleftrightarrow> map place (aw_threads w') = map place (aw_threads w) \<and> aw_started w' = aw_started w \<and>
     aw_commands w' = aw_commands w \<and> aw_controller w' = aw_controller w \<and> (\<forall>d. aw_rate w d \<noteq> None \<longrightarrow> aw_rate w' d \<noteq> None)"

lemma same_places_fine: "same_places w w' \<Longrightarrow> world_fine devs w \<Longrightarrow> world_fine devs w'"
  by (rule world_fine_cong [of w' w]) (simp_all add: same_places_def)

lemma same_places_trans: "same_places w w1 \<Longrightarrow> same_places w1 w2 \<Longrightarrow> same_places w w2"
  by (simp add: same_places_def)

lemma same_places_on:
  assumes "place (f (aw_threads w ! t)) = place (aw_threads w ! t)"
  shows "same_places w (on_audio t f w)"
  using assms by (cases "t < length (aw_threads w)")
    (simp_all add: same_places_def on_audio_def map_update list_update_beyond list_update_same_conv)

lemma same_placesD:
  assumes "same_places w w'"
  shows "length (aw_threads w') = length (aw_threads w)"
    "j < length (aw_threads w) \<Longrightarrow> place (aw_threads w' ! j) = place (aw_threads w ! j)"
proof -
  have m: "map place (aw_threads w') = map place (aw_threads w)" using assms by (simp add: same_places_def)
  show len: "length (aw_threads w') = length (aw_threads w)" using map_eq_imp_length_eq m by blast
  show "place (aw_threads w' ! j) = place (aw_threads w ! j)" if "j < length (aw_threads w)" using m that len by (metis nth_map)
qed

lemma bound_rate:
  assumes "aw_controller w (at_outputDevice (aw_threads w ! j)) = Some (Some c)" "c \<noteq> j"
  shows "setSampleRate ra rate (Suc n) j w = Some (Inr (on_audio j (\<lambda>x. x\<lparr>at_sampleRate := rate\<rparr>) w))"
  using assms by simp

lemma each_bound_rate:
  assumes "\<forall>j\<in>set js. j < length (aw_threads w) \<and> (\<exists>c. aw_controller w (at_outputDevice (aw_threads w ! j)) = Some (Some c) \<and> c \<noteq> j)"
  shows "\<exists>w'. each_bound (setSampleRate ra rate (Suc n)) js w = Some (Inr w') \<and> same_places w w'"
  using assms
proof (induction js arbitrary: w)
  case Nil
  then show ?case by (simp add: same_places_def del: setSampleRate.simps)
next
  case (Cons j js)
  let ?w = "on_audio j (\<lambda>x. x\<lparr>at_sampleRate := rate\<rparr>) w"
  obtain c where "j < length (aw_threads w)" "aw_controller w (at_outputDevice (aw_threads w ! j)) = Some (Some c)" "c \<noteq> j"
    using Cons.prems by auto
  then have step: "setSampleRate ra rate (Suc n) j w = Some (Inr ?w)" by (intro bound_rate)
  have same: "same_places w ?w" by (rule same_places_on) (simp add: place_def)
  have "\<forall>j\<in>set js. j < length (aw_threads ?w) \<and> (\<exists>c. aw_controller ?w (at_outputDevice (aw_threads ?w ! j)) = Some (Some c) \<and> c \<noteq> j)"
  proof
    fix k assume "k \<in> set js"
    then have k: "k < length (aw_threads w)" "\<exists>c. aw_controller w (at_outputDevice (aw_threads w ! k)) = Some (Some c) \<and> c \<noteq> k"
      using Cons.prems by auto
    then show "k < length (aw_threads ?w) \<and> (\<exists>c. aw_controller ?w (at_outputDevice (aw_threads ?w ! k)) = Some (Some c) \<and> c \<noteq> k)"
      using place_eqD(2) [OF same_placesD(2) [OF same k(1)]] by simp
  qed
  then obtain w' where w': "each_bound (setSampleRate ra rate (Suc n)) js ?w = Some (Inr w')" "same_places ?w w'"
    using Cons.IH by blast
  have "each_bound (setSampleRate ra rate (Suc n)) (j # js) w = Some (Inr w')"
    by (simp only: each_bound.simps step w'(1) option.case sum.case)
  with same_places_trans [OF same w'(2)] show ?case by blast
qed

lemma set_rate_fine:
  assumes w: "world_fine devs w" and t: "is_running w t" and ra: "\<forall>d r. ra_opens ra d r"
  shows "\<exists>w'. setSampleRate ra rate (Suc (Suc n)) t w = Some (Inr w') \<and> world_fine devs w'"
proof -
  have tl: "t < length (aw_threads w)" using t by (rule runningD)
  have tab: "table_fine devs w" using w by (simp add: world_fine_def)
  let ?d = "at_outputDevice (aw_threads w ! t)"
  show ?thesis
  proof (cases "is_controller w t")
    case False
    then have "aw_controller w ?d \<noteq> None" using world_fineD(2) [OF w tl] t by (simp add: player_fine_def)
    then obtain v where v: "aw_controller w ?d = Some v" by blast
    then obtain c where c: "v = Some c" "is_controller w c" by (rule table_entry [OF tab])
    then have "c \<noteq> t" using False by blast
    with v c have "setSampleRate ra rate (Suc (Suc n)) t w = Some (Inr (on_audio t (\<lambda>x. x\<lparr>at_sampleRate := rate\<rparr>) w))"
      by (intro bound_rate) simp_all
    moreover have "world_fine devs (on_audio t (\<lambda>x. x\<lparr>at_sampleRate := rate\<rparr>) w)"
      by (rule world_fine_on [OF w]) (simp add: place_def)
    ultimately show ?thesis by blast
  next
    case True
    then have ctl: "aw_controller w ?d = Some (Some t)" by (simp add: is_controller_def)
    have open_stream: "at_stream (aw_threads w ! t)" using world_fineD(1) [OF w tl] True t by (auto simp: controller_fine_def is_running_def)
    define w1 where "w1 = on_audio t (\<lambda>x. x\<lparr>at_stream := False\<rparr>) (w\<lparr>aw_rate := (aw_rate w)(?d \<mapsto> rate)\<rparr>)"
    have th1: "aw_threads w1 ! j = (if j = t then (aw_threads w ! t)\<lparr>at_stream := False\<rparr> else aw_threads w ! j)" for j
      using tl by (simp add: w1_def)
    have same1: "length (aw_threads w1) = length (aw_threads w)" "aw_controller w1 = aw_controller w"
      by (simp_all add: w1_def)
    have "j < length (aw_threads w1) \<and> (\<exists>c. aw_controller w1 (at_outputDevice (aw_threads w1 ! j)) = Some (Some c) \<and> c \<noteq> j)"
      if "j \<in> set (at_bound (aw_threads w ! t))" for j
      using bound_at [OF w tl that] that True runningD [of w j] by (auto simp: th1 same1)
    then obtain w2 where w2: "each_bound (setSampleRate ra rate (Suc n)) (at_bound (aw_threads w1 ! t)) w1 = Some (Inr w2)" "same_places w1 w2"
      using each_bound_rate [of "at_bound (aw_threads w1 ! t)" w1 ra rate n] by (auto simp: th1 simp del: setSampleRate.simps)
    define w3 where "w3 = on_audio t (\<lambda>x. x\<lparr>at_stream := True, at_sampleRate := rate\<rparr>) (w2\<lparr>aw_told := aw_told w2 @ [(?d, rate)]\<rparr>)"
    have tl2: "t < length (aw_threads w2)" using same_placesD(1) [OF w2(2)] tl same1 by simp
    have "setSampleRate ra rate (Suc (Suc n)) t w = Some (Inr w3)"
      unfolding setSampleRate.simps(2) [of ra rate "Suc n"] Let_def ctl option.case w1_def [symmetric] w2(1) sum.case
      using open_stream ra tl2 by (simp add: w3_def on_audio_def)
    moreover have "same_places w w3"
    proof -
      have "map place (aw_threads w3) = (map place (aw_threads w2))[t := place ((aw_threads w2 ! t)\<lparr>at_stream := True, at_sampleRate := rate\<rparr>)]"
        by (simp add: w3_def on_audio_def map_update)
      also have "\<dots> = (map place (aw_threads w1))[t := place ((aw_threads w2 ! t)\<lparr>at_stream := True, at_sampleRate := rate\<rparr>)]"
        using w2(2) by (simp add: same_places_def)
      also have "place ((aw_threads w2 ! t)\<lparr>at_stream := True, at_sampleRate := rate\<rparr>) = place (aw_threads w ! t)"
        using same_placesD(2) [OF w2(2), of t] tl same1 open_stream by (simp add: place_def th1)
      also have "(map place (aw_threads w1))[t := place (aw_threads w ! t)] = map place (aw_threads w)"
        using tl by (simp add: w1_def on_audio_def map_update list_update_same_conv)
      finally show ?thesis using w2(2) by (auto simp: same_places_def w3_def w1_def)
    qed
    ultimately show ?thesis using same_places_fine w by blast
  qed
qed

lemma command_fine:
  assumes w: "world_fine devs w" and t: "is_running w t" and ra: "\<forall>d r. ra_opens ra d r"
  shows "\<exists>w'. run_command ra t w = Some (Inr w') \<and> world_fine devs w'"
proof (cases "bq_items (aw_commands w t)")
  case Nil
  with w show ?thesis by (simp add: run_command_def bq_try_pop_def)
next
  case (Cons c cs)
  define w1 where "w1 = w\<lparr>aw_commands := (aw_commands w)(t := (aw_commands w t)\<lparr>bq_items := cs\<rparr>)\<rparr>"
  have pop: "run_command ra t w = (case c of AUDIO_THREAD_CMD_SET_DEVICE d \<Rightarrow> Some (setupDevice ra t d w1)
      | AUDIO_THREAD_CMD_SET_SAMPLE_RATE rate \<Rightarrow> setSampleRate ra rate (Suc (length (aw_threads w))) t w1)"
    unfolding run_command_def bq_try_pop_def w1_def using Cons by (simp add: Let_def del: setSampleRate.simps)
  have k: "is_controller w1 j = is_controller w j" "is_running w1 j = is_running w j" "is_new w1 j = is_new w j" for j
    by (simp_all add: is_controller_def is_running_def is_new_def w1_def)
  have tab: "table_fine devs w" using w by (simp add: world_fine_def)
  have "d \<in> set devs \<and> s < length (aw_threads w) \<and> \<not> is_controller w s"
    if "AUDIO_THREAD_CMD_SET_DEVICE d \<in> set (bq_items (aw_commands w1 s))" for s d
  proof -
    have "AUDIO_THREAD_CMD_SET_DEVICE d \<in> set (bq_items (aw_commands w s))"
      using that Cons by (simp add: w1_def split: if_splits)
    with tab show ?thesis unfolding table_fine_def by blast
  qed
  then have "table_fine devs w1" using tab unfolding table_fine_def k by (simp add: w1_def)
  moreover have "controller_fine devs w1 j \<and> player_fine devs w1 j \<and> bound_fine w1 j" if "j < length (aw_threads w)" for j
    using world_fineD [OF w that] unfolding controller_fine_def player_fine_def bound_fine_def k by (simp add: w1_def)
  ultimately have w1: "world_fine devs w1" by (simp add: world_fine_def w1_def)
  show ?thesis
  proof (cases c)
    case (AUDIO_THREAD_CMD_SET_DEVICE d)
    then have "d \<in> set devs \<and> \<not> is_controller w t" using tab Cons unfolding table_fine_def by (metis list.set_intros(1))
    then obtain w' where "setupDevice ra t d (w1\<lparr>aw_started := aw_started w1\<rparr>) = Inr w'" "world_fine devs w'"
      using setup_player [OF w1, of t d "aw_started w1" ra] t k by (auto simp: is_running_def insert_absorb)
    with pop AUDIO_THREAD_CMD_SET_DEVICE show ?thesis by simp
  next
    case (AUDIO_THREAD_CMD_SET_SAMPLE_RATE rate)
    obtain n where "length (aw_threads w) = Suc n" using t by (cases "length (aw_threads w)") (auto simp: is_running_def)
    with pop AUDIO_THREAD_CMD_SET_SAMPLE_RATE set_rate_fine [OF w1 _ ra, of t rate n] t k show ?thesis
      by (simp del: setSampleRate.simps)
  qed
qed

lemma remove_fine:
  assumes w: "world_fine devs w" and c: "c < length (aw_threads w)"
  shows "world_fine devs (removeThread c t w)"
proof -
  let ?w = "removeThread c t w"
  have tab: "table_fine devs w" using w by (simp add: world_fine_def)
  have same: "length (aw_threads ?w) = length (aw_threads w)" "aw_started ?w = aw_started w" "aw_controller ?w = aw_controller w"
      "aw_commands ?w = aw_commands w" "aw_rate ?w = aw_rate w"
    by (simp_all add: removeThread_def)
  have th: "aw_threads ?w ! j = (aw_threads w ! j)\<lparr>at_bound := (if j = c then remove1 t else id) (at_bound (aw_threads w ! j))\<rparr>" for j
    using c by (simp add: removeThread_def)
  have k: "is_controller ?w j = is_controller w j" "is_running ?w j = is_running w j" "is_new ?w j = is_new w j" for j
    by (simp_all add: is_controller_def is_running_def is_new_def th same)
  have "table_fine devs ?w" by (rule table_fine_cong [OF tab]) (use tab in \<open>auto simp: same th table_fine_def\<close>)
  moreover have "controller_fine devs ?w j \<and> player_fine devs ?w j \<and> bound_fine ?w j" if "j < length (aw_threads w)" for j
    using world_fineD [OF w that] set_remove1_subset [of t "at_bound (aw_threads w ! j)"]
    by (auto simp: controller_fine_def player_fine_def bound_fine_def k th same)
  ultimately show ?thesis by (simp add: world_fine_def same)
qed

lemma bind_fine:
  assumes w: "world_fine devs w" and t: "is_running w t" "\<not> is_controller w t"
    and c: "aw_controller w (at_deviceId (aw_threads w ! t)) = Some (Some c)"
  shows "world_fine devs (bindThread c t w)"
proof -
  let ?w = "bindThread c t w"
  have tab: "table_fine devs w" using w by (simp add: world_fine_def)
  obtain c' where "Some c = Some c'" "c' < length (aw_threads w)" "at_outputDevice (aw_threads w ! c') = at_deviceId (aw_threads w ! t)"
    "is_controller w c'" by (rule table_entry [OF tab c])
  then have cl: "c < length (aw_threads w)" "at_outputDevice (aw_threads w ! c) = at_deviceId (aw_threads w ! t)" "is_controller w c"
    by simp_all
  have same: "length (aw_threads ?w) = length (aw_threads w)" "aw_started ?w = aw_started w" "aw_controller ?w = aw_controller w"
      "aw_commands ?w = aw_commands w" "aw_rate ?w = aw_rate w"
    by (simp_all add: bindThread_def)
  have th: "aw_threads ?w ! j = (aw_threads w ! j)\<lparr>at_bound := (if j = c \<and> t \<notin> set (at_bound (aw_threads w ! c))
      then at_bound (aw_threads w ! c) @ [t] else at_bound (aw_threads w ! j))\<rparr>" for j
    using cl(1) by (simp add: bindThread_def)
  have k: "is_controller ?w j = is_controller w j" "is_running ?w j = is_running w j" "is_new ?w j = is_new w j" for j
    by (simp_all add: is_controller_def is_running_def is_new_def th same)
  have "table_fine devs ?w" by (rule table_fine_cong [OF tab]) (use tab in \<open>auto simp: same th table_fine_def\<close>)
  moreover have "controller_fine devs ?w j \<and> player_fine devs ?w j" if "j < length (aw_threads w)" for j
    using world_fineD(1,2) [OF w that] by (simp add: controller_fine_def player_fine_def k th same)
  moreover have "bound_fine ?w j" if "j < length (aw_threads w)" for j
    using world_fineD(3) [OF w that] t cl by (auto simp: bound_fine_def k th)
  ultimately show ?thesis by (simp add: world_fine_def same)
qed

lemma player_controller:
  assumes w: "world_fine devs w" and t: "is_running w t" "\<not> is_controller w t"
  obtains c where "aw_controller w (at_deviceId (aw_threads w ! t)) = Some (Some c)" "c < length (aw_threads w)" "c \<noteq> t"
    "at_outputDevice (aw_threads w ! t) = at_deviceId (aw_threads w ! t)"
proof -
  have tab: "table_fine devs w" using w by (simp add: world_fine_def)
  have p: "at_outputDevice (aw_threads w ! t) = at_deviceId (aw_threads w ! t)" "aw_controller w (at_deviceId (aw_threads w ! t)) \<noteq> None"
    using world_fineD(2) [OF w runningD [OF t(1)]] t by (simp_all add: player_fine_def)
  then obtain v where v: "aw_controller w (at_deviceId (aw_threads w ! t)) = Some v" by blast
  then obtain c where "v = Some c" "c < length (aw_threads w)" "is_controller w c" by (rule table_entry [OF tab])
  then show thesis using that v p(1) t(2) by blast
qed

lemma activate_fine:
  assumes w: "world_fine devs w" and t: "is_running w t" "\<not> is_controller w t"
  shows "world_fine devs (audio_setActive t state w)"
proof -
  obtain c where c: "aw_controller w (at_deviceId (aw_threads w ! t)) = Some (Some c)" "c < length (aw_threads w)"
    using player_controller [OF w t] by blast
  define w1 where "w1 = (if state \<and> \<not> at_active (aw_threads w ! t) \<and> at_queue (aw_threads w ! t) \<noteq> None then bindThread c t w
    else if \<not> state \<and> at_active (aw_threads w ! t) then removeThread c t w else w)"
  have "world_fine devs w1" using w bind_fine [OF w t c(1)] remove_fine [OF w c(2)] by (simp add: w1_def)
  then have "world_fine devs (on_audio t (\<lambda>x. x\<lparr>at_queue := map_option bq_flush (at_queue x), at_active := state\<rparr>) w1)"
    by (rule world_fine_on) (simp add: place_def)
  then show ?thesis using c(1) by (simp add: audio_setActive_def Let_def w1_def)
qed

lemma end_fine:
  assumes w: "world_fine devs w" and t: "is_running w t" "\<not> is_controller w t"
  shows "\<exists>w'. run_end t w = Inr w' \<and> world_fine devs w'"
proof -
  define w1 where "w1 = on_audio t (\<lambda>x. x\<lparr>at_queue := map_option bq_flush (at_queue x), at_current := None\<rparr>) w"
  have w1: "world_fine devs w1" unfolding w1_def by (rule world_fine_on [OF w]) (simp add: place_def)
  have tl: "t < length (aw_threads w)" using t(1) by (rule runningD)
  have th1: "place (aw_threads w1 ! j) = place (aw_threads w ! j)" for j using tl by (simp add: w1_def place_def)
  have k1: "is_running w1 t" "\<not> is_controller w1 t"
    using t place_eqD [OF th1] by (simp_all add: is_running_def is_controller_def w1_def)
  obtain c where c: "aw_controller w1 (at_deviceId (aw_threads w1 ! t)) = Some (Some c)" "c < length (aw_threads w1)" "c \<noteq> t"
    "at_outputDevice (aw_threads w1 ! t) = at_deviceId (aw_threads w1 ! t)"
    using player_controller [OF w1 k1] by blast
  define w2 where "w2 = removeThread c t w1"
  have w2: "world_fine devs w2" unfolding w2_def by (rule remove_fine [OF w1 c(2)])
  define w3 where "w3 = on_audio t (\<lambda>x. x\<lparr>at_terminated := True\<rparr>) w2"
  have run: "run_end t w = Inr w3"
    using c(1,3) place_eqD(3) [OF th1, of t] by (simp add: run_end_def Let_def w3_def w2_def flip: w1_def)
  have tl2: "t < length (aw_threads w2)" using tl by (simp add: w2_def removeThread_def w1_def)
  have same2: "length (aw_threads w2) = length (aw_threads w1)" "aw_controller w2 = aw_controller w1" "aw_started w2 = aw_started w1"
    by (simp_all add: w2_def removeThread_def)
  have th2: "aw_threads w2 ! j = (if j = c then (aw_threads w1 ! c)\<lparr>at_bound := remove1 t (at_bound (aw_threads w1 ! c))\<rparr> else aw_threads w1 ! j)" for j
    using c(2) by (simp add: w2_def removeThread_def)
  have nob: "t \<notin> set (at_bound (aw_threads w2 ! j))" if j: "j < length (aw_threads w2)" for j
  proof
    assume in2: "t \<in> set (at_bound (aw_threads w2 ! j))"
    from bound_at(1) [OF w2 j in2] have "j = c" using c(1,3,4) by (simp add: same2 th2)
    moreover have "distinct (at_bound (aw_threads w1 ! c))" using world_fineD(3) [OF w1 c(2)] by (simp add: bound_fine_def)
    ultimately show False using in2 by (simp add: th2)
  qed
  have same: "length (aw_threads w3) = length (aw_threads w2)" "aw_started w3 = aw_started w2" "aw_controller w3 = aw_controller w2"
      "aw_commands w3 = aw_commands w2" "aw_rate w3 = aw_rate w2"
    by (simp_all add: w3_def)
  have th: "aw_threads w3 ! j = (if j = t then (aw_threads w2 ! t)\<lparr>at_terminated := True\<rparr> else aw_threads w2 ! j)" for j
    using tl2 by (simp add: w3_def)
  have k: "is_controller w3 j = is_controller w2 j" "is_new w3 j = is_new w2 j" for j
    by (simp_all add: is_controller_def is_new_def th same)
  have r: "is_running w3 j = (j \<noteq> t \<and> is_running w2 j)" for j by (simp add: is_running_def th same)
  have not: "\<not> is_controller w2 t" "\<not> is_new w2 t"
    using k1 c(3) by (simp_all add: is_controller_def is_new_def is_running_def th2 same2)
  have tab: "table_fine devs w2" using w2 by (simp add: world_fine_def)
  have "table_fine devs w3" by (rule table_fine_cong [OF tab]) (use tab in \<open>auto simp: same th table_fine_def\<close>)
  moreover have "controller_fine devs w3 j \<and> player_fine devs w3 j" if "j < length (aw_threads w2)" for j
    using world_fineD(1,2) [OF w2 that] not by (auto simp: controller_fine_def player_fine_def k r th same)
  moreover have "bound_fine w3 j" if j: "j < length (aw_threads w2)" for j
    using world_fineD(3) [OF w2 j] nob [OF j] by (auto simp: bound_fine_def k r th)
  ultimately show ?thesis using run by (auto simp: world_fine_def same)
qed

lemma new_audio_fine:
  assumes w: "world_fine devs w"
  shows "world_fine devs (w\<lparr>aw_threads := aw_threads w @ [AudioThread_init]\<rparr>)" (is "world_fine devs ?w")
proof -
  let ?n = "length (aw_threads w)"
  have tab: "table_fine devs w" using w by (simp add: world_fine_def)
  have th: "aw_threads ?w ! j = (if j < ?n then aw_threads w ! j else if j = ?n then AudioThread_init else aw_threads ?w ! j)" for j
    by (simp add: nth_append)
  have k: "is_controller ?w j = is_controller w j" "is_running ?w j = is_running w j" "is_new ?w j = is_new w j" if "j < ?n" for j
    using that by (simp_all add: is_controller_def is_running_def is_new_def nth_append)
  have "aw_controller w (-1) = None" using tab unfolding table_fine_def by (metis not_None_eq)
  then have fresh: "\<not> is_controller ?w ?n" "is_new ?w ?n" "\<not> is_running ?w ?n"
    using tab by (auto simp: is_controller_def is_new_def is_running_def AudioThread_init_def table_fine_def)
  have "table_fine devs ?w"
    unfolding table_fine_def
  proof (intro conjI allI impI ballI)
    {
      fix d v assume "aw_controller ?w d = Some v"
      then have "aw_controller w d = Some v" by simp
      then obtain c where "v = Some c" "c < ?n" "at_outputDevice (aw_threads w ! c) = d" "is_controller w c" "d \<in> set devs"
        by (rule table_entry [OF tab])
      then show "d \<in> set devs" "\<exists>c<length (aw_threads ?w). v = Some c \<and> at_outputDevice (aw_threads ?w ! c) = d"
        by (auto simp: nth_append intro!: exI [of _ c])
    next
      fix d assume "d \<in> set devs"
      then show "aw_rate ?w d \<noteq> None" using tab by (simp add: table_fine_def)
    next
      show "-1 \<notin> set devs" using tab by (simp add: table_fine_def)
    next
      fix t assume "t \<in> set (aw_started ?w)"
      then show "t < length (aw_threads ?w)" using tab by (auto simp: table_fine_def)
    next
      fix t d assume "AUDIO_THREAD_CMD_SET_DEVICE d \<in> set (bq_items (aw_commands ?w t))"
      then have "d \<in> set devs \<and> t < ?n \<and> \<not> is_controller w t" using tab unfolding table_fine_def by simp
      then show "d \<in> set devs" "t < length (aw_threads ?w)" "\<not> is_controller ?w t" using k [of t] by simp_all
    }
  qed
  moreover have "controller_fine devs ?w j \<and> player_fine devs ?w j \<and> bound_fine ?w j" if j: "j < Suc ?n" for j
  proof (cases "j = ?n")
    case True
    with fresh show ?thesis
      by (simp add: controller_fine_def player_fine_def bound_fine_def AudioThread_init_def)
  next
    case False
    then have jn: "j < ?n" using j by simp
    note old = world_fineD [OF w jn]
    have "l < ?n" if "l \<in> set (at_bound (aw_threads w ! j))" for l
      using old(3) that by (auto simp: bound_fine_def is_running_def)
    with old jn k show ?thesis by (simp add: controller_fine_def player_fine_def bound_fine_def nth_append)
  qed
  ultimately show ?thesis by (simp add: world_fine_def)
qed

lemma init_device_fine:
  assumes w: "world_fine devs w" and t: "is_new w t" "\<not> is_controller w t" and d: "d \<in> set devs"
  shows "world_fine devs (setInitOutputDevice t d (-1) w)" (is "world_fine devs ?w")
proof -
  have tl: "t < length (aw_threads w)" using t(1) by (rule newD)
  have tab: "table_fine devs w" using w by (simp add: world_fine_def)
  have same: "length (aw_threads ?w) = length (aw_threads w)" "aw_started ?w = aw_started w" "aw_controller ?w = aw_controller w"
      "aw_commands ?w = aw_commands w"
    by (simp_all add: setInitOutputDevice_def Let_def split: option.split)
  have rate: "aw_rate ?w x \<noteq> None" if "aw_rate w x \<noteq> None" for x
    using that by (auto simp: setInitOutputDevice_def Let_def split: option.split)
  define r where "r = at_sampleRate (aw_threads ?w ! t)"
  have th: "aw_threads ?w ! j = (if j = t then (aw_threads w ! t)\<lparr>at_outputDevice := d, at_sampleRate := r\<rparr> else aw_threads w ! j)" for j
    using tl by (simp add: r_def setInitOutputDevice_def Let_def on_audio_def nth_list_update split: option.split)
  have "aw_controller w d \<noteq> Some (Some t)"
  proof
    assume "aw_controller w d = Some (Some t)"
    then obtain c where "Some t = Some c" "is_controller w c" by (rule table_entry [OF tab])
    with t(2) show False by simp
  qed
  then have k: "is_controller ?w j = is_controller w j" for j using t(2) by (auto simp: is_controller_def th same)
  have r: "is_running ?w j = is_running w j" "is_new ?w j = is_new w j" for j
    by (simp_all add: is_running_def is_new_def th same)
  have "table_fine devs ?w"
    by (rule table_fine_keep [OF tab]) (use tab t(2) k rate in \<open>auto simp: same th table_fine_def\<close>)
  moreover have "controller_fine devs ?w j \<and> player_fine devs ?w j \<and> bound_fine ?w j" if j: "j < length (aw_threads w)" for j
  proof -
    have nb: "l \<noteq> t" if "l \<in> set (at_bound (aw_threads w ! j))" for l
      using world_fineD(3) [OF w j] that t(1) by (auto simp: bound_fine_def is_running_def is_new_def)
    have at_t: "j = t \<Longrightarrow> \<not> is_running w t \<and> at_bound (aw_threads w ! t) = []"
      using t no_bound [OF world_fineD(3) [OF w tl] t(2)] by (simp add: is_running_def is_new_def)
    have "controller_fine devs ?w j" using world_fineD(1) [OF w j] t(2) by (auto simp: controller_fine_def k th same)
    moreover have "player_fine devs ?w j" using world_fineD(2) [OF w j] at_t d by (auto simp: player_fine_def k r th same)
    moreover have "bound_fine ?w j" using world_fineD(3) [OF w j] nb at_t by (auto simp: bound_fine_def k r th)
    ultimately show ?thesis by blast
  qed
  ultimately show ?thesis by (simp add: world_fine_def same)
qed

lemma ask_fine:
  assumes w: "world_fine devs w" and c: "\<And>d. c = AUDIO_THREAD_CMD_SET_DEVICE d \<Longrightarrow> d \<in> set devs \<and> t < length (aw_threads w) \<and> \<not> is_controller w t"
  shows "world_fine devs (w\<lparr>aw_commands := (aw_commands w)(t := snd (bq_try_push c (aw_commands w t)))\<rparr>)" (is "world_fine devs ?w")
proof -
  have k: "is_controller ?w j = is_controller w j" "is_running ?w j = is_running w j" "is_new ?w j = is_new w j" for j
    by (simp_all add: is_controller_def is_running_def is_new_def)
  have tab: "table_fine devs w" using w by (simp add: world_fine_def)
  have "d \<in> set devs \<and> s < length (aw_threads w) \<and> \<not> is_controller w s"
    if "AUDIO_THREAD_CMD_SET_DEVICE d \<in> set (bq_items (aw_commands ?w s))" for s d
  proof -
    have "AUDIO_THREAD_CMD_SET_DEVICE d \<in> set (bq_items (aw_commands w s)) \<or> s = t \<and> c = AUDIO_THREAD_CMD_SET_DEVICE d"
      using that by (auto simp: bq_try_push_def split: if_splits)
    with tab c show ?thesis unfolding table_fine_def by blast
  qed
  then have "table_fine devs ?w" using tab unfolding table_fine_def k by simp
  moreover have "controller_fine devs ?w j \<and> player_fine devs ?w j \<and> bound_fine ?w j" if "j < length (aw_threads w)" for j
    using world_fineD [OF w that] unfolding controller_fine_def player_fine_def bound_fine_def k by simp
  ultimately show ?thesis by (simp add: world_fine_def)
qed

lemma mix_thread_place: "mix_thread n rate t out = Inr (out', t', m) \<Longrightarrow> place t' = place t \<and> at_gain t' = at_gain t"
  by (auto simp: mix_thread_def mix_current_def bind_result_Inr_iff Let_def place_def split: option.splits if_splits prod.splits)

lemma mix_bound_place:
  "mix_bound n rate js ts out peak = Inr (out', ts', peak') \<Longrightarrow> map place ts' = map place ts \<and> map at_gain ts' = map at_gain ts"
proof (induction js arbitrary: ts out peak)
  case (Cons j js)
  then obtain o1 t1 m1 where t: "j < length ts" "mix_thread n rate (ts ! j) out = Inr (o1, t1, m1)"
    "mix_bound n rate js (ts[j := t1]) o1 (peak + m1) = Inr (out', ts', peak')"
    by (auto simp: bind_result_Inr_iff)
  have "map place (ts[j := t1]) = map place ts" "map at_gain (ts[j := t1]) = map at_gain ts"
    using mix_thread_place [OF t(2)] t(1) by (simp_all add: map_update list_update_same_conv)
  with Cons.IH [OF t(3)] show ?case by simp
qed simp

lemma map_update_same: "k < length xs \<Longrightarrow> g y = g (xs ! k) \<Longrightarrow> map g (xs[k := y]) = map g xs"
  by (simp add: map_update list_update_same_conv)

lemma callback_place:
  assumes "audioCallback room status n src ts = Inr (code, out, ts')"
  shows "map place ts' = map place ts \<and> map at_gain ts' = map at_gain ts"
proof (cases "at_terminated (ts ! src)")
  case True
  with assms show ?thesis by (auto simp: audioCallback_def Let_def bind_result_Inr_iff)
next
  case False
  define ts1 where "ts1 = (if status then ts[src := (ts ! src)\<lparr>at_underflowCount := at_underflowCount (ts ! src) + 1\<rparr>] else ts)"
  obtain o1 ts2 peak where m: "src < length ts" "mix_bound n (at_sampleRate (ts ! src)) (at_bound (ts ! src)) ts1 (replicate (2 * n) 0) 0 = Inr (o1, ts2, peak)"
    "ts' = (if room (at_outputQueue (ts2 ! src)) then
       ts2[src := (ts2 ! src)\<lparr>at_outputQueue := at_outputQueue (ts2 ! src) @ [left_channel (normalize_volume peak o1)]\<rparr>] else ts2)"
    using assms False by (auto simp: audioCallback_def bind_result_Inr_iff Let_def ts1_def)
  have one: "map place ts1 = map place ts" "map at_gain ts1 = map at_gain ts"
    using m(1) by (simp_all add: ts1_def map_update_same place_def)
  have two: "map place ts2 = map place ts1" "map at_gain ts2 = map at_gain ts1" using mix_bound_place [OF m(2)] by simp_all
  have "src < length ts2" using m(1) one(1) two(1) by (metis length_map)
  then have "map place ts' = map place ts2" "map at_gain ts' = map at_gain ts2"
    unfolding m(3) by (simp_all add: map_update_same place_def)
  with one two show ?thesis by simp
qed

lemma play_fine:
  assumes w: "world_fine devs w" and s: "sound_fine w" and t: "is_running w t"
  shows "\<exists>code out ts. audioCallback room status n t (aw_threads w) = Inr (code, out, ts) \<and>
    world_fine devs (w\<lparr>aw_threads := ts\<rparr>) \<and> sound_fine (w\<lparr>aw_threads := ts\<rparr>)"
proof -
  have tl: "t < length (aw_threads w)" using t by (rule runningD)
  have ok: "\<forall>x\<in>set (aw_threads w). audio_ok x" using s by (simp add: sound_fine_def)
  have b: "\<forall>j\<in>set (at_bound (aw_threads w ! t)). j < length (aw_threads w)"
    using world_fineD(3) [OF w tl] by (auto simp: bound_fine_def is_running_def)
  obtain code out ts where call: "audioCallback room status n t (aw_threads w) = Inr (code, out, ts)" "\<forall>x\<in>set ts. audio_ok x"
    using callback_bounded [OF ok tl b, of room status n] by blast
  note p = callback_place [OF call(1)]
  have "world_fine devs (w\<lparr>aw_threads := ts\<rparr>)" by (rule world_fine_cong [OF _ _ _ _ _ w]) (simp_all add: p)
  moreover have "\<forall>x\<in>set ts. at_gain x \<le> 2"
  proof -
    have "\<forall>g\<in>set (map at_gain (aw_threads w)). g \<le> 2" using s by (simp add: sound_fine_def)
    then have "\<forall>g\<in>set (map at_gain ts). g \<le> 2" using p by simp
    then show ?thesis by simp
  qed
  ultimately show ?thesis using call by (simp add: sound_fine_def)
qed

subsection \<open>Gains and buffers\<close>

lemma sound_fine_on:
  assumes "sound_fine w" "\<And>x. audio_ok x \<Longrightarrow> at_gain x \<le> 2 \<Longrightarrow> audio_ok (f x) \<and> at_gain (f x) \<le> 2"
  shows "sound_fine (on_audio t f w)"
proof (cases "t < length (aw_threads w)")
  case True
  then have "aw_threads w ! t \<in> set (aw_threads w)" by simp
  then have f: "audio_ok (f (aw_threads w ! t)) \<and> at_gain (f (aw_threads w ! t)) \<le> 2" using assms by (simp add: sound_fine_def)
  have "\<forall>x\<in>set (aw_threads (on_audio t f w)). audio_ok x \<and> at_gain x \<le> 2"
    unfolding on_audio_def using assms(1) f by (simp add: sound_fine_def) (rule ball_list_update, simp_all)
  then show ?thesis by (simp add: sound_fine_def)
next
  case False
  with assms(1) show ?thesis by (simp add: sound_fine_def on_audio_def list_update_beyond)
qed

lemma sound_fine_place:
  assumes "sound_fine w" "\<And>x. at_gain (f x) = at_gain x \<and> at_current (f x) = at_current x \<and> at_queue (f x) = at_queue x"
  shows "sound_fine (on_audio t f w)"
  by (rule sound_fine_on [OF assms(1)]) (simp add: assms(2) audio_ok_def)

lemma sound_fine_updates [simp]:
  "sound_fine (w\<lparr>aw_rate := r\<rparr>) = sound_fine w" "sound_fine (w\<lparr>aw_started := ss\<rparr>) = sound_fine w"
  "sound_fine (w\<lparr>aw_commands := cs\<rparr>) = sound_fine w" "sound_fine (w\<lparr>aw_controller := c\<rparr>) = sound_fine w"
  "sound_fine (w\<lparr>aw_instance := i\<rparr>) = sound_fine w" "sound_fine (w\<lparr>aw_told := l\<rparr>) = sound_fine w"
  by (simp_all add: sound_fine_def)

lemma sound_bind: "sound_fine w \<Longrightarrow> sound_fine (bindThread c t w)"
  unfolding bindThread_def by (rule sound_fine_place) simp_all

lemma sound_remove: "sound_fine w \<Longrightarrow> sound_fine (removeThread c t w)"
  unfolding removeThread_def by (rule sound_fine_place) simp_all

lemma sound_init: "sound_fine w \<Longrightarrow> sound_fine (setInitOutputDevice t d r w)"
  unfolding setInitOutputDevice_def Let_def
  by (auto split: option.split intro!: sound_fine_place)

lemma sound_new: "sound_fine w \<Longrightarrow> sound_fine (w\<lparr>aw_threads := aw_threads w @ [AudioThread_init]\<rparr>)"
  by (auto simp: sound_fine_def AudioThread_init_def audio_ok_def)

lemma sound_join: "join_device ra t d r w = Inr w' \<Longrightarrow> sound_fine w \<Longrightarrow> sound_fine w'"
  by (auto simp: join_device_def device_ready_def new_controller_def Let_def
      intro!: sound_fine_place sound_bind sound_init sound_new split: option.splits if_splits)

lemma sound_setup: "setupDevice ra t d w = Inr w' \<Longrightarrow> sound_fine w \<Longrightarrow> sound_fine w'"
  by (auto simp: setupDevice_def leave_device_def bind_result_Inr_iff
      intro!: sound_fine_place sound_remove dest!: sound_join split: option.splits)

lemma sound_each:
  assumes "\<And>j w w'. f j w = Some (Inr w') \<Longrightarrow> sound_fine w \<Longrightarrow> sound_fine w'"
  shows "each_bound f js w = Some (Inr w') \<Longrightarrow> sound_fine w \<Longrightarrow> sound_fine w'"
  by (induction js arbitrary: w) (auto split: option.splits sum.splits dest: assms)

lemma sound_rate: "setSampleRate ra rate n t w = Some (Inr w') \<Longrightarrow> sound_fine w \<Longrightarrow> sound_fine w'"
proof (induction n arbitrary: t w w')
  case (Suc n)
  have each: "sound_fine v'" if "each_bound (setSampleRate ra rate n) js v = Some (Inr v')" "sound_fine v" for js v v'
    by (rule sound_each [of "setSampleRate ra rate n", OF _ that]) (erule Suc.IH)
  from Suc.prems show ?case
    by (auto simp: Let_def intro!: sound_fine_place split: option.splits sum.splits if_splits)
      (erule each, auto intro!: sound_fine_place)
qed simp

lemma sound_start:
  assumes "run_start ra t input w = Inr w'" "sound_fine w" "\<And>q. input = Some q \<Longrightarrow> list_all input_ok (bq_items q)"
  shows "sound_fine w'"
  using assms by (auto simp: run_start_def Let_def bind_result_Inr_iff audio_ok_def list_all_iff
      intro!: sound_fine_place sound_fine_on dest!: sound_setup split: if_splits)

lemma sound_command: "run_command ra t w = Some (Inr w') \<Longrightarrow> sound_fine w \<Longrightarrow> sound_fine w'"
  by (auto simp: run_command_def Let_def dest!: sound_setup sound_rate split: prod.splits option.splits audio_command.splits
      simp del: setSampleRate.simps)

lemma sound_flush: "sound_fine w \<Longrightarrow> sound_fine (on_audio t (\<lambda>x. x\<lparr>at_queue := map_option bq_flush (at_queue x), at_active := a\<rparr>) w)"
  by (rule sound_fine_on) (auto simp: audio_ok_def bq_flush_def)

lemma sound_activate: "sound_fine w \<Longrightarrow> sound_fine (audio_setActive t state w)"
  by (auto simp: audio_setActive_def Let_def intro!: sound_flush sound_bind sound_remove split: option.split)

lemma sound_end: "run_end t w = Inr w' \<Longrightarrow> sound_fine w \<Longrightarrow> sound_fine w'"
proof -
  assume run: "run_end t w = Inr w'" and s: "sound_fine w"
  have "sound_fine (on_audio t (\<lambda>x. x\<lparr>at_queue := map_option bq_flush (at_queue x), at_current := None\<rparr>) w)"
    by (rule sound_fine_on [OF s]) (auto simp: audio_ok_def bq_flush_def)
  with run show ?thesis
    by (auto simp: run_end_def Let_def intro!: sound_fine_place sound_remove split: option.splits if_splits)
qed

lemma setGain_range: "0 \<le> at_gain (setGain g x) \<and> at_gain (setGain g x) \<le> 2"
  by (simp add: setGain_def Let_def)

text \<open>What the demodulators ask for: devices that exist, buffers whose peak is right.\<close>

fun audio_asks_ok :: "int list \<Rightarrow> audio_step \<Rightarrow> bool" where
  "audio_asks_ok devs (Init_Device t d) \<longleftrightarrow> d \<in> set devs"
| "audio_asks_ok devs (Ask_Device t d) \<longleftrightarrow> d \<in> set devs"
| "audio_asks_ok devs (Start_Audio t q) \<longleftrightarrow> list_all input_ok (bq_items q)"
| "audio_asks_ok devs (Feed t b) \<longleftrightarrow> input_ok b"
| "audio_asks_ok devs _ \<longleftrightarrow> True"

definition rt_ok :: "int list \<Rightarrow> rt_audio \<Rightarrow> bool" where
  "rt_ok devs ra \<longleftrightarrow> 0 < ra_count ra \<and> ra_default ra \<in> set devs \<and> (\<forall>d r. ra_opens ra d r)"

lemma audio_step_fine:
  assumes w: "world_fine devs w" "sound_fine w" and en: "enabled w s" and ask: "audio_asks_ok devs s" and ra: "rt_ok devs ra"
  shows "\<exists>w'. do_audio_step ra s w = Some (Inr w') \<and> world_fine devs w' \<and> sound_fine w'"
proof -
  have ra': "0 < ra_count ra" "ra_default ra \<in> set devs" "\<forall>d r. ra_opens ra d r" using ra by (simp_all add: rt_ok_def)
  show ?thesis
  proof (cases s)
    case New_Audio
    with w show ?thesis using new_audio_fine sound_new by simp
  next
    case (Init_Device t d)
    with w en ask show ?thesis using init_device_fine sound_init by simp
  next
    case (Start_Audio t q)
    then obtain w' where "run_start ra t (Some q) w = Inr w'" "world_fine devs w'"
      using start_player [OF w(1) _ _ ra'(1,2), of t q] en by auto
    with Start_Audio ask w(2) show ?thesis using sound_start [of ra t "Some q" w w'] by simp
  next
    case (Start_Controller t)
    then obtain w' where "run_start ra t None w = Inr w'" "world_fine devs w'"
      using start_controller [OF w(1) _ _ ra'(1,3), of t] en by auto
    with Start_Controller w(2) show ?thesis using sound_start [of ra t None w w'] by simp
  next
    case (Ask_Device t d)
    with en ask runningD [of w t] have "world_fine devs (ask_device t d w)"
      unfolding ask_device_def by (intro ask_fine [OF w(1)]) simp
    with Ask_Device w(2) show ?thesis by (simp add: ask_device_def)
  next
    case (Ask_Device_Rate d r)
    have "world_fine devs (setDeviceSampleRate d r w)" "sound_fine (setDeviceSampleRate d r w)"
      unfolding setDeviceSampleRate_def using w by (auto intro!: ask_fine split: option.split)
    with Ask_Device_Rate show ?thesis by simp
  next
    case (Command t)
    then obtain w' where "run_command ra t w = Some (Inr w')" "world_fine devs w'" using command_fine [OF w(1) _ ra'(3), of t] en by auto
    with Command w(2) show ?thesis using sound_command by simp
  next
    case (Activate t state)
    with w en show ?thesis using activate_fine sound_activate by simp
  next
    case (Set_Gain t g)
    have "world_fine devs (on_audio t (setGain g) w)" by (rule world_fine_on [OF w(1)]) (simp add: place_def setGain_def)
    moreover have "sound_fine (on_audio t (setGain g) w)"
      by (rule sound_fine_on [OF w(2)]) (use setGain_range in \<open>auto simp: audio_ok_def setGain_def Let_def\<close>)
    ultimately show ?thesis using Set_Gain by simp
  next
    case (Feed t b)
    have "world_fine devs (on_audio t (\<lambda>x. x\<lparr>at_queue := map_option (\<lambda>q. snd (bq_try_push b q)) (at_queue x)\<rparr>) w)"
      by (rule world_fine_on [OF w(1)]) (simp add: place_def)
    moreover have "sound_fine (on_audio t (\<lambda>x. x\<lparr>at_queue := map_option (\<lambda>q. snd (bq_try_push b q)) (at_queue x)\<rparr>) w)"
      by (rule sound_fine_on [OF w(2)]) (use ask Feed in \<open>auto simp: audio_ok_def bq_try_push_def\<close>)
    ultimately show ?thesis using Feed by simp
  next
    case (Play room status n t)
    with en play_fine [OF w, of t room status n] show ?thesis by auto
  next
    case (End_Audio t)
    then obtain w' where "run_end t w = Inr w'" "world_fine devs w'" using end_fine [OF w(1), of t] en by auto
    with End_Audio w(2) show ?thesis using sound_end by simp
  qed
qed

lemma audio_run_fine:
  "world_fine devs w \<Longrightarrow> sound_fine w \<Longrightarrow> list_all (audio_asks_ok devs) ss \<Longrightarrow> rt_ok devs ra \<Longrightarrow>
    \<exists>w'. audio_run ra ss w = Some (Inr w') \<and> world_fine devs w' \<and> sound_fine w'"
proof (induction ss arbitrary: w)
  case (Cons s ss)
  show ?case
  proof (cases "enabled w s")
    case True
    then obtain w1 where w1: "do_audio_step ra s w = Some (Inr w1)" "world_fine devs w1" "sound_fine w1"
      using audio_step_fine [of devs w s ra] Cons.prems by auto
    with True Cons.prems Cons.IH [OF w1(2,3)] show ?thesis by (simp del: do_audio_step.simps)
  next
    case False
    with Cons show ?thesis by simp
  qed
qed simp

lemma start_fine: "-1 \<notin> set (map fst rates) \<Longrightarrow> world_fine (map fst rates) (audio_start rates) \<and> sound_fine (audio_start rates)"
  by (force simp: world_fine_def table_fine_def sound_fine_def audio_start_def ThreadBlockingQueue_init_def
      dest: weak_map_of_SomeI)

subsection \<open>What runs guarantee\<close>

lemma distinct_concat_nth:
  assumes "\<And>i. i < length ys \<Longrightarrow> distinct (ys ! i)"
    and "\<And>i j x. i < length ys \<Longrightarrow> j < length ys \<Longrightarrow> x \<in> set (ys ! i) \<Longrightarrow> x \<in> set (ys ! j) \<Longrightarrow> i = j"
  shows "distinct (concat ys)"
  using assms
proof (induction ys)
  case (Cons y ys)
  have "distinct (concat ys)"
  proof (rule Cons.IH)
    show "distinct (ys ! i)" if "i < length ys" for i using Cons.prems(1) [of "Suc i"] that by simp
    show "i = j" if "i < length ys" "j < length ys" "x \<in> set (ys ! i)" "x \<in> set (ys ! j)" for i j x
      using Cons.prems(2) [of "Suc i" "Suc j" x] that by simp
  qed
  moreover have "x \<notin> set y" if x: "x \<in> set z" "z \<in> set ys" for x z
  proof
    assume y: "x \<in> set y"
    obtain j where "j < length ys" "z = ys ! j" using x(2) by (auto simp: in_set_conv_nth)
    with Cons.prems(2) [of 0 "Suc j" x] x y show False by simp
  qed
  ultimately show ?case using Cons.prems(1) [of 0] by auto
qed simp

lemma fine_bound_once:
  assumes w: "world_fine devs w"
  shows "distinct (concat (map at_bound (aw_threads w)))"
proof (rule distinct_concat_nth)
  show "distinct (map at_bound (aw_threads w) ! i)" if "i < length (map at_bound (aw_threads w))" for i
    using world_fineD(3) [OF w, of i] that by (simp add: bound_fine_def)
  show "i = j" if "i < length (map at_bound (aw_threads w))" "j < length (map at_bound (aw_threads w))"
    "x \<in> set (map at_bound (aw_threads w) ! i)" "x \<in> set (map at_bound (aw_threads w) ! j)" for i j x
    using bound_at(1) [OF w, of i x] bound_at(1) [OF w, of j x] that by simp
qed


definition demo_rt :: rt_audio where
  "demo_rt = \<lparr>ra_count = 2, ra_default = 0, ra_opens = (\<lambda>_ _. True)\<rparr>"

definition demo_audio_steps :: "audio_step list" where
  "demo_audio_steps = [New_Audio, Start_Audio 0 ThreadBlockingQueue_init, Start_Controller 1, New_Audio, Init_Device 2 0,
     Start_Audio 2 ThreadBlockingQueue_init, Feed 0 (demo_input [1, 1 / 2]), Play (\<lambda>_. True) False 2 1, Activate 2 False,
     Set_Gain 0 7, Ask_Device 0 1, Command 0, Start_Controller 3, Ask_Device_Rate 0 44100, Command 1, Activate 2 True, End_Audio 0]"


text \<open>
  A thread that starts on a device whose rate nobody has set is not bound and has no controller;
  when it ends it looks its controller up with \<open>operator[]\<close> and follows the null pointer it gets.
\<close>

lemma end_without_rate_faults:
  assumes "0 < ra_count ra" "map_of rates (ra_default ra) = None"
  shows "audio_run ra [New_Audio, Start_Audio 0 q, End_Audio 0] (audio_start rates) = Some (Inl Null_Deref)"
  using assms
  by (simp add: audio_start_def is_new_def is_running_def is_controller_def run_start_def setupDevice_def leave_device_def
      run_end_def on_audio_def AudioThread_init_def Let_def)

end
