(* ===== verification/Io_Thread.thy ===== *)
theory Io_Thread
  imports Prelude
begin

text \<open>
  What every thread of the signal path is built on (src/src/cubic/IOThread.h, IOThread.cpp): the
  pool of reusable buffers \<open>ReBuffer\<close>, whose calls interleave with the threads that copy and drop
  the shared pointers it handed out, and the life of an \<open>IOThread\<close> with its two flags.
\<close>

section \<open>The pool of buffers\<close>

definition REBUFFER_GC_LIMIT :: int where "REBUFFER_GC_LIMIT = 100"

text \<open>
  A call of \<open>getBuffer\<close> that holds the lock: the position of its iterator and its local \<open>buf\<close>.
  \<open>rc_users\<close> is the set of buffers in use when it started, for the statements only.
\<close>

record rebuffer_call =
  rc_pos :: nat
  rc_buf :: "nat option"
  rc_users :: "nat set"

text \<open>
  \<open>rb_bufs\<close> is \<open>outputBuffers\<close>, each buffer with its age; \<open>rb_refs\<close> counts the shared pointers to
  a buffer outside the pool; \<open>rb_next\<close> is the next buffer to be allocated. \<open>rb_peak\<close> is the most
  buffers that were ever in use when one more was asked for, that one included.
\<close>

record rebuffer =
  rb_bufs :: "(nat \<times> int) list"
  rb_refs :: "nat \<Rightarrow> nat"
  rb_next :: nat
  rb_call :: "rebuffer_call option"
  rb_peak :: nat

definition ReBuffer_init :: rebuffer where
  "ReBuffer_init = \<lparr>rb_bufs = [], rb_refs = (\<lambda>_. 0), rb_next = 0, rb_call = None, rb_peak = 0\<rparr>"

text \<open>\<open>use_count\<close> of a buffer: the pool's own pointers, those outside, and the call's local one.\<close>

definition use_count :: "rebuffer \<Rightarrow> nat \<Rightarrow> nat" where
  "use_count s b = length (filter (\<lambda>x. fst x = b) (rb_bufs s)) + rb_refs s b +
     (case rb_call s of Some c \<Rightarrow> if rc_buf c = Some b then 1 else 0 | None \<Rightarrow> 0)"

text \<open>One round of the loop of \<open>getBuffer\<close>; an unused buffer is selected or made to age.\<close>

definition visit :: "rebuffer_call \<Rightarrow> rebuffer \<Rightarrow> rebuffer" where
  "visit c s =
     (let k = rc_pos c; (b, age) = rb_bufs s ! k; use = use_count s b
      in if use = 0 then s\<lparr>rb_bufs := take k (rb_bufs s) @ drop (Suc k) (rb_bufs s)\<rparr>
         else if use = 1 then
           (if rc_buf c = None
            then s\<lparr>rb_bufs := (rb_bufs s)[k := (b, 1)], rb_call := Some (c\<lparr>rc_buf := Some b, rc_pos := Suc k\<rparr>)\<rparr>
            else s\<lparr>rb_bufs := (rb_bufs s)[k := (b, age - 1)], rb_call := Some (c\<lparr>rc_pos := Suc k\<rparr>)\<rparr>)
         else s\<lparr>rb_call := Some (c\<lparr>rc_pos := Suc k\<rparr>)\<rparr>)"

text \<open>After the loop: the collection of the last buffer, or an allocation; and the return.\<close>

definition collect :: "rebuffer \<Rightarrow> rebuffer" where
  "collect s = (if snd (last (rb_bufs s)) < - REBUFFER_GC_LIMIT then s\<lparr>rb_bufs := butlast (rb_bufs s)\<rparr> else s)"

definition return_buffer :: "rebuffer_call \<Rightarrow> rebuffer \<Rightarrow> nat \<times> rebuffer" where
  "return_buffer c s =
     (case rc_buf c of
        Some b \<Rightarrow> (b, (collect s)\<lparr>rb_call := None, rb_refs := (rb_refs s)(b := rb_refs s b + 1)\<rparr>)
      | None \<Rightarrow> (rb_next s, s\<lparr>rb_bufs := rb_bufs s @ [(rb_next s, 1)], rb_call := None,
          rb_refs := (rb_refs s)(rb_next s := 1), rb_next := rb_next s + 1\<rparr>))"

definition purge :: "rebuffer \<Rightarrow> rebuffer" where
  "purge s = s\<lparr>rb_bufs := []\<rparr>"

definition in_use :: "rebuffer \<Rightarrow> nat set" where
  "in_use s = {b. 0 < rb_refs s b}"

definition enter_getBuffer :: "rebuffer \<Rightarrow> rebuffer" where
  "enter_getBuffer s = s\<lparr>rb_call := Some \<lparr>rc_pos = 0, rc_buf = None, rc_users = in_use s\<rparr>,
     rb_peak := max (rb_peak s) (card (in_use s) + 1)\<rparr>"

text \<open>
  The steps: a call takes the lock, goes round its loop, and returns with a buffer (the label);
  \<open>purge\<close> takes the lock too. Without the lock, whoever holds a buffer copies or drops a pointer.
\<close>

inductive rebuffer_step :: "rebuffer \<Rightarrow> nat option \<Rightarrow> rebuffer \<Rightarrow> bool" where
  enter: "rb_call s = None \<Longrightarrow> rebuffer_step s None (enter_getBuffer s)"
| round: "rb_call s = Some c \<Longrightarrow> rc_pos c < length (rb_bufs s) \<Longrightarrow> rebuffer_step s None (visit c s)"
| return_: "rb_call s = Some c \<Longrightarrow> \<not> rc_pos c < length (rb_bufs s) \<Longrightarrow> return_buffer c s = (b, t) \<Longrightarrow> rebuffer_step s (Some b) t"
| clear: "rb_call s = None \<Longrightarrow> rebuffer_step s None (purge s)"
| copy: "0 < rb_refs s b \<Longrightarrow> rebuffer_step s None (s\<lparr>rb_refs := (rb_refs s)(b := rb_refs s b + 1)\<rparr>)"
| drop_: "0 < rb_refs s b \<Longrightarrow> rebuffer_step s None (s\<lparr>rb_refs := (rb_refs s)(b := rb_refs s b - 1)\<rparr>)"

inductive rebuffer_reach :: "rebuffer \<Rightarrow> bool" where
  start: "rebuffer_reach ReBuffer_init"
| step: "rebuffer_reach s \<Longrightarrow> rebuffer_step s r t \<Longrightarrow> rebuffer_reach t"

section \<open>The invariant of the pool\<close>

text \<open>
  No buffer is pooled twice, every one was allocated, and one that has aged is not in use. While a
  call holds the lock, nobody starts to use a buffer: those in use were so when it started, what it
  selected is not in use and is young, and as long as it has selected nothing, every buffer behind
  its iterator was in use when it started.
\<close>

definition call_ok :: "rebuffer \<Rightarrow> rebuffer_call \<Rightarrow> bool" where
  "call_ok s c \<longleftrightarrow> in_use s \<subseteq> rc_users c \<and> finite (rc_users c) \<and> card (rc_users c) < rb_peak s \<and> rc_pos c \<le> length (rb_bufs s) \<and>
     (case rc_buf c of
        None \<Rightarrow> fst ` set (take (rc_pos c) (rb_bufs s)) \<subseteq> rc_users c
      | Some b \<Rightarrow> rb_refs s b = 0 \<and> (b, 1) \<in> set (rb_bufs s) \<and> b \<in> fst ` set (take (rc_pos c) (rb_bufs s)))"

definition rebuffer_inv :: "rebuffer \<Rightarrow> bool" where
  "rebuffer_inv s \<longleftrightarrow> distinct (map fst (rb_bufs s)) \<and> length (rb_bufs s) \<le> rb_peak s \<and>
     (\<forall>x\<in>set (rb_bufs s). fst x < rb_next s \<and> (snd x < 1 \<longrightarrow> rb_refs s (fst x) = 0)) \<and>
     (\<forall>b. rb_next s \<le> b \<longrightarrow> rb_refs s b = 0) \<and>
     (case rb_call s of None \<Rightarrow> True | Some c \<Rightarrow> call_ok s c)"

lemma in_use_finite: "rebuffer_inv s \<Longrightarrow> finite (in_use s)"
  by (rule finite_subset [of _ "{..<rb_next s}"]) (auto simp: rebuffer_inv_def in_use_def not_less [symmetric])

lemma pooled_once:
  "distinct (map fst xs) \<Longrightarrow> x \<in> set xs \<Longrightarrow> length (filter (\<lambda>y. fst y = fst x) xs) = 1"
  by (induction xs) (auto simp: filter_empty_conv image_iff)

lemma use_count_pooled:
  assumes "distinct (map fst (rb_bufs s))" "k < length (rb_bufs s)"
  shows "use_count s (fst (rb_bufs s ! k)) = 1 + rb_refs s (fst (rb_bufs s ! k)) +
     (case rb_call s of Some c \<Rightarrow> if rc_buf c = Some (fst (rb_bufs s ! k)) then 1 else 0 | None \<Rightarrow> 0)"
  using pooled_once [OF assms(1) nth_mem [OF assms(2)]] by (simp add: use_count_def)

lemma set_list_update_other:
  "k < length xs \<Longrightarrow> x \<noteq> xs ! k \<Longrightarrow> x \<in> set xs \<Longrightarrow> x \<in> set (xs[k := y])"
  by (metis in_set_conv_nth length_list_update nth_list_update_neq)

lemma map_fst_update: "k < length xs \<Longrightarrow> fst y = fst (xs ! k) \<Longrightarrow> map fst (xs[k := y]) = map fst xs"
  by (simp add: map_update) (metis length_map list_update_id nth_map)

lemma fst_take_update:
  "k < length xs \<Longrightarrow> fst y = fst (xs ! k) \<Longrightarrow> fst ` set (take n (xs[k := y])) = fst ` set (take n xs)"
  using arg_cong [OF map_fst_update, of k xs y "\<lambda>l. set (take n l)"] by (simp add: take_map)

lemma nth_not_in_take: "distinct xs \<Longrightarrow> k < length xs \<Longrightarrow> xs ! k \<notin> set (take k xs)"
  by (auto simp: in_set_conv_nth nth_eq_iff_index_eq)

lemma visit_inv:
  assumes "rebuffer_inv s" "rb_call s = Some c" "rc_pos c < length (rb_bufs s)"
  shows "rebuffer_inv (visit c s)"
proof -
  define k where "k = rc_pos c"
  obtain b a where ba: "rb_bufs s ! k = (b, a)" by (cases "rb_bufs s ! k")
  have k: "k < length (rb_bufs s)" using assms(3) by (simp add: k_def)
  have d: "distinct (map fst (rb_bufs s))" and c: "call_ok s c" using assms(1,2) by (auto simp: rebuffer_inv_def)
  have mem: "(b, a) \<in> set (rb_bufs s)" using k ba nth_mem [OF k] by simp
  have notin: "b \<notin> fst ` set (take k (rb_bufs s))"
    using nth_not_in_take [OF d, of k] k ba by (simp flip: take_map set_map)
  then have chosen: "rc_buf c \<noteq> Some b" using c by (auto simp: call_ok_def k_def)
  have use: "use_count s b = 1 + rb_refs s b" using use_count_pooled [OF d k] chosen by (simp add: ba assms(2))
  have fsts: "map fst ((rb_bufs s)[k := (b, x)]) = map fst (rb_bufs s)" for x using k ba by (simp add: map_fst_update)
  have takes: "fst ` set (take n ((rb_bufs s)[k := (b, x)])) = fst ` set (take n (rb_bufs s))" for n x
    using k ba by (simp add: fst_take_update)
  have suc: "set (take (Suc k) (rb_bufs s)) = insert (b, a) (set (take k (rb_bufs s)))"
    using k ba by (simp add: take_Suc_conv_app_nth)
  have upd: "x \<in> set ((rb_bufs s)[k := (b, y)]) \<Longrightarrow> x = (b, y) \<or> x \<in> set (rb_bufs s)" for x y
    using set_update_subset_insert by fastforce
  consider (used) "0 < rb_refs s b" | (selects) "rb_refs s b = 0" "rc_buf c = None" | (ages) b' where "rb_refs s b = 0" "rc_buf c = Some b'"
    by auto
  then show ?thesis
  proof cases
    case used
    then have v: "visit c s = s\<lparr>rb_call := Some (c\<lparr>rc_pos := Suc k\<rparr>)\<rparr>"
      using use by (simp add: visit_def ba k_def [symmetric])
    have "call_ok (visit c s) (c\<lparr>rc_pos := Suc k\<rparr>)"
      using c k used suc by (cases "rc_buf c") (auto simp: v call_ok_def in_use_def k_def)
    then show ?thesis using assms(1) by (simp add: v rebuffer_inv_def)
  next
    case selects
    then have v: "visit c s = s\<lparr>rb_bufs := (rb_bufs s)[k := (b, 1)], rb_call := Some (c\<lparr>rc_buf := Some b, rc_pos := Suc k\<rparr>)\<rparr>"
      using use by (simp add: visit_def ba k_def [symmetric])
    have "call_ok (visit c s) (c\<lparr>rc_buf := Some b, rc_pos := Suc k\<rparr>)"
      using c k selects suc by (auto simp: v call_ok_def in_use_def takes set_update_memI)
    then show ?thesis using assms(1) mem selects upd [of _ 1] by (auto simp: v rebuffer_inv_def fsts dest!: upd)
  next
    case ages
    then have v: "visit c s = s\<lparr>rb_bufs := (rb_bufs s)[k := (b, a - 1)], rb_call := Some (c\<lparr>rc_pos := Suc k\<rparr>)\<rparr>"
      using use by (simp add: visit_def ba k_def [symmetric])
    have "(b', 1) \<in> set ((rb_bufs s)[k := (b, a - 1)])"
      using c ages chosen ba by (intro set_list_update_other k) (auto simp: call_ok_def)
    then have "call_ok (visit c s) (c\<lparr>rc_pos := Suc k\<rparr>)"
      using c k ages suc takes [of "Suc k" "a - 1"] by (auto simp: v call_ok_def in_use_def k_def [symmetric])
    then show ?thesis using assms(1) mem ages by (auto simp: v rebuffer_inv_def fsts dest!: upd)
  qed
qed

lemma collect_frame [simp]:
  "rb_refs (collect s) = rb_refs s" "rb_next (collect s) = rb_next s" "rb_call (collect s) = rb_call s" "rb_peak (collect s) = rb_peak s"
  by (simp_all add: collect_def)

lemma collect_bufs: "rb_bufs (collect s) = rb_bufs s \<or> rb_bufs (collect s) = butlast (rb_bufs s)"
  by (simp add: collect_def)

lemma return_inv:
  assumes "rebuffer_inv s" "rb_call s = Some c" "\<not> rc_pos c < length (rb_bufs s)" "return_buffer c s = (b, t)"
  shows "rebuffer_inv t \<and> rb_refs s b = 0 \<and> rb_refs t = (rb_refs s)(b := 1) \<and> rb_call t = None"
proof -
  have c: "call_ok s c" and d: "distinct (map fst (rb_bufs s))" using assms(1,2) by (auto simp: rebuffer_inv_def)
  show ?thesis
  proof (cases "rc_buf c")
    case None
    then have t: "b = rb_next s" "t = s\<lparr>rb_bufs := rb_bufs s @ [(b, 1)], rb_call := None, rb_refs := (rb_refs s)(b := 1), rb_next := b + 1\<rparr>"
      using assms(4) by (auto simp: return_buffer_def)
    have "length (rb_bufs s) = card (fst ` set (rb_bufs s))" using distinct_card [OF d] by simp
    also have "\<dots> \<le> card (rc_users c)" using c None assms(3) by (intro card_mono) (auto simp: call_ok_def)
    finally have "length (rb_bufs s) < rb_peak s" using c by (simp add: call_ok_def)
    moreover have "b \<notin> fst ` set (rb_bufs s)" "rb_refs s b = 0" using assms(1) t(1) by (auto simp: rebuffer_inv_def)
    ultimately show ?thesis using assms(1) t(1) unfolding t(2) by (auto simp: rebuffer_inv_def)
  next
    case (Some b')
    then have t: "b = b'" "t = (collect s)\<lparr>rb_call := None, rb_refs := (rb_refs s)(b := rb_refs s b + 1)\<rparr>"
      using assms(4) by (auto simp: return_buffer_def)
    have b: "rb_refs s b = 0" "(b, 1) \<in> set (rb_bufs s)" using c Some t(1) by (auto simp: call_ok_def)
    then have young: "x \<in> set (rb_bufs s) \<Longrightarrow> fst x = b \<Longrightarrow> snd x = 1" for x
      using d eq_key_imp_eq_value [of "rb_bufs s" b "snd x" 1] by (cases x) auto
    have sub: "set (rb_bufs (collect s)) \<subseteq> set (rb_bufs s)" "distinct (map fst (rb_bufs (collect s)))"
      "length (rb_bufs (collect s)) \<le> length (rb_bufs s)"
      using collect_bufs [of s] d by (auto simp: map_butlast distinct_butlast dest: in_set_butlastD)
    have "b < rb_next s" using assms(1) b(2) by (auto simp: rebuffer_inv_def)
    then show ?thesis using assms(1) sub b young unfolding t(2) by (fastforce simp: rebuffer_inv_def)
  qed
qed

lemma refs_inv:
  assumes "rebuffer_inv s" "0 < rb_refs s b" "\<forall>x. x \<noteq> b \<longrightarrow> r x = rb_refs s x"
  shows "rebuffer_inv (s\<lparr>rb_refs := r\<rparr>)"
proof -
  have z: "r x = 0" if "rb_refs s x = 0" for x using assms(2,3) that by (cases "x = b") auto
  have "in_use (s\<lparr>rb_refs := r\<rparr>) \<subseteq> in_use s"
  proof
    fix x assume "x \<in> in_use (s\<lparr>rb_refs := r\<rparr>)"
    then show "x \<in> in_use s" using z [of x] by (cases "rb_refs s x") (auto simp: in_use_def)
  qed
  then show ?thesis using assms(1) z by (auto simp: rebuffer_inv_def call_ok_def split: option.splits intro: rev_image_eqI)
qed

lemma rebuffer_step_inv:
  assumes "rebuffer_step s r t" "rebuffer_inv s"
  shows "rebuffer_inv t"
  using assms(1)
proof (cases rule: rebuffer_step.cases)
  case enter
  then show ?thesis using assms(2) in_use_finite [OF assms(2)]
    by (auto simp: enter_getBuffer_def rebuffer_inv_def call_ok_def in_use_def)
next
  case (round c)
  then show ?thesis using visit_inv [OF assms(2)] by simp
next
  case (return_ c b)
  then show ?thesis using return_inv [OF assms(2)] by blast
next
  case clear
  then show ?thesis using assms(2) by (simp add: purge_def rebuffer_inv_def)
next
  case (copy b)
  show ?thesis unfolding copy(2) by (rule refs_inv [OF assms(2) copy(3)]) simp
next
  case (drop_ b)
  show ?thesis unfolding drop_(2) by (rule refs_inv [OF assms(2) drop_(3)]) simp
qed

lemma rebuffer_reach_inv: "rebuffer_reach s \<Longrightarrow> rebuffer_inv s"
proof (induction rule: rebuffer_reach.induct)
  case start
  show ?case by (simp add: ReBuffer_init_def rebuffer_inv_def)
next
  case (step s r t)
  then show ?case using rebuffer_step_inv by blast
qed

section \<open>Properties of the pool\<close>

text \<open>
  C13: A buffer is never handed out while anybody still uses it. However calls, purges, copies and
  releases interleave, the buffer a call returns has at that moment no pointer outside the pool, the
  caller gets the only one, and no other buffer's users change.
\<close>

theorem pool_never_shares:
  assumes "rebuffer_reach s" "rebuffer_step s (Some b) t"
  shows "rb_refs s b = 0 \<and> rb_refs t = (rb_refs s)(b := 1)"
  using assms(2)
proof (cases rule: rebuffer_step.cases)
  case (return_ c)
  then show ?thesis using return_inv [OF rebuffer_reach_inv [OF assms(1)]] by blast
qed

text \<open>
  The pool stays as small as its use allows: it never holds more buffers than were in use at one
  time, counting the one asked for; what it drops is not in use, for a buffer that has aged is not.
\<close>

theorem pool_no_larger_than_use:
  assumes "rebuffer_reach s"
  shows "length (rb_bufs s) \<le> rb_peak s \<and> distinct (map fst (rb_bufs s)) \<and>
    (\<forall>(b, age)\<in>set (rb_bufs s). age < 1 \<longrightarrow> rb_refs s b = 0)"
  using rebuffer_reach_inv [OF assms] by (auto simp: rebuffer_inv_def)

text \<open>Two calls, with the first buffer still in use, and a third after it was released.\<close>

lemma demo_pool:
  "\<exists>s. rebuffer_reach s \<and> rb_bufs s = [(0, 1)] \<and> rb_refs s = (\<lambda>_. 0)(0 := 1) \<and> rb_call s = None \<and> rb_next s = 1 \<and> rb_peak s = 1"
proof -
  have "rebuffer_reach (enter_getBuffer ReBuffer_init)"
    by (rule rebuffer_reach.step [OF rebuffer_reach.start rebuffer_step.enter]) (simp add: ReBuffer_init_def)
  from rebuffer_reach.step [OF this rebuffer_step.return_] show ?thesis
    by (force simp: ReBuffer_init_def enter_getBuffer_def return_buffer_def in_use_def)
qed

lemma demo_pool_released:
  "\<exists>s c. rebuffer_reach s \<and> rb_bufs s = [(0, 1)] \<and> rb_refs s = (\<lambda>_. 0) \<and> rb_call s = Some c \<and> rc_buf c = Some 0 \<and> rc_pos c = 1 \<and> rb_peak s = 1"
proof -
  obtain s where s: "rebuffer_reach s" "rb_bufs s = [(0, 1)]" "rb_refs s = (\<lambda>_. 0)(0 := 1)" "rb_call s = None" "rb_next s = 1" "rb_peak s = 1"
    using demo_pool by blast
  define t where "t = s\<lparr>rb_refs := (rb_refs s)(0 := rb_refs s 0 - 1)\<rparr>"
  have r: "rebuffer_reach t" unfolding t_def by (rule rebuffer_reach.step [OF s(1) rebuffer_step.drop_]) (simp add: s)
  have t: "rb_bufs t = [(0, 1)]" "rb_refs t = (\<lambda>_. 0)" "rb_call t = None" "rb_peak t = 1"
    using s by (simp_all add: t_def fun_eq_iff)
  have u: "rebuffer_reach (enter_getBuffer t)" by (rule rebuffer_reach.step [OF r rebuffer_step.enter [OF t(3)]])
  let ?c = "\<lparr>rc_pos = 0, rc_buf = None, rc_users = {}\<rparr>"
  have e: "rb_call (enter_getBuffer t) = Some ?c" "rb_bufs (enter_getBuffer t) = [(0, 1)]" "rb_refs (enter_getBuffer t) = (\<lambda>_. 0)"
    "rb_peak (enter_getBuffer t) = 1"
    using t by (simp_all add: enter_getBuffer_def in_use_def)
  have v: "visit ?c (enter_getBuffer t) = (enter_getBuffer t)\<lparr>rb_bufs := [(0, 1)], rb_call := Some (?c\<lparr>rc_buf := Some 0, rc_pos := 1\<rparr>)\<rparr>"
    using e by (simp add: visit_def use_count_def)
  from rebuffer_reach.step [OF u rebuffer_step.round [OF e(1)]] e show ?thesis
    by (intro exI [of _ "visit ?c (enter_getBuffer t)"]) (simp add: v)
qed

theorem pool_never_shares_witness:
  "\<exists>s t. rebuffer_step s (Some 0) t \<and> rb_refs s 0 = 0 \<and> rb_refs t 0 = 1 \<and> rb_bufs t = [(0, 1)]"
proof -
  obtain s c where s: "rebuffer_reach s" "rb_bufs s = [(0, 1)]" "rb_call s = Some c" "rc_buf c = Some 0" "rc_pos c = 1"
    using demo_pool_released by blast
  obtain t where t: "return_buffer c s = (0, t)" "rb_bufs t = [(0, 1)]"
    using s by (simp add: return_buffer_def collect_def REBUFFER_GC_LIMIT_def)
  have st: "rebuffer_step s (Some 0) t" by (rule rebuffer_step.return_ [OF s(3) _ t(1)]) (simp add: s)
  from pool_never_shares [OF s(1) st] st t(2) show ?thesis by (intro exI [of _ s] exI [of _ t]) simp
qed

theorem pool_no_larger_than_use_witness:
  "\<exists>s::rebuffer. rb_peak s = 1 \<and> length (rb_bufs s) = 1 \<and> length (rb_bufs s) \<le> rb_peak s"
proof -
  obtain s where s: "rebuffer_reach s" "rb_bufs s = [(0, 1)]" "rb_peak s = 1" using demo_pool by blast
  from pool_no_larger_than_use [OF s(1)] s show ?thesis by (intro exI [of _ s]) simp
qed

section \<open>The life of an IOThread\<close>

text \<open>
  \<open>threadMain\<close> store by store, around the subclass's \<open>run\<close>; \<open>It_Threw\<close> is an exception of \<open>run\<close>
  that went out of \<open>threadMain\<close> again. \<open>it_asked\<close> is whether \<open>terminate\<close> was called since the object
  was made or last entered \<open>threadMain\<close>, for the statements only.
\<close>

datatype thread_point =
    It_Not_Started | It_Entered | It_Runs | It_Run_Ended bool | It_Flagged bool | It_Over | It_Threw

record iothread =
  it_point :: thread_point
  it_terminated :: bool
  it_stopping :: bool
  it_inputs :: "string \<Rightarrow> nat option option"
  it_outputs :: "string \<Rightarrow> nat option option"
  it_asked :: bool

definition IOThread_init :: iothread where
  "IOThread_init = \<lparr>it_point = It_Not_Started, it_terminated = False, it_stopping = False,
     it_inputs = Map.empty, it_outputs = Map.empty, it_asked = False\<rparr>"

text \<open>Reading a queue that was never bound binds a null one.\<close>

definition setInputQueue :: "string \<Rightarrow> nat option \<Rightarrow> iothread \<Rightarrow> iothread" where
  "setInputQueue qname q t = t\<lparr>it_inputs := (it_inputs t)(qname \<mapsto> q)\<rparr>"

definition getInputQueue :: "string \<Rightarrow> iothread \<Rightarrow> nat option \<times> iothread" where
  "getInputQueue qname t =
     (case it_inputs t qname of Some q \<Rightarrow> (q, t) | None \<Rightarrow> (None, t\<lparr>it_inputs := (it_inputs t)(qname \<mapsto> None)\<rparr>))"

definition setOutputQueue :: "string \<Rightarrow> nat option \<Rightarrow> iothread \<Rightarrow> iothread" where
  "setOutputQueue qname q t = t\<lparr>it_outputs := (it_outputs t)(qname \<mapsto> q)\<rparr>"

definition getOutputQueue :: "string \<Rightarrow> iothread \<Rightarrow> nat option \<times> iothread" where
  "getOutputQueue qname t =
     (case it_outputs t qname of Some q \<Rightarrow> (q, t) | None \<Rightarrow> (None, t\<lparr>it_outputs := (it_outputs t)(qname \<mapsto> None)\<rparr>))"

definition iothread_terminate :: "iothread \<Rightarrow> iothread" where
  "iothread_terminate t = t\<lparr>it_stopping := True, it_asked := True\<rparr>"

text \<open>The object is used for one thread after the other: it may be entered again once it is over.\<close>

inductive iothread_step :: "iothread \<Rightarrow> iothread \<Rightarrow> bool" where
  enter: "it_point t = It_Not_Started \<or> it_point t = It_Over \<Longrightarrow>
    iothread_step t (t\<lparr>it_point := It_Entered, it_terminated := False\<rparr>)"
| reset: "it_point t = It_Entered \<Longrightarrow> iothread_step t (t\<lparr>it_point := It_Runs, it_stopping := False, it_asked := False\<rparr>)"
| run_ends: "it_point t = It_Runs \<Longrightarrow> iothread_step t (t\<lparr>it_point := It_Run_Ended throws\<rparr>)"
| flag: "it_point t = It_Run_Ended throws \<Longrightarrow> iothread_step t (t\<lparr>it_point := It_Flagged throws, it_terminated := True\<rparr>)"
| leave: "it_point t = It_Flagged throws \<Longrightarrow>
    iothread_step t (t\<lparr>it_point := (if throws then It_Threw else It_Over), it_stopping := True\<rparr>)"
| ask: "iothread_step t (iothread_terminate t)"
| bind_input: "iothread_step t (setInputQueue qname q t)"
| bind_output: "iothread_step t (setOutputQueue qname q t)"
| read_input: "iothread_step t (snd (getInputQueue qname t))"
| read_output: "iothread_step t (snd (getOutputQueue qname t))"

inductive iothread_reach :: "iothread \<Rightarrow> bool" where
  start: "iothread_reach IOThread_init"
| step: "iothread_reach s \<Longrightarrow> iothread_step s t \<Longrightarrow> iothread_reach t"

definition SPIN_WAIT_SLEEP_MS :: int where "SPIN_WAIT_SLEEP_MS = 5"
definition INT_MAX :: int where "INT_MAX = 2147483647"

text \<open>
  \<open>isTerminated\<close>, where \<open>reads k\<close> is what the \<open>k\<close>-th read of the flag gives; the result and how
  often it slept. The last argument of the loop is the number of rounds left.
\<close>

fun spin :: "(nat \<Rightarrow> bool) \<Rightarrow> nat \<Rightarrow> nat \<Rightarrow> bool \<times> nat" where
  "spin reads k 0 = (reads (Suc k), k)"
| "spin reads k (Suc n) = (if reads (Suc k) then (True, Suc k) else spin reads (Suc k) n)"

definition isTerminated :: "int \<Rightarrow> (nat \<Rightarrow> bool) \<Rightarrow> bool \<times> nat" where
  "isTerminated waitMs reads =
     (if reads 0 then (True, 0)
      else if waitMs = 0 then (False, 0)
      else spin reads 0 (nat (if waitMs < 0 then INT_MAX else waitMs div SPIN_WAIT_SLEEP_MS + 1)))"

section \<open>Properties of the threads\<close>

lemma queue_frame [simp]:
  "it_point (setInputQueue n q t) = it_point t" "it_terminated (setInputQueue n q t) = it_terminated t"
  "it_stopping (setInputQueue n q t) = it_stopping t" "it_asked (setInputQueue n q t) = it_asked t"
  "it_point (setOutputQueue n q t) = it_point t" "it_terminated (setOutputQueue n q t) = it_terminated t"
  "it_stopping (setOutputQueue n q t) = it_stopping t" "it_asked (setOutputQueue n q t) = it_asked t"
  "it_point (snd (getInputQueue n t)) = it_point t" "it_terminated (snd (getInputQueue n t)) = it_terminated t"
  "it_stopping (snd (getInputQueue n t)) = it_stopping t" "it_asked (snd (getInputQueue n t)) = it_asked t"
  "it_point (snd (getOutputQueue n t)) = it_point t" "it_terminated (snd (getOutputQueue n t)) = it_terminated t"
  "it_stopping (snd (getOutputQueue n t)) = it_stopping t" "it_asked (snd (getOutputQueue n t)) = it_asked t"
  by (simp_all add: setInputQueue_def setOutputQueue_def getInputQueue_def getOutputQueue_def split: option.splits)

definition iothread_inv :: "iothread \<Rightarrow> bool" where
  "iothread_inv t \<longleftrightarrow>
     (it_terminated t \<longleftrightarrow> it_point t \<in> {It_Flagged True, It_Flagged False, It_Over, It_Threw}) \<and>
     (it_point t \<in> {It_Not_Started, It_Runs, It_Run_Ended True, It_Run_Ended False, It_Flagged True, It_Flagged False} \<longrightarrow>
        it_stopping t = it_asked t) \<and>
     (it_point t \<in> {It_Over, It_Threw} \<longrightarrow> it_stopping t)"

lemma iothread_step_inv: "iothread_step s t \<Longrightarrow> iothread_inv s \<Longrightarrow> iothread_inv t"
  by (erule iothread_step.cases) (auto simp: iothread_inv_def iothread_terminate_def split: if_splits)

lemma iothread_reach_inv: "iothread_reach t \<Longrightarrow> iothread_inv t"
proof (induction rule: iothread_reach.induct)
  case start
  show ?case by (simp add: IOThread_init_def iothread_inv_def)
next
  case (step s t)
  then show ?case using iothread_step_inv by blast
qed

text \<open>
  What the two flags tell. A thread is marked as terminated exactly when its \<open>run\<close> has returned and
  it has not been entered again; and while \<open>run\<close> executes, it is told to stop exactly if \<open>terminate\<close>
  was called since \<open>threadMain\<close> cleared the flag. So a call that came earlier, before the new thread
  got that far, is lost: it sets the flag, and \<open>run\<close> starts with the flag clear all the same.
\<close>

theorem early_terminate_is_lost:
  assumes "iothread_reach t"
  shows "(it_terminated t \<longleftrightarrow> it_point t \<in> {It_Flagged True, It_Flagged False, It_Over, It_Threw}) \<and>
    (it_point t = It_Runs \<longrightarrow> it_stopping t = it_asked t) \<and>
    (it_point t = It_Entered \<longrightarrow> it_stopping (iothread_terminate t) \<and>
       (\<exists>u. iothread_step (iothread_terminate t) u \<and> it_point u = It_Runs \<and> \<not> it_stopping u \<and> \<not> it_terminated u))"
proof -
  have i: "iothread_inv t" by (rule iothread_reach_inv [OF assms])
  have "\<exists>u. iothread_step (iothread_terminate t) u \<and> it_point u = It_Runs \<and> \<not> it_stopping u \<and> \<not> it_terminated u"
    if "it_point t = It_Entered"
    using iothread_step.reset [of "iothread_terminate t"] that i
    by (intro exI [of _ "(iothread_terminate t)\<lparr>it_point := It_Runs, it_stopping := False, it_asked := False\<rparr>"])
      (simp add: iothread_terminate_def iothread_inv_def)
  then show ?thesis using i by (simp add: iothread_inv_def iothread_terminate_def)
qed

theorem early_terminate_is_lost_witness:
  "\<exists>t u. iothread_reach t \<and> it_point t = It_Entered \<and> iothread_step (iothread_terminate t) u \<and> it_point u = It_Runs \<and> \<not> it_stopping u"
proof -
  have "iothread_reach (IOThread_init\<lparr>it_point := It_Entered, it_terminated := False\<rparr>)"
    by (rule iothread_reach.step [OF iothread_reach.start iothread_step.enter]) (simp add: IOThread_init_def)
  with early_terminate_is_lost [OF this] show ?thesis by auto
qed

lemma spin_result:
  "spin reads k n = (r, m) \<Longrightarrow> k \<le> m \<and> m \<le> k + n \<and>
     (r \<longrightarrow> (\<exists>j>k. j \<le> Suc (k + n) \<and> reads j)) \<and> (\<not> r \<longrightarrow> m = k + n \<and> (\<forall>j>k. j \<le> Suc (k + n) \<longrightarrow> \<not> reads j))"
proof (induction n arbitrary: k)
  case 0
  then show ?case by (auto simp: le_Suc_eq)
next
  case (Suc n)
  show ?case
  proof (cases "reads (Suc k)")
    case True
    then show ?thesis using Suc.prems by auto
  next
    case False
    then have "spin reads (Suc k) n = (r, m)" using Suc.prems by simp
    note ih = Suc.IH [OF this]
    have no: "\<not> r \<Longrightarrow> \<forall>j>Suc k. j \<le> Suc (Suc k + n) \<longrightarrow> \<not> reads j" and m: "Suc k \<le> m" "m \<le> Suc k + n" "\<not> r \<longrightarrow> m = Suc k + n"
      and yes: "r \<Longrightarrow> \<exists>j>Suc k. j \<le> Suc (Suc k + n) \<and> reads j"
      using ih by simp_all
    have "\<not> reads j" if "\<not> r" "k < j" "j \<le> Suc (k + Suc n)" for j
      using no [OF that(1)] that(2,3) False by (cases "j = Suc k") simp_all
    moreover have "\<exists>j>k. j \<le> Suc (k + Suc n) \<and> reads j" if rt: r
    proof -
      obtain j where "Suc k < j" "j \<le> Suc (Suc k + n)" "reads j" using yes [OF rt] by blast
      then show ?thesis by (intro exI [of _ j]) simp
    qed
    moreover have "k \<le> m \<and> m \<le> k + Suc n" "\<not> r \<longrightarrow> m = k + Suc n" using m by simp_all
    ultimately show ?thesis by blast
  qed
qed

text \<open>
  \<open>isTerminated\<close> always returns, whether the thread ends or not, and is right about the reads it
  made: with a positive time it sleeps at most that long and five milliseconds more, and with a
  negative one, said to wait until the thread dies, no more than \<open>INT_MAX\<close> times.
\<close>

theorem isTerminated_bounded:
  "(let (r, sleeps) = isTerminated waitMs reads; rounds = (if waitMs < 0 then INT_MAX else if waitMs = 0 then 0 else waitMs div 5 + 1)
    in int sleeps \<le> rounds \<and> (0 \<le> waitMs \<longrightarrow> 5 * int sleeps \<le> waitMs + 5) \<and>
       (r \<longrightarrow> (\<exists>j. int j \<le> rounds + 1 \<and> reads j)) \<and>
       (\<not> r \<longrightarrow> int sleeps = rounds \<and> (\<forall>j. int j \<le> rounds \<longrightarrow> \<not> reads j)))"
proof -
  define n where "n = nat (if waitMs < 0 then INT_MAX else waitMs div 5 + 1)"
  have n: "waitMs \<noteq> 0 \<Longrightarrow> int n = (if waitMs < 0 then INT_MAX else waitMs div 5 + 1)" "waitMs \<ge> 0 \<Longrightarrow> 5 * int n \<le> waitMs + 5"
    by (auto simp: n_def INT_MAX_def)
  obtain r m where rm: "spin reads 0 n = (r, m)" by (cases "spin reads 0 n")
  note s = spin_result [OF rm, simplified]
  show ?thesis
  proof (cases "reads 0 \<or> waitMs = 0")
    case True
    then show ?thesis by (auto simp: isTerminated_def Let_def INT_MAX_def intro: exI [of _ 0])
  next
    case False
    have "\<forall>j. int j \<le> int n \<longrightarrow> \<not> reads j" if "\<not> r"
    proof (intro allI impI)
      fix j assume "int j \<le> int n"
      then show "\<not> reads j" using s that False by (cases j) auto
    qed
    moreover have "\<exists>j. int j \<le> int n + 1 \<and> reads j" if rt: r
    proof -
      obtain j where "j \<le> Suc n" "reads j" using s \<open>r\<close> by blast
      then show ?thesis by (intro exI [of _ j]) simp
    qed
    moreover have "isTerminated waitMs reads = (r, m)" using False rm by (auto simp: isTerminated_def n_def SPIN_WAIT_SLEEP_MS_def)
    ultimately show ?thesis using s n False by (auto simp: Let_def)
  qed
qed

end
