(* ===== verification/Retune.thy ===== *)
theory Retune
  imports Prelude
begin

text \<open>
  The hand-over of a frequency to the tuner's thread: \<open>SDRThread::setFrequency\<close>, which stores the
  frequency, raises a flag and waits on a condition variable, and the part of \<open>updateSettings\<close> that
  takes it (src/src/cubic/sdr/SoapySDRThread.cpp), with every access to a shared variable a step of
  its own. One thread at a time calls \<open>setFrequency\<close>. Sdr_Stream models the same functions as
  they behave when they do not interleave.
\<close>

section \<open>State\<close>

text \<open>
  Where the caller is: before the flag is raised, before it looks at \<open>stopping\<close>, before it takes the
  mutex, with the mutex before it looks at \<open>_msgAvailable\<close>, or asleep on the condition variable.
\<close>

datatype caller_point = C_Idle | C_Stored | C_Flagged | C_Wants_Lock | C_Holds_Lock | C_Sleeps

text \<open>
  Where the tuner's thread is in \<open>if (freq_changed.load())\<close>: inside it, with the frequency it read,
  with the device tuned to it, with the flag cleared, with the mutex taken, before the notify.
\<close>

datatype tuner_point = T_Idle | T_Entered | T_Loaded int | T_Tuned int | T_Cleared | T_Holds_Lock | T_Notifies

text \<open>
  \<open>re_device\<close> is what the device is tuned to, the offset left out. For the statements only:
  \<open>re_raced\<close> is whether a frequency was ever stored while the tuner's thread had read an older one and
  not yet cleared the flag, \<open>re_missed\<close> whether it ever failed to take the mutex.
\<close>

record retune =
  re_frequency :: int
  re_changed :: bool
  re_msgAvailable :: bool
  re_stopping :: bool
  re_device :: int
  re_caller :: caller_point
  re_tuner :: tuner_point
  re_raced :: bool
  re_missed :: bool

definition Retune_init :: "int \<Rightarrow> retune" where
  "Retune_init f = \<lparr>re_frequency = f, re_changed = False, re_msgAvailable = False, re_stopping = False, re_device = f,
     re_caller = C_Idle, re_tuner = T_Idle, re_raced = False, re_missed = False\<rparr>"

definition mutex_free :: "retune \<Rightarrow> bool" where
  "mutex_free s \<longleftrightarrow> re_caller s \<noteq> C_Holds_Lock \<and> re_tuner s \<noteq> T_Holds_Lock"

fun has_read :: "tuner_point \<Rightarrow> bool" where
  "has_read (T_Loaded _) = True"
| "has_read (T_Tuned _) = True"
| "has_read _ = False"

section \<open>Steps\<close>

text \<open>The statements of \<open>setFrequency\<close>, each with the point it leads to.\<close>

definition store_frequency :: "int \<Rightarrow> int \<Rightarrow> retune \<Rightarrow> retune" where
  "store_frequency rate freq s = s\<lparr>re_frequency := (if freq < cdiv rate 2 then cdiv rate 2 else freq), re_caller := C_Stored,
     re_raced := re_raced s \<or> has_read (re_tuner s)\<rparr>"

definition raise_flag :: "retune \<Rightarrow> retune" where
  "raise_flag s = s\<lparr>re_changed := True, re_caller := C_Flagged\<rparr>"

definition look_at_stopping :: "retune \<Rightarrow> retune" where
  "look_at_stopping s = s\<lparr>re_caller := (if re_stopping s then C_Idle else C_Wants_Lock)\<rparr>"

definition wait_round :: "retune \<Rightarrow> retune" where
  "wait_round s = s\<lparr>re_caller := (if re_msgAvailable s then C_Idle else C_Sleeps)\<rparr>"

text \<open>
  A sleeping caller wakes after a notify, or for no reason at all. The device, and the parts of
  \<open>updateSettings\<close> before and after this one, do not touch these variables, except that a new offset
  raises the flag too. \<open>try_lock\<close> fails at least when the caller holds the mutex, and may fail otherwise.
\<close>

inductive retune_step :: "int \<Rightarrow> retune \<Rightarrow> retune \<Rightarrow> bool" for rate where
  call: "re_caller s = C_Idle \<Longrightarrow> retune_step rate s (store_frequency rate freq s)"
| flag: "re_caller s = C_Stored \<Longrightarrow> retune_step rate s (raise_flag s)"
| look: "re_caller s = C_Flagged \<Longrightarrow> retune_step rate s (look_at_stopping s)"
| lock: "re_caller s = C_Wants_Lock \<or> re_caller s = C_Sleeps \<Longrightarrow> mutex_free s \<Longrightarrow> retune_step rate s (s\<lparr>re_caller := C_Holds_Lock\<rparr>)"
| test: "re_caller s = C_Holds_Lock \<Longrightarrow> retune_step rate s (wait_round s)"
| offset: "re_tuner s = T_Idle \<Longrightarrow> \<not> re_stopping s \<Longrightarrow> retune_step rate s (s\<lparr>re_changed := True\<rparr>)"
| enter: "re_tuner s = T_Idle \<Longrightarrow> \<not> re_stopping s \<Longrightarrow> re_changed s \<Longrightarrow> retune_step rate s (s\<lparr>re_tuner := T_Entered\<rparr>)"
| load: "re_tuner s = T_Entered \<Longrightarrow> retune_step rate s (s\<lparr>re_tuner := T_Loaded (re_frequency s)\<rparr>)"
| tune: "re_tuner s = T_Loaded f \<Longrightarrow> retune_step rate s (s\<lparr>re_device := f, re_tuner := T_Tuned f\<rparr>)"
| clear: "re_tuner s = T_Tuned f \<Longrightarrow> retune_step rate s (s\<lparr>re_changed := False, re_tuner := T_Cleared\<rparr>)"
| try_lock: "re_tuner s = T_Cleared \<Longrightarrow> mutex_free s \<Longrightarrow> retune_step rate s (s\<lparr>re_tuner := T_Holds_Lock\<rparr>)"
| try_lock_fails: "re_tuner s = T_Cleared \<Longrightarrow> retune_step rate s (s\<lparr>re_tuner := T_Notifies, re_missed := True\<rparr>)"
| available: "re_tuner s = T_Holds_Lock \<Longrightarrow> retune_step rate s (s\<lparr>re_msgAvailable := True, re_tuner := T_Notifies\<rparr>)"
| notify: "re_tuner s = T_Notifies \<Longrightarrow> retune_step rate s (s\<lparr>re_tuner := T_Idle\<rparr>)"
| stop: "retune_step rate s (s\<lparr>re_stopping := True\<rparr>)"

inductive retune_path :: "int \<Rightarrow> retune \<Rightarrow> retune \<Rightarrow> bool" for rate s where
  here: "retune_path rate s s"
| more: "retune_path rate s t \<Longrightarrow> retune_step rate t u \<Longrightarrow> retune_path rate s u"

lemma path_invariant:
  assumes "retune_path rate s t" "P s" "\<And>t u. P t \<Longrightarrow> retune_step rate t u \<Longrightarrow> P u"
  shows "P t"
  using assms(1)
proof (induction rule: retune_path.induct)
  case here
  show ?case by (rule assms(2))
next
  case (more t u)
  from assms(3) [OF more.IH more.hyps(2)] show ?case .
qed

section \<open>What holds\<close>

text \<open>
  Unless a frequency was stored in the window of the race, what was asked for is on the device, or
  on its way: the flag is raised or about to be, or the tuner's thread has it in hand.
\<close>

definition on_its_way :: "retune \<Rightarrow> bool" where
  "on_its_way s \<longleftrightarrow> re_device s = re_frequency s \<or> re_changed s \<or> re_caller s = C_Stored"

definition tuning_inv :: "retune \<Rightarrow> bool" where
  "tuning_inv s \<longleftrightarrow> (\<not> re_raced s \<longrightarrow> on_its_way s \<and>
     (case re_tuner s of T_Loaded f \<Rightarrow> f = re_frequency s | T_Tuned f \<Rightarrow> f = re_frequency s \<and> re_device s = f | _ \<Rightarrow> True))"

lemma tuning_step: "tuning_inv s \<Longrightarrow> retune_step rate s t \<Longrightarrow> tuning_inv t"
  by (erule retune_step.cases) (auto simp: tuning_inv_def on_its_way_def store_frequency_def raise_flag_def look_at_stopping_def
      wait_round_def split: tuner_point.splits)

text \<open>
  Unless \<open>try_lock\<close> ever failed, a caller that has to wait can be answered: as long as the answer is
  out, the flag is raised or the tuner's thread is on its way to giving it.
\<close>

definition answer_due :: "retune \<Rightarrow> bool" where
  "answer_due s \<longleftrightarrow> re_msgAvailable s \<or> re_changed s \<or> re_tuner s \<in> {T_Cleared, T_Holds_Lock}"

definition waiting :: "retune \<Rightarrow> bool" where
  "waiting s \<longleftrightarrow> re_caller s \<in> {C_Flagged, C_Wants_Lock, C_Holds_Lock, C_Sleeps}"

definition answer_inv :: "retune \<Rightarrow> bool" where
  "answer_inv s \<longleftrightarrow> (\<not> re_missed s \<longrightarrow> (waiting s \<longrightarrow> answer_due s) \<and> (re_tuner s = T_Notifies \<longrightarrow> re_msgAvailable s))"

lemma answer_step: "answer_inv s \<Longrightarrow> retune_step rate s t \<Longrightarrow> answer_inv t"
  by (erule retune_step.cases) (auto simp: answer_inv_def answer_due_def waiting_def store_frequency_def raise_flag_def
      look_at_stopping_def wait_round_def split: if_splits)

section \<open>Rounds of the tuner's thread, and calls\<close>

lemma path_trans: "retune_path rate t u \<Longrightarrow> retune_path rate s t \<Longrightarrow> retune_path rate s u"
  by (induction rule: retune_path.induct) (auto intro: retune_path.more)

lemma path_step: "retune_step rate s t \<Longrightarrow> retune_path rate t u \<Longrightarrow> retune_path rate s u"
  by (rule path_trans [OF _ retune_path.more [OF retune_path.here]])

text \<open>From each point, the tuner's thread can finish its round, if the caller does not hold the mutex.\<close>

lemma round_notifies: "re_tuner s = T_Notifies \<Longrightarrow> retune_path rate s (s\<lparr>re_tuner := T_Idle\<rparr>)"
  by (rule retune_path.more [OF retune_path.here retune_step.notify])

lemma round_locked: "re_tuner s = T_Holds_Lock \<Longrightarrow> retune_path rate s (s\<lparr>re_msgAvailable := True, re_tuner := T_Idle\<rparr>)"
  using path_step [OF retune_step.available round_notifies] by simp

lemma round_cleared:
  "re_tuner s = T_Cleared \<Longrightarrow> re_caller s \<noteq> C_Holds_Lock \<Longrightarrow> retune_path rate s (s\<lparr>re_msgAvailable := True, re_tuner := T_Idle\<rparr>)"
  using path_step [OF retune_step.try_lock round_locked, of s] by (simp add: mutex_free_def)

lemma round_tuned:
  "re_tuner s = T_Tuned f \<Longrightarrow> re_caller s \<noteq> C_Holds_Lock \<Longrightarrow>
   retune_path rate s (s\<lparr>re_changed := False, re_msgAvailable := True, re_tuner := T_Idle\<rparr>)"
  using path_step [OF retune_step.clear round_cleared, of s] by simp

lemma round_loaded:
  "re_tuner s = T_Loaded f \<Longrightarrow> re_caller s \<noteq> C_Holds_Lock \<Longrightarrow>
   retune_path rate s (s\<lparr>re_device := f, re_changed := False, re_msgAvailable := True, re_tuner := T_Idle\<rparr>)"
  using path_step [OF retune_step.tune round_tuned, of s] by simp

lemma round_entered:
  "re_tuner s = T_Entered \<Longrightarrow> re_caller s \<noteq> C_Holds_Lock \<Longrightarrow>
   retune_path rate s (s\<lparr>re_device := re_frequency s, re_changed := False, re_msgAvailable := True, re_tuner := T_Idle\<rparr>)"
  using path_step [OF retune_step.load round_loaded, of s] by simp

lemma round_idle:
  "re_tuner s = T_Idle \<Longrightarrow> re_changed s \<Longrightarrow> \<not> re_stopping s \<Longrightarrow> re_caller s \<noteq> C_Holds_Lock \<Longrightarrow>
   retune_path rate s (s\<lparr>re_device := re_frequency s, re_changed := False, re_msgAvailable := True, re_tuner := T_Idle\<rparr>)"
  using path_step [OF retune_step.enter round_entered, of s] by simp

text \<open>So an answer that is due is given.\<close>

lemma round_ends:
  assumes "\<not> re_stopping s" "re_caller s \<noteq> C_Holds_Lock" "answer_due s" "re_tuner s = T_Notifies \<Longrightarrow> re_msgAvailable s"
  shows "\<exists>t. retune_path rate s t \<and> re_tuner t = T_Idle \<and> re_msgAvailable t \<and> re_caller t = re_caller s"
proof (cases "re_tuner s")
  case T_Idle
  then show ?thesis
    using assms round_idle [OF T_Idle _ assms(1,2)] retune_path.here [of rate s] by (cases "re_msgAvailable s") (fastforce simp: answer_due_def)+
next
  case T_Entered
  show ?thesis using round_entered [OF T_Entered assms(2)] by fastforce
next
  case (T_Loaded x)
  show ?thesis using round_loaded [OF T_Loaded assms(2)] by fastforce
next
  case (T_Tuned x)
  show ?thesis using round_tuned [OF T_Tuned assms(2)] by fastforce
next
  case T_Cleared
  show ?thesis using round_cleared [OF T_Cleared assms(2)] by fastforce
next
  case T_Holds_Lock
  show ?thesis using round_locked [OF T_Holds_Lock] by fastforce
next
  case T_Notifies
  show ?thesis using round_notifies [OF T_Notifies] assms(4) [OF T_Notifies] by fastforce
qed

lemma wants_lock_returns:
  "re_caller s = C_Wants_Lock \<or> re_caller s = C_Sleeps \<Longrightarrow> re_msgAvailable s \<Longrightarrow> re_tuner s \<noteq> T_Holds_Lock \<Longrightarrow>
   retune_path rate s (s\<lparr>re_caller := C_Idle\<rparr>)"
  using path_step [OF retune_step.lock retune_path.more [OF retune_path.here retune_step.test], of s]
  by (auto simp: mutex_free_def wait_round_def)

lemma flagged_returns:
  "re_caller s = C_Flagged \<Longrightarrow> re_msgAvailable s \<Longrightarrow> re_tuner s \<noteq> T_Holds_Lock \<Longrightarrow> retune_path rate s (s\<lparr>re_caller := C_Idle\<rparr>)"
  using path_step [OF retune_step.look wants_lock_returns, of s] retune_path.more [OF retune_path.here retune_step.look, of s]
  by (cases "re_stopping s") (simp_all add: look_at_stopping_def)

lemma call_returns:
  assumes "re_caller s = C_Idle" "re_msgAvailable s" "re_tuner s \<noteq> T_Holds_Lock"
  shows "retune_path rate s ((store_frequency rate f s)\<lparr>re_changed := True, re_caller := C_Idle\<rparr>)"
  using path_step [OF retune_step.call path_step [OF retune_step.flag flagged_returns], of s rate f] assms
  by (simp add: store_frequency_def raise_flag_def)

section \<open>Properties\<close>


text \<open>
  By the race it is. Once an update has been answered, \<open>setFrequency\<close> no longer waits; of two calls
  shortly after one another, the second may store its frequency while the tuner's thread is busy with
  the first, which then clears the flag for both. Everything comes to rest with the device on the first
  frequency, and it stays there until somebody sets a frequency or an offset again.
\<close>

theorem retune_can_be_lost:
  fixes rate :: int
  defines "low \<equiv> cdiv rate 2"
  shows "\<exists>s. retune_path rate (Retune_init low) s \<and> re_caller s = C_Idle \<and> re_tuner s = T_Idle \<and> \<not> re_changed s \<and>
    \<not> re_stopping s \<and> re_frequency s = low + 2 \<and> re_device s = low + 1 \<and>
    (\<forall>t. retune_step rate s t \<longrightarrow> re_device t = low + 1 \<and> (re_caller t = C_Stored \<or> re_changed t \<or> re_stopping t))"
proof -
  let ?i = "Retune_init low"
  let ?s0 = "?i\<lparr>re_msgAvailable := True\<rparr>"
  have "retune_path rate ?i ?s0"
    using path_step [OF retune_step.offset round_idle, of ?i rate] by (simp add: Retune_init_def)
  moreover have "retune_path rate ?s0 (?s0\<lparr>re_frequency := low + 1, re_changed := True\<rparr>)" (is "retune_path rate _ ?s1")
    using call_returns [of ?s0 rate "low + 1"] by (simp add: Retune_init_def store_frequency_def low_def)
  moreover have "retune_path rate ?s1 (?s1\<lparr>re_tuner := T_Loaded (low + 1)\<rparr>)" (is "retune_path rate _ ?s2")
    using path_step [OF retune_step.enter retune_path.more [OF retune_path.here retune_step.load], of ?s1 rate] by (simp add: Retune_init_def)
  moreover have "retune_path rate ?s2 (?s2\<lparr>re_frequency := low + 2, re_raced := True\<rparr>)" (is "retune_path rate _ ?s3")
    using call_returns [of ?s2 rate "low + 2"] by (simp add: Retune_init_def store_frequency_def low_def)
  moreover have "retune_path rate ?s3 (?s3\<lparr>re_device := low + 1, re_changed := False, re_tuner := T_Idle\<rparr>)" (is "retune_path rate _ ?s4")
    using round_loaded [of ?s3 "low + 1" rate] by (simp add: Retune_init_def)
  ultimately have "retune_path rate ?i ?s4" by (blast intro: path_trans)
  moreover have "re_device t = low + 1 \<and> (re_caller t = C_Stored \<or> re_changed t \<or> re_stopping t)" if "retune_step rate ?s4 t" for t
    using that by (cases rule: retune_step.cases) (auto simp: Retune_init_def store_frequency_def)
  ultimately show ?thesis by (intro exI [of _ ?s4]) (simp add: Retune_init_def)
qed

text \<open>
  The answer is never taken back: once one update was answered, every later call returns without
  waiting, for as long as the program runs; what it returns to was tuned for an earlier one.
\<close>

theorem answer_never_taken_back:
  assumes "retune_path rate s t" "re_msgAvailable s"
  shows "re_msgAvailable t \<and> (re_caller t = C_Holds_Lock \<longrightarrow> re_caller (wait_round t) = C_Idle) \<and>
    (re_caller t = C_Idle \<and> re_tuner t \<noteq> T_Holds_Lock \<longrightarrow>
       (\<exists>u. retune_path rate t u \<and> re_caller u = C_Idle \<and> re_changed u \<and> re_frequency u = max (cdiv rate 2) f \<and>
          re_device u = re_device t \<and> re_tuner u = re_tuner t))"
proof -
  have m: "re_msgAvailable t"
    by (rule path_invariant [OF assms(1), where P = re_msgAvailable, OF assms(2)]) (auto elim!: retune_step.cases simp: store_frequency_def raise_flag_def look_at_stopping_def wait_round_def)
  moreover have "\<exists>u. retune_path rate t u \<and> re_caller u = C_Idle \<and> re_changed u \<and> re_frequency u = max (cdiv rate 2) f \<and>
      re_device u = re_device t \<and> re_tuner u = re_tuner t" if "re_caller t = C_Idle" "re_tuner t \<noteq> T_Holds_Lock"
    using call_returns [OF that(1) m that(2), of rate f]
    by (intro exI [of _ "(store_frequency rate f t)\<lparr>re_changed := True, re_caller := C_Idle\<rparr>"]) (simp add: store_frequency_def)
  ultimately show ?thesis by (simp add: wait_round_def)
qed

text \<open>
  C40: A call can always be answered, as long as the tuner's thread never failed to take the mutex and is not
  told to stop: from every point where a caller waits, there is a run in which it returns.
\<close>

theorem retune_can_return:
  assumes "retune_path rate (Retune_init f) s" "\<not> re_missed s" "\<not> re_stopping s" "waiting s"
  shows "\<exists>t. retune_path rate s t \<and> re_caller t = C_Idle"
proof -
  have "answer_inv (Retune_init f)" by (simp add: answer_inv_def waiting_def Retune_init_def)
  then have i: "answer_inv s" by (rule path_invariant [OF assms(1)]) (rule answer_step)
  obtain s1 where s1: "retune_path rate s s1" "re_caller s1 \<noteq> C_Holds_Lock" "re_tuner s1 = re_tuner s" "\<not> re_stopping s1"
    "re_changed s1 = re_changed s" "re_msgAvailable s1 = re_msgAvailable s" "re_caller s1 = C_Idle \<or> waiting s1"
  proof (cases "re_caller s = C_Holds_Lock")
    case True
    show ?thesis by (rule that [of "wait_round s"])
      (use retune_path.more [OF retune_path.here retune_step.test [OF True]] assms in \<open>auto simp: wait_round_def waiting_def\<close>)
  qed (use that [of s] assms retune_path.here in auto)
  have d: "answer_due s1" "re_tuner s1 = T_Notifies \<Longrightarrow> re_msgAvailable s1"
    using i assms s1 by (auto simp: answer_inv_def answer_due_def)
  obtain s2 where s2: "retune_path rate s1 s2" "re_tuner s2 = T_Idle" "re_msgAvailable s2" "re_caller s2 = re_caller s1"
    using round_ends [OF s1(4,2) d] by blast
  have "\<exists>t. retune_path rate s2 t \<and> re_caller t = C_Idle"
  proof (cases "re_caller s2")
    case C_Idle
    then show ?thesis using retune_path.here by blast
  next
    case C_Flagged
    then show ?thesis using flagged_returns [of s2] s2 by fastforce
  qed (use s1 s2 wants_lock_returns [of s2 rate] in \<open>fastforce simp: waiting_def\<close>)+
  then show ?thesis using path_trans s1(1) s2(1) by metis
qed

text \<open>
  And a call can wait for ever. If \<open>try_lock\<close> fails because the caller holds the mutex on its way to
  sleep, the answer and the notify are lost: the caller sleeps, the flag is clear, and nothing but a
  new offset from another thread ever changes that. Stopping the thread does not wake it either.
\<close>

definition deaf :: "retune \<Rightarrow> bool" where
  "deaf s \<longleftrightarrow> re_caller s \<in> {C_Sleeps, C_Holds_Lock} \<and> re_tuner s = T_Idle \<and> \<not> re_changed s \<and> \<not> re_msgAvailable s"

theorem retune_can_hang:
  "(\<exists>s. retune_path rate (Retune_init f) s \<and> deaf s \<and> \<not> re_stopping s) \<and>
   (\<forall>s t. deaf s \<longrightarrow> retune_step rate s t \<longrightarrow> deaf t \<or> t = s\<lparr>re_changed := True\<rparr>)"
proof (intro conjI allI impI)
  let ?i = "Retune_init f"
  define a where "a = ?i\<lparr>re_frequency := (if f < cdiv rate 2 then cdiv rate 2 else f), re_changed := True, re_caller := C_Holds_Lock\<rparr>"
  have "retune_path rate ?i a"
    using path_step [OF retune_step.call path_step [OF retune_step.flag path_step [OF retune_step.look
          retune_path.more [OF retune_path.here retune_step.lock]]], of ?i rate f]
    by (simp add: a_def Retune_init_def store_frequency_def raise_flag_def look_at_stopping_def mutex_free_def)
  moreover have "retune_path rate a (a\<lparr>re_device := re_frequency a, re_changed := False, re_missed := True\<rparr>)" (is "retune_path _ _ ?b")
    using path_step [OF retune_step.enter path_step [OF retune_step.load path_step [OF retune_step.tune path_step [OF retune_step.clear
          path_step [OF retune_step.try_lock_fails retune_path.more [OF retune_path.here retune_step.notify]]]]], of a]
    by (simp add: a_def Retune_init_def)
  moreover have "retune_path rate ?b (wait_round ?b)"
    by (rule retune_path.more [OF retune_path.here retune_step.test]) (simp add: a_def)
  ultimately have "retune_path rate ?i (wait_round ?b)" by (blast intro: path_trans)
  then show "\<exists>s. retune_path rate ?i s \<and> deaf s \<and> \<not> re_stopping s"
    by (rule exI [of _ "wait_round ?b", OF conjI]) (simp add: deaf_def wait_round_def a_def Retune_init_def)
next
  fix s t
  assume "deaf s" "retune_step rate s t"
  then show "deaf t \<or> t = s\<lparr>re_changed := True\<rparr>"
    by (elim retune_step.cases) (auto simp: deaf_def wait_round_def mutex_free_def)
qed

theorem retune_can_be_lost_witness: "\<exists>s::retune. re_caller s = C_Idle \<and> re_frequency s = 1024002 \<and> re_device s = 1024001 \<and> \<not> re_changed s"
  using retune_can_be_lost [of 2048000] by (auto simp: cdiv_def)

theorem answer_never_taken_back_witness:
  "\<exists>u. retune_path 0 ((Retune_init 5)\<lparr>re_msgAvailable := True\<rparr>) u \<and> re_caller u = C_Idle \<and> re_frequency u = 7 \<and> re_device u = 5"
  using answer_never_taken_back [OF retune_path.here, of "(Retune_init 5)\<lparr>re_msgAvailable := True\<rparr>" 0 7]
  by (auto simp: Retune_init_def cdiv_def)

theorem retune_can_return_witness: "\<exists>(s::retune) t. re_caller s = C_Flagged \<and> retune_path 0 s t \<and> re_caller t = C_Idle"
proof -
  let ?s = "raise_flag (store_frequency 0 7 (Retune_init 5))"
  have "retune_path 0 (Retune_init 5) ?s"
    using path_step [OF retune_step.call retune_path.more [OF retune_path.here retune_step.flag], of "Retune_init 5" 0 7]
    by (simp add: Retune_init_def store_frequency_def cdiv_def)
  then have "\<exists>t. retune_path 0 ?s t \<and> re_caller t = C_Idle"
    by (rule retune_can_return) (simp_all add: Retune_init_def store_frequency_def raise_flag_def waiting_def)
  moreover have "re_caller ?s = C_Flagged" by (simp add: raise_flag_def)
  ultimately show ?thesis by blast
qed

theorem retune_can_hang_witness: "\<exists>s::retune. deaf s \<and> \<not> re_stopping s"
  using retune_can_hang [of 2048000 0] by blast

end
