(* ===== verification/Servers.thy ===== *)
theory Servers
  imports Server_Queue Configuration State_Machine
begin

text \<open>
  The servers behind \<open>ServerManager\<close> (src/src/ServerManager.cpp): the listener for sockets
  (src/src/server/SocketServer.cpp), the debug server (src/src/server/DebugServer.cpp) and the
  audio server (src/src/server/AudioStreamServer.cpp), how the manager starts them, and how its
  queue thread stops them. The IO service is a library's: it completes the accept that was
  asked for, without error only while the acceptor is open, and it runs the handlers of what
  has completed. The steps of the queue thread and of its callers are those of
  Server\_Queue.
\<close>

section \<open>State\<close>

datatype backend_server = Debug_Server | Socket_Server | Audio_Server

text \<open>
  \<open>bs_conf\<close> is the manager with its queue thread, \<open>bs_thread\<close> says whether that thread was
  started, \<open>bs_failed\<close> what ended it early, \<open>bs_waiting\<close> are the sockets for which an accept is under way, \<open>bs_ready\<close> the handlers
  of accepts that have completed, each with whether it got an error. \<open>bs_forks\<close> counts the local
  clients created, \<open>bs_watch\<close> is \<open>_eventLoopWatch\<close>, which the constructor leaves unset.
\<close>

record servers =
  bs_conf :: queue_config
  bs_thread :: bool
  bs_list :: "backend_server list"
  bs_sync :: sync_flags
  bs_failed :: "fault option"
  bs_port :: int
  bs_open :: bool
  bs_waiting :: "nat list"
  bs_ready :: "(nat \<times> bool) list"
  bs_clientPid :: int
  bs_forks :: nat
  bs_console :: "nat option"
  bs_rtsp :: bool
  bs_audioThread :: bool
  bs_watch :: "int option"

definition Servers_init :: servers where
  "Servers_init = \<lparr>bs_conf = \<lparr>qc_man = ServerManager_init, qc_phase = Loop_Head, qc_tries = 0, qc_sent = [], qc_handled = []\<rparr>,
     bs_thread = False, bs_list = [], bs_sync = \<lparr>sy_ready = False, sy_stopped = False\<rparr>, bs_failed = None,
     bs_port = 1234, bs_open = False, bs_waiting = [], bs_ready = [], bs_clientPid = 0, bs_forks = 0,
     bs_console = None, bs_rtsp = False, bs_audioThread = False, bs_watch = None\<rparr>"

definition on_manager :: "(server_manager \<Rightarrow> server_manager) \<Rightarrow> servers \<Rightarrow> servers" where
  "on_manager f s = s\<lparr>bs_conf := (bs_conf s)\<lparr>qc_man := f (qc_man (bs_conf s))\<rparr>\<rparr>"

abbreviation bs_man :: "servers \<Rightarrow> server_manager" where
  "bs_man s \<equiv> qc_man (bs_conf s)"

text \<open>A new connection is the next of the store.\<close>

definition create_connection :: "connection_kind \<Rightarrow> servers \<Rightarrow> nat \<times> servers" where
  "create_connection k s =
     (length (sv_store (bs_man s)),
      on_manager (\<lambda>m. m\<lparr>sv_store := sv_store m @ [Connection_init k FULL_CONTROL]\<rparr>) s)"

text \<open>
  \<open>_host.requestConnection\<close>: the caller has enqueued and has yet to try the lock, as in
  Server\_Queue; a caller that is denied tries nothing.
\<close>

definition offer_connection :: "nat \<Rightarrow> servers \<Rightarrow> int \<times> servers" where
  "offer_connection p s =
     (let (r, m) = requestConnection False p (bs_man s);
          c = bs_conf s
      in (r, s\<lparr>bs_conf := c\<lparr>qc_man := m, qc_tries := (if r = RQ_ACCEPTED then qc_tries c + 1 else qc_tries c)\<rparr>\<rparr>))"

section \<open>The listener for sockets\<close>

definition start_accept :: "servers \<Rightarrow> servers" where
  "start_accept s =
     (let (p, s1) = create_connection Socket s in s1\<lparr>bs_waiting := bs_waiting s1 @ [p]\<rparr>)"

definition handle_accept :: "nat \<Rightarrow> bool \<Rightarrow> servers \<Rightarrow> servers" where
  "handle_accept p err s =
     (let s1 = (if \<not> err then snd (offer_connection p s) else s) in start_accept s1)"

definition SocketServer_stop :: "servers \<Rightarrow> servers" where
  "SocketServer_stop s = (if bs_open s then s\<lparr>bs_open := False\<rparr> else s)"

text \<open>What \<open>fork\<close> gives the parent is a parameter; the child becomes another program.\<close>

definition spawnPythonClient :: "int \<Rightarrow> servers \<Rightarrow> servers" where
  "spawnPythonClient pid s = s\<lparr>bs_clientPid := pid, bs_forks := bs_forks s + 1\<rparr>"

text \<open>How opening, binding and listening end: each throws when it fails.\<close>

datatype listen_result = Listens | No_Socket | Port_Taken

definition SocketServer_start :: "listen_result \<Rightarrow> int \<Rightarrow> socket_config \<Rightarrow> servers \<Rightarrow> servers" where
  "SocketServer_start lr pid cfg s =
     (let s1 = s\<lparr>bs_port := sc_tcpPort cfg mod 65536\<rparr>;
          s2 = (case lr of
                  Listens \<Rightarrow> start_accept (s1\<lparr>bs_open := True\<rparr>)
                | No_Socket \<Rightarrow> SocketServer_stop s1
                | Port_Taken \<Rightarrow> SocketServer_stop (s1\<lparr>bs_open := True\<rparr>))
      in if sc_spawnLocalClient cfg then spawnPythonClient pid s2 else s2)"

definition spawnLocalClient :: "int \<Rightarrow> socket_config \<Rightarrow> servers \<Rightarrow> servers" where
  "spawnLocalClient pid cfg s = (if \<not> sc_spawnLocalClient cfg then spawnPythonClient pid s else s)"

section \<open>The debug server and the audio server\<close>

definition DebugServer_start :: "servers \<Rightarrow> servers" where
  "DebugServer_start s = (case bs_console s of None \<Rightarrow> s | Some p \<Rightarrow> snd (offer_connection p s))"

definition DebugServer_stop :: "servers \<Rightarrow> servers result" where
  "DebugServer_stop s =
     (case bs_console s of
        None \<Rightarrow> Inr s
      | Some p \<Rightarrow>
          if cn_open (sv_store (bs_man s) ! p)
          then bind_result (disconnect False p (bs_man s)) (\<lambda>m. Inr (on_manager (\<lambda>_. m) s))
          else Inr s)"

definition AudioStreamServer_start :: "servers \<Rightarrow> servers" where
  "AudioStreamServer_start s = (if \<not> bs_rtsp s then s else s\<lparr>bs_watch := Some 0, bs_audioThread := True\<rparr>)"

text \<open>
  The event loop ends when its watch variable is set, so the join returns; joining a thread
  that was never started throws.
\<close>

definition AudioStreamServer_stop :: "servers \<Rightarrow> servers result" where
  "AudioStreamServer_stop s =
     (let s1 = s\<lparr>bs_watch := Some 1\<rparr>
      in if bs_audioThread s1 then Inr (s1\<lparr>bs_audioThread := False\<rparr>) else Inl System_Error)"

section \<open>Starting and stopping them\<close>

fun backend_start :: "listen_result \<Rightarrow> int \<Rightarrow> socket_config \<Rightarrow> backend_server \<Rightarrow> servers \<Rightarrow> servers" where
  "backend_start lr pid cfg Debug_Server s = DebugServer_start s"
| "backend_start lr pid cfg Socket_Server s = SocketServer_start lr pid cfg s"
| "backend_start lr pid cfg Audio_Server s = AudioStreamServer_start s"

fun backend_stop :: "backend_server \<Rightarrow> servers \<Rightarrow> servers result" where
  "backend_stop Debug_Server s = DebugServer_stop s"
| "backend_stop Socket_Server s = Inr (SocketServer_stop s)"
| "backend_stop Audio_Server s = AudioStreamServer_stop s"

text \<open>\<open>rtsp\<close> says whether the RTSP server could be created, on its port.\<close>

definition ServerManager_start ::
    "listen_result \<Rightarrow> bool \<Rightarrow> int \<Rightarrow> socket_config \<Rightarrow> bool \<Rightarrow> bool \<Rightarrow> servers \<Rightarrow> servers" where
  "ServerManager_start lr rtsp pid cfg useDebugServer spawn s =
     (let s1 = (if useDebugServer
                then let (p, t) = create_connection Console s in t\<lparr>bs_console := Some p, bs_list := bs_list t @ [Debug_Server]\<rparr>
                else s);
          s2 = s1\<lparr>bs_list := bs_list s1 @ [Socket_Server]\<rparr>;
          s3 = s2\<lparr>bs_rtsp := rtsp, bs_list := bs_list s2 @ [Audio_Server]\<rparr>;
          s4 = (on_manager (\<lambda>m. m\<lparr>sv_run := True\<rparr>) s3)\<lparr>bs_thread := True\<rparr>;
          s5 = fold (backend_start lr pid cfg) (bs_list s4) s4;
          s6 = (if spawn then spawnLocalClient pid cfg s5 else s5)
      in s6\<lparr>bs_sync := notifyReady (bs_sync s6)\<rparr>)"

text \<open>The loop at the end of \<open>_queueThreadFunc\<close>, and the notice that follows it.\<close>

fun stop_servers :: "backend_server list \<Rightarrow> servers \<Rightarrow> servers result" where
  "stop_servers [] s = Inr s"
| "stop_servers (b # bs) s = bind_result (backend_stop b s) (stop_servers bs)"

definition queue_thread_end :: "servers \<Rightarrow> servers result" where
  "queue_thread_end s =
     bind_result (stop_servers (bs_list s) s) (\<lambda>s1. Inr (s1\<lparr>bs_sync := notifyDeinit (bs_sync s1)\<rparr>))"

section \<open>Steps\<close>

text \<open>The thread of the IO service.\<close>

inductive io_step :: "servers \<Rightarrow> servers \<Rightarrow> bool" where
  complete: "bs_waiting s = p # ps \<Longrightarrow> err \<or> bs_open s \<Longrightarrow>
    io_step s (s\<lparr>bs_waiting := ps, bs_ready := bs_ready s @ [(p, err)]\<rparr>)"
| run_handler: "bs_ready s = (p, err) # rs \<Longrightarrow> io_step s (handle_accept p err (s\<lparr>bs_ready := rs\<rparr>))"

text \<open>
  The queue thread up to and past its end, and what clients and the other threads do: messages,
  requests, a client that leaves.
\<close>

inductive own_step :: "servers \<Rightarrow> servers \<Rightarrow> bool" where
  queue_thread: "bs_thread s \<Longrightarrow> thread_step (bs_conf s) c \<Longrightarrow> own_step s (s\<lparr>bs_conf := c\<rparr>)"
| end_thread: "qc_phase (bs_conf s) = Thread_Ended \<Longrightarrow> \<not> sy_stopped (bs_sync s) \<Longrightarrow> bs_failed s = None \<Longrightarrow> queue_thread_end s = Inr t \<Longrightarrow>
    own_step s t"
| end_fails: "qc_phase (bs_conf s) = Thread_Ended \<Longrightarrow> \<not> sy_stopped (bs_sync s) \<Longrightarrow> bs_failed s = None \<Longrightarrow> queue_thread_end s = Inl f \<Longrightarrow>
    own_step s (s\<lparr>bs_failed := Some f\<rparr>)"
| send: "own_step s (s\<lparr>bs_conf := (bs_conf s)\<lparr>qc_man := giveMessage False m (bs_man s),
    qc_tries := qc_tries (bs_conf s) + 1, qc_sent := qc_sent (bs_conf s) @ [m]\<rparr>\<rparr>)"
| attempt: "0 < qc_tries (bs_conf s) \<Longrightarrow>
    own_step s (s\<lparr>bs_conf := (bs_conf s)\<lparr>qc_man := wake (lock_free (bs_conf s)) (bs_man s), qc_tries := qc_tries (bs_conf s) - 1\<rparr>\<rparr>)"
| request: "i < MAX_CONNECTIONS \<Longrightarrow> sv_slots (bs_man s) ! i = Some p \<Longrightarrow> ty \<noteq> NOTIFY_DISCONNECTED \<Longrightarrow>
    issueRequest False p ty sub data (bs_man s) = Inr (r, m) \<Longrightarrow>
    own_step s (s\<lparr>bs_conf := (bs_conf s)\<lparr>qc_man := m, qc_tries := qc_tries (bs_conf s) + 1,
      qc_sent := qc_sent (bs_conf s) @ drop (length (sv_queue (bs_man s))) (sv_queue m)\<rparr>\<rparr>)"
| leaves: "Some p \<in> set (sv_slots (bs_man s)) \<Longrightarrow> disconnect False p (bs_man s) = Inr m \<Longrightarrow>
    own_step s (on_manager (\<lambda>_. m) s)"

text \<open>With the calls of the main thread.\<close>

inductive servers_step :: "servers \<Rightarrow> servers \<Rightarrow> bool" where
  io: "io_step s t \<Longrightarrow> servers_step s t"
| own: "own_step s t \<Longrightarrow> servers_step s t"
| allow: "servers_step s (on_manager allowConnections s)"
| stop: "server_stop False (bs_man s) = Inr m \<Longrightarrow>
    servers_step s (s\<lparr>bs_conf := (bs_conf s)\<lparr>qc_man := m, qc_tries := qc_tries (bs_conf s) + 1\<rparr>\<rparr>)"

inductive servers_reach :: "servers \<Rightarrow> servers \<Rightarrow> bool" for s where
  here: "servers_reach s s"
| step: "servers_reach s t \<Longrightarrow> servers_step t u \<Longrightarrow> servers_reach s u"

inductive_cases io_step_cases: "io_step s t"
inductive_cases own_step_cases: "own_step s t"

section \<open>What the steps do to the table\<close>

text \<open>
  An open connection is in the table, or \<open>p\<close> is closed; and the moves of the manager that
  neither create connections nor offer any.
\<close>

definition closed_or_listed :: "nat \<Rightarrow> server_manager \<Rightarrow> bool" where
  "closed_or_listed p m \<longleftrightarrow> (cn_open (sv_store m ! p) \<longrightarrow> Some p \<in> set (sv_slots m))"

definition man_moves :: "server_manager \<Rightarrow> server_manager \<Rightarrow> bool" where
  "man_moves m m' \<longleftrightarrow> length (sv_store m') = length (sv_store m) \<and>
     set (sv_connectionQueue m') \<subseteq> set (sv_connectionQueue m) \<and>
     (\<forall>p. Some p \<in> set (sv_slots m') \<longrightarrow> Some p \<in> set (sv_slots m) \<or> p \<in> set (sv_connectionQueue m)) \<and>
     (\<forall>p<length (sv_store m). closed_or_listed p m \<longrightarrow> closed_or_listed p m')"

lemma man_moves_trans: "man_moves a b \<Longrightarrow> man_moves b c \<Longrightarrow> man_moves a c"
  unfolding man_moves_def by (metis subset_iff)

lemma man_moves_same:
  "sv_store m' = sv_store m \<Longrightarrow> sv_slots m' = sv_slots m \<Longrightarrow> sv_connectionQueue m' = sv_connectionQueue m \<Longrightarrow> man_moves m m'"
  by (simp add: man_moves_def closed_or_listed_def)

lemma man_moves_after:
  "man_moves a b \<Longrightarrow> sv_store c = sv_store b \<Longrightarrow> sv_slots c = sv_slots b \<Longrightarrow> sv_connectionQueue c = sv_connectionQueue b \<Longrightarrow> man_moves a c"
  by (simp add: man_moves_def closed_or_listed_def)

lemma man_moves_deliver:
  "p < length (sv_store m) \<Longrightarrow> man_moves m (on_connection p (deliver_event ev) m)"
  by (simp add: man_moves_def closed_or_listed_def on_connection_nth)

lemma man_moves_broadcast: "server_ok m \<Longrightarrow> man_moves m (broadcast P ev m)"
  by (simp add: man_moves_def closed_or_listed_def broadcast_effect)

lemma disconnect_ok:
  assumes "server_ok m" "all_open m" "Some p \<in> set (sv_slots m)" "disconnect free p m = Inr m'"
  shows "server_ok m' \<and> all_open m' \<and> man_moves m m' \<and> \<not> cn_open (sv_store m' ! p) \<and> sv_activeConnections m' = sv_activeConnections m \<and>
    sv_connectionQueue m' = sv_connectionQueue m \<and> sv_queue m' = sv_queue m \<and>
    (\<forall>q. Some q \<in> set (sv_slots m') \<longrightarrow> Some q \<in> set (sv_slots m))"
proof -
  obtain i where i: "i < MAX_CONNECTIONS" "sv_slots m ! i = Some p"
    using assms(1,3) by (auto simp: in_set_conv_nth server_ok_def)
  have p: "p < length (sv_store m)" using server_ok_slot(1) [OF assms(1) i] .
  have op: "cn_open (sv_store m ! p)" using assms(2,3) by (simp add: all_open_def)
  have m': "m' = (on_connection p (\<lambda>c. c\<lparr>cn_open := False\<rparr>) m)\<lparr>sv_slots := (sv_slots m)[i := None]\<rparr>"
    using assms(4) disconnect_connected [OF assms(1) i op, of free] by simp
  have "disconnect_slots free [i] m = Inr m'" using assms(4) i(2) by simp
  then have k: "server_ok m'" "all_open m'"
    using disconnect_slots_total [OF assms(1,2), of "[i]" free] i(1) by auto
  have "Some q \<in> set ((sv_slots m)[i := None])" if q: "Some q \<in> set (sv_slots m)" "q \<noteq> p" for q
  proof -
    obtain j where j: "j < length (sv_slots m)" "sv_slots m ! j = Some q" using q(1) by (auto simp: in_set_conv_nth)
    then have "j \<noteq> i" using i(2) q(2) by auto
    with j show ?thesis by (metis length_list_update nth_list_update_neq nth_mem)
  qed
  then have "man_moves m m'"
    using p set_update_subset_insert [of "sv_slots m" i None]
    by (auto simp: m' man_moves_def closed_or_listed_def on_connection_nth)
  with k p set_update_subset_insert [of "sv_slots m" i None] show ?thesis
    by (auto simp: m' on_connection_nth)
qed

lemma man_moves_disconnect_slots:
  assumes "disconnect_slots free is m = Inr m'" "server_ok m" "all_open m" "\<forall>i\<in>set is. i < MAX_CONNECTIONS"
  shows "man_moves m m'"
  using assms
proof (induction "is" arbitrary: m)
  case Nil
  then show ?case by (simp add: man_moves_same)
next
  case (Cons i "is")
  show ?case
  proof (cases "sv_slots m ! i")
    case None
    then show ?thesis using Cons by simp
  next
    case (Some p)
    then obtain t where t: "disconnect free p m = Inr t" "disconnect_slots free is t = Inr m'"
      using Cons.prems(1) by (auto simp: bind_result_Inr_iff)
    have "Some p \<in> set (sv_slots m)"
      using Some Cons.prems(2,4) nth_mem [of i "sv_slots m"] by (simp add: server_ok_def)
    from disconnect_ok [OF Cons.prems(2,3) this t(1)] Cons.IH [OF t(2)] Cons.prems(4) show ?thesis
      using man_moves_trans by auto
  qed
qed

lemma man_moves_disconnectClients:
  assumes "disconnectClients free m = Inr m'" "server_ok m" "all_open m"
  shows "man_moves m m'"
proof -
  have "man_moves (m\<lparr>sv_allow := False\<rparr>) m'"
    using assms by (intro man_moves_disconnect_slots [of free "[0..<MAX_CONNECTIONS]"]) (simp_all add: disconnectClients_def)
  then show ?thesis by (simp add: man_moves_def closed_or_listed_def)
qed

lemma man_moves_handleMessage:
  assumes "handleMessage free x m = Inr m'" "server_ok m" "all_open m"
  shows "man_moves m m'"
proof -
  have c: "man_moves m (t\<lparr>sv_run := False\<rparr>)" if "disconnectClients free m = Inr t" for t
    by (rule man_moves_after [OF man_moves_disconnectClients [OF that assms(2,3)]]) simp_all
  have s: "man_moves m m" by (simp add: man_moves_same)
  show ?thesis
    using assms(1) s c man_moves_broadcast [OF assms(2)]
    by (auto simp: handleMessage_def broadcastScannerContext_def broadcastDemodContext_def bind_result_Inr_iff
        broadcastSignalLevelUpdate_def broadcastGeneralMessage_def split: if_splits message_data.splits)
qed

lemma man_moves_addConnection:
  assumes "p < length (sv_store m)" "p \<in> set (sv_connectionQueue m)" "Some p \<notin> set (sv_slots m)"
    and "set ps \<subseteq> set (sv_connectionQueue m)"
  shows "man_moves m (addConnection p (m\<lparr>sv_connectionQueue := ps\<rparr>))"
proof (cases "free_slot (sv_slots m)")
  case None
  then show ?thesis using assms(4) by (auto simp: addConnection_def man_moves_def closed_or_listed_def)
next
  case (Some i)
  have i: "i < length (sv_slots m)" "sv_slots m ! i = None" using free_slot_Some [OF Some] by auto
  have "Some q \<in> set ((sv_slots m)[i := Some p])" if q: "Some q \<in> set (sv_slots m)" for q
  proof -
    obtain j where j: "j < length (sv_slots m)" "sv_slots m ! j = Some q" using q by (auto simp: in_set_conv_nth)
    then have "j \<noteq> i" using i(2) by auto
    with j show ?thesis by (metis length_list_update nth_list_update_neq nth_mem)
  qed
  moreover have "Some p \<in> set ((sv_slots m)[i := Some p])" using i(1) by (simp add: set_update_memI)
  ultimately show ?thesis
    using assms set_update_subset_insert [of "sv_slots m" i "Some p"]
    by (auto simp: addConnection_def Some connect_def Let_def man_moves_def closed_or_listed_def on_connection_nth)
qed

lemma man_moves_request:
  assumes "server_ok m" "i < MAX_CONNECTIONS" "sv_slots m ! i = Some p" "ty \<noteq> NOTIFY_DISCONNECTED"
    and "issueRequest free p ty sub data m = Inr (r, m')"
  shows "man_moves m m'"
proof -
  have d: "man_moves m (on_connection p (deliver_event ev) m)" for ev
    using man_moves_deliver server_ok_slot(1) [OF assms(1-3)] by blast
  have "man_moves m (giveMessage free x m)" "man_moves m m" for x by (simp_all add: man_moves_same)
  with d show ?thesis
    using assms(4,5) unfolding issueRequest_connected [OF assms(1-3) refl] Let_def
    by (auto simp del: request_message.simps split: if_splits list.splits)
qed

lemma man_moves_thread:
  assumes "thread_step c d" "queue_inv c"
  shows "man_moves (qc_man c) (qc_man d)"
  using assms(1)
proof (cases rule: thread_step.cases)
  case (take_message m s)
  let ?m = "(qc_man c)\<lparr>sv_queue := remove1 m (sv_queue (qc_man c))\<rparr>"
  have "man_moves ?m s"
    using assms(2) by (intro man_moves_handleMessage [OF take_message(4)]) (simp_all add: queue_inv_def)
  then show ?thesis by (simp add: take_message(1) man_moves_def closed_or_listed_def)
next
  case (take_connection p ps)
  have q: "p < length (sv_store (qc_man c))" "Some p \<notin> set (sv_slots (qc_man c))"
    using assms(2) take_connection(4) by (simp_all add: queue_inv_def)
  have "man_moves (qc_man c) (addConnection p ((qc_man c)\<lparr>sv_connectionQueue := ps\<rparr>))"
    using man_moves_addConnection [OF q(1) _ q(2), of ps] take_connection(4) by auto
  then show ?thesis by (rule man_moves_after) (simp_all add: take_connection(1))
qed (simp_all add: man_moves_same)

lemma man_moves_stop:
  assumes "server_stop free m = Inr m'" "server_ok m" "all_open m"
  shows "man_moves m m'"
proof -
  obtain t where t: "disconnectClients free m = Inr t" "m' = wake free (t\<lparr>sv_run := False\<rparr>)"
    using assms(1) by (auto simp: server_stop_def bind_result_Inr_iff)
  show ?thesis by (rule man_moves_after [OF man_moves_disconnectClients [OF t(1) assms(2,3)]]) (simp_all add: t(2))
qed

section \<open>The invariant of the servers\<close>

definition in_flight :: "servers \<Rightarrow> nat list" where
  "in_flight s = bs_waiting s @ map fst (bs_ready s)"

definition flight_ok :: "nat \<Rightarrow> servers \<Rightarrow> bool" where
  "flight_ok n s \<longleftrightarrow> length (in_flight s) = n \<and> distinct (in_flight s) \<and>
     (\<forall>p\<in>set (in_flight s). p < length (sv_store (bs_man s)) \<and> p \<notin> set (sv_connectionQueue (bs_man s)) \<and>
        Some p \<notin> set (sv_slots (bs_man s)))"

definition console_ok :: "servers \<Rightarrow> bool" where
  "console_ok s \<longleftrightarrow> (\<forall>p. bs_console s = Some p \<longrightarrow>
     p < length (sv_store (bs_man s)) \<and> closed_or_listed p (bs_man s) \<and> p \<notin> set (in_flight s))"

definition list_ok :: "servers \<Rightarrow> bool" where
  "list_ok s \<longleftrightarrow> bs_thread s \<and> (\<not> sy_stopped (bs_sync s) \<longrightarrow> bs_audioThread s = bs_rtsp s) \<and>
     bs_list s = (if bs_console s = None then [] else [Debug_Server]) @ [Socket_Server, Audio_Server]"

definition servers_inv :: "nat \<Rightarrow> servers \<Rightarrow> bool" where
  "servers_inv n s \<longleftrightarrow> queue_inv (bs_conf s) \<and> flight_ok n s \<and> console_ok s \<and> list_ok s"

lemma servers_inv_moves:
  assumes "servers_inv n s" "queue_inv c" "man_moves (bs_man s) (qc_man c)"
  shows "servers_inv n (s\<lparr>bs_conf := c\<rparr>)"
  using assms
  by (auto simp: servers_inv_def flight_ok_def console_ok_def list_ok_def in_flight_def man_moves_def)

text \<open>Creating a connection only lengthens the store.\<close>

lemma queue_inv_grow:
  assumes "queue_inv c"
  shows "queue_inv (c\<lparr>qc_man := (qc_man c)\<lparr>sv_store := sv_store (qc_man c) @ xs\<rparr>\<rparr>)"
proof -
  have "p < length (sv_store (qc_man c))" if "Some p \<in> set (sv_slots (qc_man c))" for p
  proof -
    have "server_ok (qc_man c)" using assms by (simp add: queue_inv_def)
    then show ?thesis using that server_ok_slot(1) by (metis in_set_conv_nth server_ok_def)
  qed
  then show ?thesis using assms
    by (auto simp: queue_inv_def server_ok_def all_open_def nth_append)
qed

lemma start_accept_inv:
  assumes "servers_inv n s"
  shows "servers_inv (Suc n) (start_accept s)"
proof -
  let ?m = "bs_man s"
  have k: "queue_inv (bs_conf s)" "flight_ok n s" "console_ok s" "list_ok s" using assms by (simp_all add: servers_inv_def)
  have lim: "p < length (sv_store ?m)" if "Some p \<in> set (sv_slots ?m)" for p
  proof -
    have "server_ok ?m" using k(1) by (simp add: queue_inv_def)
    then show ?thesis using that server_ok_slot(1) by (metis in_set_conv_nth server_ok_def)
  qed
  have cq: "p < length (sv_store ?m)" if "p \<in> set (sv_connectionQueue ?m)" for p
    using k(1) that by (simp add: queue_inv_def)
  have fl: "p < length (sv_store ?m)" if "p \<in> set (in_flight s)" for p
    using k(2) that by (simp add: flight_ok_def)
  have e: "bs_conf (start_accept s) = (bs_conf s)\<lparr>qc_man := ?m\<lparr>sv_store := sv_store ?m @ [Connection_init Socket FULL_CONTROL]\<rparr>\<rparr>"
    "bs_waiting (start_accept s) = bs_waiting s @ [length (sv_store ?m)]" "bs_ready (start_accept s) = bs_ready s"
    "bs_console (start_accept s) = bs_console s" "list_ok (start_accept s) = list_ok s"
    by (simp_all add: start_accept_def create_connection_def on_manager_def list_ok_def)
  have set_fl: "set (in_flight (start_accept s)) = insert (length (sv_store ?m)) (set (in_flight s))"
    using e by (auto simp: in_flight_def)
  have 1: "flight_ok (Suc n) (start_accept s)"
    unfolding flight_ok_def set_fl using k(2) lim cq fl e
    by (auto simp: flight_ok_def in_flight_def less_Suc_eq)
  have 2: "console_ok (start_accept s)"
    unfolding console_ok_def set_fl using k(3) e(1,4)
    by (auto simp: console_ok_def closed_or_listed_def nth_append)
  show ?thesis using queue_inv_grow [OF k(1)] 1 2 k(4) e by (simp add: servers_inv_def)
qed

text \<open>Offering a connection that is new to the manager.\<close>

lemma offer_is_step:
  assumes "queue_inv c" "p < length (sv_store (qc_man c))" "p \<notin> set (sv_connectionQueue (qc_man c))" "Some p \<notin> set (sv_slots (qc_man c))"
  shows "queue_inv (c\<lparr>qc_man := snd (requestConnection False p (qc_man c)), qc_tries := qc_tries c + 1\<rparr>)"
  by (rule other_step_keeps [OF other_step.offer [OF assms(2,3,4)] assms(1)])

lemma offer_accepted:
  "queue_inv (bs_conf s) \<Longrightarrow> offer_connection p s = (RQ_ACCEPTED, s\<lparr>bs_conf := (bs_conf s)\<lparr>qc_man := (bs_man s)\<lparr>sv_connectionQueue :=
    sv_connectionQueue (bs_man s) @ [p]\<rparr>, qc_tries := qc_tries (bs_conf s) + 1\<rparr>\<rparr>)"
  by (simp add: offer_connection_def requestConnection_def queue_inv_def MAX_CONNECTIONS_def wake_def Let_def)

lemma handle_accept_inv:
  assumes "servers_inv (Suc n) s" "bs_ready s = (p, err) # rs"
  shows "servers_inv (Suc n) (handle_accept p err (s\<lparr>bs_ready := rs\<rparr>))"
proof -
  let ?s = "s\<lparr>bs_ready := rs\<rparr>"
  have k: "queue_inv (bs_conf s)" "flight_ok (Suc n) s" "console_ok s" "list_ok s" using assms by (simp_all add: servers_inv_def)
  have p: "p < length (sv_store (bs_man s))" "p \<notin> set (sv_connectionQueue (bs_man s))" "Some p \<notin> set (sv_slots (bs_man s))"
    "p \<notin> set (in_flight ?s)" "bs_console s \<noteq> Some p"
    using k(2,3) assms(2) by (auto simp: flight_ok_def in_flight_def console_ok_def)
  have fl: "flight_ok n ?s" "console_ok ?s" "list_ok ?s"
    using k assms(2) by (auto simp: flight_ok_def in_flight_def console_ok_def list_ok_def)
  show ?thesis
  proof (cases err)
    case True
    have "servers_inv n ?s" using k fl by (simp add: servers_inv_def)
    then show ?thesis using True start_accept_inv by (simp add: handle_accept_def)
  next
    case False
    let ?t = "snd (offer_connection p ?s)"
    have t: "?t = ?s\<lparr>bs_conf := (bs_conf s)\<lparr>qc_man := (bs_man s)\<lparr>sv_connectionQueue := sv_connectionQueue (bs_man s) @ [p]\<rparr>,
        qc_tries := qc_tries (bs_conf s) + 1\<rparr>\<rparr>"
      using offer_accepted [of ?s p] k(1) by simp
    have "queue_inv (bs_conf ?t)"
      using offer_is_step [OF k(1) p(1-3)] k(1)
      by (simp add: t requestConnection_def queue_inv_def MAX_CONNECTIONS_def wake_def)
    moreover have "flight_ok n ?t" using fl(1) p(4) by (auto simp: t flight_ok_def in_flight_def)
    moreover have "console_ok ?t" using fl(2) by (simp add: t console_ok_def closed_or_listed_def in_flight_def)
    moreover have "list_ok ?t" using fl(3) by (simp add: t list_ok_def)
    ultimately have "servers_inv n ?t" by (simp add: servers_inv_def)
    then show ?thesis using False start_accept_inv by (simp add: handle_accept_def)
  qed
qed

lemma io_step_inv:
  assumes "io_step s t" "servers_inv n s"
  shows "servers_inv n t"
  using assms(1)
proof (cases rule: io_step.cases)
  case (complete p ps err)
  then show ?thesis using assms(2)
    by (auto simp: servers_inv_def flight_ok_def console_ok_def list_ok_def in_flight_def)
next
  case (run_handler p err rs)
  then obtain k where "n = Suc k"
    using assms(2) by (cases n) (auto simp: servers_inv_def flight_ok_def in_flight_def)
  then show ?thesis using handle_accept_inv [OF _ run_handler(2)] assms(2) run_handler(1) by blast
qed

text \<open>How the queue thread's last loop ends: badly exactly if there is no RTSP server.\<close>

lemma DebugServer_stop_total:
  assumes "servers_inv n s"
  shows "\<exists>m. DebugServer_stop s = Inr (on_manager (\<lambda>_. m) s) \<and> man_moves (bs_man s) m \<and> server_ok m \<and> all_open m \<and>
    sv_activeConnections m = sv_activeConnections (bs_man s) \<and> sv_connectionQueue m = sv_connectionQueue (bs_man s) \<and>
    sv_queue m = sv_queue (bs_man s) \<and> (\<forall>q. Some q \<in> set (sv_slots m) \<longrightarrow> Some q \<in> set (sv_slots (bs_man s))) \<and>
    (\<forall>p. bs_console s = Some p \<longrightarrow> \<not> cn_open (sv_store m ! p))"
proof -
  have k: "server_ok (bs_man s)" "all_open (bs_man s)" "console_ok s"
    using assms by (simp_all add: servers_inv_def queue_inv_def)
  have same: "on_manager (\<lambda>_. bs_man s) s = s" by (simp add: on_manager_def)
  show ?thesis
  proof (cases "\<exists>p. bs_console s = Some p \<and> cn_open (sv_store (bs_man s) ! p)")
    case True
    then obtain p where p: "bs_console s = Some p" "cn_open (sv_store (bs_man s) ! p)" by blast
    then have sl: "Some p \<in> set (sv_slots (bs_man s))" using k(3) by (auto simp: console_ok_def closed_or_listed_def)
    then obtain i where i: "i < MAX_CONNECTIONS" "sv_slots (bs_man s) ! i = Some p"
      using k(1) by (auto simp: in_set_conv_nth server_ok_def)
    obtain m where m: "disconnect False p (bs_man s) = Inr m" using disconnect_connected [OF k(1) i p(2)] by blast
    from disconnect_ok [OF k(1,2) sl m] m p show ?thesis
      by (intro exI [of _ m]) (simp add: DebugServer_stop_def)
  next
    case False
    then have "DebugServer_stop s = Inr s" by (auto simp: DebugServer_stop_def split: option.splits)
    with False k same show ?thesis by (intro exI [of _ "bs_man s"]) (auto simp: man_moves_same)
  qed
qed

lemma queue_thread_end_result:
  assumes "servers_inv n s" "\<not> sy_stopped (bs_sync s)"
  shows "if bs_rtsp s
    then \<exists>t. queue_thread_end s = Inr t \<and> sy_stopped (bs_sync t) \<and> \<not> bs_open t \<and> \<not> bs_audioThread t \<and>
      bs_watch t = Some 1 \<and> bs_rtsp t \<and> bs_waiting t = bs_waiting s \<and> bs_ready t = bs_ready s \<and>
      (\<forall>p. bs_console s = Some p \<longrightarrow> \<not> cn_open (sv_store (bs_man t) ! p)) \<and>
      (qc_phase (bs_conf s) = Thread_Ended \<longrightarrow> servers_inv n t)
    else queue_thread_end s = Inl System_Error"
proof -
  obtain m where m: "DebugServer_stop s = Inr (on_manager (\<lambda>_. m) s)" "man_moves (bs_man s) m" "server_ok m" "all_open m"
    "sv_activeConnections m = sv_activeConnections (bs_man s)" "sv_connectionQueue m = sv_connectionQueue (bs_man s)"
    "\<forall>q. Some q \<in> set (sv_slots m) \<longrightarrow> Some q \<in> set (sv_slots (bs_man s))"
    "\<forall>p. bs_console s = Some p \<longrightarrow> \<not> cn_open (sv_store m ! p)"
    using DebugServer_stop_total [OF assms(1)] by blast
  let ?s1 = "on_manager (\<lambda>_. m) s"
  have l: "bs_audioThread s = bs_rtsp s" "bs_list s = (if bs_console s = None then [] else [Debug_Server]) @ [Socket_Server, Audio_Server]"
    using assms by (simp_all add: servers_inv_def list_ok_def)
  have first: "stop_servers (bs_list s) s = stop_servers [Socket_Server, Audio_Server] ?s1"
  proof (cases "bs_console s")
    case None
    then have "DebugServer_stop s = Inr s" by (simp add: DebugServer_stop_def)
    with m(1) None l show ?thesis by simp
  qed (use m(1) l in simp)
  show ?thesis
  proof (cases "bs_rtsp s")
    case True
    let ?t = "(SocketServer_stop ?s1)\<lparr>bs_watch := Some 1, bs_audioThread := False, bs_sync := notifyDeinit (bs_sync s)\<rparr>"
    have e: "queue_thread_end s = Inr ?t"
      using first True l by (simp add: queue_thread_end_def AudioStreamServer_stop_def SocketServer_stop_def on_manager_def Let_def)
    have "servers_inv n ?t" if "qc_phase (bs_conf s) = Thread_Ended"
    proof -
      have "queue_inv ((bs_conf s)\<lparr>qc_man := m\<rparr>)"
        using assms(1) m(3-7) that m(2) by (auto simp: servers_inv_def queue_inv_def man_moves_def)
      then have "servers_inv n ?s1"
        using servers_inv_moves [OF assms(1), of "(bs_conf s)\<lparr>qc_man := m\<rparr>"] m(2) by (simp add: on_manager_def)
      then show ?thesis
        by (auto simp: servers_inv_def flight_ok_def console_ok_def list_ok_def in_flight_def SocketServer_stop_def notifyDeinit_def)
    qed
    with e m(8) True show ?thesis
      by (auto simp: SocketServer_stop_def notifyDeinit_def on_manager_def)
  next
    case False
    then show ?thesis
      using first l by (simp add: queue_thread_end_def AudioStreamServer_stop_def SocketServer_stop_def on_manager_def Let_def)
  qed
qed

lemma own_step_inv:
  assumes "own_step s t" "servers_inv n s"
  shows "servers_inv n t"
  using assms(1)
proof (cases rule: own_step.cases)
  case (queue_thread c)
  have q: "queue_inv (bs_conf s)" using assms(2) by (simp add: servers_inv_def)
  show ?thesis unfolding queue_thread(1)
    by (rule servers_inv_moves [OF assms(2) thread_step_keeps [OF queue_thread(3) q] man_moves_thread [OF queue_thread(3) q]])
next
  case end_thread
  then show ?thesis using queue_thread_end_result [OF assms(2)] by (auto split: if_splits)
next
  case (end_fails f)
  then show ?thesis using assms(2) by (auto simp: servers_inv_def flight_ok_def console_ok_def list_ok_def in_flight_def)
next
  case (send m)
  have q: "queue_inv (bs_conf s)" using assms(2) by (simp add: servers_inv_def)
  show ?thesis unfolding send
    by (rule servers_inv_moves [OF assms(2) other_step_keeps [OF other_step.send q]]) (simp add: man_moves_same)
next
  case attempt
  have q: "queue_inv (bs_conf s)" using assms(2) by (simp add: servers_inv_def)
  show ?thesis unfolding attempt(1)
    by (rule servers_inv_moves [OF assms(2) other_step_keeps [OF other_step.attempt [OF attempt(2)] q]]) (simp add: man_moves_same)
next
  case (request i p ty sub data r m)
  have q: "queue_inv (bs_conf s)" using assms(2) by (simp add: servers_inv_def)
  then have "server_ok (bs_man s)" by (simp add: queue_inv_def)
  from man_moves_request [OF this request(2,3,4,5)] show ?thesis unfolding request(1)
    by (intro servers_inv_moves [OF assms(2) other_step_keeps [OF other_step.request [OF request(2,3,5)] q]]) simp
next
  case (leaves p m)
  have q: "queue_inv (bs_conf s)" using assms(2) by (simp add: servers_inv_def)
  then have "server_ok (bs_man s)" "all_open (bs_man s)" by (simp_all add: queue_inv_def)
  from disconnect_ok [OF this leaves(2,3)] q have "queue_inv ((bs_conf s)\<lparr>qc_man := m\<rparr>)" "man_moves (bs_man s) m"
    by (auto simp: queue_inv_def man_moves_def)
  then show ?thesis unfolding leaves(1) on_manager_def by (intro servers_inv_moves [OF assms(2)]) simp_all
qed

lemma servers_step_inv:
  assumes "servers_step s t" "servers_inv n s"
  shows "servers_inv n t"
  using assms(1)
proof (cases rule: servers_step.cases)
  case io
  then show ?thesis by (rule io_step_inv [OF _ assms(2)])
next
  case own
  then show ?thesis by (rule own_step_inv [OF _ assms(2)])
next
  case allow
  have q: "queue_inv (bs_conf s)" using assms(2) by (simp add: servers_inv_def)
  show ?thesis unfolding allow on_manager_def
    by (rule servers_inv_moves [OF assms(2) other_step_keeps [OF other_step.allow q]])
      (simp add: man_moves_same allowConnections_def)
next
  case (stop m)
  have q: "queue_inv (bs_conf s)" using assms(2) by (simp add: servers_inv_def)
  then have "server_ok (bs_man s)" "all_open (bs_man s)" by (simp_all add: queue_inv_def)
  from man_moves_stop [OF stop(2) this] show ?thesis unfolding stop(1)
    by (intro servers_inv_moves [OF assms(2) other_step_keeps [OF other_step.stop [OF stop(2)] q]]) simp
qed

lemma servers_reach_inv: "servers_reach s t \<Longrightarrow> servers_inv n s \<Longrightarrow> servers_inv n t"
  by (induction rule: servers_reach.induct) (auto intro: servers_step_inv)

lemma own_step_rtsp:
  assumes "own_step s t" "servers_inv n s"
  shows "bs_rtsp t = bs_rtsp s"
  using assms(1)
proof (cases rule: own_step.cases)
  case end_thread
  then show ?thesis using queue_thread_end_result [OF assms(2)] by (auto split: if_splits)
qed (simp_all add: on_manager_def)

lemma io_step_rtsp:
  assumes "io_step s t"
  shows "bs_rtsp t = bs_rtsp s"
  using assms
  by (cases rule: io_step.cases)
    (simp_all add: handle_accept_def start_accept_def create_connection_def on_manager_def offer_connection_def Let_def split: prod.splits)

lemma servers_step_rtsp: "servers_step s t \<Longrightarrow> servers_inv n s \<Longrightarrow> bs_rtsp t = bs_rtsp s"
  by (cases rule: servers_step.cases) (auto dest: own_step_rtsp io_step_rtsp simp: on_manager_def)

lemma servers_reach_rtsp: "servers_reach s t \<Longrightarrow> servers_inv n s \<Longrightarrow> bs_rtsp t = bs_rtsp s"
  by (induction rule: servers_reach.induct) (auto dest: servers_step_rtsp servers_reach_inv)

section \<open>Starting\<close>

lemmas start_defs = ServerManager_start_def Servers_init_def create_connection_def on_manager_def DebugServer_start_def
  SocketServer_start_def SocketServer_stop_def AudioStreamServer_start_def
  start_accept_def offer_connection_def requestConnection_def ServerManager_init_def notifyReady_def wake_def Let_def

definition servers_started :: "listen_result \<Rightarrow> bool \<Rightarrow> int \<Rightarrow> socket_config \<Rightarrow> bool \<Rightarrow> bool \<Rightarrow> servers" where
  "servers_started lr rtsp pid cfg useDebugServer spawn = ServerManager_start lr rtsp pid cfg useDebugServer spawn Servers_init"

text \<open>Starting the local client changes nothing else.\<close>

lemma spawn_frame [simp]:
  "bs_conf (spawnPythonClient pid s) = bs_conf s" "bs_conf (spawnLocalClient pid cfg s) = bs_conf s"
  "bs_conf (if b then spawnPythonClient pid s else s) = bs_conf s" "bs_conf (if b then spawnLocalClient pid cfg s else s) = bs_conf s"
  "bs_thread (spawnPythonClient pid s) = bs_thread s" "bs_thread (spawnLocalClient pid cfg s) = bs_thread s"
  "bs_thread (if b then spawnPythonClient pid s else s) = bs_thread s" "bs_thread (if b then spawnLocalClient pid cfg s else s) = bs_thread s"
  "bs_list (spawnPythonClient pid s) = bs_list s" "bs_list (spawnLocalClient pid cfg s) = bs_list s"
  "bs_list (if b then spawnPythonClient pid s else s) = bs_list s" "bs_list (if b then spawnLocalClient pid cfg s else s) = bs_list s"
  "bs_sync (spawnPythonClient pid s) = bs_sync s" "bs_sync (spawnLocalClient pid cfg s) = bs_sync s"
  "bs_sync (if b then spawnPythonClient pid s else s) = bs_sync s" "bs_sync (if b then spawnLocalClient pid cfg s else s) = bs_sync s"
  "bs_waiting (spawnPythonClient pid s) = bs_waiting s" "bs_waiting (spawnLocalClient pid cfg s) = bs_waiting s"
  "bs_waiting (if b then spawnPythonClient pid s else s) = bs_waiting s" "bs_waiting (if b then spawnLocalClient pid cfg s else s) = bs_waiting s"
  "bs_ready (spawnPythonClient pid s) = bs_ready s" "bs_ready (spawnLocalClient pid cfg s) = bs_ready s"
  "bs_ready (if b then spawnPythonClient pid s else s) = bs_ready s" "bs_ready (if b then spawnLocalClient pid cfg s else s) = bs_ready s"
  "bs_console (spawnPythonClient pid s) = bs_console s" "bs_console (spawnLocalClient pid cfg s) = bs_console s"
  "bs_console (if b then spawnPythonClient pid s else s) = bs_console s" "bs_console (if b then spawnLocalClient pid cfg s else s) = bs_console s"
  "bs_rtsp (spawnPythonClient pid s) = bs_rtsp s" "bs_rtsp (spawnLocalClient pid cfg s) = bs_rtsp s"
  "bs_rtsp (if b then spawnPythonClient pid s else s) = bs_rtsp s" "bs_rtsp (if b then spawnLocalClient pid cfg s else s) = bs_rtsp s"
  "bs_audioThread (spawnPythonClient pid s) = bs_audioThread s" "bs_audioThread (spawnLocalClient pid cfg s) = bs_audioThread s"
  "bs_audioThread (if b then spawnPythonClient pid s else s) = bs_audioThread s" "bs_audioThread (if b then spawnLocalClient pid cfg s else s) = bs_audioThread s"
  by (simp_all add: spawnPythonClient_def spawnLocalClient_def)

lemma started_inv:
  "servers_inv (if lr = Listens then 1 else 0) (servers_started lr rtsp pid cfg dbg spawn) \<and>
   bs_rtsp (servers_started lr rtsp pid cfg dbg spawn) = rtsp"
proof -
  let ?s = "servers_started lr rtsp pid cfg dbg spawn"
  have m: "bs_man ?s = ServerManager_init\<lparr>sv_run := True,
      sv_store := (if dbg then [Connection_init Console FULL_CONTROL] else []) @ (if lr = Listens then [Connection_init Socket FULL_CONTROL] else []),
      sv_connectionQueue := (if dbg then [0] else [])\<rparr>"
    by (cases lr; cases dbg; cases rtsp; simp add: servers_started_def start_defs MAX_CONNECTIONS_def)
  have f: "bs_waiting ?s = (if lr = Listens then [if dbg then 1 else 0] else [])" "bs_ready ?s = []"
    "bs_console ?s = (if dbg then Some 0 else None)" "bs_rtsp ?s = rtsp" "list_ok ?s"
    "qc_sent (bs_conf ?s) = []" "qc_handled (bs_conf ?s) = []"
    by (cases lr; cases dbg; cases rtsp; simp add: servers_started_def start_defs MAX_CONNECTIONS_def list_ok_def)+
  have "queue_inv (bs_conf ?s)"
    unfolding queue_inv_def m f by (auto simp: server_ok_def all_open_def ServerManager_init_def)
  moreover have "flight_ok (if lr = Listens then 1 else 0) ?s"
    unfolding flight_ok_def in_flight_def m f by (auto simp: ServerManager_init_def)
  moreover have "console_ok ?s"
    unfolding console_ok_def in_flight_def closed_or_listed_def m f by (auto simp: Connection_init_def)
  ultimately show ?thesis using f by (simp add: servers_inv_def)
qed

section \<open>Properties\<close>

text \<open>
  C27: The listener is never deaf and never doubled. However clients, requests, the queue thread and
  the handlers of the IO service interleave, a listener that could bind its port has exactly one
  accept outstanding, one that could not has none; the socket it waits for is new to the manager,
  no client is offered twice, and what is offered is not connected yet.
\<close>

theorem one_accept_outstanding:
  assumes "servers_reach (servers_started lr rtsp pid cfg dbg spawn) s"
  shows "length (bs_waiting s @ map fst (bs_ready s)) = (if lr = Listens then 1 else 0) \<and>
    (\<forall>p\<in>set (bs_waiting s @ map fst (bs_ready s)). p \<notin> set (sv_connectionQueue (bs_man s)) \<and> Some p \<notin> set (sv_slots (bs_man s))) \<and>
    distinct (sv_connectionQueue (bs_man s)) \<and>
    (\<forall>p\<in>set (sv_connectionQueue (bs_man s)). Some p \<notin> set (sv_slots (bs_man s))) \<and> server_ok (bs_man s)"
proof -
  have "servers_inv (if lr = Listens then 1 else 0) s"
    using servers_reach_inv [OF assms] started_inv by blast
  then show ?thesis unfolding servers_inv_def flight_ok_def in_flight_def queue_inv_def by blast
qed

theorem one_accept_outstanding_witness:
  "length (bs_waiting (servers_started Listens True 7 SocketServerConfig_init True True)) = 1"
  using one_accept_outstanding [OF servers_reach.here, of Listens True 7 SocketServerConfig_init True True]
  by (simp add: servers_started_def start_defs)

text \<open>
  The queue thread ends as it should exactly if the RTSP server could be created when the program
  started. If it could, the acceptor is closed, the console disconnected, the audio thread joined
  and the main thread told. If it could not, because its port was taken say, the program runs as
  usual; but when it stops, joining the audio thread that never started throws in the queue
  thread, nobody catches it, and the process is terminated before anything is saved.
\<close>

theorem servers_end_iff_rtsp:
  assumes "servers_reach (servers_started lr rtsp pid cfg dbg spawn) s"
    and "qc_phase (bs_conf s) = Thread_Ended" "\<not> sy_stopped (bs_sync s)"
  shows "if rtsp
    then \<exists>t. queue_thread_end s = Inr t \<and> sy_stopped (bs_sync t) \<and> \<not> bs_open t \<and> \<not> bs_audioThread t \<and> bs_watch t = Some 1 \<and>
      (\<forall>p. bs_console s = Some p \<longrightarrow> \<not> cn_open (sv_store (bs_man t) ! p))
    else queue_thread_end s = Inl System_Error"
proof -
  obtain n where i: "servers_inv n s" and r: "bs_rtsp s = rtsp"
    using servers_reach_inv [OF assms(1)] servers_reach_rtsp [OF assms(1)] started_inv by blast
  show ?thesis using queue_thread_end_result [OF i assms(3)] r by (auto split: if_splits)
qed

text \<open>A manager that was stopped at once, for witnesses.\<close>

definition demo_ended :: "bool \<Rightarrow> servers" where
  "demo_ended rtsp = (let s = servers_started Port_Taken rtsp 0 SocketServerConfig_init False False
     in s\<lparr>bs_conf := (bs_conf s)\<lparr>qc_man := (bs_man s)\<lparr>sv_run := False\<rparr>, qc_tries := 1, qc_phase := Thread_Ended\<rparr>\<rparr>)"

lemma demo_ended_reached: "servers_reach (servers_started Port_Taken rtsp 0 SocketServerConfig_init False False) (demo_ended rtsp)"
proof -
  let ?s = "servers_started Port_Taken rtsp 0 SocketServerConfig_init False False"
  have f: "bs_man ?s = ServerManager_init\<lparr>sv_run := True\<rparr>" "qc_tries (bs_conf ?s) = 0" "bs_thread ?s" "qc_phase (bs_conf ?s) = Loop_Head"
    by (cases rtsp; simp add: servers_started_def start_defs SocketServerConfig_init_def)+
  have m: "server_stop False (bs_man ?s) = Inr ((bs_man ?s)\<lparr>sv_run := False\<rparr>)"
    by (simp add: f server_stop_def disconnectClients_def ServerManager_init_def MAX_CONNECTIONS_def wake_def upt_rec numeral_eq_Suc)
  let ?t = "?s\<lparr>bs_conf := (bs_conf ?s)\<lparr>qc_man := (bs_man ?s)\<lparr>sv_run := False\<rparr>, qc_tries := qc_tries (bs_conf ?s) + 1\<rparr>\<rparr>"
  have r: "servers_reach ?s ?t" by (rule servers_reach.step [OF servers_reach.here servers_step.stop [OF m]])
  have l: "thread_step (bs_conf ?t) ((bs_conf ?t)\<lparr>qc_phase := Thread_Ended, qc_man := (qc_man (bs_conf ?t))\<lparr>sv_queue := []\<rparr>\<rparr>)"
    by (rule thread_step.leave) (simp_all add: f)
  have "servers_step ?t (?t\<lparr>bs_conf := (bs_conf ?t)\<lparr>qc_phase := Thread_Ended, qc_man := (qc_man (bs_conf ?t))\<lparr>sv_queue := []\<rparr>\<rparr>\<rparr>)"
    by (rule servers_step.own [OF own_step.queue_thread [OF _ l]]) (simp add: f)
  moreover have "?t\<lparr>bs_conf := (bs_conf ?t)\<lparr>qc_phase := Thread_Ended, qc_man := (qc_man (bs_conf ?t))\<lparr>sv_queue := []\<rparr>\<rparr>\<rparr> = demo_ended rtsp"
    by (simp add: demo_ended_def Let_def f ServerManager_init_def)
  ultimately show ?thesis using servers_reach.step [OF r] by simp
qed

theorem servers_end_iff_rtsp_witness:
  "queue_thread_end (demo_ended False) = Inl System_Error \<and> (\<exists>t. queue_thread_end (demo_ended True) = Inr t \<and> sy_stopped (bs_sync t))"
  using servers_end_iff_rtsp [OF demo_ended_reached, of False] servers_end_iff_rtsp [OF demo_ended_reached, of True]
  by (auto simp: demo_ended_def Let_def servers_started_def start_defs SocketServerConfig_init_def)

text \<open>
  The local client is started at most once, and exactly if the configuration or the command line
  asks for it, whatever else fails.
\<close>

lemma forks_frame [simp]:
  "bs_forks (DebugServer_start s) = bs_forks s" "bs_forks (AudioStreamServer_start s) = bs_forks s"
  "bs_forks (start_accept s) = bs_forks s" "bs_forks (SocketServer_stop s) = bs_forks s"
  "bs_forks (on_manager f s) = bs_forks s" "bs_forks (snd (create_connection k s)) = bs_forks s"
  by (auto simp: DebugServer_start_def AudioStreamServer_start_def start_accept_def create_connection_def on_manager_def
      SocketServer_stop_def offer_connection_def Let_def split: option.splits prod.splits)

lemma SocketServer_start_forks:
  "bs_forks (SocketServer_start lr pid cfg s) = bs_forks s + (if sc_spawnLocalClient cfg then 1 else 0)"
  by (cases lr) (simp_all add: SocketServer_start_def spawnPythonClient_def Let_def)

theorem local_client_once:
  "bs_forks (servers_started lr rtsp pid cfg dbg spawn) = (if sc_spawnLocalClient cfg \<or> spawn then 1 else 0)"
proof -
  have "bs_list (on_manager f s) = bs_list s" for f s by (simp add: on_manager_def)
  then show ?thesis
    by (cases dbg) (simp_all add: servers_started_def ServerManager_start_def Servers_init_def Let_def spawnLocalClient_def
        spawnPythonClient_def create_connection_def SocketServer_start_forks)
qed

text \<open>
  A closed acceptor is never left alone. \<open>handle_accept\<close> asks for the next accept even when it is
  called because the acceptor was closed, and that accept fails at once: from the stop of the
  listener on, the IO thread runs the handler over and over, each time making one more socket
  that nobody will use, until \<open>exit\<close> stops the IO service.
\<close>

lemma closed_round:
  assumes "bs_waiting s = [p]" "bs_ready s = []" "\<not> bs_open s"
  shows "\<exists>t. (io_step ^^ 2) s t \<and> bs_waiting t = [length (sv_store (bs_man s))] \<and> bs_ready t = [] \<and> \<not> bs_open t \<and>
    bs_man t = (bs_man s)\<lparr>sv_store := sv_store (bs_man s) @ [Connection_init Socket FULL_CONTROL]\<rparr>"
proof -
  let ?u = "s\<lparr>bs_waiting := [], bs_ready := bs_ready s @ [(p, True)]\<rparr>"
  have "io_step s ?u" by (rule io_step.complete [OF assms(1)]) simp
  moreover have "io_step ?u (handle_accept p True (?u\<lparr>bs_ready := []\<rparr>))" by (rule io_step.run_handler) (simp add: assms(2))
  ultimately have "(io_step ^^ 2) s (handle_accept p True (?u\<lparr>bs_ready := []\<rparr>))" by (auto simp: numeral_2_eq_2 relcomppI)
  then show ?thesis
    using assms
    by (intro exI [of _ "handle_accept p True (?u\<lparr>bs_ready := []\<rparr>)"])
      (simp add: handle_accept_def start_accept_def create_connection_def on_manager_def)
qed

theorem closed_acceptor_spins:
  assumes "servers_reach (servers_started Listens rtsp pid cfg dbg spawn) s" "\<not> bs_open s" "bs_waiting s \<noteq> []"
  shows "\<exists>t. (io_step ^^ (2 * n)) s t \<and> \<not> bs_open t \<and> bs_waiting t \<noteq> [] \<and>
    bs_man t = (bs_man s)\<lparr>sv_store := sv_store (bs_man s) @ replicate n (Connection_init Socket FULL_CONTROL)\<rparr>"
proof -
  have "servers_inv 1 s" using servers_reach_inv [OF assms(1)] started_inv [of Listens] by auto
  then have "length (bs_waiting s) + length (bs_ready s) = 1" by (simp add: servers_inv_def flight_ok_def in_flight_def)
  then obtain p where "bs_waiting s = [p]" "bs_ready s = []" using assms(3) by (cases "bs_waiting s") auto
  then have "\<exists>t. (io_step ^^ (2 * n)) s t \<and> \<not> bs_open t \<and> bs_waiting t \<noteq> [] \<and> (\<exists>q. bs_waiting t = [q]) \<and> bs_ready t = [] \<and>
    bs_man t = (bs_man s)\<lparr>sv_store := sv_store (bs_man s) @ replicate n (Connection_init Socket FULL_CONTROL)\<rparr>"
  proof (induction n)
    case 0
    with assms show ?case by auto
  next
    case (Suc n)
    then obtain t q where t: "(io_step ^^ (2 * n)) s t" "\<not> bs_open t" "bs_waiting t = [q]" "bs_ready t = []"
      "bs_man t = (bs_man s)\<lparr>sv_store := sv_store (bs_man s) @ replicate n (Connection_init Socket FULL_CONTROL)\<rparr>" by auto
    obtain u where u: "(io_step ^^ 2) t u" "bs_waiting u = [length (sv_store (bs_man t))]" "bs_ready u = []" "\<not> bs_open u"
      "bs_man u = (bs_man t)\<lparr>sv_store := sv_store (bs_man t) @ [Connection_init Socket FULL_CONTROL]\<rparr>"
      using closed_round [OF t(3,4,2)] by blast
    have "(io_step ^^ (2 * n + 2)) s u" using t(1) u(1) unfolding relpowp_add by blast
    then show ?case using u t(5) by (intro exI [of _ u]) (simp add: replicate_append_same add.commute)
  qed
  then show ?thesis by blast
qed

text \<open>A listening program whose queue thread has closed the acceptor, for a witness.\<close>

definition demo_closed :: servers where
  "demo_closed = (let s = servers_started Listens True 0 SocketServerConfig_init False False
     in s\<lparr>bs_conf := (bs_conf s)\<lparr>qc_man := (bs_man s)\<lparr>sv_run := False\<rparr>, qc_tries := 1, qc_phase := Thread_Ended\<rparr>, bs_open := False,
          bs_watch := Some 1, bs_audioThread := False, bs_sync := notifyDeinit (bs_sync s)\<rparr>)"

lemma demo_closed_reached: "servers_reach (servers_started Listens True 0 SocketServerConfig_init False False) demo_closed"
proof -
  let ?s = "servers_started Listens True 0 SocketServerConfig_init False False"
  have f: "bs_man ?s = ServerManager_init\<lparr>sv_run := True, sv_store := [Connection_init Socket FULL_CONTROL]\<rparr>"
    "qc_tries (bs_conf ?s) = 0" "bs_thread ?s" "qc_phase (bs_conf ?s) = Loop_Head" "bs_list ?s = [Socket_Server, Audio_Server]"
    "bs_console ?s = None" "bs_audioThread ?s" "bs_open ?s" "bs_failed ?s = None" "\<not> sy_stopped (bs_sync ?s)"
    by (simp_all add: servers_started_def start_defs SocketServerConfig_init_def)
  have m: "server_stop False (bs_man ?s) = Inr ((bs_man ?s)\<lparr>sv_run := False\<rparr>)"
    by (simp add: f server_stop_def disconnectClients_def ServerManager_init_def MAX_CONNECTIONS_def wake_def upt_rec numeral_eq_Suc)
  let ?t = "?s\<lparr>bs_conf := (bs_conf ?s)\<lparr>qc_man := (bs_man ?s)\<lparr>sv_run := False\<rparr>, qc_tries := qc_tries (bs_conf ?s) + 1\<rparr>\<rparr>"
  let ?u = "?t\<lparr>bs_conf := (bs_conf ?t)\<lparr>qc_phase := Thread_Ended, qc_man := (qc_man (bs_conf ?t))\<lparr>sv_queue := []\<rparr>\<rparr>\<rparr>"
  have "servers_reach ?s ?t" by (rule servers_reach.step [OF servers_reach.here servers_step.stop [OF m]])
  moreover have "thread_step (bs_conf ?t) ((bs_conf ?t)\<lparr>qc_phase := Thread_Ended, qc_man := (qc_man (bs_conf ?t))\<lparr>sv_queue := []\<rparr>\<rparr>)"
    by (rule thread_step.leave) (simp_all add: f)
  then have "own_step ?t ?u" by (rule own_step.queue_thread [rotated]) (simp add: f)
  then have "servers_step ?t ?u" by (rule servers_step.own)
  ultimately have r: "servers_reach ?s ?u" by (rule servers_reach.step)
  have "queue_thread_end ?u = Inr demo_closed"
    by (simp add: queue_thread_end_def f SocketServer_stop_def AudioStreamServer_stop_def demo_closed_def Let_def ServerManager_init_def)
  then have "own_step ?u demo_closed" by (rule own_step.end_thread [rotated 3]) (simp_all add: f)
  then have "servers_step ?u demo_closed" by (rule servers_step.own)
  with r show ?thesis by (rule servers_reach.step)
qed

theorem closed_acceptor_spins_witness:
  "\<exists>t. (io_step ^^ 20) demo_closed t \<and> length (sv_store (bs_man t)) = 11"
proof -
  have "\<not> bs_open demo_closed" "bs_waiting demo_closed \<noteq> []" "length (sv_store (bs_man demo_closed)) = 1"
    by (simp_all add: demo_closed_def Let_def servers_started_def start_defs SocketServerConfig_init_def)
  with closed_acceptor_spins [OF demo_closed_reached, of 10] show ?thesis by auto
qed

end
