(* ===== verification/Main_Program.thy ===== *)
theory Main_Program
  imports Client_Calls Servers
begin

text \<open>
  The process: \<open>main\<close>, the signal handlers and \<open>exit\<close> (src/src/piscan_server.cpp), over the
  models of the scanner, the demodulator, the servers and the saved state. The main thread is a
  program counter over the statements of \<open>main\<close>, one of which it executes at a time; the scanner's
  thread, the queue thread, the IO thread, the clients and the signals move between them.
\<close>

section \<open>State\<close>

datatype ending = Exited int | Terminated | Crashed fault

text \<open>The statements of \<open>main\<close> from the first \<open>try\<close> on, and of \<open>exit\<close>.\<close>

datatype main_point =
    Start_Scanner | Start_Servers | Start_Demod
  | Wait_Ready_Scanner | Wait_Ready_Servers | Wait_Ready_Demod
  | Allow_Connections | Start_Scanning | Set_Running | Start_Io
  | Set_Steady | Steady_Loop | Sys_Exit
  | Stop_Scanner | Stop_Servers | Stop_Demod
  | Wait_Deinit_Scanner | Wait_Deinit_Servers | Wait_Deinit_Demod
  | Save_State | Save_Config | Exit_Stop_Io | Exit_Join_Io
  | Ended ending

datatype io_thread = Io_None | Io_Runs | Io_Joined

datatype saved_file = State_File | Config_File

text \<open>
  \<open>pr_scanThread\<close> and \<open>pr_demodInit\<close> say whether the scanner's thread was created and whether the
  front end was initialised; \<open>pr_caught\<close> whether \<open>main\<close> has caught an exception while starting,
  \<open>pr_cut\<close> while stopping; \<open>pr_files\<close> are the files written. The scanner carries the demodulator
  and its part of the saved state, as in Scanner.
\<close>

record 'pt process =
  pr_point :: main_point
  pr_sysRun :: bool
  pr_steady :: bool
  pr_caught :: bool
  pr_cut :: bool
  pr_scanner :: "('pt, demodulator) scanner"
  pr_pending :: "(nat \<times> scan_event option) list"
  pr_scanThread :: bool
  pr_demodInit :: bool
  pr_servers :: servers
  pr_config :: "'pt configuration"
  pr_state :: "'pt saved_state"
  pr_io :: io_thread
  pr_files :: "(saved_file \<times> 'pt) list"

text \<open>
  What the program finds: the property trees, its files, whether the ports are free, the process
  number of a local client, the devices, the audio outputs, whether the thread behind the tuner
  ends in time when it is told to, and which files can be written.
\<close>

record 'pt main_world =
  mw_api :: "'pt ptree_api"
  mw_fs :: file_system
  mw_databasePath :: string
  mw_configFile :: "string \<Rightarrow> 'pt json_file"
  mw_stateFile :: "string \<Rightarrow> 'pt json_file"
  mw_listen :: listen_result
  mw_rtsp :: bool
  mw_pid :: int
  mw_devs :: "sdr_device list"
  mw_begin :: "(string \<times> sdr_device) list \<Rightarrow> string \<times> sdr_device"
  mw_outdevs :: "(int \<times> int list) list"
  mw_cubic :: cubic_sdr
  mw_air :: air
  mw_post_ends :: bool
  mw_writable :: "saved_file \<Rightarrow> bool"

section \<open>The command line\<close>

datatype main_option = Opt_d | Opt_p string | Opt_f string | Opt_l

record main_options =
  mo_useDebugConsole :: bool
  mo_spawnClient :: bool
  mo_logVerbosity :: int

text \<open>\<open>atoi\<close> gives 0 for what is not a number.\<close>

definition atoi :: "string \<Rightarrow> int" where
  "atoi s = (case strtol s of Inl _ \<Rightarrow> 0 | Inr v \<Rightarrow> v)"

fun main_option_step ::
    "'pt main_world \<Rightarrow> main_option \<Rightarrow> main_options \<times> 'pt configuration \<Rightarrow> main_options \<times> 'pt configuration" where
  "main_option_step w Opt_d (mo, c) = (mo\<lparr>mo_useDebugConsole := True\<rparr>, c)"
| "main_option_step w (Opt_p path) (mo, c) = (mo, setWorkingDirectory (mw_fs w) (mw_databasePath w) path c)"
| "main_option_step w (Opt_f v) (mo, c) = (mo\<lparr>mo_logVerbosity := atoi v\<rparr>, c)"
| "main_option_step w Opt_l (mo, c) = (mo\<lparr>mo_spawnClient := True\<rparr>, c)"

text \<open>
  \<open>main\<close> up to the first \<open>try\<close>. The verbosity is read before the configuration is loaded; both
  files are looked for under the configuration's path.
\<close>

definition main_setup :: "'pt main_world \<Rightarrow> main_option list \<Rightarrow> main_options \<times> 'pt process" where
  "main_setup w opts =
     (let c0 = Configuration_init (mw_api w) (mw_databasePath w);
          (mo, c1) = fold (main_option_step w) opts
            (\<lparr>mo_useDebugConsole = False, mo_spawnClient = False, mo_logVerbosity = gc_logfileVerbosity (cf_general c0)\<rparr>, c0);
          c2 = snd (config_loadFromFile (mw_api w) (mw_configFile w (cf_configPath c1)) c1);
          st = snd (state_loadFromFile (mw_api w) (mw_stateFile w (cf_configPath c1)) (State_init (mw_api w)))
      in (mo, \<lparr>pr_point = Start_Scanner, pr_sysRun = False, pr_steady = False, pr_caught = False, pr_cut = False,
           pr_scanner = ScannerSM_init (mw_api w) (Demodulator_init (mw_cubic w) (mw_air w)) (st_scanner st),
           pr_pending = [], pr_scanThread = False, pr_demodInit = False, pr_servers = Servers_init,
           pr_config = c2, pr_state = st, pr_io = Io_None, pr_files = []\<rparr>))"

section \<open>Exceptions\<close>

text \<open>The faults that are C++ exceptions; the others end the process.\<close>

definition is_exception :: "fault \<Rightarrow> bool" where
  "is_exception f \<longleftrightarrow> f \<in> {Out_Of_Range, Invalid_Argument, Bad_Path, Bad_Function_Call, System_Error, Device_Error}"

abbreviation at_point :: "main_point \<Rightarrow> 'pt process \<Rightarrow> 'pt process" where
  "at_point q p \<equiv> p\<lparr>pr_point := q\<rparr>"

definition goto_sysexit :: "'pt process \<Rightarrow> 'pt process" where
  "goto_sysexit p = at_point Sys_Exit (p\<lparr>pr_caught := True\<rparr>)"

definition start_fault :: "fault \<Rightarrow> 'pt process \<Rightarrow> 'pt process" where
  "start_fault f p = (if is_exception f then goto_sysexit p else at_point (Ended (Crashed f)) p)"

definition stop_fault :: "fault \<Rightarrow> 'pt process \<Rightarrow> 'pt process" where
  "stop_fault f p =
     (if is_exception f then at_point Save_State (p\<lparr>pr_cut := True\<rparr>) else at_point (Ended (Crashed f)) p)"

section \<open>Signals\<close>

text \<open>\<open>stopSystem\<close> only reports whether the program runs.\<close>

definition stopSystem :: "'pt process \<Rightarrow> bool" where
  "stopSystem p = pr_steady p"

definition hardTerminate :: "'pt process \<Rightarrow> 'pt process" where
  "hardTerminate p = at_point (Ended Terminated) p"

definition sigTermHandler :: "'pt process \<Rightarrow> 'pt process" where
  "sigTermHandler p =
     (if pr_sysRun p then (let _ = stopSystem p in p\<lparr>pr_sysRun := False\<rparr>) else hardTerminate p)"

definition sigIntHandler :: "'pt process \<Rightarrow> 'pt process" where
  "sigIntHandler p = (if \<not> pr_sysRun p then hardTerminate p else p\<lparr>pr_sysRun := False\<rparr>)"

section \<open>The statements of main\<close>

text \<open>
  What \<open>ServerManager::start\<close> has done when its thread cannot be created: the servers are made, but
  none is started.
\<close>

definition servers_half_started :: "bool \<Rightarrow> bool \<Rightarrow> servers \<Rightarrow> servers" where
  "servers_half_started rtsp useDebugServer s =
     (let s1 = (if useDebugServer
                then let (p, t) = create_connection Console s in t\<lparr>bs_console := Some p, bs_list := bs_list t @ [Debug_Server]\<rparr>
                else s)
      in on_manager (\<lambda>m. m\<lparr>sv_run := True\<rparr>) (s1\<lparr>bs_rtsp := rtsp, bs_list := bs_list s1 @ [Socket_Server, Audio_Server]\<rparr>))"

text \<open>Whether the tuner's thread was started: exactly if its device could be opened.\<close>

definition tuner_runs :: "demodulator \<Rightarrow> bool" where
  "tuner_runs d \<longleftrightarrow> (case th_device (cu_thread (dr_cubic d)) of None \<Rightarrow> False | Some dev \<Rightarrow> sd_opens dev)"

abbreviation pr_demod :: "'pt process \<Rightarrow> demodulator" where
  "pr_demod p \<equiv> sn_demod (pr_scanner p)"

text \<open>
  The calls that create threads fail when \<open>fails\<close>. \<open>None\<close> is a statement that waits, or that never
  returns. Stopping a demodulator that was never initialised follows a null pointer.
\<close>

definition start_scanner :: "bool \<Rightarrow> 'pt process \<Rightarrow> 'pt process" where
  "start_scanner fails p =
     (let p1 = p\<lparr>pr_scanner := sm_start (pr_scanner p)\<rparr>
      in if fails then goto_sysexit p1 else at_point Start_Servers (p1\<lparr>pr_scanThread := True\<rparr>))"

definition start_servers :: "'pt main_world \<Rightarrow> main_options \<Rightarrow> bool \<Rightarrow> 'pt process \<Rightarrow> 'pt process" where
  "start_servers w mo fails p =
     (if fails
      then goto_sysexit (p\<lparr>pr_servers := servers_half_started (mw_rtsp w) (mo_useDebugConsole mo) (pr_servers p)\<rparr>)
      else at_point Start_Demod (p\<lparr>pr_servers := ServerManager_start (mw_listen w) (mw_rtsp w) (mw_pid w)
        (cf_socket (pr_config p)) (mo_useDebugConsole mo) (mo_spawnClient mo) (pr_servers p)\<rparr>))"

definition start_demod :: "'pt main_world \<Rightarrow> 'pt process \<Rightarrow> 'pt process" where
  "start_demod w p =
     (case Demodulator_start (st_demod (pr_state p)) (mw_devs w) (mw_begin w) (mw_outdevs w) False
             (cf_tuners (pr_config p)) (pr_demod p) of
        Inl f \<Rightarrow> start_fault f (p\<lparr>pr_demodInit := True\<rparr>)
      | Inr (tuners, d) \<Rightarrow> at_point Wait_Ready_Scanner (p\<lparr>pr_demodInit := True,
          pr_scanner := (pr_scanner p)\<lparr>sn_demod := d\<rparr>, pr_config := (pr_config p)\<lparr>cf_tuners := tuners\<rparr>\<rparr>))"

definition start_scanning :: "'pt main_world \<Rightarrow> 'pt process \<Rightarrow> 'pt process option" where
  "start_scanning w p =
     (case startScanner (mw_api w) (pr_scanner p) of
        None \<Rightarrow> None
      | Some (Inl f) \<Rightarrow> Some (start_fault f p)
      | Some (Inr s) \<Rightarrow> Some (at_point Set_Running (p\<lparr>pr_scanner := s\<rparr>)))"

definition stop_servers_call :: "'pt process \<Rightarrow> 'pt process" where
  "stop_servers_call p =
     (let s = pr_servers p
      in case server_stop False (bs_man s) of
           Inl f \<Rightarrow> stop_fault f p
         | Inr m \<Rightarrow> at_point Stop_Demod (p\<lparr>pr_servers := s\<lparr>bs_conf := (bs_conf s)\<lparr>qc_man := m,
             qc_tries := qc_tries (bs_conf s) + 1\<rparr>\<rparr>\<rparr>))"

definition stop_demod :: "'pt main_world \<Rightarrow> 'pt process \<Rightarrow> 'pt process" where
  "stop_demod w p =
     (if \<not> pr_demodInit p then at_point (Ended (Crashed Null_Deref)) p
      else case Demodulator_stop (tuner_runs (pr_demod p)) (mw_post_ends w) (st_demod (pr_state p)) (pr_demod p) of
             Inl code \<Rightarrow> at_point (Ended (Exited code)) p
           | Inr (ds, d) \<Rightarrow> at_point Wait_Deinit_Scanner (p\<lparr>pr_scanner := (pr_scanner p)\<lparr>sn_demod := d\<rparr>,
               pr_state := (pr_state p)\<lparr>st_demod := ds\<rparr>\<rparr>))"

text \<open>
  \<open>saveToFile\<close> of the state and of the configuration. Writing throws when the file cannot be
  written, and these calls stand outside every \<open>try\<close>.
\<close>

definition save_state :: "'pt main_world \<Rightarrow> 'pt process \<Rightarrow> 'pt process" where
  "save_state w p =
     (let (_, st, t) = state_saveToFile (mw_api w) ((pr_state p)\<lparr>st_scanner := sn_saved (pr_scanner p)\<rparr>);
          p1 = p\<lparr>pr_state := st\<rparr>
      in if mw_writable w State_File then at_point Save_Config (p1\<lparr>pr_files := pr_files p @ [(State_File, t)]\<rparr>)
         else at_point (Ended Terminated) p1)"

definition save_config :: "'pt main_world \<Rightarrow> 'pt process \<Rightarrow> 'pt process" where
  "save_config w p =
     (let (_, c, t) = config_saveToFile (mw_api w) (pr_config p);
          p1 = p\<lparr>pr_config := c\<rparr>
      in if mw_writable w Config_File then at_point Exit_Stop_Io (p1\<lparr>pr_files := pr_files p @ [(Config_File, t)]\<rparr>)
         else at_point (Ended Terminated) p1)"

text \<open>Joining the IO thread throws when it was never created, and nobody catches that.\<close>

definition exit_join :: "'pt process \<Rightarrow> 'pt process" where
  "exit_join p =
     (if pr_io p = Io_Runs then at_point (Ended (Exited 0)) (p\<lparr>pr_io := Io_Joined\<rparr>)
      else at_point (Ended Terminated) p)"

fun wait_for :: "bool \<Rightarrow> main_point \<Rightarrow> 'pt process \<Rightarrow> 'pt process option" where
  "wait_for flag q p = (if flag then Some (at_point q p) else None)"

fun main_next :: "'pt main_world \<Rightarrow> main_options \<Rightarrow> bool \<Rightarrow> main_point \<Rightarrow> 'pt process \<Rightarrow> 'pt process option" where
  "main_next w mo fails Start_Scanner p = Some (start_scanner fails p)"
| "main_next w mo fails Start_Servers p = Some (start_servers w mo fails p)"
| "main_next w mo fails Start_Demod p = Some (start_demod w p)"
| "main_next w mo fails Wait_Ready_Scanner p = wait_for (waitReady_returns (sn_sync (pr_scanner p))) Wait_Ready_Servers p"
| "main_next w mo fails Wait_Ready_Servers p = wait_for (waitReady_returns (bs_sync (pr_servers p))) Wait_Ready_Demod p"
| "main_next w mo fails Wait_Ready_Demod p = wait_for (waitReady_returns (dr_sync (pr_demod p))) Allow_Connections p"
| "main_next w mo fails Allow_Connections p =
     Some (at_point Start_Scanning (p\<lparr>pr_servers := on_manager allowConnections (pr_servers p)\<rparr>))"
| "main_next w mo fails Start_Scanning p = start_scanning w p"
| "main_next w mo fails Set_Running p = Some (at_point Start_Io (p\<lparr>pr_sysRun := True\<rparr>))"
| "main_next w mo fails Start_Io p =
     Some (if fails then goto_sysexit p else at_point Set_Steady (p\<lparr>pr_io := Io_Runs\<rparr>))"
| "main_next w mo fails Set_Steady p = Some (at_point Steady_Loop (p\<lparr>pr_steady := True\<rparr>))"
| "main_next w mo fails Steady_Loop p = wait_for (\<not> pr_sysRun p) Sys_Exit p"
| "main_next w mo fails Sys_Exit p = Some (at_point Stop_Scanner (p\<lparr>pr_steady := False\<rparr>))"
| "main_next w mo fails Stop_Scanner p =
     Some (at_point Stop_Servers (p\<lparr>pr_scanner := perform stopScanner (pr_scanner p)\<rparr>))"
| "main_next w mo fails Stop_Servers p = Some (stop_servers_call p)"
| "main_next w mo fails Stop_Demod p = Some (stop_demod w p)"
| "main_next w mo fails Wait_Deinit_Scanner p = wait_for (waitDeinit_returns (sn_sync (pr_scanner p))) Wait_Deinit_Servers p"
| "main_next w mo fails Wait_Deinit_Servers p = wait_for (waitDeinit_returns (bs_sync (pr_servers p))) Wait_Deinit_Demod p"
| "main_next w mo fails Wait_Deinit_Demod p = wait_for (waitDeinit_returns (dr_sync (pr_demod p))) Save_State p"
| "main_next w mo fails Save_State p = Some (save_state w p)"
| "main_next w mo fails Save_Config p = Some (save_config w p)"
| "main_next w mo fails Exit_Stop_Io p = Some (at_point Exit_Join_Io p)"
| "main_next w mo fails Exit_Join_Io p = Some (exit_join p)"
| "main_next w mo fails (Ended e) p = None"

section \<open>The process\<close>

definition ended :: "'pt process \<Rightarrow> bool" where
  "ended p \<longleftrightarrow> (\<exists>e. pr_point p = Ended e)"

text \<open>
  What a client asks of the scanner and of the demodulator. Until the process has ended: the main thread,
  the scanner's engine (an exception in it, as any other fault, ends the process), the requests
  of clients in their two halves, the servers' threads, the IO service, the signals.
\<close>

definition client_requests :: "('pt, demodulator) scan_request set" where
  "client_requests = {startScan} \<union> range holdScan \<union> {manualEntry f md | f md. True}"

definition client_settings :: "(demodulator \<Rightarrow> demodulator) set" where
  "client_settings = range setTunerGain \<union> range setSquelch"

inductive process_step :: "'pt main_world \<Rightarrow> main_options \<Rightarrow> 'pt process \<Rightarrow> 'pt process \<Rightarrow> bool" for w mo where
  main: "main_next w mo fails (pr_point p) p = Some q \<Longrightarrow> process_step w mo p q"
| scanner: "\<not> ended p \<Longrightarrow> pr_scanThread p \<Longrightarrow> program_env env \<Longrightarrow> sm_run (pr_scanner p) \<Longrightarrow> eventGenerated (pr_scanner p) \<Longrightarrow>
    scanner_engine env (pr_scanner p) = Some (Inr s) \<Longrightarrow> process_step w mo p (p\<lparr>pr_scanner := s\<rparr>)"
| scanner_faults: "\<not> ended p \<Longrightarrow> pr_scanThread p \<Longrightarrow> program_env env \<Longrightarrow> sm_run (pr_scanner p) \<Longrightarrow> eventGenerated (pr_scanner p) \<Longrightarrow>
    scanner_engine env (pr_scanner p) = Some (Inl f) \<Longrightarrow> process_step w mo p (at_point (Ended (Crashed f)) p)"
| request: "\<not> ended p \<Longrightarrow> bs_thread (pr_servers p) \<Longrightarrow> r \<in> client_requests \<Longrightarrow>
    issue_request r (pr_scanner p, pr_pending p) = (s, pend) \<Longrightarrow>
    process_step w mo p (p\<lparr>pr_scanner := s, pr_pending := pend\<rparr>)"
| deliver: "\<not> ended p \<Longrightarrow> (n, d) \<in> set (pr_pending p) \<Longrightarrow>
    process_step w mo p (p\<lparr>pr_scanner := ExternalEvent n d (pr_scanner p), pr_pending := remove1 (n, d) (pr_pending p)\<rparr>)"
| setting: "\<not> ended p \<Longrightarrow> bs_thread (pr_servers p) \<Longrightarrow> f \<in> client_settings \<Longrightarrow>
    process_step w mo p (p\<lparr>pr_scanner := (pr_scanner p)\<lparr>sn_demod := f (pr_demod p)\<rparr>\<rparr>)"
| servers: "\<not> ended p \<Longrightarrow> bs_thread (pr_servers p) \<Longrightarrow> own_step (pr_servers p) s \<Longrightarrow>
    process_step w mo p (p\<lparr>pr_servers := s\<rparr>)"
| servers_fault: "\<not> ended p \<Longrightarrow> bs_failed (pr_servers p) = Some f \<or> qc_phase (bs_conf (pr_servers p)) = Aborted f \<Longrightarrow>
    process_step w mo p (at_point (Ended (Crashed f)) p)"
| io: "\<not> ended p \<Longrightarrow> bs_thread (pr_servers p) \<Longrightarrow> pr_io p = Io_Runs \<Longrightarrow> io_step (pr_servers p) s \<Longrightarrow> process_step w mo p (p\<lparr>pr_servers := s\<rparr>)"
| sigint: "\<not> ended p \<Longrightarrow> process_step w mo p (sigIntHandler p)"
| sigterm: "\<not> ended p \<Longrightarrow> process_step w mo p (sigTermHandler p)"

inductive process_reach :: "'pt main_world \<Rightarrow> main_option list \<Rightarrow> 'pt process \<Rightarrow> bool" for w opts where
  start: "process_reach w opts (snd (main_setup w opts))"
| step: "process_reach w opts p \<Longrightarrow> process_step w (fst (main_setup w opts)) p q \<Longrightarrow> process_reach w opts q"

inductive_cases process_step_cases: "process_step w mo p q"

section \<open>The life of the scanner's thread\<close>

text \<open>
  A second interpretation of the generic machine's contract: once the scanner has given notice
  that it stopped, its engine does not run any more and the database has been written.
\<close>

definition scanner_life :: "('pt, 'd) scanner \<Rightarrow> bool" where
  "scanner_life s \<longleftrightarrow> (sy_stopped (sn_sync s) \<longrightarrow> \<not> sm_run s \<and> sn_written s \<noteq> None) \<and>
     (currentState s = ST_STOPPED \<longrightarrow> sn_written s \<noteq> None)"

definition not_stopped_event :: "nat \<Rightarrow> scan_event option \<Rightarrow> bool" where
  "not_stopped_event n d \<longleftrightarrow> n \<noteq> ST_STOPPED"

definition life_same :: "('pt, 'd) scanner \<Rightarrow> ('pt, 'd) scanner \<Rightarrow> bool" where
  "life_same s s' \<longleftrightarrow> sn_sync s' = sn_sync s \<and> sn_written s' = sn_written s \<and> sm_run s' = sm_run s \<and>
     currentState s' \<in> {ST_SCAN, ST_HOLD, ST_RECEIVE, ST_MANUAL}"

lemma life_same_keeps: "life_same s s' \<Longrightarrow> scanner_life s \<Longrightarrow> scanner_life s' \<and> currentState s' < 7"
  by (auto simp: life_same_def scanner_life_def st_defs)

lemma ST_Scan_life:
  assumes "ST_Scan env s = Some (Inr s')"
  shows "life_same s s'"
proof (cases "sl_size (sn_systems s) = 0")
  case True
  with assms show ?thesis by (auto simp: ST_Scan_def Let_def life_same_def split: if_splits)
next
  case False
  let ?s1 = "if state_changed s then s\<lparr>sn_squelchHits := 0\<rparr> else s"
  have "sl_size (sn_systems ?s1) \<noteq> 0" using False by simp
  with assms(1) obtain s2 s3 s4 where s2: "enableAudioOut env False ?s1 = Inr s2"
    and s3: "broadcast_if (state_changed s2) ((set_context_state SCAN s2)\<lparr>sn_manualMode := False, sn_externalHold := False\<rparr>) = Inr s3"
    and s4: "(if sn_squelchHits s3 = 0 \<or> state_changed s3 then take_next env s3 else ok s3) = Some (Inr s4)"
    and s': "scan_probe env s4 = Inr s'"
    by (auto simp: ST_Scan_def Let_def bind_outcome_ok_iff bind_result_Inr_iff)
  obtain d where f2: "s2 = ?s1\<lparr>sn_demod := d\<rparr>" using enableAudioOut_frame [OF s2] by blast
  obtain c os where f3: "s3 = ((set_context_state SCAN s2)\<lparr>sn_manualMode := False, sn_externalHold := False\<rparr>)
      \<lparr>sn_context := c, sn_out := os\<rparr>"
    using broadcast_frame [OF s3] by blast
  have f4: "sn_sync s4 = sn_sync s3 \<and> sn_written s4 = sn_written s3 \<and> sm_run s4 = sm_run s3"
  proof (cases "sn_squelchHits s3 = 0 \<or> state_changed s3")
    case True
    with s4 show ?thesis by (auto dest!: take_next_frame)
  next
    case False
    with s4 show ?thesis by simp
  qed
  obtain n e h where "n = ST_RECEIVE \<or> n = ST_SCAN" "s' = InternalEvent n None (s4\<lparr>sn_demod := e, sn_squelchHits := h\<rparr>)"
    using scan_probe_next [OF s'] by blast
  then show ?thesis using f4 f3 f2 by (auto simp: life_same_def set_context_state_def)
qed

lemma ST_Hold_life:
  assumes "ST_Hold env s = Some (Inr s')" "currentState s = ST_HOLD"
  shows "life_same s s'"
proof -
  obtain e sl h d c os b where s': "s' = hold_next (ev_now env) b e (s\<lparr>sn_currentEntry := Some e, sn_systems := sl,
      sn_holdIndex := h, sn_demod := d, sn_context := c, sn_out := sn_out s @ map ScannerContext_copy os\<rparr>)"
    using ST_Hold_frame [OF assms(1)] by blast
  show ?thesis
    using hold_next_cases [of "ev_now env" b e "s\<lparr>sn_currentEntry := Some e, sn_systems := sl,
      sn_holdIndex := h, sn_demod := d, sn_context := c, sn_out := sn_out s @ map ScannerContext_copy os\<rparr>"] assms(2)
    by (auto simp: s' life_same_def)
qed

lemma ST_Receive_life: "ST_Receive env s = Some (Inr s') \<Longrightarrow> life_same s s'"
  by (drule ST_Receive_frame) (auto simp: life_same_def)

lemma ST_Manual_life: "ST_Manual env d s = Some (Inr s') \<Longrightarrow> life_same s s'"
  by (auto simp: ST_Manual_def life_same_def Let_def split: option.splits scan_event.splits)

lemma ST_Load_life:
  "ST_Load env s = Some (Inr s') \<Longrightarrow> currentState s = ST_LOAD \<Longrightarrow> scanner_life s' \<and> currentState s' < 7"
  by (auto simp: ST_Load_def bind_result_Inr_iff scanner_life_def notifyReady_def st_defs)

lemma ST_SaveAll_life:
  "ST_SaveAll env s = Some (Inr s') \<Longrightarrow> scanner_life s \<Longrightarrow> scanner_life s' \<and> currentState s' < 7"
  by (auto simp: ST_SaveAll_def bind_result_Inr_iff scanner_life_def st_defs)

lemma ST_Stopped_life:
  "ST_Stopped s = Some (Inr s') \<Longrightarrow> currentState s = ST_STOPPED \<Longrightarrow> scanner_life s \<Longrightarrow> scanner_life s' \<and> currentState s' < 7"
  by (auto simp: ST_Stopped_def sm_stop_def scanner_life_def st_defs)

lemma scanner_life_fun:
  assumes "currentState s < 7" "scanner_life s"
    and run: "(scanner_map env ! currentState s) (pEventData s) (s\<lparr>pEventData := None, eventGenerated := False\<rparr>) = Some (Inr s')"
  shows "scanner_life s' \<and> currentState s' < 7"
proof -
  let ?s = "s\<lparr>pEventData := None, eventGenerated := False\<rparr>"
  have l: "scanner_life ?s" using assms(2) by (simp add: scanner_life_def)
  show ?thesis
    using states_below_7 [OF assms(1)] run l life_same_keeps [OF ST_Scan_life, of env ?s s'] life_same_keeps [OF ST_Hold_life, of env ?s s']
      life_same_keeps [OF ST_Receive_life, of env ?s s'] life_same_keeps [OF ST_Manual_life, of env "pEventData s" ?s s']
      ST_Load_life [of env ?s s'] ST_SaveAll_life [of env ?s s'] ST_Stopped_life [of ?s s']
    by auto
qed

interpretation life: state_machine 7 "range scanner_map" scanner_requests scanner_life not_stopped_event
proof unfold_locales
  show "(7::nat) \<le> EVENT_IGNORED" by (simp add: EVENT_IGNORED_def)
next
  fix m :: "(scan_event, ('a, 'b, unit) scanner_ext) state_fun list" and s s' :: "('a, 'b) scanner"
  assume "m \<in> range scanner_map" "currentState s < 7" "scanner_life s"
    "(m ! currentState s) (pEventData s) (s\<lparr>pEventData := None, eventGenerated := False\<rparr>) = Some (Inr s')"
  then have "scanner_life s' \<and> currentState s' < 7" using scanner_life_fun by blast
  then show "scanner_life (s'\<lparr>evtSrcExternal := False\<rparr>) \<and> currentState s' < 7" by (simp add: scanner_life_def)
next
  fix r :: "('a, 'b) scan_request" and i :: nat
  assume r: "r \<in> scanner_requests" "i < 7"
  have "ST_STOPPED \<notin> set (rq_table r)"
    using r(1) by (auto simp: scanner_requests_def startScan_def stopScanner_def holdScan_def manualEntry_def st_defs EVENT_IGNORED_def)
  then show "(rq_table r ! i < 7 \<or> rq_table r ! i = EVENT_IGNORED) \<and> not_stopped_event (rq_table r ! i) (rq_data r)"
    using request_tables [OF r(1)] nth_mem [of i "rq_table r"] r(2) by (metis not_stopped_event_def)
next
  fix r :: "('a, 'b) scan_request" and s :: "('a, 'b) scanner"
  assume "r \<in> scanner_requests" "scanner_life s"
  then show "scanner_life (rq_pre r s) \<and> currentState (rq_pre r s) = currentState s"
    by (auto simp: scanner_requests_def startScan_def stopScanner_def holdScan_def manualEntry_def scanner_life_def)
next
  fix s :: "('a, 'b) scanner" and n d
  assume "scanner_life s" "n < 7" "not_stopped_event n d"
  then show "scanner_life (ExternalEvent n d s)"
    by (auto simp: scanner_life_def not_stopped_event_def ExternalEvent_fields) (simp_all add: ExternalEvent_def split: if_splits)
qed

text \<open>A request that is read and delivered at once, as the main thread's are.\<close>

lemma perform_life:
  assumes "r \<in> scanner_requests" "life.config_ok (s, pend)"
  shows "life.config_ok (perform r s, pend)"
proof -
  let ?s = "rq_pre r s" and ?n = "rq_table r ! currentState (rq_pre r s)"
  have "machine_step 7 (range scanner_map) scanner_requests (s, pend) (?s, pend @ [(?n, rq_data r)])"
    using machine_step.issue [OF assms(1), where c = "(s, pend)" and maxStates = 7 and stateMaps = "range scanner_map"]
    by (simp add: issue_request_def Let_def)
  from life.step_keeps [OF this assms(2)] have ok: "life.config_ok (?s, pend @ [(?n, rq_data r)])" .
  have "machine_step 7 (range scanner_map) scanner_requests (?s, pend @ [(?n, rq_data r)])
      (ExternalEvent ?n (rq_data r) ?s, remove1 (?n, rq_data r) (pend @ [(?n, rq_data r)]))"
    by (rule machine_step.deliver) simp
  from life.step_keeps [OF this ok] show ?thesis
    using ok by (auto simp: life.config_ok_def perform_def Let_def)
qed

section \<open>Invariants of the process\<close>

text \<open>The order of the statements. A process that ended otherwise than by \<open>exit(0)\<close> is past them all.\<close>

fun position :: "main_point \<Rightarrow> nat" where
  "position Start_Scanner = 0" | "position Start_Servers = 1" | "position Start_Demod = 2"
| "position Wait_Ready_Scanner = 3" | "position Wait_Ready_Servers = 4" | "position Wait_Ready_Demod = 5"
| "position Allow_Connections = 6" | "position Start_Scanning = 7" | "position Set_Running = 8"
| "position Start_Io = 9" | "position Set_Steady = 10" | "position Steady_Loop = 11"
| "position Sys_Exit = 12" | "position Stop_Scanner = 13" | "position Stop_Servers = 14"
| "position Stop_Demod = 15" | "position Wait_Deinit_Scanner = 16" | "position Wait_Deinit_Servers = 17"
| "position Wait_Deinit_Demod = 18" | "position Save_State = 19" | "position Save_Config = 20"
| "position Exit_Stop_Io = 21" | "position Exit_Join_Io = 22"
| "position (Ended e) = (if e = Exited 0 then 23 else 24)"

definition scan_inv :: "'pt process \<Rightarrow> bool" where
  "scan_inv p \<longleftrightarrow> life.config_ok (pr_scanner p, pr_pending p) \<and>
     (pr_point p = Start_Scanner \<longrightarrow> \<not> sy_stopped (sn_sync (pr_scanner p)) \<and> \<not> pr_scanThread p)"

definition serv_inv :: "'pt process \<Rightarrow> bool" where
  "serv_inv p \<longleftrightarrow> (if bs_thread (pr_servers p) then \<exists>n. servers_inv n (pr_servers p)
       else server_ok (bs_man (pr_servers p)) \<and> all_open (bs_man (pr_servers p))) \<and>
     (position (pr_point p) \<le> 1 \<longrightarrow> pr_servers p = Servers_init)"

text \<open>What is known at each statement of the flags, of the IO thread, and of the files.\<close>

definition files_of :: "'pt main_world \<Rightarrow> 'pt process \<Rightarrow> bool" where
  "files_of w p \<longleftrightarrow> (\<exists>st ts. pr_files p = (State_File, snd (snd (state_saveToFile (mw_api w) st))) # ts \<and>
     st_scanner st = sn_saved (pr_scanner p) \<and> st_demod st = st_demod (pr_state p) \<and>
     (if position (pr_point p) = 20 then ts = []
      else \<exists>c. ts = [(Config_File, snd (snd (config_saveToFile (mw_api w) c)))]))"

definition point_inv :: "'pt main_world \<Rightarrow> 'pt process \<Rightarrow> bool" where
  "point_inv w p \<longleftrightarrow> (let k = position (pr_point p) in
     \<not> pr_cut p \<and> (pr_caught p \<longrightarrow> pr_io p = Io_None \<and> 12 \<le> k \<and> k \<noteq> 23) \<and>
     (k \<le> 9 \<longrightarrow> pr_io p = Io_None) \<and> (k \<le> 8 \<longrightarrow> \<not> pr_sysRun p) \<and>
     (10 \<le> k \<and> k \<le> 22 \<and> \<not> pr_caught p \<longrightarrow> pr_io p = Io_Runs) \<and> (k = 23 \<longrightarrow> pr_io p = Io_Joined) \<and>
     (k \<le> 19 \<longrightarrow> pr_files p = []) \<and>
     (17 \<le> k \<and> k \<le> 23 \<longrightarrow> sy_stopped (sn_sync (pr_scanner p))) \<and>
     (18 \<le> k \<and> k \<le> 23 \<longrightarrow> sy_stopped (bs_sync (pr_servers p))) \<and>
     (19 \<le> k \<and> k \<le> 23 \<longrightarrow> sy_stopped (dr_sync (pr_demod p))) \<and>
     (20 \<le> k \<and> k \<le> 23 \<longrightarrow> files_of w p))"

lemma setup_inv: "scan_inv (snd (main_setup w opts)) \<and> serv_inv (snd (main_setup w opts)) \<and> point_inv w (snd (main_setup w opts))"
  by (auto simp: main_setup_def Let_def scan_inv_def serv_inv_def point_inv_def life.config_ok_def scanner_life_def ScannerSM_init_def
      st_defs Servers_init_def ServerManager_init_def server_ok_def all_open_def split: prod.splits)

text \<open>What the statements keep, one component at a time.\<close>

lemma sm_start_life:
  assumes "life.config_ok (s, pend)" "\<not> sy_stopped (sn_sync s)"
  shows "life.config_ok (sm_start s, pend)"
  using assms by (auto simp: life.config_ok_def scanner_life_def sm_start_def InternalEvent_def st_defs)

lemma demod_life [simp]: "life.config_ok (s\<lparr>sn_demod := d\<rparr>, pend) = life.config_ok (s, pend)"
  by (simp add: life.config_ok_def scanner_life_def)

lemma systems_life: "life.config_ok (s\<lparr>sn_systems := x\<rparr>, pend) = life.config_ok (s, pend)"
  by (simp add: life.config_ok_def scanner_life_def)

lemma main_requests [simp]:
  "startScan \<in> scanner_requests" "stopScanner \<in> scanner_requests" "holdScan h \<in> scanner_requests" "manualEntry f md \<in> scanner_requests"
  by (auto simp: scanner_requests_def)

lemma startScanner_life:
  assumes "startScanner api s = Some (Inr s')" "life.config_ok (s, pend)"
  shows "life.config_ok (s', pend)"
proof -
  have sl: "life.config_ok (s\<lparr>sn_systems := x\<rparr>, pend)" for x using assms(2) by (simp add: systems_life)
  show ?thesis
    using assms sl perform_life [OF main_requests(1), of _ pend] perform_life [OF main_requests(3), of _ pend]
      perform_life [OF main_requests(4), of _ pend]
    by (auto simp: startScanner_def bind_outcome_ok_iff Let_def split: if_splits)
qed

lemma main_scan_inv:
  assumes "main_next w mo fails (pr_point p) p = Some q" "scan_inv p"
  shows "scan_inv q"
proof -
  have k: "life.config_ok (pr_scanner p, pr_pending p)" using assms(2) by (simp add: scan_inv_def)
  have st: "pr_point p = Start_Scanner \<Longrightarrow> life.config_ok (sm_start (pr_scanner p), pr_pending p)"
    using assms(2) by (intro sm_start_life) (simp_all add: scan_inv_def)
  show ?thesis
  proof (cases "pr_point p")
    case Start_Scanner
    then show ?thesis using assms(1) st
      by (cases fails) (auto simp: start_scanner_def goto_sysexit_def scan_inv_def Let_def)
  next
    case Start_Servers
    then show ?thesis using assms(1) k by (auto simp: start_servers_def goto_sysexit_def scan_inv_def split: if_splits)
  next
    case Start_Demod
    then show ?thesis using assms(1) k
      by (auto simp: start_demod_def start_fault_def goto_sysexit_def scan_inv_def split: if_splits sum.splits prod.splits)
  next
    case Start_Scanning
    then show ?thesis using assms(1) k startScanner_life [OF _ k]
      by (auto simp: start_scanning_def start_fault_def goto_sysexit_def scan_inv_def split: if_splits sum.splits option.splits)
  next
    case Stop_Scanner
    then show ?thesis using assms(1) perform_life [OF main_requests(2) k] by (auto simp: scan_inv_def)
  next
    case Stop_Servers
    then show ?thesis using assms(1) k
      by (auto simp: stop_servers_call_def stop_fault_def scan_inv_def Let_def split: if_splits sum.splits)
  next
    case Stop_Demod
    then show ?thesis using assms(1) k
      by (auto simp: stop_demod_def scan_inv_def split: if_splits sum.splits prod.splits)
  next
    case Save_State
    then show ?thesis using assms(1) k by (auto simp: save_state_def scan_inv_def Let_def split: if_splits prod.splits)
  next
    case Save_Config
    then show ?thesis using assms(1) k by (auto simp: save_config_def scan_inv_def Let_def split: if_splits prod.splits)
  next
    case Exit_Join_Io
    then show ?thesis using assms(1) k by (auto simp: exit_join_def scan_inv_def split: if_splits)
  next
    case Start_Io
    then show ?thesis using assms(1) k by (auto simp: goto_sysexit_def scan_inv_def split: if_splits)
  qed (use assms(1) k in \<open>auto simp: scan_inv_def split: if_splits\<close>)
qed

lemma main_serv_inv:
  assumes "main_next w mo fails (pr_point p) p = Some q" "serv_inv p"
  shows "serv_inv q"
proof -
  let ?s = "pr_servers p"
  have k: "server_ok (bs_man ?s)" "all_open (bs_man ?s)"
    using assms(2) by (auto simp: serv_inv_def servers_inv_def queue_inv_def split: if_splits)
  show ?thesis
  proof (cases "pr_point p")
    case Start_Scanner
    then show ?thesis using assms
      by (cases fails) (auto simp: start_scanner_def goto_sysexit_def serv_inv_def Let_def split: if_splits)
  next
    case Start_Servers
    then have i: "?s = Servers_init" using assms(2) by (simp add: serv_inv_def)
    show ?thesis
    proof (cases fails)
      case True
      have q: "q = goto_sysexit (p\<lparr>pr_servers := servers_half_started (mw_rtsp w) (mo_useDebugConsole mo) Servers_init\<rparr>)"
        using assms(1) Start_Servers True i by (simp add: start_servers_def)
      have "\<not> bs_thread (servers_half_started r d Servers_init) \<and> server_ok (bs_man (servers_half_started r d Servers_init)) \<and>
          all_open (bs_man (servers_half_started r d Servers_init))" for r d
        by (cases d) (simp_all add: servers_half_started_def create_connection_def on_manager_def Servers_init_def
            ServerManager_init_def server_ok_def all_open_def)
      then show ?thesis by (simp add: q goto_sysexit_def serv_inv_def)
    next
      case False
      then have "pr_servers q = servers_started (mw_listen w) (mw_rtsp w) (mw_pid w) (cf_socket (pr_config p))
          (mo_useDebugConsole mo) (mo_spawnClient mo)" "pr_point q = Start_Demod"
        using assms(1) Start_Servers i by (auto simp: start_servers_def servers_started_def)
      then show ?thesis
        using started_inv [of "mw_listen w" "mw_rtsp w" "mw_pid w" "cf_socket (pr_config p)" "mo_useDebugConsole mo" "mo_spawnClient mo"]
        by (auto simp: serv_inv_def servers_inv_def list_ok_def)
    qed
  next
    case Start_Demod
    then show ?thesis using assms
      by (auto simp: start_demod_def start_fault_def goto_sysexit_def serv_inv_def split: if_splits sum.splits prod.splits)
  next
    case Start_Scanning
    then show ?thesis using assms
      by (auto simp: start_scanning_def start_fault_def goto_sysexit_def serv_inv_def split: if_splits sum.splits option.splits)
  next
    case Allow_Connections
    have b: "bs_thread (on_manager f ?s) = bs_thread ?s" for f by (simp add: on_manager_def)
    have "servers_inv n ?s \<Longrightarrow> servers_inv n (on_manager allowConnections ?s)" for n
      by (rule servers_step_inv [OF servers_step.allow])
    then show ?thesis using assms Allow_Connections b
      by (auto simp: serv_inv_def) (auto simp: on_manager_def allowConnections_def)
  next
    case Stop_Servers
    obtain m where m: "server_stop False (bs_man ?s) = Inr m" using stop_total [OF k] by blast
    let ?t = "?s\<lparr>bs_conf := (bs_conf ?s)\<lparr>qc_man := m, qc_tries := qc_tries (bs_conf ?s) + 1\<rparr>\<rparr>"
    have q: "q = at_point Stop_Demod (p\<lparr>pr_servers := ?t\<rparr>)"
      using assms(1) Stop_Servers m by (simp add: stop_servers_call_def Let_def)
    have keep: "servers_inv n ?s \<Longrightarrow> servers_inv n ?t" for n by (rule servers_step_inv [OF servers_step.stop [OF m]])
    have "server_ok m \<and> all_open m"
    proof -
      obtain t where "disconnectClients False (bs_man ?s) = Inr t" "table_kept (bs_man ?s) t"
        using disconnectClients_kept [OF k] by blast
      then show ?thesis using m by (auto simp: server_stop_def table_kept_def)
    qed
    then show ?thesis using assms(2) Stop_Servers keep by (cases "bs_thread ?s") (simp_all add: q serv_inv_def, blast intro: keep)
  next
    case Stop_Demod
    then show ?thesis using assms
      by (auto simp: stop_demod_def serv_inv_def split: if_splits sum.splits prod.splits)
  next
    case Save_State
    then show ?thesis using assms by (auto simp: save_state_def serv_inv_def Let_def split: if_splits prod.splits)
  next
    case Save_Config
    then show ?thesis using assms by (auto simp: save_config_def serv_inv_def Let_def split: if_splits prod.splits)
  next
    case Exit_Join_Io
    then show ?thesis using assms by (auto simp: exit_join_def serv_inv_def split: if_splits)
  next
    case Start_Io
    then show ?thesis using assms by (auto simp: goto_sysexit_def serv_inv_def split: if_splits)
  qed (use assms in \<open>auto simp: serv_inv_def split: if_splits\<close>)
qed

lemma stop_never_fails:
  assumes "serv_inv p"
  shows "\<exists>m. server_stop False (bs_man (pr_servers p)) = Inr m"
proof -
  have "server_ok (bs_man (pr_servers p))" "all_open (bs_man (pr_servers p))"
    using assms by (auto simp: serv_inv_def servers_inv_def queue_inv_def split: if_splits)
  from stop_total [OF this, of False] show ?thesis by blast
qed

lemma Demodulator_stop_code: "Demodulator_stop r e s d = Inl c \<Longrightarrow> c = 11 \<or> c = 12"
  by (auto simp: Demodulator_stop_def cubic_OnExit_def split: if_splits sum.splits)

lemma sm_start_frame [simp]: "sn_sync (sm_start s) = sn_sync s" "sn_saved (sm_start s) = sn_saved s" "sn_demod (sm_start s) = sn_demod s"
  by (simp_all add: sm_start_def InternalEvent_def)

lemma perform_frame:
  assumes "r \<in> scanner_requests"
  shows "sn_sync (perform r s) = sn_sync s \<and> sn_saved (perform r s) = sn_saved s \<and> sn_demod (perform r s) = sn_demod s \<and> sm_run (perform r s) = sm_run s"
proof -
  consider "r = startScan" | "r = stopScanner" | h where "r = holdScan h" | f md where "r = manualEntry f md"
    using assms by (auto simp: scanner_requests_def)
  then have "sn_sync (rq_pre r s) = sn_sync s \<and> sn_saved (rq_pre r s) = sn_saved s \<and> sn_demod (rq_pre r s) = sn_demod s \<and> sm_run (rq_pre r s) = sm_run s"
    by cases (simp_all add: startScan_def stopScanner_def holdScan_def manualEntry_def)
  then show ?thesis by (simp add: perform_def Let_def ExternalEvent_fields)
qed

lemma files_of_cong:
  "files_of w p \<Longrightarrow> pr_files q = pr_files p \<Longrightarrow> sn_saved (pr_scanner q) = sn_saved (pr_scanner p) \<Longrightarrow>
   st_demod (pr_state q) = st_demod (pr_state p) \<Longrightarrow> (position (pr_point q) = 20) = (position (pr_point p) = 20) \<Longrightarrow> files_of w q"
  by (simp add: files_of_def)

lemma main_point_inv:
  assumes "main_next w mo fails (pr_point p) p = Some q" "point_inv w p" "serv_inv p"
  shows "point_inv w q"
proof (cases "pr_point p")
  case Start_Scanner
  then show ?thesis using assms(1,2)
    by (cases fails) (auto simp: start_scanner_def goto_sysexit_def point_inv_def Let_def)
next
  case Start_Servers
  then show ?thesis using assms(1,2)
    by (cases fails) (auto simp: start_servers_def goto_sysexit_def point_inv_def Let_def)
next
  case Start_Demod
  then show ?thesis using assms(1,2)
    by (auto simp: start_demod_def start_fault_def goto_sysexit_def point_inv_def Let_def split: if_splits sum.splits prod.splits)
next
  case Start_Scanning
  then show ?thesis using assms(1,2)
    by (auto simp: start_scanning_def start_fault_def goto_sysexit_def point_inv_def Let_def split: if_splits sum.splits option.splits)
next
  case Stop_Scanner
  then show ?thesis using assms(1,2) perform_frame [OF main_requests(2)] by (auto simp: point_inv_def Let_def)
next
  case Stop_Servers
  then show ?thesis using assms(1,2) stop_never_fails [OF assms(3)]
    by (auto simp: stop_servers_call_def point_inv_def Let_def)
next
  case Stop_Demod
  then show ?thesis using assms(1,2)
    by (auto simp: stop_demod_def point_inv_def Let_def split: if_splits sum.splits prod.splits dest!: Demodulator_stop_code)
next
  case Save_State
  let ?st = "(pr_state p)\<lparr>st_scanner := sn_saved (pr_scanner p)\<rparr>"
  let ?p = "p\<lparr>pr_state := fst (snd (state_saveToFile (mw_api w) ?st))\<rparr>"
  have q: "q = (if mw_writable w State_File
      then at_point Save_Config (?p\<lparr>pr_files := pr_files p @ [(State_File, snd (snd (state_saveToFile (mw_api w) ?st)))]\<rparr>)
      else at_point (Ended Terminated) ?p)"
    using assms(1) Save_State by (auto simp: save_state_def Let_def split: prod.splits)
  have d: "st_demod (fst (snd (state_saveToFile (mw_api w) ?st))) = st_demod ?st"
    by (simp add: state_saveToFile_def state_saveAll_def Let_def)
  have "files_of w q" if "mw_writable w State_File"
    using assms(2) Save_State that d unfolding files_of_def
    by (intro exI [of _ ?st] exI [of _ "[]"]) (simp add: q point_inv_def Let_def)
  then show ?thesis using assms(2) Save_State by (auto simp: q point_inv_def Let_def)
next
  case Save_Config
  then obtain st where st: "pr_files p = [(State_File, snd (snd (state_saveToFile (mw_api w) st)))]"
    "st_scanner st = sn_saved (pr_scanner p)" "st_demod st = st_demod (pr_state p)"
    using assms(2) by (auto simp: point_inv_def files_of_def Let_def)
  let ?t = "snd (snd (config_saveToFile (mw_api w) (pr_config p)))"
  let ?p = "p\<lparr>pr_config := fst (snd (config_saveToFile (mw_api w) (pr_config p)))\<rparr>"
  have q: "q = (if mw_writable w Config_File then at_point Exit_Stop_Io (?p\<lparr>pr_files := pr_files p @ [(Config_File, ?t)]\<rparr>)
      else at_point (Ended Terminated) ?p)"
    using assms(1) Save_Config by (auto simp: save_config_def Let_def split: prod.splits)
  have "files_of w q" if "mw_writable w Config_File"
    using st that unfolding files_of_def by (intro exI [of _ st] exI [of _ "[(Config_File, ?t)]"]) (auto simp: q)
  then show ?thesis using assms(2) Save_Config by (auto simp: q point_inv_def Let_def)
next
  case Exit_Stop_Io
  then show ?thesis using assms(1,2) files_of_cong [of w p q] by (auto simp: point_inv_def Let_def)
next
  case Exit_Join_Io
  then show ?thesis using assms(1,2) files_of_cong [of w p q]
    by (auto simp: exit_join_def point_inv_def Let_def split: if_splits)
next
  case Start_Io
  then show ?thesis using assms(1,2) by (cases fails) (auto simp: goto_sysexit_def point_inv_def Let_def)
qed (use assms(1,2) in \<open>auto simp: point_inv_def Let_def waitDeinit_returns_def split: if_splits\<close>)

text \<open>What the other threads and the signals keep.\<close>

lemma own_step_sync:
  assumes "own_step s t" "servers_inv n s"
  shows "sy_stopped (bs_sync s) \<longrightarrow> sy_stopped (bs_sync t)"
  using assms(1)
  by (cases rule: own_step.cases) (use queue_thread_end_result [OF assms(2)] in \<open>auto simp: on_manager_def\<close>)

lemma io_step_sync:
  assumes "io_step s t"
  shows "bs_sync t = bs_sync s \<and> bs_thread t = bs_thread s"
  using assms
  by (cases rule: io_step.cases)
    (simp_all add: handle_accept_def start_accept_def create_connection_def on_manager_def offer_connection_def Let_def split: prod.splits)

lemma issue_frame:
  assumes "r \<in> scanner_requests" "issue_request r (s, pend) = (s', pend')"
  shows "sn_sync s' = sn_sync s \<and> sn_saved s' = sn_saved s \<and> sn_demod s' = sn_demod s \<and> sm_run s' = sm_run s"
proof -
  consider "r = startScan" | "r = stopScanner" | h where "r = holdScan h" | f md where "r = manualEntry f md"
    using assms(1) by (auto simp: scanner_requests_def)
  then show ?thesis using assms(2)
    by cases (auto simp: issue_request_def Let_def startScan_def stopScanner_def holdScan_def manualEntry_def)
qed

lemma client_requests_scanner: "r \<in> client_requests \<Longrightarrow> r \<in> scanner_requests"
  by (auto simp: client_requests_def scanner_requests_def)

lemma settings_sync: "f \<in> client_settings \<Longrightarrow> dr_sync (f d) = dr_sync d"
  by (auto simp: client_settings_def setTunerGain_def setSquelch_def contextUpdate_def Let_def)

text \<open>A step that leaves the statement, the IO thread and the files as they are.\<close>

lemma point_inv_other:
  assumes "point_inv w p" "pr_point q = pr_point p" "pr_io q = pr_io p" "pr_files q = pr_files p" "pr_cut q = pr_cut p"
    "pr_caught q = pr_caught p" "pr_state q = pr_state p" "pr_sysRun q \<longrightarrow> pr_sysRun p"
    "sy_stopped (sn_sync (pr_scanner p)) \<longrightarrow> sy_stopped (sn_sync (pr_scanner q)) \<and>
      sn_saved (pr_scanner q) = sn_saved (pr_scanner p) \<and> dr_sync (pr_demod q) = dr_sync (pr_demod p)"
    "sy_stopped (bs_sync (pr_servers p)) \<longrightarrow> sy_stopped (bs_sync (pr_servers q))"
  shows "point_inv w q"
  using assms files_of_cong [of w p q] by (auto simp: point_inv_def Let_def)

lemma point_inv_crash: "point_inv w p \<Longrightarrow> e \<noteq> Exited 0 \<Longrightarrow> \<not> ended p \<Longrightarrow> point_inv w (at_point (Ended e) p)"
  by (auto simp: point_inv_def Let_def)

definition process_inv :: "'pt main_world \<Rightarrow> 'pt process \<Rightarrow> bool" where
  "process_inv w p \<longleftrightarrow> scan_inv p \<and> serv_inv p \<and> point_inv w p"

lemma process_inv_end:
  assumes "process_inv w p" "e \<noteq> Exited 0" "\<not> ended p"
  shows "process_inv w (at_point (Ended e) p)"
  using assms point_inv_crash [OF _ assms(2,3)] by (auto simp: process_inv_def scan_inv_def serv_inv_def)

lemma process_inv_stop:
  assumes "process_inv w p"
  shows "process_inv w (p\<lparr>pr_sysRun := False\<rparr>)"
proof -
  have "point_inv w (p\<lparr>pr_sysRun := False\<rparr>)"
    by (rule point_inv_other [of w p]) (use assms in \<open>simp_all add: process_inv_def\<close>)
  then show ?thesis using assms by (simp add: process_inv_def scan_inv_def serv_inv_def)
qed

lemma engine_machine_step:
  assumes "scanner_engine env s = Some (Inr s')" "sm_run s" "eventGenerated s"
  shows "machine_step 7 (range scanner_map) scanner_requests (s, pend) (s', pend)"
  using assms by (intro machine_step.engine [where m = "scanner_map env"]) (simp_all add: scanner_engine_def)

lemma process_inv_scan:
  assumes "process_inv w p" "machine_step 7 (range scanner_map) scanner_requests (pr_scanner p, pr_pending p) (s, pend)"
    and "pr_point p \<noteq> Start_Scanner \<or> sn_sync s = sn_sync (pr_scanner p)"
    and "sy_stopped (sn_sync (pr_scanner p)) \<longrightarrow> sy_stopped (sn_sync s) \<and> sn_saved s = sn_saved (pr_scanner p) \<and>
      dr_sync (sn_demod s) = dr_sync (pr_demod p)"
  shows "process_inv w (p\<lparr>pr_scanner := s, pr_pending := pend\<rparr>)"
proof -
  have "life.config_ok (s, pend)"
    using life.step_keeps [OF assms(2)] assms(1) by (simp add: process_inv_def scan_inv_def)
  then have "scan_inv (p\<lparr>pr_scanner := s, pr_pending := pend\<rparr>)"
    using assms(1,3) by (auto simp: process_inv_def scan_inv_def)
  moreover have "point_inv w (p\<lparr>pr_scanner := s, pr_pending := pend\<rparr>)"
    by (rule point_inv_other [of w p]) (use assms(1,4) in \<open>simp_all add: process_inv_def\<close>)
  ultimately show ?thesis using assms(1) by (simp add: process_inv_def serv_inv_def)
qed

lemma process_inv_servers:
  assumes "process_inv w p" "bs_thread (pr_servers p)" "\<And>n. servers_inv n (pr_servers p) \<Longrightarrow> servers_inv n s"
    "sy_stopped (bs_sync (pr_servers p)) \<longrightarrow> sy_stopped (bs_sync s)"
  shows "process_inv w (p\<lparr>pr_servers := s\<rparr>)"
proof -
  obtain n where n: "servers_inv n (pr_servers p)" using assms(1,2) by (auto simp: process_inv_def serv_inv_def)
  then have n': "servers_inv n s" by (rule assms(3))
  then have b: "bs_thread s" by (simp add: servers_inv_def list_ok_def)
  have "pr_servers p \<noteq> Servers_init" using assms(2) by (auto simp: Servers_init_def)
  then have "serv_inv (p\<lparr>pr_servers := s\<rparr>)" using assms(1) n' b by (auto simp: process_inv_def serv_inv_def)
  moreover have "point_inv w (p\<lparr>pr_servers := s\<rparr>)"
    by (rule point_inv_other [of w p]) (use assms(1,4) in \<open>simp_all add: process_inv_def\<close>)
  ultimately show ?thesis using assms(1) by (simp add: process_inv_def scan_inv_def)
qed

lemma process_step_inv:
  assumes "process_step w mo p q" "process_inv w p"
  shows "process_inv w q"
  using assms(1)
proof (cases rule: process_step.cases)
  case (main fails)
  then show ?thesis
    using assms(2) main_scan_inv [OF main] main_serv_inv [OF main] main_point_inv [OF main] by (simp add: process_inv_def)
next
  case (scanner env s)
  have st: "pr_point p \<noteq> Start_Scanner" "\<not> sy_stopped (sn_sync (pr_scanner p))"
    using assms(2) scanner(3,5) by (auto simp: process_inv_def scan_inv_def life.config_ok_def scanner_life_def)
  have "process_inv w (p\<lparr>pr_scanner := s, pr_pending := pr_pending p\<rparr>)"
    using engine_machine_step [OF scanner(7,5,6)] st by (intro process_inv_scan [OF assms(2)]) auto
  then show ?thesis by (simp add: scanner(1))
next
  case (scanner_faults env f)
  then show ?thesis using process_inv_end [OF assms(2)] by simp
next
  case (request r s pend)
  have r: "r \<in> scanner_requests" using client_requests_scanner [OF request(4)] .
  have "machine_step 7 (range scanner_map) scanner_requests (pr_scanner p, pr_pending p) (s, pend)"
    using machine_step.issue [OF r] request(5) by metis
  then show ?thesis unfolding request(1)
    by (rule process_inv_scan [OF assms(2)]) (use issue_frame [OF r request(5)] in simp_all)
next
  case (deliver n d)
  have "machine_step 7 (range scanner_map) scanner_requests (pr_scanner p, pr_pending p)
      (ExternalEvent n d (pr_scanner p), remove1 (n, d) (pr_pending p))"
    by (rule machine_step.deliver [OF deliver(3)])
  then show ?thesis unfolding deliver(1) by (rule process_inv_scan [OF assms(2)]) simp_all
next
  case (setting f)
  have "scan_inv q" "serv_inv q" using assms(2) by (simp_all add: setting(1) process_inv_def scan_inv_def serv_inv_def)
  moreover have "point_inv w q"
    by (rule point_inv_other [of w p])
      (use assms(2) settings_sync [OF setting(4)] in \<open>simp_all add: setting(1) process_inv_def\<close>)
  ultimately show ?thesis by (simp add: process_inv_def)
next
  case (servers s)
  obtain n where n: "servers_inv n (pr_servers p)"
    using assms(2) servers(3) by (auto simp: process_inv_def serv_inv_def)
  show ?thesis unfolding servers(1)
    by (rule process_inv_servers [OF assms(2) servers(3) own_step_inv [OF servers(4)] own_step_sync [OF servers(4) n]])
next
  case (servers_fault f)
  then show ?thesis using process_inv_end [OF assms(2)] by simp
next
  case (io s)
  show ?thesis unfolding io(1)
    by (rule process_inv_servers [OF assms(2) io(3) io_step_inv [OF io(5)]]) (auto simp: io_step_sync [OF io(5), THEN conjunct1])
next
  case sigint
  have "process_inv w (p\<lparr>pr_sysRun := False\<rparr>)" by (rule process_inv_stop [OF assms(2)])
  then show ?thesis using process_inv_end [OF assms(2)] sigint by (simp add: sigIntHandler_def hardTerminate_def)
next
  case sigterm
  have "process_inv w (p\<lparr>pr_sysRun := False\<rparr>)" by (rule process_inv_stop [OF assms(2)])
  then show ?thesis using process_inv_end [OF assms(2)] sigterm by (simp add: sigTermHandler_def hardTerminate_def)
qed

lemma process_reach_inv: "process_reach w opts p \<Longrightarrow> process_inv w p"
proof (induction rule: process_reach.induct)
  case start
  show ?case using setup_inv [of w opts] by (simp add: process_inv_def)
next
  case (step p q)
  show ?case by (rule process_step_inv [OF step.hyps(2) step.IH])
qed

text \<open>Before the servers are started nothing can reach the scanner but its own engine.\<close>

definition before_servers :: "'pt main_world \<Rightarrow> 'pt process \<Rightarrow> bool" where
  "before_servers w p \<longleftrightarrow> (position (pr_point p) \<le> 1 \<longrightarrow> \<not> bs_thread (pr_servers p) \<and> pr_pending p = [] \<and>
     currentState (pr_scanner p) = ST_LOAD \<and> pr_demod p = Demodulator_init (mw_cubic w) (mw_air w) \<and> pr_io p = Io_None)"

lemma before_servers_step:
  assumes "process_step w mo p q" "before_servers w p"
  shows "before_servers w q"
  using assms(1)
proof (cases rule: process_step.cases)
  case (main fails)
  show ?thesis
  proof (cases "pr_point p")
    case Start_Scanner
    then show ?thesis using main assms(2)
      by (cases fails) (auto simp: start_scanner_def goto_sysexit_def before_servers_def Let_def sm_start_def InternalEvent_def ST_LOAD_def)
  next
    case Start_Servers
    then show ?thesis using main by (cases fails) (auto simp: start_servers_def goto_sysexit_def before_servers_def)
  next
    case Start_Demod
    then show ?thesis using main
      by (auto simp: start_demod_def start_fault_def goto_sysexit_def before_servers_def split: sum.splits prod.splits if_splits)
  next
    case Start_Scanning
    then show ?thesis using main
      by (auto simp: start_scanning_def start_fault_def goto_sysexit_def before_servers_def split: sum.splits option.splits if_splits)
  next
    case Stop_Servers
    then show ?thesis using main
      by (auto simp: stop_servers_call_def stop_fault_def before_servers_def Let_def split: sum.splits if_splits)
  next
    case Stop_Demod
    then show ?thesis using main
      by (auto simp: stop_demod_def before_servers_def split: sum.splits prod.splits if_splits)
  next
    case Save_State
    then show ?thesis using main by (auto simp: save_state_def before_servers_def Let_def split: prod.splits if_splits)
  next
    case Save_Config
    then show ?thesis using main by (auto simp: save_config_def before_servers_def Let_def split: prod.splits if_splits)
  next
    case Exit_Join_Io
    then show ?thesis using main by (auto simp: exit_join_def before_servers_def split: if_splits)
  next
    case Start_Io
    then show ?thesis using main by (auto simp: goto_sysexit_def before_servers_def split: if_splits)
  qed (use main in \<open>auto simp: before_servers_def split: if_splits\<close>)
next
  case (scanner env s)
  show ?thesis
  proof (cases "position (pr_point p) \<le> 1")
    case True
    then have l: "currentState (pr_scanner p) = ST_LOAD" "pr_demod p = Demodulator_init (mw_cubic w) (mw_air w)"
      using assms(2) by (auto simp: before_servers_def)
    then have "ST_Load env ((pr_scanner p)\<lparr>pEventData := None, eventGenerated := False\<rparr>) = Some (Inr t) \<Longrightarrow>
        sn_demod t = pr_demod p \<and> currentState t = ST_LOAD" for t
      by (auto simp: ST_Load_def bind_result_Inr_iff)
    then have "sn_demod s = pr_demod p \<and> currentState s = ST_LOAD"
      using scanner(7) l(1) by (auto simp: scanner_engine_def StateEngine_def Let_def bind_outcome_ok_iff ST_LOAD_def)
    then show ?thesis using assms(2) l by (simp add: scanner(1) before_servers_def)
  qed (simp add: scanner(1) before_servers_def)
qed (use assms(2) in \<open>auto simp: before_servers_def sigIntHandler_def sigTermHandler_def hardTerminate_def\<close>)

lemma before_servers_reach: "process_reach w opts p \<Longrightarrow> before_servers w p"
proof (induction rule: process_reach.induct)
  case start
  show ?case by (auto simp: main_setup_def Let_def before_servers_def ScannerSM_init_def Servers_init_def ST_LOAD_def split: prod.splits)
next
  case (step p q)
  show ?case by (rule before_servers_step [OF step.hyps(2) step.IH])
qed

text \<open>What starting leaves in the front end: the selected device, on a thread that has not ended.\<close>

lemma cubic_thread_frame [simp]:
  "cu_thread (update_config f c) = cu_thread c"
  "th_device (cu_thread (cubic_setFrequency v c)) = th_device (cu_thread c)"
  "th_terminated (cu_thread (cubic_setFrequency v c)) = th_terminated (cu_thread c)"
  by (simp_all add: update_config_def cubic_setFrequency_def update_thread_def thread_setFrequency_def Let_def split: option.splits)

lemma cubic_setters_frame [simp]:
  "th_device (cu_thread (cubic_setSampleRate v c)) = th_device (cu_thread c)"
  "th_terminated (cu_thread (cubic_setSampleRate v c)) = th_terminated (cu_thread c)"
  "th_device (cu_thread (cubic_setPPM v c)) = th_device (cu_thread c)"
  "th_terminated (cu_thread (cubic_setPPM v c)) = th_terminated (cu_thread c)"
  "th_device (cu_thread (cubic_setOffset v c)) = th_device (cu_thread c)"
  "th_terminated (cu_thread (cubic_setOffset v c)) = th_terminated (cu_thread c)"
  "th_device (cu_thread (cubic_setAGCMode b c)) = th_device (cu_thread c)"
  "th_terminated (cu_thread (cubic_setAGCMode b c)) = th_terminated (cu_thread c)"
  by (simp_all add: cubic_setSampleRate_def cubic_setPPM_def cubic_setOffset_def cubic_setAGCMode_def update_thread_def Let_def)

lemma setDevice_thread:
  assumes "setDevice False dev c = Inr c'"
  shows "th_device (cu_thread c') = Some dev \<and> (th_terminated (cu_thread c') \<longrightarrow> th_terminated (cu_thread c))"
  using assms by (auto simp: setDevice_def Let_def bind_result_Inr_iff split: if_splits)

lemma Demodulator_start_thread:
  assumes "Demodulator_start saved devs begin_of outdevs False tuners d = Inr (ts, d')"
  shows "th_device (cu_thread (dr_cubic d')) = tm_device (dr_tuner d') \<and> tm_device (dr_tuner d') \<noteq> None \<and>
    (th_terminated (cu_thread (dr_cubic d')) \<longrightarrow> th_terminated (cu_thread (dr_cubic d))) \<and> sy_ready (dr_sync d')"
proof -
  obtain tm c rates where st: "startSelectedTuner False tm (dr_cubic d) = Inr (True, c)"
    and d': "d' = (let e = create_modems rates (fst (hd outdevs)) (d\<lparr>dr_squelchLevel := ds_squelch saved, dr_gain := ds_gain saved,
        dr_cubic := c, dr_tuner := tm\<rparr>) in e\<lparr>dr_sync := notifyReady (dr_sync e)\<rparr>)"
    using assms by (auto simp: Demodulator_start_def Let_def bind_result_Inr_iff split: if_splits prod.splits)
  obtain dev c1 where dev: "tm_device tm = Some dev" "setDevice False dev (dr_cubic d) = Inr c1"
    "c = cubic_setSampleRate (tc_sampleRate (tm_config tm)) (cubic_setPPM (tc_ppmCorrection (tm_config tm)) c1)"
    using st by (auto simp: startSelectedTuner_def bind_result_Inr_iff split: option.splits)
  from setDevice_thread [OF dev(2)] dev(1,3) show ?thesis
    by (simp add: d' Let_def create_modems_def notifyReady_def split: prod.splits)
qed

end
