(* ===== verification/Program_Runs.thy ===== *)
theory Program_Runs
  imports Main_Program
begin

text \<open>
  What the process guarantees from its first statement to its end, and what it does not: the
  properties of every interleaving of Main_Program's steps, and one complete run.
\<close>

section \<open>Properties\<close>


text \<open>
  C8: A normal exit has saved everything. If the process ever ends with \<open>exit(0)\<close>, however its threads,
  its clients and the signals interleaved, then it started without an exception, the scanner, the
  servers and the demodulator have all stopped, the scanner's engine runs no more and the database
  was written, the IO thread was joined, and exactly two files were written: first the state, with
  what the scanner and the demodulator left in it when they stopped, then the configuration.
\<close>

theorem normal_exit_saves_everything:
  assumes "process_reach w opts p" "pr_point p = Ended (Exited 0)"
  shows "(\<exists>st c. pr_files p = [(State_File, snd (snd (state_saveToFile (mw_api w) st))), (Config_File, snd (snd (config_saveToFile (mw_api w) c)))] \<and>
       st_scanner st = sn_saved (pr_scanner p) \<and> st_demod st = st_demod (pr_state p)) \<and>
     sn_written (pr_scanner p) \<noteq> None \<and> \<not> sm_run (pr_scanner p) \<and> \<not> pr_caught p \<and> pr_io p = Io_Joined \<and>
     sy_stopped (sn_sync (pr_scanner p)) \<and> sy_stopped (bs_sync (pr_servers p)) \<and> sy_stopped (dr_sync (pr_demod p))"
proof -
  have i: "process_inv w p" by (rule process_reach_inv [OF assms(1)])
  then have "point_inv w p" by (simp add: process_inv_def)
  then have s: "\<not> pr_caught p" "pr_io p = Io_Joined" "sy_stopped (sn_sync (pr_scanner p))" "sy_stopped (bs_sync (pr_servers p))"
    "sy_stopped (dr_sync (pr_demod p))" "files_of w p"
    using assms(2) by (auto simp: point_inv_def Let_def)
  have "scanner_life (pr_scanner p)" using i by (simp add: process_inv_def scan_inv_def life.config_ok_def)
  then have "sn_written (pr_scanner p) \<noteq> None" "\<not> sm_run (pr_scanner p)" using s(3) by (auto simp: scanner_life_def)
  moreover have "\<exists>st c. pr_files p = [(State_File, snd (snd (state_saveToFile (mw_api w) st))), (Config_File, snd (snd (config_saveToFile (mw_api w) c)))] \<and>
       st_scanner st = sn_saved (pr_scanner p) \<and> st_demod st = st_demod (pr_state p)"
    using s(6) assms(2) by (auto simp: files_of_def)
  ultimately show ?thesis using s by blast
qed

text \<open>
  A program that can be started and stopped, for witnesses: one receiver (that opens, or not), one
  audio output, no files, an empty database, and a port that is taken.
\<close>

definition demo_world :: "bool \<Rightarrow> ctree main_world" where
  "demo_world opens = \<lparr>mw_api = ctree_api, mw_fs = \<lparr>fs_exists = (\<lambda>_. True), fs_create_directory = (\<lambda>_. True)\<rparr>,
     mw_databasePath = ''/etc/piscan'', mw_configFile = (\<lambda>_. Json_Missing), mw_stateFile = (\<lambda>_. Json_Missing),
     mw_listen = Port_Taken, mw_rtsp = True, mw_pid = 0, mw_devs = [demo_device\<lparr>sd_opens := opens\<rparr>], mw_begin = hd,
     mw_outdevs = [(3, [44100])], mw_cubic = CubicSDR_init 100000000 Map.empty, mw_air = (\<lambda>n c i. (-60, -50)),
     mw_post_ends = True, mw_writable = (\<lambda>_. True)\<rparr>"

lemma demo_start:
  "\<exists>ts d. Demodulator_start DemodState_init [demo_device\<lparr>sd_opens := opens\<rparr>] hd [(3, [44100])] False []
     (Demodulator_init (CubicSDR_init 100000000 Map.empty) air) = Inr (ts, d) \<and> sy_ready (dr_sync d) \<and>
     tm_device (dr_tuner d) = Some (demo_device\<lparr>sd_opens := opens\<rparr>) \<and> tuner_runs d = opens \<and> \<not> th_terminated (cu_thread (dr_cubic d))"
proof -
  let ?dev = "demo_device\<lparr>sd_opens := opens\<rparr>"
  let ?d = "Demodulator_init (CubicSDR_init 100000000 Map.empty) air"
  have rates: "getSampleRates (demo_device\<lparr>sd_opens := b\<rparr>) = Inr [250000, 2400000]" for b
    using demo_rates by (simp add: getSampleRates_def demo_device_def)
  have near: "getSampleRateNear (demo_device\<lparr>sd_opens := b\<rparr>) r = Inr (near_loop r [250000, 2400000] \<bar>r - 250000\<bar> 250000)" for b r
    by (simp add: getSampleRateNear_def subscript_def rates)
  have out: "output_rates [(3, [44100])] Map.empty = Inr [3 \<mapsto> 44100]"
    by (simp add: choose_output_rate_def desired_rates_def Let_def)
  have enum: "enumerateDevices [?dev] (dr_tuner ?d) = (True, TunerManager_init\<lparr>tm_devs := [(''rtl'', ?dev)]\<rparr>)"
    by (simp add: enumerateDevices_def demo_device_def TunerManager_init_def Demodulator_init_def)
  obtain ts tm where sel: "autoSelectTuner hd [] (TunerManager_init\<lparr>tm_devs := [(''rtl'', ?dev)]\<rparr>) = Inr (True, ts, tm)"
    and tm: "tm_device tm = Some ?dev"
    by (simp add: autoSelectTuner_def select_new_def selectFirstAvailableDevice_def Let_def TunerManager_init_def
        TunerConfig_init_def nearestSampleRate_def LONG_MAX_def rates)
  have "\<exists>c. setDevice False ?dev c0 = Inr c" for c0
    by (simp add: setDevice_def near getDeviceConfig_def Let_def del: near_loop.simps)
  then obtain c1 where "setDevice False ?dev (CubicSDR_init 100000000 Map.empty) = Inr c1" by blast
  then obtain c where st: "startSelectedTuner False tm (CubicSDR_init 100000000 Map.empty) = Inr (True, c)"
    using tm by (simp add: startSelectedTuner_def)
  obtain d where d: "Demodulator_start DemodState_init [?dev] hd [(3, [44100])] False [] ?d = Inr (ts, d)" "dr_tuner d = tm"
    using enum sel st out by (simp add: Demodulator_start_def Let_def create_modems_def Demodulator_init_def split: prod.splits)
  have "\<not> th_terminated (cu_thread (dr_cubic ?d))" by (simp add: Demodulator_init_def CubicSDR_init_def SDRThread_init_def)
  with Demodulator_start_thread [OF d(1)] d tm show ?thesis by (auto simp: tuner_runs_def)
qed

text \<open>
  One complete run of the demonstration program: start, one interrupt, stop. The servers are those
  of \<open>servers_started\<close>; the scanner loads, is stopped before it scans, saves and stops.
\<close>

lemma step_main:
  "process_reach w opts p \<Longrightarrow> main_next w (fst (main_setup w opts)) fails (pr_point p) p = Some q \<Longrightarrow> process_reach w opts q"
  by (rule process_reach.step [OF _ process_step.main])

lemma step_scanner:
  assumes "process_reach w opts p" "scanner_engine demo_env (pr_scanner p) = Some (Inr s)"
    and "\<not> ended p" "pr_scanThread p" "sm_run (pr_scanner p)" "eventGenerated (pr_scanner p)"
  shows "process_reach w opts (p\<lparr>pr_scanner := s\<rparr>)"
  by (rule process_reach.step [OF assms(1) process_step.scanner [OF assms(3,4) _ assms(5,6,2)]])
    (auto simp: program_env_def demo_env_def)

lemma step_servers:
  assumes "process_reach w opts p" "own_step v s" "pr_servers p = v" "\<not> ended p" "bs_thread v"
  shows "process_reach w opts (p\<lparr>pr_servers := s\<rparr>)"
  using process_reach.step [OF assms(1) process_step.servers [of p s]] assms by simp

lemma demo_setup:
  "main_setup (demo_world opens) [] = (\<lparr>mo_useDebugConsole = False, mo_spawnClient = False, mo_logVerbosity = gc_logfileVerbosity GeneralConfig_init\<rparr>,
     \<lparr>pr_point = Start_Scanner, pr_sysRun = False, pr_steady = False, pr_caught = False, pr_cut = False,
      pr_scanner = ScannerSM_init ctree_api (Demodulator_init (CubicSDR_init 100000000 Map.empty) (\<lambda>n c i. (-60, -50))) ScannerState_init,
      pr_pending = [], pr_scanThread = False, pr_demodInit = False, pr_servers = Servers_init,
      pr_config = Configuration_init ctree_api ''/etc/piscan'', pr_state = State_init ctree_api, pr_io = Io_None, pr_files = []\<rparr>)"
  by (simp add: main_setup_def demo_world_def Let_def Configuration_init_def config_loadFromFile_def state_loadFromFile_def State_init_def)

text \<open>The scanner's part: load, then save and stop; with no system there is nothing to sort.\<close>

lemma demo_scanner:
  fixes s :: "(ctree, demodulator) scanner"
  shows demo_load: "scanner_engine demo_env (sm_start (ScannerSM_init ctree_api d sv)) =
      Some (Inr ((sm_start (ScannerSM_init ctree_api d sv))\<lparr>eventGenerated := False, sn_sync := \<lparr>sy_ready = True, sy_stopped = False\<rparr>\<rparr>))"
    and demo_saves: "currentState s = ST_SAVEALL \<Longrightarrow> \<not> sn_manualMode s \<Longrightarrow> \<not> sn_externalHold s \<Longrightarrow>
      \<exists>s'. scanner_engine demo_env s = Some (Inr s') \<and> currentState s' = ST_STOPPED \<and> eventGenerated s' \<and> sm_run s' = sm_run s \<and>
        sn_demod s' = sn_demod s \<and> sn_sync s' = sn_sync s"
    and demo_stops: "currentState s = ST_STOPPED \<Longrightarrow>
      \<exists>s'. scanner_engine demo_env s = Some (Inr s') \<and> sn_sync s' = notifyDeinit (sn_sync s) \<and> sn_demod s' = sn_demod s"
  subgoal
    by (simp add: scanner_engine_def StateEngine_def scanner_map_def sm_start_def InternalEvent_def ScannerSM_init_def Let_def
        ST_Load_def lift_result_def demo_env_def populateFromFile_def sortBins_def SystemList_init_def sl_size_def notifyReady_def ok_def)
  subgoal
    by (simp add: scanner_engine_def StateEngine_def scanner_map_def Let_def ST_SaveAll_def lift_result_def save_scanner_state_def
        InternalEvent_def st_defs ok_def)
  subgoal
    by (simp add: scanner_engine_def StateEngine_def scanner_map_def Let_def ST_Stopped_def sm_stop_def st_defs ok_def)
  done

text \<open>The servers' part: started, connections allowed, told to stop, and the queue thread's end.\<close>

definition demo_servers :: servers where
  "demo_servers = on_manager allowConnections (servers_started Port_Taken True 0 SocketServerConfig_init False False)"

definition demo_servers_told :: servers where
  "demo_servers_told = demo_servers\<lparr>bs_conf := (bs_conf demo_servers)\<lparr>qc_man := (bs_man demo_servers)\<lparr>sv_allow := False, sv_run := False\<rparr>,
     qc_tries := qc_tries (bs_conf demo_servers) + 1\<rparr>\<rparr>"

definition demo_servers_left :: servers where
  "demo_servers_left = demo_servers_told\<lparr>bs_conf := (bs_conf demo_servers_told)\<lparr>qc_phase := Thread_Ended,
     qc_man := (bs_man demo_servers_told)\<lparr>sv_queue := []\<rparr>\<rparr>\<rparr>"

lemma demo_servers_facts:
  "bs_man demo_servers = ServerManager_init\<lparr>sv_run := True, sv_allow := True\<rparr>" "bs_thread demo_servers"
  "qc_phase (bs_conf demo_servers) = Loop_Head" "bs_sync demo_servers = \<lparr>sy_ready = True, sy_stopped = False\<rparr>"
  "bs_failed demo_servers = None" "bs_rtsp demo_servers"
  by (simp_all add: demo_servers_def servers_started_def start_defs SocketServerConfig_init_def allowConnections_def)

lemma demo_servers_stop: "server_stop False (bs_man demo_servers) = Inr ((bs_man demo_servers)\<lparr>sv_allow := False, sv_run := False\<rparr>)"
  by (simp add: demo_servers_facts server_stop_def disconnectClients_def ServerManager_init_def MAX_CONNECTIONS_def wake_def upt_rec numeral_eq_Suc)

lemma demo_servers_leave: "own_step demo_servers_told demo_servers_left"
  unfolding demo_servers_left_def
  by (rule own_step.queue_thread, simp add: demo_servers_told_def demo_servers_facts, rule thread_step.leave)
    (simp_all add: demo_servers_told_def demo_servers_facts)

lemma demo_servers_end: "\<exists>t. own_step demo_servers_left t \<and> sy_stopped (bs_sync t)"
proof -
  let ?v = "servers_started Port_Taken True 0 SocketServerConfig_init False False"
  have "servers_inv 0 ?v" using started_inv [of Port_Taken] by simp
  moreover have "servers_reach ?v demo_servers"
    unfolding demo_servers_def by (rule servers_reach.step [OF servers_reach.here servers_step.allow])
  then have "servers_reach ?v demo_servers_left"
    using servers_reach.step [OF servers_reach.step [OF _ servers_step.stop [OF demo_servers_stop]]] servers_step.own [OF demo_servers_leave]
    by (simp add: demo_servers_told_def)
  ultimately have i: "servers_inv 0 demo_servers_left" by (rule servers_reach_inv [rotated])
  have f: "qc_phase (bs_conf demo_servers_left) = Thread_Ended" "\<not> sy_stopped (bs_sync demo_servers_left)" "bs_failed demo_servers_left = None"
    "bs_rtsp demo_servers_left" by (simp_all add: demo_servers_left_def demo_servers_told_def demo_servers_facts)
  obtain t where "queue_thread_end demo_servers_left = Inr t" "sy_stopped (bs_sync t)"
    using queue_thread_end_result [OF i f(2)] f(4) by auto
  then show ?thesis using own_step.end_thread [OF f(1,2,3)] by blast
qed

text \<open>The first half of the run, to the loop of \<open>main\<close>.\<close>

abbreviation demo_at ::
    "main_point \<Rightarrow> bool \<Rightarrow> bool \<Rightarrow> (ctree, demodulator) scanner \<Rightarrow> servers \<Rightarrow> ctree configuration \<Rightarrow> io_thread \<Rightarrow> ctree process" where
  "demo_at pt run steady s v c io \<equiv> \<lparr>pr_point = pt, pr_sysRun = run, pr_steady = steady, pr_caught = False, pr_cut = False,
     pr_scanner = s, pr_pending = [], pr_scanThread = True, pr_demodInit = True, pr_servers = v, pr_config = c,
     pr_state = State_init ctree_api, pr_io = io, pr_files = []\<rparr>"

lemma demo_world_fields [simp]:
  "mw_api (demo_world b) = ctree_api" "mw_listen (demo_world b) = Port_Taken" "mw_rtsp (demo_world b)" "mw_pid (demo_world b) = 0"
  "mw_devs (demo_world b) = [demo_device\<lparr>sd_opens := b\<rparr>]" "mw_begin (demo_world b) = hd" "mw_outdevs (demo_world b) = [(3, [44100])]"
  "mw_post_ends (demo_world b)" "mw_writable (demo_world b) f"
  by (simp_all add: demo_world_def)

text \<open>Up to the waits, with whatever demodulator the start leaves.\<close>

lemma demo_waits:
  assumes "Demodulator_start DemodState_init [demo_device\<lparr>sd_opens := b\<rparr>] hd [(3, [44100])] False []
    (Demodulator_init (CubicSDR_init 100000000 Map.empty) (\<lambda>n c i. (-60, -50))) = Inr (ts, d)"
  shows "process_reach (demo_world b) [] (demo_at Wait_Ready_Scanner False False (sm_start (ScannerSM_init ctree_api d ScannerState_init))
    (servers_started Port_Taken True 0 SocketServerConfig_init False False)
    ((Configuration_init ctree_api ''/etc/piscan'')\<lparr>cf_tuners := ts\<rparr>) Io_None)" (is "process_reach ?w [] ?q")
proof -
  have "process_reach ?w [] (snd (main_setup ?w []))" by (rule process_reach.start)
  then have "process_reach ?w [] (start_scanner False (snd (main_setup ?w [])))"
    by (rule step_main [where fails = False]) (simp add: demo_setup)
  then have "process_reach ?w [] (start_servers ?w (fst (main_setup ?w [])) False (start_scanner False (snd (main_setup ?w []))))"
    by (rule step_main [where fails = False]) (simp add: demo_setup start_scanner_def)
  then have "process_reach ?w [] (start_demod ?w (start_servers ?w (fst (main_setup ?w [])) False (start_scanner False (snd (main_setup ?w [])))))"
    by (rule step_main [where fails = False]) (simp add: demo_setup start_scanner_def start_servers_def)
  moreover have "start_demod ?w (start_servers ?w (fst (main_setup ?w [])) False (start_scanner False (snd (main_setup ?w [])))) = ?q"
    using assms by (simp add: demo_setup start_scanner_def start_servers_def start_demod_def servers_started_def
        Configuration_init_def State_init_def ScannerSM_init_def sm_start_def InternalEvent_def)
  ultimately show ?thesis by simp
qed

lemma demo_started:
  "\<exists>s c. process_reach (demo_world True) [] (demo_at Steady_Loop True True s demo_servers c Io_Runs) \<and> sm_run s \<and> currentState s = ST_SCAN \<and>
     eventGenerated s \<and> \<not> sn_manualMode s \<and> \<not> sn_externalHold s \<and> tuner_runs (sn_demod s)"
proof -
  let ?w = "demo_world True"
  let ?air = "\<lambda>n c i. (-60, -50)"
  let ?v = "servers_started Port_Taken True 0 SocketServerConfig_init False False"
  obtain ts d where d: "Demodulator_start DemodState_init [demo_device\<lparr>sd_opens := True\<rparr>] hd [(3, [44100])] False []
      (Demodulator_init (CubicSDR_init 100000000 Map.empty) ?air) = Inr (ts, d)"
    "sy_ready (dr_sync d)" "tuner_runs d"
    using demo_start [of True ?air] by auto
  define s where "s = (sm_start (ScannerSM_init ctree_api d ScannerState_init))\<lparr>eventGenerated := False, sn_sync := \<lparr>sy_ready = True, sy_stopped = False\<rparr>\<rparr>"
  have s: "sn_sync s = \<lparr>sy_ready = True, sy_stopped = False\<rparr>" "sn_demod s = d" "ss_scanState (sn_saved s) = 0" "currentState s = ST_LOAD" "sm_run s"
    "\<not> sn_manualMode s" "\<not> sn_externalHold s"
    by (simp_all add: s_def ScannerSM_init_def sm_start_def InternalEvent_def ScannerState_init_def ST_LOAD_def)
  define c where "c = (Configuration_init ctree_api ''/etc/piscan'')\<lparr>cf_tuners := ts\<rparr>"
  have v: "sy_ready (bs_sync ?v)" by (simp add: servers_started_def ServerManager_start_def notifyReady_def Let_def)
  have "process_reach ?w [] (demo_at Wait_Ready_Scanner False False s ?v c Io_None)"
    using step_scanner [OF demo_waits [OF d(1)], of s] demo_load
    by (simp add: s_def c_def ended_def) (simp add: sm_start_def InternalEvent_def)
  then have "process_reach ?w [] (demo_at Wait_Ready_Servers False False s ?v c Io_None)"
    by (rule step_main [where fails = False]) (simp add: s waitReady_returns_def)
  then have "process_reach ?w [] (demo_at Wait_Ready_Demod False False s ?v c Io_None)"
    by (rule step_main [where fails = False]) (simp add: v waitReady_returns_def)
  then have "process_reach ?w [] (demo_at Allow_Connections False False s ?v c Io_None)"
    by (rule step_main [where fails = False]) (simp add: s d waitReady_returns_def)
  then have "process_reach ?w [] (demo_at Start_Scanning False False s demo_servers c Io_None)"
    by (rule step_main [where fails = False]) (simp add: demo_servers_def)
  then have "process_reach ?w [] (demo_at Set_Running False False (perform startScan s) demo_servers c Io_None)"
    by (rule step_main [where fails = False]) (simp add: start_scanning_def startScanner_def s ok_def)
  then have "process_reach ?w [] (demo_at Start_Io True False (perform startScan s) demo_servers c Io_None)"
    by (rule step_main [where fails = False]) simp
  then have "process_reach ?w [] (demo_at Set_Steady True False (perform startScan s) demo_servers c Io_Runs)"
    by (rule step_main [where fails = False]) simp
  then have "process_reach ?w [] (demo_at Steady_Loop True True (perform startScan s) demo_servers c Io_Runs)"
    by (rule step_main [where fails = False]) simp
  moreover have "perform startScan s = (InternalEvent ST_SCAN None s)\<lparr>evtSrcExternal := True\<rparr>"
    by (simp add: perform_def startScan_def s st_defs ExternalEvent_def EVENT_IGNORED_def)
  ultimately show ?thesis using s d(3)
    by (intro exI [of _ "perform startScan s"] exI [of _ c]) (simp add: InternalEvent_def)
qed

lemma save_state_goes_on:
  "mw_writable w State_File \<Longrightarrow> pr_point (save_state w p) = Save_Config \<and> pr_io (save_state w p) = pr_io p"
  by (simp add: save_state_def state_saveToFile_def Let_def)

lemma save_config_goes_on:
  "mw_writable w Config_File \<Longrightarrow> pr_point (save_config w p) = Exit_Stop_Io \<and> pr_io (save_config w p) = pr_io p"
  by (simp add: save_config_def config_saveToFile_def Let_def)

text \<open>The second half: an interrupt, and the three modules stop.\<close>

lemma demo_stopped:
  "\<exists>s v c st. process_reach (demo_world True) [] ((demo_at Wait_Deinit_Scanner False False s v c Io_Runs)\<lparr>pr_state := st\<rparr>) \<and>
     sy_stopped (sn_sync s) \<and> sy_stopped (bs_sync v) \<and> sy_stopped (dr_sync (sn_demod s))"
proof -
  let ?w = "demo_world True"
  obtain s c where "process_reach ?w [] (demo_at Steady_Loop True True s demo_servers c Io_Runs)" and s: "sm_run s" "currentState s = ST_SCAN"
    "eventGenerated s" "\<not> sn_manualMode s" "\<not> sn_externalHold s" "tuner_runs (sn_demod s)"
    using demo_started by blast
  then have "process_reach ?w [] (demo_at Steady_Loop False True s demo_servers c Io_Runs)"
    using process_reach.step [OF _ process_step.sigint, of ?w "[]" "demo_at Steady_Loop True True s demo_servers c Io_Runs"]
    by (simp add: ended_def sigIntHandler_def)
  then have "process_reach ?w [] (demo_at Sys_Exit False True s demo_servers c Io_Runs)"
    by (rule step_main [where fails = False]) simp
  then have "process_reach ?w [] (demo_at Stop_Scanner False False s demo_servers c Io_Runs)"
    by (rule step_main [where fails = False]) simp
  then have "process_reach ?w [] (demo_at Stop_Servers False False (perform stopScanner s) demo_servers c Io_Runs)"
    by (rule step_main [where fails = False]) simp
  then have told: "process_reach ?w [] (demo_at Stop_Demod False False (perform stopScanner s) demo_servers_told c Io_Runs)"
    by (rule step_main [where fails = False]) (simp add: stop_servers_call_def demo_servers_stop demo_servers_told_def)
  define s1 where "s1 = perform stopScanner s"
  have s1: "s1 = (InternalEvent ST_SAVEALL None s)\<lparr>evtSrcExternal := True\<rparr>"
    by (simp add: s1_def perform_def stopScanner_def s st_defs ExternalEvent_def EVENT_IGNORED_def)
  obtain d2 ds where d2: "Demodulator_stop True True (st_demod (State_init ctree_api)) (sn_demod s1) = Inr (ds, d2)" "sy_stopped (dr_sync d2)"
    by (simp add: Demodulator_stop_def cubic_OnExit_def stopSelectedTuner_def stopDevice_def Let_def notifyDeinit_def)
  define st where "st = (State_init ctree_api)\<lparr>st_demod := ds\<rparr>"
  have r: "tuner_runs (sn_demod s1)" by (simp add: s1 s InternalEvent_def)
  let ?q = "\<lambda>pt s v. (demo_at pt False False s v c Io_Runs)\<lparr>pr_state := st\<rparr>"
  from told [folded s1_def] have "process_reach ?w [] (?q Wait_Deinit_Scanner (s1\<lparr>sn_demod := d2\<rparr>) demo_servers_told)"
    by (rule step_main [where fails = False]) (simp add: stop_demod_def r d2 st_def)
  moreover obtain s2 where s2: "scanner_engine demo_env (s1\<lparr>sn_demod := d2\<rparr>) = Some (Inr s2)" "currentState s2 = ST_STOPPED" "eventGenerated s2"
    "sm_run s2" "sn_demod s2 = d2"
    using demo_saves [of "s1\<lparr>sn_demod := d2\<rparr>"] s by (auto simp: s1 InternalEvent_def)
  ultimately have "process_reach ?w [] (?q Wait_Deinit_Scanner s2 demo_servers_told)"
    using s step_scanner [of ?w "[]" "?q Wait_Deinit_Scanner (s1\<lparr>sn_demod := d2\<rparr>) demo_servers_told" s2]
    by (simp add: ended_def) (simp add: s1 InternalEvent_def)
  moreover obtain s3 where s3: "scanner_engine demo_env s2 = Some (Inr s3)" "sn_sync s3 = notifyDeinit (sn_sync s2)" "sn_demod s3 = d2"
    using demo_stops [OF s2(2)] s2(5) by auto
  ultimately have "process_reach ?w [] (?q Wait_Deinit_Scanner s3 demo_servers_told)"
    using s2 step_scanner [of ?w "[]" "?q Wait_Deinit_Scanner s2 demo_servers_told" s3] by (simp add: ended_def)
  then have "process_reach ?w [] (?q Wait_Deinit_Scanner s3 demo_servers_left)"
    using step_servers [OF _ demo_servers_leave, of ?w "[]" "?q Wait_Deinit_Scanner s3 demo_servers_told"]
    by (simp add: ended_def demo_servers_told_def demo_servers_facts)
  moreover obtain v where v: "own_step demo_servers_left v" "sy_stopped (bs_sync v)" using demo_servers_end by blast
  ultimately have "process_reach ?w [] (?q Wait_Deinit_Scanner s3 v)"
    using step_servers [OF _ v(1), of ?w "[]" "?q Wait_Deinit_Scanner s3 demo_servers_left"]
    by (simp add: ended_def demo_servers_left_def demo_servers_told_def demo_servers_facts)
  moreover have "sy_stopped (sn_sync s3)" "sy_stopped (dr_sync (sn_demod s3))" by (simp_all add: s3 d2 notifyDeinit_def)
  ultimately show ?thesis using v(2) by blast
qed

lemma demo_ends: "\<exists>p. process_reach (demo_world True) [] p \<and> pr_point p = Ended (Exited 0)"
proof -
  let ?w = "demo_world True"
  obtain s3 v c st where "process_reach ?w [] ((demo_at Wait_Deinit_Scanner False False s3 v c Io_Runs)\<lparr>pr_state := st\<rparr>)"
    and s3: "sy_stopped (sn_sync s3)" "sy_stopped (dr_sync (sn_demod s3))" and v: "sy_stopped (bs_sync v)"
    using demo_stopped by blast
  let ?q = "\<lambda>pt s v. (demo_at pt False False s v c Io_Runs)\<lparr>pr_state := st\<rparr>"
  have "process_reach ?w [] (?q Wait_Deinit_Scanner s3 v)" by fact
  then have "process_reach ?w [] (?q Wait_Deinit_Servers s3 v)"
    by (rule step_main [where fails = False]) (simp add: s3 waitDeinit_returns_def)
  then have "process_reach ?w [] (?q Wait_Deinit_Demod s3 v)"
    by (rule step_main [where fails = False]) (simp add: v waitDeinit_returns_def)
  then have "process_reach ?w [] (?q Save_State s3 v)"
    by (rule step_main [where fails = False]) (simp add: s3 waitDeinit_returns_def)
  then have "process_reach ?w [] (save_state ?w (?q Save_State s3 v))"
    by (rule step_main [where fails = False]) simp
  then have saved: "process_reach ?w [] (save_config ?w (save_state ?w (?q Save_State s3 v)))"
    by (rule step_main [where fails = False]) (simp only: save_state_goes_on main_next.simps demo_world_fields)
  obtain q where q: "process_reach ?w [] q" "pr_point q = Exit_Stop_Io" "pr_io q = Io_Runs"
  proof
    show "process_reach ?w [] (save_config ?w (save_state ?w (?q Save_State s3 v)))" by (rule saved)
    show "pr_point (save_config ?w (save_state ?w (?q Save_State s3 v))) = Exit_Stop_Io"
      by (simp only: save_config_goes_on demo_world_fields)
    have "pr_io (save_config ?w (save_state ?w (?q Save_State s3 v))) = pr_io (?q Save_State s3 v)"
      by (simp only: save_config_goes_on save_state_goes_on demo_world_fields)
    then show "pr_io (save_config ?w (save_state ?w (?q Save_State s3 v))) = Io_Runs" by simp
  qed
  have "process_reach ?w [] (at_point Exit_Join_Io q)"
    by (rule step_main [OF q(1), where fails = False]) (simp add: q)
  then have "process_reach ?w [] (exit_join (at_point Exit_Join_Io q))"
    by (rule step_main [where fails = False]) simp
  moreover have "pr_point (exit_join (at_point Exit_Join_Io q)) = Ended (Exited 0)" by (simp add: exit_join_def q)
  ultimately show ?thesis by blast
qed

theorem normal_exit_saves_everything_witness:
  "\<exists>p::ctree process. pr_point p = Ended (Exited 0) \<and> length (pr_files p) = 2 \<and> sn_written (pr_scanner p) \<noteq> None \<and> sy_stopped (bs_sync (pr_servers p))"
proof -
  obtain p where "process_reach (demo_world True) [] p" "pr_point p = Ended (Exited 0)" using demo_ends by blast
  with normal_exit_saves_everything [OF this] show ?thesis by auto
qed

section \<open>When a start fails\<close>

text \<open>
  C38: A start that fails never ends well. Once \<open>main\<close> has caught an exception while starting, the IO
  thread was never created; the clean-up that follows ends by joining it, which throws where nobody
  catches: whatever happens, the process does not leave with code 0.
\<close>

theorem failed_start_never_exits:
  assumes "process_reach w opts p" "pr_caught p"
  shows "pr_io p = Io_None \<and> pr_point p \<noteq> Ended (Exited 0)"
proof -
  have i: "point_inv w p" using process_reach_inv [OF assms(1)] by (simp add: process_inv_def)
  have io: "pr_io p = Io_None" using i assms(2) unfolding point_inv_def Let_def by blast
  have "position (pr_point p) \<noteq> 23" using i assms(2) unfolding point_inv_def Let_def by blast
  then have "pr_point p \<noteq> Ended (Exited 0)" by auto
  with io show ?thesis by blast
qed

theorem failed_start_never_exits_witness:
  "pr_io (start_scanner True (snd (main_setup (demo_world True) []))) = Io_None"
proof -
  have "process_reach (demo_world True) [] (start_scanner True (snd (main_setup (demo_world True) [])))"
    by (rule step_main [OF process_reach.start, where fails = True]) (simp add: demo_setup)
  from failed_start_never_exits [OF this] show ?thesis by (simp add: start_scanner_def goto_sysexit_def Let_def)
qed



text \<open>
  The bins are cut before the tuner's rate is known. Until the main thread has started the servers,
  whatever the scanner's thread does, its load sorts the entries into bins of the rate the front end
  is built with, not of the rate that the tuner selected afterwards will have.
\<close>

theorem bins_cut_before_tuner:
  assumes "process_reach w opts p" "pr_point p = Start_Servers" "program_env env"
  shows "scanner_engine env (pr_scanner p) =
     Some (case bind_result (populateFromFile (ev_api env) (ev_file env) (sn_systems (pr_scanner p))) (sortBins (cu_sampleRate (mw_cubic w))) of
       Inl f \<Rightarrow> Inl f
     | Inr sl \<Rightarrow> Inr ((pr_scanner p)\<lparr>pEventData := None, eventGenerated := False, evtSrcExternal := False,
         sn_systems := sl, sn_sync := notifyReady (sn_sync (pr_scanner p))\<rparr>))"
proof -
  have b: "currentState (pr_scanner p) = ST_LOAD" "pr_demod p = Demodulator_init (mw_cubic w) (mw_air w)"
    using before_servers_reach [OF assms(1)] assms(2) by (auto simp: before_servers_def)
  have r: "ev_sampleRate env (pr_demod p) = cu_sampleRate (mw_cubic w)"
    using assms(3) b(2) by (auto simp: program_env_def getTunerSampleRate_def Demodulator_init_def)
  show ?thesis
    using b(1) r by (auto simp: scanner_engine_def StateEngine_def scanner_map_def Let_def ST_LOAD_def ST_Load_def lift_result_def
        bind_result_def bind_outcome_def ok_def split: sum.splits option.splits)
qed

theorem bins_cut_before_tuner_witness:
  "scanner_engine demo_env (pr_scanner (start_scanner False (snd (main_setup (demo_world True) [])))) \<noteq> None"
proof -
  let ?p = "start_scanner False (snd (main_setup (demo_world True) []))"
  have r: "process_reach (demo_world True) [] ?p"
    by (rule step_main [OF process_reach.start, where fails = False]) (simp add: demo_setup)
  have "pr_point ?p = Start_Servers" by (simp add: start_scanner_def Let_def)
  moreover have "program_env demo_env" by (auto simp: program_env_def demo_env_def)
  ultimately show ?thesis using bins_cut_before_tuner [OF r] by simp
qed

text \<open>
  The gain that was saved is remembered and never applied: whatever gain the state file holds, the
  demodulator starts with the tuner in the same state; only the number it will save again differs.
\<close>

theorem saved_gain_not_applied:
  "Demodulator_start (saved\<lparr>ds_gain := g\<rparr>) devs begin_of outdevs running tuners d =
   map_sum id (\<lambda>(ts, e). (ts, e\<lparr>dr_gain := g\<rparr>)) (Demodulator_start saved devs begin_of outdevs running tuners d)"
  by (auto simp: Demodulator_start_def Let_def bind_result_def create_modems_def split: sum.splits prod.splits)

text \<open>
  One signal stops a program that runs, and any signal ends at once one that does not run yet or is
  already stopping: a second interrupt loses what the first one's clean-up would have saved.
\<close>

theorem second_signal_terminates:
  "(if pr_sysRun p then \<not> pr_sysRun (sigIntHandler p) \<and> pr_point (sigIntHandler p) = pr_point p \<and> sigTermHandler p = sigIntHandler p
    else pr_point (sigIntHandler p) = Ended Terminated \<and> pr_files (sigIntHandler p) = pr_files p \<and> sigTermHandler p = sigIntHandler p) \<and>
   pr_point (sigIntHandler (sigTermHandler p)) = Ended Terminated \<and> pr_files (sigIntHandler (sigTermHandler p)) = pr_files p"
  by (simp add: sigIntHandler_def sigTermHandler_def hardTerminate_def)

end
