(* ===== verification/Enumerator.thy ===== *)
theory Enumerator
  imports Tuner
begin

text \<open>
  How the program finds its receivers: \<open>SDREnumerator\<close> (src/src/cubic/sdr/SDREnumerator.cpp), the
  notice by which \<open>CubicSDR\<close> learns of the devices (src/src/cubic/CubicSDR.cpp), and what
  \<open>TunerManager::enumerateDevices\<close> does with them. SoapySDR is third-party: the record \<open>soapy\<close> is
  what it answers. Loading its modules, and which modules there are, is left out.
\<close>

section \<open>Device arguments\<close>

type_synonym kwargs = "string \<rightharpoonup> string"

definition trim :: "string \<Rightarrow> string" where
  "trim s = rev (dropWhile is_space (rev (dropWhile is_space s)))"

text \<open>
  The loop over the characters: whether it is in a key, the key and the value so far. A pair is
  stored when a comma ends a value that is not empty, and at the end.
\<close>

definition args_char :: "char \<Rightarrow> bool \<Rightarrow> string \<Rightarrow> string \<Rightarrow> bool \<times> string \<times> string" where
  "args_char ch inKey key val =
     (if inKey then (if ch = CHR ''='' then (False, key, val) else if ch = CHR '','' then (True, key, val) else (True, key @ [ch], val))
      else (if ch = CHR '','' then (True, key, val) else (False, key, val @ [ch])))"

definition args_store :: "string \<Rightarrow> string \<Rightarrow> kwargs \<Rightarrow> kwargs" where
  "args_store key val m = (if trim key \<noteq> [] then m(trim key \<mapsto> trim val) else m)"

fun args_loop :: "string \<Rightarrow> bool \<Rightarrow> string \<Rightarrow> string \<Rightarrow> kwargs \<Rightarrow> kwargs" where
  "args_loop [] inKey key val m = m"
| "args_loop (ch # cs) inKey key val m =
     (let (inKey', key', val') = args_char ch inKey key val
      in if (inKey' \<and> val' \<noteq> []) \<or> cs = [] then args_loop cs inKey' [] [] (args_store key' val' m)
         else args_loop cs inKey' key' val' m)"

definition argsStrToKwargs :: "string \<Rightarrow> kwargs" where
  "argsStrToKwargs args = args_loop args True [] [] Map.empty"

section \<open>Devices\<close>

record device_info =
  ei_name :: string
  ei_driver :: string
  ei_hardware :: string
  ei_available :: bool
  ei_remote :: bool
  ei_manual :: bool
  ei_manualParams :: string
  ei_args :: kwargs

definition SDRDeviceInfo_init :: device_info where
  "SDRDeviceInfo_init = \<lparr>ei_name = '''', ei_driver = '''', ei_hardware = '''', ei_available = False,
     ei_remote = False, ei_manual = False, ei_manualParams = '''', ei_args = Map.empty\<rparr>"

text \<open>
  Making a device throws (\<open>None\<close>), or gives its hardware information; asking it for its settings
  may still throw.
\<close>

record soapy =
  so_factories :: "string list"
  so_enumerate :: "kwargs \<Rightarrow> kwargs list"
  so_enumerate_args :: "string \<Rightarrow> kwargs list"
  so_make :: "kwargs \<Rightarrow> (kwargs \<times> bool) option"

text \<open>
  What the loop over the arguments, in the order of their keys, leaves in the name and the driver; and
  the settings the application has for a device.
\<close>

definition name_of_args :: "kwargs \<Rightarrow> string" where
  "name_of_args a = (case a ''label'' of Some l \<Rightarrow> l | None \<Rightarrow> (case a ''device'' of Some d \<Rightarrow> d | None \<Rightarrow> ''''))"

definition describe :: "kwargs \<Rightarrow> device_info" where
  "describe a = SDRDeviceInfo_init\<lparr>ei_name := name_of_args a,
     ei_driver := (case a ''driver'' of Some d \<Rightarrow> d | None \<Rightarrow> ''''), ei_remote := a ''remote'' \<noteq> None\<rparr>"

definition make_device :: "soapy \<Rightarrow> (string \<Rightarrow> kwargs) \<Rightarrow> kwargs \<Rightarrow> device_info \<Rightarrow> device_info" where
  "make_device so settings a d =
     (case so_make so a of
        None \<Rightarrow> d\<lparr>ei_available := False\<rparr>
      | Some (info, answers) \<Rightarrow>
          let d1 = (case info ''hardware'' of Some h \<Rightarrow> d\<lparr>ei_hardware := h\<rparr> | None \<Rightarrow> d)
          in if answers then d1\<lparr>ei_args := a ++ settings (ei_name d), ei_available := True\<rparr>
             else d1\<lparr>ei_available := False\<rparr>)"

section \<open>Enumeration\<close>

type_synonym manual_def = "string \<times> string"

text \<open>
  The static members, and those of \<open>CubicSDR\<close>: \<open>se_published\<close> is whether its pointer \<open>devs\<close> points to
  the local devices, or is null.
\<close>

record sdr_enumerator =
  se_factories :: "string list"
  se_remotes :: "string list"
  se_devs :: "string \<Rightarrow> device_info list"
  se_initialized :: bool
  se_has_remote :: bool
  se_manuals :: "manual_def list"
  se_published :: bool
  se_devicesReady :: bool
  se_devicesFailed :: bool

definition SDREnumerator_init :: sdr_enumerator where
  "SDREnumerator_init = \<lparr>se_factories = [], se_remotes = [], se_devs = (\<lambda>_. []), se_initialized = False, se_has_remote = False,
     se_manuals = [], se_published = False, se_devicesReady = False, se_devicesFailed = False\<rparr>"

definition soapy_init :: "soapy \<Rightarrow> sdr_enumerator \<Rightarrow> sdr_enumerator" where
  "soapy_init so e =
     (if se_initialized e then e
      else e\<lparr>se_factories := so_factories so, se_has_remote := se_has_remote e \<or> ''remote'' \<in> set (so_factories so),
             se_devicesFailed := se_devicesFailed e \<or> so_factories so = [''null''], se_initialized := True\<rparr>)"

definition manual_args :: "manual_def \<Rightarrow> string" where
  "manual_args m = ''driver='' @ fst m @ '','' @ snd m"

text \<open>What a manual definition adds to the results, with whether each was found.\<close>

definition manual_results :: "soapy \<Rightarrow> manual_def \<Rightarrow> (kwargs \<times> bool) list" where
  "manual_results so m =
     (case so_enumerate_args so (manual_args m) of
        [] \<Rightarrow> [((argsStrToKwargs (manual_args m))(''label'' \<mapsto> ''Not Found ('' @ fst m @ '')''), False)]
      | rs \<Rightarrow> map (\<lambda>r. (r, True)) rs)"

text \<open>
  The loop over the results, from position \<open>i\<close>: those up to \<open>idx\<close> were enumerated, the others are manual, and
  the parameters of a manual one are looked up by its position among them.
\<close>

fun query_devices ::
    "soapy \<Rightarrow> (string \<Rightarrow> kwargs) \<Rightarrow> nat \<Rightarrow> string list \<Rightarrow> nat \<Rightarrow> (kwargs \<times> bool) list \<Rightarrow> device_info list result" where
  "query_devices so settings idx params i [] = Inr []"
| "query_devices so settings idx params i ((a, found) # rs) =
     bind_result (if i < idx then Inr (describe a)
                  else bind_result (subscript params (i - idx)) (\<lambda>p.
                    Inr ((describe a)\<lparr>ei_manual := True, ei_manualParams := p\<rparr>))) (\<lambda>d.
     bind_result (query_devices so settings idx params (i + 1) rs) (\<lambda>ds.
       Inr ((if found then make_device so settings a d else d\<lparr>ei_available := False\<rparr>) # ds)))"

text \<open>
  \<open>enumerate_devices\<close>: \<open>None\<close> is the null pointer it returns when it is asked not to look and knows no device.
\<close>

definition local_results :: "soapy \<Rightarrow> string \<Rightarrow> (kwargs \<times> bool) list" where
  "local_results so addr =
     map (\<lambda>a. (a, True)) (so_enumerate so (if addr = [] then Map.empty else [''driver'' \<mapsto> ''remote'', ''remote'' \<mapsto> addr]))"

definition enumerate_devices ::
    "soapy \<Rightarrow> (string \<Rightarrow> kwargs) \<Rightarrow> string \<Rightarrow> bool \<Rightarrow> sdr_enumerator \<Rightarrow> (device_info list option \<times> sdr_enumerator) result" where
  "enumerate_devices so settings addr noInit e =
     (if se_devs e addr \<noteq> [] then Inr (Some (se_devs e addr), e)
      else if noInit then Inr (None, e)
      else
        let e1 = soapy_init so e;
            found = local_results so addr
        in bind_result
             (query_devices so settings (length found) (map snd (se_manuals e1)) 0 (found @ concat (map (manual_results so) (se_manuals e1))))
             (\<lambda>ds. Inr (Some ds, e1\<lparr>se_devs := (se_devs e1)(addr := ds)\<rparr>)))"

fun enumerate_all :: "soapy \<Rightarrow> (string \<Rightarrow> kwargs) \<Rightarrow> string list \<Rightarrow> sdr_enumerator \<Rightarrow> sdr_enumerator result" where
  "enumerate_all so settings [] e = Inr e"
| "enumerate_all so settings (a # as) e =
     bind_result (enumerate_devices so settings a False e) (\<lambda>(_, e1). enumerate_all so settings as e1)"

text \<open>\<open>sdrEnumThreadNotify\<close> with \<open>SDR_ENUM_DEVICES_READY\<close>.\<close>

definition notify_ready :: "soapy \<Rightarrow> (string \<Rightarrow> kwargs) \<Rightarrow> sdr_enumerator \<Rightarrow> sdr_enumerator result" where
  "notify_ready so settings e =
     bind_result (enumerate_devices so settings '''' True e) (\<lambda>(p, e1).
       Inr (e1\<lparr>se_published := p \<noteq> None, se_devicesReady := True\<rparr>))"

definition enumerator_run :: "soapy \<Rightarrow> (string \<Rightarrow> kwargs) \<Rightarrow> sdr_enumerator \<Rightarrow> sdr_enumerator result" where
  "enumerator_run so settings e =
     bind_result (enumerate_all so settings ('''' # se_remotes e) e) (notify_ready so settings)"

section \<open>The lists of remotes and manual devices\<close>

definition addRemote :: "string \<Rightarrow> sdr_enumerator \<Rightarrow> sdr_enumerator" where
  "addRemote a e = (if a \<in> set (se_remotes e) then e else e\<lparr>se_remotes := se_remotes e @ [a]\<rparr>)"

definition removeRemote :: "string \<Rightarrow> sdr_enumerator \<Rightarrow> sdr_enumerator" where
  "removeRemote a e =
     (if a \<in> set (se_remotes e) then e\<lparr>se_devs := (se_devs e)(a := []), se_remotes := remove1 a (se_remotes e)\<rparr> else e)"

definition addManual :: "string \<Rightarrow> string \<Rightarrow> sdr_enumerator \<Rightarrow> sdr_enumerator" where
  "addManual f p e = e\<lparr>se_manuals := se_manuals e @ [(f, p)]\<rparr>"

fun remove_first :: "('a \<Rightarrow> bool) \<Rightarrow> 'a list \<Rightarrow> 'a list" where
  "remove_first P [] = []"
| "remove_first P (x # xs) = (if P x then xs else x # remove_first P xs)"

definition removeManual :: "string \<Rightarrow> string \<Rightarrow> sdr_enumerator \<Rightarrow> sdr_enumerator" where
  "removeManual f p e =
     (if (f, p) \<in> set (se_manuals e)
      then e\<lparr>se_manuals := remove1 (f, p) (se_manuals e),
        se_devs := (se_devs e)('''' := remove_first (\<lambda>d. ei_manual d \<and> ei_driver d = f \<and> ei_manualParams d = p) (se_devs e ''''))\<rparr>
      else e)"

definition setManuals :: "manual_def list \<Rightarrow> sdr_enumerator \<Rightarrow> sdr_enumerator" where
  "setManuals ms e = e\<lparr>se_manuals := ms\<rparr>"

text \<open>\<open>CubicSDR::reEnumerateDevices\<close> with \<open>reset\<close>, up to the new thread.\<close>

definition enumerator_reset :: "sdr_enumerator \<Rightarrow> sdr_enumerator" where
  "enumerator_reset e = e\<lparr>se_initialized := False, se_factories := [], se_devs := (\<lambda>_. []), se_published := False, se_devicesReady := False\<rparr>"

section \<open>What the tuner manager is handed\<close>

text \<open>
  \<open>CubicSDR::getDevices\<close> returns the pointer, which \<open>TunerManager::enumerateDevices\<close> follows. The rates of
  a device, and whether it opens, are not known before it is opened.
\<close>

definition getDevices :: "sdr_enumerator \<Rightarrow> device_info list option" where
  "getDevices e = (if se_published e then Some (se_devs e '''') else None)"

definition as_device :: "(device_info \<Rightarrow> bool) \<Rightarrow> (device_info \<Rightarrow> rat list) \<Rightarrow> device_info \<Rightarrow> sdr_device" where
  "as_device opens rates d = \<lparr>sd_name = ei_name d, sd_driver = ei_driver d, sd_available = ei_available d,
     sd_opens = opens d, sd_rates = rates d\<rparr>"

definition find_tuners ::
    "(device_info \<Rightarrow> bool) \<Rightarrow> (device_info \<Rightarrow> rat list) \<Rightarrow> sdr_enumerator \<Rightarrow> tuner_manager \<Rightarrow> (bool \<times> tuner_manager) result" where
  "find_tuners opens rates e m =
     (case getDevices e of
        None \<Rightarrow> Inl Null_Deref
      | Some ds \<Rightarrow> Inr (enumerateDevices (map (as_device opens rates) ds) m))"

section \<open>Arguments that round-trip\<close>

definition plain_key :: "string \<Rightarrow> bool" where
  "plain_key k \<longleftrightarrow> k \<noteq> [] \<and> trim k = k \<and> CHR ''='' \<notin> set k \<and> CHR '','' \<notin> set k"

definition plain_val :: "string \<Rightarrow> bool" where
  "plain_val v \<longleftrightarrow> v \<noteq> [] \<and> trim v = v \<and> CHR '','' \<notin> set v"

fun join_args :: "(string \<times> string) list \<Rightarrow> string" where
  "join_args [] = ''''"
| "join_args [(k, v)] = k @ ''='' @ v"
| "join_args ((k, v) # p # ps) = k @ ''='' @ v @ '','' @ join_args (p # ps)"

lemma key_loop:
  "CHR ''='' \<notin> set k \<Longrightarrow> CHR '','' \<notin> set k \<Longrightarrow> cs \<noteq> [] \<Longrightarrow>
   args_loop (k @ CHR ''='' # cs) True key [] m = args_loop cs False (key @ k) [] m"
  by (induction k arbitrary: key) (auto simp: args_char_def)

lemma val_loop:
  "CHR '','' \<notin> set v \<Longrightarrow> val @ v \<noteq> [] \<Longrightarrow>
   args_loop (v @ CHR '','' # cs) False key val m = args_loop cs True [] [] (args_store key (val @ v) m)"
  by (induction v arbitrary: val) (auto simp: args_char_def)

lemma val_end: "CHR '','' \<notin> set v \<Longrightarrow> v \<noteq> [] \<Longrightarrow> args_loop v False key val m = args_store key (val @ v) m"
  by (induction v arbitrary: val) (auto simp: args_char_def)

lemma store_plain: "plain_key k \<Longrightarrow> plain_val v \<Longrightarrow> args_store k v m = m(k \<mapsto> v)"
  by (simp add: args_store_def plain_key_def plain_val_def)

lemma args_loop_join:
  "\<forall>(k, v)\<in>set ps. plain_key k \<and> plain_val v \<Longrightarrow> args_loop (join_args ps) True [] [] m = m ++ map_of (rev ps)"
proof (induction ps arbitrary: m rule: join_args.induct)
  case (2 k v)
  then have p: "plain_key k" "plain_val v" by auto
  then have "args_loop (k @ CHR ''='' # v) True [] [] m = args_loop v False k [] m"
    using key_loop [of k v "[]" m] by (simp add: plain_key_def plain_val_def)
  then show ?case using p val_end [of v k "[]" m] store_plain [OF p] by (simp add: plain_val_def map_add_def fun_eq_iff)
next
  case (3 k v p ps)
  then have p: "plain_key k" "plain_val v" by auto
  let ?cs = "join_args (p # ps)"
  have "args_loop (k @ CHR ''='' # v @ CHR '','' # ?cs) True [] [] m = args_loop (v @ CHR '','' # ?cs) False k [] m"
    using key_loop [of k "v @ CHR '','' # ?cs" "[]" m] p by (simp add: plain_key_def)
  also have "\<dots> = args_loop ?cs True [] [] (m(k \<mapsto> v))"
    using val_loop [of v "[]" ?cs k m] p store_plain [OF p] by (simp add: plain_val_def)
  also have "\<dots> = m(k \<mapsto> v) ++ map_of (rev (p # ps))" using 3 by auto
  finally show ?case by (simp add: map_add_assoc [symmetric])
qed simp

text \<open>
  The argument string of a device says what it was made of: joining keys and values by \<open>=\<close> and
  commas and parsing the string gives back every pair, the last one of a key that occurs twice, for
  keys and values that are not empty, have no space around them and contain no comma (and the keys
  no \<open>=\<close>).
\<close>

theorem device_args_round_trip:
  assumes "\<forall>(k, v)\<in>set ps. plain_key k \<and> plain_val v"
  shows "argsStrToKwargs (join_args ps) = map_of (rev ps)"
  using args_loop_join [OF assms, of Map.empty] by (simp add: argsStrToKwargs_def)

theorem device_args_round_trip_witness:
  "argsStrToKwargs ''driver=rtlsdr,tuner=E4000=x'' = [''driver'' \<mapsto> ''rtlsdr'', ''tuner'' \<mapsto> ''E4000=x'']"
  using device_args_round_trip [of "[(''driver'', ''rtlsdr''), (''tuner'', ''E4000=x'')]"]
  by (simp add: plain_key_def plain_val_def trim_def is_space_def)

text \<open>
  A value must not be empty: the comma behind it does not end the pair, and the next key is taken as
  the rest of this one.
\<close>

theorem empty_value_swallows_key:
  assumes "plain_key k" "plain_key k'" "plain_val v"
  shows "argsStrToKwargs (k @ ''=,'' @ k' @ ''='' @ v) = args_store (k @ k') v Map.empty"
proof -
  have "args_loop (k @ CHR ''='' # CHR '','' # k' @ CHR ''='' # v) True [] [] Map.empty =
      args_loop (CHR '','' # k' @ CHR ''='' # v) False k [] Map.empty"
    using key_loop [of k "CHR '','' # k' @ CHR ''='' # v" "[]"] assms(1) by (simp add: plain_key_def)
  also have "\<dots> = args_loop (k' @ CHR ''='' # v) True k [] Map.empty" by (simp add: args_char_def)
  also have "\<dots> = args_loop v False (k @ k') [] Map.empty"
    using key_loop [of k' v k] assms(2,3) by (simp add: plain_key_def plain_val_def)
  finally show ?thesis using val_end [of v] assms(3) by (simp add: argsStrToKwargs_def plain_val_def)
qed

theorem empty_value_swallows_key_witness: "argsStrToKwargs ''serial=,driver=rtlsdr'' = [''serialdriver'' \<mapsto> ''rtlsdr'']"
  using empty_value_swallows_key [of "''serial''" "''driver''" "''rtlsdr''"]
  by (simp add: plain_key_def plain_val_def trim_def is_space_def args_store_def)

section \<open>Enumeration of the devices\<close>

text \<open>What one result becomes: the plain description, or one with the parameters of a manual definition.\<close>

definition queried :: "soapy \<Rightarrow> (string \<Rightarrow> kwargs) \<Rightarrow> string option \<Rightarrow> kwargs \<times> bool \<Rightarrow> device_info" where
  "queried so settings manual r =
     (let d = (case manual of None \<Rightarrow> describe (fst r) | Some p \<Rightarrow> (describe (fst r))\<lparr>ei_manual := True, ei_manualParams := p\<rparr>)
      in if snd r then make_device so settings (fst r) d else d\<lparr>ei_available := False\<rparr>)"

lemma query_devices_local:
  "query_devices so settings (i + length rs + n) params i (rs @ qs) =
     bind_result (query_devices so settings (i + length rs + n) params (i + length rs) qs) (\<lambda>ds.
       Inr (map (queried so settings None) rs @ ds))"
proof (induction rs arbitrary: i n)
  case (Cons r rs)
  show ?case using Cons [of "Suc i" n] by (cases r) (auto simp: queried_def Let_def bind_result_def split: sum.splits)
qed (auto simp: bind_result_def split: sum.splits)

lemma query_devices_manual:
  assumes "idx \<le> i" "i \<le> idx + length params"
  shows "query_devices so settings idx params i qs =
     (if length qs \<le> idx + length params - i
      then Inr (map2 (\<lambda>p q. queried so settings (Some p) q) (take (length qs) (drop (i - idx) params)) qs) else Inl Out_Of_Bounds)"
  using assms
proof (induction qs arbitrary: i)
  case (Cons q qs)
  show ?case
  proof (cases "i = idx + length params")
    case True
    then show ?thesis by (cases q) (simp add: subscript_def)
  next
    case False
    then have lt: "i - idx < length params" "Suc i - idx = Suc (i - idx)" using Cons.prems by auto
    have d: "drop (i - idx) params = params ! (i - idx) # drop (Suc (i - idx)) params" using lt(1) by (rule Cons_nth_drop_Suc [symmetric])
    show ?thesis using Cons.IH [of "Suc i"] Cons.prems lt
      by (cases q) (auto simp: subscript_def queried_def d Let_def)
  qed
qed simp

lemma manual_results_length: "length (manual_results so m) = max 1 (length (so_enumerate_args so (manual_args m)))"
  by (auto simp: manual_results_def split: list.splits)

lemma manual_results_count:
  "length ms \<le> length (concat (map (manual_results so) ms)) \<and>
   (length ms < length (concat (map (manual_results so) ms)) \<longleftrightarrow> (\<exists>m\<in>set ms. 2 \<le> length (so_enumerate_args so (manual_args m))))"
  by (induction ms) (auto simp: manual_results_length max_def)

lemma soapy_init_frame [simp]: "se_devs (soapy_init so e) = se_devs e" "se_manuals (soapy_init so e) = se_manuals e"
  "se_remotes (soapy_init so e) = se_remotes e"
  by (simp_all add: soapy_init_def)

text \<open>
  C36: Looking for devices lists every one, unless a manual definition stands for several. If every
  manual definition matches at most one device, the list has all devices that were found, in order, then
  one for each manual definition, with its parameters, found or not; and it is kept for the next call.
  If some definition matches two or more, the parameters are read past the end of their vector.
\<close>

theorem enumeration_lists_all_or_overruns:
  assumes "se_devs e addr = []"
  shows "enumerate_devices so settings addr False e =
    (if \<exists>m\<in>set (se_manuals e). 2 \<le> length (so_enumerate_args so (manual_args m)) then Inl Out_Of_Bounds
     else let ds = map (queried so settings None) (local_results so addr) @
                 map2 (\<lambda>m r. queried so settings (Some (snd m)) r) (se_manuals e) (concat (map (manual_results so) (se_manuals e)))
          in Inr (Some ds, (soapy_init so e)\<lparr>se_devs := (se_devs e)(addr := ds)\<rparr>))"
proof -
  let ?l = "local_results so addr" and ?q = "concat (map (manual_results so) (se_manuals e))" and ?p = "map snd (se_manuals e)"
  have q: "query_devices so settings (length ?l) ?p 0 (?l @ ?q) =
      bind_result (query_devices so settings (length ?l) ?p (length ?l) ?q) (\<lambda>ds. Inr (map (queried so settings None) ?l @ ds))"
    using query_devices_local [of so settings 0 ?l 0] by simp
  have m: "query_devices so settings (length ?l) ?p (length ?l) ?q =
      (if length ?q \<le> length ?p then Inr (map2 (\<lambda>p r. queried so settings (Some p) r) (take (length ?q) ?p) ?q) else Inl Out_Of_Bounds)"
    using query_devices_manual [of "length ?l" "length ?l" ?p so settings ?q] by simp
  have c: "length ?q \<le> length ?p \<longleftrightarrow> \<not> (\<exists>m\<in>set (se_manuals e). 2 \<le> length (so_enumerate_args so (manual_args m)))"
    using manual_results_count [of "se_manuals e" so] by auto
  have t: "take (length ?q) ?p = ?p" using manual_results_count [of "se_manuals e" so] by simp
  show ?thesis using assms c by (simp add: enumerate_devices_def q m t Let_def map2_map_map [where h = id, simplified] zip_map1 o_def case_prod_unfold)
qed

text \<open>One receiver that is found, and a manual definition that matches none, or two.\<close>

definition demo_soapy :: "nat \<Rightarrow> nat \<Rightarrow> soapy" where
  "demo_soapy found matches = \<lparr>so_factories = [''rtlsdr''],
     so_enumerate = (\<lambda>_. replicate found [''driver'' \<mapsto> ''rtlsdr'', ''label'' \<mapsto> ''RTL'']),
     so_enumerate_args = (\<lambda>_. replicate matches [''driver'' \<mapsto> ''file'', ''label'' \<mapsto> ''File'']),
     so_make = (\<lambda>_. Some (Map.empty, True))\<rparr>"

theorem enumeration_lists_all_or_overruns_witness:
  "enumerate_devices (demo_soapy 1 2) (\<lambda>_. Map.empty) '''' False (setManuals [(''file'', ''x=1'')] SDREnumerator_init) = Inl Out_Of_Bounds \<and>
   (\<exists>ds e. enumerate_devices (demo_soapy 1 0) (\<lambda>_. Map.empty) '''' False (setManuals [(''file'', ''x=1'')] SDREnumerator_init) = Inr (Some ds, e) \<and>
      map ei_name ds = [''RTL'', ''Not Found (file)''] \<and> map ei_available ds = [True, False] \<and> map ei_manualParams ds = ['''', ''x=1''])"
  using enumeration_lists_all_or_overruns [of "setManuals [(''file'', ''x=1'')] SDREnumerator_init" "''''" "demo_soapy 1 2" "\<lambda>_. Map.empty"]
    enumeration_lists_all_or_overruns [of "setManuals [(''file'', ''x=1'')] SDREnumerator_init" "''''" "demo_soapy 1 0" "\<lambda>_. Map.empty"]
  by (simp add: setManuals_def SDREnumerator_init_def demo_soapy_def Let_def local_results_def manual_results_def queried_def
      make_device_def describe_def SDRDeviceInfo_init_def name_of_args_def eval_nat_numeral)

section \<open>What the tuner manager finds\<close>

lemma enumerate_devices_result:
  assumes "enumerate_devices so settings a noInit e = Inr (p, e1)"
  shows "(p = None \<longrightarrow> noInit \<and> se_devs e a = [] \<and> e1 = e) \<and> (noInit \<longrightarrow> e1 = e) \<and> se_published e1 = se_published e \<and>
    (\<forall>ds. p = Some ds \<longrightarrow> ds = se_devs e1 a \<and> (noInit \<longrightarrow> ds \<noteq> []))"
  using assms by (auto simp: enumerate_devices_def Let_def bind_result_Inr_iff soapy_init_def split: if_splits)

text \<open>
  C37: Without a receiver the program follows a null pointer. Once the devices were looked for, the tuner
  manager either is handed them all and goes on, or there are none and it dereferences the null
  pointer that stands for them: the answer for an empty list, which would end the program with a
  message, is never reached.
\<close>

theorem no_device_is_a_null_pointer:
  assumes "enumerator_run so settings e = Inr e'"
  shows "find_tuners opens rates e' m =
    (if se_devs e' '''' = [] then Inl Null_Deref
     else Inr (True, snd (enumerateDevices (map (as_device opens rates) (se_devs e' '''')) m)))"
proof -
  obtain a where "notify_ready so settings a = Inr e'" using assms unfolding enumerator_run_def bind_result_Inr_iff by blast
  then obtain e1 p where "enumerate_devices so settings '''' True a = Inr (p, e1)" and e': "e' = e1\<lparr>se_published := p \<noteq> None, se_devicesReady := True\<rparr>"
    unfolding notify_ready_def bind_result_Inr_iff by auto
  then have "p \<noteq> None \<longleftrightarrow> se_devs e1 '''' \<noteq> []"
    using enumerate_devices_result [of so settings "''''" True a p e1] by (cases p) auto
  then show ?thesis by (simp add: e' find_tuners_def getDevices_def enumerateDevices_def)
qed

theorem no_device_is_a_null_pointer_witness:
  "\<exists>e'. enumerator_run (demo_soapy 0 0) (\<lambda>_. Map.empty) SDREnumerator_init = Inr e' \<and> se_devicesReady e' \<and>
     find_tuners (\<lambda>_. True) (\<lambda>_. [1]) e' TunerManager_init = Inl Null_Deref"
proof -
  obtain e' where e': "enumerator_run (demo_soapy 0 0) (\<lambda>_. Map.empty) SDREnumerator_init = Inr e'" "se_devicesReady e'" "se_devs e' '''' = []"
    by (simp add: enumerator_run_def notify_ready_def enumerate_devices_def SDREnumerator_init_def demo_soapy_def soapy_init_def Let_def local_results_def)
  from no_device_is_a_null_pointer [OF e'(1)] e' show ?thesis by auto
qed

text \<open>
  The second look is free: a list that is not empty is kept and handed out again, whatever is plugged in or
  out, until it is reset; and a reset forgets it and what the application knows of it.
\<close>

theorem enumeration_is_kept:
  assumes "enumerate_devices so settings a noInit e = Inr (Some ds, e1)" "ds \<noteq> []"
  shows "enumerate_devices so' settings' a noInit' e1 = Inr (Some ds, e1) \<and>
    enumerate_devices so' settings' a True (enumerator_reset e1) = Inr (None, enumerator_reset e1) \<and>
    getDevices (enumerator_reset e1) = None"
  using enumerate_devices_result [OF assms(1)] assms(2) by (simp add: enumerate_devices_def enumerator_reset_def getDevices_def)

end
