(* ===== verification/Interval_Timer.thy ===== *)
theory Interval_Timer
  imports Prelude
begin

text \<open>
  \<open>IntervalTimer\<close> (src/src/util/IntervalTimer.h), by which the demodulator reports the signal level while
  it is unmuted: the thread made by \<open>create\<close> beside its owner, who starts, stops and destroys it, each
  access to a shared variable a step of its own. One owner calls at a time; the function is called
  once in every period.
\<close>

section \<open>State\<close>

text \<open>
  The timer's thread: before \<open>while(_execute)\<close>, before it takes \<open>_mtx\<close>, with it before it reads
  \<open>_runTimer\<close> and then \<open>_execute\<close>, asleep on \<open>_cv\<close>, before its last look at \<open>_execute\<close>, in the function,
  before it takes \<open>_sleepMtx\<close>, with it before the predicate (after a timeout or not), asleep on \<open>_sleepTime\<close>.
\<close>

datatype timer_point =
    V_None | V_Head | V_Locks | V_Reads_Run | V_Reads_Execute | V_Waits | V_Decides | V_Calls
  | V_Sleep_Locks | V_Checks bool | V_Sleeps | V_Ended

text \<open>
  The owner: in \<open>start\<close> with \<open>_mtx\<close>, before and after its first store; in \<open>stop\<close>, before the second store and before
  the notify; in \<open>destroy\<close> before it reads \<open>_runTimer\<close>, before it wakes the thread, joining, done. \<open>stop\<close> called by
  \<open>destroy\<close> goes on to the join.
\<close>

datatype owner_point =
    W_Idle | W_Start_Locked | W_Start_Set | W_Stop_Cleared bool | W_Stop_Flagged bool
  | W_Destroy | W_Wakes | W_Joins | W_Done

text \<open>
  \<open>iv_woken\<close> is whether the sleeping thread was notified; \<open>iv_calls\<close> counts the calls of the function,
  \<open>iv_started\<close> says whether \<open>start\<close> was ever called: these two are for the statements only.
\<close>

record interval_timer =
  iv_run :: bool
  iv_execute :: bool
  iv_stateChanged :: bool
  iv_thread :: timer_point
  iv_owner :: owner_point
  iv_woken :: bool
  iv_calls :: nat
  iv_started :: bool

definition IntervalTimer_init :: interval_timer where
  "IntervalTimer_init = \<lparr>iv_run = False, iv_execute = False, iv_stateChanged = False, iv_thread = V_None, iv_owner = W_Idle,
     iv_woken = False, iv_calls = 0, iv_started = False\<rparr>"

definition timer_create :: "interval_timer \<Rightarrow> interval_timer" where
  "timer_create s = s\<lparr>iv_execute := True, iv_run := False, iv_thread := V_Head\<rparr>"

text \<open>Who holds \<open>_mtx\<close> and \<open>_sleepMtx\<close>; the owner takes the latter only for the moment of a notify.\<close>

definition mtx_free :: "interval_timer \<Rightarrow> bool" where
  "mtx_free s \<longleftrightarrow> iv_thread s \<notin> {V_Reads_Run, V_Reads_Execute} \<and> iv_owner s \<notin> {W_Start_Locked, W_Start_Set}"

definition sleep_mtx_free :: "interval_timer \<Rightarrow> bool" where
  "sleep_mtx_free s \<longleftrightarrow> iv_thread s \<notin> {V_Checks True, V_Checks False}"

text \<open>A notify on \<open>_cv\<close> and on \<open>_sleepTime\<close>.\<close>

definition notify_cv :: "interval_timer \<Rightarrow> interval_timer" where
  "notify_cv s = s\<lparr>iv_woken := iv_woken s \<or> iv_thread s = V_Waits\<rparr>"

definition notify_sleep :: "interval_timer \<Rightarrow> interval_timer" where
  "notify_sleep s = s\<lparr>iv_woken := iv_woken s \<or> iv_thread s = V_Sleeps\<rparr>"

section \<open>Steps\<close>

text \<open>
  The thread. It goes to sleep not notified; it wakes when it was notified, when the time is up, and may wake
  for no reason (\<open>spurious\<close>). After a timeout without a change of state, the remaining time is not positive, and
  the period is over.
\<close>

inductive timer_step :: "interval_timer \<Rightarrow> interval_timer \<Rightarrow> bool" where
  loop: "iv_thread s = V_Head \<Longrightarrow> timer_step s (s\<lparr>iv_thread := (if iv_execute s then V_Locks else V_Ended)\<rparr>)"
| lock: "iv_thread s = V_Locks \<Longrightarrow> mtx_free s \<Longrightarrow> timer_step s (s\<lparr>iv_thread := V_Reads_Run\<rparr>)"
| read_run: "iv_thread s = V_Reads_Run \<Longrightarrow> timer_step s (s\<lparr>iv_thread := (if iv_run s then V_Decides else V_Reads_Execute)\<rparr>)"
| read_execute: "iv_thread s = V_Reads_Execute \<Longrightarrow>
    timer_step s (s\<lparr>iv_thread := (if iv_execute s then V_Waits else V_Decides), iv_woken := False\<rparr>)"
| wake: "iv_thread s = V_Waits \<Longrightarrow> iv_woken s \<Longrightarrow> mtx_free s \<Longrightarrow> timer_step s (s\<lparr>iv_thread := V_Reads_Run\<rparr>)"
| decide: "iv_thread s = V_Decides \<Longrightarrow> timer_step s (s\<lparr>iv_thread := (if iv_execute s then V_Calls else V_Ended)\<rparr>)"
| call: "iv_thread s = V_Calls \<Longrightarrow> timer_step s (s\<lparr>iv_thread := V_Sleep_Locks, iv_calls := iv_calls s + 1\<rparr>)"
| sleep_lock: "iv_thread s = V_Sleep_Locks \<Longrightarrow> timer_step s (s\<lparr>iv_thread := V_Checks False\<rparr>)"
| changed: "iv_thread s = V_Checks late \<Longrightarrow> iv_stateChanged s \<Longrightarrow> timer_step s (s\<lparr>iv_stateChanged := False, iv_thread := V_Head\<rparr>)"
| sleep: "iv_thread s = V_Checks False \<Longrightarrow> \<not> iv_stateChanged s \<Longrightarrow> timer_step s (s\<lparr>iv_thread := V_Sleeps, iv_woken := False\<rparr>)"
| period_over: "iv_thread s = V_Checks True \<Longrightarrow> \<not> iv_stateChanged s \<Longrightarrow> timer_step s (s\<lparr>iv_thread := V_Head\<rparr>)"
| notified: "iv_thread s = V_Sleeps \<Longrightarrow> iv_woken s \<Longrightarrow> timer_step s (s\<lparr>iv_thread := V_Checks False\<rparr>)"
| timeout: "iv_thread s = V_Sleeps \<Longrightarrow> timer_step s (s\<lparr>iv_thread := V_Checks True\<rparr>)"

inductive spurious_step :: "interval_timer \<Rightarrow> interval_timer \<Rightarrow> bool" where
  cv: "iv_thread s = V_Waits \<Longrightarrow> mtx_free s \<Longrightarrow> spurious_step s (s\<lparr>iv_thread := V_Reads_Run\<rparr>)"
| sleep_time: "iv_thread s = V_Sleeps \<Longrightarrow> spurious_step s (s\<lparr>iv_thread := V_Checks False\<rparr>)"

text \<open>The owner: \<open>create\<close> once, then any calls, then the destructor, which joins the thread only if there is one.\<close>

inductive owner_step :: "interval_timer \<Rightarrow> interval_timer \<Rightarrow> bool" where
  create: "iv_owner s = W_Idle \<Longrightarrow> iv_thread s = V_None \<Longrightarrow> owner_step s (timer_create s)"
| start: "iv_owner s = W_Idle \<Longrightarrow> mtx_free s \<Longrightarrow> owner_step s (s\<lparr>iv_owner := W_Start_Locked, iv_started := True\<rparr>)"
| start_set: "iv_owner s = W_Start_Locked \<Longrightarrow> owner_step s (s\<lparr>iv_run := True, iv_owner := W_Start_Set\<rparr>)"
| start_ends: "iv_owner s = W_Start_Set \<Longrightarrow> owner_step s (notify_cv (s\<lparr>iv_stateChanged := False, iv_owner := W_Idle\<rparr>))"
| stop: "iv_owner s = W_Idle \<Longrightarrow> owner_step s (s\<lparr>iv_run := False, iv_owner := W_Stop_Cleared False\<rparr>)"
| stop_flag: "iv_owner s = W_Stop_Cleared d \<Longrightarrow> owner_step s (s\<lparr>iv_stateChanged := True, iv_owner := W_Stop_Flagged d\<rparr>)"
| stop_ends: "iv_owner s = W_Stop_Flagged d \<Longrightarrow> sleep_mtx_free s \<Longrightarrow>
    owner_step s (notify_sleep (s\<lparr>iv_owner := (if d then W_Joins else W_Idle)\<rparr>))"
| destroy: "iv_owner s = W_Idle \<Longrightarrow> iv_execute s \<Longrightarrow> owner_step s (s\<lparr>iv_execute := False, iv_owner := W_Destroy\<rparr>)"
| destroy_reads: "iv_owner s = W_Destroy \<Longrightarrow>
    owner_step s (if iv_run s then s\<lparr>iv_run := False, iv_owner := W_Stop_Cleared True\<rparr> else s\<lparr>iv_owner := W_Wakes\<rparr>)"
| destroy_wakes: "iv_owner s = W_Wakes \<Longrightarrow> mtx_free s \<Longrightarrow> owner_step s (notify_cv (s\<lparr>iv_owner := W_Joins\<rparr>))"
| join: "iv_owner s = W_Joins \<Longrightarrow> iv_thread s = V_Ended \<Longrightarrow> owner_step s (s\<lparr>iv_owner := W_Done\<rparr>)"

inductive interval_reach :: "interval_timer \<Rightarrow> bool" where
  init: "interval_reach IntervalTimer_init"
| thread: "interval_reach s \<Longrightarrow> timer_step s t \<Longrightarrow> interval_reach t"
| spurious: "interval_reach s \<Longrightarrow> spurious_step s t \<Longrightarrow> interval_reach t"
| owner: "interval_reach s \<Longrightarrow> owner_step s t \<Longrightarrow> interval_reach t"

section \<open>The invariant\<close>

text \<open>
  \<open>closing\<close>: \<open>destroy\<close> has cleared \<open>_execute\<close>. Then the thread is on its way out: it does not go to sleep on \<open>_cv\<close> any more,
  one that sleeps there will be notified, and one in the second half of its period finds the state changed.
\<close>

definition closing :: "interval_timer \<Rightarrow> bool" where
  "closing s \<longleftrightarrow> iv_owner s \<in> {W_Stop_Cleared True, W_Stop_Flagged True, W_Destroy, W_Wakes, W_Joins, W_Done}"

definition in_period :: "interval_timer \<Rightarrow> bool" where
  "in_period s \<longleftrightarrow> iv_thread s \<in> {V_Calls, V_Sleep_Locks, V_Checks False, V_Checks True, V_Sleeps}"

definition life_inv :: "interval_timer \<Rightarrow> bool" where
  "life_inv s \<longleftrightarrow> (iv_execute s \<longleftrightarrow> iv_thread s \<noteq> V_None \<and> \<not> closing s) \<and> (iv_thread s = V_Ended \<longrightarrow> closing s) \<and>
     (iv_owner s = W_Done \<longrightarrow> iv_thread s = V_Ended) \<and> (closing s \<longrightarrow> iv_thread s \<noteq> V_None)"

definition start_inv :: "interval_timer \<Rightarrow> bool" where
  "start_inv s \<longleftrightarrow> (\<not> iv_started s \<longrightarrow> \<not> iv_run s \<and> \<not> in_period s \<and> iv_calls s = 0 \<and> (iv_thread s = V_Decides \<longrightarrow> \<not> iv_execute s)) \<and>
     (iv_owner s = W_Start_Locked \<or> iv_owner s = W_Start_Set \<longrightarrow> iv_started s)"

fun clears :: "owner_point \<Rightarrow> bool" where
  "clears (W_Stop_Cleared _) = True"
| "clears _ = False"

fun flags :: "owner_point \<Rightarrow> bool" where
  "flags (W_Stop_Flagged _) = True"
| "flags _ = False"

definition run_inv :: "interval_timer \<Rightarrow> bool" where
  "run_inv s \<longleftrightarrow> (iv_owner s = W_Start_Locked \<or> iv_owner s = W_Start_Set \<longrightarrow> iv_thread s \<noteq> V_Reads_Run \<and> iv_thread s \<noteq> V_Reads_Execute) \<and>
     (clears (iv_owner s) \<or> flags (iv_owner s) \<longrightarrow> \<not> iv_run s) \<and>
     (iv_owner s = W_Wakes \<or> iv_owner s = W_Joins \<or> iv_owner s = W_Done \<longrightarrow> \<not> iv_run s) \<and>
     (iv_run s \<and> iv_thread s = V_Waits \<longrightarrow> iv_woken s \<or> iv_owner s = W_Start_Set) \<and>
     (iv_run s \<longrightarrow> iv_thread s \<noteq> V_Reads_Execute) \<and> (iv_owner s = W_Start_Set \<longrightarrow> iv_run s)"

definition close_inv :: "interval_timer \<Rightarrow> bool" where
  "close_inv s \<longleftrightarrow> (iv_owner s = W_Stop_Cleared True \<or> iv_owner s = W_Stop_Flagged True \<or> iv_owner s = W_Joins \<longrightarrow> iv_thread s = V_Waits \<longrightarrow> iv_woken s)"

text \<open>A thread that passed its test before the timer was stopped will find that the state changed.\<close>

definition period_inv :: "interval_timer \<Rightarrow> bool" where
  "period_inv s \<longleftrightarrow> (\<not> iv_run s \<and> \<not> clears (iv_owner s) \<and> (in_period s \<or> iv_thread s = V_Decides \<and> iv_execute s) \<longrightarrow> iv_stateChanged s) \<and>
     (\<not> iv_run s \<and> iv_thread s = V_Sleeps \<and> \<not> clears (iv_owner s) \<and> \<not> flags (iv_owner s) \<longrightarrow> iv_woken s)"

definition interval_inv :: "interval_timer \<Rightarrow> bool" where
  "interval_inv s \<longleftrightarrow> life_inv s \<and> start_inv s \<and> run_inv s \<and> close_inv s \<and> period_inv s"

lemmas interval_defs = closing_def in_period_def mtx_free_def sleep_mtx_free_def notify_cv_def notify_sleep_def timer_create_def

lemma life_steps: "timer_step s t \<or> spurious_step s t \<or> owner_step s t \<Longrightarrow> life_inv s \<Longrightarrow> life_inv t"
  by (elim disjE timer_step.cases spurious_step.cases owner_step.cases; simp add: life_inv_def interval_defs split: if_splits; fastforce?)

lemma start_steps: "timer_step s t \<or> spurious_step s t \<or> owner_step s t \<Longrightarrow> start_inv s \<and> life_inv s \<Longrightarrow> start_inv t"
  by (elim disjE timer_step.cases spurious_step.cases owner_step.cases; simp add: start_inv_def life_inv_def interval_defs split: if_splits; fastforce?)

lemma run_steps: "timer_step s t \<or> spurious_step s t \<or> owner_step s t \<Longrightarrow> run_inv s \<and> life_inv s \<Longrightarrow> run_inv t"
  by (elim disjE timer_step.cases spurious_step.cases owner_step.cases; simp add: run_inv_def life_inv_def interval_defs split: if_splits; fastforce?)

lemma close_steps: "timer_step s t \<or> spurious_step s t \<or> owner_step s t \<Longrightarrow> close_inv s \<and> run_inv s \<and> life_inv s \<Longrightarrow> close_inv t"
  by (elim disjE timer_step.cases spurious_step.cases owner_step.cases; simp add: close_inv_def run_inv_def life_inv_def interval_defs split: if_splits; fastforce?)

lemma period_steps: "timer_step s t \<or> spurious_step s t \<or> owner_step s t \<Longrightarrow> period_inv s \<and> run_inv s \<and> life_inv s \<Longrightarrow> period_inv t"
  by (elim disjE timer_step.cases spurious_step.cases owner_step.cases; simp add: period_inv_def run_inv_def life_inv_def interval_defs split: if_splits; fastforce?)

lemma interval_steps: "timer_step s t \<or> spurious_step s t \<or> owner_step s t \<Longrightarrow> interval_inv s \<Longrightarrow> interval_inv t"
  using life_steps start_steps run_steps close_steps period_steps unfolding interval_inv_def by blast

lemma interval_reach_inv: "interval_reach s \<Longrightarrow> interval_inv s"
proof (induction rule: interval_reach.induct)
  case init
  show ?case by (simp add: IntervalTimer_init_def interval_inv_def life_inv_def start_inv_def run_inv_def close_inv_def period_inv_def interval_defs)
qed (use interval_steps in blast)+

section \<open>Properties\<close>

text \<open>How many steps the thread is from its end, once it is told to end.\<close>

fun way_out :: "timer_point \<Rightarrow> nat" where
  "way_out V_None = 0" | "way_out V_Ended = 0" | "way_out V_Head = 1" | "way_out V_Decides = 1" | "way_out V_Reads_Execute = 2"
| "way_out V_Reads_Run = 3" | "way_out V_Waits = 4" | "way_out V_Locks = 4" | "way_out (V_Checks _) = 2" | "way_out V_Sleeps = 3"
| "way_out V_Sleep_Locks = 3" | "way_out V_Calls = 4"

text \<open>
  C20: The destructor always comes to its end. While \<open>destroy\<close> joins, the thread has ended or has a step to
  make, and every step it makes, also one after a spurious wake-up, brings it closer to its end, which is at most
  four away: it never sleeps without having been notified, and does not wait for the interval. One call of
  the function, if it was in it, is all that can be in the way.
\<close>

theorem destroy_ends:
  assumes "interval_reach s" "iv_owner s = W_Joins"
  shows "(iv_thread s = V_Ended \<or> (\<exists>t. timer_step s t)) \<and> way_out (iv_thread s) \<le> 4 \<and> (iv_thread s \<in> {V_Waits, V_Sleeps} \<longrightarrow> iv_woken s) \<and>
    (\<forall>t. timer_step s t \<or> spurious_step s t \<longrightarrow> way_out (iv_thread t) < way_out (iv_thread s) \<and> iv_owner t = W_Joins)"
proof -
  have i: "interval_inv s" by (rule interval_reach_inv [OF assms(1)])
  have f: "\<not> iv_execute s" "\<not> iv_run s" "in_period s \<Longrightarrow> iv_stateChanged s" "iv_thread s \<in> {V_Waits, V_Sleeps} \<Longrightarrow> iv_woken s" "iv_thread s \<noteq> V_None"
    using i assms(2) by (auto simp: interval_inv_def life_inv_def run_inv_def close_inv_def period_inv_def closing_def)
  have "iv_thread s = V_Ended \<or> (\<exists>t. timer_step s t)"
  proof (cases "iv_thread s")
    case V_Waits
    then show ?thesis using f timer_step.wake [of s] assms(2) by (auto simp: mtx_free_def)
  next
    case V_Locks
    then show ?thesis using timer_step.lock [of s] assms(2) by (auto simp: mtx_free_def)
  next
    case (V_Checks b)
    then show ?thesis using f timer_step.changed [of s b] by (cases b) (auto simp: in_period_def)
  qed (use f in \<open>auto intro: timer_step.intros\<close>)
  moreover have "way_out (iv_thread t) < way_out (iv_thread s) \<and> iv_owner t = W_Joins" if "timer_step s t" for t
    using that f assms(2) by (cases rule: timer_step.cases) (auto simp: in_period_def)
  moreover have "way_out (iv_thread t) < way_out (iv_thread s) \<and> iv_owner t = W_Joins" if "spurious_step s t" for t
    using that assms(2) by (cases rule: spurious_step.cases) auto
  moreover have "way_out (iv_thread s) \<le> 4" by (cases "iv_thread s") auto
  ultimately show ?thesis using f by blast
qed

lemma demo_joins: "\<exists>s. interval_reach s \<and> iv_owner s = W_Joins \<and> iv_thread s = V_Waits"
proof -
  let ?c = "timer_create IntervalTimer_init"
  have "interval_reach ?c" by (rule interval_reach.owner [OF interval_reach.init owner_step.create]) (simp_all add: IntervalTimer_init_def)
  then have "interval_reach (?c\<lparr>iv_thread := V_Locks\<rparr>)"
    using interval_reach.thread [OF _ timer_step.loop, of ?c] by (simp add: timer_create_def)
  then have "interval_reach (?c\<lparr>iv_thread := V_Reads_Run\<rparr>)"
    using interval_reach.thread [OF _ timer_step.lock, of "?c\<lparr>iv_thread := V_Locks\<rparr>"] by (simp add: mtx_free_def timer_create_def IntervalTimer_init_def)
  then have "interval_reach (?c\<lparr>iv_thread := V_Reads_Execute\<rparr>)"
    using interval_reach.thread [OF _ timer_step.read_run, of "?c\<lparr>iv_thread := V_Reads_Run\<rparr>"] by (simp add: timer_create_def)
  then have w: "interval_reach (?c\<lparr>iv_thread := V_Waits\<rparr>)"
    using interval_reach.thread [OF _ timer_step.read_execute, of "?c\<lparr>iv_thread := V_Reads_Execute\<rparr>"]
    by (simp add: timer_create_def IntervalTimer_init_def)
  then have "interval_reach (?c\<lparr>iv_thread := V_Waits, iv_execute := False, iv_owner := W_Destroy\<rparr>)"
    using interval_reach.owner [OF w owner_step.destroy] by (simp add: timer_create_def IntervalTimer_init_def)
  then have "interval_reach (?c\<lparr>iv_thread := V_Waits, iv_execute := False, iv_owner := W_Wakes\<rparr>)"
    using interval_reach.owner [OF _ owner_step.destroy_reads, of "?c\<lparr>iv_thread := V_Waits, iv_execute := False, iv_owner := W_Destroy\<rparr>"]
    by (simp add: timer_create_def)
  then have "interval_reach (notify_cv (?c\<lparr>iv_thread := V_Waits, iv_execute := False, iv_owner := W_Joins\<rparr>))"
    using interval_reach.owner [OF _ owner_step.destroy_wakes, of "?c\<lparr>iv_thread := V_Waits, iv_execute := False, iv_owner := W_Wakes\<rparr>"]
    by (simp add: mtx_free_def)
  then show ?thesis
    by (intro exI [of _ "notify_cv (?c\<lparr>iv_thread := V_Waits, iv_execute := False, iv_owner := W_Joins\<rparr>)"]) (simp add: notify_cv_def)
qed

theorem destroy_ends_witness: "\<exists>s t. iv_owner s = W_Joins \<and> iv_thread s = V_Waits \<and> iv_woken s \<and> timer_step s t"
proof -
  obtain s where "interval_reach s" "iv_owner s = W_Joins" "iv_thread s = V_Waits" using demo_joins by blast
  with destroy_ends [of s] show ?thesis by auto
qed

inductive thread_path :: "interval_timer \<Rightarrow> interval_timer \<Rightarrow> bool" for s where
  here: "thread_path s s"
| own: "thread_path s t \<Longrightarrow> timer_step t u \<Longrightarrow> thread_path s u"
| wakes: "thread_path s t \<Longrightarrow> spurious_step t u \<Longrightarrow> thread_path s u"

definition call_due :: "interval_timer \<Rightarrow> nat" where
  "call_due s = (if iv_thread s = V_Calls \<or> iv_thread s = V_Decides \<and> iv_execute s then 1 else 0)"

text \<open>
  \<open>stop\<close> does not wait for the function, but only one call can still follow it: from any point at which the timer is
  stopped, until it is started again, the function is called at most once more, and only if the thread had
  already passed its test; a timer that was never started never calls it.
\<close>

theorem stopped_calls_once:
  assumes "interval_reach s" "\<not> iv_run s" "thread_path s t"
  shows "iv_calls t + call_due t \<le> iv_calls s + call_due s \<and> \<not> iv_run t \<and> (\<not> iv_started s \<longrightarrow> iv_calls t = 0)"
proof -
  have "iv_calls t + call_due t \<le> iv_calls s + call_due s \<and> \<not> iv_run t" using assms(3)
  proof (induction rule: thread_path.induct)
    case (own t u)
    from own.hyps(2) own.IH show ?case by (cases rule: timer_step.cases) (auto simp: call_due_def split: if_splits)
  next
    case (wakes t u)
    from wakes.hyps(2) wakes.IH show ?case by (cases rule: spurious_step.cases) (auto simp: call_due_def split: if_splits)
  qed (simp add: assms(2))
  moreover have "iv_calls s + call_due s = 0" if "\<not> iv_started s"
    using interval_reach_inv [OF assms(1)] that by (auto simp: interval_inv_def start_inv_def call_due_def in_period_def)
  ultimately show ?thesis by auto
qed

theorem stopped_calls_once_witness: "iv_calls IntervalTimer_init + call_due IntervalTimer_init = 0"
  using stopped_calls_once [OF interval_reach.init _ thread_path.here] by (simp add: IntervalTimer_init_def call_due_def)

end
