(* ===== verification/Demod_Requests.thy ===== *)
theory Demod_Requests
  imports Demodulator
begin

text \<open>
  \<open>Demodulator::_handleMessage\<close> and \<open>_handleRequest\<close> (src/src/sigproc/Demodulator.cpp), by which messages of the
  queue would reach the demodulator, beside the calls that clients make today (\<open>setTunerGain\<close>,
  \<open>setSquelch\<close>): nothing calls these two functions.
\<close>

text \<open>
  What a request asks for; the number it points to may be missing, which \<open>DCHECK_F\<close> reports in a debug build
  and which is dereferenced in any other.
\<close>

datatype demod_order = Order_Squelch "int option" | Order_Gain "int option" | Order_Other | Order_Context

definition demod_handleMessage :: "bool \<Rightarrow> bool \<Rightarrow> demodulator \<Rightarrow> demodulator result" where
  "demod_handleMessage openAudio data d =
     (if openAudio
      then case getCurrentModem (dr_mgr d) of
             None \<Rightarrow> Inl Null_Deref
           | Some p \<Rightarrow> Inr (d\<lparr>dr_mgr := inst_setMuted p data (dr_mgr d)\<rparr>)
      else Inr d)"

definition request_gain :: "int \<Rightarrow> demodulator \<Rightarrow> demodulator" where
  "request_gain n d =
     (d\<lparr>dr_cubic := (if of_int n = AUTO_GAIN then cubic_setAGCMode True (dr_cubic d)
                     else cubic_setGain ''TUNER'' (of_int n) (cubic_setAGCMode False (dr_cubic d)))\<rparr>)\<lparr>dr_gain := of_int n\<rparr>"

text \<open>The demodulator afterwards, and the context handed to the connection that asked for it.\<close>

fun demod_handleRequest :: "demod_order \<Rightarrow> demodulator \<Rightarrow> (demodulator \<times> demod_context option) result" where
  "demod_handleRequest (Order_Squelch None) d = Inl Null_Deref"
| "demod_handleRequest (Order_Squelch (Some n)) d = Inr (contextUpdate (d\<lparr>dr_squelchLevel := of_int n\<rparr>), None)"
| "demod_handleRequest (Order_Gain None) d = Inl Null_Deref"
| "demod_handleRequest (Order_Gain (Some n)) d = Inr (contextUpdate (request_gain n d), None)"
| "demod_handleRequest Order_Other d = Inr (contextUpdate d, None)"
| "demod_handleRequest Order_Context d = Inr (d, Some (DemodContext_make (dr_gain d) (dr_squelchLevel d)))"

text \<open>
  A request does what the call does, except for negative gains other than the one that stands for automatic
  control: the call takes each of them as automatic, the request as a gain of that value.
\<close>

theorem request_like_call:
  "demod_handleRequest (Order_Squelch (Some n)) d = Inr (setSquelch (of_int n) d, None)"
  "0 \<le> n \<or> of_int n = AUTO_GAIN \<Longrightarrow> demod_handleRequest (Order_Gain (Some n)) d = Inr (setTunerGain (of_int n) d, None)"
  "n < 0 \<Longrightarrow> of_int n \<noteq> AUTO_GAIN \<Longrightarrow>
     \<exists>e. demod_handleRequest (Order_Gain (Some n)) d = Inr (e, None) \<and> dr_gain e = of_int n \<and> \<not> cu_agcMode (dr_cubic e) \<and>
       dr_gain (setTunerGain (of_int n) d) = AUTO_GAIN \<and> cu_agcMode (dr_cubic (setTunerGain (of_int n) d))"
  subgoal by (simp add: setSquelch_def)
  subgoal
    by (auto simp: setTunerGain_def request_gain_def AUTO_GAIN_def Let_def cubic_getGain_def cubic_setGain_def update_thread_def update_config_def split: option.splits)
  subgoal
    by (auto simp: setTunerGain_def request_gain_def Let_def contextUpdate_def cubic_setGain_def cubic_setAGCMode_def update_thread_def update_config_def split: option.splits)
  done

end
