(* ===== verification/Wav_File.thy ===== *)
theory Wav_File
  imports Demod_Thread Context Std_Strings State_Machine "HOL-Library.Word"
begin

text \<open>
  Recording to WAV files: \<open>AudioFile\<close> and \<open>AudioFileWAV\<close> (src/src/cubic/audio/AudioFile.cpp,
  AudioFileWAV.cpp). The disk maps paths to bytes; a path can be opened for reading if it is there.
  Whether a path can be opened for writing is the argument \<open>opens\<close>, the folder of the recordings
  is \<open>recPath\<close>, and the limit on the size of a file is an argument too, \<open>MAX_WAV_FILE_SIZE\<close> in the program.
\<close>

section \<open>Bytes\<close>

type_synonym byte = "8 word"
type_synonym disk = "string \<rightharpoonup> byte list"

definition chars :: "string \<Rightarrow> byte list" where
  "chars s = map (\<lambda>c. word_of_nat (of_char c)) s"

text \<open>The bytes of a value from the lowest up; a negative value is shifted arithmetically.\<close>

fun write_word :: "nat \<Rightarrow> int \<Rightarrow> byte list" where
  "write_word 0 v = []"
| "write_word (Suc n) v = word_of_int v # write_word n (v div 256)"

section \<open>State\<close>

definition MAX_WAV_FILE_SIZE :: int where
  "MAX_WAV_FILE_SIZE = 0x7FFFFFFF - 1024"

text \<open>\<open>wv_open\<close> is the path of the file that is open.\<close>

record wav_file =
  wv_filenameBase :: string
  wv_open :: "string option"
  wv_dataChunkPos :: int
  wv_currentFileSize :: int
  wv_currentSequenceNumber :: int

definition AudioFileWAV_init :: wav_file where
  "AudioFileWAV_init = \<lparr>wv_filenameBase = '''', wv_open = None, wv_dataChunkPos = 0, wv_currentFileSize = 0, wv_currentSequenceNumber = 0\<rparr>"

definition file_bytes :: "string \<Rightarrow> disk \<Rightarrow> byte list" where
  "file_bytes f d = (case d f of None \<Rightarrow> [] | Some b \<Rightarrow> b)"

text \<open>Writing to a stream that is not open does nothing, and its position is -1.\<close>

definition put_bytes :: "byte list \<Rightarrow> wav_file \<times> disk \<Rightarrow> wav_file \<times> disk" where
  "put_bytes bs st = (case wv_open (fst st) of None \<Rightarrow> st | Some f \<Rightarrow> (fst st, (snd st)(f \<mapsto> file_bytes f (snd st) @ bs)))"

definition tellp :: "wav_file \<times> disk \<Rightarrow> int" where
  "tellp st = (case wv_open (fst st) of None \<Rightarrow> - 1 | Some f \<Rightarrow> int (length (file_bytes f (snd st))))"

section \<open>The name of the next file\<close>

definition stripChars :: string where
  "stripChars = [CHR ''<'', CHR ''>'', CHR '':'', CHR 0x22, CHR ''/'', CHR 0x5C, CHR ''|'', CHR ''?'', CHR ''*'']"

definition filenameBaseSafe :: "string \<Rightarrow> string" where
  "filenameBaseSafe base = map (\<lambda>c. if c \<in> set stripChars then CHR ''_'' else c) base"

definition sequence_suffix :: "int \<Rightarrow> string" where
  "sequence_suffix n = (if 0 < n then CHR ''_'' # replicate (3 - length (to_string n)) CHR ''0'' @ to_string n else [])"

partial_function (option) next_free :: "disk \<Rightarrow> string \<Rightarrow> nat \<Rightarrow> string \<Rightarrow> string option" where
  "next_free d name idx candidate =
     (if d (candidate @ ''.wav'') \<noteq> None then next_free d name (idx + 1) (name @ ''-'' @ to_string (int (idx + 1)))
      else Some (candidate @ ''.wav''))"

definition getOutputFileName :: "string \<Rightarrow> wav_file \<Rightarrow> disk \<Rightarrow> string option" where
  "getOutputFileName recPath w d =
     (let name = recPath @ ''/'' @ filenameBaseSafe (wv_filenameBase w) @ sequence_suffix (wv_currentSequenceNumber w)
      in next_free d name 0 name)"

definition setOutputFileName :: "string \<Rightarrow> wav_file \<Rightarrow> wav_file" where
  "setOutputFileName name w =
     (if name \<noteq> wv_filenameBase w then w\<lparr>wv_currentSequenceNumber := 0\<rparr> else w)\<lparr>wv_filenameBase := name\<rparr>"

section \<open>Header, payload, end\<close>

definition writeHeaderToFileStream :: "'a audio_input_scheme \<Rightarrow> wav_file \<times> disk \<Rightarrow> (wav_file \<times> disk) result" where
  "writeHeaderToFileStream a st =
     (let ch = ai_channels a; rate = ai_sampleRate a
      in if \<not> (in_int32 (rate * 16) \<and> in_int32 (rate * 16 * ch) \<and> in_int32 (ch * 2)) then Inl Signed_Overflow
         else let st1 = put_bytes (chars ''RIFF----WAVEfmt '' @ write_word 4 16 @ write_word 2 1 @ write_word 2 ch @ write_word 4 rate @
                          write_word 4 (cdiv (rate * 16 * ch) 8) @ write_word 2 (ch * 2) @ write_word 2 16) st
              in Inr (put_bytes (chars ''data----'')
                        ((fst st1)\<lparr>wv_dataChunkPos := tellp st1 mod 2 ^ 64, wv_currentFileSize := tellp st1\<rparr>, snd st1)))"

definition intScale :: "rat \<Rightarrow> rat" where
  "intScale peak = (if peak < 1 then 32767 else 32767 / peak)"

text \<open>The samples of the half-open range that the loops visit.\<close>

definition payload_samples :: "int \<Rightarrow> rat list \<Rightarrow> nat \<Rightarrow> nat \<Rightarrow> rat list" where
  "payload_samples ch data start end =
     (if ch = 1 then map ((!) data) [start..<end]
      else if ch = 2 then concat (map (\<lambda>i. [data ! (i * 2), data ! (i * 2 + 1)]) [start..<end div 2])
      else [])"

fun sample_bytes :: "rat \<Rightarrow> rat list \<Rightarrow> byte list result" where
  "sample_bytes scale [] = Inr []"
| "sample_bytes scale (x # xs) =
     (let v = float_to_int (x * scale)
      in if in_int32 v then bind_result (sample_bytes scale xs) (\<lambda>bs. Inr (write_word 2 v @ bs)) else Inl Signed_Overflow)"

definition writePayloadToFileStream :: "'a audio_input_scheme \<Rightarrow> nat \<Rightarrow> nat \<Rightarrow> wav_file \<times> disk \<Rightarrow> (wav_file \<times> disk) result" where
  "writePayloadToFileStream a start end st =
     bind_result (sample_bytes (intScale (ai_peak a)) (payload_samples (ai_channels a) (ai_data a) start end)) (\<lambda>bs.
       case put_bytes bs st of (w, d) \<Rightarrow> Inr (w\<lparr>wv_currentFileSize := wv_currentFileSize w + int (length bs)\<rparr>, d))"

definition getMaxWritableNumberOfSamples :: "int \<Rightarrow> 'a audio_input_scheme \<Rightarrow> wav_file \<Rightarrow> nat result" where
  "getMaxWritableNumberOfSamples maxSize a w =
     (if \<not> in_int32 (ai_channels a * 2) then Inl Signed_Overflow else if ai_channels a = 0 then Inl Div_By_Zero
      else Inr (nat (cdiv (maxSize - wv_currentFileSize w) (ai_channels a * 2) mod 2 ^ 64)))"

text \<open>\<open>seekp\<close> and overwriting.\<close>

definition patch :: "nat \<Rightarrow> byte list \<Rightarrow> byte list \<Rightarrow> byte list" where
  "patch p bs xs = take p xs @ bs @ drop (p + length bs) xs"

definition closeFile :: "wav_file \<times> disk \<Rightarrow> wav_file \<times> disk" where
  "closeFile st =
     (case wv_open (fst st) of
        None \<Rightarrow> st
      | Some f \<Rightarrow>
          let file_length = tellp st;
              xs1 = patch (nat (wv_dataChunkPos (fst st) + 4)) (write_word 4 (file_length - (wv_dataChunkPos (fst st) + 8))) (file_bytes f (snd st));
              xs2 = patch 4 (write_word 4 (file_length - 8)) xs1
          in ((fst st)\<lparr>wv_open := None, wv_currentFileSize := 0\<rparr>, (snd st)(f \<mapsto> xs2)))"

section \<open>Writing samples\<close>

text \<open>\<open>open\<close> truncates what it opens. \<open>None\<close> is a search for a free name that does not end.\<close>

definition open_file :: "string \<Rightarrow> (string \<Rightarrow> bool) \<Rightarrow> wav_file \<times> disk \<Rightarrow> (wav_file \<times> disk) option" where
  "open_file recPath opens st =
     map_option (\<lambda>f. if opens f then ((fst st)\<lparr>wv_open := Some f, wv_currentFileSize := 0\<rparr>, (snd st)(f \<mapsto> []))
                     else ((fst st)\<lparr>wv_currentFileSize := 0\<rparr>, snd st))
       (getOutputFileName recPath (fst st) (snd st))"

definition start_file :: "string \<Rightarrow> (string \<Rightarrow> bool) \<Rightarrow> 'a audio_input_scheme \<Rightarrow> wav_file \<times> disk \<Rightarrow> (wav_file \<times> disk) outcome" where
  "start_file recPath opens a st = map_option (writeHeaderToFileStream a) (open_file recPath opens st)"

definition wav_writeToFile :: "int \<Rightarrow> string \<Rightarrow> (string \<Rightarrow> bool) \<Rightarrow> 'a audio_input_scheme \<Rightarrow> wav_file \<times> disk \<Rightarrow> (wav_file \<times> disk) outcome" where
  "wav_writeToFile maxSize recPath opens a st =
     bind_outcome (if wv_open (fst st) = None then start_file recPath opens a st else Some (Inr st)) (\<lambda>st1.
     bind_outcome (Some (getMaxWritableNumberOfSamples maxSize a (fst st1))) (\<lambda>room.
     if length (ai_data a) \<le> room then Some (writePayloadToFileStream a 0 (length (ai_data a)) st1)
     else
       bind_outcome (Some (writePayloadToFileStream a 0 room st1)) (\<lambda>st2.
       case closeFile st2 of (w3, d3) \<Rightarrow>
       bind_outcome (start_file recPath opens a (w3\<lparr>wv_currentSequenceNumber := wv_currentSequenceNumber w3 + 1\<rparr>, d3)) (\<lambda>st4.
       Some (writePayloadToFileStream a room (length (ai_data a)) st4)))))"

section \<open>Reading a file back\<close>

text \<open>A reader of the format, for the statements: rate, channels and samples of a complete file.\<close>

fun read_le :: "byte list \<Rightarrow> int" where
  "read_le [] = 0"
| "read_le (b # bs) = uint b + 256 * read_le bs"

definition field :: "nat \<Rightarrow> nat \<Rightarrow> byte list \<Rightarrow> byte list" where
  "field p n bs = take n (drop p bs)"

definition signed16 :: "int \<Rightarrow> int" where
  "signed16 v = (if v < 2 ^ 15 then v else v - 2 ^ 16)"

fun read_samples :: "byte list \<Rightarrow> int list" where
  "read_samples (a # b # bs) = signed16 (read_le [a, b]) # read_samples bs"
| "read_samples bs = []"

definition read_wav :: "byte list \<Rightarrow> (int \<times> int \<times> int list) option" where
  "read_wav bs =
     (let n = int (length bs); rate = read_le (field 24 4 bs); ch = read_le (field 22 2 bs)
      in if field 0 4 bs = chars ''RIFF'' \<and> read_le (field 4 4 bs) = n - 8 \<and> field 8 8 bs = chars ''WAVEfmt '' \<and>
            read_le (field 16 4 bs) = 16 \<and> read_le (field 20 2 bs) = 1 \<and> read_le (field 28 4 bs) = rate * ch * 2 \<and>
            read_le (field 32 2 bs) = ch * 2 \<and> read_le (field 34 2 bs) = 16 \<and> field 36 4 bs = chars ''data'' \<and>
            read_le (field 40 4 bs) = n - 44
         then Some (rate, ch, read_samples (drop 44 bs)) else None)"

definition in_int16 :: "int \<Rightarrow> bool" where
  "in_int16 v \<longleftrightarrow> - (2 ^ 15) \<le> v \<and> v < 2 ^ 15"

lemma length_write_word [simp]: "length (write_word n v) = n"
  by (induction n arbitrary: v) auto

lemma length_chars [simp]: "length (chars s) = length s"
  by (simp add: chars_def)

lemma read_le_write_word: "read_le (write_word n v) = v mod 256 ^ n"
proof (induction n arbitrary: v)
  case (Suc n)
  have "v mod (256 * 256 ^ n) = 256 * (v div 256 mod 256 ^ n) + v mod 256" by (rule zmod_zmult2_eq) simp
  then show ?case by (simp add: Suc uint_word_of_int)
qed simp

lemma signed16_mod: "in_int16 v \<Longrightarrow> signed16 (v mod 2 ^ 16) = v"
proof (cases "0 \<le> v")
  case False
  assume "in_int16 v"
  with False have "v mod 2 ^ 16 = v + 2 ^ 16" by (intro int_mod_pos_eq [where q = "- 1"]) (auto simp: in_int16_def)
  with False \<open>in_int16 v\<close> show ?thesis by (auto simp: signed16_def in_int16_def)
qed (auto simp: signed16_def in_int16_def)

definition words16 :: "int list \<Rightarrow> byte list" where
  "words16 ss = concat (map (write_word 2) ss)"

lemma words16_simps [simp]: "words16 [] = []" "words16 (s # ss) = write_word 2 s @ words16 ss" "words16 (ss @ ts) = words16 ss @ words16 ts"
  by (simp_all add: words16_def)

lemma length_words16 [simp]: "length (words16 ss) = 2 * length ss"
  by (induction ss) auto

lemma read_samples_words16: "\<forall>s\<in>set ss. in_int16 s \<Longrightarrow> read_samples (words16 ss) = ss"
proof (induction ss)
  case (Cons s ss)
  have w: "write_word 2 s = [word_of_int s, word_of_int (s div 256)]" by (simp add: numeral_2_eq_2)
  have "read_samples (write_word 2 s @ words16 ss) = signed16 (read_le (write_word 2 s)) # read_samples (words16 ss)" by (simp add: w)
  then show ?case using Cons signed16_mod [of s] by (simp add: read_le_write_word del: read_le.simps)
qed simp

text \<open>A file while it is written, with dashes for the two sizes, and when it is closed.\<close>

definition wav_image :: "byte list \<Rightarrow> byte list \<Rightarrow> int \<Rightarrow> int \<Rightarrow> byte list \<Rightarrow> byte list" where
  "wav_image a b rate ch payload =
     chars ''RIFF'' @ a @ chars ''WAVEfmt '' @ write_word 4 16 @ write_word 2 1 @ write_word 2 ch @ write_word 4 rate @
     write_word 4 (rate * ch * 2) @ write_word 2 (ch * 2) @ write_word 2 16 @ chars ''data'' @ b @ payload"

definition unfinished :: "int \<Rightarrow> int \<Rightarrow> int list \<Rightarrow> byte list" where
  "unfinished rate ch ss = wav_image (chars ''----'') (chars ''----'') rate ch (words16 ss)"

definition finished :: "int \<Rightarrow> int \<Rightarrow> int list \<Rightarrow> byte list" where
  "finished rate ch ss =
     wav_image (write_word 4 (36 + 2 * int (length ss))) (write_word 4 (2 * int (length ss))) rate ch (words16 ss)"

lemma length_wav_image: "length a = 4 \<Longrightarrow> length b = 4 \<Longrightarrow> length (wav_image a b rate ch p) = 44 + length p"
  by (simp add: wav_image_def)

lemma field_simps [simp]:
  "field 0 n (xs @ ys) = (if n \<le> length xs then take n xs else xs @ field 0 (n - length xs) ys)"
  "0 < p \<Longrightarrow> length xs \<le> p \<Longrightarrow> field p n (xs @ ys) = field (p - length xs) n ys"
  by (simp_all add: field_def)

theorem read_wav_finished:
  assumes "0 \<le> rate" "rate < 2 ^ 26" "0 < ch" "ch \<le> 2" "\<forall>s\<in>set ss. in_int16 s" "36 + 2 * int (length ss) < 2 ^ 32"
  shows "read_wav (finished rate ch ss) = Some (rate, ch, ss)"
proof -
  let ?b = "finished rate ch ss"
  have len: "length ?b = 44 + 2 * length ss" by (simp add: finished_def length_wav_image)
  have small: "rate * ch * 2 < 2 ^ 32" "0 \<le> rate * ch * 2"
  proof -
    have "ch = 1 \<or> ch = 2" using assms(3,4) by auto
    then show "rate * ch * 2 < 2 ^ 32" "0 \<le> rate * ch * 2" using assms(1,2) by auto
  qed
  have d: "drop 44 ?b = words16 ss" by (simp add: finished_def wav_image_def)
  show ?thesis
    unfolding read_wav_def Let_def len d
    using assms small by (simp add: finished_def wav_image_def read_le_write_word read_samples_words16)
qed

section \<open>The name is free\<close>

definition numbered :: "string \<Rightarrow> nat \<Rightarrow> string" where
  "numbered name k = name @ ''-'' @ to_string (int k)"

lemma numbered_inj: "inj (\<lambda>k. numbered name k @ ''.wav'')"
  by (rule injI) (simp add: numbered_def to_string_inject)

lemma next_free_numbered:
  assumes "finite (dom d)"
  shows "\<exists>f. next_free d name k (numbered name k) = Some f \<and> d f = None"
proof (induction "card {j. k \<le> j \<and> d (numbered name j @ ''.wav'') \<noteq> None}" arbitrary: k rule: less_induct)
  case less
  let ?A = "\<lambda>k. {j. k \<le> j \<and> d (numbered name j @ ''.wav'') \<noteq> None}"
  have fin: "finite (?A k)" for k
  proof (rule finite_subset)
    show "?A k \<subseteq> (\<lambda>k. numbered name k @ ''.wav'') -` dom d" by auto
    show "finite ((\<lambda>k. numbered name k @ ''.wav'') -` dom d)" by (rule finite_vimageI [OF assms numbered_inj])
  qed
  show ?case
  proof (cases "d (numbered name k @ ''.wav'') = None")
    case True
    then show ?thesis by (subst next_free.simps) simp
  next
    case False
    have "?A (k + 1) \<subset> ?A k" using False by (auto simp: psubset_eq Suc_le_eq)
    then have "card (?A (k + 1)) < card (?A k)" by (rule psubset_card_mono [OF fin])
    from less [OF this] False show ?thesis
      by (subst next_free.simps) (simp add: numbered_def)
  qed
qed

text \<open>
  A name for a recording is always found, and it is never that of a file that is there: a recording does not
  overwrite another.
\<close>

lemma getOutputFileName_free:
  assumes "finite (dom d)"
  shows "\<exists>f. getOutputFileName recPath w d = Some f \<and> d f = None"
proof -
  define name where "name = recPath @ ''/'' @ filenameBaseSafe (wv_filenameBase w) @ sequence_suffix (wv_currentSequenceNumber w)"
  have e: "getOutputFileName recPath w d = next_free d name 0 name" by (simp add: getOutputFileName_def name_def Let_def)
  show ?thesis
  proof (cases "d (name @ ''.wav'') = None")
    case True
    then show ?thesis unfolding e by (subst next_free.simps) simp
  next
    case False
    then show ?thesis unfolding e using next_free_numbered [OF assms, of name 1] by (subst next_free.simps) (simp add: numbered_def)
  qed
qed

section \<open>What is on the disk\<close>

text \<open>
  A part of a recording: its path, rate, channels and samples. The parts of a recording are on the disk beside
  the files that were there before, all of them finished but the last, if it is open.
\<close>

type_synonym part = "string \<times> int \<times> int \<times> int list"

definition wav_part_ok :: "int \<Rightarrow> part \<Rightarrow> bool" where
  "wav_part_ok maxSize p \<longleftrightarrow> (case p of (f, rate, ch, ss) \<Rightarrow>
     0 \<le> rate \<and> rate < 2 ^ 26 \<and> 0 < ch \<and> ch \<le> 2 \<and> (\<forall>s\<in>set ss. in_int16 s) \<and> 36 + 2 * int (length ss) \<le> maxSize)"

definition on_disk :: "string option \<Rightarrow> disk \<Rightarrow> part \<Rightarrow> bool" where
  "on_disk opened d p \<longleftrightarrow> (case p of (f, rate, ch, ss) \<Rightarrow> d f = Some (if opened = Some f then unfinished rate ch ss else finished rate ch ss))"

definition rec_inv :: "int \<Rightarrow> disk \<Rightarrow> part list \<Rightarrow> wav_file \<times> disk \<Rightarrow> bool" where
  "rec_inv maxSize d0 parts st \<longleftrightarrow> (case st of (w, d) \<Rightarrow>
     finite (dom d0) \<and> distinct (map fst parts) \<and> fst ` set parts \<inter> dom d0 = {} \<and> dom d = dom d0 \<union> fst ` set parts \<and>
     (\<forall>f\<in>dom d0. d f = d0 f) \<and> (\<forall>p\<in>set parts. wav_part_ok maxSize p \<and> on_disk (wv_open w) d p) \<and>
     (\<forall>f. wv_open w = Some f \<longrightarrow> parts \<noteq> [] \<and> fst (last parts) = f \<and> wv_dataChunkPos w = 36 \<and>
        wv_currentFileSize w = 36 + 2 * int (length (snd (snd (snd (last parts)))))))"

text \<open>What was recorded: every sample with the rate of its file, in order.\<close>

definition recorded :: "part list \<Rightarrow> (int \<times> int) list" where
  "recorded parts = concat (map (\<lambda>(f, rate, ch, ss). map (Pair rate) ss) parts)"

lemma recorded_simps [simp]: "recorded [] = []" "recorded (ps @ qs) = recorded ps @ recorded qs"
  "recorded [(f, rate, ch, ss)] = map (Pair rate) ss"
  by (simp_all add: recorded_def)

definition part_format :: "part \<Rightarrow> int \<times> int" where
  "part_format p = (case p of (f, rate, ch, ss) \<Rightarrow> (rate, ch))"

lemma part_format_simp [simp]: "part_format (f, rate, ch, ss) = (rate, ch)"
  by (simp add: part_format_def)

lemma rec_inv_init: "finite (dom d0) \<Longrightarrow> wv_open w = None \<Longrightarrow> rec_inv maxSize d0 [] (w, d0)"
  by (simp add: rec_inv_def)

lemma unfinished_append: "unfinished rate ch ss @ words16 ts = unfinished rate ch (ss @ ts)"
  by (simp add: unfinished_def wav_image_def)

lemma header_image:
  assumes "0 < ch" "0 \<le> rate"
  shows "chars ''RIFF----WAVEfmt '' @ write_word 4 16 @ write_word 2 1 @ write_word 2 ch @ write_word 4 rate @
      write_word 4 (cdiv (rate * 16 * ch) 8) @ write_word 2 (ch * 2) @ write_word 2 16 @ chars ''data----'' = unfinished rate ch []"
proof -
  have "cdiv (rate * 16 * ch) 8 = rate * ch * 2" using assms cdiv_nonneg [of "rate * 16 * ch" 8] by simp
  then show ?thesis by (simp add: unfinished_def wav_image_def chars_def)
qed

lemma patch_sizes:
  assumes "length a = 4" "length b = 4" "length a' = 4" "length b' = 4"
  shows "patch 4 a' (patch 40 b' (wav_image a b rate ch p)) = wav_image a' b' rate ch p"
  using assms by (simp add: patch_def wav_image_def)

lemma closeFile_inv:
  assumes "rec_inv maxSize d0 parts st"
  shows "rec_inv maxSize d0 parts (closeFile st) \<and> wv_open (fst (closeFile st)) = None"
proof (cases "wv_open (fst st)")
  case None
  then show ?thesis using assms by (simp add: closeFile_def)
next
  case (Some f)
  obtain w d where st: "st = (w, d)" by (cases st)
  from assms Some obtain ps rate ch ss where parts: "parts = ps @ [(f, rate, ch, ss)]" and dcp: "wv_dataChunkPos w = 36"
    by (cases parts rule: rev_cases) (auto simp: rec_inv_def st)
  have df: "d f = Some (unfinished rate ch ss)" using assms Some by (simp add: rec_inv_def st parts on_disk_def)
  have len: "length (unfinished rate ch ss) = 44 + 2 * length ss" by (simp add: unfinished_def length_wav_image)
  have e: "closeFile st = (w\<lparr>wv_open := None, wv_currentFileSize := 0\<rparr>, d(f \<mapsto> finished rate ch ss))"
    using Some df len by (simp add: closeFile_def st tellp_def file_bytes_def dcp Let_def)
      (simp add: unfinished_def finished_def patch_sizes add.commute)
  have a: "finite (dom d0)" "distinct (map fst parts)" "fst ` set parts \<inter> dom d0 = {}" "dom d = dom d0 \<union> fst ` set parts"
    "\<forall>f\<in>dom d0. d f = d0 f" "\<forall>p\<in>set parts. wav_part_ok maxSize p \<and> on_disk (wv_open w) d p"
    using assms by (simp_all add: rec_inv_def st)
  have f: "f \<in> fst ` set parts" by (simp add: parts)
  with a(3) have old: "f \<notin> dom d0" by blast
  have "on_disk None (d(f \<mapsto> finished rate ch ss)) p" if p: "p \<in> set parts" for p
  proof (cases "fst p = f")
    case True
    then have "p = (f, rate, ch, ss)" using p eq_key_imp_eq_value [OF a(2), of f "snd p" "(rate, ch, ss)"] by (cases p) (simp add: parts)
    then show ?thesis by (simp add: on_disk_def)
  next
    case False
    then have "fst p \<noteq> f" "wv_open w = Some f" using Some by (simp_all add: st)
    then show ?thesis using a(6) p by (cases p) (auto simp: on_disk_def)
  qed
  moreover have "dom (d(f \<mapsto> b)) = dom d0 \<union> fst ` set parts" for b using a(4) f by auto
  moreover have "\<forall>g\<in>dom d0. (d(f \<mapsto> b)) g = d0 g" for b using a(5) old by auto
  ultimately show ?thesis using a by (simp add: e rec_inv_def del: dom_fun_upd)
qed

section \<open>Samples\<close>

definition peak_ok :: "'a audio_input_scheme \<Rightarrow> bool" where
  "peak_ok a \<longleftrightarrow> (\<forall>x\<in>set (ai_data a). \<bar>x\<bar> \<le> ai_peak a)"

definition quantised :: "'a audio_input_scheme \<Rightarrow> int list" where
  "quantised a = map (\<lambda>x. float_to_int (x * intScale (ai_peak a))) (ai_data a)"

lemma float_to_int_bound: "\<bar>x\<bar> \<le> of_int n \<Longrightarrow> \<bar>float_to_int x\<bar> \<le> n"
  by (auto simp: float_to_int_def abs_le_iff le_floor_iff floor_le_iff) linarith+

lemma scaled_bound:
  assumes "\<bar>x\<bar> \<le> peak"
  shows "\<bar>x * intScale peak\<bar> \<le> 32767"
proof (cases "peak < 1")
  case True
  with assms have "\<bar>x\<bar> \<le> 1" by simp
  then show ?thesis using True by (simp add: intScale_def abs_mult)
next
  case False
  then have "0 < peak" by simp
  then show ?thesis using False assms by (simp add: intScale_def abs_mult divide_le_eq mult.commute)
qed

lemma scaled_in_int16:
  assumes "\<bar>x\<bar> \<le> peak"
  shows "in_int16 (float_to_int (x * intScale peak))"
  using float_to_int_bound [of "x * intScale peak" 32767] scaled_bound [OF assms] by (auto simp: in_int16_def)

text \<open>The peak that the demodulator's thread attaches bounds the samples.\<close>

lemma audio_peak_bound: "\<forall>x\<in>set xs. \<bar>x\<bar> \<le> audio_peak xs"
proof -
  have "(\<forall>x\<in>set xs. \<bar>x\<bar> \<le> foldl (\<lambda>p x. if \<bar>x\<bar> > p then \<bar>x\<bar> else p) q xs) \<and> q \<le> foldl (\<lambda>p x. if \<bar>x\<bar> > p then \<bar>x\<bar> else p) q xs" for q :: rat
    by (induction xs arbitrary: q) (auto, (meson order.trans not_less less_imp_le)+)
  then show ?thesis by (simp add: audio_peak_def)
qed

lemma finish_audio_peak_ok: "peak_ok (finish_audio squelched a)"
  using audio_peak_bound by (simp add: peak_ok_def finish_audio_def)

lemma sample_bytes_in_range:
  "\<forall>x\<in>set xs. in_int16 (float_to_int (x * scale)) \<Longrightarrow> sample_bytes scale xs = Inr (words16 (map (\<lambda>x. float_to_int (x * scale)) xs))"
  by (induction xs) (auto simp: in_int16_def in_int32_def Let_def)

section \<open>Steps of a recording\<close>

definition format_ok :: "'a audio_input_scheme \<Rightarrow> bool" where
  "format_ok a \<longleftrightarrow> 0 \<le> ai_sampleRate a \<and> ai_sampleRate a < 2 ^ 26 \<and> 0 < ai_channels a \<and> ai_channels a \<le> 2"

lemma writeHeader_fresh:
  assumes "wv_open w = Some f" "d f = Some []" "format_ok a"
  shows "writeHeaderToFileStream a (w, d) =
    Inr (w\<lparr>wv_dataChunkPos := 36, wv_currentFileSize := 36\<rparr>, d(f \<mapsto> unfinished (ai_sampleRate a) (ai_channels a) []))"
proof -
  have ch: "ai_channels a = 1 \<or> ai_channels a = 2" "0 \<le> ai_sampleRate a" "ai_sampleRate a < 2 ^ 26" using assms(3) by (auto simp: format_ok_def)
  then have range: "in_int32 (ai_sampleRate a * 16) \<and> in_int32 (ai_sampleRate a * 16 * ai_channels a) \<and> in_int32 (ai_channels a * 2)"
    by (auto simp: in_int32_def)
  have pos: "0 < ai_channels a" using ch(1) by auto
  show ?thesis using assms(1,2) range
    unfolding header_image [OF pos ch(2), symmetric] by (simp add: writeHeaderToFileStream_def put_bytes_def tellp_def file_bytes_def Let_def)
qed

lemma start_file_inv:
  assumes inv: "rec_inv maxSize d0 parts st" and closed: "wv_open (fst st) = None" and "\<forall>f. opens f" "format_ok a" "36 \<le> maxSize"
  shows "\<exists>f st'. start_file recPath opens a st = Some (Inr st') \<and> wv_open (fst st') = Some f \<and>
    rec_inv maxSize d0 (parts @ [(f, ai_sampleRate a, ai_channels a, [])]) st'"
proof -
  obtain w d where st: "st = (w, d)" by (cases st)
  have a: "finite (dom d0)" "distinct (map fst parts)" "fst ` set parts \<inter> dom d0 = {}" "dom d = dom d0 \<union> fst ` set parts"
    "\<forall>f\<in>dom d0. d f = d0 f" "\<forall>p\<in>set parts. wav_part_ok maxSize p \<and> on_disk None d p"
    using inv closed by (simp_all add: rec_inv_def st)
  have "finite (dom d)" using a(1,4) by simp
  then obtain f where f: "getOutputFileName recPath w d = Some f" "d f = None" using getOutputFileName_free by blast
  then have new: "f \<notin> dom d0" "f \<notin> fst ` set parts" using a(4) by (auto simp: domIff)
  let ?rate = "ai_sampleRate a" and ?ch = "ai_channels a"
  let ?w1 = "w\<lparr>wv_open := Some f, wv_currentFileSize := 0\<rparr>"
  have e: "start_file recPath opens a st =
      Some (Inr (?w1\<lparr>wv_dataChunkPos := 36, wv_currentFileSize := 36\<rparr>, d(f \<mapsto> unfinished ?rate ?ch [])))"
    using f(1) assms(3) writeHeader_fresh [of ?w1 f "d(f \<mapsto> [])" a] assms(4) by (simp add: start_file_def open_file_def st)
  let ?p = "(f, ?rate, ?ch, []) :: part" and ?d = "d(f \<mapsto> unfinished ?rate ?ch [])"
  have "wav_part_ok maxSize ?p \<and> on_disk (Some f) ?d ?p" using assms(4,5) by (simp add: wav_part_ok_def on_disk_def format_ok_def)
  moreover have "on_disk (Some f) ?d p" if "p \<in> set parts" for p
    using a(6) that new(2) by (cases p) (force simp: on_disk_def)
  ultimately have p: "\<forall>p\<in>set (parts @ [?p]). wav_part_ok maxSize p \<and> on_disk (Some f) ?d p" using a(6) by simp
  have d: "distinct (map fst (parts @ [?p]))" "fst ` set (parts @ [?p]) \<inter> dom d0 = {}" "dom ?d = dom d0 \<union> fst ` set (parts @ [?p])"
    "\<forall>g\<in>dom d0. ?d g = d0 g"
    using a(2,3,4,5) new by auto
  have "rec_inv maxSize d0 (parts @ [?p]) (?w1\<lparr>wv_dataChunkPos := 36, wv_currentFileSize := 36\<rparr>, ?d)"
    unfolding rec_inv_def prod.case using a(1) d p by (intro conjI) simp_all
  with e show ?thesis by (intro exI conjI) auto
qed

lemma put_bytes_inv:
  assumes inv: "rec_inv maxSize d0 (ps @ [(f, rate, ch, ss)]) (w, d)" and "wv_open w = Some f"
    and new: "\<forall>t\<in>set ts. in_int16 t" "36 + 2 * int (length (ss @ ts)) \<le> maxSize"
  shows "\<exists>d'. put_bytes (words16 ts) (w, d) = (w, d') \<and>
    rec_inv maxSize d0 (ps @ [(f, rate, ch, ss @ ts)]) (w\<lparr>wv_currentFileSize := wv_currentFileSize w + int (length (words16 ts))\<rparr>, d')"
proof -
  let ?parts = "ps @ [(f, rate, ch, ss)]" and ?parts' = "ps @ [(f, rate, ch, ss @ ts)]"
  have a: "finite (dom d0)" "distinct (map fst ?parts)" "fst ` set ?parts \<inter> dom d0 = {}" "dom d = dom d0 \<union> fst ` set ?parts"
    "\<forall>f\<in>dom d0. d f = d0 f" "\<forall>p\<in>set ?parts. wav_part_ok maxSize p \<and> on_disk (wv_open w) d p"
    "wv_dataChunkPos w = 36" "wv_currentFileSize w = 36 + 2 * int (length ss)"
    using inv assms(2) unfolding rec_inv_def prod.case by simp_all
  have old: "f \<notin> dom d0" "f \<notin> fst ` set ps" "f \<in> dom d" using a(2,3,4) by auto
  have df: "file_bytes f d = unfinished rate ch ss" using a(6) assms(2) by (simp add: on_disk_def file_bytes_def)
  let ?d = "d(f \<mapsto> unfinished rate ch (ss @ ts))"
  have put: "put_bytes (words16 ts) (w, d) = (w, ?d)" using assms(2) df by (simp add: put_bytes_def unfinished_append)
  have "wav_part_ok maxSize (f, rate, ch, ss @ ts) \<and> on_disk (Some f) ?d (f, rate, ch, ss @ ts)"
    using a(6) new by (auto simp: wav_part_ok_def on_disk_def)
  moreover have "on_disk (Some f) ?d p" if "p \<in> set ps" for p
    using a(6) that old(2) assms(2) by (cases p) (force simp: on_disk_def)
  ultimately have p: "\<forall>p\<in>set ?parts'. wav_part_ok maxSize p \<and> on_disk (wv_open w) ?d p" using a(6) assms(2) by simp
  have m: "map fst ?parts' = map fst ?parts" "fst ` set ?parts' = fst ` set ?parts" by simp_all
  have d: "dom ?d = dom d0 \<union> fst ` set ?parts'" "\<forall>g\<in>dom d0. ?d g = d0 g" using a(4,5) old by auto
  have "rec_inv maxSize d0 ?parts' (w\<lparr>wv_currentFileSize := wv_currentFileSize w + int (length (words16 ts))\<rparr>, ?d)"
    unfolding rec_inv_def prod.case m(1) using a(1,2,3,7,8) d p m assms(2) by (intro conjI) simp_all
  with put show ?thesis by blast
qed

text \<open>The samples of a range, as numbers.\<close>

definition quantised_range :: "'a audio_input_scheme \<Rightarrow> nat \<Rightarrow> nat \<Rightarrow> int list" where
  "quantised_range a start end =
     map (\<lambda>x. float_to_int (x * intScale (ai_peak a))) (payload_samples (ai_channels a) (ai_data a) start end)"

lemma payload_samples_subset: "end \<le> length data \<Longrightarrow> set (payload_samples ch data start end) \<subseteq> set data"
  by (auto simp: payload_samples_def)

lemma quantised_range_in_int16: "peak_ok a \<Longrightarrow> end \<le> length (ai_data a) \<Longrightarrow> \<forall>t\<in>set (quantised_range a start end). in_int16 t"
  using payload_samples_subset [of "end" "ai_data a" "ai_channels a" start] scaled_in_int16
  by (auto simp: quantised_range_def peak_ok_def)

lemma writePayload_inv:
  assumes "rec_inv maxSize d0 (ps @ [(f, rate, ch, ss)]) st" "wv_open (fst st) = Some f" "peak_ok a" "end \<le> length (ai_data a)"
    "36 + 2 * int (length (ss @ quantised_range a start end)) \<le> maxSize"
  shows "\<exists>st'. writePayloadToFileStream a start end st = Inr st' \<and> wv_open (fst st') = Some f \<and>
    rec_inv maxSize d0 (ps @ [(f, rate, ch, ss @ quantised_range a start end)]) st'"
proof -
  obtain w d where st: "st = (w, d)" by (cases st)
  let ?ts = "quantised_range a start end"
  have r: "\<forall>t\<in>set ?ts. in_int16 t" by (rule quantised_range_in_int16 [OF assms(3,4)])
  have "sample_bytes (intScale (ai_peak a)) (payload_samples (ai_channels a) (ai_data a) start end) = Inr (words16 ?ts)"
    using sample_bytes_in_range r by (simp add: quantised_range_def)
  moreover obtain d' where "put_bytes (words16 ?ts) (w, d) = (w, d')"
    "rec_inv maxSize d0 (ps @ [(f, rate, ch, ss @ ?ts)]) (w\<lparr>wv_currentFileSize := wv_currentFileSize w + int (length (words16 ?ts))\<rparr>, d')"
    using put_bytes_inv [OF assms(1) [unfolded st] _ r assms(5)] assms(2) by (auto simp: st)
  ultimately show ?thesis using assms(2) by (simp add: writePayloadToFileStream_def st)
qed

lemma quantised_range_mono:
  assumes "ai_channels a = 1" "end \<le> length (ai_data a)"
  shows "quantised_range a start end = take (end - start) (drop start (quantised a))"
proof -
  have "map ((!) (ai_data a)) [start..<end] = take (end - start) (drop start (ai_data a))"
    using assms(2) by (intro nth_equalityI) auto
  then show ?thesis using assms(1) by (simp add: quantised_range_def payload_samples_def quantised_def take_map drop_map)
qed

text \<open>One buffer of a mono signal, whether it fits into the file that is open or not.\<close>

definition mono_ok :: "int \<Rightarrow> 'a audio_input_scheme \<Rightarrow> bool" where
  "mono_ok maxSize a \<longleftrightarrow> format_ok a \<and> ai_channels a = 1 \<and> peak_ok a \<and> 36 + 2 * int (length (ai_data a)) \<le> maxSize"

lemma getMax_mono:
  assumes "ai_channels a = 1" "wv_currentFileSize w \<le> maxSize" "maxSize - wv_currentFileSize w < 2 ^ 64"
  shows "getMaxWritableNumberOfSamples maxSize a w = Inr (nat ((maxSize - wv_currentFileSize w) div 2))"
proof -
  have "(maxSize - wv_currentFileSize w) div 2 mod 2 ^ 64 = (maxSize - wv_currentFileSize w) div 2"
    using assms(2,3) by (intro mod_pos_pos_trivial) auto
  then show ?thesis using assms by (simp add: getMaxWritableNumberOfSamples_def cdiv_nonneg in_int32_def)
qed

lemma rec_inv_seq [simp]:
  "rec_inv maxSize d0 parts (w\<lparr>wv_currentSequenceNumber := n\<rparr>, d) \<longleftrightarrow> rec_inv maxSize d0 parts (w, d)"
  "rec_inv maxSize d0 parts (w\<lparr>wv_filenameBase := base\<rparr>, d) \<longleftrightarrow> rec_inv maxSize d0 parts (w, d)"
  by (simp_all add: rec_inv_def)

lemma rec_inv_open:
  assumes "rec_inv maxSize d0 parts st" "wv_open (fst st) = Some f"
  shows "\<exists>ps rate ch ss. parts = ps @ [(f, rate, ch, ss)] \<and> wv_currentFileSize (fst st) = 36 + 2 * int (length ss) \<and>
    36 + 2 * int (length ss) \<le> maxSize"
  using assms by (cases parts rule: rev_cases) (auto simp: rec_inv_def wav_part_ok_def)

text \<open>A buffer goes into the file that is open, or is split between it and the next one.\<close>

lemma wav_writeToFile_start:
  "wv_open (fst st) = None \<Longrightarrow> start_file recPath opens a st = Some (Inr st1) \<Longrightarrow> wv_open (fst st1) = Some f \<Longrightarrow>
   wav_writeToFile maxSize recPath opens a st = wav_writeToFile maxSize recPath opens a st1"
  by (simp add: wav_writeToFile_def)

lemma wav_writeToFile_fits:
  assumes "rec_inv maxSize d0 (ps @ [(f, rate, ch, ss)]) st" "wv_open (fst st) = Some f" "peak_ok a"
    "getMaxWritableNumberOfSamples maxSize a (fst st) = Inr room" "length (ai_data a) \<le> room"
    "36 + 2 * int (length (ss @ quantised_range a 0 (length (ai_data a)))) \<le> maxSize"
  shows "\<exists>st'. wav_writeToFile maxSize recPath opens a st = Some (Inr st') \<and> wv_open (fst st') = Some f \<and>
    rec_inv maxSize d0 (ps @ [(f, rate, ch, ss @ quantised_range a 0 (length (ai_data a)))]) st'"
  using writePayload_inv [OF assms(1,2,3) le_refl assms(6)] assms(2,4,5) by (auto simp: wav_writeToFile_def)

lemma wav_writeToFile_split:
  assumes inv: "rec_inv maxSize d0 (ps @ [(f, rate, ch, ss)]) st" and open1: "wv_open (fst st) = Some f" and peak: "peak_ok a"
    and room: "getMaxWritableNumberOfSamples maxSize a (fst st) = Inr room" "room < length (ai_data a)"
    and fits: "36 + 2 * int (length (ss @ quantised_range a 0 room)) \<le> maxSize"
      "36 + 2 * int (length (quantised_range a room (length (ai_data a)))) \<le> maxSize"
    and opens: "\<forall>f. opens f" and form: "format_ok a"
  shows "\<exists>g st'. wav_writeToFile maxSize recPath opens a st = Some (Inr st') \<and> wv_open (fst st') = Some g \<and>
    rec_inv maxSize d0 (ps @ [(f, rate, ch, ss @ quantised_range a 0 room),
      (g, ai_sampleRate a, ai_channels a, quantised_range a room (length (ai_data a)))]) st'"
proof -
  let ?s1 = "quantised_range a 0 room" and ?s2 = "quantised_range a room (length (ai_data a))"
  obtain st2 where st2: "writePayloadToFileStream a 0 room st = Inr st2" "rec_inv maxSize d0 (ps @ [(f, rate, ch, ss @ ?s1)]) st2"
    using writePayload_inv [OF inv open1 peak _ fits(1)] room(2) by auto
  obtain w3 d3 where c: "closeFile st2 = (w3, d3)" by (cases "closeFile st2")
  let ?w3 = "w3\<lparr>wv_currentSequenceNumber := wv_currentSequenceNumber w3 + 1\<rparr>"
  have inv3: "rec_inv maxSize d0 (ps @ [(f, rate, ch, ss @ ?s1)]) (?w3, d3)" "wv_open (fst (?w3, d3)) = None"
    using closeFile_inv [OF st2(2)] by (simp_all add: c)
  have "36 \<le> maxSize" using fits(2) by simp
  then obtain g st4 where st4: "start_file recPath opens a (?w3, d3) = Some (Inr st4)" "wv_open (fst st4) = Some g"
    "rec_inv maxSize d0 ((ps @ [(f, rate, ch, ss @ ?s1)]) @ [(g, ai_sampleRate a, ai_channels a, [])]) st4"
    using start_file_inv [OF inv3 opens form] by blast
  obtain st5 where st5: "writePayloadToFileStream a room (length (ai_data a)) st4 = Inr st5" "wv_open (fst st5) = Some g"
    "rec_inv maxSize d0 ((ps @ [(f, rate, ch, ss @ ?s1)]) @ [(g, ai_sampleRate a, ai_channels a, [] @ ?s2)]) st5"
    using writePayload_inv [OF st4(3,2) peak le_refl, of room] fits(2) by auto
  with st4(1) st2(1) room open1 c show ?thesis by (auto simp: wav_writeToFile_def)
qed

lemma wav_writeToFile_mono:
  assumes inv: "rec_inv maxSize d0 parts st" and opens: "\<forall>f. opens f" and a: "mono_ok maxSize a" and bound: "maxSize < 2 ^ 64"
    and rate: "wv_open (fst st) \<noteq> None \<longrightarrow> part_format (last parts) = (ai_sampleRate a, 1)"
  shows "\<exists>parts' st'. wav_writeToFile maxSize recPath opens a st = Some (Inr st') \<and> rec_inv maxSize d0 parts' st' \<and>
    wv_open (fst st') \<noteq> None \<and> part_format (last parts') = (ai_sampleRate a, 1) \<and>
    (\<forall>p\<in>set parts'. p \<in> set parts \<or> part_format p = (ai_sampleRate a, 1)) \<and>
    recorded parts' = recorded parts @ map (Pair (ai_sampleRate a)) (quantised a)"
proof -
  let ?n = "length (ai_data a)" and ?rate = "ai_sampleRate a"
  have m: "format_ok a" "ai_channels a = 1" "peak_ok a" "36 + 2 * int ?n \<le> maxSize" "36 \<le> maxSize" using a by (auto simp: mono_ok_def)
  obtain st1 f ps ss where st1: "(if wv_open (fst st) = None then start_file recPath opens a st else Some (Inr st)) = Some (Inr st1)"
    and inv1: "rec_inv maxSize d0 (ps @ [(f, ?rate, 1, ss)]) st1" and open1: "wv_open (fst st1) = Some f"
    and rec1: "recorded (ps @ [(f, ?rate, 1, ss)]) = recorded parts" and old: "set ps \<subseteq> set parts"
  proof (cases "wv_open (fst st)")
    case None
    then obtain f st1 where "start_file recPath opens a st = Some (Inr st1)" "wv_open (fst st1) = Some f"
      "rec_inv maxSize d0 (parts @ [(f, ?rate, 1, [])]) st1"
      using start_file_inv [OF inv None opens m(1,5), of recPath] m(2) by auto
    then show thesis using None by (intro that) auto
  next
    case (Some f)
    then obtain ps rate ch ss where "parts = ps @ [(f, rate, ch, ss)]" using rec_inv_open [OF inv] by blast
    then show thesis using rate Some inv by (intro that) auto
  qed
  have size: "wv_currentFileSize (fst st1) = 36 + 2 * int (length ss)" "36 + 2 * int (length ss) \<le> maxSize"
    using rec_inv_open [OF inv1 open1] by auto
  define room where "room = nat ((maxSize - wv_currentFileSize (fst st1)) div 2)"
  have room: "getMaxWritableNumberOfSamples maxSize a (fst st1) = Inr room" "36 + 2 * int (length ss + room) \<le> maxSize"
    using getMax_mono [OF m(2), of "fst st1" maxSize] size bound by (auto simp: room_def)
  have q: "length (quantised a) = ?n" by (simp add: quantised_def)
  have same: "wav_writeToFile maxSize recPath opens a st = wav_writeToFile maxSize recPath opens a st1"
    using st1 wav_writeToFile_start [of st recPath opens a st1] open1 by (auto split: if_splits)
  show ?thesis
  proof (cases "?n \<le> room")
    case True
    have all: "quantised_range a 0 ?n = quantised a" using m(2) q by (simp add: quantised_range_mono)
    then have "36 + 2 * int (length (ss @ quantised_range a 0 ?n)) \<le> maxSize" using True room(2) q by simp
    from wav_writeToFile_fits [OF inv1 open1 m(3) room(1) True this, of recPath opens] all
    obtain st' where "wav_writeToFile maxSize recPath opens a st1 = Some (Inr st')" "wv_open (fst st') = Some f"
      "rec_inv maxSize d0 (ps @ [(f, ?rate, 1, ss @ quantised a)]) st'"
      by auto
    then show ?thesis using rec1 old unfolding same by (intro exI [of _ "ps @ [(f, ?rate, 1, ss @ quantised a)]"] exI [of _ st']) auto
  next
    case False
    have split: "quantised_range a 0 room = take room (quantised a)" "quantised_range a room ?n = drop room (quantised a)"
      using m(2) False q by (simp_all add: quantised_range_mono)
    have "int (?n - room) \<le> int ?n" by simp
    then have fits: "36 + 2 * int (?n - room) \<le> maxSize" using m(4) by linarith
    obtain g st' where w: "wav_writeToFile maxSize recPath opens a st1 = Some (Inr st')" "wv_open (fst st') = Some g"
      "rec_inv maxSize d0 (ps @ [(f, ?rate, 1, ss @ take room (quantised a)), (g, ?rate, 1, drop room (quantised a))]) st'"
      using wav_writeToFile_split [OF inv1 open1 m(3) room(1) _ _ _ opens m(1), of recPath] False fits room(2) q m(2) by (auto simp: split)
    have "recorded (ps @ [(f, ?rate, 1, ss @ take room (quantised a)), (g, ?rate, 1, drop room (quantised a))]) =
        recorded parts @ map (Pair ?rate) (quantised a)"
      using rec1 by (auto simp: recorded_def simp flip: take_map drop_map)
    with w old show ?thesis unfolding same by (intro exI conjI) auto
  qed
qed

lemma quantised_range_stereo:
  assumes "ai_channels a = 2" "end \<le> length (ai_data a)"
  shows "quantised_range a start end = drop (2 * start) (take (2 * (end div 2)) (quantised a))"
proof -
  have "concat (map (\<lambda>i. [xs ! (i * 2), xs ! (i * 2 + 1)]) [start..<n]) = drop (2 * start) (take (2 * n) xs)" if "2 * n \<le> length xs" for n and xs :: "rat list"
    using that
  proof (induction n)
    case (Suc n)
    show ?case
    proof (cases "start \<le> n")
      case True
      have "take (2 * Suc n) xs = take (2 * n) xs @ [xs ! (n * 2), xs ! (n * 2 + 1)]"
        using Suc.prems by (simp add: take_Suc_conv_app_nth mult.commute)
      with True Suc show ?thesis by simp
    qed simp
  qed simp
  from this [of "end div 2" "ai_data a"] show ?thesis using assms
    by (simp add: quantised_range_def payload_samples_def quantised_def take_map drop_map)
qed

section \<open>Whole recordings\<close>

fun write_all :: "int \<Rightarrow> string \<Rightarrow> (string \<Rightarrow> bool) \<Rightarrow> 'a audio_input_scheme list \<Rightarrow> wav_file \<times> disk \<Rightarrow> (wav_file \<times> disk) outcome" where
  "write_all maxSize recPath opens [] st = Some (Inr st)"
| "write_all maxSize recPath opens (a # as) st = bind_outcome (wav_writeToFile maxSize recPath opens a st) (write_all maxSize recPath opens as)"

lemma write_all_mono:
  assumes "rec_inv maxSize d0 parts st" "\<forall>f. opens f" "\<forall>a\<in>set as. mono_ok maxSize a \<and> ai_sampleRate a = rate" "maxSize < 2 ^ 64"
    "wv_open (fst st) \<noteq> None \<longrightarrow> part_format (last parts) = (rate, 1)"
  shows "\<exists>parts' st'. write_all maxSize recPath opens as st = Some (Inr st') \<and> rec_inv maxSize d0 parts' st' \<and>
    (\<forall>p\<in>set parts'. p \<in> set parts \<or> part_format p = (rate, 1)) \<and> recorded parts' = recorded parts @ map (Pair rate) (concat (map quantised as))"
  using assms
proof (induction as arbitrary: parts st)
  case (Cons a as)
  have m: "mono_ok maxSize a" "ai_sampleRate a = rate" using Cons.prems(3) by auto
  from wav_writeToFile_mono [OF Cons.prems(1,2) m(1) Cons.prems(4), of recPath] Cons.prems(5) m(2)
  obtain parts1 st1 where w: "wav_writeToFile maxSize recPath opens a st = Some (Inr st1)" "rec_inv maxSize d0 parts1 st1"
    "part_format (last parts1) = (rate, 1)" "recorded parts1 = recorded parts @ map (Pair rate) (quantised a)"
    "\<forall>p\<in>set parts1. p \<in> set parts \<or> part_format p = (rate, 1)"
    by auto
  from Cons.IH [OF w(2) Cons.prems(2) _ Cons.prems(4)] Cons.prems(3) w(3)
  obtain parts' st' where "write_all maxSize recPath opens as st1 = Some (Inr st')" "rec_inv maxSize d0 parts' st'"
    "recorded parts' = recorded parts1 @ map (Pair rate) (concat (map quantised as))"
    "\<forall>p\<in>set parts'. p \<in> set parts1 \<or> part_format p = (rate, 1)"
    by auto
  with w show ?case by (intro exI [of _ parts'] exI [of _ st']) auto
qed auto

lemma rec_inv_finished:
  assumes "rec_inv maxSize d0 parts st" "wv_open (fst st) = None" "maxSize < 2 ^ 31"
  shows "\<forall>(f, rate, ch, ss)\<in>set parts. \<exists>bs. snd st f = Some bs \<and> read_wav bs = Some (rate, ch, ss) \<and> int (length bs) \<le> maxSize + 8"
proof (intro ballI, clarify)
  fix f rate ch ss
  assume p: "(f, rate, ch, ss) \<in> set parts"
  have "wav_part_ok maxSize (f, rate, ch, ss) \<and> on_disk None (snd st) (f, rate, ch, ss)"
    using assms(1,2) p by (auto simp: rec_inv_def split: prod.splits)
  then show "\<exists>bs. snd st f = Some bs \<and> read_wav bs = Some (rate, ch, ss) \<and> int (length bs) \<le> maxSize + 8"
    using read_wav_finished [of rate ch ss] assms(3) by (auto simp: wav_part_ok_def on_disk_def finished_def length_wav_image)
qed

text \<open>
  A recording keeps every sample. Buffers of a mono signal with their peaks, none longer than a file, are
  recorded without a fault; the files that are new hold, read as WAV files in the order in which they were made, exactly the
  scaled samples of all buffers, each at its rate and mono; no new file is longer than the limit and its eight bytes of slack,
  and the files that were there before are as they were.
\<close>

theorem recording_keeps_every_sample:
  assumes "finite (dom d0)" "wv_open w = None" "\<forall>f. opens f" "maxSize < 2 ^ 31" "\<forall>a\<in>set as. mono_ok maxSize a \<and> ai_sampleRate a = rate"
  shows "\<exists>st' fs. write_all maxSize recPath opens as (w, d0) = Some (Inr st') \<and> distinct (map fst fs) \<and>
    dom (snd (closeFile st')) = dom d0 \<union> fst ` set fs \<and> fst ` set fs \<inter> dom d0 = {} \<and> (\<forall>f\<in>dom d0. snd (closeFile st') f = d0 f) \<and>
    (\<forall>(f, ss)\<in>set fs. \<exists>bs. snd (closeFile st') f = Some bs \<and> read_wav bs = Some (rate, 1, ss) \<and> int (length bs) \<le> maxSize + 8) \<and>
    concat (map snd fs) = concat (map quantised as)"
proof -
  have "rec_inv maxSize d0 [] (w, d0)" using assms(1,2) by (rule rec_inv_init)
  from write_all_mono [OF this assms(3,5), of recPath] assms(2,4)
  obtain parts st' where w: "write_all maxSize recPath opens as (w, d0) = Some (Inr st')" "rec_inv maxSize d0 parts st'"
    "\<forall>p\<in>set parts. part_format p = (rate, 1)" "recorded parts = map (Pair rate) (concat (map quantised as))"
    by auto
  let ?c = "closeFile st'" and ?fs = "map (\<lambda>(f, _, _, ss). (f, ss)) parts"
  have c: "rec_inv maxSize d0 parts ?c" "wv_open (fst ?c) = None" using closeFile_inv [OF w(2)] by auto
  have names: "map fst ?fs = map fst parts" "fst ` set ?fs = fst ` set parts" by (auto simp: image_image case_prod_unfold)
  have "concat (map snd ?fs) = map snd (recorded parts)" by (induction parts) (auto simp: recorded_def o_def)
  then have "concat (map snd ?fs) = concat (map quantised as)" using w(4) by (simp add: o_def)
  moreover have "\<forall>(f, ss)\<in>set ?fs. \<exists>bs. snd ?c f = Some bs \<and> read_wav bs = Some (rate, 1, ss) \<and> int (length bs) \<le> maxSize + 8"
    using rec_inv_finished [OF c assms(4)] w(3) by fastforce
  moreover have "distinct (map fst ?fs)" "dom (snd ?c) = dom d0 \<union> fst ` set ?fs" "fst ` set ?fs \<inter> dom d0 = {}" "\<forall>f\<in>dom d0. snd ?c f = d0 f"
    using c(1) unfolding names by (auto simp: rec_inv_def split: prod.splits)
  ultimately show ?thesis using w(1) by blast
qed

text \<open>A recording of four samples with files of at most two, in a folder that has a file of that name.\<close>

definition demo_buffer :: "int \<Rightarrow> rat list \<Rightarrow> audio_input" where
  "demo_buffer ch xs = \<lparr>ai_sampleRate = 48000, ai_channels = ch, ai_peak = 1, ai_squelched = False, ai_data = xs\<rparr>"

theorem recording_keeps_every_sample_witness:
  "\<exists>st' fs. write_all 40 ''/rec'' (\<lambda>_. True) [demo_buffer 1 [1 / 2], demo_buffer 1 [1, -1]] (AudioFileWAV_init, [''/rec/.wav'' \<mapsto> []]) =
      Some (Inr st') \<and>
     (\<forall>(f, ss)\<in>set fs. \<exists>bs. snd (closeFile st') f = Some bs \<and> read_wav bs = Some (48000, 1, ss) \<and> length bs \<le> 48) \<and>
     concat (map snd fs) = [16383, 32767, - 32767] \<and> snd (closeFile st') ''/rec/.wav'' = Some []"
proof -
  have half: "\<lfloor>32767 / 2 :: rat\<rfloor> = 16383" by (rule floor_unique) auto
  have q: "concat (map quantised [demo_buffer 1 [1 / 2], demo_buffer 1 [1, -1]]) = [16383, 32767, - 32767]"
    by (simp add: quantised_def demo_buffer_def intScale_def float_to_int_def half)
  have ok: "mono_ok 40 (demo_buffer 1 xs) \<and> ai_sampleRate (demo_buffer 1 xs) = 48000" if "length xs \<le> 2" "\<forall>x\<in>set xs. \<bar>x\<bar> \<le> 1" for xs
    using that by (simp add: mono_ok_def demo_buffer_def format_ok_def peak_ok_def)
  from recording_keeps_every_sample [of "[''/rec/.wav'' \<mapsto> []]" AudioFileWAV_init "\<lambda>_. True" 40
      "[demo_buffer 1 [1 / 2], demo_buffer 1 [1, -1]]" 48000 "''/rec''"] ok q
  show ?thesis by (auto simp: AudioFileWAV_init_def)
qed

text \<open>
  A stereo signal is not kept when a file is full: the second part of the buffer starts at twice the sample at
  which the first one ended, so the samples between are in neither file.
\<close>

theorem stereo_split_loses:
  assumes "rec_inv maxSize d0 (ps @ [(f, ai_sampleRate a, 2, ss)]) st" "wv_open (fst st) = Some f" "\<forall>f. opens f"
    "format_ok a" "ai_channels a = 2" "peak_ok a" "even (length (ai_data a))" "36 + 2 * int (length (ai_data a)) \<le> maxSize" "maxSize < 2 ^ 31"
    "room = nat ((maxSize - wv_currentFileSize (fst st)) div 4)" "room < length (ai_data a)"
  shows "\<exists>g st'. wav_writeToFile maxSize recPath opens a st = Some (Inr st') \<and>
    rec_inv maxSize d0 (ps @ [(f, ai_sampleRate a, 2, ss @ take (2 * (room div 2)) (quantised a)),
      (g, ai_sampleRate a, 2, drop (2 * room) (quantised a))]) st' \<and>
    (0 < room \<longrightarrow> length (take (2 * (room div 2)) (quantised a)) + length (drop (2 * room) (quantised a)) < length (quantised a))"
proof -
  let ?n = "length (ai_data a)"
  have q: "length (quantised a) = ?n" by (simp add: quantised_def)
  have size: "wv_currentFileSize (fst st) = 36 + 2 * int (length ss)" "36 + 2 * int (length ss) \<le> maxSize"
    using rec_inv_open [OF assms(1,2)] by auto
  have "(maxSize - wv_currentFileSize (fst st)) div 4 mod 2 ^ 64 = (maxSize - wv_currentFileSize (fst st)) div 4"
    using size assms(9) by (intro mod_pos_pos_trivial) auto
  then have room: "getMaxWritableNumberOfSamples maxSize a (fst st) = Inr room"
    using assms(5,10) size by (simp add: getMaxWritableNumberOfSamples_def cdiv_nonneg in_int32_def)
  have r: "quantised_range a 0 room = take (2 * (room div 2)) (quantised a)" "quantised_range a room ?n = drop (2 * room) (quantised a)"
    using assms(5,7,11) q by (simp_all add: quantised_range_stereo)
  have "4 * int (room div 2) \<le> maxSize - 36 - 2 * int (length ss)" using assms(10) size by linarith
  then have fits: "36 + 2 * int (length (ss @ quantised_range a 0 room)) \<le> maxSize" using r(1) q assms(11) by (simp add: min_def)
  have "int (length (quantised_range a room ?n)) \<le> int ?n" using r(2) q by simp
  then have "36 + 2 * int (length (quantised_range a room ?n)) \<le> maxSize" using assms(8) by linarith
  from wav_writeToFile_split [OF assms(1,2,6) room assms(11) fits this assms(3,4), of recPath] show ?thesis
    using r q assms(5,11) by (auto simp: min_def)
qed

theorem stereo_split_loses_witness:
  "\<exists>st f g st'. rec_inv 52 Map.empty [(f, 48000, 2, [])] st \<and>
     wav_writeToFile 52 ''/rec'' (\<lambda>_. True) (demo_buffer 2 [1, 1, 1, 1, 0, 0, 0, 0]) st = Some (Inr st') \<and>
     rec_inv 52 Map.empty [(f, 48000, 2, [32767, 32767, 32767, 32767]), (g, 48000, 2, [])] st'"
proof -
  define a where "a = demo_buffer 2 [1, 1, 1, 1, 0, 0, 0, 0]"
  have a: "format_ok a" "ai_channels a = 2" "ai_sampleRate a = 48000" "peak_ok a" "length (ai_data a) = 8"
    by (simp_all add: a_def demo_buffer_def format_ok_def peak_ok_def)
  have q: "quantised a = [32767, 32767, 32767, 32767, 0, 0, 0, 0]"
    by (simp add: a_def quantised_def demo_buffer_def intScale_def float_to_int_def)
  have "rec_inv 52 Map.empty [] (AudioFileWAV_init, Map.empty)" by (rule rec_inv_init) (simp_all add: AudioFileWAV_init_def)
  then obtain f st where st: "wv_open (fst st) = Some f" "rec_inv 52 Map.empty [(f, 48000, 2, [])] st"
    using start_file_inv [of 52 Map.empty "[]" "(AudioFileWAV_init, Map.empty)" "\<lambda>_. True" a "''/rec''"] a
    by (auto simp: AudioFileWAV_init_def)
  have "wv_currentFileSize (fst st) = 36" using rec_inv_open [OF st(2,1)] by simp
  then have room: "4 = nat ((52 - wv_currentFileSize (fst st)) div 4)" by simp
  have st0: "rec_inv 52 Map.empty ([] @ [(f, ai_sampleRate a, 2, [])]) st" using st(2) a(3) by simp
  have "\<exists>g st'. wav_writeToFile 52 ''/rec'' (\<lambda>_. True) a st = Some (Inr st') \<and>
      rec_inv 52 Map.empty ([] @ [(f, ai_sampleRate a, 2, [] @ take (2 * (4 div 2)) (quantised a)), (g, ai_sampleRate a, 2, drop (2 * 4) (quantised a))]) st' \<and>
      (0 < (4::nat) \<longrightarrow> length (take (2 * (4 div 2)) (quantised a)) + length (drop (2 * 4) (quantised a)) < length (quantised a))"
    by (rule stereo_split_loses [OF st0 st(1) _ a(1,2,4) _ _ _ room]) (simp_all add: a(5))
  then obtain g st' where "wav_writeToFile 52 ''/rec'' (\<lambda>_. True) a st = Some (Inr st')"
    "rec_inv 52 Map.empty [(f, 48000, 2, [32767, 32767, 32767, 32767]), (g, 48000, 2, [])] st'"
    by (auto simp: q a(3))
  with st(2) show ?thesis unfolding a_def by blast
qed

end
