(* ===== verification/Stopwatch.thy ===== *)
theory Stopwatch
  imports Prelude Complex_Main "HOL-Library.Word"
begin

text \<open>
  \<open>Timer\<close> (src/src/cubic/util/Timer.h, Timer.cpp), by which the recorder measures how long a file is.
  Times are milliseconds in an \<open>unsigned long\<close> of 64 bits, which wraps around; the clock is the argument
  of the operations that read it. The rate of a locked timer is a rational.
\<close>

section \<open>State and operations\<close>

record stopwatch =
  tm_time_elapsed :: "64 word"
  tm_system_milliseconds :: "64 word"
  tm_start_time :: "64 word"
  tm_end_time :: "64 word"
  tm_last_update :: "64 word"
  tm_num_updates :: "64 word"
  tm_paused_time :: "64 word"
  tm_offset :: "64 word"
  tm_paused_state :: bool
  tm_lock_state :: bool
  tm_lock_rate :: rat

definition Timer_init :: stopwatch where
  "Timer_init = \<lparr>tm_time_elapsed = 0, tm_system_milliseconds = 0, tm_start_time = 0, tm_end_time = 0, tm_last_update = 0,
     tm_num_updates = 0, tm_paused_time = 0, tm_offset = 0, tm_paused_state = False, tm_lock_state = False, tm_lock_rate = 0\<rparr>"

definition timer_update :: "64 word \<Rightarrow> stopwatch \<Rightarrow> stopwatch" where
  "timer_update now t =
     (let prev = tm_system_milliseconds t;
          sys = (if tm_lock_state t then prev + word_of_int \<lfloor>tm_lock_rate t * 1000\<rfloor> else now);
          paused = (if tm_paused_state t then tm_paused_time t + (sys - prev) else tm_paused_time t)
      in t\<lparr>tm_num_updates := tm_num_updates t + 1, tm_last_update := prev, tm_system_milliseconds := sys, tm_paused_time := paused,
           tm_time_elapsed := sys - tm_start_time t - paused + tm_offset t\<rparr>)"

definition timer_start :: "64 word \<Rightarrow> stopwatch \<Rightarrow> stopwatch" where
  "timer_start now t =
     (let u = timer_update now t
      in u\<lparr>tm_num_updates := 0, tm_start_time := tm_system_milliseconds u, tm_last_update := tm_system_milliseconds u,
           tm_paused_state := False, tm_lock_state := False, tm_lock_rate := 0, tm_paused_time := 0, tm_offset := 0\<rparr>)"

definition timer_stop :: "stopwatch \<Rightarrow> stopwatch" where
  "timer_stop t = t\<lparr>tm_end_time := tm_system_milliseconds t\<rparr>"

definition timer_reset :: "64 word \<Rightarrow> stopwatch \<Rightarrow> stopwatch" where
  "timer_reset now t = timer_start now t"

definition lockFramerate :: "rat \<Rightarrow> stopwatch \<Rightarrow> stopwatch" where
  "lockFramerate f_rate t = t\<lparr>tm_lock_rate := 1 / f_rate, tm_lock_state := True\<rparr>"

definition timer_unlock :: "64 word \<Rightarrow> stopwatch \<Rightarrow> stopwatch" where
  "timer_unlock now t =
     (let u = timer_update now (t\<lparr>tm_lock_state := False\<rparr>)
      in u\<lparr>tm_last_update := tm_system_milliseconds u - word_of_int \<lfloor>tm_lock_rate u\<rfloor>,
           tm_offset := tm_offset u + (tm_system_milliseconds t - tm_system_milliseconds u), tm_lock_rate := 0\<rparr>)"

definition getMilliseconds :: "stopwatch \<Rightarrow> 64 word" where
  "getMilliseconds t = tm_time_elapsed t"

definition getSeconds :: "stopwatch \<Rightarrow> rat" where
  "getSeconds t = of_int (uint (getMilliseconds t)) / 1000"

definition setMilliseconds :: "64 word \<Rightarrow> stopwatch \<Rightarrow> stopwatch" where
  "setMilliseconds ms t =
     t\<lparr>tm_offset := tm_offset t - ((tm_system_milliseconds t - tm_start_time t - tm_paused_time t + tm_offset t) - ms)\<rparr>"

definition setSeconds :: "rat \<Rightarrow> stopwatch \<Rightarrow> stopwatch" where
  "setSeconds s t = setMilliseconds (word_of_int (if s < 0 then - \<lfloor>- (s * 1000)\<rfloor> else \<lfloor>s * 1000\<rfloor>)) t"

definition lastUpdateMilliseconds :: "stopwatch \<Rightarrow> 64 word" where
  "lastUpdateMilliseconds t = tm_system_milliseconds t - tm_last_update t"

definition totalMilliseconds :: "stopwatch \<Rightarrow> 64 word" where
  "totalMilliseconds t = tm_system_milliseconds t - tm_start_time t"

definition timer_pause :: "bool \<Rightarrow> stopwatch \<Rightarrow> stopwatch" where
  "timer_pause b t = t\<lparr>tm_paused_state := b\<rparr>"

section \<open>What the timer counts\<close>

datatype timer_call = Updates "64 word" | Pauses bool

fun timer_calls :: "timer_call list \<Rightarrow> stopwatch \<Rightarrow> stopwatch" where
  "timer_calls [] t = t"
| "timer_calls (Updates now # cs) t = timer_calls cs (timer_update now t)"
| "timer_calls (Pauses b # cs) t = timer_calls cs (timer_pause b t)"

text \<open>The time between updates that were made while the timer ran, from an update at \<open>prev\<close>.\<close>

fun running_time :: "64 word \<Rightarrow> bool \<Rightarrow> timer_call list \<Rightarrow> 64 word" where
  "running_time prev p [] = 0"
| "running_time prev p (Updates now # cs) = (if p then 0 else now - prev) + running_time now p cs"
| "running_time prev p (Pauses b # cs) = running_time prev b cs"

definition time_inv :: "stopwatch \<Rightarrow> bool" where
  "time_inv t \<longleftrightarrow> \<not> tm_lock_state t \<and>
     tm_time_elapsed t = tm_system_milliseconds t - tm_start_time t - tm_paused_time t + tm_offset t"

lemma timer_calls_running:
  "time_inv t \<Longrightarrow> tm_time_elapsed (timer_calls cs t) =
     tm_time_elapsed t + running_time (tm_system_milliseconds t) (tm_paused_state t) cs \<and> time_inv (timer_calls cs t)"
proof (induction cs arbitrary: t)
  case (Cons c cs)
  show ?case
  proof (cases c)
    case (Updates now)
    have i: "time_inv (timer_update now t)" using Cons.prems by (simp add: time_inv_def timer_update_def Let_def)
    have "tm_time_elapsed (timer_update now t) = tm_time_elapsed t + (if tm_paused_state t then 0 else now - tm_system_milliseconds t)"
      "tm_system_milliseconds (timer_update now t) = now" "tm_paused_state (timer_update now t) = tm_paused_state t"
      using Cons.prems by (simp_all add: time_inv_def timer_update_def Let_def)
    with Cons.IH [OF i] show ?thesis by (simp add: Updates add.assoc)
  next
    case (Pauses b)
    have i: "time_inv (timer_pause b t)" using Cons.prems by (simp add: time_inv_def timer_pause_def)
    have "tm_time_elapsed (timer_pause b t) = tm_time_elapsed t" "tm_system_milliseconds (timer_pause b t) = tm_system_milliseconds t"
      "tm_paused_state (timer_pause b t) = b"
      by (simp_all add: timer_pause_def)
    with Cons.IH [OF i] show ?thesis by (simp add: Pauses)
  qed
qed simp

text \<open>
  A started timer counts the time between its updates while it is not paused, whatever it did before and
  also when the clock wraps around.
\<close>

theorem timer_counts_running:
  "getMilliseconds (timer_calls (Updates now # cs) (timer_start t0 (t\<lparr>tm_lock_state := False\<rparr>))) =
     (now - t0) + running_time now False cs"
proof -
  let ?u = "timer_update now (timer_start t0 (t\<lparr>tm_lock_state := False\<rparr>))"
  have "time_inv ?u" "tm_time_elapsed ?u = now - t0" "tm_system_milliseconds ?u = now" "\<not> tm_paused_state ?u"
    by (simp_all add: timer_start_def timer_update_def Let_def time_inv_def)
  with timer_calls_running [of ?u cs] show ?thesis by (simp add: getMilliseconds_def)
qed

text \<open>Setting the time takes effect at the next update, and a timer that is unlocked goes on from where it was.\<close>

theorem set_time_takes_effect:
  "time_inv t \<Longrightarrow> \<not> tm_paused_state t \<Longrightarrow> getMilliseconds (timer_update now (setMilliseconds ms t)) = ms + (now - tm_system_milliseconds t)"
  by (simp add: getMilliseconds_def timer_update_def setMilliseconds_def time_inv_def Let_def)

theorem unlocked_goes_on:
  "\<not> tm_paused_state t \<Longrightarrow> getMilliseconds (timer_update now (timer_unlock t0 t)) =
     (tm_system_milliseconds t - tm_start_time t - tm_paused_time t + tm_offset t) + (now - t0)"
  by (simp add: getMilliseconds_def timer_update_def timer_unlock_def Let_def)

text \<open>
  \<open>start\<close> does not set the elapsed time to zero: until the first update the timer shows the time since the start
  before, up to now.
\<close>

theorem start_keeps_elapsed:
  "time_inv t \<Longrightarrow> \<not> tm_paused_state t \<Longrightarrow> getMilliseconds (timer_start now t) = getMilliseconds t + (now - tm_system_milliseconds t)"
  by (simp add: getMilliseconds_def timer_start_def timer_update_def time_inv_def Let_def)

end
