(* ===== verification/Recorder.thy ===== *)
theory Recorder
  imports Wav_File Stopwatch
begin

text \<open>
  The recorder: \<open>AudioSinkThread\<close> and \<open>AudioSinkFileThread\<close> (src/src/cubic/audio/AudioSinkThread.cpp,
  AudioSinkFileThread.cpp), which take the audio of one modem from a queue and write it to WAV files, and
  how \<open>DemodulatorInstance\<close> starts and stops it (src/src/cubic/demod/DemodulatorInstance.cpp).
  Silenced buffers are changed in place; nobody else holds them, since the demodulator's thread hands
  squelched audio to the recorder only (\<open>run_pass\<close>).
\<close>

section \<open>State\<close>

datatype squelch_option = SQUELCH_RECORD_SILENCE | SQUELCH_SKIP_SILENCE | SQUELCH_RECORD_ALWAYS

record sink_input = audio_input +
  si_frequency :: int
  si_inputRate :: int

record audio_sink =
  sk_fileNameBase :: string
  sk_handler :: "wav_file option"
  sk_squelchOption :: squelch_option
  sk_fileTimeLimit :: int
  sk_duration :: stopwatch

definition AudioSinkFileThread_init :: audio_sink where
  "AudioSinkFileThread_init = \<lparr>sk_fileNameBase = '''', sk_handler = None, sk_squelchOption = SQUELCH_RECORD_SILENCE,
     sk_fileTimeLimit = 0, sk_duration = Timer_init\<rparr>"

text \<open>The clock in milliseconds and the local time as text, when a step is made.\<close>

record sink_clock =
  ck_now :: "64 word"
  ck_timeStr :: string

text \<open>The folder, what can be opened and the limit of a file.\<close>

record sink_world =
  wd_recPath :: string
  wd_opens :: "string \<Rightarrow> bool"
  wd_maxSize :: int

section \<open>The sink\<close>

definition setSquelchOption :: "int \<Rightarrow> audio_sink \<Rightarrow> audio_sink" where
  "setSquelchOption n k = k\<lparr>sk_squelchOption :=
     (if n = 0 then SQUELCH_RECORD_SILENCE else if n = 1 then SQUELCH_SKIP_SILENCE else if n = 2 then SQUELCH_RECORD_ALWAYS
      else SQUELCH_RECORD_SILENCE)\<rparr>"

definition setFileTimeLimit :: "int \<Rightarrow> audio_sink \<Rightarrow> audio_sink" where
  "setFileTimeLimit n k = k\<lparr>sk_fileTimeLimit := (if 0 < n then n else 0)\<rparr>"

definition setAudioFileNameBase :: "string \<Rightarrow> audio_sink \<Rightarrow> audio_sink" where
  "setAudioFileNameBase base k = k\<lparr>sk_fileNameBase := base\<rparr>"

definition setAudioFileHandler :: "sink_clock \<Rightarrow> wav_file \<Rightarrow> audio_sink \<Rightarrow> audio_sink" where
  "setAudioFileHandler c w k =
     k\<lparr>sk_handler := Some (setOutputFileName (sk_fileNameBase k @ ''_'' @ ck_timeStr c) w),
       sk_duration := timer_start (ck_now c) (sk_duration k)\<rparr>"

definition inputChanged :: "sink_clock \<Rightarrow> audio_sink \<times> disk \<Rightarrow> audio_sink \<times> disk" where
  "inputChanged c st =
     (case sk_handler (fst st) of
        None \<Rightarrow> st
      | Some w \<Rightarrow> (case closeFile (w, snd st) of (w1, d1) \<Rightarrow>
          ((fst st)\<lparr>sk_handler := Some w1, sk_duration := timer_start (ck_now c) (sk_duration (fst st))\<rparr>, d1)))"

definition silenced :: "sink_input \<Rightarrow> sink_input" where
  "silenced a = a\<lparr>ai_data := replicate (length (ai_data a)) 0, ai_peak := 0\<rparr>"

text \<open>What is written of a buffer, if anything.\<close>

definition sink_patch :: "squelch_option \<Rightarrow> sink_input \<Rightarrow> sink_input option" where
  "sink_patch opt a =
     (if ai_squelched a
      then (case opt of SQUELCH_RECORD_SILENCE \<Rightarrow> Some (silenced a) | SQUELCH_SKIP_SILENCE \<Rightarrow> None | SQUELCH_RECORD_ALWAYS \<Rightarrow> Some a)
      else Some a)"

text \<open>A file that has lasted longer than the limit is closed, and the next is named by the time.\<close>

definition check_time :: "sink_clock \<Rightarrow> wav_file \<Rightarrow> audio_sink \<times> disk \<Rightarrow> wav_file \<times> audio_sink \<times> disk" where
  "check_time c w st =
     (let k = fst st; d = snd st
      in if sk_fileTimeLimit k \<le> 0 then (w, k, d)
         else let t = timer_update (ck_now c) (sk_duration k)
              in if getSeconds t > of_int (sk_fileTimeLimit k)
                 then case closeFile (w, d) of (w1, d1) \<Rightarrow>
                   (setOutputFileName (sk_fileNameBase k @ ''_'' @ ck_timeStr c) w1, k\<lparr>sk_duration := timer_start (ck_now c) t\<rparr>, d1)
                 else (w, k\<lparr>sk_duration := t\<rparr>, d))"

definition sink_audio :: "sink_world \<Rightarrow> sink_clock \<Rightarrow> sink_input \<Rightarrow> audio_sink \<times> disk \<Rightarrow> (audio_sink \<times> disk) outcome" where
  "sink_audio wd c a st =
     (case sk_handler (fst st) of
        None \<Rightarrow> Some (Inr st)
      | Some w \<Rightarrow>
          (case sink_patch (sk_squelchOption (fst st)) a of
             None \<Rightarrow> Some (Inr st)
           | Some b \<Rightarrow>
               (case check_time c w st of (w1, k1, d1) \<Rightarrow>
                  bind_outcome (wav_writeToFile (wd_maxSize wd) (wd_recPath wd) (wd_opens wd) b (w1, d1)) (\<lambda>(w2, d2).
                    Some (Inr (k1\<lparr>sk_handler := Some w2\<rparr>, d2))))))"

section \<open>The thread\<close>

text \<open>\<open>inputRef\<close>, the format of the buffer before: channels, frequency, input rate and sample rate.\<close>

type_synonym format = "int \<times> int \<times> int \<times> int"

definition format_of :: "sink_input \<Rightarrow> format" where
  "format_of a = (ai_channels a, si_frequency a, si_inputRate a, ai_sampleRate a)"

definition sink_pass ::
    "sink_world \<Rightarrow> sink_clock \<times> sink_input \<Rightarrow> format \<times> audio_sink \<times> disk \<Rightarrow> (format \<times> audio_sink \<times> disk) outcome" where
  "sink_pass wd inp s =
     (case (inp, s) of ((c, a), (ref, st)) \<Rightarrow>
        bind_outcome (sink_audio wd c a (if ref \<noteq> format_of a then inputChanged c st else st)) (\<lambda>st1.
          Some (Inr (format_of a, st1))))"

text \<open>The loop over what it takes from the queue, from a new \<open>AudioThreadInput\<close> until the thread is stopped.\<close>

fun sink_loop ::
    "sink_world \<Rightarrow> (sink_clock \<times> sink_input) list \<Rightarrow> format \<times> audio_sink \<times> disk \<Rightarrow> (format \<times> audio_sink \<times> disk) outcome" where
  "sink_loop wd [] s = Some (Inr s)"
| "sink_loop wd (i # is) s = bind_outcome (sink_pass wd i s) (sink_loop wd is)"

definition sink_run :: "sink_world \<Rightarrow> (sink_clock \<times> sink_input) list \<Rightarrow> audio_sink \<times> disk \<Rightarrow> (audio_sink \<times> disk) outcome" where
  "sink_run wd is st = bind_outcome (sink_loop wd is ((0, 0, 0, 0), st)) (\<lambda>(_, st1). Some (Inr st1))"

text \<open>The destructor closes the file; the handler itself is never deleted.\<close>

definition AudioSinkFileThread_destroy :: "audio_sink \<times> disk \<Rightarrow> disk" where
  "AudioSinkFileThread_destroy st = (case sk_handler (fst st) of None \<Rightarrow> snd st | Some w \<Rightarrow> snd (closeFile (w, snd st)))"

section \<open>Starting and stopping\<close>

text \<open>
  The part of \<open>DemodulatorInstance\<close> that records: the flag, the sink thread with the format it saw last and its
  queue, and whether the demodulator's thread pushes to that queue.
\<close>

record recording =
  rg_recording :: bool
  rg_sink :: "audio_sink option"
  rg_ref :: format
  rg_queue :: "sink_input blocking_queue"
  rg_attached :: bool

definition recording_init :: recording where
  "recording_init = \<lparr>rg_recording = False, rg_sink = None, rg_ref = (0, 0, 0, 0), rg_queue = ThreadBlockingQueue_init, rg_attached = False\<rparr>"

definition startRecording :: "sink_clock \<Rightarrow> string \<Rightarrow> string \<Rightarrow> int \<Rightarrow> int \<Rightarrow> recording \<Rightarrow> recording" where
  "startRecording c userLabel label opt limit g =
     (if rg_recording g then g
      else g\<lparr>rg_sink := Some (setAudioFileHandler c AudioFileWAV_init (setFileTimeLimit limit (setSquelchOption opt
                 (setAudioFileNameBase (if userLabel \<noteq> [] then userLabel else label) AudioSinkFileThread_init)))),
             rg_ref := (0, 0, 0, 0), rg_queue := set_max_num_items 1000 ThreadBlockingQueue_init, rg_attached := True, rg_recording := True\<rparr>)"

text \<open>The demodulator's thread offers a buffer, which is dropped if the queue is full.\<close>

definition offer_audio :: "sink_input \<Rightarrow> recording \<Rightarrow> bool \<times> recording" where
  "offer_audio a g =
     (if rg_attached g then (case bq_try_push a (rg_queue g) of (b, q) \<Rightarrow> (b, g\<lparr>rg_queue := q\<rparr>)) else (False, g))"

text \<open>One turn of the sink's thread, which may find nothing.\<close>

definition take_audio :: "sink_world \<Rightarrow> sink_clock \<Rightarrow> recording \<times> disk \<Rightarrow> (sink_input option \<times> recording \<times> disk) outcome" where
  "take_audio wd c s =
     (case (rg_sink (fst s), bq_try_pop (rg_queue (fst s))) of
        (Some k, Some a, q) \<Rightarrow>
          bind_outcome (sink_pass wd (c, a) (rg_ref (fst s), k, snd s)) (\<lambda>(ref, k1, d1).
            Some (Inr (Some a, (fst s)\<lparr>rg_sink := Some k1, rg_ref := ref, rg_queue := q\<rparr>, d1)))
      | _ \<Rightarrow> Some (Inr (None, s)))"

text \<open>
  \<open>stopRecording\<close> detaches the queue, flushes it, and deletes the sink when its thread has ended, which it does after the
  turn it is in. It dereferences the sink, which there is while the flag is set.
\<close>

definition stopRecording :: "recording \<times> disk \<Rightarrow> (recording \<times> disk) result" where
  "stopRecording s =
     (if \<not> rg_recording (fst s) then Inr s
      else case rg_sink (fst s) of
             None \<Rightarrow> Inl Null_Deref
           | Some k \<Rightarrow> Inr ((fst s)\<lparr>rg_attached := False, rg_queue := bq_flush (rg_queue (fst s)), rg_sink := None, rg_recording := False\<rparr>,
                           AudioSinkFileThread_destroy (k, snd s)))"

section \<open>What a recording can meet\<close>

datatype recording_step =
    Record_Start sink_clock string string int int | Record_Offer sink_input | Record_Take sink_clock | Record_Stop

text \<open>A step, with what the queue accepted and what the sink took.\<close>

fun record_step ::
    "sink_world \<Rightarrow> recording_step \<Rightarrow> recording \<times> disk \<Rightarrow> (sink_input list \<times> sink_input list \<times> recording \<times> disk) outcome" where
  "record_step wd (Record_Start c u l opt limit) s = Some (Inr ([], [], startRecording c u l opt limit (fst s), snd s))"
| "record_step wd (Record_Offer a) s = (case offer_audio a (fst s) of (b, g) \<Rightarrow> Some (Inr (if b then [a] else [], [], g, snd s)))"
| "record_step wd (Record_Take c) s =
     bind_outcome (take_audio wd c s) (\<lambda>(r, s1). Some (Inr ([], case r of None \<Rightarrow> [] | Some a \<Rightarrow> [a], s1)))"
| "record_step wd Record_Stop s = Some (bind_result (stopRecording s) (\<lambda>s1. Inr ([], [], s1)))"

fun record_run ::
    "sink_world \<Rightarrow> recording_step list \<Rightarrow> recording \<times> disk \<Rightarrow> (sink_input list \<times> sink_input list \<times> recording \<times> disk) outcome" where
  "record_run wd [] s = Some (Inr ([], [], s))"
| "record_run wd (r # rs) s =
     bind_outcome (record_step wd r s) (\<lambda>(ins, outs, s1).
     bind_outcome (record_run wd rs s1) (\<lambda>(ins', outs', s2). Some (Inr (ins @ ins', outs @ outs', s2))))"

text \<open>What a buffer contributes to a recording: itself, silence of its length, or nothing.\<close>

definition contribution :: "squelch_option \<Rightarrow> sink_input \<Rightarrow> (int \<times> int) list" where
  "contribution opt a =
     map (Pair (ai_sampleRate a))
       (if \<not> ai_squelched a \<or> opt = SQUELCH_RECORD_ALWAYS then quantised a
        else if opt = SQUELCH_RECORD_SILENCE then replicate (length (ai_data a)) 0 else [])"

section \<open>The invariant of the sink\<close>

text \<open>The file that is open, if any, has the rate of the format that was seen last; every part is mono.\<close>

definition sink_inv :: "int \<Rightarrow> disk \<Rightarrow> part list \<Rightarrow> squelch_option \<Rightarrow> format \<times> audio_sink \<times> disk \<Rightarrow> bool" where
  "sink_inv maxSize d0 parts opt s \<longleftrightarrow> (case s of (ref, k, d) \<Rightarrow>
     sk_squelchOption k = opt \<and> (\<forall>p\<in>set parts. snd (part_format p) = 1) \<and>
     (\<exists>w. sk_handler k = Some w \<and> rec_inv maxSize d0 parts (w, d) \<and>
        (wv_open w \<noteq> None \<longrightarrow> part_format (last parts) = (snd (snd (snd ref)), 1))))"

lemma silenced_simps [simp]: "ai_sampleRate (silenced a) = ai_sampleRate a" "quantised (silenced a) = replicate (length (ai_data a)) 0"
  by (simp_all add: silenced_def quantised_def float_to_int_def)

lemma silenced_ok: "mono_ok maxSize a \<Longrightarrow> mono_ok maxSize (silenced a)"
  by (simp add: silenced_def mono_ok_def format_ok_def peak_ok_def)

lemma sink_patch_cases:
  assumes "mono_ok maxSize a"
  shows "case sink_patch opt a of None \<Rightarrow> contribution opt a = []
    | Some b \<Rightarrow> mono_ok maxSize b \<and> ai_sampleRate b = ai_sampleRate a \<and> contribution opt a = map (Pair (ai_sampleRate a)) (quantised b)"
  using assms silenced_ok [OF assms] by (cases opt) (auto simp: sink_patch_def contribution_def)

lemma setOutputFileName_inv [simp]:
  "rec_inv maxSize d0 parts (setOutputFileName name w, d) \<longleftrightarrow> rec_inv maxSize d0 parts (w, d)"
  "wv_open (setOutputFileName name w) = wv_open w"
  by (simp_all add: setOutputFileName_def)

lemma check_time_inv:
  assumes "rec_inv maxSize d0 parts (w, d)" "check_time c w (k, d) = (w1, k1, d1)"
  shows "rec_inv maxSize d0 parts (w1, d1) \<and> wv_open w1 \<in> {None, wv_open w} \<and> sk_squelchOption k1 = sk_squelchOption k"
  using assms closeFile_inv [OF assms(1)]
  by (auto simp: check_time_def Let_def split: if_splits prod.splits)

lemma inputChanged_inv:
  assumes "sink_inv maxSize d0 parts opt (ref, k, d)"
  shows "sink_inv maxSize d0 parts opt (ref', inputChanged c (k, d))"
proof -
  obtain w where w: "sk_handler k = Some w" "rec_inv maxSize d0 parts (w, d)" using assms by (auto simp: sink_inv_def)
  obtain w1 d1 where c: "closeFile (w, d) = (w1, d1)" by (cases "closeFile (w, d)")
  from closeFile_inv [OF w(2)] c have "rec_inv maxSize d0 parts (w1, d1)" "wv_open w1 = None" by simp_all
  then show ?thesis using assms w c by (simp add: inputChanged_def sink_inv_def)
qed

lemma sink_audio_inv:
  assumes inv: "sink_inv maxSize d0 parts opt (format_of a, k, d)" and a: "mono_ok maxSize a"
    and wd: "wd_maxSize wd = maxSize" "maxSize < 2 ^ 31" "\<forall>f. wd_opens wd f"
  shows "\<exists>parts' k' d'. sink_audio wd c a (k, d) = Some (Inr (k', d')) \<and> sink_inv maxSize d0 parts' opt (format_of a, k', d') \<and>
    recorded parts' = recorded parts @ contribution opt a"
proof -
  obtain w where w: "sk_handler k = Some w" "rec_inv maxSize d0 parts (w, d)" "sk_squelchOption k = opt"
    "wv_open w \<noteq> None \<longrightarrow> part_format (last parts) = (ai_sampleRate a, 1)"
    using inv by (auto simp: sink_inv_def format_of_def)
  show ?thesis
  proof (cases "sink_patch opt a")
    case None
    then show ?thesis using inv w sink_patch_cases [OF a, of opt] by (intro exI [of _ parts]) (auto simp: sink_audio_def)
  next
    case (Some b)
    then have b: "mono_ok maxSize b" "ai_sampleRate b = ai_sampleRate a" "contribution opt a = map (Pair (ai_sampleRate a)) (quantised b)"
      using sink_patch_cases [OF a, of opt] by auto
    obtain w1 k1 d1 where t: "check_time c w (k, d) = (w1, k1, d1)" by (cases "check_time c w (k, d)")
    from check_time_inv [OF w(2) t] w(3,4) have i: "rec_inv maxSize d0 parts (w1, d1)" "sk_squelchOption k1 = opt"
      "wv_open (fst (w1, d1)) \<noteq> None \<longrightarrow> part_format (last parts) = (ai_sampleRate b, 1)"
      by (auto simp: b(2))
    obtain parts' w2 d2 where r: "wav_writeToFile maxSize (wd_recPath wd) (wd_opens wd) b (w1, d1) = Some (Inr (w2, d2))"
      "rec_inv maxSize d0 parts' (w2, d2)" "part_format (last parts') = (ai_sampleRate b, 1)"
      "\<forall>p\<in>set parts'. p \<in> set parts \<or> part_format p = (ai_sampleRate b, 1)"
      "recorded parts' = recorded parts @ map (Pair (ai_sampleRate b)) (quantised b)"
      using wav_writeToFile_mono [OF i(1) wd(3) b(1) _ i(3), of "wd_recPath wd"] wd(2) by auto
    have "sink_inv maxSize d0 parts' opt (format_of a, k1\<lparr>sk_handler := Some w2\<rparr>, d2)"
      using r inv i(2) by (auto simp: sink_inv_def format_of_def b(2))
    then show ?thesis using r w Some t b wd(1)
      by (intro exI [of _ parts'] exI [of _ "k1\<lparr>sk_handler := Some w2\<rparr>"] exI [of _ d2]) (simp add: sink_audio_def)
  qed
qed

lemma sink_pass_inv:
  assumes inv: "sink_inv maxSize d0 parts opt (ref, k, d)" and a: "mono_ok maxSize a"
    and wd: "wd_maxSize wd = maxSize" "maxSize < 2 ^ 31" "\<forall>f. wd_opens wd f"
  shows "\<exists>parts' k' d'. sink_pass wd (c, a) (ref, k, d) = Some (Inr (format_of a, k', d')) \<and>
    sink_inv maxSize d0 parts' opt (format_of a, k', d') \<and> recorded parts' = recorded parts @ contribution opt a"
proof -
  let ?st = "if ref \<noteq> format_of a then inputChanged c (k, d) else (k, d)"
  obtain k1 d1 where st: "?st = (k1, d1)" by (cases ?st)
  have "sink_inv maxSize d0 parts opt (format_of a, k1, d1)"
    using inv inputChanged_inv [OF inv, of "format_of a" c] st by (cases "ref = format_of a") auto
  from sink_audio_inv [OF this a wd, of c] show ?thesis using st by (auto simp: sink_pass_def)
qed

section \<open>Recordings\<close>

text \<open>While it records: the sink keeps its invariant, and what was accepted is what was taken and what waits.\<close>

definition recording_inv ::
    "int \<Rightarrow> disk \<Rightarrow> part list \<Rightarrow> squelch_option \<Rightarrow> sink_input list \<Rightarrow> sink_input list \<Rightarrow> recording \<times> disk \<Rightarrow> bool" where
  "recording_inv maxSize d0 parts opt ins outs s \<longleftrightarrow> (case s of (g, d) \<Rightarrow>
     rg_recording g \<and> rg_attached g \<and> ins = outs @ bq_items (rg_queue g) \<and> (\<forall>a\<in>set (bq_items (rg_queue g)). mono_ok maxSize a) \<and>
     recorded parts = concat (map (contribution opt) outs) \<and>
     (\<exists>k. rg_sink g = Some k \<and> sink_inv maxSize d0 parts opt (rg_ref g, k, d)))"

fun while_recording :: "int \<Rightarrow> recording_step \<Rightarrow> bool" where
  "while_recording maxSize (Record_Start c u l opt limit) = True"
| "while_recording maxSize (Record_Offer a) = mono_ok maxSize a"
| "while_recording maxSize (Record_Take c) = True"
| "while_recording maxSize Record_Stop = False"

lemma record_step_inv:
  assumes inv: "recording_inv maxSize d0 parts opt ins outs s" and step: "while_recording maxSize r"
    and wd: "wd_maxSize wd = maxSize" "maxSize < 2 ^ 31" "\<forall>f. wd_opens wd f"
  shows "\<exists>i out s' parts'. record_step wd r s = Some (Inr (i, out, s')) \<and> recording_inv maxSize d0 parts' opt (ins @ i) (outs @ out) s'"
proof -
  obtain g d where s: "s = (g, d)" by (cases s)
  obtain k where k: "rg_recording g" "rg_attached g" "ins = outs @ bq_items (rg_queue g)" "\<forall>a\<in>set (bq_items (rg_queue g)). mono_ok maxSize a"
    "recorded parts = concat (map (contribution opt) outs)" "rg_sink g = Some k" "sink_inv maxSize d0 parts opt (rg_ref g, k, d)"
    using inv by (auto simp: recording_inv_def s)
  show ?thesis
  proof (cases r)
    case (Record_Start c u l opt' limit)
    then show ?thesis using inv k(1) by (intro exI [of _ "[]"] exI [of _ s] exI [of _ parts]) (simp add: startRecording_def s)
  next
    case (Record_Offer a)
    then show ?thesis using k step
      by (auto simp: offer_audio_def bq_try_push_def recording_inv_def s)
  next
    case (Record_Take c)
    show ?thesis
    proof (cases "bq_items (rg_queue g)")
      case Nil
      then have "take_audio wd c s = Some (Inr (None, s))" by (auto simp: take_audio_def bq_try_pop_def s k(6))
      then show ?thesis using inv Record_Take by (intro exI [of _ "[]"] exI [of _ s] exI [of _ parts]) simp
    next
      case (Cons a as)
      then have "mono_ok maxSize a" using k(4) by simp
      from sink_pass_inv [OF k(7) this wd, of c]
      obtain parts' k' d' where p: "sink_pass wd (c, a) (rg_ref g, k, d) = Some (Inr (format_of a, k', d'))"
        "sink_inv maxSize d0 parts' opt (format_of a, k', d')" "recorded parts' = recorded parts @ contribution opt a"
        by blast
      have "take_audio wd c s = Some (Inr (Some a, g\<lparr>rg_sink := Some k', rg_ref := format_of a, rg_queue := (rg_queue g)\<lparr>bq_items := as\<rparr>\<rparr>, d'))"
        using p(1) Cons k(6) by (simp add: take_audio_def bq_try_pop_def s)
      with p k Cons show ?thesis by (auto simp: Record_Take recording_inv_def s)
    qed
  qed (use step in simp)
qed

lemma record_run_inv:
  assumes "recording_inv maxSize d0 parts opt ins outs s" "\<forall>r\<in>set rs. while_recording maxSize r"
    "wd_maxSize wd = maxSize" "maxSize < 2 ^ 31" "\<forall>f. wd_opens wd f"
  shows "\<exists>i out s' parts'. record_run wd rs s = Some (Inr (i, out, s')) \<and> recording_inv maxSize d0 parts' opt (ins @ i) (outs @ out) s'"
  using assms(1,2)
proof (induction rs arbitrary: parts ins outs s)
  case Nil
  then show ?case by (auto intro!: exI [of _ parts])
next
  case (Cons r rs)
  from record_step_inv [OF Cons.prems(1) _ assms(3-5), of r] Cons.prems(2)
  obtain i out s1 parts1 where s1: "record_step wd r s = Some (Inr (i, out, s1))"
    "recording_inv maxSize d0 parts1 opt (ins @ i) (outs @ out) s1"
    by auto
  from Cons.IH [OF s1(2)] Cons.prems(2)
  obtain i' out' s' parts' where "record_run wd rs s1 = Some (Inr (i', out', s'))"
    "recording_inv maxSize d0 parts' opt ((ins @ i) @ i') ((outs @ out) @ out') s'"
    by auto
  with s1(1) show ?case by (intro exI [of _ "i @ i'"] exI [of _ "out @ out'"] exI [of _ s'] exI [of _ parts']) simp
qed

definition squelch_of :: "int \<Rightarrow> squelch_option" where
  "squelch_of n = sk_squelchOption (setSquelchOption n AudioSinkFileThread_init)"

lemma startRecording_inv:
  assumes "\<not> rg_recording g" "finite (dom d)"
  shows "recording_inv maxSize d [] (squelch_of opt) [] [] (startRecording c u l opt limit g, d)"
proof -
  have "wv_open AudioFileWAV_init = None" by (simp add: AudioFileWAV_init_def)
  with assms show ?thesis
    by (simp add: recording_inv_def startRecording_def sink_inv_def setAudioFileHandler_def setFileTimeLimit_def setSquelchOption_def
        setAudioFileNameBase_def squelch_of_def rec_inv_init set_max_num_items_def ThreadBlockingQueue_init_def)
qed


text \<open>A squelched buffer of two samples, recorded as silence under the program's limit.\<close>

definition demo_folder :: sink_world where
  "demo_folder = \<lparr>wd_recPath = ''/rec'', wd_opens = (\<lambda>_. True), wd_maxSize = MAX_WAV_FILE_SIZE\<rparr>"

definition demo_clock :: sink_clock where
  "demo_clock = \<lparr>ck_now = 0, ck_timeStr = ''2020-01-01_00-00-00''\<rparr>"

definition demo_audio :: "bool \<Rightarrow> sink_input" where
  "demo_audio squelched = \<lparr>ai_sampleRate = 48000, ai_channels = 1, ai_peak = 1, ai_squelched = squelched, ai_data = [1, -1],
     si_frequency = 162550000, si_inputRate = 12500\<rparr>"


end
