(* ===== verification/Instance_Life.thy ===== *)
theory Instance_Life
  imports Io_Thread
begin

text \<open>
  The threads of a \<open>DemodulatorInstance\<close> (src/src/cubic/demod/DemodulatorInstance.cpp): the audio thread, the
  demodulator's, the preprocessor's, and the worker that the preprocessor starts
  (DemodulatorPreThread.cpp), beside the owner, who runs, terminates and destroys the instance. Each is an
  \<open>IOThread\<close>. The program runs an instance once; the recorder, which is stopped before, is in Recorder.
\<close>

section \<open>State\<close>

datatype part_id = P_Audio | P_Demod | P_Pre | P_Worker

text \<open>
  The owner: not in a call, before the \<open>k\<close>-th of the stores of \<open>terminate\<close>, in the join of the worker, in the destructor after
  \<open>n\<close> rounds, done with all objects deleted, done with them left, or stopped by a null pointer.
\<close>

datatype life_owner = L_Idle | L_Terminates nat | L_Joins | L_Destroys nat | L_Deleted | L_Left | L_Faulted

text \<open>
  For each thread its flags, whether its \<open>std::thread\<close> exists and was not joined, and whether its \<open>run\<close> has fetched
  its queues. \<open>ln_worker\<close> is whether the object of the worker still exists.
\<close>

record instance_life =
  ln_thread :: "part_id \<Rightarrow> iothread"
  ln_handle :: "part_id \<Rightarrow> bool"
  ln_bound :: "part_id \<Rightarrow> bool"
  ln_worker :: bool
  ln_active :: bool
  ln_owner :: life_owner

definition instance_life_init :: instance_life where
  "instance_life_init = \<lparr>ln_thread = (\<lambda>_. IOThread_init), ln_handle = (\<lambda>_. False), ln_bound = (\<lambda>_. False), ln_worker = True,
     ln_active = False, ln_owner = L_Idle\<rparr>"

definition on_thread :: "part_id \<Rightarrow> (iothread \<Rightarrow> iothread) \<Rightarrow> instance_life \<Rightarrow> instance_life" where
  "on_thread u f s = s\<lparr>ln_thread := (ln_thread s)(u := f (ln_thread s u))\<rparr>"

definition TERMINATION_ROUNDS :: nat where
  "TERMINATION_ROUNDS = 151"

section \<open>The threads\<close>

text \<open>
  \<open>threadMain\<close> of each. \<open>run\<close> first fetches its queues, and that of the preprocessor then starts the worker; it ends
  when it sees that it should stop.
\<close>

inductive part_step :: "part_id \<Rightarrow> instance_life \<Rightarrow> instance_life \<Rightarrow> bool" for u where
  enter: "ln_handle s u \<Longrightarrow> it_point (ln_thread s u) = It_Not_Started \<Longrightarrow>
    part_step u s (on_thread u (\<lambda>t. t\<lparr>it_point := It_Entered, it_terminated := False\<rparr>) s)"
| reset: "it_point (ln_thread s u) = It_Entered \<Longrightarrow>
    part_step u s (on_thread u (\<lambda>t. t\<lparr>it_point := It_Runs, it_stopping := False, it_asked := False\<rparr>) s)"
| binds: "it_point (ln_thread s u) = It_Runs \<Longrightarrow> \<not> ln_bound s u \<Longrightarrow>
    part_step u s (s\<lparr>ln_bound := (ln_bound s)(u := True),
      ln_handle := (if u = P_Pre then (ln_handle s)(P_Worker := True) else ln_handle s)\<rparr>)"
| ends: "it_point (ln_thread s u) = It_Runs \<Longrightarrow> ln_bound s u \<Longrightarrow> it_stopping (ln_thread s u) \<Longrightarrow>
    part_step u s (on_thread u (\<lambda>t. t\<lparr>it_point := It_Run_Ended False\<rparr>) s)"
| flag: "it_point (ln_thread s u) = It_Run_Ended False \<Longrightarrow>
    part_step u s (on_thread u (\<lambda>t. t\<lparr>it_point := It_Flagged False, it_terminated := True\<rparr>) s)"
| leave: "it_point (ln_thread s u) = It_Flagged False \<Longrightarrow>
    part_step u s (on_thread u (\<lambda>t. t\<lparr>it_point := It_Over, it_stopping := True\<rparr>) s)"

section \<open>The owner\<close>

definition life_run :: "instance_life \<Rightarrow> instance_life" where
  "life_run s =
     (if ln_active s then s
      else s\<lparr>ln_handle := (\<lambda>u. u \<noteq> P_Worker \<or> ln_handle s u), ln_active := True\<rparr>)"

text \<open>
  \<open>terminate\<close>: a flag for the audio thread, one for the demodulator, whose queues it then flushes, one for the
  preprocessor, one for the worker, whose queues and whose preprocessor's it then flushes.
\<close>

definition terminate_next :: "nat \<Rightarrow> instance_life \<Rightarrow> instance_life" where
  "terminate_next k s =
     (if k = 0 then (on_thread P_Audio iothread_terminate s)\<lparr>ln_owner := L_Terminates 1\<rparr>
      else if k = 1 then
        (let s1 = on_thread P_Demod iothread_terminate s
         in s1\<lparr>ln_owner := (if ln_bound s P_Demod then L_Terminates 2 else L_Faulted)\<rparr>)
      else if k = 2 then (on_thread P_Pre iothread_terminate s)\<lparr>ln_owner := L_Terminates 3\<rparr>
      else if \<not> ln_worker s then s\<lparr>ln_owner := L_Faulted\<rparr>
      else
        (let s1 = on_thread P_Worker iothread_terminate s
         in s1\<lparr>ln_owner := (if ln_bound s P_Worker \<and> ln_bound s P_Pre then L_Joins else L_Faulted)\<rparr>))"

text \<open>
  \<open>isTerminated\<close> joins every thread that is marked as terminated, the audio thread last, and says whether all are. It
  waits for a marked thread to leave \<open>threadMain\<close>.
\<close>

definition instance_parts :: "part_id list" where
  "instance_parts = [P_Pre, P_Demod, P_Audio]"

definition join_ready :: "instance_life \<Rightarrow> bool" where
  "join_ready s \<longleftrightarrow> (\<forall>u\<in>set instance_parts. it_terminated (ln_thread s u) \<and> ln_handle s u \<longrightarrow> it_point (ln_thread s u) = It_Over)"

definition instance_isTerminated :: "instance_life \<Rightarrow> bool \<times> instance_life" where
  "instance_isTerminated s =
     (\<forall>u\<in>set instance_parts. it_terminated (ln_thread s u),
      s\<lparr>ln_handle := (\<lambda>u. ln_handle s u \<and> \<not> (u \<in> set instance_parts \<and> it_terminated (ln_thread s u)))\<rparr>)"

definition destroy_round :: "nat \<Rightarrow> instance_life \<Rightarrow> instance_life" where
  "destroy_round n s =
     (case instance_isTerminated s of (b, t) \<Rightarrow>
        t\<lparr>ln_owner := (if b then L_Deleted else if n + 1 < TERMINATION_ROUNDS then L_Destroys (n + 1) else L_Left)\<rparr>)"

inductive life_owner_step :: "instance_life \<Rightarrow> instance_life \<Rightarrow> bool" where
  run: "ln_owner s = L_Idle \<Longrightarrow> it_point (ln_thread s P_Pre) = It_Not_Started \<Longrightarrow> life_owner_step s (life_run s)"
| terminate: "ln_owner s = L_Idle \<Longrightarrow> life_owner_step s (s\<lparr>ln_owner := L_Terminates 0\<rparr>)"
| terminate_next: "ln_owner s = L_Terminates k \<Longrightarrow> life_owner_step s (terminate_next k s)"
| join_worker: "ln_owner s = L_Joins \<Longrightarrow> it_point (ln_thread s P_Worker) = It_Over \<Longrightarrow>
    life_owner_step s (s\<lparr>ln_handle := (ln_handle s)(P_Worker := False), ln_worker := False, ln_owner := L_Idle\<rparr>)"
| check: "ln_owner s = L_Idle \<Longrightarrow> join_ready s \<Longrightarrow> life_owner_step s (snd (instance_isTerminated s))"
| destroy: "ln_owner s = L_Idle \<Longrightarrow> life_owner_step s (s\<lparr>ln_owner := L_Destroys 0\<rparr>)"
| destroy_round: "ln_owner s = L_Destroys n \<Longrightarrow> join_ready s \<Longrightarrow> life_owner_step s (destroy_round n s)"

inductive life_reach :: "instance_life \<Rightarrow> bool" where
  start: "life_reach instance_life_init"
| part: "life_reach s \<Longrightarrow> part_step u s t \<Longrightarrow> life_reach t"
| owner: "life_reach s \<Longrightarrow> life_owner_step s t \<Longrightarrow> life_reach t"

section \<open>The invariant\<close>

text \<open>
  A thread is marked exactly between its flag and its end, and was bound before it ended. Once the preprocessor was told to stop, the
  owner is still in \<open>terminate\<close>, or has joined the worker.
\<close>

fun part_point :: "thread_point \<Rightarrow> bool" where
  "part_point (It_Run_Ended b) = (\<not> b)"
| "part_point (It_Flagged b) = (\<not> b)"
| "part_point It_Threw = False"
| "part_point _ = True"

fun ran :: "thread_point \<Rightarrow> bool" where
  "ran (It_Run_Ended b) = True" | "ran (It_Flagged b) = True" | "ran It_Over = True" | "ran It_Threw = True" | "ran _ = False"

fun marked :: "thread_point \<Rightarrow> bool" where
  "marked (It_Flagged b) = True" | "marked It_Over = True" | "marked It_Threw = True" | "marked _ = False"

definition part_ok :: "iothread \<Rightarrow> bool \<Rightarrow> bool" where
  "part_ok t handle \<longleftrightarrow> it_terminated t = marked (it_point t) \<and> part_point (it_point t) \<and> (ran (it_point t) \<longrightarrow> it_stopping t) \<and>
     (\<not> handle \<longrightarrow> it_point t = It_Not_Started \<or> it_point t = It_Over)"

definition part_inv :: "instance_life \<Rightarrow> part_id \<Rightarrow> bool" where
  "part_inv s u \<longleftrightarrow> part_ok (ln_thread s u) (ln_handle s u)"

definition told :: "instance_life \<Rightarrow> bool" where
  "told s \<longleftrightarrow> it_stopping (ln_thread s P_Pre)"

definition worker_inv :: "instance_life \<Rightarrow> bool" where
  "worker_inv s \<longleftrightarrow>
     (told s \<longrightarrow> \<not> ln_worker s \<or> ln_owner s = L_Terminates 3 \<or> ln_owner s = L_Joins \<or> ln_owner s = L_Faulted) \<and>
     (\<not> ln_worker s \<longrightarrow> it_point (ln_thread s P_Worker) = It_Over) \<and>
     (\<forall>k. ln_owner s = L_Terminates k \<longrightarrow> k \<le> 3)"

definition end_inv :: "instance_life \<Rightarrow> bool" where
  "end_inv s \<longleftrightarrow> (ln_owner s = L_Deleted \<longrightarrow> (\<forall>u\<in>set instance_parts. it_terminated (ln_thread s u) \<and> \<not> ln_handle s u)) \<and>
     (\<forall>n. ln_owner s = L_Destroys n \<longrightarrow> n < TERMINATION_ROUNDS)"

definition threads_inv :: "instance_life \<Rightarrow> bool" where
  "threads_inv s \<longleftrightarrow> (\<forall>u. part_inv s u) \<and> worker_inv s \<and> end_inv s"

lemmas life_defs = on_thread_def life_run_def terminate_next_def instance_isTerminated_def destroy_round_def iothread_terminate_def
  join_ready_def instance_parts_def told_def Let_def

lemma on_thread_simps [simp]:
  "ln_thread (on_thread u f s) = (ln_thread s)(u := f (ln_thread s u))" "ln_handle (on_thread u f s) = ln_handle s"
  "ln_bound (on_thread u f s) = ln_bound s" "ln_worker (on_thread u f s) = ln_worker s" "ln_active (on_thread u f s) = ln_active s"
  "ln_owner (on_thread u f s) = ln_owner s"
  by (simp_all add: on_thread_def)

lemma part_ok_more_handles: "part_ok t h \<Longrightarrow> part_ok t (h \<or> h')"
  by (auto simp: part_ok_def)

lemma part_ok_terminate: "part_ok t h \<Longrightarrow> part_ok (iothread_terminate t) h"
  by (simp add: part_ok_def iothread_terminate_def)

lemma on_thread_part:
  "part_inv s v \<Longrightarrow> (part_ok (ln_thread s u) (ln_handle s u) \<Longrightarrow> part_ok (f (ln_thread s u)) (ln_handle s u)) \<Longrightarrow> part_inv (on_thread u f s) v"
  by (cases "u = v") (simp_all add: part_inv_def)

lemma part_step_parts:
  assumes "part_step u s t" "part_inv s v"
  shows "part_inv t v"
  using assms(1)
proof (cases rule: part_step.cases)
  case enter
  show ?thesis unfolding enter(1) by (rule on_thread_part [OF assms(2)]) (use enter in \<open>simp add: part_ok_def\<close>)
next
  case reset
  show ?thesis unfolding reset(1) by (rule on_thread_part [OF assms(2)]) (use reset in \<open>simp add: part_ok_def\<close>)
next
  case binds
  show ?thesis unfolding binds(1) using assms(2) by (auto simp: part_inv_def part_ok_def)
next
  case ends
  show ?thesis unfolding ends(1) by (rule on_thread_part [OF assms(2)]) (use ends in \<open>simp add: part_ok_def\<close>)
next
  case flag
  show ?thesis unfolding flag(1) by (rule on_thread_part [OF assms(2)]) (use flag in \<open>simp add: part_ok_def\<close>)
next
  case leave
  show ?thesis unfolding leave(1) by (rule on_thread_part [OF assms(2)]) (use leave in \<open>simp add: part_ok_def\<close>)
qed

lemma terminate_next_parts: "part_inv s v \<Longrightarrow> part_inv (terminate_next k s) v"
  by (auto simp: terminate_next_def part_inv_def Let_def part_ok_terminate)

lemma isTerminated_parts:
  assumes "part_inv s v" "join_ready s"
  shows "part_inv (snd (instance_isTerminated s)) v"
proof (cases "v \<in> set instance_parts \<and> it_terminated (ln_thread s v)")
  case True
  then have "ln_handle s v \<longrightarrow> it_point (ln_thread s v) = It_Over" using assms(2) by (auto simp: join_ready_def)
  then have "part_ok (ln_thread s v) False" using assms(1) by (auto simp: part_inv_def part_ok_def)
  then show ?thesis using True by (simp add: part_inv_def instance_isTerminated_def)
next
  case False
  then have "(ln_handle s v \<and> \<not> (v \<in> set instance_parts \<and> it_terminated (ln_thread s v))) = ln_handle s v" by auto
  then show ?thesis using assms(1) by (simp add: part_inv_def instance_isTerminated_def)
qed

lemma owner_step_parts:
  assumes "life_owner_step s t" "part_inv s v"
  shows "part_inv t v"
  using assms(1)
proof (cases rule: life_owner_step.cases)
  case run
  then show ?thesis using assms(2) by (auto simp: life_run_def part_inv_def part_ok_def)
next
  case (terminate_next k)
  then show ?thesis using terminate_next_parts [OF assms(2)] by simp
next
  case join_worker
  then show ?thesis using assms(2) by (auto simp: part_inv_def part_ok_def)
next
  case check
  then show ?thesis using isTerminated_parts [OF assms(2)] by simp
next
  case (destroy_round n)
  then show ?thesis using isTerminated_parts [OF assms(2)] by (simp add: destroy_round_def part_inv_def split: prod.splits)
qed (use assms(2) in \<open>simp_all add: part_inv_def\<close>)

lemma part_step_worker:
  assumes "part_step u s t" "worker_inv s" "part_inv s P_Pre"
  shows "worker_inv t"
  using assms(1)
proof (cases rule: part_step.cases)
  case leave
  then have "u = P_Pre \<longrightarrow> told s" using assms(3) by (auto simp: part_inv_def part_ok_def told_def)
  then show ?thesis using assms(2) leave by (cases "u = P_Pre") (auto simp: worker_inv_def told_def)
next
  case enter
  then show ?thesis using assms(2) by (cases "u = P_Pre") (auto simp: worker_inv_def told_def)
qed (use assms(2) in \<open>auto simp: worker_inv_def told_def\<close>)

lemma terminate_next_worker:
  assumes "worker_inv s" "ln_owner s = L_Terminates k"
  shows "worker_inv (terminate_next k s)"
proof -
  have "k = 0 \<or> k = 1 \<or> k = 2 \<or> k = 3" using assms by (auto simp: worker_inv_def)
  then show ?thesis using assms by (elim disjE) (auto simp: worker_inv_def terminate_next_def told_def iothread_terminate_def Let_def)
qed

lemma owner_step_worker:
  assumes "life_owner_step s t" "worker_inv s"
  shows "worker_inv t"
  using assms(1)
proof (cases rule: life_owner_step.cases)
  case (terminate_next k)
  then show ?thesis using terminate_next_worker [OF assms(2)] by simp
next
  case (destroy_round n)
  then show ?thesis using assms(2) by (auto simp: worker_inv_def told_def destroy_round_def instance_isTerminated_def)
qed (use assms(2) in \<open>auto simp: worker_inv_def told_def life_run_def instance_isTerminated_def\<close>)

lemma part_step_end:
  assumes "part_step u s t" "end_inv s" "\<forall>u. part_inv s u"
  shows "end_inv t"
proof -
  have "it_point (ln_thread s v) = It_Over" if "ln_owner s = L_Deleted" "v \<in> set instance_parts" for v
    using assms(2,3) that by (auto simp: end_inv_def part_inv_def part_ok_def)
  with assms(1,2) show ?thesis
    by (cases rule: part_step.cases) (auto simp: end_inv_def instance_parts_def)
qed

lemma owner_step_end:
  assumes "life_owner_step s t" "end_inv s"
  shows "end_inv t"
  using assms
  by (cases rule: life_owner_step.cases)
    (auto simp: end_inv_def life_run_def terminate_next_def destroy_round_def instance_isTerminated_def TERMINATION_ROUNDS_def Let_def split: if_splits)

lemma life_reach_inv: "life_reach s \<Longrightarrow> threads_inv s"
proof (induction rule: life_reach.induct)
  case start
  show ?case by (simp add: threads_inv_def part_inv_def part_ok_def worker_inv_def end_inv_def told_def instance_life_init_def IOThread_init_def)
next
  case (part s u t)
  then show ?case using part_step_parts part_step_worker part_step_end unfolding threads_inv_def by blast
next
  case (owner s t)
  then show ?case using owner_step_parts owner_step_worker owner_step_end unfolding threads_inv_def by blast
qed

section \<open>Properties\<close>

text \<open>
  C12: No thread runs on an object that was deleted. However the threads, the calls of the owner and the checks
  interleave, when the destructor deletes the threads' objects each of the four threads has left
  \<open>threadMain\<close>, the worker included, and every \<open>std::thread\<close> was joined; a destructor that cannot know that leaves the
  objects, after at most 151 rounds.
\<close>

theorem deleted_after_the_threads:
  assumes "life_reach s"
  shows "(ln_owner s = L_Deleted \<longrightarrow> (\<forall>u. it_point (ln_thread s u) = It_Over) \<and> (\<forall>u. u \<noteq> P_Worker \<longrightarrow> \<not> ln_handle s u) \<and> \<not> ln_worker s) \<and>
    (\<forall>n. ln_owner s = L_Destroys n \<longrightarrow> n < 151)"
proof -
  have i: "\<forall>u. part_inv s u" "worker_inv s" "end_inv s" using life_reach_inv [OF assms] by (auto simp: threads_inv_def)
  have "(\<forall>u. it_point (ln_thread s u) = It_Over) \<and> (\<forall>u. u \<noteq> P_Worker \<longrightarrow> \<not> ln_handle s u) \<and> \<not> ln_worker s" if d: "ln_owner s = L_Deleted"
  proof -
    have p: "it_point (ln_thread s u) = It_Over \<and> \<not> ln_handle s u" if "u \<in> set instance_parts" for u
      using i(1,3) d that by (auto simp: end_inv_def part_inv_def part_ok_def)
    then have "told s" using i(1) by (auto simp: told_def part_inv_def part_ok_def instance_parts_def)
    then have w: "\<not> ln_worker s" "it_point (ln_thread s P_Worker) = It_Over" using i(2) d by (auto simp: worker_inv_def)
    have "u = P_Worker \<or> u \<in> set instance_parts" for u by (cases u) (auto simp: instance_parts_def)
    with p w show ?thesis by metis
  qed
  then show ?thesis using i(3) by (auto simp: end_inv_def TERMINATION_ROUNDS_def)
qed

section \<open>Runs\<close>

definition comes_up :: "part_id \<Rightarrow> instance_life \<Rightarrow> instance_life" where
  "comes_up u s = s\<lparr>ln_thread := (ln_thread s)(u := (ln_thread s u)\<lparr>it_terminated := False, it_point := It_Runs, it_stopping := False, it_asked := False\<rparr>),
     ln_bound := (ln_bound s)(u := True), ln_handle := (if u = P_Pre then (ln_handle s)(P_Worker := True) else ln_handle s)\<rparr>"

definition goes_down :: "part_id \<Rightarrow> instance_life \<Rightarrow> instance_life" where
  "goes_down u s = on_thread u (\<lambda>t. t\<lparr>it_terminated := True, it_point := It_Over, it_stopping := True\<rparr>) s"

lemma reach_up:
  assumes "life_reach s" "ln_handle s u" "it_point (ln_thread s u) = It_Not_Started" "\<not> ln_bound s u"
  shows "life_reach (comes_up u s)"
proof -
  let ?s1 = "on_thread u (\<lambda>t. t\<lparr>it_point := It_Entered, it_terminated := False\<rparr>) s"
  let ?s2 = "on_thread u (\<lambda>t. t\<lparr>it_point := It_Runs, it_stopping := False, it_asked := False\<rparr>) ?s1"
  have r1: "life_reach ?s1" by (rule life_reach.part [OF assms(1) part_step.enter [OF assms(2,3)]])
  have r2: "life_reach ?s2" by (rule life_reach.part [OF r1 part_step.reset]) simp
  have "life_reach (?s2\<lparr>ln_bound := (ln_bound ?s2)(u := True),
      ln_handle := (if u = P_Pre then (ln_handle ?s2)(P_Worker := True) else ln_handle ?s2)\<rparr>)"
    by (rule life_reach.part [OF r2 part_step.binds]) (simp_all add: assms(4))
  moreover have "comes_up u s = ?s2\<lparr>ln_bound := (ln_bound ?s2)(u := True),
      ln_handle := (if u = P_Pre then (ln_handle ?s2)(P_Worker := True) else ln_handle ?s2)\<rparr>"
    unfolding comes_up_def on_thread_def by simp
  ultimately show ?thesis by (simp only:)
qed

lemma reach_down:
  assumes "life_reach s" "it_point (ln_thread s u) = It_Runs" "ln_bound s u" "it_stopping (ln_thread s u)"
  shows "life_reach (goes_down u s)"
proof -
  let ?s1 = "on_thread u (\<lambda>t. t\<lparr>it_point := It_Run_Ended False\<rparr>) s"
  let ?s2 = "on_thread u (\<lambda>t. t\<lparr>it_point := It_Flagged False, it_terminated := True\<rparr>) ?s1"
  have r1: "life_reach ?s1" by (rule life_reach.part [OF assms(1) part_step.ends [OF assms(2-4)]])
  have r2: "life_reach ?s2" by (rule life_reach.part [OF r1 part_step.flag]) simp
  have "life_reach (on_thread u (\<lambda>t. t\<lparr>it_point := It_Over, it_stopping := True\<rparr>) ?s2)"
    by (rule life_reach.part [OF r2 part_step.leave]) simp
  then show ?thesis by (simp add: goes_down_def on_thread_def)
qed

lemma comes_up_simps [simp]:
  "ln_thread (comes_up u s) = (ln_thread s)(u := (ln_thread s u)\<lparr>it_terminated := False, it_point := It_Runs, it_stopping := False, it_asked := False\<rparr>)"
  "ln_bound (comes_up u s) = (ln_bound s)(u := True)" "ln_owner (comes_up u s) = ln_owner s" "ln_worker (comes_up u s) = ln_worker s"
  "ln_handle (comes_up u s) = (if u = P_Pre then (ln_handle s)(P_Worker := True) else ln_handle s)"
  by (simp_all add: comes_up_def)

lemma goes_down_simps [simp]:
  "ln_thread (goes_down u s) = (ln_thread s)(u := (ln_thread s u)\<lparr>it_terminated := True, it_point := It_Over, it_stopping := True\<rparr>)"
  "ln_bound (goes_down u s) = ln_bound s" "ln_owner (goes_down u s) = ln_owner s" "ln_worker (goes_down u s) = ln_worker s"
  "ln_handle (goes_down u s) = ln_handle s"
  by (simp_all add: goes_down_def)

text \<open>The whole life: run, all threads up, terminated, down, joined, deleted in the first round.\<close>

lemma demo_deleted: "\<exists>s. life_reach s \<and> ln_owner s = L_Deleted"
proof -
  let ?s0 = "life_run instance_life_init"
  have "life_reach ?s0" by (rule life_reach.owner [OF life_reach.start life_owner_step.run]) (simp_all add: instance_life_init_def IOThread_init_def)
  moreover have s0: "ln_handle ?s0 = (\<lambda>u. u \<noteq> P_Worker)" "ln_thread ?s0 = (\<lambda>_. IOThread_init)" "ln_bound ?s0 = (\<lambda>_. False)"
    "ln_owner ?s0 = L_Idle" "ln_worker ?s0"
    by (simp_all add: life_run_def instance_life_init_def)
  ultimately obtain s1 where s1: "life_reach s1" "ln_owner s1 = L_Idle" "ln_worker s1" "\<forall>u. ln_bound s1 u" "\<forall>u. ln_handle s1 u"
    "\<forall>u. it_point (ln_thread s1 u) = It_Runs \<and> \<not> it_terminated (ln_thread s1 u)"
  proof -
    assume a: "life_reach ?s0"
    assume that: "\<And>s1. \<lbrakk>life_reach s1; ln_owner s1 = L_Idle; ln_worker s1; \<forall>u. ln_bound s1 u; \<forall>u. ln_handle s1 u;
      \<forall>u. it_point (ln_thread s1 u) = It_Runs \<and> \<not> it_terminated (ln_thread s1 u)\<rbrakk> \<Longrightarrow> thesis"
    let ?a = "comes_up P_Audio ?s0" let ?b = "comes_up P_Demod ?a" let ?c = "comes_up P_Pre ?b" let ?d = "comes_up P_Worker ?c"
    have ra: "life_reach ?a" by (rule reach_up [OF a]) (simp_all add: s0 IOThread_init_def)
    have rb: "life_reach ?b" by (rule reach_up [OF ra]) (simp_all add: s0 IOThread_init_def)
    have rc: "life_reach ?c" by (rule reach_up [OF rb]) (simp_all add: s0 IOThread_init_def)
    have rd: "life_reach ?d" by (rule reach_up [OF rc]) (simp_all add: s0 IOThread_init_def)
    have all: "u = P_Audio \<or> u = P_Demod \<or> u = P_Pre \<or> u = P_Worker" for u by (cases u) auto
    show thesis by (rule that [OF rd]) (use all in \<open>auto simp: s0\<close>)
  qed
  let ?t0 = "s1\<lparr>ln_owner := L_Terminates 0\<rparr>"
  let ?t1 = "terminate_next 0 ?t0" let ?t2 = "terminate_next 1 ?t1" let ?t3 = "terminate_next 2 ?t2" let ?t4 = "terminate_next 3 ?t3"
  have t0: "life_reach ?t0" by (rule life_reach.owner [OF s1(1) life_owner_step.terminate [OF s1(2)]])
  have t1: "life_reach ?t1" by (rule life_reach.owner [OF t0 life_owner_step.terminate_next]) simp
  have o1: "ln_owner ?t1 = L_Terminates 1" by (simp add: terminate_next_def)
  have t2: "life_reach ?t2" by (rule life_reach.owner [OF t1 life_owner_step.terminate_next [OF o1]])
  have o2: "ln_owner ?t2 = L_Terminates 2" using s1(4) by (simp add: terminate_next_def Let_def)
  have t3: "life_reach ?t3" by (rule life_reach.owner [OF t2 life_owner_step.terminate_next [OF o2]])
  have o3: "ln_owner ?t3 = L_Terminates 3" by (simp add: terminate_next_def)
  have t4: "life_reach ?t4" by (rule life_reach.owner [OF t3 life_owner_step.terminate_next [OF o3]])
  have p4: "ln_owner ?t4 = L_Joins" "\<forall>u. it_point (ln_thread ?t4 u) = It_Runs \<and> it_stopping (ln_thread ?t4 u) \<and> ln_bound ?t4 u \<and> ln_handle ?t4 u"
  proof -
    show "ln_owner ?t4 = L_Joins" using s1 by (simp add: terminate_next_def Let_def)
    have "it_point (ln_thread ?t4 u) = It_Runs \<and> it_stopping (ln_thread ?t4 u) \<and> ln_bound ?t4 u \<and> ln_handle ?t4 u" for u
      using s1 by (cases u) (simp_all add: terminate_next_def Let_def iothread_terminate_def)
    then show "\<forall>u. it_point (ln_thread ?t4 u) = It_Runs \<and> it_stopping (ln_thread ?t4 u) \<and> ln_bound ?t4 u \<and> ln_handle ?t4 u" by blast
  qed
  define s2 where "s2 = ?t4"
  have s2: "life_reach s2" "ln_owner s2 = L_Joins" "it_point (ln_thread s2 u) = It_Runs" "it_stopping (ln_thread s2 u)" "ln_bound s2 u" for u
    using t4 p4 by (simp_all add: s2_def)
  let ?a = "goes_down P_Audio s2" let ?b = "goes_down P_Demod ?a" let ?c = "goes_down P_Pre ?b" let ?d = "goes_down P_Worker ?c"
  have ra: "life_reach ?a" by (rule reach_down [OF s2(1)]) (simp_all add: s2)
  have rb: "life_reach ?b" by (rule reach_down [OF ra]) (simp_all add: s2)
  have rc: "life_reach ?c" by (rule reach_down [OF rb]) (simp_all add: s2)
  have rd: "life_reach ?d" by (rule reach_down [OF rc]) (simp_all add: s2)
  let ?e = "?d\<lparr>ln_handle := (ln_handle ?d)(P_Worker := False), ln_worker := False, ln_owner := L_Idle\<rparr>"
  have re: "life_reach ?e" by (rule life_reach.owner [OF rd life_owner_step.join_worker]) (simp_all add: s2)
  have rf: "life_reach (?e\<lparr>ln_owner := L_Destroys 0\<rparr>)" by (rule life_reach.owner [OF re life_owner_step.destroy]) simp
  have "life_reach (destroy_round 0 (?e\<lparr>ln_owner := L_Destroys 0\<rparr>))"
    by (rule life_reach.owner [OF rf life_owner_step.destroy_round]) (simp_all add: join_ready_def instance_parts_def)
  moreover have "ln_owner (destroy_round 0 (?e\<lparr>ln_owner := L_Destroys 0\<rparr>)) = L_Deleted"
    by (simp add: destroy_round_def instance_isTerminated_def instance_parts_def)
  ultimately show ?thesis by blast
qed

theorem deleted_after_the_threads_witness:
  "\<exists>s. life_reach s \<and> ln_owner s = L_Deleted \<and> (\<forall>u. it_point (ln_thread s u) = It_Over) \<and> \<not> ln_worker s"
proof -
  obtain s where "life_reach s" "ln_owner s = L_Deleted" using demo_deleted by blast
  with deleted_after_the_threads [of s] show ?thesis by blast
qed

text \<open>
  Terminating an instance whose threads have not come up yet follows a null pointer: the queues that are to be
  flushed are fetched by the threads themselves.
\<close>

theorem early_terminate_faults:
  "\<exists>s. life_reach s \<and> ln_active s \<and> ln_owner s = L_Faulted \<and> (\<forall>u. it_point (ln_thread s u) = It_Not_Started)"
proof -
  let ?s0 = "life_run instance_life_init"
  have r0: "life_reach ?s0" by (rule life_reach.owner [OF life_reach.start life_owner_step.run]) (simp_all add: instance_life_init_def IOThread_init_def)
  have r1: "life_reach (?s0\<lparr>ln_owner := L_Terminates 0\<rparr>)"
    by (rule life_reach.owner [OF r0 life_owner_step.terminate]) (simp add: life_run_def instance_life_init_def)
  have r2: "life_reach (terminate_next 0 (?s0\<lparr>ln_owner := L_Terminates 0\<rparr>))"
    by (rule life_reach.owner [OF r1 life_owner_step.terminate_next]) simp
  have "life_reach (terminate_next 1 (terminate_next 0 (?s0\<lparr>ln_owner := L_Terminates 0\<rparr>)))"
    by (rule life_reach.owner [OF r2 life_owner_step.terminate_next]) (simp add: terminate_next_def)
  then show ?thesis
    by (intro exI conjI) (assumption, auto simp: terminate_next_def life_run_def instance_life_init_def IOThread_init_def iothread_terminate_def Let_def)
qed

end
