(* ===== verification/Wire_Messages.thy ===== *)
theory Wire_Messages
  imports Consoles
begin

text \<open>
  What \<open>SocketConnection\<close> (src/src/server/connection/SocketConnection.cpp) makes of the events of the
  server for a client over the network: the messages of proto/messages.proto and
  proto/context.proto, one for each kind of event. Their classes are generated; a message is the
  record of the fields that are set, and turning it into bytes is the parameter \<open>serialize\<close>.
\<close>

section \<open>Messages\<close>

datatype wire_state = WIRE_INVAL | WIRE_SCAN | WIRE_HOLD | WIRE_RECEIVE

record wire_entry =
  we_freq :: int
  we_systemTag :: string
  we_entryTag :: string
  we_modulation :: string
  we_entryIndex :: string

datatype wire_type = REQUEST_RESPONSE | SCANNER_CONTEXT | DEMOD_CONTEXT | GENERAL_MESSAGE | SIGNAL_LEVEL

datatype wire_level = WIRE_INFO | WIRE_WARNING | WIRE_ERROR | WIRE_CONSOLE

text \<open>The \<open>oneof\<close> of a message: at most one of its contents is set.\<close>

datatype wire_content =
    Wire_Scanner wire_state wire_entry
  | Wire_Demod int rat
  | Wire_General wire_level string
  | Wire_System string int int int "string list"
  | Wire_Level int

record server_to_client =
  stc_type :: wire_type
  stc_content :: wire_content

section \<open>The five handlers\<close>

text \<open>A \<open>long long\<close> becomes a \<open>uint64\<close>, and \<open>c_str()\<close> ends at the first NUL.\<close>

definition c_str :: "string \<Rightarrow> string" where
  "c_str s = takeWhile (\<lambda>c. c \<noteq> CHR 0x00) s"

definition wire_of_state :: "context_state \<Rightarrow> wire_state" where
  "wire_of_state st = (case st of OTHER_STATE \<Rightarrow> WIRE_INVAL | SCAN \<Rightarrow> WIRE_SCAN | HOLD \<Rightarrow> WIRE_HOLD | RECEIVE \<Rightarrow> WIRE_RECEIVE)"

definition wire_scanner_context :: "scanner_context \<Rightarrow> server_to_client" where
  "wire_scanner_context c =
     \<lparr>stc_type = SCANNER_CONTEXT, stc_content = Wire_Scanner (wire_of_state (cx_state c))
        \<lparr>we_freq = cx_frequency c mod 2 ^ 64, we_systemTag = cx_systemTag c, we_entryTag = cx_entryTag c,
         we_modulation = cx_modulation c, we_entryIndex = c_str (cx_entryIndex c)\<rparr>\<rparr>"

definition wire_demod_context :: "demod_context \<Rightarrow> server_to_client" where
  "wire_demod_context c = \<lparr>stc_type = DEMOD_CONTEXT, stc_content = Wire_Demod (dc_squelch c) (dc_gain c)\<rparr>"

definition wire_of_level :: "message_type \<Rightarrow> wire_level" where
  "wire_of_level t = (case t of INFO \<Rightarrow> WIRE_INFO | WARNING \<Rightarrow> WIRE_WARNING | ERROR \<Rightarrow> WIRE_ERROR)"

definition wire_general_message :: "general_message \<Rightarrow> server_to_client" where
  "wire_general_message m = \<lparr>stc_type = GENERAL_MESSAGE, stc_content = Wire_General (wire_of_level (gm_type m)) (gm_content m)\<rparr>"

definition wire_system_info :: "system_info \<Rightarrow> server_to_client" where
  "wire_system_info i = \<lparr>stc_type = REQUEST_RESPONSE, stc_content = Wire_System (si_version i) (si_buildNumber i)
     (fst (si_squelchRange i)) (snd (si_squelchRange i)) (si_supportedModulations i)\<rparr>"

definition wire_signal_level :: "int \<Rightarrow> server_to_client" where
  "wire_signal_level n = \<lparr>stc_type = SIGNAL_LEVEL, stc_content = Wire_Level n\<rparr>"

fun wire_event :: "client_event \<Rightarrow> server_to_client" where
  "wire_event (Got_Scanner_Context c) = wire_scanner_context c"
| "wire_event (Got_Demod_Context c) = wire_demod_context c"
| "wire_event (Got_Message m) = wire_general_message m"
| "wire_event (Got_System_Info i) = wire_system_info i"
| "wire_event (Got_Signal_Level n) = wire_signal_level n"

text \<open>An event for a client is serialised into the buffer and its write is started.\<close>

definition socket_event :: "(server_to_client \<Rightarrow> 'b list) \<Rightarrow> client_event \<Rightarrow> 'b socket_writer \<Rightarrow> 'b socket_writer" where
  "socket_event serialize ev w = send_event serialize (wire_event ev) w"

section \<open>What the client understands\<close>

text \<open>
  A reader of the protocol, for the statements: which event a message stands for, by the content that is set. A
  console message is for logs, which the server does not send.
\<close>

fun state_of_wire :: "wire_state \<Rightarrow> context_state" where
  "state_of_wire WIRE_INVAL = OTHER_STATE" | "state_of_wire WIRE_SCAN = SCAN" | "state_of_wire WIRE_HOLD = HOLD"
| "state_of_wire WIRE_RECEIVE = RECEIVE"

fun level_of_wire :: "wire_level \<Rightarrow> message_type option" where
  "level_of_wire WIRE_INFO = Some INFO" | "level_of_wire WIRE_WARNING = Some WARNING" | "level_of_wire WIRE_ERROR = Some ERROR"
| "level_of_wire WIRE_CONSOLE = None"

fun client_reads :: "wire_content \<Rightarrow> client_event option" where
  "client_reads (Wire_Scanner st e) =
     Some (Got_Scanner_Context (ScannerContext_make (state_of_wire st) (we_systemTag e) (we_entryTag e) (we_freq e) (we_modulation e) (we_entryIndex e)))"
| "client_reads (Wire_Demod sq g) = Some (Got_Demod_Context \<lparr>dc_gain = g, dc_squelch = sq\<rparr>)"
| "client_reads (Wire_General l s) = map_option (\<lambda>t. Got_Message \<lparr>gm_type = t, gm_content = s\<rparr>) (level_of_wire l)"
| "client_reads (Wire_System v b lo hi ms) =
     Some (Got_System_Info \<lparr>si_version = v, si_buildNumber = b, si_squelchRange = (lo, hi), si_supportedModulations = ms\<rparr>)"
| "client_reads (Wire_Level n) = Some (Got_Signal_Level n)"

text \<open>What can be told apart: a frequency that is not negative, an index without NUL.\<close>

fun wire_ok :: "client_event \<Rightarrow> bool" where
  "wire_ok (Got_Scanner_Context c) \<longleftrightarrow> 0 \<le> cx_frequency c \<and> cx_frequency c < 2 ^ 63 \<and> CHR 0x00 \<notin> set (cx_entryIndex c)"
| "wire_ok _ \<longleftrightarrow> True"

text \<open>What is left of an event: the delay and the lockout of a scanner context are not part of a message.\<close>

fun sent_part :: "client_event \<Rightarrow> client_event" where
  "sent_part (Got_Scanner_Context c) = Got_Scanner_Context (ScannerContext_copy c)"
| "sent_part ev = ev"

lemma wire_state_inverse [simp]: "state_of_wire (wire_of_state st) = st"
  by (cases st) (simp_all add: wire_of_state_def)

lemma wire_level_inverse [simp]: "level_of_wire (wire_of_level t) = Some t"
  by (cases t) (simp_all add: wire_of_level_def)

lemma c_str_id: "CHR 0x00 \<notin> set s \<Longrightarrow> c_str s = s"
  by (auto simp: c_str_def takeWhile_eq_all_conv)

lemma wire_event_inverse: "wire_ok ev \<Longrightarrow> client_reads (stc_content (wire_event ev)) = Some (sent_part ev)"
  by (cases ev)
    (simp_all add: wire_scanner_context_def wire_demod_context_def wire_general_message_def wire_system_info_def wire_signal_level_def
      ScannerContext_make_def ScannerContext_copy_def c_str_id)



text \<open>
  A negative frequency, which \<open>long long\<close> has and \<open>uint64\<close> has not, arrives as a huge one.
\<close>

theorem negative_frequency_wraps:
  "- (2 ^ 63) \<le> cx_frequency c \<Longrightarrow> cx_frequency c < 0 \<Longrightarrow>
   \<exists>st e. stc_content (wire_scanner_context c) = Wire_Scanner st e \<and> we_freq e = 2 ^ 64 + cx_frequency c"
proof -
  assume "- (2 ^ 63) \<le> cx_frequency c" "cx_frequency c < 0"
  then have "cx_frequency c mod 2 ^ 64 = 2 ^ 64 + cx_frequency c" by (intro int_mod_pos_eq [where q = "- 1"]) auto
  then show ?thesis by (simp add: wire_scanner_context_def)
qed

end
