(* ===== verification/Media_Subsession.thy ===== *)
theory Media_Subsession
  imports Pcm_Source Context
begin

text \<open>
  The one track of the audio server (src/src/server/audio\_server/AudioServerMediaSubsession.cpp): which source
  and filter a client's stream is made of, and how it is announced. The filters and the RTP sink are LIVE555's; the
  model says which is made, from what.
\<close>

section \<open>State\<close>

datatype stream_source = Source_PCM pcm_source | Source_ULaw pcm_source | Source_Swap16 pcm_source | Source_Swap24 pcm_source

text \<open>An RTP sink: the payload type, the clock rate, the name of the format and the channels.\<close>

record rtp_sink =
  rs_payload :: nat
  rs_rate :: nat
  rs_mime :: string
  rs_channels :: nat

record media_subsession =
  md_convertToULaw :: bool
  md_bitsPerSample :: nat
  md_samplingFrequency :: nat
  md_numChannels :: nat
  md_fileDuration :: rat

definition AudioServerMediaSubsession :: "bool \<Rightarrow> media_subsession" where
  "AudioServerMediaSubsession convertToULaw = \<lparr>md_convertToULaw = convertToULaw, md_bitsPerSample = 16, md_samplingFrequency = 0,
     md_numChannels = 1, md_fileDuration = 0\<rparr>"

section \<open>Operations\<close>

text \<open>The format that \<open>LocalPCMSource\<close> gives to its base class: 16 bits, one channel.\<close>

definition source_bits :: "pcm_source \<Rightarrow> nat" where "source_bits s = 16"

definition source_channels :: "pcm_source \<Rightarrow> nat" where "source_channels s = 1"

definition bits_handled :: "nat \<Rightarrow> bool" where
  "bits_handled bits \<longleftrightarrow> \<not> (bits mod 4 \<noteq> 0 \<or> bits < 4 \<or> bits > 24 \<or> bits = 12)"

text \<open>The source, if there is one, the estimated bit rate in kbps, which is left as it was without one, and the session.\<close>

definition createNewStreamSource ::
    "audio_thread option \<Rightarrow> nat \<Rightarrow> media_subsession \<Rightarrow> stream_source option \<times> nat \<times> media_subsession" where
  "createNewStreamSource controller estBitrate m =
     (case createNew controller of
        None \<Rightarrow> (None, estBitrate, m)
      | Some src \<Rightarrow>
          let m1 = m\<lparr>md_bitsPerSample := source_bits src\<rparr>
          in if \<not> bits_handled (md_bitsPerSample m1) then (None, estBitrate, m1)
             else
               let m2 = m1\<lparr>md_samplingFrequency := ps_samplingFrequency src, md_numChannels := source_channels src, md_fileDuration := 0\<rparr>;
                   bps = md_samplingFrequency m2 * md_bitsPerSample m2 * md_numChannels m2 mod 2 ^ 32;
                   (result, bps') =
                     (if md_bitsPerSample m2 = 16
                      then (if md_convertToULaw m2 then (Source_ULaw src, bps div 2) else (Source_Swap16 src, bps))
                      else if md_bitsPerSample m2 = 20 \<or> md_bitsPerSample m2 = 24 then (Source_Swap24 src, bps)
                      else (Source_PCM src, bps))
               in (Some result, (bps' + 500) mod 2 ^ 32 div 1000, m2))"

definition createNewRTPSink :: "nat \<Rightarrow> media_subsession \<Rightarrow> rtp_sink" where
  "createNewRTPSink dynamic m =
     (let (mime, payload) =
        (if md_bitsPerSample m = 16
         then (if md_convertToULaw m
               then (''PCMU'', if md_samplingFrequency m = 8000 \<and> md_numChannels m = 1 then 0 else dynamic)
               else (''L16'', if md_samplingFrequency m = 44100 \<and> md_numChannels m = 2 then 10
                              else if md_samplingFrequency m = 44100 \<and> md_numChannels m = 1 then 11 else dynamic))
         else (if md_bitsPerSample m = 20 then ''L20'' else if md_bitsPerSample m = 24 then ''L24'' else ''L8'', dynamic))
      in \<lparr>rs_payload = payload, rs_rate = md_samplingFrequency m, rs_mime = mime, rs_channels = md_numChannels m\<rparr>)"

definition testScaleFactor :: "rat \<Rightarrow> media_subsession \<Rightarrow> rat" where
  "testScaleFactor scale m =
     (if md_fileDuration m \<le> 0 then 1
      else let iScale = (if scale < 0 then float_to_int (scale - 1 / 2) else float_to_int (scale + 1 / 2))
           in of_int (if iScale = 0 then 1 else iScale))"

definition duration :: "media_subsession \<Rightarrow> rat" where
  "duration m = md_fileDuration m"

section \<open>What a client is offered\<close>

text \<open>
  A stream is announced as what it is. With a controller, the source reads from the mix at the controller's rate, and the
  sink announces that rate, one channel and the format of the filter that was put behind the source, with a static payload type
  only where the standard has one for it; the estimate is the true rate of bits in kbps, to the nearest. The stream is live: it has
  no duration and no other speed. Without a controller there is no stream, and nothing changes.
\<close>

theorem stream_is_announced:
  assumes "createNew controller = Some src" "ps_samplingFrequency src < 2 ^ 27" "createNewStreamSource controller est m = (stream, kbps, m')"
  shows "stream = Some (if md_convertToULaw m then Source_ULaw src else Source_Swap16 src) \<and>
    rs_mime (createNewRTPSink dynamic m') = (if md_convertToULaw m then ''PCMU'' else ''L16'') \<and>
    rs_rate (createNewRTPSink dynamic m') = ps_samplingFrequency src \<and> rs_channels (createNewRTPSink dynamic m') = 1 \<and>
    rs_payload (createNewRTPSink dynamic m') =
      (if md_convertToULaw m \<and> ps_samplingFrequency src = 8000 then 0
       else if \<not> md_convertToULaw m \<and> ps_samplingFrequency src = 44100 then 11 else dynamic) \<and>
    kbps = (ps_samplingFrequency src * (if md_convertToULaw m then 8 else 16) + 500) div 1000 \<and>
    testScaleFactor scale m' = 1 \<and> duration m' = 0"
proof -
  have small: "ps_samplingFrequency src * 16 mod 2 ^ 32 = ps_samplingFrequency src * 16" using assms(2) by simp
  then have m': "stream = Some (if md_convertToULaw m then Source_ULaw src else Source_Swap16 src)"
    "m' = m\<lparr>md_bitsPerSample := 16, md_samplingFrequency := ps_samplingFrequency src, md_numChannels := 1, md_fileDuration := 0\<rparr>"
    "kbps = (ps_samplingFrequency src * (if md_convertToULaw m then 8 else 16) + 500) mod 2 ^ 32 div 1000"
    using assms(1,3) by (cases "md_convertToULaw m"; auto simp: createNewStreamSource_def source_bits_def source_channels_def bits_handled_def Let_def)+
  have "(ps_samplingFrequency src * (if md_convertToULaw m then 8 else 16) + 500) mod 2 ^ 32 =
      ps_samplingFrequency src * (if md_convertToULaw m then 8 else 16) + 500"
    using assms(2) by (intro mod_less) auto
  with m' show ?thesis by (simp add: createNewRTPSink_def testScaleFactor_def duration_def)
qed

theorem stream_is_announced_witness:
  "createNewStreamSource (Some (AudioThread_init\<lparr>at_sampleRate := 8000\<rparr>)) 0 (AudioServerMediaSubsession True) =
     (Some (Source_ULaw (LocalPCMSource 8000)), 64, (AudioServerMediaSubsession True)\<lparr>md_samplingFrequency := 8000\<rparr>) \<and>
   rs_payload (createNewRTPSink 96 ((AudioServerMediaSubsession True)\<lparr>md_samplingFrequency := 8000\<rparr>)) = 0"
proof -
  have c: "createNewStreamSource (Some (AudioThread_init\<lparr>at_sampleRate := 8000\<rparr>)) 0 (AudioServerMediaSubsession True) =
      (Some (Source_ULaw (LocalPCMSource 8000)), 64, (AudioServerMediaSubsession True)\<lparr>md_samplingFrequency := 8000\<rparr>)"
    by (simp add: createNewStreamSource_def createNew_def source_bits_def source_channels_def bits_handled_def AudioServerMediaSubsession_def
        LocalPCMSource_def Let_def)
  with stream_is_announced [OF _ _ c, of "LocalPCMSource 8000" 96 1] show ?thesis
    by (simp add: createNew_def LocalPCMSource_def AudioServerMediaSubsession_def)
qed

theorem no_controller_no_stream:
  "createNewStreamSource None est m = (None, est, m)"
  by (simp add: createNewStreamSource_def createNew_def)

end
