(* ===== verification/Spec2Isabelle.thy ===== *)
theory Spec2Isabelle
  imports Database Configuration Radio_Scanner Blocking_Queue Server_Queue Consoles Sentinel Pcm_Source Demod_Thread Channelizer
    Modem_Threads Audio_Device Io_Thread Retune Program_Runs
    Enumerator Interval_Timer Demod_Requests Recorder Instance_Life
    Wire_Messages Media_Subsession
begin

text \<open>
  PiScan: a model of the scanner program under src/src/ and the theorems that make it correct.

  The program. A scanner state machine (src/src/ScannerSM.cpp, on the generic machine of
  src/src/util/StateMachine.cpp) runs in its own thread. It walks a database of channels
  (src/src/scan/), grouped in bins that fit the tuner's bandwidth, asks the demodulator
  (src/src/sigproc/Demodulator.cpp) for a signal on each, and holds or receives on a channel
  that has one. Clients steer it by requests that are delivered to the machine as external
  events. The demodulator drives the part of CubicSDR that the program embeds
  (src/src/cubic/): the tuner thread, the modem manager, the modem instances and the blocking
  queues between their threads. Configuration and state are kept in property trees
  (src/src/common/).

  The theories.
  \<^item> Prelude: results that carry the faults of the program, ranges of machine integers, C's
    division, vectors. Std\_Strings: \<open>std::stoi\<close>, \<open>std::to_string\<close> and \<open>getline\<close> on strings.
  \<^item> Property\_Tree: \<open>boost::property_tree\<close>, which is not under src/, as a record of its
    operations with the laws the program relies on, and a concrete tree that satisfies them.
  \<^item> Entry, Radio\_System, Merge\_Sort, System\_List, Scan\_Walk, Database: src/src/scan/, the
    channels, the analog systems, the list with its merge sort, bins and walk.
  \<^item> Context: src/src/server/messages/, what is sent to clients.
  \<^item> State\_Machine: src/src/util/StateMachine.cpp and the interleaving of its events with
    requests of other threads. Scanner, Scanner\_Proofs, Scanner\_Runs: src/src/ScannerSM.cpp,
    its invariant, and what its runs guarantee.
  \<^item> Configuration: src/src/common/, the settings, the saved state and their files.
  \<^item> Blocking\_Queue, Tuner, Demod\_Mgr: the parts of src/src/cubic/ that the program calls, and
    src/src/sigproc/TunerManager.cpp. Demodulator: src/src/sigproc/Demodulator.cpp; Demod\_Requests:
    its handlers of messages and requests.
  \<^item> Enumerator: src/src/cubic/sdr/SDREnumerator.cpp, how the receivers are found and what the tuner
    manager is handed of them. Interval\_Timer: src/src/util/IntervalTimer.h, the thread by which the
    demodulator reports its level, beside its owner.
  \<^item> Radio\_Scanner: the scanner on the program's own demodulator.
  \<^item> Messages: src/src/common/messages.h, src/src/server/request.h and connection.h, what goes
    through the queues and what a client is handed. Server\_Manager: src/src/ServerManager.cpp,
    the table of connections, the permissions, the broadcasts. Server\_Queue: its thread beside
    the threads that give it messages, as a step relation.
  \<^item> Sdr\_Stream: the thread of the receiver, src/src/cubic/sdr/SoapySDRThread.cpp, its settings
    and the batches it reads. Channelizer: src/src/cubic/sdr/SDRPostThread.cpp, which cuts a batch
    into channels for the modems. Modem\_Threads: how a modem is ordered, made and deleted
    (DemodulatorPreThread.cpp, DemodulatorWorkerThread.cpp under src/src/cubic/demod/).
    Demod\_Thread: src/src/cubic/demod/DemodulatorThread.cpp, squelch, level and muting.
  \<^item> Audio\_Mixer: the callback of src/src/cubic/audio/AudioThread.cpp. Audio\_Device: its devices,
    controllers and commands. Pcm\_Source: src/src/server/audio\_server/LocalPCMSource.cpp, the
    stream that clients hear. Media\_Subsession: AudioServerMediaSubsession.cpp, how it is offered.
  \<^item> Wav\_File, Recorder: how a modem's audio is recorded, from the queue of the sink thread to the
    bytes of the files (AudioFileWAV.cpp, AudioSinkFileThread.cpp, AudioSinkThread.cpp under
    src/src/cubic/audio/). Stopwatch: src/src/cubic/util/Timer.cpp. Instance\_Life: how an instance's
    threads are started, told to end, joined and deleted (DemodulatorInstance.cpp).
  \<^item> Sentinel: src/src/scan/SentinelFile.cpp, the import of a database of another program.
  \<^item> Client\_Calls, Consoles: what clients ask for, src/src/server/connection/, down to the
    functions of src/src/piscan\_server.cpp that act on the scanner and the demodulator.
    Wire\_Messages: what a client on the network is sent for an event (SocketConnection.cpp, src/proto/).
  \<^item> Servers: the socket, console and audio servers (src/src/server/), how connections are accepted,
    how \<open>ServerManager\<close> starts them and how the queue thread stops them.
  \<^item> Io\_Thread: src/src/cubic/IOThread.h, the pool of buffers that every thread of the signal path
    shares, and the flags of a thread. Retune: how \<open>setFrequency\<close> hands a frequency to the tuner's
    thread (SoapySDRThread.cpp), shared access by shared access.
  \<^item> Main\_Program: \<open>main\<close> of src/src/piscan\_server.cpp, a program counter over its statements beside
    the steps of the scanner, the queue thread, the IO thread, clients and signals, all on the models
    above. Program\_Runs: what every run of the process guarantees, with one complete run.

  How the parts meet. A client of an interface is proved once, in a locale, and the provider
  interprets it: \<open>demod_interface\<close> (what the entries rely on, interpreted by \<open>Demodulator\<close>),
  \<open>scanner_radio\<close> (what the scanner relies on, interpreted on the demodulator and on a silent
  radio), \<open>state_machine\<close> (what an invariant of a machine needs, interpreted by the scanner for its own
  invariant and for the life of its thread in the process),
  \<open>frequency_sorter\<close> (interpreted by \<open>mergeSort\<close>), \<open>fifo_channel\<close> (interpreted by the queue),
  \<open>frame_writer\<close> (what the loop of the mixer needs of the way samples are put, interpreted for
  mono and for stereo). The signal chain is followed from end to end by theorems on its links: the
  batches are the stream of the device (Sdr\_Stream), every modem in the window is handed its
  channel of them (Channelizer), no modem is used after it is deleted (Modem\_Threads), what a
  modem puts out never clips (Demod\_Thread), is played in order and once (Audio\_Mixer, Audio\_Device)
  and is what the stream server delivers (Pcm\_Source).

  Faults and loops. Undefined behaviour, failed assertions and escaping exceptions are the
  values \<open>Inl\<close> of \<open>result\<close>; a loop that may not end is a \<open>partial_function\<close> or a
  \<open>while_option\<close>, and \<open>None\<close> is the run that does not end. Fuel is used in one place:
  \<open>AudioThread::setSampleRate\<close> calls itself on bound threads, with as much fuel as there are
  threads, and the invariant of Audio\_Device shows that two calls deep is enough. The number of
  passes of the engine is the length of the list of environments it is run with, which
  stand for the clock, the radio and the files at each pass.

  What is not modelled. The arithmetic of the samples: filters, resamplers and demodulation are
  liquid-dsp and parameters, and where the scanner asks for a level it is a function of the
  tuning, \<open>dr_air\<close>. Sleeps, logging, the graphical parts of CubicSDR, its own
  configuration and session files (src/src/cubic/AppConfig.cpp, SessionMgr.cpp, util/DataTree.cpp),
  which the scanner does not use, and the digital modems, which are not built. The loading of
  SoapySDR's modules is left out: which there are, and what they find, is an argument. Third-party
  libraries (boost, SoapySDR, RtAudio, liquid-dsp, LIVE555) are parameters, with their documented
  behaviour as a hypothesis where the program relies on it. Floating-point values are rationals,
  without rounding.
\<close>

end
